(* ===== verification/TNL_Prelude.thy ===== *)
theory TNL_Prelude
  imports Main "HOL-Library.Word" "HOL-Library.Monad_Syntax"
begin

unbundle bit_operations_syntax

text \<open>
  Shared vocabulary of the development: the machine types of \<^verbatim>\<open>tnl/tnlTypes.h\<close>,
  blocks of memory with checked access, the bit view of a block, and the lemma
  collections the component theories use.

  A block of memory is a list of bytes. A C++ access outside the block is undefined
  behaviour; here \<open>ld\<close> and \<open>st\<close> return \<open>None\<close> for it, so a theorem that an
  operation returns \<open>Some\<close> also says that it stays inside its memory.
\<close>

named_theorems mem_simps \<open>equations about loads and stores\<close>
named_theorems bit_view \<open>equations about the bits of a block of memory\<close>

type_synonym u8 = "8 word"
type_synonym u16 = "16 word"
type_synonym u32 = "32 word"
type_synonym u64 = "64 word"
type_synonym mem = "u8 list"

section \<open>Checked memory\<close>

definition ld :: "'a list \<Rightarrow> nat \<Rightarrow> 'a option" where
  "ld m i = (if i < length m then Some (m ! i) else None)"

definition st :: "'a list \<Rightarrow> nat \<Rightarrow> 'a \<Rightarrow> 'a list option" where
  "st m i v = (if i < length m then Some (m[i := v]) else None)"

lemma ld_in [mem_simps]: "i < length m \<Longrightarrow> ld m i = Some (m ! i)"
  by (simp add: ld_def)

lemma ld_out [mem_simps]: "length m \<le> i \<Longrightarrow> ld m i = None"
  by (simp add: ld_def)

lemma ld_SomeD: "ld m i = Some v \<Longrightarrow> i < length m \<and> v = m ! i"
  by (simp add: ld_def split: if_splits)

lemma st_in [mem_simps]: "i < length m \<Longrightarrow> st m i v = Some (m[i := v])"
  by (simp add: st_def)

lemma st_out [mem_simps]: "length m \<le> i \<Longrightarrow> st m i v = None"
  by (simp add: st_def)

lemma st_SomeD: "st m i v = Some m' \<Longrightarrow> i < length m \<and> m' = m[i := v]"
  by (simp add: st_def split: if_splits)

lemma st_length: "st m i v = Some m' \<Longrightarrow> length m' = length m"
  by (auto dest: st_SomeD)

section \<open>Bits of a block\<close>

text \<open>Bit \<open>p\<close> of a block: bit \<open>p mod 8\<close> of byte \<open>p div 8\<close>, low bit first.\<close>

definition bit_at :: "mem \<Rightarrow> nat \<Rightarrow> bool" where
  "bit_at m p = bit (m ! (p div 8)) (p mod 8)"

text \<open>The reference for every packed write: one bit set or cleared at a time.\<close>

definition put_bit :: "mem \<Rightarrow> nat \<Rightarrow> bool \<Rightarrow> mem" where
  "put_bit m p b = m[p div 8 := (if b then m ! (p div 8) OR push_bit (p mod 8) 1
                                 else m ! (p div 8) AND NOT (push_bit (p mod 8) 1))]"

fun put_bits :: "mem \<Rightarrow> nat \<Rightarrow> bool list \<Rightarrow> mem" where
  "put_bits m p [] = m"
| "put_bits m p (b # bs) = put_bits (put_bit m p b) (Suc p) bs"

definition get_bits :: "mem \<Rightarrow> nat \<Rightarrow> nat \<Rightarrow> bool list" where
  "get_bits m p n = map (\<lambda>k. bit_at m (p + k)) [0..<n]"

lemma length_put_bit [simp]: "length (put_bit m p b) = length m"
  by (simp add: put_bit_def)

lemma length_put_bits [simp]: "length (put_bits m p bs) = length m"
  by (induction m p bs rule: put_bits.induct) simp_all

lemma length_get_bits [simp]: "length (get_bits m p n) = n"
  by (simp add: get_bits_def)

lemma div_mod_8_eq: "p div 8 = q div 8 \<Longrightarrow> p mod 8 = q mod 8 \<Longrightarrow> p = (q::nat)"
  by (metis div_mult_mod_eq)

lemma bit_one_word_8 [bit_view]: "bit (1 :: u8) i \<longleftrightarrow> i = 0"
  by (simp add: bit_1_iff)

lemma bit_at_put_bit [bit_view]:
  assumes "p < 8 * length m"
  shows "bit_at (put_bit m p b) q = (if q = p then b else bit_at m q)"
proof (cases "q div 8 = p div 8")
  case True
  have len: "p div 8 < length m" using assms by auto
  have mq: "q mod 8 < 8" and mp: "p mod 8 < 8" by simp_all
  show ?thesis
  proof (cases "q = p")
    case True
    with len mp show ?thesis
      by (simp add: bit_at_def put_bit_def bit_simps)
  next
    case False
    with True have "q mod 8 \<noteq> p mod 8" using div_mod_8_eq by blast
    with len mq mp True False show ?thesis
      by (simp add: bit_at_def put_bit_def bit_simps)
  qed
next
  case False
  then show ?thesis by (auto simp: bit_at_def put_bit_def)
qed

lemma bit_at_put_bits [bit_view]:
  "p + length bs \<le> 8 * length m \<Longrightarrow>
   bit_at (put_bits m p bs) q =
     (if p \<le> q \<and> q < p + length bs then bs ! (q - p) else bit_at m q)"
proof (induction m p bs rule: put_bits.induct)
  case (1 m p)
  then show ?case by auto
next
  case (2 m p b bs)
  have IH: "bit_at (put_bits (put_bit m p b) (Suc p) bs) q =
      (if Suc p \<le> q \<and> q < Suc p + length bs then bs ! (q - Suc p) else bit_at (put_bit m p b) q)"
    using 2 by simp
  have "bit_at (put_bit m p b) q = (if q = p then b else bit_at m q)"
    using "2.prems" by (simp add: bit_view)
  with IH show ?case by (auto simp: nth_Cons')
qed

lemma mem_eqI:
  assumes "length m = length m'"
    and "\<And>p. p < 8 * length m \<Longrightarrow> bit_at m p = bit_at m' p"
  shows "m = m'"
proof (rule nth_equalityI [OF assms(1)])
  fix j assume j: "j < length m"
  show "m ! j = m' ! j"
  proof (rule bit_word_eqI)
    fix i assume "i < LENGTH(8)"
    then have i: "i < 8" by simp
    with j have "8 * j + i < 8 * length m" by linarith
    from assms(2) [OF this] i show "bit (m ! j) i = bit (m' ! j) i"
      by (simp add: bit_at_def)
  qed
qed

lemma get_bits_put_bits:
  "p + length bs \<le> 8 * length m \<Longrightarrow> get_bits (put_bits m p bs) p (length bs) = bs"
  by (rule nth_equalityI) (auto simp: get_bits_def bit_view)

lemma nth_get_bits [simp]: "k < n \<Longrightarrow> get_bits m p n ! k = bit_at m (p + k)"
  by (simp add: get_bits_def)

section \<open>Little-endian numbers in memory\<close>

text \<open>
  \<^verbatim>\<open>convertHostToLEndian\<close> followed by taking the address of the result
  (\<^verbatim>\<open>tnl/tnlEndian.h\<close>): on either host the bytes in memory are the little-endian
  bytes of the value.
\<close>

definition le_bytes :: "nat \<Rightarrow> 'a::len word \<Rightarrow> mem" where
  "le_bytes n v = map (\<lambda>i. ucast (drop_bit (8 * i) v)) [0..<n]"

fun le_value :: "mem \<Rightarrow> 'a::len word" where
  "le_value [] = 0"
| "le_value (b # bs) = ucast b OR push_bit 8 (le_value bs)"

lemma length_le_bytes [simp]: "length (le_bytes n v) = n"
  by (simp add: le_bytes_def)

lemma bit_at_le_bytes [bit_view]:
  fixes v :: "'a::len word"
  shows "p < 8 * n \<Longrightarrow> bit_at (le_bytes n v) p = bit v p"
  by (auto simp: bit_at_def le_bytes_def bit_simps less_mult_imp_div_less mult.commute
      dest: bit_imp_le_length)

lemma bit_le_value [bit_view]:
  "bit (le_value bs :: 'a::len word) p \<longleftrightarrow> p < LENGTH('a) \<and> p < 8 * length bs \<and> bit_at bs p"
proof (induction bs arbitrary: p)
  case Nil
  then show ?case by simp
next
  case (Cons b bs)
  show ?case
  proof (cases "p < 8")
    case True
    then show ?thesis by (auto simp: bit_at_def bit_simps)
  next
    case False
    then obtain k where k: "p = k + 8" by (metis add.commute le_Suc_ex not_less)
    then have "p div 8 = Suc ((p - 8) div 8)" and "p mod 8 = (p - 8) mod 8"
      by simp_all
    moreover have "p < 8 * length (b # bs) \<longleftrightarrow> p - 8 < 8 * length bs" using False by auto
    moreover have "\<not> bit b p" using False by (auto dest: bit_imp_le_length)
    ultimately show ?thesis using False Cons.IH [of "p - 8"]
      by (auto simp: bit_at_def bit_simps)
  qed
qed

section \<open>Words\<close>

text \<open>A property of all words below a bound, checked value by value.\<close>

lemma word_below_cases:
  fixes w :: "'a::len word"
  assumes "list_all (\<lambda>i. P (of_nat i)) [0..<k]" and "unat w < k"
  shows "P w"
proof -
  have w: "of_nat (unat w) = w" by simp
  have "unat w \<in> set [0..<k]" using assms(2) by simp
  with assms(1) have "P (of_nat (unat w) :: 'a word)" unfolding list_all_iff by blast
  then show ?thesis by (simp only: w)
qed

lemma sint_below_half:
  fixes w :: u32
  assumes "unat w < 2 ^ 31"
  shows "sint w = int (unat w)"
proof -
  have u: "uint w = int (unat w)" by simp
  have "int (unat w) < int (2 ^ 31)" using assms by (simp only: of_nat_less_iff)
  then have "int (unat w) < 2 ^ 31" by (simp only: of_nat_power of_nat_numeral)
  then have "signed_take_bit 31 (int (unat w)) = int (unat w)"
    by (intro signed_take_bit_int_eq_self) linarith+
  then show ?thesis by (simp only: sint_uint u) simp
qed

end
