(* ===== verification/Machine_Types.thy ===== *)
theory Machine_Types
  imports TNL_Prelude
begin

text \<open>
  The numeric helpers of \<^verbatim>\<open>tnl/tnlTypes.h\<close>: powers of two, the binary logarithm that
  reads the exponent of a \<^verbatim>\<open>float\<close>, the big-endian readers and writers and the
  templatised minimum and maximum.
\<close>

section \<open>Powers of two\<close>

definition isPow2 :: "u32 \<Rightarrow> bool" where
  "isPow2 number \<longleftrightarrow> number AND (number - 1) = 0"

text \<open>
  \<^verbatim>\<open>F32(value)\<close> rounds the 32-bit value to the nearest single-precision number, ties to
  even; \<open>f32_bits\<close> is the bit pattern of the result for a non-negative integer: the
  exponent field above bit 23, the fraction below. The fraction of a value with at most 24
  significant bits is exact; a carry out of the rounding moves into the exponent.
\<close>

fun msb_index :: "nat \<Rightarrow> nat" where
  "msb_index n = (if n < 2 then 0 else Suc (msb_index (n div 2)))"

declare msb_index.simps [simp del]

definition f32_significand :: "nat \<Rightarrow> nat" where
  "f32_significand n =
     (let e = msb_index n in
      if e \<le> 23 then n * 2 ^ (23 - e)
      else let s = e - 23; q = n div 2 ^ s; r = n mod 2 ^ s; half = 2 ^ (s - 1) in
           if r > half \<or> r = half \<and> odd q then q + 1 else q)"

definition f32_bits :: "nat \<Rightarrow> nat" where
  "f32_bits n = (if n = 0 then 0
     else (msb_index n + 127) * 2 ^ 23 + (f32_significand n - 2 ^ 23))"

definition getBinLog2 :: "u32 \<Rightarrow> u32" where
  "getBinLog2 val = drop_bit 23 (of_nat (f32_bits (unat val))) - 127"

definition getNextBinLog2 :: "u32 \<Rightarrow> u32" where
  "getNextBinLog2 number = getBinLog2 number + (if isPow2 number then 0 else 1)"

definition getNextPow2 :: "u32 \<Rightarrow> u32" where
  "getNextPow2 val = (if isPow2 val then val else push_bit (unat (getBinLog2 val + 1)) 1)"

definition fourByteAlign :: "u32 \<Rightarrow> u32" where
  "fourByteAlign val = (val + 3) AND NOT 3"

definition getMin :: "u32 \<Rightarrow> u32 \<Rightarrow> u32" where
  "getMin a b = (if a > b then b else a)"

definition getMax :: "u32 \<Rightarrow> u32 \<Rightarrow> u32" where
  "getMax a b = (if a > b then a else b)"

section \<open>Big-endian values in byte buffers\<close>

definition writeU32ToBuffer :: "u32 \<Rightarrow> mem" where
  "writeU32ToBuffer val =
     [ucast (drop_bit 24 val), ucast (drop_bit 16 val), ucast (drop_bit 8 val), ucast val]"

definition readU32FromBuffer :: "mem \<Rightarrow> u32 option" where
  "readU32FromBuffer buf = do {
     b0 \<leftarrow> ld buf 0; b1 \<leftarrow> ld buf 1; b2 \<leftarrow> ld buf 2; b3 \<leftarrow> ld buf 3;
     Some (push_bit 24 (ucast b0) OR push_bit 16 (ucast b1) OR push_bit 8 (ucast b2) OR ucast b3) }"

definition writeU16ToBuffer :: "u16 \<Rightarrow> mem" where
  "writeU16ToBuffer val = [ucast (drop_bit 8 val), ucast val]"

definition readU16FromBuffer :: "mem \<Rightarrow> u16 option" where
  "readU16FromBuffer buf = do {
     b0 \<leftarrow> ld buf 0; b1 \<leftarrow> ld buf 1; Some (push_bit 8 (ucast b0) OR ucast b1) }"

lemma bytes_of_u32:
  "push_bit 24 (ucast (ucast (drop_bit 24 v) :: u8)) OR push_bit 16 (ucast (ucast (drop_bit 16 v) :: u8))
     OR push_bit 8 (ucast (ucast (drop_bit 8 v) :: u8)) OR ucast (ucast v :: u8) = (v :: u32)"
  (is "?l = v")
proof (rule bit_word_eqI)
  fix n assume "n < LENGTH(32)"
  then consider "n < 8" | "8 \<le> n" "n < 16" | "16 \<le> n" "n < 24" | "24 \<le> n" "n < 32"
    by fastforce
  then show "bit ?l n = bit v n" by cases (auto simp: bit_simps)
qed

lemma readU32_writeU32: "readU32FromBuffer (writeU32ToBuffer v @ rest) = Some v"
  by (simp add: readU32FromBuffer_def writeU32ToBuffer_def mem_simps bytes_of_u32)

lemma readU16_writeU16: "readU16FromBuffer (writeU16ToBuffer v @ rest) = Some v"
proof -
  have "push_bit 8 (ucast (ucast (drop_bit 8 v) :: u8)) OR ucast (ucast v :: u8) = (v :: u16)"
    by (rule bit_word_eqI) (auto simp: bit_simps)
  then show ?thesis by (simp add: readU16FromBuffer_def writeU16ToBuffer_def mem_simps)
qed

lemma writeU32ToBuffer_inj: "writeU32ToBuffer a = writeU32ToBuffer b \<Longrightarrow> a = b"
  using readU32_writeU32 [of a "[]"] readU32_writeU32 [of b "[]"] by simp

lemma length_writeU32ToBuffer [simp]: "length (writeU32ToBuffer v) = 4"
  by (simp add: writeU32ToBuffer_def)

section \<open>Correctness of the power-of-two test\<close>

lemma nat_and_pred_even: "0 < m \<Longrightarrow> (2 * m) AND (2 * m - 1) = 2 * (m AND (m - 1))" for m :: nat
proof -
  assume "0 < m"
  then have "(2 * m - 1) div 2 = m - 1" by presburger
  then show ?thesis by (subst and_nat_rec) simp
qed

lemma nat_and_pred_odd: "(2 * m + 1) AND (2 * m) = 2 * (m :: nat)"
  by (subst and_nat_rec) simp

lemma nat_and_pred_zero_iff: "0 < n \<Longrightarrow> n AND (n - 1) = 0 \<longleftrightarrow> (\<exists>k. n = 2 ^ k)" for n :: nat
proof (induction n rule: less_induct)
  case (less n)
  show ?case
  proof (cases "even n")
    case True
    then obtain m where m: "n = 2 * m" by blast
    with less.prems have "0 < m" and "m < n" by simp_all
    with less.IH [of m] m have IH: "n AND (n - 1) = 0 \<longleftrightarrow> (\<exists>k. m = 2 ^ k)"
      using nat_and_pred_even [of m] by simp
    have "(\<exists>k. m = 2 ^ k) \<longleftrightarrow> (\<exists>k. n = 2 ^ k)"
    proof
      assume "\<exists>k. m = 2 ^ k"
      then show "\<exists>k. n = 2 ^ k" using m by (metis power_Suc)
    next
      assume "\<exists>k. n = 2 ^ k"
      then obtain k where k: "n = 2 ^ k" ..
      with True obtain j where "k = Suc j" by (cases k) auto
      with k m show "\<exists>k. m = 2 ^ k" by auto
    qed
    with IH show ?thesis by simp
  next
    case False
    then obtain m where m: "n = 2 * m + 1" by (metis oddE)
    have "n AND (n - 1) = 2 * m" using nat_and_pred_odd [of m] m by simp
    moreover have "(\<exists>k. n = 2 ^ k) \<longleftrightarrow> m = 0"
    proof
      assume "\<exists>k. n = 2 ^ k"
      then obtain k where "n = 2 ^ k" ..
      with m show "m = 0" by (cases k) (auto, presburger)
    next
      assume "m = 0"
      with m have "n = 2 ^ 0" by simp
      then show "\<exists>k. n = 2 ^ k" by blast
    qed
    ultimately show ?thesis by simp
  qed
qed

lemma isPow2_iff: "isPow2 v \<longleftrightarrow> v = 0 \<or> (\<exists>k. unat v = 2 ^ k)"
proof (cases "v = 0")
  case True
  then show ?thesis by (simp add: isPow2_def)
next
  case False
  then have pos: "0 < unat v" by (simp add: unat_gt_0)
  have "unat (v AND (v - 1)) = unat v AND (unat v - 1)"
    using False by (simp add: unsigned_and_eq unat_minus_one)
  then have "isPow2 v \<longleftrightarrow> unat v AND (unat v - 1) = 0"
    by (simp add: isPow2_def word_unat_eq_iff)
  with nat_and_pred_zero_iff [OF pos] False show ?thesis by simp
qed

section \<open>The logarithm\<close>

lemma msb_index_bounds: "0 < n \<Longrightarrow> 2 ^ msb_index n \<le> n \<and> n < 2 ^ Suc (msb_index n)"
proof (induction n rule: msb_index.induct)
  case (1 n)
  show ?case
  proof (cases "n < 2")
    case True
    with "1.prems" show ?thesis by (subst (1 2) msb_index.simps) simp
  next
    case False
    with 1 have "2 ^ msb_index (n div 2) \<le> n div 2 \<and> n div 2 < 2 ^ Suc (msb_index (n div 2))"
      by simp
    moreover have "msb_index n = Suc (msb_index (n div 2))"
      using False by (subst msb_index.simps) simp
    ultimately show ?thesis by auto
  qed
qed

lemma msb_index_unique: "2 ^ e \<le> n \<Longrightarrow> n < 2 ^ Suc e \<Longrightarrow> msb_index n = e"
proof -
  assume e: "2 ^ e \<le> n" "n < 2 ^ Suc e"
  then have "0 < n" by (meson less_le_trans zero_less_numeral zero_less_power)
  from msb_index_bounds [OF this] e have "2 ^ msb_index n < (2::nat) ^ Suc e"
    and "2 ^ e < (2::nat) ^ Suc (msb_index n)" by linarith+
  then show ?thesis by (metis less_Suc_eq_le le_antisym power_less_imp_less_exp one_less_numeral_iff semiring_norm(76))
qed

lemma f32_significand_bounds:
  assumes "0 < n"
  shows "2 ^ 23 \<le> f32_significand n \<and> f32_significand n \<le> 2 ^ 24"
proof -
  define e where "e = msb_index n"
  from msb_index_bounds [OF assms] have b: "2 ^ e \<le> n" "n < 2 ^ Suc e" by (simp_all add: e_def)
  show ?thesis
  proof (cases "e \<le> 23")
    case True
    have "2 ^ e * 2 ^ (23 - e) \<le> n * 2 ^ (23 - e)" and "n * 2 ^ (23 - e) \<le> 2 ^ Suc e * 2 ^ (23 - e)"
      using b by (simp_all only: mult_le_mono1 less_imp_le)
    moreover have "2 ^ e * 2 ^ (23 - e) = (2::nat) ^ 23" and "2 ^ Suc e * 2 ^ (23 - e) = (2::nat) ^ 24"
      using True by (simp_all flip: power_add power_Suc)
    ultimately show ?thesis using True
      by (simp only: f32_significand_def Let_def e_def [symmetric] if_True)
  next
    case False
    define s where "s = e - 23"
    have e: "e = 23 + s" using False by (simp add: s_def)
    have "2 ^ 23 * 2 ^ s \<le> n" and "n < 2 ^ 24 * 2 ^ s"
      using b by (simp_all add: e power_add)
    then have "2 ^ 23 \<le> n div 2 ^ s" and "n div 2 ^ s < 2 ^ 24"
      by (simp_all add: less_mult_imp_div_less less_eq_div_iff_mult_less_eq)
    then show ?thesis using False
      by (simp add: f32_significand_def Let_def e_def [symmetric] s_def [symmetric])
  qed
qed

text \<open>The exponent field: the logarithm, one more when the rounding carries.\<close>

lemma f32_bits_exponent:
  assumes "0 < n"
  shows "f32_bits n div 2 ^ 23 = msb_index n + 127 + (if f32_significand n = 2 ^ 24 then 1 else 0)"
proof -
  from f32_significand_bounds [OF assms]
  have s: "2 ^ 23 \<le> f32_significand n" "f32_significand n \<le> 2 ^ 24" by simp_all
  define t where "t = f32_significand n - 2 ^ 23"
  have "f32_bits n div 2 ^ 23 = msb_index n + 127 + t div 2 ^ 23"
    using assms by (simp add: f32_bits_def t_def)
  moreover have "t div 2 ^ 23 = (if f32_significand n = 2 ^ 24 then 1 else 0)"
    using s by (auto simp: t_def)
  ultimately show ?thesis by simp
qed

lemma msb_index_32: "unat (v :: u32) \<noteq> 0 \<Longrightarrow> msb_index (unat v) \<le> 31"
proof -
  assume "unat v \<noteq> 0"
  then have "2 ^ msb_index (unat v) \<le> unat v" using msb_index_bounds by blast
  also have "unat v < 2 ^ 32" using unsigned_less [of v, where ?'a = nat] by simp
  finally have "msb_index (unat v) < 32" by (rule power_less_imp_less_exp [rotated]) simp
  then show ?thesis by simp
qed

lemma getBinLog2_eq:
  assumes "v \<noteq> 0"
  shows "unat (getBinLog2 v) =
     msb_index (unat v) + (if f32_significand (unat v) = 2 ^ 24 then 1 else 0)"
proof -
  define n where "n = unat v"
  have n0: "0 < n" using assms by (simp add: n_def unat_gt_0)
  define x where "x = msb_index n + (if f32_significand n = 2 ^ 24 then 1 else 0)"
  have x: "x \<le> 32" using msb_index_32 [of v] n0 by (simp add: x_def n_def)
  have fx: "f32_bits n div 2 ^ 23 = x + 127"
    using f32_bits_exponent [OF n0] by (simp add: x_def)
  have "f32_bits n < 2 ^ 32"
  proof -
    have "f32_bits n < (x + 127 + 1) * 2 ^ 23"
      using fx using dividend_less_div_times [of "2 ^ 23" "f32_bits n"] by simp
    also have "\<dots> \<le> 160 * 2 ^ 23" using x by simp
    finally show ?thesis by simp
  qed
  then have "unat (of_nat (f32_bits n) :: u32) = f32_bits n"
    by (simp add: unat_of_nat take_bit_nat_eq_self)
  then have u: "unat (drop_bit 23 (of_nat (f32_bits n) :: u32)) = x + 127"
    using fx by (simp add: unat_drop_bit_eq drop_bit_eq_div unat_div)
  have "drop_bit 23 (of_nat (f32_bits n)) = (of_nat (unat (drop_bit 23 (of_nat (f32_bits n) :: u32))) :: u32)"
    by simp
  also have "\<dots> = of_nat (x + 127)" by (simp only: u)
  finally have "drop_bit 23 (of_nat (f32_bits n)) = (of_nat (x + 127) :: u32)" .
  then have "getBinLog2 v = of_nat x"
    by (simp add: getBinLog2_def n_def [symmetric])
  moreover have "unat (of_nat x :: u32) = x" using x
    by (simp add: unat_of_nat take_bit_nat_eq_self)
  ultimately show ?thesis by (simp only: x_def n_def)
qed

lemma getBinLog2_small:
  assumes "v \<noteq> 0" and "unat v < 2 ^ 24"
  shows "unat (getBinLog2 v) = msb_index (unat v)"
proof -
  define n where "n = unat v"
  have n: "0 < n" "n < 2 ^ 24" using assms by (simp_all add: n_def unat_gt_0)
  define e where "e = msb_index n"
  have b: "2 ^ e \<le> n" "n < 2 ^ Suc e" using msb_index_bounds [OF n(1)] by (simp_all add: e_def)
  have "(2::nat) ^ e < 2 ^ 24" using b(1) n(2) by linarith
  then have e: "e \<le> 23" using power_less_imp_less_exp [of "2::nat" e 24] by simp
  have "n * 2 ^ (23 - e) < 2 ^ Suc e * 2 ^ (23 - e)" using b by simp
  also have "\<dots> = (2::nat) ^ 24" using e by (simp flip: power_add power_Suc)
  finally have "f32_significand n \<noteq> 2 ^ 24"
    using e by (simp add: f32_significand_def Let_def e_def [symmetric])
  with getBinLog2_eq [OF assms(1)] show ?thesis by (simp add: n_def)
qed

text \<open>
  The bit count that covers a range: \<open>getNextBinLog2\<close> never undershoots, whatever the
  rounding of the float does.
\<close>

lemma unat_getNextBinLog2:
  assumes "v \<noteq> 0"
  shows "unat (getNextBinLog2 v) = unat (getBinLog2 v) + (if isPow2 v then 0 else 1)"
proof -
  have "unat (getBinLog2 v) \<le> 32"
    using getBinLog2_eq [OF assms] msb_index_32 [of v] assms by (simp add: unat_gt_0 split: if_splits)
  then show ?thesis
    by (simp add: getNextBinLog2_def unat_word_ariths take_bit_nat_eq_self)
qed

lemma getNextBinLog2_covers:
  assumes "v \<noteq> 0"
  shows "unat v \<le> 2 ^ unat (getNextBinLog2 v)"
proof -
  define e where "e = msb_index (unat v)"
  have b: "2 ^ e \<le> unat v" "unat v < 2 ^ Suc e"
    using msb_index_bounds [of "unat v"] assms by (simp_all add: e_def unat_gt_0)
  have ge: "e \<le> unat (getBinLog2 v)"
    using getBinLog2_eq [OF assms] by (simp add: e_def)
  show ?thesis
  proof (cases "isPow2 v")
    case True
    with assms obtain k where k: "unat v = 2 ^ k" by (auto simp: isPow2_iff)
    then have "e = k" using msb_index_unique [of k "2 ^ k"] by (simp add: e_def)
    with k ge show ?thesis
      by (simp add: unat_getNextBinLog2 [OF assms] True)
  next
    case False
    then have "Suc e \<le> unat (getNextBinLog2 v)"
      using ge by (simp add: unat_getNextBinLog2 [OF assms])
    then have "(2::nat) ^ Suc e \<le> 2 ^ unat (getNextBinLog2 v)"
      by (rule power_increasing) simp
    with b show ?thesis by linarith
  qed
qed

lemma f32_significand_pow2: "f32_significand (2 ^ k) = 2 ^ 23"
proof -
  have "msb_index (2 ^ k) = k" by (rule msb_index_unique) simp_all
  moreover have "(2::nat) ^ k div 2 ^ (k - 23) = 2 ^ 23" and "(2::nat) ^ k mod 2 ^ (k - 23) = 0" if "\<not> k \<le> 23"
  proof -
    have "(2::nat) ^ k = 2 ^ 23 * 2 ^ (k - 23)"
      using that by (metis le_add_diff_inverse nat_le_linear power_add)
    then show "(2::nat) ^ k div 2 ^ (k - 23) = 2 ^ 23" "(2::nat) ^ k mod 2 ^ (k - 23) = 0" by simp_all
  qed
  moreover have "(2::nat) ^ k * 2 ^ (23 - k) = 2 ^ 23" if "k \<le> 23"
    using that by (simp flip: power_add)
  ultimately show ?thesis by (auto simp: f32_significand_def Let_def)
qed

lemma getNextBinLog2_le:
  assumes "v \<noteq> 0" and "unat v < 2 ^ 32 - 128"
  shows "unat (getNextBinLog2 v) \<le> 32"
proof (cases "isPow2 v")
  case True
  with assms(1) obtain k where k: "unat v = 2 ^ k" by (auto simp: isPow2_iff)
  have "f32_significand (unat v) \<noteq> 2 ^ 24" unfolding k f32_significand_pow2 by simp
  then show ?thesis
    using getBinLog2_eq [OF assms(1)] msb_index_32 [of v] assms(1) True
    by (simp add: unat_getNextBinLog2 unat_gt_0)
next
  case False
  define n where "n = unat v"
  have n0: "0 < n" using assms(1) by (simp add: n_def unat_gt_0)
  have e: "msb_index n \<le> 31" using msb_index_32 [of v] n0 by (simp add: n_def)
  have "f32_significand n \<noteq> 2 ^ 24" if "msb_index n = 31"
  proof
    assume s: "f32_significand n = 2 ^ 24"
    have n: "n < 4294967168" using assms(2) by (simp add: n_def)
    from s that have "16777216 \<le> n div 256 \<or> n div 256 = 16777215 \<and> 128 \<le> n mod 256"
      by (auto simp: f32_significand_def Let_def split: if_splits)
    moreover have "n = n div 256 * 256 + n mod 256" by (simp only: div_mult_mod_eq)
    ultimately show False using n by (elim disjE conjE) linarith+
  qed
  then have "msb_index n \<noteq> 31 \<or> f32_significand n \<noteq> 2 ^ 24" by blast
  then have "unat (getBinLog2 v) \<le> 31"
    using getBinLog2_eq [OF assms(1), folded n_def] e by (cases "msb_index n = 31") simp_all
  then show ?thesis by (simp add: unat_getNextBinLog2 [OF assms(1)])
qed

text \<open>Below \<open>2 ^ 24\<close> the float is exact and the count is the least one that covers.\<close>

lemma getNextBinLog2_least:
  assumes "v \<noteq> 0" and "unat v < 2 ^ 24" and "unat v \<le> 2 ^ k"
  shows "unat (getNextBinLog2 v) \<le> k"
proof -
  define e where "e = msb_index (unat v)"
  have b: "2 ^ e \<le> unat v" "unat v < 2 ^ Suc e"
    using msb_index_bounds [of "unat v"] assms(1) by (simp_all add: e_def unat_gt_0)
  have g: "unat (getBinLog2 v) = e" using getBinLog2_small [OF assms(1,2)] by (simp add: e_def)
  have ek: "e \<le> k" using b(1) assms(3) by (meson le_trans one_less_numeral_iff power_le_imp_le_exp semiring_norm(76))
  show ?thesis
  proof (cases "isPow2 v")
    case True
    then show ?thesis using g ek by (simp add: unat_getNextBinLog2 [OF assms(1)])
  next
    case False
    then have "unat v \<noteq> 2 ^ k" by (auto simp: isPow2_iff)
    with b(1) assms(3) have "(2::nat) ^ e < 2 ^ k" by linarith
    then have "e < k" by simp
    then show ?thesis using g False by (simp add: unat_getNextBinLog2 [OF assms(1)])
  qed
qed

end
