(* ===== verification/Byte_Buffer.thy ===== *)
theory Byte_Buffer
  imports Machine_Types
begin

text \<open>
  \<^verbatim>\<open>tnl/tnlByteBuffer.h\<close> and \<^verbatim>\<open>tnl/byteBuffer.cpp\<close>: a block of bytes with a
  logical size and an ownership flag, its base-16 text form and its CRC.

  \<open>mDataPtr\<close> is the whole block the pointer designates, \<open>mBufSize\<close> the size the object
  keeps for it. \<open>mFresh\<close> is not a field of the class: it gives the bytes that a fresh
  allocation happens to contain, which C leaves open; every theorem holds for any of them.
  An allocation never fails here.
\<close>

section \<open>State and operations\<close>

record byte_buffer =
  mDataPtr :: mem
  mBufSize :: u32
  mOwnsMemory :: bool
  mFresh :: "nat \<Rightarrow> u8"

definition malloc :: "(nat \<Rightarrow> u8) \<Rightarrow> nat \<Rightarrow> mem" where
  "malloc fresh n = map fresh [0..<n]"

definition realloc :: "(nat \<Rightarrow> u8) \<Rightarrow> mem \<Rightarrow> nat \<Rightarrow> mem" where
  "realloc fresh old n = map (\<lambda>i. if i < length old then old ! i else fresh i) [0..<n]"

definition ByteBuffer_wrap :: "(nat \<Rightarrow> u8) \<Rightarrow> mem \<Rightarrow> u32 \<Rightarrow> byte_buffer" where
  "ByteBuffer_wrap fresh dataPtr bufferSize =
     \<lparr>mDataPtr = dataPtr, mBufSize = bufferSize, mOwnsMemory = False, mFresh = fresh\<rparr>"

definition ByteBuffer_alloc :: "(nat \<Rightarrow> u8) \<Rightarrow> u32 \<Rightarrow> byte_buffer" where
  "ByteBuffer_alloc fresh bufferSize =
     \<lparr>mDataPtr = malloc fresh (unat bufferSize), mBufSize = bufferSize, mOwnsMemory = True,
      mFresh = fresh\<rparr>"

definition setBuffer :: "mem \<Rightarrow> u32 \<Rightarrow> 'a byte_buffer_scheme \<Rightarrow> 'a byte_buffer_scheme" where
  "setBuffer dataPtr bufferSize b =
     b\<lparr>mOwnsMemory := False, mDataPtr := dataPtr, mBufSize := bufferSize\<rparr>"

definition setBuffer_own :: "mem \<Rightarrow> u32 \<Rightarrow> bool \<Rightarrow> 'a byte_buffer_scheme \<Rightarrow> 'a byte_buffer_scheme" where
  "setBuffer_own dataPtr bufferSize newOwnsMemory b =
     (setBuffer dataPtr bufferSize b)\<lparr>mOwnsMemory := newOwnsMemory\<rparr>"

definition resize :: "u32 \<Rightarrow> 'a byte_buffer_scheme \<Rightarrow> bool \<times> 'a byte_buffer_scheme" where
  "resize newBufferSize b =
     (if mBufSize b \<ge> newBufferSize then (False, b\<lparr>mBufSize := newBufferSize\<rparr>)
      else if mOwnsMemory b then
        (True, b\<lparr>mBufSize := newBufferSize,
                 mDataPtr := realloc (mFresh b) (mDataPtr b) (unat newBufferSize)\<rparr>)
      else (False, b))"

text \<open>\<^verbatim>\<open>memcpy\<close> of \<open>src\<close> into the block at offset \<open>i\<close>.\<close>

fun memcpy :: "mem \<Rightarrow> nat \<Rightarrow> mem \<Rightarrow> mem option" where
  "memcpy m i [] = Some m"
| "memcpy m i (b # bs) = do { m' \<leftarrow> st m i b; memcpy m' (Suc i) bs }"

text \<open>The first \<open>n\<close> bytes of a block, when it has as many.\<close>

definition rd :: "mem \<Rightarrow> nat \<Rightarrow> mem option" where
  "rd m n = (if n \<le> length m then Some (take n m) else None)"

definition appendBuffer ::
  "mem \<Rightarrow> u32 \<Rightarrow> 'a byte_buffer_scheme \<Rightarrow> (bool \<times> 'a byte_buffer_scheme) option" where
  "appendBuffer dataBuffer bufferSize b =
     (let start = mBufSize b in
      case resize (mBufSize b + bufferSize) b of
        (False, b') \<Rightarrow> Some (False, b')
      | (True, b') \<Rightarrow> do {
          src \<leftarrow> rd dataBuffer (unat bufferSize);
          m \<leftarrow> memcpy (mDataPtr b') (unat start) src;
          Some (True, b'\<lparr>mDataPtr := m\<rparr>) })"

definition takeOwnership :: "'a byte_buffer_scheme \<Rightarrow> 'a byte_buffer_scheme option" where
  "takeOwnership b =
     (if mOwnsMemory b then Some b
      else do {
        src \<leftarrow> rd (mDataPtr b) (unat (mBufSize b));
        m \<leftarrow> memcpy (malloc (mFresh b) (unat (mBufSize b))) 0 src;
        Some (b\<lparr>mDataPtr := m, mOwnsMemory := True\<rparr>) })"

definition clear :: "'a byte_buffer_scheme \<Rightarrow> 'a byte_buffer_scheme option" where
  "clear b = do {
     m \<leftarrow> memcpy (mDataPtr b) 0 (replicate (unat (mBufSize b)) 0);
     Some (b\<lparr>mDataPtr := m\<rparr>) }"

text \<open>The bytes a buffer stands for, and the invariant: the block is as long as its size says.\<close>

definition contents :: "'a byte_buffer_scheme \<Rightarrow> mem" where
  "contents b = take (unat (mBufSize b)) (mDataPtr b)"

definition buffer_ok :: "'a byte_buffer_scheme \<Rightarrow> bool" where
  "buffer_ok b \<longleftrightarrow> unat (mBufSize b) \<le> length (mDataPtr b)"

section \<open>Base 16\<close>

definition encodeNibble :: "u8 \<Rightarrow> u8" where
  "encodeNibble nib = (if nib > 9 then 97 + nib - 10 else 48 + nib)"

fun encodeBase16_loop :: "mem \<Rightarrow> mem" where
  "encodeBase16_loop [] = []"
| "encodeBase16_loop (b # bs) =
     encodeNibble (drop_bit 4 b) # encodeNibble (b AND 0xF) # encodeBase16_loop bs"

text \<open>
  The loop counter is an \<^verbatim>\<open>S32\<close>, so a size of \<open>2 ^ 31\<close> or more copies nothing.
\<close>

definition encodeBase16 :: "'a byte_buffer_scheme \<Rightarrow> byte_buffer option" where
  "encodeBase16 b = do {
     src \<leftarrow> rd (mDataPtr b) (if sint (mBufSize b) < 0 then 0 else unat (mBufSize b));
     let outLen = mBufSize b * 2 + 1;
     let ret = ByteBuffer_alloc (mFresh b) outLen;
     m \<leftarrow> memcpy (mDataPtr ret) 0 (encodeBase16_loop src @ [0]);
     Some (ret\<lparr>mDataPtr := m\<rparr>) }"

text \<open>The two nibbles of a pair, with the ranges as the code tests them.\<close>

definition decodeHigh :: "u8 \<Rightarrow> u8" where
  "decodeHigh nib1 =
     (if nib1 \<ge> 48 \<and> nib1 \<le> 57 then push_bit 4 (nib1 - 48)
      else if nib1 \<ge> 97 \<and> nib1 \<le> 102 then push_bit 4 (nib1 - 97 + 10)
      else if nib1 \<ge> 65 \<and> nib1 \<le> 65 then push_bit 4 (nib1 - 65 + 10)
      else 0)"

definition decodeLow :: "u8 \<Rightarrow> u8" where
  "decodeLow nib2 =
     (if nib2 \<ge> 48 \<and> nib2 \<le> 57 then nib2 - 48
      else if nib2 \<ge> 97 \<and> nib2 \<le> 102 then nib2 - 97 + 10
      else if nib2 \<ge> 65 \<and> nib2 \<le> 65 then nib2 - 65 + 10
      else 0)"

fun decodeBase16_loop :: "mem \<Rightarrow> mem" where
  "decodeBase16_loop (a # b # bs) = (decodeHigh a OR decodeLow b) # decodeBase16_loop bs"
| "decodeBase16_loop _ = []"

definition decodeBase16 :: "'a byte_buffer_scheme \<Rightarrow> byte_buffer option" where
  "decodeBase16 b = do {
     let outLen = drop_bit 1 (mBufSize b);
     src \<leftarrow> rd (mDataPtr b) (2 * unat outLen);
     let ret = ByteBuffer_alloc (mFresh b) outLen;
     m \<leftarrow> memcpy (mDataPtr ret) 0 (decodeBase16_loop src);
     Some (ret\<lparr>mDataPtr := m\<rparr>) }"

section \<open>CRC\<close>

definition crcStep :: "u32 \<Rightarrow> u32" where
  "crcStep val = (if val AND 1 \<noteq> 0 then 0xedb88320 XOR drop_bit 1 val else drop_bit 1 val)"

definition crcTable :: "u32 list" where
  "crcTable = map (\<lambda>i. (crcStep ^^ 8) (of_nat i)) [0..<256]"

definition crcByte :: "u32 \<Rightarrow> u8 \<Rightarrow> u32" where
  "crcByte crcVal b = crcTable ! unat ((crcVal XOR ucast b) AND 0xff) XOR drop_bit 8 crcVal"

definition calculateCRC :: "u32 \<Rightarrow> u32 \<Rightarrow> u32 \<Rightarrow> 'a byte_buffer_scheme \<Rightarrow> u32 option" where
  "calculateCRC start end crcVal b =
     (if start \<ge> mBufSize b then Some 0
      else let end' = (if end > mBufSize b then mBufSize b else end) in
        do { buf \<leftarrow> rd (mDataPtr b) (unat end');
             Some (foldl crcByte crcVal (drop (unat start) buf)) })"

section \<open>Memory lemmas\<close>

lemma length_malloc [simp]: "length (malloc f n) = n"
  by (simp add: malloc_def)

lemma length_realloc [simp]: "length (realloc f m n) = n"
  by (simp add: realloc_def)

lemma nth_realloc [simp]: "i < n \<Longrightarrow> i < length m \<Longrightarrow> realloc f m n ! i = m ! i"
  by (simp add: realloc_def)

lemma take_realloc: "n \<le> length m \<Longrightarrow> n \<le> k \<Longrightarrow> take n (realloc f m k) = take n m"
  by (rule nth_equalityI) simp_all

lemma rd_in [mem_simps]: "n \<le> length m \<Longrightarrow> rd m n = Some (take n m)"
  by (simp add: rd_def)

lemma rd_SomeD: "rd m n = Some x \<Longrightarrow> n \<le> length m \<and> x = take n m"
  by (simp add: rd_def split: if_splits)

lemma memcpy_eq [mem_simps]:
  "i + length src \<le> length m \<Longrightarrow>
   memcpy m i src = Some (take i m @ src @ drop (i + length src) m)"
proof (induction m i src rule: memcpy.induct)
  case (1 m i)
  then show ?case by simp
next
  case (2 m i b bs)
  then have "i < length m" by simp
  then have "memcpy m i (b # bs) = memcpy (m[i := b]) (Suc i) bs" by (simp add: mem_simps)
  also have "\<dots> = Some (take (Suc i) (m[i := b]) @ bs @ drop (Suc i + length bs) (m[i := b]))"
    using 2 by (intro "2.IH") (auto simp: mem_simps)
  also have "take (Suc i) (m[i := b]) = take i m @ [b]"
    using \<open>i < length m\<close> by (simp add: take_Suc_conv_app_nth)
  finally show ?case by simp
qed

lemma memcpy_whole [mem_simps]: "length src = length m \<Longrightarrow> memcpy m 0 src = Some src"
  by (simp add: memcpy_eq)

lemma memcpy_None: "length m < i + length src \<Longrightarrow> src \<noteq> [] \<Longrightarrow> memcpy m i src = None"
proof (induction m i src rule: memcpy.induct)
  case (2 m i b bs)
  show ?case
  proof (cases "i < length m")
    case True
    with 2 show ?thesis by (cases bs) (auto simp: mem_simps)
  qed (simp add: mem_simps)
qed simp

section \<open>The buffer operations\<close>

lemma contents_resize:
  assumes "buffer_ok b" and "resize n b = (ok, b')"
  shows "buffer_ok b'" and "take (unat (min n (mBufSize b))) (contents b') = take (unat (min n (mBufSize b))) (contents b)"
    and "ok \<longleftrightarrow> mOwnsMemory b \<and> mBufSize b < n"
    and "mBufSize b' = (if ok \<or> n \<le> mBufSize b then n else mBufSize b)"
proof -
  have le: "unat n \<le> unat (mBufSize b)" if "n \<le> mBufSize b" using that by (simp add: word_le_nat_alt)
  show "ok \<longleftrightarrow> mOwnsMemory b \<and> mBufSize b < n"
    using assms(2) by (auto simp: resize_def not_le split: if_splits)
  show "buffer_ok b'"
    using assms le by (auto simp: resize_def buffer_ok_def split: if_splits)
  show "mBufSize b' = (if ok \<or> n \<le> mBufSize b then n else mBufSize b)"
    using assms(2) by (auto simp: resize_def split: if_splits)
  show "take (unat (min n (mBufSize b))) (contents b') = take (unat (min n (mBufSize b))) (contents b)"
    using assms le
    by (auto simp: resize_def contents_def buffer_ok_def min_def word_le_nat_alt take_realloc
        split: if_splits)
qed

lemma appendBuffer_owned:
  assumes ok: "buffer_ok b" and own: "mOwnsMemory b"
    and len: "length data = unat n" and n: "n \<noteq> 0" and fit: "unat (mBufSize b) + unat n < 2 ^ 32"
  shows "\<exists>b'. appendBuffer data n b = Some (True, b') \<and> buffer_ok b' \<and> contents b' = contents b @ data
    \<and> mOwnsMemory b'"
proof -
  have sum: "unat (mBufSize b + n) = unat (mBufSize b) + unat n"
    using fit by (simp add: unat_word_ariths)
  have "unat n \<noteq> 0" using n by (simp add: unat_gt_0)
  then have lt: "\<not> mBufSize b \<ge> mBufSize b + n" by (simp add: word_le_nat_alt sum)
  let ?m = "realloc (mFresh b) (mDataPtr b) (unat (mBufSize b + n))"
  have "memcpy ?m (unat (mBufSize b)) data =
      Some (take (unat (mBufSize b)) ?m @ data @ drop (unat (mBufSize b) + length data) ?m)"
    using len sum by (intro memcpy_eq) simp
  then show ?thesis
    using lt own ok len sum
    by (auto simp: appendBuffer_def resize_def Let_def mem_simps contents_def buffer_ok_def take_realloc)
qed

lemma takeOwnership_contents:
  assumes "buffer_ok b"
  shows "\<exists>b'. takeOwnership b = Some b' \<and> mOwnsMemory b' \<and> contents b' = contents b \<and> buffer_ok b'"
  using assms by (auto simp: takeOwnership_def mem_simps contents_def buffer_ok_def)

lemma clear_contents:
  assumes "buffer_ok b"
  shows "\<exists>b'. clear b = Some b' \<and> contents b' = replicate (unat (mBufSize b)) 0 \<and> buffer_ok b'"
  using assms by (auto simp: clear_def mem_simps contents_def buffer_ok_def)

section \<open>Base 16 round trip\<close>

lemma decodeHigh_encodeNibble: "unat n < 16 \<Longrightarrow> decodeHigh (encodeNibble n) = push_bit 4 n"
proof (rule word_below_cases [where k = 16 and P = "\<lambda>n. decodeHigh (encodeNibble n) = push_bit 4 n"])
  show "list_all (\<lambda>i. decodeHigh (encodeNibble (of_nat i)) = push_bit 4 (of_nat i)) [0..<16]"
    by code_simp
qed

lemma decodeLow_encodeNibble: "unat n < 16 \<Longrightarrow> decodeLow (encodeNibble n) = n"
proof (rule word_below_cases [where k = 16 and P = "\<lambda>n. decodeLow (encodeNibble n) = n"])
  show "list_all (\<lambda>i. decodeLow (encodeNibble (of_nat i)) = of_nat i) [0..<16]"
    by code_simp
qed

lemma and_15_take_bit: "b AND 0xF = take_bit 4 (b :: u8)"
  by (simp add: take_bit_eq_mask mask_eq_exp_minus_1)

lemma nibbles_of_byte: "push_bit 4 (drop_bit 4 b) OR (b AND 0xF) = (b :: u8)"
  unfolding and_15_take_bit by (rule bit_word_eqI) (auto simp: bit_simps)

lemma nibble_bounds: "unat (drop_bit 4 b :: u8) < 16" "unat (b AND 0xF :: u8) < 16"
proof -
  show "unat (drop_bit 4 b :: u8) < 16"
    using unsigned_less [of b, where ?'a = nat] by (simp add: unat_drop_bit_eq drop_bit_eq_div unat_div)
  have "b AND 0xF \<le> 0xF" by (rule word_and_le1)
  then show "unat (b AND 0xF :: u8) < 16" by (simp add: word_le_nat_alt)
qed

lemma length_encodeBase16_loop [simp]: "length (encodeBase16_loop bs) = 2 * length bs"
  by (induction bs) simp_all

lemma decode_encode_loop: "decodeBase16_loop (encodeBase16_loop bs) = bs"
  by (induction bs)
    (simp_all add: decodeHigh_encodeNibble decodeLow_encodeNibble nibble_bounds nibbles_of_byte)

lemma length_decodeBase16_loop: "length (decodeBase16_loop bs) = length bs div 2"
  by (induction bs rule: decodeBase16_loop.induct) simp_all

lemma decodeBase16_total:
  assumes "buffer_ok b"
  shows "\<exists>d. decodeBase16 b = Some d \<and> contents d = decodeBase16_loop (take (2 * (unat (mBufSize b) div 2)) (mDataPtr b))
    \<and> buffer_ok d"
proof -
  have sz: "unat (drop_bit 1 (mBufSize b)) = unat (mBufSize b) div 2"
    by (simp add: unat_drop_bit_eq drop_bit_eq_div unat_div)
  have le: "2 * (unat (mBufSize b) div 2) \<le> length (mDataPtr b)"
    using assms by (simp add: buffer_ok_def)
  show ?thesis using le
    by (simp add: decodeBase16_def Let_def mem_simps sz ByteBuffer_alloc_def contents_def
        length_decodeBase16_loop buffer_ok_def min_def del: One_nat_def)
qed

lemma encodeBase16_total:
  assumes "buffer_ok b" and "unat (mBufSize b) < 2 ^ 31"
  shows "\<exists>e. encodeBase16 b = Some e \<and> contents e = encodeBase16_loop (contents b) @ [0]
    \<and> unat (mBufSize e) = 2 * unat (mBufSize b) + 1 \<and> buffer_ok e"
proof -
  have sz: "unat (mBufSize b * 2 + 1) = 2 * unat (mBufSize b) + 1"
    using assms(2) by (simp add: unat_word_ariths)
  have "\<not> sint (mBufSize b) < 0"
    using assms(2) by (simp add: sint_below_half)
  then show ?thesis using assms(1) sz
    by (simp add: encodeBase16_def Let_def mem_simps ByteBuffer_alloc_def contents_def buffer_ok_def)
qed

section \<open>The table-driven CRC against the bit-serial one\<close>

definition crcByteSerial :: "u32 \<Rightarrow> u8 \<Rightarrow> u32" where
  "crcByteSerial crcVal b = (crcStep ^^ 8) (crcVal XOR ucast b)"

lemma crcStep_bit: "crcStep v = (if bit v 0 then 0xedb88320 XOR drop_bit 1 v else drop_bit 1 v)"
  by (simp add: crcStep_def and_one_eq bit_0 odd_iff_mod_2_eq_one flip: One_nat_def)

lemma crcStep_xor: "crcStep (x XOR y) = crcStep x XOR crcStep y"
  unfolding crcStep_bit
  by (simp add: bit_xor_iff ac_simps flip: One_nat_def xor.assoc)

lemma crcStep_pow_xor: "(crcStep ^^ n) (x XOR y) = (crcStep ^^ n) x XOR (crcStep ^^ n) y"
  by (induction n) (simp_all add: crcStep_xor)

lemma crcStep_pow_shift:
  "(\<And>i. i < n \<Longrightarrow> \<not> bit c i) \<Longrightarrow> (crcStep ^^ n) c = drop_bit n c"
proof (induction n)
  case 0
  then show ?case by simp
next
  case (Suc n)
  then have IH: "(crcStep ^^ n) c = drop_bit n c" by simp
  have "\<not> bit (drop_bit n c) 0" using Suc.prems [of n] by (simp add: bit_drop_bit_eq)
  then have "crcStep (drop_bit n c) = drop_bit 1 (drop_bit n c)" by (simp only: crcStep_bit if_False)
  with IH show ?case by simp
qed

lemma crcTable_nth: "crcTable ! unat (x AND 0xff) = (crcStep ^^ 8) (x AND 0xff)"
proof -
  have "x AND 0xff \<le> (0xff :: u32)" by (rule word_and_le1)
  then have "unat (x AND 0xff) < 256" by (simp add: word_le_nat_alt)
  then show ?thesis by (simp add: crcTable_def del: funpow.simps)
qed

lemma crcByte_eq_serial: "crcByte c b = crcByteSerial c b"
proof -
  define x where "x = c XOR ucast b"
  have lo: "x AND 0xff = take_bit 8 x" by (simp add: take_bit_eq_mask mask_eq_exp_minus_1)
  have x: "x = take_bit 8 x XOR push_bit 8 (drop_bit 8 x)"
    by (rule bit_word_eqI) (auto simp: bit_simps)
  have hi: "drop_bit 8 x = drop_bit 8 c"
    unfolding x_def by (rule bit_word_eqI) (auto simp: bit_simps dest: bit_imp_le_length)
  have "(crcStep ^^ 8) (push_bit 8 (drop_bit 8 x)) = drop_bit 8 (push_bit 8 (drop_bit 8 x))"
    by (rule crcStep_pow_shift) (simp add: bit_push_bit_iff)
  also have "\<dots> = drop_bit 8 c"
    unfolding hi by (rule bit_word_eqI) (auto simp: bit_simps dest: bit_imp_le_length)
  finally have "(crcStep ^^ 8) x = (crcStep ^^ 8) (take_bit 8 x) XOR drop_bit 8 c"
    using x crcStep_pow_xor by metis
  moreover have "crcTable ! unat (x AND 0xff) = (crcStep ^^ 8) (take_bit 8 x)"
    using crcTable_nth [of x] by (simp only: lo)
  ultimately show ?thesis
    unfolding crcByte_def crcByteSerial_def x_def [symmetric] by simp
qed

lemma calculateCRC_serial:
  assumes "buffer_ok b" and "start < mBufSize b"
  shows "calculateCRC start end crcVal b =
    Some (foldl crcByteSerial crcVal (drop (unat start) (take (unat end) (contents b))))"
proof -
  have f: "crcByte = crcByteSerial" by (intro ext crcByte_eq_serial)
  have "unat (if mBufSize b < end then mBufSize b else end) = min (unat (mBufSize b)) (unat end)"
    by (simp add: min_def word_less_nat_alt)
  moreover have "\<not> mBufSize b \<le> start" using assms(2) by simp
  ultimately show ?thesis using assms(1)
    by (simp add: calculateCRC_def Let_def mem_simps buffer_ok_def contents_def f min.commute)
qed

text \<open>A CRC may be computed in pieces, each continuing from the value of the last.\<close>

lemma calculateCRC_incremental:
  assumes "buffer_ok b" and "start < mid" and "mid < mBufSize b" and "mid \<le> end"
    and "calculateCRC start mid c b = Some c'"
  shows "calculateCRC mid end c' b = calculateCRC start end c b"
proof -
  have lt: "start < mBufSize b" using assms(2,3) by (rule less_trans)
  let ?d = "contents b"
  have le: "unat start \<le> unat mid" "unat mid \<le> unat end"
    using assms(2,4) by (simp_all add: word_le_nat_alt word_less_nat_alt)
  have len: "unat mid \<le> length ?d"
    using assms(1,3) by (simp add: contents_def buffer_ok_def word_less_nat_alt)
  have split: "drop (unat start) (take (unat end) ?d) =
      drop (unat start) (take (unat mid) ?d) @ drop (unat mid) (take (unat end) ?d)"
  proof -
    have "take (unat end) ?d = take (unat mid) ?d @ drop (unat mid) (take (unat end) ?d)"
      using le by (metis append_take_drop_id min.absorb1 take_take)
    then have "drop (unat start) (take (unat end) ?d) =
        drop (unat start) (take (unat mid) ?d @ drop (unat mid) (take (unat end) ?d))" by simp
    also have "\<dots> = drop (unat start) (take (unat mid) ?d) @ drop (unat mid) (take (unat end) ?d)"
      using le len by simp
    finally show ?thesis .
  qed
  show ?thesis
    using assms(5) by (simp add: calculateCRC_serial [OF assms(1) lt] calculateCRC_serial [OF assms(1,3)] split)
qed

end
