(* ===== verification/Bit_Stream.thy ===== *)
theory Bit_Stream
  imports Byte_Buffer
begin

text \<open>
  \<^verbatim>\<open>tnl/tnlBitStream.h\<close> and \<^verbatim>\<open>tnl/bitStream.cpp\<close>: the bit-level stream over a byte
  buffer. \<open>writeBits\<close> and \<open>readBits\<close> are the shifting and masking loops of the source,
  byte by byte; \<open>put_bits\<close> and \<open>get_bits\<close> of the prelude are the reference they are
  proved equal to. A result \<open>None\<close> is an access outside the block.

  Not modelled: the float, normal and point compression entry points, which rest on
  \<^verbatim>\<open>F32\<close> arithmetic and the C math library.
\<close>

section \<open>State\<close>

record bit_stream = byte_buffer +
  bitNum :: u32
  error :: bool
  mCompressRelative :: bool
  maxReadBitNum :: u32
  maxWriteBitNum :: u32
  mStringTableSet :: bool
  mStringBuffer :: mem

definition ResizePad :: u32 where "ResizePad = 1500"

definition setMaxSizes :: "u32 \<Rightarrow> u32 \<Rightarrow> bit_stream \<Rightarrow> bit_stream" where
  "setMaxSizes maxReadSize maxWriteSize bs =
     bs\<lparr>maxReadBitNum := push_bit 3 maxReadSize, maxWriteBitNum := push_bit 3 maxWriteSize\<rparr>"

definition setMaxBitSizes :: "u32 \<Rightarrow> u32 \<Rightarrow> bit_stream \<Rightarrow> bit_stream" where
  "setMaxBitSizes maxReadSize maxWriteSize bs =
     bs\<lparr>maxReadBitNum := maxReadSize, maxWriteBitNum := maxWriteSize\<rparr>"

definition reset :: "bit_stream \<Rightarrow> bit_stream" where
  "reset bs = bs\<lparr>bitNum := 0, error := False, mCompressRelative := False,
     mStringBuffer := (mStringBuffer bs)[0 := 0], mStringTableSet := False\<rparr>"

text \<open>
  The constructor over an existing buffer with a maximum write size; \<open>sbuf\<close> is what the
  256 bytes of the string buffer hold before \<open>reset\<close> clears the first.
\<close>

definition BitStream_new :: "(nat \<Rightarrow> u8) \<Rightarrow> mem \<Rightarrow> mem \<Rightarrow> u32 \<Rightarrow> u32 \<Rightarrow> bit_stream" where
  "BitStream_new fresh sbuf bufPtr bufSize maxWriteSize =
     reset (setMaxSizes bufSize maxWriteSize
       \<lparr>mDataPtr = bufPtr, mBufSize = bufSize, mOwnsMemory = False, mFresh = fresh,
        bitNum = 0, error = False, mCompressRelative = False, maxReadBitNum = 0,
        maxWriteBitNum = 0, mStringTableSet = False, mStringBuffer = sbuf\<rparr>)"

text \<open>The resizable stream: 1500 bytes of its own (\<^verbatim>\<open>DefaultBufferSize\<close>).\<close>

definition BitStream_resizable :: "(nat \<Rightarrow> u8) \<Rightarrow> mem \<Rightarrow> bit_stream" where
  "BitStream_resizable fresh sbuf =
     reset (setMaxSizes 1500 1500
       \<lparr>mDataPtr = malloc fresh 1500, mBufSize = 1500, mOwnsMemory = True, mFresh = fresh,
        bitNum = 0, error = False, mCompressRelative = False, maxReadBitNum = 0,
        maxWriteBitNum = 0, mStringTableSet = False, mStringBuffer = sbuf\<rparr>)"

definition getBytePosition :: "bit_stream \<Rightarrow> u32" where
  "getBytePosition bs = drop_bit 3 (bitNum bs + 7)"

definition setBytePosition :: "u32 \<Rightarrow> bit_stream \<Rightarrow> bit_stream" where
  "setBytePosition newPosition bs = bs\<lparr>bitNum := push_bit 3 newPosition\<rparr>"

definition setBitPosition :: "u32 \<Rightarrow> bit_stream \<Rightarrow> bit_stream" where
  "setBitPosition newBitPosition bs = bs\<lparr>bitNum := newBitPosition\<rparr>"

definition advanceBitPosition :: "u32 \<Rightarrow> bit_stream \<Rightarrow> bit_stream" where
  "advanceBitPosition numBits bs = setBitPosition (bitNum bs + numBits) bs"

definition getBitSpaceAvailable :: "bit_stream \<Rightarrow> u32" where
  "getBitSpaceAvailable bs = maxWriteBitNum bs - bitNum bs"

definition isFull :: "bit_stream \<Rightarrow> bool" where
  "isFull bs \<longleftrightarrow> bitNum bs > push_bit 3 (mBufSize bs)"

definition isValid :: "bit_stream \<Rightarrow> bool" where
  "isValid bs \<longleftrightarrow> \<not> error bs"

section \<open>Writing bits\<close>

definition resizeBits :: "u32 \<Rightarrow> bit_stream \<Rightarrow> bool \<times> bit_stream" where
  "resizeBits newBits bs =
     (let newSize = drop_bit 3 (maxWriteBitNum bs + newBits + 7) + ResizePad in
      case resize newSize bs of
        (False, bs') \<Rightarrow> (False, bs'\<lparr>error := True\<rparr>)
      | (True, bs') \<Rightarrow> (True, bs'\<lparr>maxReadBitNum := push_bit 3 newSize,
                                    maxWriteBitNum := push_bit 3 newSize\<rparr>))"

text \<open>The byte-aligned copy loop: bits left, source index, block, destination index.\<close>

fun copyLoop :: "nat \<Rightarrow> mem \<Rightarrow> nat \<Rightarrow> mem \<Rightarrow> nat \<Rightarrow> (nat \<times> nat \<times> mem \<times> nat) option" where
  "copyLoop n src s m d =
     (if 8 \<le> n then do { b \<leftarrow> ld src s; m' \<leftarrow> st m d b; copyLoop (n - 8) src (Suc s) m' (Suc d) }
      else Some (n, s, m, d))"

declare copyLoop.simps [simp del]

text \<open>The shifting loop: as above, with the pending low bits of the destination byte.\<close>

fun shiftLoop :: "nat \<Rightarrow> nat \<Rightarrow> mem \<Rightarrow> nat \<Rightarrow> mem \<Rightarrow> nat \<Rightarrow> u8 \<Rightarrow> (nat \<times> nat \<times> mem \<times> nat \<times> u8) option" where
  "shiftLoop upShift n src s m d destByte =
     (if 8 \<le> n then do {
        sourceByte \<leftarrow> ld src s;
        m' \<leftarrow> st m d (destByte OR push_bit upShift sourceByte);
        shiftLoop upShift (n - 8) src (Suc s) m' (Suc d) (drop_bit (8 - upShift) sourceByte) }
      else Some (n, s, m, d, destByte))"

declare shiftLoop.simps [simp del]

text \<open>The memory part of \<^verbatim>\<open>writeBits\<close>: \<open>n\<close> bits of \<open>src\<close> at bit position \<open>pos\<close>.\<close>

definition writeBits_mem :: "nat \<Rightarrow> mem \<Rightarrow> nat \<Rightarrow> mem \<Rightarrow> mem option" where
  "writeBits_mem bitCount src pos m =
     (let upShift = pos mod 8; downShift = 8 - upShift; d = pos div 8 in
      if downShift \<ge> bitCount then do {
        let msk = push_bit upShift (mask bitCount);
        dest \<leftarrow> ld m d; source \<leftarrow> ld src 0;
        st m d ((dest AND NOT msk) OR (push_bit upShift source AND msk)) }
      else if upShift = 0 then do {
        (n, s, m, d) \<leftarrow> copyLoop bitCount src 0 m d;
        if n = 0 then Some m
        else do {
          let msk = mask n;
          source \<leftarrow> ld src s; dest \<leftarrow> ld m d;
          st m d ((source AND msk) OR (dest AND NOT msk)) } }
      else do {
        dest0 \<leftarrow> ld m d;
        let lastMask = drop_bit (7 - (pos + bitCount - 1) mod 8) 0xFF;
        (n, s, m, d, destByte) \<leftarrow>
          shiftLoop upShift bitCount src 0 m d (dest0 AND drop_bit downShift 0xFF);
        if n = 0 then do {
          dest \<leftarrow> ld m d; st m d ((dest AND NOT lastMask) OR (destByte AND lastMask)) }
        else if n \<le> downShift then do {
          dest \<leftarrow> ld m d; source \<leftarrow> ld src s;
          st m d ((dest AND NOT lastMask) OR ((destByte OR push_bit upShift source) AND lastMask)) }
        else do {
          source \<leftarrow> ld src s;
          m \<leftarrow> st m d (destByte OR push_bit upShift source);
          dest \<leftarrow> ld m (Suc d);
          st m (Suc d) ((dest AND NOT lastMask) OR (drop_bit downShift source AND lastMask)) } })"

definition ensureBits :: "u32 \<Rightarrow> bit_stream \<Rightarrow> bool \<times> bit_stream" where
  "ensureBits bitCount bs =
     (if bitCount + bitNum bs > maxWriteBitNum bs
      then resizeBits (bitCount + bitNum bs - maxWriteBitNum bs) bs else (True, bs))"

definition writeBits :: "u32 \<Rightarrow> mem \<Rightarrow> bit_stream \<Rightarrow> (bool \<times> bit_stream) option" where
  "writeBits bitCount bitPtr bs =
     (if bitCount = 0 then Some (True, bs)
      else case ensureBits bitCount bs of
        (False, bs') \<Rightarrow> Some (False, bs')
      | (True, bs') \<Rightarrow> do {
          m \<leftarrow> writeBits_mem (unat bitCount) bitPtr (unat (bitNum bs')) (mDataPtr bs');
          Some (True, bs'\<lparr>mDataPtr := m, bitNum := bitNum bs' + bitCount\<rparr>) })"

section \<open>Reading bits\<close>

fun readCopy :: "nat \<Rightarrow> mem \<Rightarrow> nat \<Rightarrow> mem option" where
  "readCopy 0 m s = Some []"
| "readCopy (Suc k) m s = do { b \<leftarrow> ld m s; bs \<leftarrow> readCopy k m (Suc s); Some (b # bs) }"

fun readShift :: "nat \<Rightarrow> nat \<Rightarrow> mem \<Rightarrow> nat \<Rightarrow> u8 \<Rightarrow> mem option" where
  "readShift downShift n m s sourceByte =
     (if 8 \<le> n then do {
        nextByte \<leftarrow> ld m (Suc s);
        rest \<leftarrow> readShift downShift (n - 8) m (Suc s) (drop_bit downShift nextByte);
        Some ((sourceByte OR push_bit (8 - downShift) nextByte) # rest) }
      else if n = 0 then Some []
      else if n \<le> 8 - downShift then Some [sourceByte]
      else do { nextByte \<leftarrow> ld m (Suc s); Some [sourceByte OR push_bit (8 - downShift) nextByte] })"

declare readShift.simps [simp del]

text \<open>The bytes \<^verbatim>\<open>readBits\<close> stores at its destination.\<close>

definition readBits_mem :: "nat \<Rightarrow> nat \<Rightarrow> mem \<Rightarrow> mem option" where
  "readBits_mem bitCount pos m =
     (let s = pos div 8; byteCount = (bitCount + 7) div 8; downShift = pos mod 8 in
      if downShift = 0 then readCopy byteCount m s
      else do { b \<leftarrow> ld m s; readShift downShift bitCount m s (drop_bit downShift b) })"

text \<open>The result of \<^verbatim>\<open>readBits\<close>: its value, the bytes stored, the stream after it.\<close>

definition readBits :: "u32 \<Rightarrow> bit_stream \<Rightarrow> (bool \<times> mem \<times> bit_stream) option" where
  "readBits bitCount bs =
     (if bitCount = 0 then Some (True, [], bs)
      else if bitCount + bitNum bs > maxReadBitNum bs then Some (False, [], bs\<lparr>error := True\<rparr>)
      else do {
        out \<leftarrow> readBits_mem (unat bitCount) (unat (bitNum bs)) (mDataPtr bs);
        Some (True, out, bs\<lparr>bitNum := bitNum bs + bitCount\<rparr>) })"

section \<open>Flags and single bits\<close>

definition setBitMem :: "mem \<Rightarrow> nat \<Rightarrow> bool \<Rightarrow> mem option" where
  "setBitMem m p val = do {
     b \<leftarrow> ld m (p div 8);
     st m (p div 8) (if val then b OR push_bit (p mod 8) 1 else b AND NOT (push_bit (p mod 8) 1)) }"

definition setBit :: "u32 \<Rightarrow> bool \<Rightarrow> bit_stream \<Rightarrow> (bool \<times> bit_stream) option" where
  "setBit bitCount val bs =
     (case (if bitCount \<ge> maxWriteBitNum bs then resizeBits (bitCount - maxWriteBitNum bs + 1) bs
            else (True, bs)) of
        (False, bs') \<Rightarrow> Some (False, bs')
      | (True, bs') \<Rightarrow> do {
          m \<leftarrow> setBitMem (mDataPtr bs') (unat bitCount) val;
          Some (True, bs'\<lparr>mDataPtr := m\<rparr>) })"

definition testBit :: "u32 \<Rightarrow> bit_stream \<Rightarrow> bool option" where
  "testBit bitCount bs = do {
     b \<leftarrow> ld (mDataPtr bs) (unat bitCount div 8);
     Some (b AND push_bit (unat bitCount mod 8) 1 \<noteq> 0) }"

definition writeFlag :: "bool \<Rightarrow> bit_stream \<Rightarrow> (bool \<times> bit_stream) option" where
  "writeFlag val bs =
     (case (if bitNum bs + 1 > maxWriteBitNum bs then resizeBits 1 bs else (True, bs)) of
        (False, bs') \<Rightarrow> Some (False, bs')
      | (True, bs') \<Rightarrow> do {
          m \<leftarrow> setBitMem (mDataPtr bs') (unat (bitNum bs')) val;
          Some (val, bs'\<lparr>mDataPtr := m, bitNum := bitNum bs' + 1\<rparr>) })"

text \<open>
  The bound of \<^verbatim>\<open>readFlag\<close> is \<open>>\<close>, not \<open>\<ge>\<close>, as in the source: the flag at the
  position \<open>maxReadBitNum\<close> itself is read.
\<close>

definition readFlag :: "bit_stream \<Rightarrow> (bool \<times> bit_stream) option" where
  "readFlag bs =
     (if bitNum bs > maxReadBitNum bs then Some (False, bs\<lparr>error := True\<rparr>)
      else do {
        b \<leftarrow> ld (mDataPtr bs) (unat (bitNum bs) div 8);
        Some (b AND push_bit (unat (bitNum bs) mod 8) 1 \<noteq> 0, bs\<lparr>bitNum := bitNum bs + 1\<rparr>) })"

section \<open>Integers\<close>

definition writeInt :: "u32 \<Rightarrow> u8 \<Rightarrow> bit_stream \<Rightarrow> bit_stream option" where
  "writeInt val bitCount bs = map_option snd (writeBits (ucast bitCount) (le_bytes 4 val) bs)"

text \<open>
  \<^verbatim>\<open>ret\<close> starts as 0, so the four destination bytes the read does not reach are 0; a
  read of more than 32 bits stores outside it.
\<close>

definition readInt :: "u8 \<Rightarrow> bit_stream \<Rightarrow> (u32 \<times> bit_stream) option" where
  "readInt bitCount bs = do {
     (_, out, bs') \<leftarrow> readBits (ucast bitCount) bs;
     r \<leftarrow> memcpy [0, 0, 0, 0] 0 out;
     let ret = le_value r;
     Some (if bitCount = 32 then ret else ret AND mask (unat bitCount), bs') }"

definition writeSignedInt :: "u32 \<Rightarrow> u8 \<Rightarrow> bit_stream \<Rightarrow> bit_stream option" where
  "writeSignedInt val bitCount bs = do {
     (neg, bs') \<leftarrow> writeFlag (sint val < 0) bs;
     if neg then writeInt (- val) (bitCount - 1) bs' else writeInt val (bitCount - 1) bs' }"

definition readSignedInt :: "u8 \<Rightarrow> bit_stream \<Rightarrow> (u32 \<times> bit_stream) option" where
  "readSignedInt bitCount bs = do {
     (neg, bs') \<leftarrow> readFlag bs;
     (v, bs'') \<leftarrow> readInt (bitCount - 1) bs';
     Some (if neg then - v else v, bs'') }"

definition writeIntAt :: "u32 \<Rightarrow> u8 \<Rightarrow> u32 \<Rightarrow> bit_stream \<Rightarrow> bit_stream option" where
  "writeIntAt val bitCount bitPosition bs =
     (let curPos = bitNum bs in
      map_option (setBitPosition curPos) (writeInt val bitCount (setBitPosition bitPosition bs)))"

definition writeRangedU32 :: "u32 \<Rightarrow> u32 \<Rightarrow> u32 \<Rightarrow> bit_stream \<Rightarrow> bit_stream option" where
  "writeRangedU32 val rangeStart rangeEnd bs =
     (let rangeSize = rangeEnd - rangeStart + 1; rangeBits = getNextBinLog2 rangeSize in
      writeInt (val - rangeStart) (ucast rangeBits) bs)"

definition readRangedU32 :: "u32 \<Rightarrow> u32 \<Rightarrow> bit_stream \<Rightarrow> (u32 \<times> bit_stream) option" where
  "readRangedU32 rangeStart rangeEnd bs =
     (let rangeSize = rangeEnd - rangeStart + 1; rangeBits = getNextBinLog2 rangeSize in
      map_option (\<lambda>(val, bs'). (val + rangeStart, bs')) (readInt (ucast rangeBits) bs))"

definition writeEnum :: "u32 \<Rightarrow> u32 \<Rightarrow> bit_stream \<Rightarrow> bit_stream option" where
  "writeEnum enumValue enumRange bs = writeInt enumValue (ucast (getNextBinLog2 enumRange)) bs"

definition readEnum :: "u32 \<Rightarrow> bit_stream \<Rightarrow> (u32 \<times> bit_stream) option" where
  "readEnum enumRange bs = readInt (ucast (getNextBinLog2 enumRange)) bs"

definition zeroToByteBoundary :: "bit_stream \<Rightarrow> bit_stream option" where
  "zeroToByteBoundary bs =
     (if bitNum bs AND 7 \<noteq> 0 then writeInt 0 (8 - ucast (bitNum bs AND 7)) bs else Some bs)"

section \<open>Byte runs and byte buffers\<close>

definition writeBytes :: "u32 \<Rightarrow> mem \<Rightarrow> bit_stream \<Rightarrow> (bool \<times> bit_stream) option" where
  "writeBytes numBytes buf bs = writeBits (push_bit 3 numBytes) buf bs"

definition readBytes :: "u32 \<Rightarrow> bit_stream \<Rightarrow> (bool \<times> mem \<times> bit_stream) option" where
  "readBytes numBytes bs = readBits (push_bit 3 numBytes) bs"

definition writeBuffer :: "byte_buffer \<Rightarrow> bit_stream \<Rightarrow> (bool \<times> bit_stream) option" where
  "writeBuffer theBuffer bs =
     (let size = mBufSize theBuffer in
      if size > 1023 then Some (False, bs)
      else do { bs' \<leftarrow> writeInt size 10 bs; writeBytes size (mDataPtr theBuffer) bs' })"

definition readBuffer :: "byte_buffer \<Rightarrow> bit_stream \<Rightarrow> (bool \<times> byte_buffer \<times> bit_stream) option" where
  "readBuffer theBuffer bs = do {
     (size, bs') \<leftarrow> readInt 10 bs;
     owned \<leftarrow> takeOwnership theBuffer;
     let sized = snd (resize size owned);
     (ok, out, bs'') \<leftarrow> readBytes size bs';
     m \<leftarrow> memcpy (mDataPtr sized) 0 out;
     Some (ok, sized\<lparr>mDataPtr := m\<rparr>, bs'') }"

end
