(* ===== verification/Bit_Stream_Loops.thy ===== *)
theory Bit_Stream_Loops
  imports Bit_Stream
begin

text \<open>
  The packing loops of \<^verbatim>\<open>BitStream::writeBits\<close> and \<^verbatim>\<open>BitStream::readBits\<close> are equal to
  the bit-by-bit reference: \<open>writeBits_mem_eq\<close> and \<open>readBits_mem_spec\<close>. Both also say that
  no access leaves the block when the run of bits lies inside it.
\<close>

section \<open>The loops against the reference\<close>

lemma bit_at_split: "i < 8 \<Longrightarrow> bit_at m (8 * j + i) = bit (m ! j) i"
  by (simp add: bit_at_def)

lemma bit_u8_lt: "bit (b :: u8) i \<Longrightarrow> i < 8"
  using bit_imp_le_length by fastforce

text \<open>A block agrees with another outside a run of bits and holds \<open>f\<close> in it.\<close>

definition bits_written :: "mem \<Rightarrow> nat \<Rightarrow> nat \<Rightarrow> (nat \<Rightarrow> bool) \<Rightarrow> mem \<Rightarrow> bool" where
  "bits_written m p n f m' \<longleftrightarrow> length m' = length m \<and>
     (\<forall>j i. j < length m \<longrightarrow> i < 8 \<longrightarrow> bit (m' ! j) i =
        (if p \<le> 8 * j + i \<and> 8 * j + i < p + n then f (8 * j + i - p) else bit (m ! j) i))"

lemma bits_written_put_bits:
  assumes "bits_written m p n (bit_at src) m'" and "p + n \<le> 8 * length m"
  shows "m' = put_bits m p (get_bits src 0 n)"
proof (rule mem_eqI)
  show "length m' = length (put_bits m p (get_bits src 0 n))"
    using assms(1) by (simp add: bits_written_def)
  fix q assume "q < 8 * length m'"
  then have j: "q div 8 < length m" using assms(1) by (simp add: bits_written_def less_mult_imp_div_less mult.commute)
  have "q = 8 * (q div 8) + q mod 8" by simp
  with assms(1) j have "bit_at m' q = (if p \<le> q \<and> q < p + n then bit_at src (q - p) else bit_at m q)"
    unfolding bits_written_def bit_at_def by (metis mod_less_divisor zero_less_numeral)
  moreover have "q - p < n" if "p \<le> q" "q < p + n" using that by linarith
  ultimately show "bit_at m' q = bit_at (put_bits m p (get_bits src 0 n)) q"
    using assms(2) by (auto simp: bit_view)
qed

lemma copyLoop_spec:
  "s + n div 8 \<le> length src \<Longrightarrow> d + n div 8 \<le> length m \<Longrightarrow>
   \<exists>m'. copyLoop n src s m d = Some (n mod 8, s + n div 8, m', d + n div 8) \<and> length m' = length m \<and>
     (\<forall>j < length m. m' ! j = (if d \<le> j \<and> j < d + n div 8 then src ! (s + (j - d)) else m ! j))"
proof (induction n src s m d rule: copyLoop.induct)
  case (1 n src s m d)
  show ?case
  proof (cases "8 \<le> n")
    case False
    then show ?thesis by (auto simp: copyLoop.simps)
  next
    case True
    then have n8: "n div 8 = Suc ((n - 8) div 8)" "n mod 8 = (n - 8) mod 8"
      by (simp_all add: le_div_geq le_mod_geq)
    with "1.prems" have s: "s < length src" and d: "d < length m" by simp_all
    have "\<exists>m'. copyLoop (n - 8) src (Suc s) (m[d := src ! s]) (Suc d) =
        Some ((n - 8) mod 8, Suc s + (n - 8) div 8, m', Suc d + (n - 8) div 8) \<and>
        length m' = length (m[d := src ! s]) \<and>
        (\<forall>j < length (m[d := src ! s]). m' ! j = (if Suc d \<le> j \<and> j < Suc d + (n - 8) div 8
           then src ! (Suc s + (j - Suc d)) else m[d := src ! s] ! j))"
      using "1.prems" s d n8 True by (intro "1.IH") (simp_all add: mem_simps)
    then obtain m' where m': "copyLoop (n - 8) src (Suc s) (m[d := src ! s]) (Suc d) =
        Some ((n - 8) mod 8, Suc s + (n - 8) div 8, m', Suc d + (n - 8) div 8)"
      "length m' = length m"
      "\<And>j. j < length m \<Longrightarrow> m' ! j = (if Suc d \<le> j \<and> j < Suc d + (n - 8) div 8
           then src ! (Suc s + (j - Suc d)) else m[d := src ! s] ! j)" by auto
    have "copyLoop n src s m d = Some (n mod 8, s + n div 8, m', d + n div 8)"
      using True s d m'(1) n8 by (subst copyLoop.simps) (simp add: mem_simps)
    moreover have "m' ! j = (if d \<le> j \<and> j < d + n div 8 then src ! (s + (j - d)) else m ! j)"
      if "j < length m" for j
    proof -
      consider "j < d" | "j = d" | "d < j" by linarith
      then show ?thesis
      proof cases
        case 3
        then have "Suc s + (j - Suc d) = s + (j - d)" by simp
        then show ?thesis using 3 m'(3) [OF that] n8 by (auto simp del: add_Suc)
      qed (use m'(3) [OF that] d n8 in simp_all)
    qed
    ultimately show ?thesis using m'(2) by blast
  qed
qed

lemma shiftLoop_spec:
  "0 < us \<Longrightarrow> us < 8 \<Longrightarrow> s + n div 8 \<le> length src \<Longrightarrow> d + n div 8 \<le> length m \<Longrightarrow>
   (\<And>i. us \<le> i \<Longrightarrow> \<not> bit db i) \<Longrightarrow>
   \<exists>m' db'. shiftLoop us n src s m d db = Some (n mod 8, s + n div 8, m', d + n div 8, db') \<and>
     length m' = length m \<and> (\<forall>i \<ge> us. \<not> bit db' i) \<and>
     (\<forall>i < us. bit db' i = (if n div 8 = 0 then bit db i else bit (src ! (s + n div 8 - 1)) (8 - us + i))) \<and>
     (\<forall>j < length m. \<forall>i < 8. bit (m' ! j) i =
        (if d \<le> j \<and> j < d + n div 8
         then (if us \<le> i then bit (src ! (s + (j - d))) (i - us)
               else if j = d then bit db i else bit (src ! (s + (j - d) - 1)) (8 - us + i))
         else bit (m ! j) i))"
proof (induction us n src s m d db rule: shiftLoop.induct)
  case (1 us n src s m d db)
  show ?case
  proof (cases "8 \<le> n")
    case False
    then show ?thesis using "1.prems"(5) by (auto simp: shiftLoop.simps)
  next
    case True
    then have n8: "n div 8 = Suc ((n - 8) div 8)" "n mod 8 = (n - 8) mod 8"
      by (simp_all add: le_div_geq le_mod_geq)
    with "1.prems" have s: "s < length src" and d: "d < length m" by simp_all
    define b where "b = src ! s"
    define m1 where "m1 = m[d := db OR push_bit us b]"
    define db1 where "db1 = drop_bit (8 - us) b"
    have hi: "\<not> bit db1 i" if "us \<le> i" for i
      using that "1.prems"(2) bit_u8_lt [of b "8 - us + i"] by (auto simp: db1_def bit_drop_bit_eq)
    have lo: "bit db1 i = bit b (8 - us + i)" for i by (simp add: db1_def bit_drop_bit_eq)
    have ex: "\<exists>m' db'. shiftLoop us (n - 8) src (Suc s) m1 (Suc d) db1 =
        Some ((n - 8) mod 8, Suc s + (n - 8) div 8, m', Suc d + (n - 8) div 8, db') \<and>
        length m' = length m1 \<and> (\<forall>i \<ge> us. \<not> bit db' i) \<and>
        (\<forall>i < us. bit db' i = (if (n - 8) div 8 = 0 then bit db1 i
            else bit (src ! (Suc s + (n - 8) div 8 - 1)) (8 - us + i))) \<and>
        (\<forall>j < length m1. \<forall>i < 8. bit (m' ! j) i =
        (if Suc d \<le> j \<and> j < Suc d + (n - 8) div 8
         then (if us \<le> i then bit (src ! (Suc s + (j - Suc d))) (i - us)
               else if j = Suc d then bit db1 i else bit (src ! (Suc s + (j - Suc d) - 1)) (8 - us + i))
         else bit (m1 ! j) i))"
      unfolding m1_def db1_def b_def
      using "1.prems" s d n8 True hi [unfolded db1_def b_def]
      by (intro "1.IH") (simp_all add: mem_simps)
    then obtain m' db' where L: "shiftLoop us (n - 8) src (Suc s) m1 (Suc d) db1 =
        Some ((n - 8) mod 8, Suc s + (n - 8) div 8, m', Suc d + (n - 8) div 8, db')"
      and len: "length m' = length m1" and hi': "\<And>i. us \<le> i \<Longrightarrow> \<not> bit db' i"
      and lo': "\<And>i. i < us \<Longrightarrow> bit db' i = (if (n - 8) div 8 = 0 then bit db1 i
            else bit (src ! (Suc s + (n - 8) div 8 - 1)) (8 - us + i))"
      and M: "\<And>j i. j < length m1 \<Longrightarrow> i < 8 \<Longrightarrow> bit (m' ! j) i =
        (if Suc d \<le> j \<and> j < Suc d + (n - 8) div 8
         then (if us \<le> i then bit (src ! (Suc s + (j - Suc d))) (i - us)
               else if j = Suc d then bit db1 i else bit (src ! (Suc s + (j - Suc d) - 1)) (8 - us + i))
         else bit (m1 ! j) i)" by blast
    have "shiftLoop us n src s m d db = Some (n mod 8, s + n div 8, m', d + n div 8, db')"
      using True s d L n8 unfolding m1_def db1_def b_def
      by (subst shiftLoop.simps) (simp add: mem_simps)
    moreover have "length m' = length m" using len by (simp add: m1_def)
    moreover have "\<forall>i < us. bit db' i =
        (if n div 8 = 0 then bit db i else bit (src ! (s + n div 8 - 1)) (8 - us + i))"
      using lo' n8 by (auto simp: lo b_def)
    moreover have "bit (m' ! j) i =
        (if d \<le> j \<and> j < d + n div 8
         then (if us \<le> i then bit (src ! (s + (j - d))) (i - us)
               else if j = d then bit db i else bit (src ! (s + (j - d) - 1)) (8 - us + i))
         else bit (m ! j) i)" if j: "j < length m" and i: "i < 8" for j i
    proof -
      consider "j < d" | "j = d" | "j = Suc d" | "Suc d < j" by linarith
      then show ?thesis
      proof cases
        case 1
        with M [of j i] j i show ?thesis by (simp add: m1_def)
      next
        case 2
        with M [of j i] j i d n8 "1.prems"(5) [of i] show ?thesis
          by (auto simp: m1_def b_def bit_simps)
      next
        case 3
        with M [of j i] j i d n8 show ?thesis by (auto simp: m1_def lo b_def)
      next
        case 4
        then have "Suc s + (j - Suc d) = s + (j - d)" by simp
        with 4 M [of j i] j i d n8 show ?thesis by (auto simp: m1_def simp del: add_Suc)
      qed
    qed
    ultimately show ?thesis using hi' by blast
  qed
qed


lemma bit_ff_drop: "i < 8 \<Longrightarrow> k < 8 \<Longrightarrow> bit (drop_bit k (0xFF :: u8)) i \<longleftrightarrow> i < 8 - k"
proof -
  assume "i < 8" "k < 8"
  have ff: "(0xFF :: u8) = - 1" by simp
  show ?thesis using \<open>i < 8\<close> \<open>k < 8\<close> unfolding ff
    by (auto simp: bit_drop_bit_eq bit_mask_iff)
qed

text \<open>The three cases of \<open>writeBits_mem\<close>.\<close>

lemma writeBits_mem_small:
  assumes "0 < n" and fit: "pos mod 8 + n \<le> 8" and "pos + n \<le> 8 * length m" and "n \<le> 8 * length src"
  shows "\<exists>m'. writeBits_mem n src pos m = Some m' \<and> bits_written m pos n (bit_at src) m'"
proof -
  define us d where "us = pos mod 8" and "d = pos div 8"
  have pos: "pos = 8 * d + us" and us: "us < 8" by (simp_all add: us_def d_def)
  have d: "d < length m" and s: "0 < length src" using assms pos by linarith+
  define msk :: u8 where "msk = push_bit us (mask n)"
  define m' where "m' = m[d := (m ! d AND NOT msk) OR (push_bit us (src ! 0) AND msk)]"
  have "n \<le> 8 - us" using fit by (simp add: us_def)
  then have "writeBits_mem n src pos m = Some m'"
    using d s by (simp add: writeBits_mem_def Let_def us_def [symmetric] d_def [symmetric] mem_simps
        m'_def msk_def)
  moreover have "bit (m' ! j) i = (if pos \<le> 8 * j + i \<and> 8 * j + i < pos + n
      then bit_at src (8 * j + i - pos) else bit (m ! j) i)" if "j < length m" "i < 8" for j i
  proof (cases "j = d")
    case True
    have mskb: "bit msk i \<longleftrightarrow> us \<le> i \<and> i < us + n"
      using that fit us by (auto simp: msk_def bit_simps us_def [symmetric])
    have "bit (m' ! j) i = (if bit msk i then us \<le> i \<and> bit (src ! 0) (i - us) else bit (m ! d) i)"
      using True d that by (auto simp: m'_def bit_simps)
    also have "\<dots> = (if us \<le> i \<and> i < us + n then bit_at src (i - us) else bit (m ! d) i)"
      using mskb that by (auto simp: bit_at_def)
    finally show ?thesis using True pos by auto
  next
    case False
    then have "\<not> (pos \<le> 8 * j + i \<and> 8 * j + i < pos + n)"
      using pos fit that us_def by linarith
    then show ?thesis using False by (auto simp: m'_def)
  qed
  ultimately show ?thesis by (auto simp: bits_written_def m'_def)
qed

lemma writeBits_mem_aligned:
  assumes n: "8 < n" and al: "pos mod 8 = 0" and "pos + n \<le> 8 * length m" and "n \<le> 8 * length src"
  shows "\<exists>m'. writeBits_mem n src pos m = Some m' \<and> bits_written m pos n (bit_at src) m'"
proof -
  define d where "d = pos div 8"
  have pos: "pos = 8 * d" using al by (auto simp: d_def)
  define k r where "k = n div 8" and "r = n mod 8"
  have nkr: "n = 8 * k + r" and r: "r < 8" by (simp_all add: k_def r_def)
  have dk: "d + k \<le> length m" and sk: "k \<le> length src" using assms pos nkr by linarith+
  obtain m1 where L: "copyLoop n src 0 m d = Some (r, k, m1, d + k)" and len: "length m1 = length m"
    and M: "\<And>j. j < length m \<Longrightarrow> m1 ! j = (if d \<le> j \<and> j < d + k then src ! (j - d) else m ! j)"
    using copyLoop_spec [of 0 n src d m] dk sk by (auto simp: k_def r_def)
  have byte: "bit (m1 ! j) i = (if pos \<le> 8 * j + i \<and> 8 * j + i < pos + 8 * k
      then bit_at src (8 * j + i - pos) else bit (m ! j) i)" if j: "j < length m" and i: "i < 8" for j i
  proof (cases "d \<le> j \<and> j < d + k")
    case True
    then have "8 * j + i - pos = 8 * (j - d) + i" using pos by auto
    with True M [OF j] i pos show ?thesis by (auto simp: bit_at_split)
  next
    case False
    with i pos have "\<not> (pos \<le> 8 * j + i \<and> 8 * j + i < pos + 8 * k)" by linarith
    with False M [OF j] show ?thesis by auto
  qed
  show ?thesis
  proof (cases "r = 0")
    case True
    have "writeBits_mem n src pos m = Some m1"
      using n al L True by (simp add: writeBits_mem_def Let_def d_def [symmetric])
    moreover have "bits_written m pos n (bit_at src) m1"
      using byte len True nkr by (simp add: bits_written_def)
    ultimately show ?thesis by blast
  next
    case False
    then have dk1: "d + k < length m" and sk1: "k < length src" using assms(3,4) pos nkr by linarith+
    define m2 where "m2 = m1[d + k := (src ! k AND mask r) OR (m1 ! (d + k) AND NOT (mask r))]"
    have "writeBits_mem n src pos m = Some m2"
      using n al L False dk1 sk1 len
      by (simp add: writeBits_mem_def Let_def d_def [symmetric] mem_simps m2_def)
    moreover have "bit (m2 ! j) i = (if pos \<le> 8 * j + i \<and> 8 * j + i < pos + n
      then bit_at src (8 * j + i - pos) else bit (m ! j) i)" if j: "j < length m" and i: "i < 8" for j i
    proof (cases "j = d + k")
      case True
      have "bit (m2 ! j) i = (if i < r then bit (src ! k) i else bit (m1 ! j) i)"
        using True dk1 len i by (auto simp: m2_def bit_simps)
      moreover have "8 * j + i - pos = 8 * k + i" using True pos by simp
      ultimately show ?thesis using byte [OF j i] True i pos nkr by (auto simp: bit_at_split)
    next
      case False
      then have "(8 * j + i < pos + 8 * k) = (8 * j + i < pos + n) \<or> 8 * j + i < pos"
        using i pos nkr r by linarith
      with False byte [OF j i] show ?thesis by (auto simp: m2_def)
    qed
    ultimately show ?thesis using len by (auto simp: bits_written_def m2_def)
  qed
qed


text \<open>
  The block the shifting loop stands for: its bytes, with the pending bits in the low
  \<open>us\<close> bits of byte \<open>d\<close>.
\<close>

definition pending :: "mem \<Rightarrow> nat \<Rightarrow> nat \<Rightarrow> u8 \<Rightarrow> nat \<Rightarrow> nat \<Rightarrow> bool" where
  "pending m d us db j i = (if j = d \<and> i < us then bit db i else bit (m ! j) i)"

lemma shiftLoop_pending:
  assumes us: "0 < us" "us < 8" and dk: "d + n div 8 < length m" and sk: "n div 8 \<le> length src"
    and db: "\<And>i. bit db i \<longleftrightarrow> i < us \<and> bit (m ! d) i"
  shows "\<exists>m1 db1. shiftLoop us n src 0 m d db = Some (n mod 8, n div 8, m1, d + n div 8, db1) \<and>
     length m1 = length m \<and> (\<forall>i \<ge> us. \<not> bit db1 i) \<and>
     (\<forall>j < length m. \<forall>i < 8. pending m1 (d + n div 8) us db1 j i =
        (if 8 * d + us \<le> 8 * j + i \<and> 8 * j + i < 8 * d + us + 8 * (n div 8)
         then bit_at src (8 * j + i - (8 * d + us)) else bit (m ! j) i))"
proof -
  define k pos where "k = n div 8" and "pos = 8 * d + us"
  obtain m1 db1 where L: "shiftLoop us n src 0 m d db = Some (n mod 8, k, m1, d + k, db1)"
    and len: "length m1 = length m" and hi: "\<And>i. us \<le> i \<Longrightarrow> \<not> bit db1 i"
    and lo: "\<And>i. i < us \<Longrightarrow> bit db1 i = (if k = 0 then bit db i else bit (src ! (k - 1)) (8 - us + i))"
    and M: "\<And>j i. j < length m \<Longrightarrow> i < 8 \<Longrightarrow> bit (m1 ! j) i =
        (if d \<le> j \<and> j < d + k
         then (if us \<le> i then bit (src ! (j - d)) (i - us)
               else if j = d then bit db i else bit (src ! (j - d - 1)) (8 - us + i))
         else bit (m ! j) i)"
    using shiftLoop_spec [of us 0 n src d m db] us dk sk db
    by (auto simp: k_def [symmetric])
  have "pending m1 (d + k) us db1 j i = (if pos \<le> 8 * j + i \<and> 8 * j + i < pos + 8 * k
      then bit_at src (8 * j + i - pos) else bit (m ! j) i)" if j: "j < length m" and i: "i < 8" for j i
  proof -
    consider "j < d" | "d + k < j" | "j = d" "i < us" | "d < j" "j \<le> d + k" "i < us"
      | "d \<le> j" "j \<le> d + k" "us \<le> i" by linarith
    then show ?thesis
    proof cases
      case 1
      then have "\<not> pos \<le> 8 * j + i" using pos_def i by linarith
      then show ?thesis using 1 M [OF j i] by (simp add: pending_def)
    next
      case 2
      then have "\<not> 8 * j + i < pos + 8 * k" using pos_def us by linarith
      then show ?thesis using 2 M [OF j i] by (simp add: pending_def)
    next
      case 3
      then have "\<not> pos \<le> 8 * j + i" using pos_def by linarith
      then show ?thesis using 3 M [OF j i] lo [of i] db by (auto simp: pending_def)
    next
      case 4
      have "8 * j + i - pos = 8 * (j - d - 1) + (8 - us + i)" using pos_def 4 us by auto
      then have "bit_at src (8 * j + i - pos) = bit_at src (8 * (j - d - 1) + (8 - us + i))"
        by (simp only:)
      also have "\<dots> = bit (src ! (j - d - 1)) (8 - us + i)"
        by (rule bit_at_split) (use 4 us in linarith)
      finally have "bit_at src (8 * j + i - pos) = bit (src ! (j - d - 1)) (8 - us + i)" .
      moreover have "pos \<le> 8 * j + i \<and> 8 * j + i < pos + 8 * k" using pos_def 4 us by linarith
      moreover have "j - d - 1 = k - 1 \<and> k \<noteq> 0" if "j = d + k" using that 4 by simp
      ultimately show ?thesis using 4 M [OF j i] lo [of i] by (auto simp: pending_def)
    next
      case 5
      have "8 * j + i - pos = 8 * (j - d) + (i - us)" using pos_def 5 by auto
      then have "bit_at src (8 * j + i - pos) = bit (src ! (j - d)) (i - us)"
        using i by (simp add: bit_at_split)
      moreover have "pos \<le> 8 * j + i" using pos_def 5 by linarith
      moreover have "8 * j + i < pos + 8 * k \<longleftrightarrow> j < d + k" using pos_def 5 i us by linarith
      ultimately show ?thesis using 5 M [OF j i] by (auto simp: pending_def)
    qed
  qed
  then show ?thesis using L len hi by (auto simp: k_def pos_def)
qed

lemma writeBits_mem_shift_tail:
  assumes us: "0 < us" "us < 8" and big: "8 < us + n" and pos: "pos = 8 * d + us"
    and L: "shiftLoop us n src 0 m d (m ! d AND drop_bit (8 - us) 0xFF) = Some (r, k, m1, dk, db1)"
    and d: "d < length m"
  shows "writeBits_mem n src pos m =
     (let lm = drop_bit (7 - (pos + n - 1) mod 8) 0xFF in
      if r = 0 then do {
          dest \<leftarrow> ld m1 dk; st m1 dk ((dest AND NOT lm) OR (db1 AND lm)) }
      else if r \<le> 8 - us then do {
          dest \<leftarrow> ld m1 dk; source \<leftarrow> ld src k;
          st m1 dk ((dest AND NOT lm) OR ((db1 OR push_bit us source) AND lm)) }
      else do {
          source \<leftarrow> ld src k;
          m \<leftarrow> st m1 dk (db1 OR push_bit us source);
          dest \<leftarrow> ld m (Suc dk);
          st m (Suc dk) ((dest AND NOT lm) OR (drop_bit (8 - us) source AND lm)) })"
proof -
  have "\<not> n \<le> 8 - us" and "pos mod 8 = us" and "pos div 8 = d"
    using big pos us by simp_all
  then show ?thesis using us d L
    by (simp add: writeBits_mem_def Let_def mem_simps)
qed

lemma mod_8_eqI: "x = 8 * c + y \<Longrightarrow> y < 8 \<Longrightarrow> x mod 8 = (y :: nat)"
  by simp

lemma last_mask_bit:
  "i < 8 \<Longrightarrow> e < 8 \<Longrightarrow> bit (drop_bit (7 - e) (0xFF :: u8)) i \<longleftrightarrow> i \<le> e"
  using bit_ff_drop [of i "7 - e"] by auto

text \<open>
  What the loop leaves: \<open>m1\<close> with the pending byte \<open>db1\<close> stands for \<open>m\<close> with \<open>8 * k\<close> bits of
  \<open>src\<close> written at bit \<open>us\<close> of byte \<open>d\<close>; \<open>r\<close> bits are left.
\<close>

definition after_shift :: "mem \<Rightarrow> mem \<Rightarrow> nat \<Rightarrow> nat \<Rightarrow> nat \<Rightarrow> nat \<Rightarrow> mem \<Rightarrow> u8 \<Rightarrow> bool" where
  "after_shift m src d us k r m1 db1 \<longleftrightarrow>
     0 < us \<and> us < 8 \<and> r < 8 \<and> 8 * d + us + (8 * k + r) \<le> 8 * length m \<and> 8 * k + r \<le> 8 * length src \<and>
     length m1 = length m \<and> (\<forall>i \<ge> us. \<not> bit db1 i) \<and>
     (\<forall>j < length m. \<forall>i < 8. pending m1 (d + k) us db1 j i =
        (if 8 * d + us \<le> 8 * j + i \<and> 8 * j + i < 8 * d + us + 8 * k
         then bit_at src (8 * j + i - (8 * d + us)) else bit (m ! j) i))"

lemma after_shift_src:
  assumes "after_shift m src d us k r m1 db1" and "us \<le> i" and "i < 8"
  shows "bit_at src (8 * (d + k) + i - (8 * d + us)) = bit (src ! k) (i - us)"
proof -
  have "8 * (d + k) + i - (8 * d + us) = 8 * k + (i - us)" using assms(2) by simp
  then have "bit_at src (8 * (d + k) + i - (8 * d + us)) = bit_at src (8 * k + (i - us))" by (simp only:)
  also have "\<dots> = bit (src ! k) (i - us)" by (rule bit_at_split) (use assms in linarith)
  finally show ?thesis .
qed

lemma after_shift_exact:
  assumes A: "after_shift m src d us k 0 m1 db1"
    and lm: "\<And>i. i < 8 \<Longrightarrow> bit lm i \<longleftrightarrow> i < us"
  shows "bits_written m (8 * d + us) (8 * k) (bit_at src)
    (m1[d + k := (m1 ! (d + k) AND NOT lm) OR (db1 AND lm)])" (is "bits_written _ _ _ _ ?m2")
proof -
  have len: "length m1 = length m" and dk: "d + k < length m" using A by (auto simp: after_shift_def)
  have "bit (?m2 ! j) i = pending m1 (d + k) us db1 j i" if "j < length m" "i < 8" for j i
    using that dk len lm [OF that(2)] by (cases "j = d + k") (auto simp: pending_def bit_simps)
  with A len show ?thesis by (auto simp: bits_written_def after_shift_def)
qed

lemma after_shift_one:
  assumes A: "after_shift m src d us k r m1 db1" and r: "0 < r" "us + r \<le> 8"
    and lm: "\<And>i. i < 8 \<Longrightarrow> bit lm i \<longleftrightarrow> i < us + r"
  shows "bits_written m (8 * d + us) (8 * k + r) (bit_at src)
    (m1[d + k := (m1 ! (d + k) AND NOT lm) OR ((db1 OR push_bit us (src ! k)) AND lm)])"
    (is "bits_written _ _ _ _ ?m2")
proof -
  define pos where "pos = 8 * d + us"
  from A have len: "length m1 = length m" and dk: "d + k < length m" and us: "us < 8"
    and hi: "\<And>i. us \<le> i \<Longrightarrow> \<not> bit db1 i"
    and P: "\<And>j i. j < length m \<Longrightarrow> i < 8 \<Longrightarrow> pending m1 (d + k) us db1 j i =
        (if pos \<le> 8 * j + i \<and> 8 * j + i < pos + 8 * k
         then bit_at src (8 * j + i - pos) else bit (m ! j) i)"
    by (auto simp: after_shift_def pos_def)
  have "bit (?m2 ! j) i = (if pos \<le> 8 * j + i \<and> 8 * j + i < pos + (8 * k + r)
       then bit_at src (8 * j + i - pos) else bit (m ! j) i)" if j: "j < length m" "i < 8" for j i
  proof (cases "j = d + k")
    case True
    then show ?thesis
      using j len lm [OF j(2)] P [OF j] hi [of i] after_shift_src [OF A, of i] r us
      by (auto simp: pos_def pending_def bit_simps split: if_splits)
  next
    case False
    then have "(8 * j + i < pos + 8 * k) = (8 * j + i < pos + (8 * k + r)) \<or> 8 * j + i < pos"
      using j r pos_def by linarith
    then show ?thesis using False P [OF j] by (auto simp: pending_def)
  qed
  then show ?thesis using len by (auto simp: bits_written_def pos_def)
qed

lemma after_shift_two:
  assumes A: "after_shift m src d us k r m1 db1" and big: "8 < us + r"
    and lm: "\<And>i. i < 8 \<Longrightarrow> bit lm i \<longleftrightarrow> i < us + r - 8"
    and m2: "m2 = m1[d + k := db1 OR push_bit us (src ! k)]"
  shows "bits_written m (8 * d + us) (8 * k + r) (bit_at src)
    (m2[Suc (d + k) := (m2 ! Suc (d + k) AND NOT lm) OR (drop_bit (8 - us) (src ! k) AND lm)])"
    (is "bits_written _ _ _ _ ?m3")
proof -
  define pos where "pos = 8 * d + us"
  from A have len: "length m1 = length m" and us: "0 < us" "us < 8" and r: "r < 8"
    and hi: "\<And>i. us \<le> i \<Longrightarrow> \<not> bit db1 i"
    and P: "\<And>j i. j < length m \<Longrightarrow> i < 8 \<Longrightarrow> pending m1 (d + k) us db1 j i =
        (if pos \<le> 8 * j + i \<and> 8 * j + i < pos + 8 * k
         then bit_at src (8 * j + i - pos) else bit (m ! j) i)"
    by (auto simp: after_shift_def pos_def)
  have dk: "Suc (d + k) < length m" using A big by (auto simp: after_shift_def)
  have "bit (?m3 ! j) i = (if pos \<le> 8 * j + i \<and> 8 * j + i < pos + (8 * k + r)
       then bit_at src (8 * j + i - pos) else bit (m ! j) i)" if j: "j < length m" "i < 8" for j i
  proof -
    consider "j = d + k" "i < us" | "j = d + k" "us \<le> i" | "j = Suc (d + k)"
      | "j \<noteq> d + k" "j \<noteq> Suc (d + k)" by linarith
    then show ?thesis
    proof cases
      case 1
      then show ?thesis using dk len P [OF j] j big by (auto simp: m2 pos_def pending_def bit_simps)
    next
      case 2
      then show ?thesis using dk len hi [of i] after_shift_src [OF A, of i] j big
        by (auto simp: m2 pos_def bit_simps)
    next
      case 3
      have "bit (?m3 ! j) i = (if i < us + r - 8 then bit (src ! k) (8 - us + i) else bit (m1 ! j) i)"
        using 3 dk len lm [OF j(2)] j by (auto simp: m2 bit_simps)
      moreover have "bit (m1 ! j) i = bit (m ! j) i" using P [OF j] 3 us by (simp add: pos_def pending_def)
      moreover have "i < us + r - 8 \<longleftrightarrow> 8 * j + i < pos + (8 * k + r)" "pos \<le> 8 * j + i"
        using 3 big us by (auto simp: pos_def)
      moreover have "bit_at src (8 * j + i - pos) = bit (src ! k) (8 - us + i)" if "i < us + r - 8"
      proof -
        have "8 * j + i - pos = 8 * k + (8 - us + i)" using 3 us by (simp add: pos_def)
        then have "bit_at src (8 * j + i - pos) = bit_at src (8 * k + (8 - us + i))" by (simp only:)
        also have "\<dots> = bit (src ! k) (8 - us + i)"
          by (rule bit_at_split) (use that us r in linarith)
        finally show ?thesis .
      qed
      ultimately show ?thesis by simp
    next
      case 4
      then have "(8 * j + i < pos + 8 * k) = (8 * j + i < pos + (8 * k + r)) \<or> 8 * j + i < pos"
        using j us r by (auto simp: pos_def)
      then show ?thesis using 4 P [OF j] by (auto simp: m2 pending_def)
    qed
  qed
  then show ?thesis using len by (auto simp: bits_written_def pos_def m2)
qed

lemma writeBits_mem_shifted:
  assumes us0: "pos mod 8 \<noteq> 0" and big: "8 < pos mod 8 + n"
    and fit: "pos + n \<le> 8 * length m" and src: "n \<le> 8 * length src"
  shows "\<exists>m'. writeBits_mem n src pos m = Some m' \<and> bits_written m pos n (bit_at src) m'"
proof -
  define us d k r where "us = pos mod 8" and "d = pos div 8" and "k = n div 8" and "r = n mod 8"
  have pos: "pos = 8 * d + us" and us: "0 < us" "us < 8" using us0 by (simp_all add: us_def d_def)
  have nkr: "n = 8 * k + r" and r: "r < 8" by (simp_all add: k_def r_def)
  have dk: "d + k < length m" and sk: "k \<le> length src" using fit src pos nkr us by linarith+
  have dbb: "bit (m ! d AND drop_bit (8 - us) 0xFF) i \<longleftrightarrow> i < us \<and> bit (m ! d) i" for i
    using us bit_u8_lt [of "m ! d" i] by (cases "i < 8") (auto simp: bit_and_iff bit_ff_drop)
  obtain m1 db1 where L: "shiftLoop us n src 0 m d (m ! d AND drop_bit (8 - us) 0xFF) =
      Some (r, k, m1, d + k, db1)" and A: "after_shift m src d us k r m1 db1"
    using shiftLoop_pending [OF us _ _ dbb, of n src] us r dk sk fit src nkr pos
    by (auto simp: k_def [symmetric] r_def [symmetric] after_shift_def)
  have len: "length m1 = length m" using A by (simp add: after_shift_def)
  define lm :: u8 where "lm = drop_bit (7 - (pos + n - 1) mod 8) 0xFF"
  have lm: "bit lm i \<longleftrightarrow> i \<le> (pos + n - 1) mod 8" if "i < 8" for i
    using last_mask_bit [OF that, of "(pos + n - 1) mod 8"] by (simp add: lm_def)
  note W = writeBits_mem_shift_tail [OF us _ pos L, folded lm_def]
  have bg: "8 < us + n" and d: "d < length m" using big dk by (simp_all add: us_def)
  consider "r = 0" | "0 < r" "us + r \<le> 8" | "8 < us + r" by linarith
  then show ?thesis
  proof cases
    case 1
    have "pos + n - 1 = 8 * (d + k) + (us - 1)" using pos nkr 1 us by simp
    then have "(pos + n - 1) mod 8 = us - 1" by (rule mod_8_eqI) (use us in linarith)
    then have "\<And>i. i < 8 \<Longrightarrow> bit lm i \<longleftrightarrow> i < us" using lm us by auto
    from after_shift_exact [OF A [unfolded 1] this] show ?thesis
      using W [OF bg d] dk len 1 nkr pos by (auto simp: mem_simps Let_def)
  next
    case 2
    have "pos + n - 1 = 8 * (d + k) + (us + r - 1)" using pos nkr 2 us by simp
    then have "(pos + n - 1) mod 8 = us + r - 1" by (rule mod_8_eqI) (use us 2 in linarith)
    then have "\<And>i. i < 8 \<Longrightarrow> bit lm i \<longleftrightarrow> i < us + r" using lm 2 by auto
    from after_shift_one [OF A 2 this] show ?thesis
      using W [OF bg d] dk len 2 nkr pos src by (auto simp: mem_simps Let_def)
  next
    case 3
    have "pos + n - 1 = 8 * Suc (d + k) + (us + r - 9)" using pos nkr 3 us by simp
    then have "(pos + n - 1) mod 8 = us + r - 9" by (rule mod_8_eqI) (use us r in linarith)
    then have "\<And>i. i < 8 \<Longrightarrow> bit lm i \<longleftrightarrow> i < us + r - 8" using lm 3 by auto
    from after_shift_two [OF A 3 this refl] show ?thesis
      using W [OF bg d] dk len 3 nkr pos src fit us r by (auto simp: mem_simps Let_def)
  qed
qed

theorem writeBits_mem_eq:
  assumes "0 < n" and "pos + n \<le> 8 * length m" and "n \<le> 8 * length src"
  shows "writeBits_mem n src pos m = Some (put_bits m pos (get_bits src 0 n))"
proof -
  have "\<exists>m'. writeBits_mem n src pos m = Some m' \<and> bits_written m pos n (bit_at src) m'"
  proof (cases "pos mod 8 + n \<le> 8")
    case True
    then show ?thesis using assms by (intro writeBits_mem_small)
  next
    case False
    then show ?thesis using assms writeBits_mem_aligned [of n pos m src]
        writeBits_mem_shifted [of pos n m src] by (cases "pos mod 8 = 0") simp_all
  qed
  then show ?thesis using bits_written_put_bits assms(2) by blast
qed

section \<open>Reading\<close>

lemma readCopy_eq: "s + k \<le> length m \<Longrightarrow> readCopy k m s = Some (take k (drop s m))"
proof (induction k arbitrary: s)
  case (Suc k)
  then have "s < length m" by simp
  with Suc show ?case by (simp add: mem_simps Cons_nth_drop_Suc [symmetric])
qed simp

lemma readShift_spec:
  "0 < ds \<Longrightarrow> ds < 8 \<Longrightarrow> 8 * s + ds + n \<le> 8 * length m \<Longrightarrow> sb = drop_bit ds (m ! s) \<Longrightarrow>
   \<exists>out. readShift ds n m s sb = Some out \<and> length out = (n + 7) div 8 \<and>
     (\<forall>q < n. bit_at out q = bit_at m (8 * s + ds + q))"
proof (induction ds n m s sb rule: readShift.induct)
  case (1 ds n m s sb)
  define nb where "nb = m ! Suc s"
  have first: "bit (sb OR push_bit (8 - ds) nb) q = bit_at m (8 * s + ds + q)" if "q < 8" for q
  proof (cases "q < 8 - ds")
    case True
    have "bit_at m (8 * s + ds + q) = bit (m ! s) (ds + q)"
      using True bit_at_split [of "ds + q" m s] by (simp add: add.assoc)
    then show ?thesis using True "1.prems" that by (auto simp: bit_simps)
  next
    case False
    then have "8 * s + ds + q = 8 * Suc s + (q - (8 - ds))" using "1.prems" by simp
    then have "bit_at m (8 * s + ds + q) = bit_at m (8 * Suc s + (q - (8 - ds)))" by (simp only:)
    also have "\<dots> = bit nb (q - (8 - ds))" unfolding nb_def by (rule bit_at_split) (use that in linarith)
    finally show ?thesis using False "1.prems" that bit_u8_lt [of "m ! s" "ds + q"] by (auto simp: bit_simps)
  qed
  consider "8 \<le> n" | "n < 8" "n \<le> 8 - ds" | "n < 8" "8 - ds < n" by linarith
  then show ?case
  proof cases
    case 1
    have s: "Suc s < length m" using 1 "1.prems" by linarith
    have "\<exists>out. readShift ds (n - 8) m (Suc s) (drop_bit ds nb) = Some out \<and>
        length out = (n - 8 + 7) div 8 \<and> (\<forall>q < n - 8. bit_at out q = bit_at m (8 * Suc s + ds + q))"
      using 1 "1.prems" s by (intro "1.IH") (simp_all add: mem_simps nb_def)
    then obtain out where out: "readShift ds (n - 8) m (Suc s) (drop_bit ds nb) = Some out"
        "length out = (n - 8 + 7) div 8" "\<And>q. q < n - 8 \<Longrightarrow> bit_at out q = bit_at m (8 * Suc s + ds + q)"
      by blast
    let ?o = "(sb OR push_bit (8 - ds) nb) # out"
    have "readShift ds n m s sb = Some ?o"
      using 1 s out(1) by (subst readShift.simps) (simp add: mem_simps nb_def)
    moreover have "length ?o = (n + 7) div 8" using out(2) 1 by simp
    moreover have "bit_at ?o q = bit_at m (8 * s + ds + q)" if q: "q < n" for q
    proof (cases "q < 8")
      case True
      then show ?thesis using first [OF True] by (simp add: bit_at_def)
    next
      case False
      then obtain q' where q': "q = q' + 8" by (metis add.commute le_Suc_ex not_less)
      have "(q' + 8) div 8 = Suc (q' div 8)" and "(q' + 8) mod 8 = q' mod 8" by simp_all
      then have "bit_at ?o q = bit_at out q'" by (simp only: bit_at_def q') simp
      also have "\<dots> = bit_at m (8 * s + ds + q)" using out(3) [of q'] q q' by (simp add: algebra_simps)
      finally show ?thesis .
    qed
    ultimately show ?thesis by blast
  next
    case 2
    have "bit_at [sb] q = bit_at m (8 * s + ds + q)" if "q < n" for q
    proof -
      have "bit_at m (8 * s + ds + q) = bit (m ! s) (ds + q)"
        using 2 that bit_at_split [of "ds + q" m s] by (simp add: add.assoc)
      then show ?thesis using 2 that "1.prems" by (simp add: bit_at_def bit_drop_bit_eq)
    qed
    moreover have "(n + 7) div 8 = (if n = 0 then 0 else 1)"
    proof (cases "n = 0")
      case False
      then have "(n + 7) div 8 = 1" using 2 by linarith
      with False show ?thesis by simp
    qed simp
    ultimately show ?thesis using 2 by (subst readShift.simps) simp
  next
    case 3
    then have s: "Suc s < length m" using "1.prems" by linarith
    have "bit_at [sb OR push_bit (8 - ds) nb] q = bit_at m (8 * s + ds + q)" if "q < n" for q
      using first [of q] that 3 by (simp add: bit_at_def)
    moreover have "(n + 7) div 8 = 1" using 3 by linarith
    ultimately show ?thesis using 3 s by (subst readShift.simps) (auto simp: mem_simps nb_def)
  qed
qed

theorem readBits_mem_spec:
  assumes "0 < n" and "pos + n \<le> 8 * length m"
  shows "\<exists>out. readBits_mem n pos m = Some out \<and> length out = (n + 7) div 8 \<and>
    get_bits out 0 n = get_bits m pos n"
proof -
  define s ds where "s = pos div 8" and "ds = pos mod 8"
  have pos: "pos = 8 * s + ds" and ds: "ds < 8" by (simp_all add: s_def ds_def)
  have "\<exists>out. readBits_mem n pos m = Some out \<and> length out = (n + 7) div 8 \<and>
    (\<forall>q < n. bit_at out q = bit_at m (pos + q))"
  proof (cases "ds = 0")
    case True
    have k: "s + (n + 7) div 8 \<le> length m" using assms pos True by linarith
    have "bit_at (take ((n + 7) div 8) (drop s m)) q = bit_at m (pos + q)" if "q < n" for q
    proof -
      have "q div 8 < (n + 7) div 8" using that by linarith
      then show ?thesis using pos True k by (simp add: bit_at_def add.commute)
    qed
    then show ?thesis using k True
      by (simp add: readBits_mem_def Let_def s_def [symmetric] ds_def [symmetric] readCopy_eq)
  next
    case False
    have "s < length m" using assms pos by linarith
    then show ?thesis
      using readShift_spec [of ds s n m "drop_bit ds (m ! s)"] False ds assms pos
      by (simp add: readBits_mem_def Let_def s_def [symmetric] ds_def [symmetric] mem_simps)
  qed
  then show ?thesis by (auto simp: get_bits_def)
qed

end
