(* ===== verification/Bit_Stream_Codec.thy ===== *)
theory Bit_Stream_Codec
  imports Bit_Stream_Loops
begin

text \<open>
  The stream operations seen as operations on bit strings, and the interface \<open>bit_codec\<close>
  that every writer and reader pair of the library implements, with its interpretations
  on flags, integers, signed integers, ranged integers and byte buffers.
\<close>

section \<open>Streams as bit strings\<close>

text \<open>
  The abstract view of a stream: writing appends a bit string at the position, reading
  takes the next bits. The limits lie inside the block.
\<close>

definition stream_ok :: "bit_stream \<Rightarrow> bool" where
  "stream_ok bs \<longleftrightarrow> unat (maxReadBitNum bs) \<le> 8 * length (mDataPtr bs) \<and>
     unat (maxWriteBitNum bs) \<le> 8 * length (mDataPtr bs)"

definition can_write :: "bit_stream \<Rightarrow> nat \<Rightarrow> bool" where
  "can_write bs n \<longleftrightarrow> stream_ok bs \<and> unat (bitNum bs) + n \<le> unat (maxWriteBitNum bs)"

definition can_read :: "bit_stream \<Rightarrow> nat \<Rightarrow> bool" where
  "can_read bs n \<longleftrightarrow> stream_ok bs \<and> unat (bitNum bs) + n \<le> unat (maxReadBitNum bs)"

definition append_bits :: "bool list \<Rightarrow> bit_stream \<Rightarrow> bit_stream" where
  "append_bits xs bs = bs\<lparr>mDataPtr := put_bits (mDataPtr bs) (unat (bitNum bs)) xs,
                           bitNum := bitNum bs + of_nat (length xs)\<rparr>"

definition skip_bits :: "nat \<Rightarrow> bit_stream \<Rightarrow> bit_stream" where
  "skip_bits n bs = bs\<lparr>bitNum := bitNum bs + of_nat n\<rparr>"

definition next_bits :: "bit_stream \<Rightarrow> nat \<Rightarrow> bool list" where
  "next_bits bs n = get_bits (mDataPtr bs) (unat (bitNum bs)) n"

definition int_bits :: "nat \<Rightarrow> 'a::len word \<Rightarrow> bool list" where
  "int_bits n v = map (bit v) [0..<n]"

definition bits_value :: "bool list \<Rightarrow> 'a::len word" where
  "bits_value xs = horner_sum of_bool 2 xs"

lemma length_int_bits [simp]: "length (int_bits n v) = n"
  by (simp add: int_bits_def)

lemma length_next_bits [simp]: "length (next_bits bs n) = n"
  by (simp add: next_bits_def)

lemma bits_value_int_bits [simp]: "bits_value (int_bits n v) = take_bit n v"
  by (simp add: bits_value_def int_bits_def horner_sum_bit_eq_take_bit)

lemma unat_plus_small: "unat (a :: u32) + n < 2 ^ 32 \<Longrightarrow> unat (a + of_nat n) = unat a + n"
  by (simp add: unat_word_ariths unat_of_nat take_bit_nat_eq_self)

lemma room_no_wrap: "unat (p :: u32) + n \<le> unat (q :: u32) \<Longrightarrow> unat (p + of_nat n) = unat p + n"
proof -
  assume "unat p + n \<le> unat q"
  moreover have "unat q < 2 ^ 32" using unsigned_less [of q, where ?'a = nat] by simp
  ultimately have "unat p + n < 2 ^ 32" by linarith
  then show ?thesis by (rule unat_plus_small)
qed

lemma can_write_append:
  "can_write bs (length xs + n) \<Longrightarrow> can_write (append_bits xs bs) n"
  using room_no_wrap [of "bitNum bs" "length xs" "maxWriteBitNum bs"]
  by (auto simp: can_write_def append_bits_def stream_ok_def)

lemma can_read_skip: "can_read bs (k + n) \<Longrightarrow> can_read (skip_bits k bs) n"
  using room_no_wrap [of "bitNum bs" k "maxReadBitNum bs"]
  by (auto simp: can_read_def skip_bits_def stream_ok_def)

lemma can_write_mono: "can_write bs n \<Longrightarrow> k \<le> n \<Longrightarrow> can_write bs k"
  by (simp add: can_write_def)

lemma can_read_mono: "can_read bs n \<Longrightarrow> k \<le> n \<Longrightarrow> can_read bs k"
  by (simp add: can_read_def)

lemma put_bits_append: "put_bits m p (xs @ ys) = put_bits (put_bits m p xs) (p + length xs) ys"
  by (induction m p xs rule: put_bits.induct) simp_all

lemma append_bits_append:
  assumes "can_write bs (length xs + length ys)"
  shows "append_bits ys (append_bits xs bs) = append_bits (xs @ ys) bs"
  using assms room_no_wrap [of "bitNum bs" "length xs" "maxWriteBitNum bs"]
  by (simp add: append_bits_def put_bits_append can_write_def add.assoc)

lemma skip_bits_skip: "skip_bits n (skip_bits k bs) = skip_bits (k + n) bs"
  by (simp add: skip_bits_def add.assoc)

lemma skip_0 [simp]: "skip_bits 0 bs = bs"
  by (simp add: skip_bits_def)

lemma append_Nil [simp]: "append_bits [] bs = bs"
  by (simp add: append_bits_def)

lemma next_bits_add:
  assumes "can_read bs (k + n)"
  shows "next_bits bs (k + n) = next_bits bs k @ next_bits (skip_bits k bs) n"
proof (rule nth_equalityI)
  fix i assume "i < length (next_bits bs (k + n))"
  then show "next_bits bs (k + n) ! i = (next_bits bs k @ next_bits (skip_bits k bs) n) ! i"
    using room_no_wrap [of "bitNum bs" k "maxReadBitNum bs"] assms
    by (auto simp: next_bits_def skip_bits_def nth_append can_read_def add.assoc)
qed simp

lemma next_bits_append_bits:
  assumes "can_write bs (length xs)"
  shows "next_bits ((append_bits xs bs)\<lparr>bitNum := bitNum bs\<rparr>) (length xs) = xs"
  using assms get_bits_put_bits [of "unat (bitNum bs)" xs "mDataPtr bs"]
  by (auto simp: next_bits_def append_bits_def can_write_def stream_ok_def)

lemma get_bits_split: "get_bits m p (k + n) = get_bits m p k @ get_bits m (p + k) n"
  by (rule nth_equalityI) (auto simp: nth_append add.assoc)

section \<open>The operations on the abstract view\<close>

lemma writeBits_fits:
  assumes w: "can_write bs (unat n)" and src: "unat n \<le> 8 * length src"
  shows "writeBits n src bs = Some (True, append_bits (get_bits src 0 (unat n)) bs)"
proof (cases "n = 0")
  case True
  then show ?thesis by (simp add: writeBits_def get_bits_def)
next
  case False
  then have pos: "0 < unat n" by (simp add: unat_gt_0)
  have "unat (bitNum bs + n) = unat (bitNum bs) + unat n"
    using w room_no_wrap [of "bitNum bs" "unat n" "maxWriteBitNum bs"] by (simp add: can_write_def)
  then have "\<not> n + bitNum bs > maxWriteBitNum bs"
    using w by (simp add: can_write_def word_less_nat_alt add.commute)
  then have e: "ensureBits n bs = (True, bs)" by (simp add: ensureBits_def)
  have "writeBits_mem (unat n) src (unat (bitNum bs)) (mDataPtr bs) =
      Some (put_bits (mDataPtr bs) (unat (bitNum bs)) (get_bits src 0 (unat n)))"
    using pos w src by (intro writeBits_mem_eq) (auto simp: can_write_def stream_ok_def)
  with e False show ?thesis by (simp add: writeBits_def append_bits_def)
qed

lemma readBits_fits:
  assumes r: "can_read bs (unat n)"
  shows "\<exists>out. readBits n bs = Some (True, out, skip_bits (unat n) bs) \<and>
    length out = (unat n + 7) div 8 \<and> get_bits out 0 (unat n) = next_bits bs (unat n)"
proof (cases "n = 0")
  case True
  then show ?thesis by (simp add: readBits_def get_bits_def next_bits_def)
next
  case False
  then have pos: "0 < unat n" by (simp add: unat_gt_0)
  have "unat (bitNum bs + n) = unat (bitNum bs) + unat n"
    using r room_no_wrap [of "bitNum bs" "unat n" "maxReadBitNum bs"] by (simp add: can_read_def)
  then have c: "\<not> n + bitNum bs > maxReadBitNum bs"
    using r by (simp add: can_read_def word_less_nat_alt add.commute)
  have fit: "unat (bitNum bs) + unat n \<le> 8 * length (mDataPtr bs)"
    using r by (simp add: can_read_def stream_ok_def)
  from readBits_mem_spec [OF pos this] obtain out where
    "readBits_mem (unat n) (unat (bitNum bs)) (mDataPtr bs) = Some out"
    "length out = (unat n + 7) div 8" "get_bits out 0 (unat n) = next_bits bs (unat n)"
    by (auto simp: next_bits_def)
  with c False show ?thesis by (simp add: readBits_def skip_bits_def)
qed

lemma setBitMem_eq: "p < 8 * length m \<Longrightarrow> setBitMem m p v = Some (put_bit m p v)"
proof -
  assume "p < 8 * length m"
  then have "p div 8 < length m" by (simp add: less_mult_imp_div_less mult.commute)
  then show ?thesis by (simp add: setBitMem_def put_bit_def mem_simps)
qed

lemma writeFlag_fits:
  assumes "can_write bs 1"
  shows "writeFlag v bs = Some (v, append_bits [v] bs)"
proof -
  have "unat (bitNum bs + 1) = unat (bitNum bs) + 1"
    using assms room_no_wrap [of "bitNum bs" 1 "maxWriteBitNum bs"] by (simp add: can_write_def)
  then have "\<not> bitNum bs + 1 > maxWriteBitNum bs"
    using assms by (simp add: can_write_def word_less_nat_alt)
  moreover have "setBitMem (mDataPtr bs) (unat (bitNum bs)) v =
      Some (put_bit (mDataPtr bs) (unat (bitNum bs)) v)"
    using assms by (intro setBitMem_eq) (auto simp: can_write_def stream_ok_def)
  ultimately show ?thesis by (simp add: writeFlag_def append_bits_def)
qed

lemma readFlag_fits:
  assumes "can_read bs 1"
  shows "readFlag bs = Some (hd (next_bits bs 1), skip_bits 1 bs)"
proof -
  have "\<not> bitNum bs > maxReadBitNum bs" and "unat (bitNum bs) div 8 < length (mDataPtr bs)"
    using assms by (auto simp: can_read_def stream_ok_def word_less_nat_alt)
  then show ?thesis
    by (simp add: readFlag_def mem_simps and_exp_eq_0_iff_not_bit next_bits_def get_bits_def bit_at_def skip_bits_def)
qed

lemma unat_ucast_u8_u32: "unat (ucast (n :: u8) :: u32) = unat n"
proof -
  have "unat n < 2 ^ 8" using unsigned_less [of n, where ?'a = nat] by simp
  then show ?thesis by (simp add: unsigned_ucast_eq take_bit_nat_eq_self)
qed

lemma get_bits_le_bytes: "n \<le> 8 * k \<Longrightarrow> get_bits (le_bytes k v) 0 n = int_bits n v"
  by (rule nth_equalityI) (auto simp: int_bits_def bit_at_le_bytes)

lemma writeInt_fits:
  assumes "can_write bs (unat n)" and "unat n \<le> 32"
  shows "writeInt v n bs = Some (append_bits (int_bits (unat n) v) bs)"
proof -
  note u = unat_ucast_u8_u32 [of n]
  show ?thesis
    using writeBits_fits [of bs "ucast n" "le_bytes 4 v"] assms get_bits_le_bytes [of "unat n" 4 v]
    by (simp add: writeInt_def u)
qed

lemma le_value_eq_bits: "32 \<le> 8 * length m \<Longrightarrow> take_bit n (le_value m :: u32) = bits_value (get_bits m 0 (min n 32))"
  by (rule bit_word_eqI) (auto simp: bits_value_def bit_simps bit_view get_bits_def)

lemma readInt_fits:
  assumes "can_read bs (unat n)" and "unat n \<le> 32"
  shows "readInt n bs = Some (bits_value (next_bits bs (unat n)), skip_bits (unat n) bs)"
proof -
  note u = unat_ucast_u8_u32 [of n]
  from readBits_fits [of bs "ucast n", unfolded u, OF assms(1)] obtain out where
    out: "readBits (ucast n) bs = Some (True, out, skip_bits (unat n) bs)"
      "length out = (unat n + 7) div 8" "get_bits out 0 (unat n) = next_bits bs (unat n)" by blast
  have len: "length out \<le> 4" using out(2) assms(2) by simp
  define r where "r = out @ drop (length out) [0, 0, 0, 0 :: u8]"
  have r4: "length r = 4" using len by (simp add: r_def)
  have m: "memcpy [0, 0, 0, 0] 0 out = Some r" using len by (simp add: memcpy_eq r_def)
  have "get_bits r 0 (unat n) = get_bits out 0 (unat n)"
  proof (rule nth_equalityI)
    fix q assume "q < length (get_bits r 0 (unat n))"
    then have q: "q < unat n" by simp
    then have "q div 8 < length out" using out(2) by simp
    then show "get_bits r 0 (unat n) ! q = get_bits out 0 (unat n) ! q"
      using q by (simp add: bit_at_def r_def nth_append)
  qed simp
  then have v: "take_bit (unat n) (le_value r :: u32) = bits_value (next_bits bs (unat n))"
    using le_value_eq_bits [of r "unat n"] r4 assms(2) out(3) by simp
  have "(if n = 32 then le_value r else le_value r AND mask (unat n)) = take_bit (unat n) (le_value r :: u32)"
  proof (cases "n = 32")
    case True
    then have "unat n = 32" by simp
    with True show ?thesis by (simp only: if_True) (simp add: take_bit_word_eq_self)
  qed (simp add: take_bit_eq_mask)
  with v out(1) m show ?thesis by (simp add: readInt_def Let_def)
qed


section \<open>Codecs\<close>

text \<open>
  The interface most of the library relies on: a writer that appends the code of a value
  and a reader that takes it back. A format \<open>f\<close> (a bit count, a range) is known to
  both ends. Inside the locale: the round trip, sequences of values, and that a code
  followed by anything determines its value.
\<close>

fun write_seq :: "('f \<Rightarrow> 'v \<Rightarrow> bit_stream \<Rightarrow> bit_stream option) \<Rightarrow> ('f \<times> 'v) list \<Rightarrow> bit_stream \<Rightarrow> bit_stream option" where
  "write_seq wr [] bs = Some bs"
| "write_seq wr ((f, v) # xs) bs = do { bs' \<leftarrow> wr f v bs; write_seq wr xs bs' }"

fun read_seq :: "('f \<Rightarrow> bit_stream \<Rightarrow> ('v \<times> bit_stream) option) \<Rightarrow> 'f list \<Rightarrow> bit_stream \<Rightarrow> ('v list \<times> bit_stream) option" where
  "read_seq rdr [] bs = Some ([], bs)"
| "read_seq rdr (f # fs) bs = do { (v, bs') \<leftarrow> rdr f bs; (vs, bs'') \<leftarrow> read_seq rdr fs bs'; Some (v # vs, bs'') }"

locale bit_codec =
  fixes valid :: "'f \<Rightarrow> 'v \<Rightarrow> bool"
    and enc :: "'f \<Rightarrow> 'v \<Rightarrow> bool list"
    and wr :: "'f \<Rightarrow> 'v \<Rightarrow> bit_stream \<Rightarrow> bit_stream option"
    and rdr :: "'f \<Rightarrow> bit_stream \<Rightarrow> ('v \<times> bit_stream) option"
  assumes write_appends: "valid f v \<Longrightarrow> can_write bs (length (enc f v)) \<Longrightarrow>
      wr f v bs = Some (append_bits (enc f v) bs)"
    and read_takes: "valid f v \<Longrightarrow> can_read bs (length (enc f v)) \<Longrightarrow>
      next_bits bs (length (enc f v)) = enc f v \<Longrightarrow>
      rdr f bs = Some (v, skip_bits (length (enc f v)) bs)"
begin

lemma seq_appends:
  "list_all (\<lambda>(f, v). valid f v) xs \<Longrightarrow> can_write bs (length (concat (map (\<lambda>(f, v). enc f v) xs))) \<Longrightarrow>
   write_seq wr xs bs = Some (append_bits (concat (map (\<lambda>(f, v). enc f v) xs)) bs)"
proof (induction xs arbitrary: bs)
  case Nil
  then show ?case by simp
next
  case (Cons x xs)
  obtain f v where x: "x = (f, v)" by (cases x)
  let ?r = "concat (map (\<lambda>(f, v). enc f v) xs)"
  have room: "can_write bs (length (enc f v) + length ?r)" using Cons.prems x by simp
  then have "wr f v bs = Some (append_bits (enc f v) bs)"
    using Cons.prems x by (intro write_appends) (auto intro: can_write_mono)
  moreover have "write_seq wr xs (append_bits (enc f v) bs) = Some (append_bits ?r (append_bits (enc f v) bs))"
    using Cons.prems x can_write_append [OF room] by (intro Cons.IH) simp_all
  ultimately show ?case using append_bits_append [OF room] by (simp add: x)
qed

lemma seq_takes:
  "list_all (\<lambda>(f, v). valid f v) xs \<Longrightarrow> can_read bs (length (concat (map (\<lambda>(f, v). enc f v) xs))) \<Longrightarrow>
   next_bits bs (length (concat (map (\<lambda>(f, v). enc f v) xs))) = concat (map (\<lambda>(f, v). enc f v) xs) \<Longrightarrow>
   read_seq rdr (map fst xs) bs =
     Some (map snd xs, skip_bits (length (concat (map (\<lambda>(f, v). enc f v) xs))) bs)"
proof (induction xs arbitrary: bs)
  case Nil
  then show ?case by simp
next
  case (Cons x xs)
  obtain f v where x: "x = (f, v)" by (cases x)
  let ?r = "concat (map (\<lambda>(f, v). enc f v) xs)"
  have room: "can_read bs (length (enc f v) + length ?r)" using Cons.prems x by simp
  have "next_bits bs (length (enc f v)) @ next_bits (skip_bits (length (enc f v)) bs) (length ?r) = enc f v @ ?r"
    using next_bits_add [OF room] Cons.prems(3) x by simp
  then have n: "next_bits bs (length (enc f v)) = enc f v"
    "next_bits (skip_bits (length (enc f v)) bs) (length ?r) = ?r" by simp_all
  have "rdr f bs = Some (v, skip_bits (length (enc f v)) bs)"
    using Cons.prems x room n(1) by (intro read_takes) (auto intro: can_read_mono)
  moreover have "read_seq rdr (map fst xs) (skip_bits (length (enc f v)) bs) =
      Some (map snd xs, skip_bits (length ?r) (skip_bits (length (enc f v)) bs))"
    using Cons.prems x can_read_skip [OF room] n(2) by (intro Cons.IH) simp_all
  ultimately show ?case by (simp add: x skip_bits_skip)
qed

lemma seq_roundtrip:
  assumes "list_all (\<lambda>(f, v). valid f v) xs"
    and n: "n = length (concat (map (\<lambda>(f, v). enc f v) xs))"
    and w: "can_write bs n" and r: "can_read bs n"
  shows "\<exists>bs1. write_seq wr xs bs = Some bs1 \<and>
     read_seq rdr (map fst xs) (setBitPosition (bitNum bs) bs1) = Some (map snd xs, bs1)"
proof -
  define c where "c = concat (map (\<lambda>(f, v). enc f v) xs)"
  let ?b = "setBitPosition (bitNum bs) (append_bits c bs)"
  have "write_seq wr xs bs = Some (append_bits c bs)"
    using seq_appends [OF assms(1)] w n by (simp add: c_def)
  moreover have "next_bits ?b (length c) = c"
    using next_bits_append_bits [of bs c] w n by (simp add: c_def setBitPosition_def)
  moreover have "can_read ?b (length c)"
    using r n by (simp add: c_def can_read_def append_bits_def setBitPosition_def stream_ok_def)
  moreover have "skip_bits (length c) ?b = append_bits c bs"
    by (simp add: skip_bits_def append_bits_def setBitPosition_def)
  ultimately show ?thesis using seq_takes [OF assms(1), of ?b] by (simp add: c_def)
qed

lemma roundtrip:
  assumes "valid f v" and "can_write bs (length (enc f v))" and "can_read bs (length (enc f v))"
  shows "\<exists>bs1. wr f v bs = Some bs1 \<and> rdr f (setBitPosition (bitNum bs) bs1) = Some (v, bs1)"
  using seq_roundtrip [of "[(f, v)]" "length (enc f v)" bs] assms
  by (auto split: Option.bind_splits)

end

text \<open>Flags, unsigned, signed and ranged integers.\<close>

definition int_valid :: "u8 \<Rightarrow> u32 \<Rightarrow> bool" where
  "int_valid n v \<longleftrightarrow> unat n \<le> 32 \<and> take_bit (unat n) v = v"

definition signed_valid :: "u8 \<Rightarrow> u32 \<Rightarrow> bool" where
  "signed_valid n v \<longleftrightarrow> 0 < unat n \<and> unat n \<le> 33 \<and>
     take_bit (unat n - 1) (if sint v < 0 then - v else v) = (if sint v < 0 then - v else v)"

definition signed_bits :: "u8 \<Rightarrow> u32 \<Rightarrow> bool list" where
  "signed_bits n v = (sint v < 0) # int_bits (unat n - 1) (if sint v < 0 then - v else v)"

definition ranged_valid :: "u32 \<times> u32 \<Rightarrow> u32 \<Rightarrow> bool" where
  "ranged_valid r v \<longleftrightarrow> fst r \<le> v \<and> v \<le> snd r \<and> unat (snd r) - unat (fst r) + 1 < 2 ^ 32 - 128"

definition ranged_width :: "u32 \<times> u32 \<Rightarrow> nat" where
  "ranged_width r = unat (getNextBinLog2 (snd r - fst r + 1))"

interpretation flag_codec: bit_codec "\<lambda>(_ :: unit) (_ :: bool). True" "\<lambda>_ b. [b]"
  "\<lambda>_ b bs. map_option snd (writeFlag b bs)" "\<lambda>_. readFlag"
  by unfold_locales (simp_all add: writeFlag_fits readFlag_fits)

interpretation int_codec: bit_codec int_valid "\<lambda>n. int_bits (unat n)" "\<lambda>n v. writeInt v n" readInt
  by unfold_locales (simp_all add: int_valid_def writeInt_fits readInt_fits)

lemma unat_u8_pred: "0 < unat n \<Longrightarrow> unat (n - 1 :: u8) = unat n - 1"
  by (simp add: unat_minus_one unat_gt_0)

lemma writeSignedInt_fits:
  assumes "0 < unat n" and "unat n \<le> 33" and w: "can_write bs (unat n)"
  shows "writeSignedInt v n bs = Some (append_bits (signed_bits n v) bs)"
proof -
  have room: "can_write bs (length [sint v < 0] + (unat n - 1))" using assms by simp
  have "writeFlag (sint v < 0) bs = Some (sint v < 0, append_bits [sint v < 0] bs)"
    using w assms(1) by (intro writeFlag_fits) (auto intro: can_write_mono)
  moreover have "writeInt x (n - 1) (append_bits [sint v < 0] bs) =
      Some (append_bits (int_bits (unat n - 1) x) (append_bits [sint v < 0] bs))" for x
    using can_write_append [OF room] assms by (subst writeInt_fits) (simp_all add: unat_u8_pred)
  moreover have "append_bits (int_bits (unat n - 1) x) (append_bits [sint v < 0] bs) =
      append_bits ((sint v < 0) # int_bits (unat n - 1) x) bs" for x :: u32
    using append_bits_append [of bs "[sint v < 0]" "int_bits (unat n - 1) x"] room by simp
  ultimately show ?thesis by (cases "sint v < 0") (simp_all add: writeSignedInt_def signed_bits_def)
qed

lemma readSignedInt_fits:
  assumes "0 < unat n" and "unat n \<le> 33" and r: "can_read bs (unat n)"
  shows "readSignedInt n bs = (let v = bits_value (next_bits (skip_bits 1 bs) (unat n - 1)) in
    Some (if hd (next_bits bs 1) then - v else v, skip_bits (unat n) bs))"
proof -
  have room: "can_read bs (1 + (unat n - 1))" using assms by simp
  have "readFlag bs = Some (hd (next_bits bs 1), skip_bits 1 bs)"
    using r assms(1) by (intro readFlag_fits) (auto intro: can_read_mono)
  moreover have "readInt (n - 1) (skip_bits 1 bs) =
      Some (bits_value (next_bits (skip_bits 1 bs) (unat n - 1)), skip_bits (unat n - 1) (skip_bits 1 bs))"
    using can_read_skip [OF room] assms by (subst readInt_fits) (simp_all add: unat_u8_pred)
  moreover have "skip_bits (unat n - 1) (skip_bits 1 bs) = skip_bits (unat n) bs"
    unfolding skip_bits_skip using assms(1) by simp
  ultimately show ?thesis by (simp add: readSignedInt_def Let_def)
qed

interpretation signed_codec: bit_codec signed_valid signed_bits "\<lambda>n v. writeSignedInt v n" readSignedInt
proof
  fix n v bs assume v: "signed_valid n v"
  then have len: "length (signed_bits n v) = unat n" and n: "0 < unat n" "unat n \<le> 33"
    by (auto simp: signed_valid_def signed_bits_def)
  show "writeSignedInt v n bs = Some (append_bits (signed_bits n v) bs)"
    if "can_write bs (length (signed_bits n v))"
    using writeSignedInt_fits [OF n] that len by simp
  show "readSignedInt n bs = Some (v, skip_bits (length (signed_bits n v)) bs)"
    if r: "can_read bs (length (signed_bits n v))"
      and b: "next_bits bs (length (signed_bits n v)) = signed_bits n v"
  proof -
    have "can_read bs (1 + (unat n - 1))" using r len n by simp
    from next_bits_add [OF this] have "next_bits bs 1 @ next_bits (skip_bits 1 bs) (unat n - 1) =
        [sint v < 0] @ int_bits (unat n - 1) (if sint v < 0 then - v else v)"
      using b len n by (simp add: signed_bits_def)
    moreover have "length (next_bits bs 1) = length [sint v < 0]" by simp
    ultimately have "next_bits bs 1 = [sint v < 0] \<and>
      next_bits (skip_bits 1 bs) (unat n - 1) = int_bits (unat n - 1) (if sint v < 0 then - v else v)"
      using append_eq_append_conv by blast
    then show ?thesis using readSignedInt_fits [OF n] r len v
      by (auto simp: signed_valid_def Let_def)
  qed
qed

lemma ranged_facts:
  assumes "ranged_valid r v"
  shows "unat (snd r - fst r + 1) = unat (snd r) - unat (fst r) + 1"
    and "ranged_width r \<le> 32" and "unat (ucast (getNextBinLog2 (snd r - fst r + 1)) :: u8) = ranged_width r"
    and "take_bit (ranged_width r) (v - fst r) = v - fst r"
proof -
  have le: "unat (fst r) \<le> unat v" "unat v \<le> unat (snd r)"
    and s: "unat (snd r) - unat (fst r) + 1 < 2 ^ 32 - 128"
    using assms by (auto simp: ranged_valid_def word_le_nat_alt)
  have d: "unat (snd r - fst r) = unat (snd r) - unat (fst r)"
    using le by (intro unat_sub) (simp add: word_le_nat_alt)
  then show sz: "unat (snd r - fst r + 1) = unat (snd r) - unat (fst r) + 1"
    using unat_plus_small [of "snd r - fst r" 1] s by simp
  then have nz: "snd r - fst r + 1 \<noteq> 0" by (metis Suc_eq_plus1 nat.distinct(1) unat_0)
  show w: "ranged_width r \<le> 32"
    unfolding ranged_width_def using nz sz s by (intro getNextBinLog2_le) simp_all
  show "unat (ucast (getNextBinLog2 (snd r - fst r + 1)) :: u8) = ranged_width r"
    using w by (simp add: ranged_width_def unsigned_ucast_eq take_bit_nat_eq_self)
  have "unat (snd r - fst r + 1) \<le> 2 ^ ranged_width r"
    unfolding ranged_width_def by (rule getNextBinLog2_covers [OF nz])
  moreover have "unat (v - fst r) = unat v - unat (fst r)"
    using le by (intro unat_sub) (simp add: word_le_nat_alt)
  ultimately have "unat (v - fst r) < 2 ^ ranged_width r" using le sz by linarith
  then show "take_bit (ranged_width r) (v - fst r) = v - fst r"
    by (simp add: word_unat_eq_iff unsigned_take_bit_eq take_bit_nat_eq_self)
qed

interpretation ranged_codec: bit_codec ranged_valid "\<lambda>r v. int_bits (ranged_width r) (v - fst r)"
  "\<lambda>r v. writeRangedU32 v (fst r) (snd r)" "\<lambda>r. readRangedU32 (fst r) (snd r)"
  by unfold_locales
    (simp_all add: writeRangedU32_def readRangedU32_def Let_def writeInt_fits readInt_fits ranged_facts)

text \<open>Byte buffers: a ten-bit length and the bytes. The format is what a fresh allocation holds.\<close>

definition writeData :: "(nat \<Rightarrow> u8) \<Rightarrow> mem \<Rightarrow> bit_stream \<Rightarrow> bit_stream option" where
  "writeData fresh d bs = map_option snd (writeBuffer (ByteBuffer_wrap fresh d (of_nat (length d))) bs)"

definition readData :: "(nat \<Rightarrow> u8) \<Rightarrow> bit_stream \<Rightarrow> (mem \<times> bit_stream) option" where
  "readData fresh bs =
     map_option (\<lambda>(_, b, bs'). (contents b, bs')) (readBuffer (ByteBuffer_wrap fresh [] 0) bs)"

definition data_bits :: "mem \<Rightarrow> bool list" where
  "data_bits d = int_bits 10 (of_nat (length d) :: u32) @ get_bits d 0 (8 * length d)"

lemma unat_push3: "n < 2 ^ 29 \<Longrightarrow> unat (push_bit 3 (of_nat n :: u32)) = 8 * n"
  by (simp add: push_bit_eq_mult unat_word_ariths unat_of_nat take_bit_nat_eq_self)

lemma length_data_bits [simp]: "length (data_bits d) = 10 + 8 * length d"
  by (simp add: data_bits_def)

lemma writeBuffer_fits:
  assumes "length d \<le> 1023" and w: "can_write bs (10 + 8 * length d)"
  shows "writeBuffer (ByteBuffer_wrap fresh d (of_nat (length d))) bs = Some (True, append_bits (data_bits d) bs)"
proof -
  have sz: "unat (of_nat (length d) :: u32) = length d"
    using assms(1) by (simp add: unat_of_nat take_bit_nat_eq_self)
  have "\<not> (of_nat (length d) :: u32) > 1023" using assms(1) sz by (simp add: word_less_nat_alt)
  moreover have "writeInt (of_nat (length d)) 10 bs = Some (append_bits (int_bits 10 (of_nat (length d) :: u32)) bs)"
    using w by (subst writeInt_fits) (auto intro: can_write_mono)
  moreover have "writeBits (push_bit 3 (of_nat (length d))) d (append_bits (int_bits 10 (of_nat (length d) :: u32)) bs) =
      Some (True, append_bits (get_bits d 0 (8 * length d)) (append_bits (int_bits 10 (of_nat (length d) :: u32)) bs))"
    using assms(1) unat_push3 [of "length d"] can_write_append [of bs "int_bits 10 (of_nat (length d) :: u32)" "8 * length d"] w
    by (subst writeBits_fits) simp_all
  moreover have "append_bits (get_bits d 0 (8 * length d)) (append_bits (int_bits 10 (of_nat (length d) :: u32)) bs) =
      append_bits (data_bits d) bs"
    unfolding data_bits_def using w by (intro append_bits_append) simp
  ultimately show ?thesis
    by (simp add: writeBuffer_def Let_def writeBytes_def ByteBuffer_wrap_def)
qed

lemma get_bits_inj: "length a = length b \<Longrightarrow> get_bits a 0 (8 * length a) = get_bits b 0 (8 * length a) \<Longrightarrow> a = b"
  by (rule mem_eqI) (auto simp: list_eq_iff_nth_eq)

lemma readBuffer_fits:
  assumes len: "length d \<le> 1023" and r: "can_read bs (10 + 8 * length d)"
    and nb: "next_bits bs (10 + 8 * length d) = data_bits d"
  shows "\<exists>b. readBuffer (ByteBuffer_wrap fresh [] 0) bs = Some (True, b, skip_bits (10 + 8 * length d) bs) \<and>
    contents b = d \<and> mOwnsMemory b"
proof -
  define sz :: u32 where "sz = of_nat (length d)"
  have sz: "unat sz = length d" using len by (simp add: sz_def unat_of_nat take_bit_nat_eq_self)
  have "next_bits bs 10 @ next_bits (skip_bits 10 bs) (8 * length d) = int_bits 10 sz @ get_bits d 0 (8 * length d)"
    using next_bits_add [OF r] nb by (simp add: data_bits_def sz_def)
  moreover have "length (next_bits bs 10) = length (int_bits 10 sz)" by simp
  ultimately have split: "next_bits bs 10 = int_bits 10 sz"
      "next_bits (skip_bits 10 bs) (8 * length d) = get_bits d 0 (8 * length d)"
    using append_eq_append_conv by blast+
  have "take_bit 10 sz = sz" using len sz by (simp add: word_unat_eq_iff unsigned_take_bit_eq take_bit_nat_eq_self)
  then have ri: "readInt 10 bs = Some (sz, skip_bits 10 bs)"
    using r split(1) by (subst readInt_fits) (auto intro: can_read_mono)
  have u3: "unat (push_bit 3 sz) = 8 * length d" using unat_push3 [of "length d"] len by (simp add: sz_def)
  obtain out where out: "readBits (push_bit 3 sz) (skip_bits 10 bs) = Some (True, out, skip_bits (8 * length d) (skip_bits 10 bs))"
      "length out = (8 * length d + 7) div 8"
      "get_bits out 0 (8 * length d) = next_bits (skip_bits 10 bs) (8 * length d)"
    using readBits_fits [of "skip_bits 10 bs" "push_bit 3 sz"] can_read_skip [OF r] u3 by auto
  have "out = d" using out(2,3) split(2) by (intro get_bits_inj) simp_all
  then show ?thesis
    using ri out(1) sz
    by (auto simp: readBuffer_def takeOwnership_def ByteBuffer_wrap_def resize_def readBytes_def Let_def
        mem_simps contents_def skip_bits_skip malloc_def realloc_def word_le_nat_alt)
qed

interpretation data_codec: bit_codec "\<lambda>(_ :: nat \<Rightarrow> u8) d. length d \<le> 1023" "\<lambda>_. data_bits" writeData readData
  by unfold_locales (use writeBuffer_fits readBuffer_fits in \<open>fastforce simp: writeData_def readData_def\<close>)+

end
