(* ===== verification/Huffman.thy ===== *)
theory Huffman
  imports Bit_Stream_Codec
begin

text \<open>
  \<^verbatim>\<open>tnl/huffmanStringProcessor.cpp\<close>: the frequency table, the construction of the
  Huffman tree in the node and leaf arrays, the assignment of the codes by a walk with a
  bit stream over a 32-bit variable, and the coder and decoder of strings.

  A node or leaf pointer is its index in its array (the node array is reserved for 256
  entries, so it never moves). The code of a leaf is kept as the four bytes the source
  copies out of the stream's buffer and later writes from.
\<close>

section \<open>The character frequencies\<close>

definition mCharFreqs_low :: "u32 list" where
  "mCharFreqs_low = [
    0, 0, 0, 0, 0, 0, 0, 0, 0, 329, 21, 0, 0, 0, 0, 0, 0, 0, 0, 0, 0, 0, 0, 0, 0, 0, 0, 0, 0, 0,
    0, 0, 2809, 68, 0, 27, 0, 58, 3, 62, 4, 7, 0, 0, 15, 65, 554, 3, 394, 404, 189, 117, 30, 51,
    27, 15, 34, 32, 80, 1, 142, 3, 142, 39, 0, 144, 125, 44, 122, 275, 70, 135, 61, 127, 8, 12,
    113, 246, 122, 36, 185, 1, 149, 309, 335, 12, 11, 14, 54, 151, 0, 0, 2, 0, 0, 211, 0, 2090,
    344, 736, 993, 2872, 701, 605, 646, 1552, 328, 305, 1240, 735, 1533, 1713, 562, 3, 1775,
    1149, 1469, 979, 407, 553, 59, 279, 31, 0, 0, 0, 68, 0]"

definition mCharFreqs_high :: "u32 list" where
  "mCharFreqs_high = [
    0, 0, 0, 0, 0, 0, 0, 0, 0, 0, 0, 0, 0, 0, 0, 0, 0, 0, 0, 0, 0, 0, 0, 0, 0, 0, 0, 0, 0, 0, 0,
    0, 0, 0, 0, 0, 0, 0, 0, 0, 0, 0, 0, 0, 0, 0, 0, 0, 0, 0, 0, 0, 0, 0, 0, 0, 0, 0, 0, 0, 0, 0,
    0, 0, 0, 0, 0, 0, 0, 0, 0, 0, 0, 0, 0, 0, 0, 0, 0, 0, 0, 0, 0, 0, 0, 0, 0, 0, 0, 0, 0, 0, 0,
    0, 0, 0, 0, 0, 0, 0, 0, 0, 0, 0, 0, 0, 0, 0, 0, 0, 0, 0, 0, 0, 0, 0, 0, 0, 0, 0, 0, 0, 0, 0,
    0, 0, 0, 0]"

definition mCharFreqs :: "u32 list" where
  "mCharFreqs = mCharFreqs_low @ mCharFreqs_high"

section \<open>The tables\<close>

record huff_node =
  nodePop :: u32
  index0 :: int
  index1 :: int

record huff_leaf =
  leafPop :: u32
  numBits :: u8
  symbol :: u8
  code :: mem

datatype huff_wrap = WLeaf nat | WNode nat

definition initLeaf :: "u32 \<Rightarrow> nat \<Rightarrow> huff_leaf" where
  "initLeaf freq i = \<lparr>leafPop = freq + 1, numBits = 0, symbol = of_nat i, code = [0, 0, 0, 0]\<rparr>"

definition initLeaves :: "u32 list \<Rightarrow> huff_leaf list" where
  "initLeaves freqs = map (\<lambda>i. initLeaf (freqs ! i) i) [0..<length freqs]"

fun getPop :: "huff_node list \<Rightarrow> huff_leaf list \<Rightarrow> huff_wrap \<Rightarrow> u32" where
  "getPop nodes leaves (WNode j) = nodePop (nodes ! j)"
| "getPop nodes leaves (WLeaf i) = leafPop (leaves ! i)"

fun determineIndex :: "huff_wrap \<Rightarrow> int" where
  "determineIndex (WLeaf i) = - (int i + 1)"
| "determineIndex (WNode j) = int j"

text \<open>One pass over the wraps: the smallest and the second smallest population.\<close>

fun findMins :: "(huff_wrap \<Rightarrow> u32) \<Rightarrow> huff_wrap list \<Rightarrow> int \<Rightarrow> u32 \<times> int \<times> u32 \<times> int \<Rightarrow> u32 \<times> int \<times> u32 \<times> int" where
  "findMins pop [] i best = best"
| "findMins pop (w # ws) i (min1, ix1, min2, ix2) =
     findMins pop ws (i + 1)
       (if pop w < min1 then (pop w, i, min1, ix1)
        else if pop w < min2 then (min1, ix1, pop w, i)
        else (min1, ix1, min2, ix2))"

definition mergeStep :: "huff_leaf list \<Rightarrow> huff_node list \<times> huff_wrap list \<Rightarrow> huff_node list \<times> huff_wrap list" where
  "mergeStep leaves = (\<lambda>(nodes, wraps).
     let (min1, ix1, min2, ix2) = findMins (getPop nodes leaves) wraps 0 (0xfffffffe, -1, 0xffffffff, -1);
         w1 = wraps ! nat ix1; w2 = wraps ! nat ix2;
         node = \<lparr>nodePop = getPop nodes leaves w1 + getPop nodes leaves w2,
                 index0 = determineIndex w1, index1 = determineIndex w2\<rparr>;
         mergeIndex = nat (if ix1 > ix2 then ix2 else ix1);
         nukeIndex = nat (if ix1 > ix2 then ix1 else ix2);
         merged = wraps[mergeIndex := WNode (length nodes)];
         moved = (if ix2 \<noteq> int (length wraps) - 1
                  then merged[nukeIndex := merged ! (length wraps - 1)] else merged)
     in (nodes @ [node], take (length wraps - 1) moved))"

text \<open>The loop runs while more than one wrap is left; it starts with one per character.\<close>

function mergeLoop :: "huff_leaf list \<Rightarrow> huff_node list \<times> huff_wrap list \<Rightarrow> huff_node list \<times> huff_wrap list" where
  "mergeLoop leaves arrays = (if length (snd arrays) \<le> 1 then arrays else mergeLoop leaves (mergeStep leaves arrays))"
  by pat_completeness auto
termination
  by (relation "measure (\<lambda>(leaves, arrays). length (snd arrays))")
    (auto simp: mergeStep_def Let_def split: prod.splits)

declare mergeLoop.simps [simp del]

text \<open>
  The code walk over the stream \<open>bs\<close> on the 32-bit variable, which it shares between the
  two subtrees. Running out of fuel, an index outside the arrays or a write outside the
  variable is \<open>None\<close>.
\<close>

fun generateCodes :: "nat \<Rightarrow> huff_node list \<Rightarrow> int \<Rightarrow> nat \<Rightarrow> bit_stream \<Rightarrow> huff_leaf list \<Rightarrow> (bit_stream \<times> huff_leaf list) option" where
  "generateCodes 0 nodes index depth bs leaves = None"
| "generateCodes (Suc fuel) nodes index depth bs leaves =
     (if index < 0 then do {
        rLeaf \<leftarrow> ld leaves (nat (- (index + 1)));
        leaves \<leftarrow> st leaves (nat (- (index + 1)))
          (rLeaf\<lparr>code := take 4 (mDataPtr bs), numBits := of_nat depth\<rparr>);
        Some (bs, leaves) }
      else do {
        rNode \<leftarrow> ld nodes (nat index);
        let pos = bitNum bs;
        (_, bs) \<leftarrow> writeFlag False bs;
        (bs, leaves) \<leftarrow> generateCodes fuel nodes (index0 rNode) (depth + 1) bs leaves;
        (_, bs) \<leftarrow> writeFlag True (setBitPosition pos bs);
        (bs, leaves) \<leftarrow> generateCodes fuel nodes (index1 rNode) (depth + 1) bs leaves;
        Some (setBitPosition pos bs, leaves) })"

text \<open>
  \<^verbatim>\<open>buildTables\<close>. Entry 0 of the node array is reserved and receives a copy of the root;
  its contents before that are not used. \<open>fresh\<close> and \<open>sbuf\<close> are the indeterminate bytes a
  stream object contains. The walk goes at most one level per node.
\<close>

definition zeroNode :: huff_node where
  "zeroNode = \<lparr>nodePop = 0, index0 = 0, index1 = 0\<rparr>"

definition buildTables ::
  "(nat \<Rightarrow> u8) \<Rightarrow> mem \<Rightarrow> u32 list \<Rightarrow> (huff_node list \<times> huff_leaf list) option" where
  "buildTables fresh sbuf freqs =
     (let leaves = initLeaves freqs;
          (nodes, wraps) = mergeLoop leaves ([zeroNode], map WLeaf [0..<length freqs]) in
      case wraps of
        WNode j # _ \<Rightarrow> do {
          root \<leftarrow> ld nodes j;
          let nodes = nodes[0 := root];
          let bs = BitStream_new fresh sbuf [0, 0, 0, 0] 4 4;
          (_, leaves) \<leftarrow> generateCodes (Suc (length nodes)) nodes 0 0 bs leaves;
          Some (nodes, leaves) }
      | _ \<Rightarrow> None)"

section \<open>Decoding and encoding strings\<close>

text \<open>The inner loop of \<^verbatim>\<open>readHuffBuffer\<close>: one symbol from the node \<open>index\<close> down.\<close>

fun decodeSymbol :: "nat \<Rightarrow> huff_node list \<Rightarrow> huff_leaf list \<Rightarrow> int \<Rightarrow> bit_stream \<Rightarrow> (u8 \<times> bit_stream) option" where
  "decodeSymbol 0 nodes leaves index bs = None"
| "decodeSymbol (Suc fuel) nodes leaves index bs =
     (if index \<ge> 0 then do {
        (b, bs) \<leftarrow> readFlag bs;
        rNode \<leftarrow> ld nodes (nat index);
        decodeSymbol fuel nodes leaves (if b then index1 rNode else index0 rNode) bs }
      else do {
        rLeaf \<leftarrow> ld leaves (nat (- (index + 1)));
        Some (symbol rLeaf, bs) })"

fun decodeLoop :: "huff_node list \<Rightarrow> huff_leaf list \<Rightarrow> nat \<Rightarrow> mem \<Rightarrow> nat \<Rightarrow> bit_stream \<Rightarrow> (mem \<times> bit_stream) option" where
  "decodeLoop nodes leaves 0 dst i bs = Some (dst, bs)"
| "decodeLoop nodes leaves (Suc n) dst i bs = do {
     (c, bs) \<leftarrow> decodeSymbol (Suc (length nodes)) nodes leaves 0 bs;
     dst \<leftarrow> st dst i c;
     decodeLoop nodes leaves n dst (Suc i) bs }"

text \<open>
  \<^verbatim>\<open>readHuffBuffer\<close> into the block \<open>dst\<close> at offset \<open>off\<close>: the decoded bytes and a
  terminating 0.
\<close>

definition readHuffBuffer ::
  "huff_node list \<times> huff_leaf list \<Rightarrow> mem \<Rightarrow> nat \<Rightarrow> bit_stream \<Rightarrow> (mem \<times> bit_stream) option" where
  "readHuffBuffer T dst off bs = do {
     (compressed, bs) \<leftarrow> readFlag bs;
     (len, bs) \<leftarrow> readInt 8 bs;
     (dst, bs) \<leftarrow>
       (if compressed then decodeLoop (fst T) (snd T) (unat len) dst off bs
        else do { (_, out, bs) \<leftarrow> readBytes len bs; dst \<leftarrow> memcpy dst off out; Some (dst, bs) });
     dst \<leftarrow> st dst (off + unat len) 0;
     Some (dst, bs) }"

fun sumBits :: "huff_leaf list \<Rightarrow> mem \<Rightarrow> u32 \<Rightarrow> u32 option" where
  "sumBits leaves [] acc = Some acc"
| "sumBits leaves (c # cs) acc = do {
     rLeaf \<leftarrow> ld leaves (unat c);
     sumBits leaves cs (acc + ucast (numBits rLeaf)) }"

fun encodeLoop :: "huff_leaf list \<Rightarrow> mem \<Rightarrow> bit_stream \<Rightarrow> bit_stream option" where
  "encodeLoop leaves [] bs = Some bs"
| "encodeLoop leaves (c # cs) bs = do {
     rLeaf \<leftarrow> ld leaves (unat c);
     (_, bs) \<leftarrow> writeBits (ucast (numBits rLeaf)) (code rLeaf) bs;
     encodeLoop leaves cs bs }"

text \<open>\<open>out_pBuffer\<close> is the text of the C string, without its terminator; \<open>None\<close> is NULL.\<close>

definition writeHuffBuffer ::
  "huff_node list \<times> huff_leaf list \<Rightarrow> mem option \<Rightarrow> u32 \<Rightarrow> bit_stream \<Rightarrow> bit_stream option" where
  "writeHuffBuffer T out_pBuffer maxLen bs =
     (case out_pBuffer of
        None \<Rightarrow> do { (_, bs) \<leftarrow> writeFlag False bs; writeInt 0 8 bs }
      | Some str \<Rightarrow> do {
          let len = (of_nat (length str) :: u32);
          let len = (if len > maxLen then maxLen else len);
          let chars = take (unat len) str;
          nb \<leftarrow> sumBits (snd T) chars 0;
          if nb \<ge> len * 8 then do {
            (_, bs) \<leftarrow> writeFlag False bs;
            bs \<leftarrow> writeInt len 8 bs;
            (_, bs) \<leftarrow> writeBytes len chars bs;
            Some bs }
          else do {
            (_, bs) \<leftarrow> writeFlag True bs;
            bs \<leftarrow> writeInt len 8 bs;
            encodeLoop (snd T) chars bs } })"

end
