(* ===== verification/Huffman_Trees.thy ===== *)
theory Huffman_Trees
  imports Huffman "HOL-Library.Multiset"
begin

text \<open>
  The trees the node and leaf arrays of \<^verbatim>\<open>buildTables\<close> stand for, the merging of a forest of
  them, and the bound on their height: in a tree built by merging two lightest trees at a
  time the weight grows like the Fibonacci numbers, so the total weight bounds the length
  of every code.
\<close>

section \<open>Trees, codes and weights\<close>

datatype htree = HLeaf nat | HNode htree htree

primrec leaves_of :: "htree \<Rightarrow> nat list" where
  "leaves_of (HLeaf i) = [i]"
| "leaves_of (HNode l r) = leaves_of l @ leaves_of r"

primrec codes :: "htree \<Rightarrow> (nat \<times> bool list) list" where
  "codes (HLeaf i) = [(i, [])]"
| "codes (HNode l r) = map (\<lambda>(i, p). (i, False # p)) (codes l) @ map (\<lambda>(i, p). (i, True # p)) (codes r)"

primrec height :: "htree \<Rightarrow> nat" where
  "height (HLeaf i) = 0"
| "height (HNode l r) = Suc (max (height l) (height r))"

primrec weight :: "(nat \<Rightarrow> nat) \<Rightarrow> htree \<Rightarrow> nat" where
  "weight w (HLeaf i) = w i"
| "weight w (HNode l r) = weight w l + weight w r"

primrec children :: "htree \<Rightarrow> htree set" where
  "children (HLeaf i) = {}"
| "children (HNode l r) = {l, r}"

text \<open>The node and leaf arrays, from index \<open>idx\<close> down, hold \<open>t\<close>; inner nodes lie at \<open>b\<close> or above.\<close>

primrec repr :: "int \<Rightarrow> huff_node list \<Rightarrow> int \<Rightarrow> htree \<Rightarrow> bool" where
  "repr b nodes idx (HLeaf i) \<longleftrightarrow> idx = - (int i + 1)"
| "repr b nodes idx (HNode l r) \<longleftrightarrow> 0 \<le> b \<and> b \<le> idx \<and> nat idx < length nodes \<and>
     repr b nodes (index0 (nodes ! nat idx)) l \<and> repr b nodes (index1 (nodes ! nat idx)) r"

lemma repr_append: "repr b nodes idx t \<Longrightarrow> repr b (nodes @ xs) idx t"
  by (induction t arbitrary: idx) (auto simp: nth_append)

lemma repr_update_0: "repr 1 nodes idx t \<Longrightarrow> repr 1 (nodes[0 := x]) idx t"
proof (induction t arbitrary: idx)
  case (HNode l r)
  then have "nat idx \<noteq> 0" by simp
  with HNode show ?case by simp
qed simp

lemma repr_weaken: "repr 1 nodes idx t \<Longrightarrow> repr 0 nodes idx t"
  by (induction t arbitrary: idx) auto

lemma fst_codes: "map fst (codes t) = leaves_of t"
  by (induction t) (auto simp: comp_def case_prod_beta)

lemma codes_leaf: "(i, p) \<in> set (codes t) \<Longrightarrow> i \<in> set (leaves_of t)"
  using arg_cong [OF fst_codes [of t], of set] by force

lemma leaf_codes: "i \<in> set (leaves_of t) \<Longrightarrow> \<exists>p. (i, p) \<in> set (codes t)"
  using arg_cong [OF fst_codes [of t], of set] by force

lemma codes_height: "(i, p) \<in> set (codes t) \<Longrightarrow> length p \<le> height t"
  by (induction t arbitrary: p) (auto simp: le_max_iff_disj)

lemma leaves_of_nonempty [simp]: "leaves_of t \<noteq> []"
  by (induction t) auto

lemma height_leaves: "height t < length (leaves_of t)"
proof (induction t)
  case (HNode l r)
  have "0 < length (leaves_of l)" and "0 < length (leaves_of r)" by simp_all
  with HNode show ?case by (auto simp: max_def)
qed simp

lemma weight_sum: "weight w t = sum_list (map w (leaves_of t))"
  by (induction t) auto

section \<open>The Fibonacci bound\<close>

fun fib :: "nat \<Rightarrow> nat" where
  "fib 0 = 0"
| "fib (Suc 0) = 1"
| "fib (Suc (Suc n)) = fib n + fib (Suc n)"

lemma fib_pos: "0 < n \<Longrightarrow> 0 < fib n"
  by (induction n rule: fib.induct) auto

lemma fib_mono: "m \<le> n \<Longrightarrow> fib m \<le> fib n"
proof (induction n)
  case (Suc n)
  have "fib n \<le> fib (Suc n)" by (cases n) simp_all
  with Suc show ?case by (cases "m = Suc n") auto
qed simp

primrec balanced :: "(nat \<Rightarrow> nat) \<Rightarrow> htree \<Rightarrow> bool" where
  "balanced w (HLeaf i) \<longleftrightarrow> 1 \<le> w i"
| "balanced w (HNode l r) \<longleftrightarrow> balanced w l \<and> balanced w r \<and>
     (\<forall>c \<in> children l. weight w c \<le> weight w r) \<and> (\<forall>c \<in> children r. weight w c \<le> weight w l)"

lemma fib_step:
  assumes "fib (height a + 2) \<le> weight w a" and "\<And>c. c \<in> children a \<Longrightarrow> fib (height c + 2) \<le> weight w c"
    and "\<And>c. c \<in> children a \<Longrightarrow> weight w c \<le> weight w b" and "1 \<le> weight w b"
  shows "fib (height a + 3) \<le> weight w a + weight w b"
proof -
  have "fib (height a + 1) \<le> weight w b"
  proof (cases a)
    case (HLeaf i)
    with assms(4) show ?thesis by simp
  next
    case (HNode c d)
    define m where "m = (if height d \<le> height c then c else d)"
    have m: "m \<in> children a" "height a = Suc (height m)" using HNode by (auto simp: m_def)
    have "fib (height m + 2) \<le> weight w b" using assms(2,3) [OF m(1)] by linarith
    with m(2) show ?thesis by (simp add: numeral_2_eq_2)
  qed
  with assms(1) show ?thesis by (simp add: numeral_3_eq_3 numeral_2_eq_2)
qed

lemma weight_fib:
  "balanced w t \<Longrightarrow> fib (height t + 2) \<le> weight w t \<and> (\<forall>c \<in> children t. fib (height c + 2) \<le> weight w c)"
proof (induction t)
  case (HLeaf i)
  then show ?case by (simp add: numeral_2_eq_2)
next
  case (HNode l r)
  then have l: "fib (height l + 2) \<le> weight w l" "\<And>c. c \<in> children l \<Longrightarrow> fib (height c + 2) \<le> weight w c"
    and r: "fib (height r + 2) \<le> weight w r" "\<And>c. c \<in> children r \<Longrightarrow> fib (height c + 2) \<le> weight w c"
    and lr: "\<And>c. c \<in> children l \<Longrightarrow> weight w c \<le> weight w r"
      "\<And>c. c \<in> children r \<Longrightarrow> weight w c \<le> weight w l" by auto
  have "1 \<le> weight w l" "1 \<le> weight w r"
    using l(1) r(1) fib_pos [of "height l + 2"] fib_pos [of "height r + 2"] by linarith+
  then have "fib (height l + 3) \<le> weight w l + weight w r" "fib (height r + 3) \<le> weight w r + weight w l"
    using fib_step [of l w r] fib_step [of r w l] l r lr by auto
  then have "fib (height (HNode l r) + 2) \<le> weight w (HNode l r)"
    by (cases "height l \<le> height r") (simp_all add: max_def numeral_3_eq_3 numeral_2_eq_2 add.commute)
  then show ?case using l r by simp
qed

lemma height_bound: "balanced w t \<Longrightarrow> weight w t < fib (k + 2) \<Longrightarrow> height t < k"
proof (rule ccontr)
  assume b: "balanced w t" and lt: "weight w t < fib (k + 2)" and "\<not> height t < k"
  then have "fib (k + 2) \<le> fib (height t + 2)" by (intro fib_mono) simp
  moreover have "fib (height t + 2) \<le> weight w t" using weight_fib [OF b] by blast
  ultimately show False using lt by linarith
qed

section \<open>Merging in a forest\<close>

definition forest_inv :: "(nat \<Rightarrow> nat) \<Rightarrow> htree multiset \<Rightarrow> bool" where
  "forest_inv w F \<longleftrightarrow> (\<forall>t \<in># F. balanced w t) \<and>
     (\<forall>t \<in># F. \<forall>u \<in># F. \<forall>c \<in> children t. weight w c \<le> weight w u)"

lemma forest_inv_merge:
  assumes inv: "forest_inv w (add_mset a (add_mset b F))"
    and a: "\<And>u. u \<in># add_mset b F \<Longrightarrow> weight w a \<le> weight w u"
    and b: "\<And>u. u \<in># F \<Longrightarrow> weight w b \<le> weight w u"
  shows "forest_inv w (add_mset (HNode a b) F)"
  using assms unfolding forest_inv_def by (auto intro: trans_le_add1)

text \<open>The array step: position \<open>i\<close> and \<open>j\<close> leave, \<open>y\<close> enters, the last entry fills the gap.\<close>

definition merge_list :: "nat \<Rightarrow> nat \<Rightarrow> 'a \<Rightarrow> 'a list \<Rightarrow> 'a list" where
  "merge_list i j y xs =
     (let merged = xs[min i j := y];
          moved = (if j \<noteq> length xs - 1 then merged[max i j := merged ! (length xs - 1)] else merged)
      in take (length xs - 1) moved)"

lemma length_merge_list [simp]: "length (merge_list i j y xs) = length xs - 1"
  by (simp add: merge_list_def Let_def)

lemma mset_take_butlast: "xs \<noteq> [] \<Longrightarrow> mset (take (length xs - 1) xs) = mset xs - {#xs ! (length xs - 1)#}"
  by (cases xs rule: rev_cases) (simp_all add: nth_append)

lemma mset_merge_list:
  assumes "i \<noteq> j" and "i < length xs" and "j < length xs"
  shows "add_mset (xs ! i) (add_mset (xs ! j) (mset (merge_list i j y xs))) = add_mset y (mset xs)"
proof -
  define mi ni where "mi = min i j" and "ni = max i j"
  have mn: "mi \<noteq> ni" "mi < length xs" "ni < length xs" "mi < length xs - 1"
    using assms by (auto simp: mi_def ni_def)
  define merged where "merged = xs[mi := y]"
  have mm: "add_mset (xs ! mi) (mset merged) = add_mset y (mset xs)"
    using mn by (simp add: merged_def mset_update)
  have nn: "merged ! ni = xs ! ni" using mn by (simp add: merged_def)
  have ml: "merge_list i j y xs = take (length xs - 1)
      (if j \<noteq> length xs - 1 then merged[ni := merged ! (length xs - 1)] else merged)"
    by (simp only: merge_list_def Let_def merged_def mi_def ni_def)
  have "add_mset (xs ! ni) (mset (merge_list i j y xs)) = mset merged"
  proof (cases "j = length xs - 1")
    case True
    then have "ni = length xs - 1" using assms by (simp add: ni_def max_def)
    moreover have "mset (take (length merged - 1) merged) = mset merged - {#merged ! (length merged - 1)#}"
      using assms by (intro mset_take_butlast) (auto simp: merged_def)
    ultimately have "mset (merge_list i j y xs) = mset merged - {#xs ! ni#}"
      using True nn unfolding ml by (simp add: merged_def)
    moreover have "xs ! ni \<in># mset merged"
      using nn mn by (metis length_list_update merged_def nth_mem set_mset_mset)
    ultimately show ?thesis by simp
  next
    case False
    define moved where "moved = merged[ni := merged ! (length xs - 1)]"
    have "moved \<noteq> []" using mn by (auto simp: moved_def merged_def)
    from mset_take_butlast [OF this] have
      "mset (merge_list i j y xs) = mset moved - {#moved ! (length xs - 1)#}"
      using False unfolding ml by (simp add: moved_def merged_def)
    also have "moved ! (length xs - 1) = merged ! (length xs - 1)"
      using mn by (cases "ni = length xs - 1") (simp_all add: moved_def merged_def)
    also have "mset moved = add_mset (merged ! (length xs - 1)) (mset merged - {#xs ! ni#})"
      using mn nn by (simp add: moved_def mset_update merged_def)
    finally have "mset (merge_list i j y xs) = mset merged - {#xs ! ni#}" by simp
    moreover have "xs ! ni \<in># mset merged"
      using nn mn by (metis length_list_update merged_def nth_mem set_mset_mset)
    ultimately show ?thesis by simp
  qed
  then have fin: "add_mset (xs ! mi) (add_mset (xs ! ni) (mset (merge_list i j y xs))) = add_mset y (mset xs)"
    using mm by simp
  from assms(1) consider "i < j" | "j < i" by linarith
  then show ?thesis
    using fin by cases (simp_all add: mi_def ni_def add_mset_commute)
qed

lemma list_all2_merge_list:
  assumes "list_all2 P xs ts" and "P y t" and "i < length xs" and "j < length xs"
  shows "list_all2 P (merge_list i j y xs) (merge_list i j t ts)"
proof -
  have len: "length xs = length ts" using assms(1) by (rule list_all2_lengthD)
  have "list_all2 P (xs[min i j := y]) (ts[min i j := t])"
    using assms by (intro list_all2_update_cong)
  then show ?thesis unfolding merge_list_def Let_def len
    using assms len
    by (auto intro!: list_all2_takeI list_all2_update_cong elim!: list_all2_nthD2)
qed

section \<open>The scan for the two lightest\<close>

definition mins_inv :: "('a \<Rightarrow> u32) \<Rightarrow> 'a list \<Rightarrow> u32 \<times> int \<times> u32 \<times> int \<Rightarrow> bool" where
  "mins_inv pop ps = (\<lambda>(m1, i1, m2, i2).
     (if ps = [] then m1 = 0xfffffffe \<and> m2 = 0xffffffff
      else 0 \<le> i1 \<and> nat i1 < length ps \<and> m1 = pop (ps ! nat i1) \<and>
        (if length ps = 1 then m2 = 0xfffffffe
         else 0 \<le> i2 \<and> nat i2 < length ps \<and> i1 \<noteq> i2 \<and> m2 = pop (ps ! nat i2)) \<and>
        m1 \<le> m2 \<and> (\<forall>k < length ps. k \<noteq> nat i1 \<longrightarrow> m2 \<le> pop (ps ! k))))"

lemma mins_inv_snoc:
  assumes "mins_inv pop ps (m1, i1, m2, i2)" and lt: "pop w < 0xfffffffe"
  shows "mins_inv pop (ps @ [w])
    (if pop w < m1 then (pop w, int (length ps), m1, i1)
     else if pop w < m2 then (m1, i1, pop w, int (length ps)) else (m1, i1, m2, i2))"
proof (cases "ps = []")
  case True
  then show ?thesis using assms by (simp add: mins_inv_def)
next
  case False
  show ?thesis
  proof (cases "length ps = 1")
    case True
    then obtain x where ps: "ps = [x]" by (cases ps) auto
    show ?thesis using assms ps by (auto simp: mins_inv_def nth_append less_Suc_eq)
  next
    case len: False
    have i: "0 \<le> i1" "nat i1 < length ps" "m1 = pop (ps ! nat i1)" "0 \<le> i2" "nat i2 < length ps" "i1 \<noteq> i2"
      "m2 = pop (ps ! nat i2)" "m1 \<le> m2" and k: "\<And>k. k < length ps \<Longrightarrow> k \<noteq> nat i1 \<Longrightarrow> m2 \<le> pop (ps ! k)"
      using assms(1) False len by (auto simp: mins_inv_def)
    have k1: "m1 \<le> pop (ps ! k)" if "k < length ps" for k
      using k [OF that] i by (cases "k = nat i1") auto
    consider "pop w < m1" | "m1 \<le> pop w" "pop w < m2" | "m2 \<le> pop w" using i(8) by fastforce
    then show ?thesis
    proof cases
      case 1
      then show ?thesis using i k1 False len
        by (auto simp: mins_inv_def nth_append less_Suc_eq)
    next
      case 2
      then show ?thesis using i k False len
        by (auto simp: mins_inv_def nth_append less_Suc_eq intro: order.trans [OF less_imp_le])
    next
      case 3
      then show ?thesis using i k False len
        by (auto simp: mins_inv_def nth_append less_Suc_eq)
    qed
  qed
qed

lemma findMins_inv:
  "mins_inv pop ps best \<Longrightarrow> (\<And>w. w \<in> set ws \<Longrightarrow> pop w < 0xfffffffe) \<Longrightarrow>
   mins_inv pop (ps @ ws) (findMins pop ws (int (length ps)) best)"
proof (induction ws arbitrary: ps best)
  case Nil
  then show ?case by simp
next
  case (Cons w ws)
  obtain m1 i1 m2 i2 where best: "best = (m1, i1, m2, i2)" by (cases best) auto
  have "mins_inv pop (ps @ [w]) (if pop w < m1 then (pop w, int (length ps), m1, i1)
     else if pop w < m2 then (m1, i1, pop w, int (length ps)) else (m1, i1, m2, i2))"
    using Cons.prems best by (intro mins_inv_snoc) simp_all
  from Cons.IH [OF this] show ?case using Cons.prems(2) by (simp add: best add.commute)
qed

end
