(* ===== verification/Huffman_Merge.thy ===== *)
theory Huffman_Merge
  imports Huffman_Trees
begin

text \<open>
  The merging loop of \<^verbatim>\<open>buildTables\<close>: the node array and the wraps always stand for a forest
  whose leaves are all the characters, whose populations are the weights of its trees, and
  in which every merge took the two lightest; the loop ends with one tree.
\<close>

section \<open>The merging loop\<close>

definition leaf_weight :: "huff_leaf list \<Rightarrow> nat \<Rightarrow> nat" where
  "leaf_weight leaves i = unat (leafPop (leaves ! i))"

definition wrap_tree :: "huff_node list \<Rightarrow> huff_leaf list \<Rightarrow> huff_wrap \<Rightarrow> htree \<Rightarrow> bool" where
  "wrap_tree nodes leaves w t \<longleftrightarrow> repr 1 nodes (determineIndex w) t \<and>
     unat (getPop nodes leaves w) = weight (leaf_weight leaves) t"

definition forest_of :: "huff_leaf list \<Rightarrow> huff_node list \<times> huff_wrap list \<Rightarrow> htree list \<Rightarrow> bool" where
  "forest_of leaves arrays ts \<longleftrightarrow> fst arrays \<noteq> [] \<and>
     list_all2 (wrap_tree (fst arrays) leaves) (snd arrays) ts \<and>
     forest_inv (leaf_weight leaves) (mset ts) \<and>
     mset (concat (map leaves_of ts)) = mset [0..<length leaves]"

lemma wrap_tree_append:
  assumes "wrap_tree nodes leaves w t" shows "wrap_tree (nodes @ xs) leaves w t"
proof (cases w)
  case (WNode j)
  then obtain l r where "t = HNode l r" using assms by (cases t) (auto simp: wrap_tree_def)
  then show ?thesis using assms WNode by (auto simp: wrap_tree_def nth_append intro: repr_append)
qed (use assms in \<open>auto simp: wrap_tree_def intro: repr_append\<close>)

lemma forest_weight:
  assumes "mset (concat (map leaves_of ts)) = mset [0..<n]"
  shows "(\<Sum>t\<in>#mset ts. weight w t) = sum_list (map w [0..<n])"
proof -
  have "(\<Sum>t\<in>#mset ts. weight w t) = sum_list (map w (concat (map leaves_of ts)))"
    by (induction ts) (auto simp: weight_sum)
  also have "\<dots> = sum_mset (image_mset w (mset (concat (map leaves_of ts))))"
    by (metis mset_map sum_mset_sum_list)
  finally show ?thesis unfolding assms by (metis mset_map sum_mset_sum_list)
qed

lemma forest_member_weight:
  "t \<in># F \<Longrightarrow> weight w t \<le> (\<Sum>t\<in>#F. weight w t)"
  by (metis (no_types, lifting) image_mset_add_mset le_add1 mset_add sum_mset.insert)

lemma mset_concat_sum: "mset (concat (map f ts)) = (\<Sum>t\<in>#mset ts. mset (f t))"
  by (induction ts) auto

lemma mset_two:
  assumes "a \<noteq> b" and "a < length ts" and "b < length ts"
  obtains F where "mset ts = add_mset (ts ! a) (add_mset (ts ! b) F)"
    and "\<And>u. u \<in># add_mset (ts ! b) F \<Longrightarrow> \<exists>k < length ts. k \<noteq> a \<and> u = ts ! k"
proof -
  have "ts = take a ts @ ts ! a # drop (Suc a) ts" using assms(2) by (rule id_take_nth_drop)
  then have m: "mset ts = add_mset (ts ! a) (mset (take a ts @ drop (Suc a) ts))"
    by (metis mset.simps(2) mset_append union_mset_add_mset_right)
  have "ts ! b \<in> set (take a ts @ drop (Suc a) ts)"
  proof (cases "b < a")
    case True
    then show ?thesis using assms by (auto simp: in_set_conv_nth intro!: exI [of _ b])
  next
    case False
    then have "drop (Suc a) ts ! (b - Suc a) = ts ! b" "b - Suc a < length (drop (Suc a) ts)"
      using assms by auto
    then show ?thesis by (metis UnCI nth_mem set_append)
  qed
  then obtain F where F: "mset (take a ts @ drop (Suc a) ts) = add_mset (ts ! b) F"
    by (metis mset_add set_mset_mset)
  show thesis
  proof (rule that)
    show "mset ts = add_mset (ts ! a) (add_mset (ts ! b) F)" using m F by simp
    fix u assume "u \<in># add_mset (ts ! b) F"
    then have "u \<in> set (take a ts) \<or> u \<in> set (drop (Suc a) ts)" by (simp add: F [symmetric])
    then show "\<exists>k < length ts. k \<noteq> a \<and> u = ts ! k"
    proof
      assume "u \<in> set (take a ts)"
      then show ?thesis by (auto simp: in_set_conv_nth)
    next
      assume "u \<in> set (drop (Suc a) ts)"
      then obtain k where "k < length ts - Suc a" "u = drop (Suc a) ts ! k" by (auto simp: in_set_conv_nth)
      then show ?thesis by (intro exI [of _ "Suc a + k"]) auto
    qed
  qed
qed

lemma findMins_two:
  assumes "2 \<le> length wraps" and "\<And>w. w \<in> set wraps \<Longrightarrow> pop w < 0xfffffffe"
  obtains a b where "findMins pop wraps 0 (0xfffffffe, -1, 0xffffffff, -1) =
      (pop (wraps ! a), int a, pop (wraps ! b), int b)"
    and "a \<noteq> b" and "a < length wraps" and "b < length wraps" and "pop (wraps ! a) \<le> pop (wraps ! b)"
    and "\<And>k. k < length wraps \<Longrightarrow> k \<noteq> a \<Longrightarrow> pop (wraps ! b) \<le> pop (wraps ! k)"
proof -
  obtain m1 i1 m2 i2 where f: "findMins pop wraps 0 (0xfffffffe, -1, 0xffffffff, -1) = (m1, i1, m2, i2)"
    by (cases "findMins pop wraps 0 (0xfffffffe, -1, 0xffffffff, -1)") auto
  have "mins_inv pop ([] @ wraps) (findMins pop wraps (int (length ([] :: huff_wrap list))) (0xfffffffe, -1, 0xffffffff, -1))"
    using assms(2) by (intro findMins_inv) (simp_all add: mins_inv_def)
  then have "mins_inv pop wraps (m1, i1, m2, i2)" by (simp add: f)
  then show thesis using assms(1) f
    by (intro that [of "nat i1" "nat i2"]) (auto simp: mins_inv_def split: if_splits)
qed

lemma mergeStep_eq:
  assumes "findMins (getPop nodes leaves) wraps 0 (0xfffffffe, -1, 0xffffffff, -1) = (m1, int a, m2, int b)"
    and "b < length wraps"
  shows "mergeStep leaves (nodes, wraps) =
    (nodes @ [\<lparr>nodePop = getPop nodes leaves (wraps ! a) + getPop nodes leaves (wraps ! b),
               index0 = determineIndex (wraps ! a), index1 = determineIndex (wraps ! b)\<rparr>],
     merge_list a b (WNode (length nodes)) wraps)"
proof -
  have "(int b \<noteq> int (length wraps) - 1) = (b \<noteq> length wraps - 1)" using assms(2) by linarith
  moreover have "nat (if int a > int b then int b else int a) = min a b"
    "nat (if int a > int b then int a else int b) = max a b" by auto
  ultimately show ?thesis by (simp only: mergeStep_def assms(1) Let_def merge_list_def prod.case nat_int)
qed

lemma wrap_tree_merge:
  assumes "wrap_tree nodes leaves u a" and "wrap_tree nodes leaves v b" and "nodes \<noteq> []"
    and "weight (leaf_weight leaves) a + weight (leaf_weight leaves) b < 2 ^ 32"
  shows "wrap_tree (nodes @ [\<lparr>nodePop = getPop nodes leaves u + getPop nodes leaves v,
      index0 = determineIndex u, index1 = determineIndex v\<rparr>]) leaves (WNode (length nodes)) (HNode a b)"
  using assms unfolding wrap_tree_def
  by (auto simp: nth_append unat_word_ariths Suc_le_eq intro: repr_append)

definition total_weight :: "huff_leaf list \<Rightarrow> nat" where
  "total_weight leaves = sum_list (map (leaf_weight leaves) [0..<length leaves])"

lemma forest_of_merge:
  assumes f: "forest_of leaves (nodes, wraps) ts"
    and fm: "findMins (getPop nodes leaves) wraps 0 (0xfffffffe, -1, 0xffffffff, -1) = (m1, int a, m2, int b)"
    and ab: "a \<noteq> b" "a < length ts" "b < length ts"
    and F: "mset ts = add_mset (ts ! a) (add_mset (ts ! b) F)"
    and inv: "forest_inv (leaf_weight leaves) (add_mset (HNode (ts ! a) (ts ! b)) F)"
    and lt: "weight (leaf_weight leaves) (ts ! a) + weight (leaf_weight leaves) (ts ! b) < 2 ^ 32"
  shows "forest_of leaves (mergeStep leaves (nodes, wraps)) (merge_list a b (HNode (ts ! a) (ts ! b)) ts)"
proof -
  have all: "list_all2 (wrap_tree nodes leaves) wraps ts" and ne: "nodes \<noteq> []"
    and lv: "mset (concat (map leaves_of ts)) = mset [0..<length leaves]"
    using f by (auto simp: forest_of_def)
  have n: "length wraps = length ts" using all by (rule list_all2_lengthD)
  let ?ts = "merge_list a b (HNode (ts ! a) (ts ! b)) ts"
  have ms: "mset ?ts = add_mset (HNode (ts ! a) (ts ! b)) F"
    using mset_merge_list [OF ab, of "HNode (ts ! a) (ts ! b)"] by (simp add: F add_mset_commute)
  let ?nodes = "nodes @ [\<lparr>nodePop = getPop nodes leaves (wraps ! a) + getPop nodes leaves (wraps ! b),
               index0 = determineIndex (wraps ! a), index1 = determineIndex (wraps ! b)\<rparr>]"
  have "wrap_tree nodes leaves (wraps ! k) (ts ! k)" if "k < length ts" for k
    using all that n by (simp add: list_all2_nthD)
  then have "wrap_tree ?nodes leaves (WNode (length nodes)) (HNode (ts ! a) (ts ! b))"
    using ab ne lt by (intro wrap_tree_merge) auto
  moreover have "list_all2 (wrap_tree ?nodes leaves) wraps ts"
    using all by (rule list_all2_mono) (rule wrap_tree_append)
  ultimately have "list_all2 (wrap_tree ?nodes leaves) (merge_list a b (WNode (length nodes)) wraps) ?ts"
    using ab n by (intro list_all2_merge_list) auto
  moreover have "mset (concat (map leaves_of ?ts)) = mset (concat (map leaves_of ts))"
    by (simp add: mset_concat_sum ms F)
  ultimately show ?thesis
    using mergeStep_eq [OF fm] ab n inv lv by (simp add: forest_of_def ms)
qed

lemma mergeStep_forest:
  assumes f: "forest_of leaves (nodes, wraps) ts" and len: "2 \<le> length wraps"
    and tw: "total_weight leaves < 0xfffffffe"
  shows "\<exists>ts'. forest_of leaves (mergeStep leaves (nodes, wraps)) ts'"
proof -
  let ?w = "leaf_weight leaves" and ?pop = "getPop nodes leaves"
  have all: "list_all2 (wrap_tree nodes leaves) wraps ts" and ne: "nodes \<noteq> []"
    and inv: "forest_inv ?w (mset ts)" and lv: "mset (concat (map leaves_of ts)) = mset [0..<length leaves]"
    using f by (auto simp: forest_of_def)
  have sum: "(\<Sum>t\<in>#mset ts. weight ?w t) = total_weight leaves"
    unfolding total_weight_def using lv by (rule forest_weight)
  have n: "length wraps = length ts" using all by (rule list_all2_lengthD)
  have wt: "wrap_tree nodes leaves (wraps ! k) (ts ! k)" if "k < length ts" for k
    using all that n by (simp add: list_all2_nthD)
  have pop: "unat (?pop (wraps ! k)) = weight ?w (ts ! k)" if "k < length ts" for k
    using wt [OF that] by (simp add: wrap_tree_def)
  have small: "?pop w < 0xfffffffe" if w: "w \<in> set wraps" for w
  proof -
    obtain k where "k < length ts" "w = wraps ! k" using w n by (auto simp: in_set_conv_nth)
    then have "unat (?pop w) \<le> total_weight leaves"
      using forest_member_weight [of "ts ! k" "mset ts" ?w] by (simp add: pop sum)
    then show ?thesis using tw by (simp add: word_less_nat_alt)
  qed
  obtain a b
    where fm: "findMins ?pop wraps 0 (0xfffffffe, -1, 0xffffffff, -1) = (?pop (wraps ! a), int a, ?pop (wraps ! b), int b)"
      and ab: "a \<noteq> b" "a < length ts" "b < length ts"
      and le: "?pop (wraps ! a) \<le> ?pop (wraps ! b)"
      and least: "\<And>k. k < length ts \<Longrightarrow> k \<noteq> a \<Longrightarrow> ?pop (wraps ! b) \<le> ?pop (wraps ! k)"
    using findMins_two [where pop = ?pop, OF len small] unfolding n by blast
  obtain F where F: "mset ts = add_mset (ts ! a) (add_mset (ts ! b) F)"
    and mem: "\<And>u. u \<in># add_mset (ts ! b) F \<Longrightarrow> \<exists>k < length ts. k \<noteq> a \<and> u = ts ! k"
    using mset_two [OF ab] by blast
  have b_le: "weight ?w (ts ! b) \<le> weight ?w u" if "u \<in># add_mset (ts ! b) F" for u
    using mem [OF that] least ab by (auto simp: word_le_nat_alt pop)
  have ab_le: "weight ?w (ts ! a) \<le> weight ?w (ts ! b)"
    using le ab by (simp add: word_le_nat_alt pop)
  have "forest_inv ?w (add_mset (HNode (ts ! a) (ts ! b)) F)"
    using inv F b_le ab_le by (intro forest_inv_merge) (auto intro: order.trans)
  moreover have "weight ?w (ts ! a) + weight ?w (ts ! b) < 2 ^ 32"
    using sum tw by (simp add: F)
  ultimately have "forest_of leaves (mergeStep leaves (nodes, wraps))
      (merge_list a b (HNode (ts ! a) (ts ! b)) ts)"
    using forest_of_merge f fm ab F by blast
  then show ?thesis by blast
qed


lemma mergeLoop_forest:
  "forest_of leaves arrays ts \<Longrightarrow> 1 \<le> length (snd arrays) \<Longrightarrow> total_weight leaves < 0xfffffffe \<Longrightarrow>
   \<exists>t w. snd (mergeLoop leaves arrays) = [w] \<and> forest_of leaves (mergeLoop leaves arrays) [t]"
proof (induction leaves arrays arbitrary: ts rule: mergeLoop.induct)
  case (1 leaves arrays)
  show ?case
  proof (cases "length (snd arrays) \<le> 1")
    case True
    then obtain w where "snd arrays = [w]" using "1.prems"(2) by (cases "snd arrays") auto
    moreover from this obtain t where "ts = [t]"
      using "1.prems"(1) by (cases ts) (auto simp: forest_of_def list_all2_Cons1)
    ultimately show ?thesis using True "1.prems"(1) mergeLoop.simps [of leaves arrays] by auto
  next
    case False
    obtain nodes wraps where arr: "arrays = (nodes, wraps)" by (cases arrays)
    obtain ts' where "forest_of leaves (mergeStep leaves arrays) ts'"
      using mergeStep_forest [of leaves nodes wraps ts] "1.prems" False by (auto simp: arr)
    moreover have "1 \<le> length (snd (mergeStep leaves arrays))"
      using False by (auto simp: arr mergeStep_def Let_def split: prod.splits)
    ultimately show ?thesis
      using "1.IH" [OF False] "1.prems"(3) False mergeLoop.simps [of leaves arrays] by auto
  qed
qed

lemma forest_start:
  "leaves \<noteq> [] \<Longrightarrow> (\<And>i. i < length leaves \<Longrightarrow> 0 < leafPop (leaves ! i)) \<Longrightarrow>
   forest_of leaves ([zeroNode], map WLeaf [0..<length leaves]) (map HLeaf [0..<length leaves])"
  by (auto simp: forest_of_def list_all2_conv_all_nth wrap_tree_def leaf_weight_def forest_inv_def comp_def
      word_less_nat_alt Suc_le_eq)

end
