(* ===== verification/Huffman_Codes.thy ===== *)
theory Huffman_Codes
  imports Huffman_Merge
begin

text \<open>
  The walk that assigns the codes, the tables \<^verbatim>\<open>buildTables\<close> leaves, the decoder of one
  symbol, and the string coder as a \<open>bit_codec\<close>: \<^verbatim>\<open>readHuffBuffer\<close> gives back what
  \<^verbatim>\<open>writeHuffBuffer\<close> wrote.
\<close>

section \<open>The code walk\<close>

definition walk_ok :: "bit_stream \<Rightarrow> bool list \<Rightarrow> bool" where
  "walk_ok bs path \<longleftrightarrow> length (mDataPtr bs) = 4 \<and> maxWriteBitNum bs = 32 \<and> maxReadBitNum bs = 32 \<and>
     bitNum bs = of_nat (length path) \<and> length path \<le> 32 \<and> get_bits (mDataPtr bs) 0 (length path) = path"

definition code_ok :: "huff_leaf \<Rightarrow> bool list \<Rightarrow> bool" where
  "code_ok leaf path \<longleftrightarrow> length (code leaf) = 4 \<and> length path \<le> 32 \<and>
     numBits leaf = of_nat (length path) \<and> get_bits (code leaf) 0 (length path) = path"

lemma walk_back: "walk_ok bs (path @ q) \<Longrightarrow> walk_ok (setBitPosition (of_nat (length path)) bs) path"
  by (auto simp: walk_ok_def setBitPosition_def get_bits_split)

lemma unat_of_nat_32: "n \<le> 32 \<Longrightarrow> unat (of_nat n :: u32) = n"
  by (simp add: unat_of_nat take_bit_nat_eq_self)

lemma walk_flag:
  assumes "walk_ok bs path" and "length path < 32"
  shows "\<exists>bs'. writeFlag b bs = Some (b, bs') \<and> walk_ok bs' (path @ [b])"
proof -
  have u: "unat (bitNum bs) = length path" using assms by (simp add: walk_ok_def unat_of_nat_32)
  have "can_write bs 1" using assms u by (simp add: can_write_def stream_ok_def walk_ok_def)
  then have "writeFlag b bs = Some (b, append_bits [b] bs)" by (rule writeFlag_fits)
  moreover have "get_bits (put_bit (mDataPtr bs) (length path) b) 0 (length path + 1) = path @ [b]"
  proof (rule nth_equalityI)
    fix k assume k: "k < length (get_bits (put_bit (mDataPtr bs) (length path) b) 0 (length path + 1))"
    have pk: "bit_at (mDataPtr bs) k = path ! k" if "k < length path"
      using assms(1) nth_get_bits [OF that, of "mDataPtr bs" 0] by (simp add: walk_ok_def)
    show "get_bits (put_bit (mDataPtr bs) (length path) b) 0 (length path + 1) ! k = (path @ [b]) ! k"
      using k assms pk by (auto simp: bit_view walk_ok_def nth_append)
  qed simp
  then have "walk_ok (append_bits [b] bs) (path @ [b])"
    using assms u by (simp add: walk_ok_def append_bits_def)
  ultimately show ?thesis by blast
qed


definition codes_ok :: "huff_leaf list \<Rightarrow> huff_leaf list \<Rightarrow> bool list \<Rightarrow> htree \<Rightarrow> bool" where
  "codes_ok leaves leaves' path t \<longleftrightarrow> length leaves' = length leaves \<and>
     (\<forall>i. symbol (leaves' ! i) = symbol (leaves ! i)) \<and>
     (\<forall>i. i \<notin> set (leaves_of t) \<longrightarrow> leaves' ! i = leaves ! i) \<and>
     (\<forall>(i, p) \<in> set (codes t). code_ok (leaves' ! i) (path @ p))"

lemma codes_ok_node:
  assumes l: "codes_ok leaves leaves1 (path @ [False]) l" and r: "codes_ok leaves1 leaves2 (path @ [True]) r"
    and d: "distinct (leaves_of (HNode l r))"
  shows "codes_ok leaves leaves2 path (HNode l r)"
proof -
  have "code_ok (leaves2 ! i) (path @ False # p)" if "(i, p) \<in> set (codes l)" for i p
    using l r d codes_leaf [OF that] that by (fastforce simp: codes_ok_def)
  moreover have "code_ok (leaves2 ! i) (path @ True # p)" if "(i, p) \<in> set (codes r)" for i p
    using r that by (fastforce simp: codes_ok_def)
  ultimately show ?thesis using l r by (auto simp: codes_ok_def)
qed

lemma generateCodes_leaf:
  assumes "walk_ok bs path" and "i < length leaves"
  shows "\<exists>leaves'. generateCodes (Suc fuel) nodes (- (int i + 1)) (length path) bs leaves = Some (bs, leaves') \<and>
    codes_ok leaves leaves' path (HLeaf i)"
proof -
  have g: "get_bits (take 4 (mDataPtr bs)) 0 (length path) = path" and "length (take 4 (mDataPtr bs)) = 4"
    using assms by (auto simp: walk_ok_def)
  then have "codes_ok leaves (leaves[i := (leaves ! i)\<lparr>code := take 4 (mDataPtr bs), numBits := of_nat (length path)\<rparr>])
      path (HLeaf i)"
    using assms by (auto simp: codes_ok_def code_ok_def walk_ok_def nth_list_update)
  then show ?thesis using assms by (simp add: mem_simps)
qed

lemma generateCodes_ok:
  "repr 0 nodes idx t \<Longrightarrow> height t < fuel \<Longrightarrow> height t + length path \<le> 32 \<Longrightarrow> walk_ok bs path \<Longrightarrow>
   distinct (leaves_of t) \<Longrightarrow> (\<forall>i \<in> set (leaves_of t). i < length leaves) \<Longrightarrow>
   \<exists>bs' leaves'. generateCodes fuel nodes idx (length path) bs leaves = Some (bs', leaves') \<and>
     walk_ok bs' path \<and> codes_ok leaves leaves' path t"
proof (induction t arbitrary: idx fuel path bs leaves)
  case (HLeaf i)
  then obtain f where "fuel = Suc f" by (cases fuel) auto
  with HLeaf generateCodes_leaf [of bs path i leaves f nodes] show ?case by auto
next
  case (HNode l r)
  then obtain f where f: "fuel = Suc f" by (cases fuel) auto
  let ?node = "nodes ! nat idx" and ?pos = "of_nat (length path) :: u32"
  have idx: "0 \<le> idx" "nat idx < length nodes" "repr 0 nodes (index0 ?node) l" "repr 0 nodes (index1 ?node) r"
    and pos: "bitNum bs = ?pos" and len: "length path < 32"
    using HNode.prems by (auto simp: walk_ok_def)
  obtain bs1 where 1: "writeFlag False bs = Some (False, bs1)" "walk_ok bs1 (path @ [False])"
    using walk_flag HNode.prems(4) len by blast
  have hl: "height l < f" "height l + length (path @ [False]) \<le> 32"
    and hr: "height r < f" "height r + length (path @ [True]) \<le> 32"
    using HNode.prems(2,3) by (auto simp: f)
  have dl: "distinct (leaves_of l)" "distinct (leaves_of r)" and ml: "\<forall>i \<in> set (leaves_of l). i < length leaves"
    and mr: "\<forall>i \<in> set (leaves_of r). i < length leaves"
    using HNode.prems(5,6) by auto
  obtain bs2 leaves1 where 2: "generateCodes f nodes (index0 ?node) (length path + 1) bs1 leaves = Some (bs2, leaves1)"
      "walk_ok bs2 (path @ [False])" "codes_ok leaves leaves1 (path @ [False]) l"
    using HNode.IH(1) [OF idx(3) hl 1(2) dl(1) ml] by auto
  obtain bs3 where 3: "writeFlag True (setBitPosition ?pos bs2) = Some (True, bs3)" "walk_ok bs3 (path @ [True])"
    using walk_flag [OF walk_back [OF 2(2)] len] by blast
  obtain bs4 leaves2 where 4: "generateCodes f nodes (index1 ?node) (length path + 1) bs3 leaves1 = Some (bs4, leaves2)"
      "walk_ok bs4 (path @ [True])" "codes_ok leaves1 leaves2 (path @ [True]) r"
    using HNode.IH(2) [OF idx(4) hr 3(2) dl(2), of leaves1] mr 2(3) by (auto simp: codes_ok_def)
  have "codes_ok leaves leaves2 path (HNode l r)" using codes_ok_node 2(3) 4(3) HNode.prems(5) by blast
  then show ?case using walk_back [OF 4(2)] idx 1(1) 2(1) 3(1) 4(1) by (simp add: f mem_simps pos)
qed

section \<open>The tables\<close>

definition huff_tables :: "huff_node list \<times> huff_leaf list \<Rightarrow> htree \<Rightarrow> bool" where
  "huff_tables T t \<longleftrightarrow> repr 0 (fst T) 0 t \<and> height t \<le> 32 \<and> height t \<le> length (fst T) \<and>
     mset (leaves_of t) = mset [0..<length (snd T)] \<and>
     (\<forall>i < length (snd T). symbol (snd T ! i) = of_nat i) \<and>
     (\<forall>(i, p) \<in> set (codes t). code_ok (snd T ! i) p)"

lemma root_in_slot_0:
  assumes "repr 1 nodes (int j) t" and "nodes \<noteq> []"
  shows "repr 0 (nodes[0 := nodes ! j]) 0 t"
proof (cases t)
  case (HNode l r)
  then show ?thesis using assms by (auto intro: repr_weaken repr_update_0)
qed (use assms in simp)


lemma mergeLoop_lengths:
  "1 \<le> length (snd arrays) \<Longrightarrow>
   length (fst (mergeLoop leaves arrays)) + length (snd (mergeLoop leaves arrays)) =
   length (fst arrays) + length (snd arrays)"
proof (induction leaves arrays rule: mergeLoop.induct)
  case (1 leaves arrays)
  have "length (fst (mergeStep leaves arrays)) = Suc (length (fst arrays)) \<and>
      length (snd (mergeStep leaves arrays)) = length (snd arrays) - 1"
    by (auto simp: mergeStep_def Let_def split: prod.splits)
  then show ?case using 1 mergeLoop.simps [of leaves arrays] by auto
qed

lemma leafPop_initLeaves:
  "i < length freqs \<Longrightarrow> leaf_weight (initLeaves freqs) i = unat (freqs ! i + 1)"
  by (simp add: leaf_weight_def initLeaves_def initLeaf_def)

lemma total_weight_initLeaves:
  "total_weight (initLeaves freqs) = sum_list (map (\<lambda>f. unat (f + 1)) freqs)"
proof -
  have "map (leaf_weight (initLeaves freqs)) [0..<length freqs] = map (\<lambda>f. unat (f + 1)) freqs"
    by (rule nth_equalityI) (simp_all add: leafPop_initLeaves)
  then show ?thesis by (simp add: total_weight_def initLeaves_def)
qed

lemma fib_fold: "fib (length (xs :: nat list)) = fst (fold (\<lambda>_ (a, b). (b, a + b)) xs (0, 1))"
proof -
  have "fold (\<lambda>_ (a, b). (b, a + b)) xs (fib n, fib (Suc n)) = (fib (n + length xs), fib (Suc (n + length xs)))" for n
    by (induction xs arbitrary: n) (simp_all del: fib.simps add: fib.simps(3) [symmetric])
  from this [of 0] show ?thesis by simp
qed

lemma fib_34: "fib 34 = 5702887"
proof -
  have "fib (length [2..<36]) = 5702887" unfolding fib_fold by (simp del: One_nat_def)
  moreover have "length [2..<36] = (34 :: nat)" unfolding length_upt by arith
  ultimately show ?thesis by (simp only:)
qed

lemma mergeLoop_tables:
  assumes n: "2 \<le> length freqs" and pos: "\<And>f. f \<in> set freqs \<Longrightarrow> f + 1 \<noteq> 0"
    and tw: "sum_list (map (\<lambda>f. unat (f + 1)) freqs) < fib 34"
  obtains nodes j t where
    "mergeLoop (initLeaves freqs) ([zeroNode], map WLeaf [0..<length freqs]) = (nodes, [WNode j])"
    and "j < length nodes" and "repr 0 (nodes[0 := nodes ! j]) 0 t" and "height t \<le> 32" and "height t < length nodes"
    and "mset (leaves_of t) = mset [0..<length freqs]"
proof -
  let ?leaves = "initLeaves freqs"
  let ?M = "mergeLoop ?leaves ([zeroNode], map WLeaf [0..<length freqs])"
  have len: "length ?leaves = length freqs" by (simp add: initLeaves_def)
  have ne: "freqs \<noteq> []" using n by auto
  have tw': "total_weight ?leaves < fib 34" using tw by (simp add: total_weight_initLeaves)
  have "forest_of ?leaves ([zeroNode], map WLeaf [0..<length freqs]) (map HLeaf [0..<length freqs])"
    using forest_start [of ?leaves] ne pos len by (simp add: initLeaves_def initLeaf_def word_neq_0_conv)
  moreover have "1 \<le> length (snd ([zeroNode], map WLeaf [0..<length freqs]))" using n by simp
  moreover have "total_weight ?leaves < 0xfffffffe" using tw' fib_34 by linarith
  ultimately obtain t w where w: "snd ?M = [w]" and f: "forest_of ?leaves ?M [t]"
    using mergeLoop_forest by blast
  have t: "mset (leaves_of t) = mset [0..<length freqs]" "repr 1 (fst ?M) (determineIndex w) t"
    "balanced (leaf_weight ?leaves) t" "fst ?M \<noteq> []"
    using f w len by (auto simp: forest_of_def wrap_tree_def forest_inv_def)
  have nl: "length (leaves_of t) = length freqs" using t(1) by (metis length_upt minus_nat.diff_0 size_mset)
  then have h: "height t < length freqs" using height_leaves [of t] by simp
  have "sum_list (map (leaf_weight ?leaves) (leaves_of t)) = total_weight ?leaves"
    using forest_weight [of "[t]" "length ?leaves" "leaf_weight ?leaves"] t(1) len
    by (simp add: total_weight_def weight_sum)
  then have "weight (leaf_weight ?leaves) t < fib (32 + 2)" using tw' by (simp add: weight_sum)
  then have h32: "height t < 32" by (rule height_bound [OF t(3)])
  obtain l r where node: "t = HNode l r" using nl n by (cases t) auto
  then obtain j where j: "w = WNode j" using t(2) by (cases w) auto
  have "length (fst ?M) = length freqs" using mergeLoop_lengths [of "([zeroNode], map WLeaf [0..<length freqs])" ?leaves] n w by simp
  moreover have "j < length (fst ?M)" using t(2) by (simp add: j node)
  moreover have "repr 0 ((fst ?M)[0 := fst ?M ! j]) 0 t" using root_in_slot_0 t(2,4) by (simp add: j)
  moreover have "?M = (fst ?M, [WNode j])" using w by (simp add: j prod_eq_iff)
  ultimately show thesis using that [of "fst ?M" j t] h h32 t(1) by simp
qed

lemma buildTables_ok:
  assumes n: "2 \<le> length freqs" and pos: "\<And>f. f \<in> set freqs \<Longrightarrow> f + 1 \<noteq> 0"
    and tw: "sum_list (map (\<lambda>f. unat (f + 1)) freqs) < fib 34"
  shows "\<exists>T t. buildTables fresh sbuf freqs = Some T \<and> huff_tables T t \<and> length (snd T) = length freqs"
proof -
  obtain nodes j t where M: "mergeLoop (initLeaves freqs) ([zeroNode], map WLeaf [0..<length freqs]) = (nodes, [WNode j])"
    and j: "j < length nodes" and rep: "repr 0 (nodes[0 := nodes ! j]) 0 t"
    and h: "height t \<le> 32" "height t < length nodes" and lv: "mset (leaves_of t) = mset [0..<length freqs]"
    using mergeLoop_tables [OF assms] .
  let ?nodes = "nodes[0 := nodes ! j]" and ?bs = "BitStream_new fresh sbuf [0, 0, 0, 0] 4 4"
  have len: "length (initLeaves freqs) = length freqs" by (simp add: initLeaves_def)
  have walk: "walk_ok ?bs []"
    by (simp add: walk_ok_def BitStream_new_def reset_def setMaxSizes_def push_bit_eq_mult get_bits_def)
  have d: "distinct (leaves_of t)" using lv by (metis distinct_upt mset_eq_imp_distinct_iff)
  have m: "\<forall>i \<in> set (leaves_of t). i < length (initLeaves freqs)"
    using lv len by (metis atLeastLessThan_iff set_mset_mset set_upt)
  obtain bs' leaves' where g: "generateCodes (Suc (length ?nodes)) ?nodes 0 0 ?bs (initLeaves freqs) = Some (bs', leaves')"
      "codes_ok (initLeaves freqs) leaves' [] t"
    using generateCodes_ok [OF rep, of "Suc (length ?nodes)" "[]" ?bs "initLeaves freqs"] h walk d m by auto
  then have "buildTables fresh sbuf freqs = Some (?nodes, leaves')"
    using j by (simp add: buildTables_def M mem_simps Let_def del: generateCodes.simps)
  moreover have "huff_tables (?nodes, leaves') t"
    using g(2) rep h lv len by (auto simp: huff_tables_def codes_ok_def initLeaves_def initLeaf_def)
  moreover have "length leaves' = length freqs" using g(2) len by (simp add: codes_ok_def)
  ultimately show ?thesis by (intro exI [of _ "(?nodes, leaves')"]) auto
qed

lemma mCharFreqs_facts:
  "length mCharFreqs = 256" "\<forall>f \<in> set mCharFreqs. f + 1 \<noteq> 0"
  "sum_list (map (\<lambda>f. unat (f + 1)) mCharFreqs) = 32782"
  by (simp_all add: mCharFreqs_def mCharFreqs_low_def mCharFreqs_high_def)


section \<open>Symbols and strings\<close>

lemma next_bits_Cons:
  assumes "can_read bs (Suc n)"
  shows "next_bits bs (Suc n) = hd (next_bits bs 1) # next_bits (skip_bits 1 bs) n"
proof -
  have "next_bits bs 1 = [hd (next_bits bs 1)]"
    by (cases "next_bits bs 1") (auto dest: arg_cong [where f = length])
  then show ?thesis using next_bits_add [of bs 1 n] assms by simp
qed

lemma decodeSymbol_path:
  "repr 0 nodes idx t \<Longrightarrow> (i, p) \<in> set (codes t) \<Longrightarrow> i < length leaves \<Longrightarrow> length p < fuel \<Longrightarrow>
   can_read bs (length p) \<Longrightarrow> next_bits bs (length p) = p \<Longrightarrow>
   decodeSymbol fuel nodes leaves idx bs = Some (symbol (leaves ! i), skip_bits (length p) bs)"
proof (induction p arbitrary: t idx fuel bs)
  case Nil
  then obtain f where "fuel = Suc f" by (cases fuel) auto
  with Nil show ?case by (cases t) (auto simp: mem_simps)
next
  case (Cons b p)
  then obtain f where f: "fuel = Suc f" by (cases fuel) auto
  obtain l r where t: "t = HNode l r" using Cons.prems(2) by (cases t) auto
  let ?node = "nodes ! nat idx"
  have split: "hd (next_bits bs 1) = b" "next_bits (skip_bits 1 bs) (length p) = p"
    using next_bits_Cons [of bs "length p"] Cons.prems(5,6) by simp_all
  have flag: "readFlag bs = Some (b, skip_bits 1 bs)"
    using readFlag_fits [of bs] can_read_mono [OF Cons.prems(5), of 1] split(1) by simp
  have cr: "can_read (skip_bits 1 bs) (length p)" using can_read_skip [of bs 1] Cons.prems(5) by simp
  have "decodeSymbol f nodes leaves (if b then index1 ?node else index0 ?node) (skip_bits 1 bs) =
      Some (symbol (leaves ! i), skip_bits (length p) (skip_bits 1 bs))"
  proof (cases b)
    case True
    then have "(i, p) \<in> set (codes r)" using Cons.prems(2) by (auto simp: t)
    then show ?thesis using Cons.IH [of "index1 ?node" r f "skip_bits 1 bs"] Cons.prems(1,3,4) cr split True by (simp add: t f)
  next
    case False
    then have "(i, p) \<in> set (codes l)" using Cons.prems(2) by (auto simp: t)
    then show ?thesis using Cons.IH [of "index0 ?node" l f "skip_bits 1 bs"] Cons.prems(1,3,4) cr split False by (simp add: t f)
  qed
  then show ?case using Cons.prems(1) flag by (simp add: f t mem_simps skip_bits_skip)
qed

end
