(* ===== verification/Huffman_Strings.thy ===== *)
theory Huffman_Strings
  imports Huffman_Codes
begin

text \<open>
  The string coder over the tables: what \<^verbatim>\<open>writeHuffBuffer\<close> appends, that
  \<^verbatim>\<open>readHuffBuffer\<close> takes it back at any offset of a block with room for the text and its
  terminator, and the pair as a \<open>bit_codec\<close>.
\<close>

section \<open>The bits of a string\<close>

definition tables_ok :: "huff_node list \<times> huff_leaf list \<Rightarrow> bool" where
  "tables_ok T \<longleftrightarrow> length (snd T) = 256 \<and> (\<exists>t. huff_tables T t)"

definition char_bits :: "huff_leaf list \<Rightarrow> u8 \<Rightarrow> bool list" where
  "char_bits leaves c = get_bits (code (leaves ! unat c)) 0 (unat (numBits (leaves ! unat c)))"

definition text_bits :: "huff_leaf list \<Rightarrow> mem \<Rightarrow> bool list" where
  "text_bits leaves s = concat (map (char_bits leaves) s)"

definition raw_bits :: "mem \<Rightarrow> bool list" where
  "raw_bits s = get_bits s 0 (8 * length s)"

definition string_bits :: "huff_leaf list \<Rightarrow> mem \<Rightarrow> bool list" where
  "string_bits leaves s =
     (if 8 * length s \<le> length (text_bits leaves s)
      then False # int_bits 8 (of_nat (length s) :: u32) @ raw_bits s
      else True # int_bits 8 (of_nat (length s) :: u32) @ text_bits leaves s)"

lemma text_bits_simps [simp]:
  "text_bits leaves [] = []"
  "text_bits leaves (c # cs) = char_bits leaves c @ text_bits leaves cs"
  by (simp_all add: text_bits_def)

lemma char_path:
  assumes "huff_tables T t" and "length (snd T) = 256"
  obtains p where "(unat c, p) \<in> set (codes t)" and "code_ok (snd T ! unat c) p" and "char_bits (snd T) c = p"
    and "unat (numBits (snd T ! unat c)) = length p" and "length p \<le> 32" and "length p \<le> length (fst T)"
    and "symbol (snd T ! unat c) = c"
proof -
  have c: "unat c < 256" using unsigned_less [of c, where ?'a = nat] by simp
  have "unat c \<in> set (leaves_of t)"
    using assms c by (metis atLeast0LessThan huff_tables_def lessThan_iff set_mset_mset set_upt)
  then obtain p where p: "(unat c, p) \<in> set (codes t)" using leaf_codes by blast
  have ok: "code_ok (snd T ! unat c) p" using assms(1) p by (auto simp: huff_tables_def)
  then have nb: "unat (numBits (snd T ! unat c)) = length p"
    by (simp add: code_ok_def unat_of_nat take_bit_nat_eq_self)
  have "length p \<le> height t" using codes_height [OF p] .
  then show thesis using that [OF p ok] assms c nb ok
    by (auto simp: char_bits_def code_ok_def huff_tables_def)
qed

lemma length_char_bits: "tables_ok T \<Longrightarrow> length (char_bits (snd T) c) \<le> 32"
  by (auto simp: tables_ok_def elim!: char_path [of T _ c])

lemma length_text_bits: "tables_ok T \<Longrightarrow> length (text_bits (snd T) s) \<le> 32 * length s"
proof (induction s)
  case (Cons c s)
  then show ?case using length_char_bits [OF Cons.prems, of c] by simp
qed simp

section \<open>Writing\<close>

lemma sumBits_eq:
  assumes "tables_ok T"
  shows "sumBits (snd T) s acc = Some (acc + of_nat (length (text_bits (snd T) s)))"
proof (induction s arbitrary: acc)
  case (Cons c s)
  obtain t where t: "huff_tables T t" "length (snd T) = 256" using assms by (auto simp: tables_ok_def)
  obtain p where "char_bits (snd T) c = p" "unat (numBits (snd T ! unat c)) = length p"
    using char_path [OF t] by metis
  then have "(ucast (numBits (snd T ! unat c)) :: u32) = of_nat (length (char_bits (snd T) c))"
    by (metis of_nat_unat)
  moreover have "unat c < 256" using unsigned_less [of c, where ?'a = nat] by simp
  ultimately show ?case using Cons.IH t(2) by (simp add: mem_simps add.assoc)
qed simp

lemma encodeLoop_appends:
  "tables_ok T \<Longrightarrow> can_write bs (length (text_bits (snd T) s)) \<Longrightarrow>
   encodeLoop (snd T) s bs = Some (append_bits (text_bits (snd T) s) bs)"
proof (induction s arbitrary: bs)
  case (Cons c s)
  obtain t where t: "huff_tables T t" "length (snd T) = 256" using Cons.prems by (auto simp: tables_ok_def)
  obtain p where p: "code_ok (snd T ! unat c) p" "char_bits (snd T) c = p" "unat (numBits (snd T ! unat c)) = length p"
    using char_path [OF t] by metis
  have room: "can_write bs (length p + length (text_bits (snd T) s))" using Cons.prems p by simp
  have u: "unat (ucast (numBits (snd T ! unat c)) :: u32) = length p" using p(3) unat_ucast_u8_u32 by simp
  have "writeBits (ucast (numBits (snd T ! unat c))) (code (snd T ! unat c)) bs = Some (True, append_bits p bs)"
    using writeBits_fits [of bs "ucast (numBits (snd T ! unat c))" "code (snd T ! unat c)"] p room
      can_write_mono [OF room] by (simp add: u code_ok_def)
  moreover have "encodeLoop (snd T) s (append_bits p bs) = Some (append_bits (text_bits (snd T) s) (append_bits p bs))"
    using Cons.IH Cons.prems(1) can_write_append [OF room] by blast
  moreover have "unat c < length (snd T)" using unsigned_less [of c, where ?'a = nat] t(2) by simp
  ultimately show ?case using append_bits_append [OF room] p(2) by (simp add: mem_simps)
qed simp

lemma u32_of_nat_le: "n < 2 ^ 32 \<Longrightarrow> k < 2 ^ 32 \<Longrightarrow> (of_nat n :: u32) \<le> of_nat k \<longleftrightarrow> n \<le> k"
  by (simp add: word_le_nat_alt unat_of_nat take_bit_nat_eq_self)

lemma string_head:
  assumes "can_write bs (Suc (8 + n))"
  shows "writeFlag b bs = Some (b, append_bits [b] bs)"
    and "writeInt v 8 (append_bits [b] bs) = Some (append_bits (b # int_bits 8 v) bs)"
    and "can_write (append_bits (b # int_bits 8 v) bs) n"
proof -
  show "writeFlag b bs = Some (b, append_bits [b] bs)"
    using can_write_mono [OF assms, of 1] by (intro writeFlag_fits) simp
  have w: "can_write (append_bits [b] bs) (8 + n)" using can_write_append [of bs "[b]"] assms by simp
  then have "writeInt v 8 (append_bits [b] bs) = Some (append_bits (int_bits 8 v) (append_bits [b] bs))"
    using can_write_mono [OF w, of 8] by (subst writeInt_fits) simp_all
  moreover have "append_bits (int_bits 8 v) (append_bits [b] bs) = append_bits (b # int_bits 8 v) bs"
    using can_write_mono [OF assms, of 9] by (subst append_bits_append) simp_all
  ultimately show "writeInt v 8 (append_bits [b] bs) = Some (append_bits (b # int_bits 8 v) bs)" by simp
  show "can_write (append_bits (b # int_bits 8 v) bs) n"
    using can_write_append [of bs "b # int_bits 8 v" n] assms by simp
qed

lemma writeHuffBuffer_fits:
  assumes T: "tables_ok T" and len: "length s \<le> 255" and max: "length s \<le> unat maxLen"
    and w: "can_write bs (length (string_bits (snd T) s))"
  shows "writeHuffBuffer T (Some s) maxLen bs = Some (append_bits (string_bits (snd T) s) bs)"
proof -
  let ?n = "of_nat (length s) :: u32" and ?t = "text_bits (snd T) s"
  have n: "unat ?n = length s" using len by (simp add: unat_of_nat take_bit_nat_eq_self)
  have le: "\<not> ?n > maxLen" using max n by (simp add: word_less_nat_alt)
  have sb: "sumBits (snd T) s 0 = Some (of_nat (length ?t))" using sumBits_eq [OF T, of s 0] by simp
  have "length ?t \<le> 32 * 255" using length_text_bits [OF T, of s] len by linarith
  moreover have "?n * 8 = of_nat (8 * length s)" by simp
  ultimately have cmp: "(of_nat (length ?t) \<ge> ?n * 8) \<longleftrightarrow> 8 * length s \<le> length ?t"
    using u32_of_nat_le [of "8 * length s" "length ?t"] len by (simp add: mult.commute)
  show ?thesis
  proof (cases "8 * length s \<le> length ?t")
    case True
    have room: "can_write bs (Suc (8 + 8 * length s))" using w True by (simp add: string_bits_def raw_bits_def)
    have room': "can_write bs (length (False # int_bits 8 ?n) + length (raw_bits s))"
      using room by (simp add: raw_bits_def)
    note h = string_head(1) [OF room, where b = False] string_head(2,3) [OF room, where b = False and v = ?n]
    have "writeBits (push_bit 3 ?n) s (append_bits (False # int_bits 8 ?n) bs) =
        Some (True, append_bits (raw_bits s) (append_bits (False # int_bits 8 ?n) bs))"
      using h(3) unat_push3 [of "length s"] len by (subst writeBits_fits) (simp_all add: raw_bits_def)
    then show ?thesis using h(1,2) True le cmp sb n append_bits_append [OF room']
      by (simp add: writeHuffBuffer_def Let_def writeBytes_def string_bits_def)
  next
    case False
    have room: "can_write bs (Suc (8 + length ?t))" using w False by (simp add: string_bits_def)
    have room': "can_write bs (length (True # int_bits 8 ?n) + length ?t)" using room by simp
    note h = string_head(1) [OF room, where b = True] string_head(2,3) [OF room, where b = True and v = ?n]
    show ?thesis using h(1,2) False le cmp sb n append_bits_append [OF room'] encodeLoop_appends [OF T h(3)]
      by (simp add: writeHuffBuffer_def Let_def string_bits_def)
  qed
qed

section \<open>Reading\<close>

lemma decodeLoop_takes:
  "tables_ok T \<Longrightarrow> can_read bs (length (text_bits (snd T) s)) \<Longrightarrow>
   next_bits bs (length (text_bits (snd T) s)) = text_bits (snd T) s \<Longrightarrow> i + length s \<le> length dst \<Longrightarrow>
   decodeLoop (fst T) (snd T) (length s) dst i bs =
     Some (take i dst @ s @ drop (i + length s) dst, skip_bits (length (text_bits (snd T) s)) bs)"
proof (induction s arbitrary: i dst bs)
  case (Cons c s)
  obtain t where t: "huff_tables T t" "length (snd T) = 256" using Cons.prems by (auto simp: tables_ok_def)
  obtain p where p: "(unat c, p) \<in> set (codes t)" "char_bits (snd T) c = p" "length p \<le> length (fst T)"
      "symbol (snd T ! unat c) = c" using char_path [OF t] by metis
  let ?r = "text_bits (snd T) s"
  have room: "can_read bs (length p + length ?r)" using Cons.prems p by simp
  have split: "next_bits bs (length p) = p" "next_bits (skip_bits (length p) bs) (length ?r) = ?r"
    using next_bits_add [OF room] Cons.prems(3) p by simp_all
  have "unat c < length (snd T)" using unsigned_less [of c, where ?'a = nat] t(2) by simp
  then have "decodeSymbol (Suc (length (fst T))) (fst T) (snd T) 0 bs = Some (c, skip_bits (length p) bs)"
    using decodeSymbol_path [of "fst T" 0 t "unat c" p "snd T" "Suc (length (fst T))" bs] t p split(1)
      can_read_mono [OF room] by (simp add: huff_tables_def)
  moreover have "decodeLoop (fst T) (snd T) (length s) (dst[i := c]) (Suc i) (skip_bits (length p) bs) =
      Some (take (Suc i) (dst[i := c]) @ s @ drop (Suc i + length s) (dst[i := c]),
        skip_bits (length ?r) (skip_bits (length p) bs))"
    using Cons.IH [of "skip_bits (length p) bs" "Suc i" "dst[i := c]"] Cons.prems(1,4) can_read_skip [OF room] split(2) by simp
  moreover have "take (Suc i) (dst[i := c]) = take i dst @ [c]" using Cons.prems(4) by (simp add: take_Suc_conv_app_nth)
  ultimately show ?case using Cons.prems(4) p(2)
    by (simp add: mem_simps skip_bits_skip)
qed simp

lemma string_head_read:
  assumes r: "can_read bs (Suc (8 + n))" and nb: "next_bits bs (Suc (8 + n)) = b # int_bits 8 v @ rest"
    and len: "length rest = n"
  shows "readFlag bs = Some (b, skip_bits 1 bs)"
    and "readInt 8 (skip_bits 1 bs) = Some (take_bit 8 v, skip_bits 9 bs)"
    and "can_read (skip_bits 9 bs) n" and "next_bits (skip_bits 9 bs) n = rest"
proof -
  have h: "hd (next_bits bs 1) = b" "next_bits (skip_bits 1 bs) (8 + n) = int_bits 8 v @ rest"
    using next_bits_Cons [OF r] nb by simp_all
  then show "readFlag bs = Some (b, skip_bits 1 bs)"
    using readFlag_fits [of bs] can_read_mono [OF r, of 1] by simp
  have r1: "can_read (skip_bits 1 bs) (8 + n)" using can_read_skip [of bs 1] r by simp
  have "next_bits (skip_bits 1 bs) 8 @ next_bits (skip_bits 9 bs) n = int_bits 8 v @ rest"
    using next_bits_add [OF r1] h(2) by (simp add: skip_bits_skip)
  moreover have "length (next_bits (skip_bits 1 bs) 8) = length (int_bits 8 v)" by simp
  ultimately have s: "next_bits (skip_bits 1 bs) 8 = int_bits 8 v" "next_bits (skip_bits 9 bs) n = rest"
    using append_eq_append_conv by blast+
  then show "next_bits (skip_bits 9 bs) n = rest" by simp
  show "readInt 8 (skip_bits 1 bs) = Some (take_bit 8 v, skip_bits 9 bs)"
    using can_read_mono [OF r1, of 8] s(1) by (subst readInt_fits) (simp_all add: skip_bits_skip)
  show "can_read (skip_bits 9 bs) n" using can_read_skip [of bs 9 n] r by simp
qed


lemma readHuffBuffer_fits:
  assumes T: "tables_ok T" and len: "length s \<le> 255" and room: "off + length s < length dst"
    and r: "can_read bs (length (string_bits (snd T) s))"
    and nb: "next_bits bs (length (string_bits (snd T) s)) = string_bits (snd T) s"
  shows "readHuffBuffer T dst off bs =
    Some (take off dst @ s @ 0 # drop (Suc (off + length s)) dst, skip_bits (length (string_bits (snd T) s)) bs)"
proof -
  let ?n = "of_nat (length s) :: u32" and ?t = "text_bits (snd T) s"
  let ?dst = "take off dst @ s @ drop (off + length s) dst"
  have n: "unat ?n = length s" using len by (simp add: unat_of_nat take_bit_nat_eq_self)
  have tb: "take_bit 8 ?n = ?n" using len n by (simp add: word_unat_eq_iff unsigned_take_bit_eq take_bit_nat_eq_self)
  have "st ?dst (off + length s) 0 = Some (take off dst @ s @ (drop (off + length s) dst)[0 := 0])"
    using room by (simp add: mem_simps list_update_append)
  moreover have "drop (off + length s) dst = dst ! (off + length s) # drop (Suc (off + length s)) dst"
    using room by (simp add: Cons_nth_drop_Suc)
  ultimately have fin: "st ?dst (off + length s) 0 = Some (take off dst @ s @ 0 # drop (Suc (off + length s)) dst)" by simp
  show ?thesis
  proof (cases "8 * length s \<le> length ?t")
    case True
    have sb: "string_bits (snd T) s = False # int_bits 8 ?n @ raw_bits s" using True by (simp add: string_bits_def)
    have len_raw: "length (raw_bits s) = 8 * length s" by (simp add: raw_bits_def)
    have r': "can_read bs (Suc (8 + 8 * length s))" and nb': "next_bits bs (Suc (8 + 8 * length s)) = False # int_bits 8 ?n @ raw_bits s"
      using r nb by (simp_all add: sb len_raw)
    note h = string_head_read [OF r' nb' len_raw]
    have u3: "unat (push_bit 3 ?n) = 8 * length s" using unat_push3 [of "length s"] len by simp
    obtain out where out: "readBits (push_bit 3 ?n) (skip_bits 9 bs) = Some (True, out, skip_bits (8 * length s) (skip_bits 9 bs))"
        "length out = (8 * length s + 7) div 8" "get_bits out 0 (8 * length s) = next_bits (skip_bits 9 bs) (8 * length s)"
      using readBits_fits [of "skip_bits 9 bs" "push_bit 3 ?n"] h(3) u3 by auto
    have "out = s" using out(2,3) h(4) by (intro get_bits_inj) (simp_all add: raw_bits_def)
    then show ?thesis using h(1,2) out(1) room fin n
      by (simp add: readHuffBuffer_def readBytes_def tb sb len_raw skip_bits_skip mem_simps)
  next
    case False
    have sb: "string_bits (snd T) s = True # int_bits 8 ?n @ ?t" using False by (simp add: string_bits_def)
    have r': "can_read bs (Suc (8 + length ?t))" and nb': "next_bits bs (Suc (8 + length ?t)) = True # int_bits 8 ?n @ ?t"
      using r nb by (simp_all add: sb)
    note h = string_head_read [OF r' nb' refl]
    show ?thesis using h(1,2) decodeLoop_takes [OF T h(3,4), of off dst] room fin n
      by (simp add: readHuffBuffer_def tb sb skip_bits_skip)
  qed
qed

section \<open>Prefix-free codes\<close>

lemma codes_prefix_free:
  "(i, p) \<in> set (codes t) \<Longrightarrow> (j, p @ q) \<in> set (codes t) \<Longrightarrow> distinct (leaves_of t) \<Longrightarrow> i = j"
proof (induction t arbitrary: p)
  case (HNode l r)
  then show ?case by (cases p) (auto dest: codes_leaf)
qed simp

definition prefix_free :: "huff_leaf list \<Rightarrow> bool" where
  "prefix_free leaves \<longleftrightarrow> (\<forall>c d q. char_bits leaves d = char_bits leaves c @ q \<longrightarrow> c = d)"

lemma tables_prefix_free:
  assumes "tables_ok T"
  shows "prefix_free (snd T)"
  unfolding prefix_free_def
proof (intro allI impI)
  fix c d q assume q: "char_bits (snd T) d = char_bits (snd T) c @ q"
  obtain t where t: "huff_tables T t" "length (snd T) = 256" using assms by (auto simp: tables_ok_def)
  have "distinct (leaves_of t)" using t by (metis distinct_upt huff_tables_def mset_eq_imp_distinct_iff)
  moreover obtain p where "(unat c, p) \<in> set (codes t)" "char_bits (snd T) c = p" using char_path [OF t] by metis
  moreover obtain p' where "(unat d, p') \<in> set (codes t)" "char_bits (snd T) d = p'" using char_path [OF t] by metis
  ultimately have "unat c = unat d" using q codes_prefix_free by metis
  then show "c = d" by (simp add: word_unat_eq_iff)
qed

lemma buildTables_char_freqs:
  "\<exists>T. buildTables fresh sbuf mCharFreqs = Some T \<and> tables_ok T"
proof -
  have "sum_list (map (\<lambda>f. unat (f + 1)) mCharFreqs) < fib 34"
    unfolding mCharFreqs_facts(3) fib_34 by simp
  then show ?thesis
    using buildTables_ok [of mCharFreqs fresh sbuf] mCharFreqs_facts(1,2) by (auto simp: tables_ok_def)
qed

section \<open>The codec\<close>

definition cstring :: "mem \<Rightarrow> mem" where
  "cstring m = takeWhile (\<lambda>c. c \<noteq> 0) m"

lemma cstring_append: "0 \<notin> set s \<Longrightarrow> cstring (s @ 0 # m) = s"
  unfolding cstring_def by (subst takeWhile_append2) auto

interpretation huff_codec: bit_codec "\<lambda>T s. tables_ok T \<and> length s \<le> 255 \<and> 0 \<notin> set s"
  "\<lambda>T. string_bits (snd T)" "\<lambda>T s. writeHuffBuffer T (Some s) 255"
  "\<lambda>T bs. map_option (\<lambda>(m, bs). (cstring m, bs)) (readHuffBuffer T (replicate 256 0) 0 bs)"
  by unfold_locales (auto simp: writeHuffBuffer_fits readHuffBuffer_fits cstring_append)

end
