(* ===== verification/String_Stream.thy ===== *)
theory String_Stream
  imports Huffman_Strings
begin

text \<open>
  \<^verbatim>\<open>BitStream::writeString\<close> and \<^verbatim>\<open>readString\<close> of \<^verbatim>\<open>tnl/bitStream.cpp\<close>: each end keeps the
  last string in its \<^verbatim>\<open>mStringBuffer\<close>, and a string that shares more than two characters with it
  is sent as the length of the shared prefix and the rest. A string is the text of a C
  string, without its terminator; a NULL pointer is \<open>None\<close>.
\<close>

section \<open>The operations\<close>

definition charAt :: "mem \<Rightarrow> nat \<Rightarrow> u8" where
  "charAt s j = (if j < length s then s ! j else 0)"

function prefixLoop :: "nat \<Rightarrow> mem \<Rightarrow> mem \<Rightarrow> nat \<Rightarrow> nat" where
  "prefixLoop maxLen sb s j =
     (if j < maxLen \<and> charAt sb j = charAt s j \<and> charAt s j \<noteq> 0 then prefixLoop maxLen sb s (Suc j) else j)"
  by pat_completeness auto
termination by (relation "measure (\<lambda>(maxLen, _, _, j). maxLen - j)") auto

declare prefixLoop.simps [simp del]

definition strncpy :: "mem \<Rightarrow> nat \<Rightarrow> mem \<Rightarrow> nat \<Rightarrow> mem option" where
  "strncpy dst off src n = memcpy dst off (take n src @ replicate (n - length src) 0)"

definition strcpy :: "mem \<Rightarrow> mem \<Rightarrow> mem option" where
  "strcpy dst src = (if 0 \<in> set src then memcpy dst 0 (cstring src @ [0]) else None)"

definition writeString ::
  "huff_node list \<times> huff_leaf list \<Rightarrow> mem option \<Rightarrow> u8 \<Rightarrow> bit_stream \<Rightarrow> bit_stream option" where
  "writeString T string maxLen bs =
     (let s = (case string of None \<Rightarrow> [] | Some s \<Rightarrow> s);
          j = prefixLoop (unat maxLen) (mStringBuffer bs) s 0 in do {
        sb \<leftarrow> strncpy (mStringBuffer bs) j (drop j s) (unat maxLen - j);
        sb \<leftarrow> st sb (unat maxLen) 0;
        (prefixed, bs) \<leftarrow> writeFlag (j > 2) (bs\<lparr>mStringBuffer := sb\<rparr>);
        if prefixed then do {
          bs \<leftarrow> writeInt (of_nat j) 8 bs;
          writeHuffBuffer T (Some (drop j s)) (of_nat (unat maxLen - j)) bs }
        else writeHuffBuffer T (Some s) (ucast maxLen) bs })"

definition readString ::
  "huff_node list \<times> huff_leaf list \<Rightarrow> mem \<Rightarrow> bit_stream \<Rightarrow> (mem \<times> bit_stream) option" where
  "readString T buf bs = do {
     (prefixed, bs) \<leftarrow> readFlag bs;
     if prefixed then do {
       (offset, bs) \<leftarrow> readInt 8 bs;
       (sb, bs) \<leftarrow> readHuffBuffer T (mStringBuffer bs) (unat offset) bs;
       buf \<leftarrow> strcpy buf sb;
       Some (buf, bs\<lparr>mStringBuffer := sb\<rparr>) }
     else do {
       (buf, bs) \<leftarrow> readHuffBuffer T buf 0 bs;
       sb \<leftarrow> strcpy (mStringBuffer bs) buf;
       Some (buf, bs\<lparr>mStringBuffer := sb\<rparr>) } }"

section \<open>The shared prefix\<close>

lemma prefixLoop_bounds: "j \<le> maxLen \<Longrightarrow> j \<le> prefixLoop maxLen sb s j \<and> prefixLoop maxLen sb s j \<le> maxLen"
proof (induction maxLen sb s j rule: prefixLoop.induct)
  case (1 maxLen sb s j)
  then show ?case by (subst (1 2) prefixLoop.simps) auto
qed

lemma prefixLoop_shared: "j \<le> i \<Longrightarrow> i < prefixLoop maxLen sb s j \<Longrightarrow> charAt sb i = charAt s i \<and> charAt s i \<noteq> 0"
proof (induction maxLen sb s j rule: prefixLoop.induct)
  case (1 maxLen sb s j)
  then show ?case
    by (cases "i = j") (auto simp: prefixLoop.simps [of maxLen sb s j] split: if_splits)
qed

definition shared :: "mem \<Rightarrow> mem \<Rightarrow> nat" where
  "shared sb s = prefixLoop 255 sb s 0"

lemma shared_facts:
  assumes "length sb = 256" and "length s \<le> 255"
  shows "shared sb s \<le> length s" and "take (shared sb s) sb = take (shared sb s) s"
proof -
  show le: "shared sb s \<le> length s"
  proof (rule ccontr)
    assume "\<not> shared sb s \<le> length s"
    then show False using prefixLoop_shared [of 0 "length s" 255 sb s] by (simp add: shared_def charAt_def)
  qed
  show "take (shared sb s) sb = take (shared sb s) s"
  proof (rule nth_equalityI)
    show "length (take (shared sb s) sb) = length (take (shared sb s) s)" using assms le by simp
    fix i assume "i < length (take (shared sb s) sb)"
    then have "i < shared sb s" by simp
    then show "take (shared sb s) sb ! i = take (shared sb s) s ! i"
      using prefixLoop_shared [of 0 i 255 sb s] le assms by (simp add: shared_def charAt_def)
  qed
qed

lemma cstring_id: "0 \<notin> set s \<Longrightarrow> cstring s = s"
  unfolding cstring_def by (induction s) auto

lemma cstring_prefix: "0 \<notin> set (take n m) \<Longrightarrow> n \<le> length m \<Longrightarrow> n \<le> length (cstring m) \<and> take n (cstring m) = take n m"
proof (induction m arbitrary: n)
  case (Cons a m)
  then show ?case by (cases n) (auto simp: cstring_def)
qed simp

text \<open>The code of a string after the string \<open>prev\<close>, with both ends' buffers holding \<open>prev\<close>.\<close>

definition delta_bits :: "huff_leaf list \<Rightarrow> mem \<Rightarrow> mem \<Rightarrow> bool list" where
  "delta_bits leaves sb s =
     (let j = shared sb s in
      if j > 2 then True # int_bits 8 (of_nat j :: u32) @ string_bits leaves (drop j s)
      else False # string_bits leaves s)"

lemma length_string_bits_pos: "8 < length (string_bits leaves s)"
  by (simp add: string_bits_def)

section \<open>Writing\<close>

lemma append_stringBuffer:
  "append_bits xs (bs\<lparr>mStringBuffer := sb\<rparr>) = (append_bits xs bs)\<lparr>mStringBuffer := sb\<rparr>"
  by (simp add: append_bits_def)

lemma can_write_stringBuffer [simp]: "can_write (bs\<lparr>mStringBuffer := sb\<rparr>) n = can_write bs n"
  by (simp add: can_write_def stream_ok_def)

lemma writeString_fits:
  assumes T: "tables_ok T" and sb: "length (mStringBuffer bs) = 256" and s: "length s \<le> 255"
    and w: "can_write bs (length (delta_bits (snd T) (mStringBuffer bs) s))"
  shows "writeString T (Some s) 255 bs =
    Some ((append_bits (delta_bits (snd T) (mStringBuffer bs) s) bs)\<lparr>mStringBuffer := s @ replicate (256 - length s) 0\<rparr>)"
proof -
  define j where "j = shared (mStringBuffer bs) s"
  define sb' where "sb' = s @ replicate (256 - length s) (0 :: u8)"
  have j: "j \<le> length s" "take j (mStringBuffer bs) = take j s"
    using shared_facts [OF sb s] by (simp_all add: j_def)
  have pl: "prefixLoop 255 (mStringBuffer bs) s 0 = j" by (simp add: j_def shared_def)
  have "take j s @ drop j s @ r = s @ r" for r by (metis append.assoc append_take_drop_id)
  moreover have "drop 255 (mStringBuffer bs) = [mStringBuffer bs ! 255]"
    using sb by (intro nth_equalityI) auto
  ultimately have c: "strncpy (mStringBuffer bs) j (drop j s) (255 - j) =
      Some (s @ replicate (255 - length s) 0 @ [mStringBuffer bs ! 255])"
    using j s sb by (simp add: strncpy_def mem_simps)
  have "256 - length s = Suc (255 - length s)" using s by simp
  then have z: "st (s @ replicate (255 - length s) 0 @ [mStringBuffer bs ! 255]) 255 0 = Some sb'"
    using s by (simp add: mem_simps sb'_def list_update_append replicate_append_same)
  show ?thesis
  proof (cases "j > 2")
    case True
    let ?r = "string_bits (snd T) (drop j s)"
    have d: "delta_bits (snd T) (mStringBuffer bs) s = True # int_bits 8 (of_nat j :: u32) @ ?r"
      using True by (simp add: delta_bits_def Let_def flip: j_def)
    have room: "can_write (bs\<lparr>mStringBuffer := sb'\<rparr>) (Suc (8 + length ?r))" using w by (simp add: d)
    have room': "can_write (bs\<lparr>mStringBuffer := sb'\<rparr>) (length (True # int_bits 8 (of_nat j :: u32)) + length ?r)"
      using room by simp
    have u: "unat (of_nat (255 - j) :: u32) = 255 - j" by (simp add: unat_of_nat take_bit_nat_eq_self)
    note h = string_head(1) [OF room, where b = True] string_head(2,3) [OF room, where b = True and v = "of_nat j"]
    have "writeHuffBuffer T (Some (drop j s)) (of_nat (255 - j)) (append_bits (True # int_bits 8 (of_nat j :: u32)) (bs\<lparr>mStringBuffer := sb'\<rparr>)) =
        Some (append_bits ?r (append_bits (True # int_bits 8 (of_nat j :: u32)) (bs\<lparr>mStringBuffer := sb'\<rparr>)))"
      using writeHuffBuffer_fits [OF T _ _ h(3)] s u by simp
    then show ?thesis using h(1,2) c z True append_bits_append [OF room'] d pl
      by (simp add: writeString_def append_stringBuffer sb'_def)
  next
    case False
    let ?r = "string_bits (snd T) s"
    have d: "delta_bits (snd T) (mStringBuffer bs) s = False # ?r"
      using False by (simp add: delta_bits_def Let_def flip: j_def)
    have room: "can_write (bs\<lparr>mStringBuffer := sb'\<rparr>) (length [False] + length ?r)" using w by (simp add: d)
    have "writeFlag False (bs\<lparr>mStringBuffer := sb'\<rparr>) = Some (False, append_bits [False] (bs\<lparr>mStringBuffer := sb'\<rparr>))"
      using can_write_mono [OF room, of 1] by (intro writeFlag_fits) simp
    moreover have "writeHuffBuffer T (Some s) 255 (append_bits [False] (bs\<lparr>mStringBuffer := sb'\<rparr>)) =
        Some (append_bits ?r (append_bits [False] (bs\<lparr>mStringBuffer := sb'\<rparr>)))"
      using writeHuffBuffer_fits [OF T s _ can_write_append [OF room], of 255] s by simp
    ultimately show ?thesis using c z False append_bits_append [OF room] d pl
      by (simp add: writeString_def append_stringBuffer sb'_def)
  qed
qed

section \<open>Reading\<close>

lemma take_cstring: "j \<le> length (cstring m) \<Longrightarrow> take j (cstring m) = take j m"
proof (induction m arbitrary: j)
  case (Cons c m)
  then show ?case by (cases j) (auto simp: cstring_def split: if_splits)
qed (simp add: cstring_def)

lemma strcpy_text:
  assumes "0 \<notin> set s" and "length s < length dst"
  shows "strcpy dst (s @ 0 # rest) = Some (s @ 0 # drop (Suc (length s)) dst)"
  using assms by (simp add: strcpy_def cstring_append mem_simps)

lemma next_bits_stringBuffer [simp]:
  "next_bits (bs\<lparr>mStringBuffer := sb\<rparr>) n = next_bits bs n" "can_read (bs\<lparr>mStringBuffer := sb\<rparr>) n = can_read bs n"
  by (simp_all add: next_bits_def can_read_def stream_ok_def)

lemma skip_stringBuffer: "mStringBuffer (skip_bits n bs) = mStringBuffer bs"
  by (simp add: skip_bits_def)

lemma readString_fits:
  assumes T: "tables_ok T" and s: "length s \<le> 255" "0 \<notin> set s" and buf: "length buf = 256"
    and sb: "length sb = 256" "length (mStringBuffer bs) = 256" "cstring sb = cstring (mStringBuffer bs)"
    and r: "can_read bs (length (delta_bits (snd T) sb s))"
    and nb: "next_bits bs (length (delta_bits (snd T) sb s)) = delta_bits (snd T) sb s"
  shows "\<exists>buf' sb'. readString T buf bs =
      Some (buf', (skip_bits (length (delta_bits (snd T) sb s)) bs)\<lparr>mStringBuffer := sb'\<rparr>) \<and>
    length buf' = 256 \<and> cstring buf' = s \<and> length sb' = 256 \<and> cstring sb' = s"
proof (cases "shared sb s > 2")
  case True
  define j where "j = shared sb s"
  have j: "j \<le> length s" "take j sb = take j s" using shared_facts [OF sb(1) s(1)] by (simp_all add: j_def)
  have j8: "take_bit 8 (of_nat j :: u32) = of_nat j" "unat (of_nat j :: u32) = j"
    using j s by (simp_all add: word_unat_eq_iff unsigned_take_bit_eq unat_of_nat take_bit_nat_eq_self)
  have nz: "0 \<notin> set (take j s)" using s(2) by (meson in_set_takeD)
  then have "take j (cstring sb) = take j s" "j \<le> length (cstring sb)"
    using cstring_prefix [of j sb] j sb s by simp_all
  then have pre: "take j (mStringBuffer bs) = take j s"
    using take_cstring [of j "mStringBuffer bs"] sb(3) by simp
  let ?r = "string_bits (snd T) (drop j s)" and ?n = "9 + length (string_bits (snd T) (drop j s))"
  have d: "delta_bits (snd T) sb s = True # int_bits 8 (of_nat j :: u32) @ ?r"
    using True by (simp add: delta_bits_def Let_def j_def)
  have r': "can_read bs (Suc (8 + length ?r))"
    and nb': "next_bits bs (Suc (8 + length ?r)) = True # int_bits 8 (of_nat j :: u32) @ ?r"
    using r nb by (simp_all add: d)
  note h = string_head_read [OF r' nb' refl]
  have "readHuffBuffer T (mStringBuffer bs) j (skip_bits 9 bs) =
      Some (take j (mStringBuffer bs) @ drop j s @ 0 # drop (Suc (length s)) (mStringBuffer bs), skip_bits ?n bs)"
    using readHuffBuffer_fits [OF T _ _ h(3,4), of j "mStringBuffer bs"] j s sb by (simp add: skip_bits_skip)
  also have "take j (mStringBuffer bs) @ drop j s @ 0 # drop (Suc (length s)) (mStringBuffer bs) =
      s @ 0 # drop (Suc (length s)) (mStringBuffer bs)"
    unfolding pre by (metis append.assoc append_take_drop_id)
  finally have "readHuffBuffer T (mStringBuffer bs) j (skip_bits 9 bs) =
      Some (s @ 0 # drop (Suc (length s)) (mStringBuffer bs), skip_bits ?n bs)" .
  then show ?thesis using h(1,2) j8 strcpy_text [of s buf] s sb buf d
    by (auto simp: readString_def skip_stringBuffer cstring_append)
next
  case False
  let ?r = "string_bits (snd T) s"
  have d: "delta_bits (snd T) sb s = False # ?r"
    using False by (simp add: delta_bits_def Let_def)
  have r': "can_read bs (1 + length ?r)" and "next_bits bs (Suc (length ?r)) = False # ?r"
    using r nb by (simp_all add: d)
  then have h: "hd (next_bits bs 1) = False" "next_bits (skip_bits 1 bs) (length ?r) = ?r"
    using next_bits_Cons [of bs "length ?r"] by simp_all
  have "readFlag bs = Some (False, skip_bits 1 bs)"
    using readFlag_fits [of bs] can_read_mono [OF r', of 1] h(1) by simp
  moreover have "readHuffBuffer T buf 0 (skip_bits 1 bs) =
      Some (s @ 0 # drop (Suc (length s)) buf, skip_bits (Suc (length ?r)) bs)"
    using readHuffBuffer_fits [OF T s(1) _ can_read_skip [OF r'] h(2), of 0 buf] s buf by (simp add: skip_bits_skip)
  ultimately show ?thesis using strcpy_text [of s "mStringBuffer bs"] s sb buf d
    by (auto simp: readString_def skip_stringBuffer cstring_append)
qed

section \<open>A sequence of strings\<close>

fun writeStrings :: "huff_node list \<times> huff_leaf list \<Rightarrow> mem list \<Rightarrow> bit_stream \<Rightarrow> bit_stream option" where
  "writeStrings T [] bs = Some bs"
| "writeStrings T (s # ss) bs = do { bs \<leftarrow> writeString T (Some s) 255 bs; writeStrings T ss bs }"

fun readStrings :: "huff_node list \<times> huff_leaf list \<Rightarrow> mem \<Rightarrow> nat \<Rightarrow> bit_stream \<Rightarrow> (mem list \<times> bit_stream) option" where
  "readStrings T buf 0 bs = Some ([], bs)"
| "readStrings T buf (Suc n) bs = do {
     (s, bs) \<leftarrow> readString T buf bs; (ss, bs) \<leftarrow> readStrings T s n bs; Some (cstring s # ss, bs) }"

text \<open>The code of the sequence: each string after the one before it.\<close>

fun deltas :: "huff_leaf list \<Rightarrow> mem \<Rightarrow> mem list \<Rightarrow> bool list" where
  "deltas leaves sb [] = []"
| "deltas leaves sb (s # ss) = delta_bits leaves sb s @ deltas leaves (s @ replicate (256 - length s) 0) ss"

lemma writeStrings_fits:
  "tables_ok T \<Longrightarrow> length (mStringBuffer bs) = 256 \<Longrightarrow> \<forall>s \<in> set ss. length s \<le> 255 \<Longrightarrow>
   can_write bs (length (deltas (snd T) (mStringBuffer bs) ss)) \<Longrightarrow>
   \<exists>sb. writeStrings T ss bs = Some ((append_bits (deltas (snd T) (mStringBuffer bs) ss) bs)\<lparr>mStringBuffer := sb\<rparr>)"
proof (induction ss arbitrary: bs)
  case Nil
  then show ?case by (auto intro: exI [of _ "mStringBuffer bs"])
next
  case (Cons s ss)
  let ?sb = "s @ replicate (256 - length s) 0" and ?d = "delta_bits (snd T) (mStringBuffer bs) s"
  let ?ds = "deltas (snd T) ?sb ss"
  have room: "can_write bs (length ?d + length ?ds)" using Cons.prems(4) by simp
  have "writeString T (Some s) 255 bs = Some ((append_bits ?d bs)\<lparr>mStringBuffer := ?sb\<rparr>)"
    using Cons.prems can_write_mono [OF room] by (intro writeString_fits) simp_all
  moreover obtain sb where "writeStrings T ss ((append_bits ?d bs)\<lparr>mStringBuffer := ?sb\<rparr>) =
      Some ((append_bits ?ds ((append_bits ?d bs)\<lparr>mStringBuffer := ?sb\<rparr>))\<lparr>mStringBuffer := sb\<rparr>)"
    using Cons.IH [of "(append_bits ?d bs)\<lparr>mStringBuffer := ?sb\<rparr>"] Cons.prems can_write_append [OF room] by auto
  ultimately show ?case using append_bits_append [OF room] by (auto simp: append_stringBuffer)
qed

lemma readStrings_takes:
  "tables_ok T \<Longrightarrow> length sb = 256 \<Longrightarrow> length (mStringBuffer bs) = 256 \<Longrightarrow> cstring sb = cstring (mStringBuffer bs) \<Longrightarrow>
   length buf = 256 \<Longrightarrow> \<forall>s \<in> set ss. length s \<le> 255 \<and> 0 \<notin> set s \<Longrightarrow>
   can_read bs (length (deltas (snd T) sb ss)) \<Longrightarrow>
   next_bits bs (length (deltas (snd T) sb ss)) = deltas (snd T) sb ss \<Longrightarrow>
   \<exists>sb'. readStrings T buf (length ss) bs = Some (ss, (skip_bits (length (deltas (snd T) sb ss)) bs)\<lparr>mStringBuffer := sb'\<rparr>)"
proof (induction ss arbitrary: bs sb buf)
  case Nil
  then show ?case by (auto intro: exI [of _ "mStringBuffer bs"])
next
  case (Cons s ss)
  let ?sb = "s @ replicate (256 - length s) 0" and ?d = "delta_bits (snd T) sb s"
  let ?ds = "deltas (snd T) ?sb ss"
  have room: "can_read bs (length ?d + length ?ds)" using Cons.prems(7) by simp
  have "next_bits bs (length ?d) @ next_bits (skip_bits (length ?d) bs) (length ?ds) = ?d @ ?ds"
    using next_bits_add [OF room] Cons.prems(8) by simp
  then have nb: "next_bits bs (length ?d) = ?d" "next_bits (skip_bits (length ?d) bs) (length ?ds) = ?ds" by simp_all
  have s: "length s \<le> 255" "0 \<notin> set s" using Cons.prems(6) by simp_all
  obtain buf' sb' where one: "readString T buf bs = Some (buf', (skip_bits (length ?d) bs)\<lparr>mStringBuffer := sb'\<rparr>)"
      "length buf' = 256" "cstring buf' = s" "length sb' = 256" "cstring sb' = s"
    using readString_fits [OF Cons.prems(1) s Cons.prems(5,2,3,4) can_read_mono [OF room] nb(1)] by auto
  have cs: "cstring ?sb = s"
  proof -
    have "256 - length s = Suc (255 - length s)" using s by simp
    then show ?thesis using cstring_append [OF s(2)] by simp
  qed
  obtain sb2 where "readStrings T buf' (length ss) ((skip_bits (length ?d) bs)\<lparr>mStringBuffer := sb'\<rparr>) =
      Some (ss, (skip_bits (length ?ds) ((skip_bits (length ?d) bs)\<lparr>mStringBuffer := sb'\<rparr>))\<lparr>mStringBuffer := sb2\<rparr>)"
    using Cons.IH [of ?sb "(skip_bits (length ?d) bs)\<lparr>mStringBuffer := sb'\<rparr>" buf'] Cons.prems(1,6) one s cs
      can_read_skip [OF room] nb(2) by auto
  moreover have "skip_bits n (b\<lparr>mStringBuffer := x\<rparr>) = (skip_bits n b)\<lparr>mStringBuffer := x\<rparr>" for n b x
    by (simp add: skip_bits_def)
  ultimately show ?case using one(1,3) by (auto simp: skip_bits_skip)
qed


lemma length_deltas:
  "\<forall>s \<in> set ss. length s \<le> 255 \<Longrightarrow> length sb = 256 \<Longrightarrow>
   length (deltas leaves sb ss) \<le> sum_list (map (\<lambda>s. 18 + 8 * length s) ss)"
proof (induction ss arbitrary: sb)
  case (Cons s ss)
  have "length (string_bits leaves x) \<le> 9 + 8 * length x" for x
    by (auto simp: string_bits_def raw_bits_def)
  from this [of s] order.trans [OF this [of "drop (shared sb s) s"], of "9 + 8 * length s"] have "length (delta_bits leaves sb s) \<le> 18 + 8 * length s"
    by (simp add: delta_bits_def Let_def)
  with Cons show ?case by (simp add: add_mono)
qed simp

lemma strings_roundtrip:
  assumes T: "tables_ok T" and ss: "\<forall>s \<in> set ss. length s \<le> 255 \<and> 0 \<notin> set s"
    and sb: "length (mStringBuffer bs) = 256" "length sb = 256" "cstring sb = cstring (mStringBuffer bs)" "length buf = 256"
    and w: "can_write bs (length (deltas (snd T) (mStringBuffer bs) ss))"
    and r: "can_read bs (length (deltas (snd T) (mStringBuffer bs) ss))"
  shows "\<exists>bs1 bs2. writeStrings T ss bs = Some bs1 \<and> bitNum bs2 = bitNum bs1 \<and>
    readStrings T buf (length ss) (bs1\<lparr>bitNum := bitNum bs, mStringBuffer := sb\<rparr>) = Some (ss, bs2)"
proof -
  let ?d = "deltas (snd T) (mStringBuffer bs) ss"
  obtain sb1 where wr: "writeStrings T ss bs = Some ((append_bits ?d bs)\<lparr>mStringBuffer := sb1\<rparr>)"
    using writeStrings_fits [OF T sb(1) _ w] ss by blast
  let ?b = "((append_bits ?d bs)\<lparr>mStringBuffer := sb1\<rparr>)\<lparr>bitNum := bitNum bs, mStringBuffer := sb\<rparr>"
  have "next_bits ?b (length ?d) = ?d"
    using next_bits_append_bits [OF w] by (simp add: next_bits_def)
  moreover have "can_read ?b (length ?d)"
    using r by (simp add: can_read_def append_bits_def stream_ok_def)
  ultimately obtain sb2 where "readStrings T buf (length ss) ?b = Some (ss, (skip_bits (length ?d) ?b)\<lparr>mStringBuffer := sb2\<rparr>)"
    using readStrings_takes [OF T sb(1), of ?b buf ss] sb ss by auto
  then show ?thesis using wr by (auto simp: skip_bits_def append_bits_def)
qed

section \<open>A prefix that does not fit\<close>

text \<open>
  \<^verbatim>\<open>readString\<close> takes the prefix length from the stream and decodes behind it, so a peer can make
  it write behind the 256 bytes of the string buffer; here that is \<open>None\<close>.
\<close>

lemma readHuffBuffer_overflow:
  assumes len: "length s \<le> 255" and over: "length dst \<le> off + length s"
    and r: "can_read bs (Suc (8 + 8 * length s))"
    and nb: "next_bits bs (Suc (8 + 8 * length s)) = False # int_bits 8 (of_nat (length s) :: u32) @ raw_bits s"
  shows "readHuffBuffer T dst off bs = None"
proof -
  let ?n = "of_nat (length s) :: u32"
  have n: "unat ?n = length s" using len by (simp add: unat_of_nat take_bit_nat_eq_self)
  have tb: "take_bit 8 ?n = ?n" using len n by (simp add: word_unat_eq_iff unsigned_take_bit_eq take_bit_nat_eq_self)
  have len_raw: "length (raw_bits s) = 8 * length s" by (simp add: raw_bits_def)
  note h = string_head_read [OF r nb len_raw]
  have u3: "unat (push_bit 3 ?n) = 8 * length s" using unat_push3 [of "length s"] len by simp
  obtain out where out: "readBits (push_bit 3 ?n) (skip_bits 9 bs) = Some (True, out, skip_bits (8 * length s) (skip_bits 9 bs))"
      "length out = (8 * length s + 7) div 8" "get_bits out 0 (8 * length s) = next_bits (skip_bits 9 bs) (8 * length s)"
    using readBits_fits [of "skip_bits 9 bs" "push_bit 3 ?n"] h(3) u3 by auto
  have os: "out = s" using out(2,3) h(4) by (intro get_bits_inj) (simp_all add: raw_bits_def)
  have "memcpy dst off s \<bind> (\<lambda>dst. st dst (off + length s) 0) = None"
  proof (cases "s = [] \<or> off + length s = length dst")
    case True
    then show ?thesis using over by (cases "s = []") (auto simp: mem_simps)
  next
    case False
    then show ?thesis using over by (simp add: memcpy_None)
  qed
  then show ?thesis using h(1,2) out(1) n
    by (cases "memcpy dst off s") (auto simp: readHuffBuffer_def readBytes_def tb os)
qed

lemma readString_overflow:
  assumes len: "length s \<le> 255" and off: "off \<le> 255" and over: "length (mStringBuffer bs) \<le> off + length s"
    and bits: "xs = True # int_bits 8 (of_nat off :: u32) @ False # int_bits 8 (of_nat (length s) :: u32) @ raw_bits s"
    and r: "can_read bs (length xs)" and nb: "next_bits bs (length xs) = xs"
  shows "readString T buf bs = None"
proof -
  let ?r = "False # int_bits 8 (of_nat (length s) :: u32) @ raw_bits s"
  have r': "can_read bs (Suc (8 + length ?r))" and nb': "next_bits bs (Suc (8 + length ?r)) = True # int_bits 8 (of_nat off :: u32) @ ?r"
    using r nb by (simp_all add: bits)
  note h = string_head_read [OF r' nb' refl]
  have o: "take_bit 8 (of_nat off :: u32) = of_nat off" "unat (of_nat off :: u32) = off"
    using off by (simp_all add: word_unat_eq_iff unsigned_take_bit_eq unat_of_nat take_bit_nat_eq_self)
  have "readHuffBuffer T (mStringBuffer bs) off (skip_bits 9 bs) = None"
    using h(3,4) by (intro readHuffBuffer_overflow [OF len over]) (simp_all add: raw_bits_def)
  then show ?thesis using h(1,2) o by (simp add: readString_def skip_stringBuffer)
qed

end
