(* ===== verification/Stream_Fields.thy ===== *)
theory Stream_Fields
  imports String_Stream
begin

text \<open>
  Messages of mixed fields. A packet, an event or an RPC is a sequence of flags, integers,
  ranges, enumerations, byte buffers and Huffman strings, written and read with the stream operations
  in the same order; the field codec gathers the codecs of the single operations, and its
  sequence lemma is the round trip of a whole message.
\<close>

datatype field_format =
    FmtFlag
  | FmtInt u8
  | FmtSigned u8
  | FmtRanged u32 u32
  | FmtEnum u32
  | FmtBuffer "nat \<Rightarrow> u8"
  | FmtString "huff_node list \<times> huff_leaf list"

datatype field_value = ValFlag bool | ValInt u32 | ValBytes mem

fun writeField :: "field_format \<Rightarrow> field_value \<Rightarrow> bit_stream \<Rightarrow> bit_stream option" where
  "writeField FmtFlag (ValFlag b) bs = map_option snd (writeFlag b bs)"
| "writeField (FmtInt n) (ValInt v) bs = writeInt v n bs"
| "writeField (FmtSigned n) (ValInt v) bs = writeSignedInt v n bs"
| "writeField (FmtRanged a b) (ValInt v) bs = writeRangedU32 v a b bs"
| "writeField (FmtEnum n) (ValInt v) bs = writeEnum v n bs"
| "writeField (FmtBuffer f) (ValBytes d) bs = writeData f d bs"
| "writeField (FmtString T) (ValBytes s) bs = writeHuffBuffer T (Some s) 255 bs"
| "writeField _ _ bs = None"

fun readField :: "field_format \<Rightarrow> bit_stream \<Rightarrow> (field_value \<times> bit_stream) option" where
  "readField FmtFlag bs = map_option (map_prod ValFlag id) (readFlag bs)"
| "readField (FmtInt n) bs = map_option (map_prod ValInt id) (readInt n bs)"
| "readField (FmtSigned n) bs = map_option (map_prod ValInt id) (readSignedInt n bs)"
| "readField (FmtRanged a b) bs = map_option (map_prod ValInt id) (readRangedU32 a b bs)"
| "readField (FmtEnum n) bs = map_option (map_prod ValInt id) (readEnum n bs)"
| "readField (FmtBuffer f) bs = map_option (map_prod ValBytes id) (readData f bs)"
| "readField (FmtString T) bs =
     map_option (\<lambda>(m, bs). (ValBytes (cstring m), bs)) (readHuffBuffer T (replicate 256 0) 0 bs)"

definition enum_valid :: "u32 \<Rightarrow> u32 \<Rightarrow> bool" where
  "enum_valid n v \<longleftrightarrow> v < n \<and> unat n < 2 ^ 32 - 128"

fun field_valid :: "field_format \<Rightarrow> field_value \<Rightarrow> bool" where
  "field_valid FmtFlag (ValFlag b) = True"
| "field_valid (FmtInt n) (ValInt v) = int_valid n v"
| "field_valid (FmtSigned n) (ValInt v) = signed_valid n v"
| "field_valid (FmtRanged a b) (ValInt v) = ranged_valid (a, b) v"
| "field_valid (FmtEnum n) (ValInt v) = enum_valid n v"
| "field_valid (FmtBuffer f) (ValBytes d) = (length d \<le> 1023)"
| "field_valid (FmtString T) (ValBytes s) = (tables_ok T \<and> length s \<le> 255 \<and> 0 \<notin> set s)"
| "field_valid _ _ = False"

fun field_bits :: "field_format \<Rightarrow> field_value \<Rightarrow> bool list" where
  "field_bits FmtFlag (ValFlag b) = [b]"
| "field_bits (FmtInt n) (ValInt v) = int_bits (unat n) v"
| "field_bits (FmtSigned n) (ValInt v) = signed_bits n v"
| "field_bits (FmtRanged a b) (ValInt v) = int_bits (ranged_width (a, b)) (v - a)"
| "field_bits (FmtEnum n) (ValInt v) = int_bits (unat (getNextBinLog2 n)) v"
| "field_bits (FmtBuffer f) (ValBytes d) = data_bits d"
| "field_bits (FmtString T) (ValBytes s) = string_bits (snd T) s"
| "field_bits _ _ = []"

lemma enum_facts:
  assumes "enum_valid n v"
  shows "unat (ucast (getNextBinLog2 n) :: u8) = unat (getNextBinLog2 n)" and "unat (getNextBinLog2 n) \<le> 32"
    and "take_bit (unat (getNextBinLog2 n)) v = v"
proof -
  have nz: "n \<noteq> 0" and lt: "unat v < unat n" "unat n < 2 ^ 32 - 128"
    using assms by (auto simp: enum_valid_def word_less_nat_alt)
  show w: "unat (getNextBinLog2 n) \<le> 32" using nz lt by (intro getNextBinLog2_le)
  then show "unat (ucast (getNextBinLog2 n) :: u8) = unat (getNextBinLog2 n)"
    by (simp add: unsigned_ucast_eq take_bit_nat_eq_self)
  have "unat v < 2 ^ unat (getNextBinLog2 n)" using getNextBinLog2_covers [OF nz] lt by linarith
  then show "take_bit (unat (getNextBinLog2 n)) v = v"
    by (simp add: word_unat_eq_iff unsigned_take_bit_eq take_bit_nat_eq_self)
qed

interpretation enum_codec: bit_codec enum_valid "\<lambda>n. int_bits (unat (getNextBinLog2 n))" "\<lambda>n v. writeEnum v n" readEnum
  by unfold_locales (simp_all add: writeEnum_def readEnum_def writeInt_fits readInt_fits enum_facts)

interpretation field_codec: bit_codec field_valid field_bits writeField readField
proof
  fix f v bs assume v: "field_valid f v"
  show "writeField f v bs = Some (append_bits (field_bits f v) bs)" if w: "can_write bs (length (field_bits f v))"
    using v w by (cases f; cases v)
      (simp_all add: flag_codec.write_appends int_codec.write_appends signed_codec.write_appends
        ranged_codec.write_appends [of "(a, b)" for a b, simplified] enum_codec.write_appends
        data_codec.write_appends huff_codec.write_appends writeFlag_fits)
  show "readField f bs = Some (v, skip_bits (length (field_bits f v)) bs)"
    if r: "can_read bs (length (field_bits f v))" and b: "next_bits bs (length (field_bits f v)) = field_bits f v"
    using v r b by (cases f; cases v)
      (use flag_codec.read_takes int_codec.read_takes signed_codec.read_takes
        ranged_codec.read_takes [of "(a, b)" for a b, simplified] enum_codec.read_takes
        data_codec.read_takes huff_codec.read_takes in \<open>auto simp: readFlag_fits\<close>)
qed

end
