(* ===== verification/Crypt_Types.thy ===== *)
theory Crypt_Types
  imports TNL_Prelude
begin

text \<open>
  What the modules of \<^verbatim>\<open>libtomcrypt\<close> share: the result codes of \<^verbatim>\<open>mycrypt.h\<close>, and the
  rotations and the byte-order loads and stores of \<^verbatim>\<open>mycrypt_macros.h\<close>. \<^verbatim>\<open>ulong32\<close> is a
  32-bit and \<^verbatim>\<open>ulong64\<close> a 64-bit word.
\<close>

datatype crypt_result =
    CRYPT_OK | CRYPT_ERROR | CRYPT_NOP
  | CRYPT_INVALID_KEYSIZE | CRYPT_INVALID_ROUNDS | CRYPT_FAIL_TESTVECTOR
  | CRYPT_BUFFER_OVERFLOW | CRYPT_INVALID_PACKET
  | CRYPT_INVALID_PRNGSIZE | CRYPT_ERROR_READPRNG
  | CRYPT_INVALID_CIPHER | CRYPT_INVALID_HASH | CRYPT_INVALID_PRNG
  | CRYPT_MEM
  | CRYPT_PK_TYPE_MISMATCH | CRYPT_PK_NOT_PRIVATE
  | CRYPT_INVALID_ARG | CRYPT_FILE_NOTFOUND
  | CRYPT_PK_INVALID_TYPE | CRYPT_PK_INVALID_SYSTEM | CRYPT_PK_DUP | CRYPT_PK_NOT_FOUND | CRYPT_PK_INVALID_SIZE
  | CRYPT_INVALID_PRIME_SIZE

section \<open>Rotations\<close>

definition ROL :: "'a::len word \<Rightarrow> nat \<Rightarrow> 'a word" where
  "ROL x n = push_bit n x OR drop_bit (LENGTH('a) - n) x"

definition ROR :: "'a::len word \<Rightarrow> nat \<Rightarrow> 'a word" where
  "ROR x n = drop_bit n x OR push_bit (LENGTH('a) - n) x"

lemma bit_ROL:
  fixes x :: "'a::len word"
  shows "n \<le> LENGTH('a) \<Longrightarrow> bit (ROL x n) i \<longleftrightarrow>
    i < LENGTH('a) \<and> (if n \<le> i then bit x (i - n) else bit x (LENGTH('a) - n + i))"
  by (auto simp: ROL_def bit_simps dest: bit_imp_le_length)

lemma ROR_ROL:
  fixes x :: "'a::len word"
  assumes "n \<le> LENGTH('a)"
  shows "ROR (ROL x n) n = x"
proof (rule bit_word_eqI)
  fix i assume i: "i < LENGTH('a)"
  show "bit (ROR (ROL x n) n) i = bit x i"
  proof (cases "n + i < LENGTH('a)")
    case True
    then have "\<not> LENGTH('a) - n \<le> i" using assms by simp
    with True assms show ?thesis by (simp add: ROR_def bit_simps bit_ROL)
  next
    case False
    then have "LENGTH('a) + (i - (LENGTH('a) - n)) - n = i" and "i - (LENGTH('a) - n) < n" using assms i by simp_all
    with False assms i show ?thesis by (auto simp: ROR_def bit_simps bit_ROL dest: bit_imp_le_length)
  qed
qed

lemma ROL_ROR:
  fixes x :: "'a::len word"
  assumes "n \<le> LENGTH('a)"
  shows "ROL (ROR x n) n = x"
proof -
  have "ROR x n = ROL x (LENGTH('a) - n)" for x :: "'a word"
    using assms by (auto simp: ROR_def ROL_def or.commute)
  moreover have "ROL x n = ROR x (LENGTH('a) - n)" for x :: "'a word"
    using assms by (auto simp: ROR_def ROL_def or.commute)
  ultimately show ?thesis using ROR_ROL [of "LENGTH('a) - n" x] assms by simp
qed

section \<open>Loads and stores\<close>

text \<open>
  The big-endian (\<open>H\<close>) and little-endian (\<open>L\<close>) forms over bytes at an offset; the arrays
  they are used on have a fixed length, which the offsets stay within.
\<close>

definition STOREH :: "nat \<Rightarrow> 'a::len word \<Rightarrow> mem" where
  "STOREH n v = rev (le_bytes n v)"

definition STOREL :: "nat \<Rightarrow> 'a::len word \<Rightarrow> mem" where
  "STOREL n v = le_bytes n v"

definition LOADH :: "nat \<Rightarrow> mem \<Rightarrow> nat \<Rightarrow> 'a::len word" where
  "LOADH n m i = le_value (rev (take n (drop i m)))"

definition LOADL :: "nat \<Rightarrow> mem \<Rightarrow> nat \<Rightarrow> 'a::len word" where
  "LOADL n m i = le_value (take n (drop i m))"

lemma length_STOREH [simp]: "length (STOREH n v) = n"
  by (simp add: STOREH_def)

lemma length_STOREL [simp]: "length (STOREL n v) = n"
  by (simp add: STOREL_def)

lemma le_value_le_bytes:
  fixes v :: "'a::len word"
  assumes "LENGTH('a) \<le> 8 * n"
  shows "le_value (le_bytes n v) = v"
  by (rule bit_word_eqI) (use assms in \<open>auto simp: bit_view\<close>)

lemma le_bytes_le_value:
  assumes "8 * length m \<le> LENGTH('a::len)"
  shows "le_bytes (length m) (le_value m :: 'a word) = m"
  by (rule mem_eqI) (use assms in \<open>auto simp: bit_view\<close>)

lemma LOADH_STOREH:
  fixes v :: "'a::len word"
  assumes "LENGTH('a) \<le> 8 * n"
  shows "LOADH n (STOREH n v @ rest) 0 = v"
  using assms by (simp add: LOADH_def STOREH_def le_value_le_bytes)

lemma LOADL_STOREL:
  fixes v :: "'a::len word"
  assumes "LENGTH('a) \<le> 8 * n"
  shows "LOADL n (STOREL n v @ rest) 0 = v"
  using assms by (simp add: LOADL_def STOREL_def le_value_le_bytes)

text \<open>\<^verbatim>\<open>byte(x, n)\<close>.\<close>

definition byte :: "u32 \<Rightarrow> nat \<Rightarrow> u8" where
  "byte x n = ucast (drop_bit (8 * n) x)"

end
