(* ===== verification/Hash_Stream.thy ===== *)
theory Hash_Stream
  imports Crypt_Types
begin

text \<open>
  The streaming shell the hash functions of \<^verbatim>\<open>libtomcrypt\<close> share: the state record, the
  \<^verbatim>\<open>HASH_PROCESS\<close> macro of \<^verbatim>\<open>mycrypt_hash.h\<close> and the padding of the \<^verbatim>\<open>_done\<close> functions, all
  over the compression function. The locale \<open>md_hash\<close> states what a hash provides; inside it, the
  shell is proved to hash the whole message, however it was cut into pieces.
\<close>

section \<open>The shell\<close>

record 'w hash_state =
  hs_length :: u64
  hs_state :: "'w list"
  hs_curlen :: nat
  hs_buf :: mem

text \<open>
  One turn of the loop of \<^verbatim>\<open>HASH_PROCESS\<close> with \<open>data\<close> left: a whole block straight from the input
  when the buffer is empty, otherwise as much as the buffer takes. The check before the loop
  leaves \<open>hs_curlen\<close> at most the block size.
\<close>

definition hash_turn :: "('w list \<Rightarrow> mem \<Rightarrow> 'w list) \<Rightarrow> nat \<Rightarrow> 'w hash_state \<Rightarrow> mem \<Rightarrow> 'w hash_state \<times> mem" where
  "hash_turn compress bs md data =
     (if hs_curlen md = 0 \<and> bs \<le> length data then
        (md\<lparr>hs_state := compress (hs_state md) (take bs data), hs_length := hs_length md + of_nat (bs * 8)\<rparr>, drop bs data)
      else let n = min (length data) (bs - hs_curlen md);
               buf = take (hs_curlen md) (hs_buf md) @ take n data @ drop (hs_curlen md + n) (hs_buf md);
               md' = md\<lparr>hs_buf := buf, hs_curlen := hs_curlen md + n\<rparr> in
        (if hs_curlen md + n = bs
         then md'\<lparr>hs_state := compress (hs_state md) buf, hs_length := hs_length md + of_nat (8 * bs), hs_curlen := 0\<rparr>
         else md', drop n data))"

text \<open>The block size is positive; the turns that take no input leave the buffer empty.\<close>

function hash_loop :: "('w list \<Rightarrow> mem \<Rightarrow> 'w list) \<Rightarrow> nat \<Rightarrow> 'w hash_state \<Rightarrow> mem \<Rightarrow> 'w hash_state" where
  "hash_loop compress bs md data =
     (if data = [] \<or> bs = 0 \<or> bs < hs_curlen md then md
      else let (md', data') = hash_turn compress bs md data in hash_loop compress bs md' data')"
  by pat_completeness auto
termination
  by (relation "measures [\<lambda>(_, _, _, data). length data, \<lambda>(_, _, md, _). hs_curlen md]")
    (auto simp: hash_turn_def Let_def split: if_splits)

declare hash_loop.simps [simp del]

definition hash_process ::
  "('w list \<Rightarrow> mem \<Rightarrow> 'w list) \<Rightarrow> nat \<Rightarrow> 'w hash_state \<Rightarrow> mem \<Rightarrow> crypt_result \<times> 'w hash_state" where
  "hash_process compress bs md data =
     (if hs_curlen md > length (hs_buf md) then (CRYPT_INVALID_ARG, md)
      else (CRYPT_OK, hash_loop compress bs md data))"

text \<open>
  The padding: a 0x80 byte, zeros up to \<open>lpos\<close> with a block of their own when the byte does not
  leave room below \<open>thr\<close>, and the length in bits.
\<close>

definition hash_pad ::
  "('w list \<Rightarrow> mem \<Rightarrow> 'w list) \<Rightarrow> nat \<Rightarrow> nat \<Rightarrow> nat \<Rightarrow> (u64 \<Rightarrow> mem) \<Rightarrow> 'w hash_state \<Rightarrow> 'w list" where
  "hash_pad compress bs thr lpos store md =
     (let len = hs_length md + of_nat (hs_curlen md * 8);
          filled = take (hs_curlen md) (hs_buf md) @ [0x80];
          (st1, filled) =
            (if length filled > thr
             then (compress (hs_state md) (filled @ replicate (bs - length filled) 0), [])
             else (hs_state md, filled))
      in compress st1 (filled @ replicate (lpos - length filled) 0 @ store len))"

definition hash_done ::
  "('w list \<Rightarrow> mem \<Rightarrow> 'w list) \<Rightarrow> nat \<Rightarrow> nat \<Rightarrow> nat \<Rightarrow> (u64 \<Rightarrow> mem) \<Rightarrow> ('w \<Rightarrow> mem) \<Rightarrow> 'w hash_state \<Rightarrow>
   crypt_result \<times> mem" where
  "hash_done compress bs thr lpos store out md =
     (if hs_curlen md \<ge> length (hs_buf md) then (CRYPT_INVALID_ARG, [])
      else (CRYPT_OK, concat (map out (hash_pad compress bs thr lpos store md))))"

section \<open>The reference: one pass over the padded message\<close>

fun blocks :: "nat \<Rightarrow> mem \<Rightarrow> nat \<Rightarrow> mem list" where
  "blocks bs m 0 = []"
| "blocks bs m (Suc k) = take bs m # blocks bs (drop bs m) k"

definition padded :: "nat \<Rightarrow> nat \<Rightarrow> nat \<Rightarrow> (u64 \<Rightarrow> mem) \<Rightarrow> mem \<Rightarrow> mem" where
  "padded bs thr lpos store m =
     (let r = Suc (length m mod bs) in
      m @ 0x80 # replicate (if thr < r then bs - r + lpos else lpos - r) 0 @ store (of_nat (8 * length m)))"

definition hash_whole ::
  "('w list \<Rightarrow> mem \<Rightarrow> 'w list) \<Rightarrow> 'w list \<Rightarrow> nat \<Rightarrow> nat \<Rightarrow> nat \<Rightarrow> (u64 \<Rightarrow> mem) \<Rightarrow> ('w \<Rightarrow> mem) \<Rightarrow> mem \<Rightarrow> mem" where
  "hash_whole compress iv bs thr lpos store out m =
     (let p = padded bs thr lpos store m in
      concat (map out (foldl compress iv (blocks bs p (length p div bs)))))"

lemma blocks_append:
  "k * bs \<le> length m \<Longrightarrow> blocks bs (m @ x) (k + j) = blocks bs m k @ blocks bs (drop (k * bs) m @ x) j"
proof (induction k arbitrary: m)
  case (Suc k)
  have "blocks bs (drop bs m @ x) (k + j) = blocks bs (drop bs m) k @ blocks bs (drop (k * bs) (drop bs m) @ x) j"
    using Suc.prems by (intro Suc.IH) simp
  then show ?case using Suc.prems by (simp add: add.commute)
qed simp

lemma blocks_snoc:
  "blocks bs m (Suc k) = blocks bs m k @ [take bs (drop (k * bs) m)]"
proof (induction k arbitrary: m)
  case (Suc k)
  have "blocks bs m (Suc (Suc k)) = take bs m # blocks bs (drop bs m) (Suc k)" by (rule blocks.simps)
  also have "\<dots> = take bs m # blocks bs (drop bs m) k @ [take bs (drop (k * bs) (drop bs m))]" by (simp only: Suc.IH)
  finally show ?case by (simp add: add.commute)
qed simp

lemma blocks_prefix: "k * bs \<le> length m \<Longrightarrow> blocks bs (m @ x) k = blocks bs m k"
  using blocks_append [of k bs m x 0] by simp

lemma blocks_two: "length a = bs \<Longrightarrow> length b = bs \<Longrightarrow> blocks bs (a @ b) 2 = [a, b]"
  by (simp add: numeral_2_eq_2)

text \<open>The state after the message \<open>m\<close>: all whole blocks compressed, the rest in the buffer.\<close>

definition hash_holds :: "('w list \<Rightarrow> mem \<Rightarrow> 'w list) \<Rightarrow> 'w list \<Rightarrow> nat \<Rightarrow> 'w hash_state \<Rightarrow> mem \<Rightarrow> bool" where
  "hash_holds compress iv bs md m \<longleftrightarrow>
     (let k = length m div bs in
      hs_state md = foldl compress iv (blocks bs m k) \<and> hs_curlen md = length m mod bs \<and>
      length (hs_buf md) = bs \<and> take (hs_curlen md) (hs_buf md) = drop (k * bs) m \<and>
      hs_length md = of_nat (8 * (k * bs)))"

locale md_hash =
  fixes compress :: "'w list \<Rightarrow> mem \<Rightarrow> 'w list" and iv :: "'w list"
    and bs :: nat and thr :: nat and lpos :: nat and store :: "u64 \<Rightarrow> mem" and out :: "'w \<Rightarrow> mem"
  assumes bs_pos: "0 < bs" and layout: "lpos < bs" "thr \<le> lpos" "\<And>n. length (store n) = bs - lpos"
begin

lemma holds_turn:
  assumes h: "hash_holds compress iv bs md m" and data: "data \<noteq> []"
    and t: "hash_turn compress bs md data = (md', data')"
  shows "\<exists>x. data = x @ data' \<and> hash_holds compress iv bs md' (m @ x)"
proof (cases "hs_curlen md = 0 \<and> bs \<le> length data")
  case True
  let ?k = "length m div bs"
  have r: "length m mod bs = 0" using h True by (simp add: hash_holds_def Let_def)
  then have m: "?k * bs = length m" using div_mult_mod_eq [of "length m" bs] by simp
  have "length (m @ take bs data) div bs = Suc ?k" "length (m @ take bs data) mod bs = 0"
    using r True bs_pos by (simp_all add: div_add_self2)
  moreover have "blocks bs (m @ take bs data) (Suc ?k) = blocks bs m ?k @ [take bs data]"
    using m True blocks_prefix [of ?k bs m "take bs data"] by (simp add: blocks_snoc del: blocks.simps)
  ultimately show ?thesis using h t True m
    by (auto simp: hash_turn_def hash_holds_def Let_def algebra_simps simp del: blocks.simps intro!: exI [of _ "take bs data"])
next
  case False
  define k c d where "k = length m div bs" and "c = hs_curlen md" and "d = drop (k * bs) m"
  define n where "n = min (length data) (bs - c)"
  define buf where "buf = take c (hs_buf md) @ take n data @ drop (c + n) (hs_buf md)"
  have c: "c = length m mod bs" "c < bs" and hb: "length (hs_buf md) = bs" "take c (hs_buf md) = d"
    and hs: "hs_state md = foldl compress iv (blocks bs m k)" "hs_length md = of_nat (8 * (k * bs))"
    using h bs_pos by (auto simp: hash_holds_def Let_def k_def c_def d_def)
  have m: "length m = k * bs + c" using c by (simp add: k_def)
  have n: "n \<le> length data" "c + n \<le> bs" using c by (auto simp: n_def)
  have ld: "length d = c" using m by (simp add: d_def)
  have "buf = (d @ take n data) @ drop (c + n) (hs_buf md)" by (simp add: buf_def hb)
  moreover have "length (d @ take n data) = c + n" using ld n by simp
  ultimately have lb: "length buf = bs" and tb: "take (c + n) buf = d @ take n data"
    using hb(1) n by simp_all
  have x: "data = take n data @ data'" using t False by (auto simp: hash_turn_def Let_def n_def c_def)
  have len: "length (m @ take n data) = k * bs + (c + n)" using m n by simp
  have md': "md' = (if c + n = bs
      then md\<lparr>hs_buf := buf, hs_state := compress (hs_state md) buf, hs_length := hs_length md + of_nat (8 * bs), hs_curlen := 0\<rparr>
      else md\<lparr>hs_buf := buf, hs_curlen := c + n\<rparr>)"
    using t False by (auto simp: hash_turn_def Let_def n_def c_def buf_def)
  have kb: "k * bs \<le> length m" using m by simp
  have "hash_holds compress iv bs md' (m @ take n data)"
  proof (cases "c + n = bs")
    case True
    then have lS: "length (m @ take n data) = Suc k * bs" using len by simp
    then have "drop (Suc k * bs) (m @ take n data) = []" by simp
    moreover from lS have "length (m @ take n data) div bs = Suc k" "length (m @ take n data) mod bs = 0"
      using bs_pos by (simp_all only: nonzero_mult_div_cancel_right mod_mult_self2_is_0)
    moreover have "buf = d @ take n data" using tb lb True by simp
    then have "blocks bs (m @ take n data) (Suc k) = blocks bs m k @ [buf]"
      using kb blocks_prefix [OF kb, of "take n data"] n ld True diff_add_inverse [of c n]
      by (simp add: blocks_snoc del: blocks.simps flip: d_def)
    ultimately show ?thesis using md' True lb hs by (simp add: hash_holds_def Let_def algebra_simps del: blocks.simps drop_append)
  next
    case neq: False
    then have "c + n < bs" using n by simp
    then have "length (m @ take n data) div bs = k" "length (m @ take n data) mod bs = c + n"
      unfolding len using bs_pos by simp_all
    then show ?thesis using md' neq lb hs tb kb blocks_prefix [OF kb, of "take n data"]
      by (simp add: hash_holds_def Let_def flip: d_def)
  qed
  with x show ?thesis by blast
qed

lemma holds_loop:
  "hash_holds compress iv bs md m \<Longrightarrow> hash_holds compress iv bs (hash_loop compress bs md data) (m @ data)"
proof (induction "length data" arbitrary: md m data rule: less_induct)
  case less
  have c: "hs_curlen md < bs" using less.prems bs_pos by (simp add: hash_holds_def Let_def)
  show ?case
  proof (cases "data = []")
    case True
    then show ?thesis using less.prems by (simp add: hash_loop.simps)
  next
    case False
    obtain md' data' where t: "hash_turn compress bs md data = (md', data')" by force
    obtain x where x: "data = x @ data'" "hash_holds compress iv bs md' (m @ x)"
      using holds_turn [OF less.prems False t] by blast
    have "length data' < length data"
      using t c False bs_pos by (auto simp: hash_turn_def Let_def split: if_splits)
    then have "hash_holds compress iv bs (hash_loop compress bs md' data') ((m @ x) @ data')"
      using x(2) by (rule less.hyps)
    moreover have "hash_loop compress bs md data = hash_loop compress bs md' data'"
      using False c bs_pos t by (simp add: hash_loop.simps [of _ _ md])
    ultimately show ?thesis using x(1) by simp
  qed
qed

theorem process_holds:
  assumes "hash_holds compress iv bs md m"
  shows "\<exists>md'. hash_process compress bs md data = (CRYPT_OK, md') \<and> hash_holds compress iv bs md' (m @ data)"
proof -
  have "\<not> hs_curlen md > length (hs_buf md)"
    using assms bs_pos by (simp add: hash_holds_def Let_def not_less less_imp_le)
  then show ?thesis using holds_loop [OF assms] by (simp add: hash_process_def)
qed

lemma holds_start:
  "hs_curlen md = 0 \<Longrightarrow> hs_length md = 0 \<Longrightarrow> hs_state md = iv \<Longrightarrow> length (hs_buf md) = bs \<Longrightarrow>
   hash_holds compress iv bs md []"
  by (simp add: hash_holds_def)

lemma pad_whole:
  assumes "hash_holds compress iv bs md m"
  shows "concat (map out (hash_pad compress bs thr lpos store md)) = hash_whole compress iv bs thr lpos store out m"
proof -
  define k c d where "k = length m div bs" and "c = hs_curlen md" and "d = drop (k * bs) m"
  define z where "z = store (of_nat (8 * length m))"
  have c: "c = length m mod bs" "c < bs" and hb: "length (hs_buf md) = bs" "take c (hs_buf md) = d"
    and hs: "hs_state md = foldl compress iv (blocks bs m k)" "hs_length md = of_nat (8 * (k * bs))"
    using assms bs_pos by (auto simp: hash_holds_def Let_def k_def c_def d_def)
  have m: "length m = k * bs + c" using c by (simp add: k_def)
  then have kb: "k * bs \<le> length m" and ld: "length d = c" by (simp_all add: d_def)
  have len: "hs_length md + of_nat (hs_curlen md * 8) = of_nat (8 * length m)"
    using hs m by (simp add: c_def algebra_simps)
  have lz: "length z = bs - lpos" using layout(3) by (simp add: z_def)
  show ?thesis
  proof (cases "thr < Suc c")
    case True
    let ?b1 = "d @ 0x80 # replicate (bs - Suc c) 0" and ?b2 = "replicate lpos 0 @ z"
    have l: "length ?b1 = bs" "length ?b2 = bs" using ld c(2) layout lz by simp_all
    have p: "padded bs thr lpos store m = m @ 0x80 # replicate (bs - Suc c) 0 @ ?b2"
      using True c replicate_add [of "bs - Suc c" lpos "0 :: u8"] by (simp add: padded_def Let_def z_def)
    then have "length (padded bs thr lpos store m) = (k + 2) * bs" using m l c(2) ld by (simp add: algebra_simps)
    then have "length (padded bs thr lpos store m) div bs = k + 2" using bs_pos by (metis less_not_refl nonzero_mult_div_cancel_right)
    moreover have "blocks bs (padded bs thr lpos store m) (k + 2) = blocks bs m k @ blocks bs (?b1 @ ?b2) 2"
      using blocks_append [OF kb, of "0x80 # replicate (bs - Suc c) 0 @ ?b2" 2] by (simp add: p flip: d_def)
    moreover have "blocks bs (?b1 @ ?b2) 2 = [?b1, ?b2]" by (rule blocks_two [OF l])
    ultimately show ?thesis using True hs hb len [folded c_def]
      by (simp add: hash_whole_def hash_pad_def Let_def ld z_def flip: c_def)
  next
    case False
    let ?b = "d @ 0x80 # replicate (lpos - Suc c) 0 @ z"
    have l: "length ?b = bs" using ld c(2) layout lz False by simp
    have p: "padded bs thr lpos store m = m @ 0x80 # replicate (lpos - Suc c) 0 @ z"
      using False c by (simp add: padded_def Let_def z_def)
    then have "length (padded bs thr lpos store m) = (k + 1) * bs" using m l c(2) ld by (simp add: algebra_simps)
    then have "length (padded bs thr lpos store m) div bs = k + 1" using bs_pos by (metis less_not_refl nonzero_mult_div_cancel_right)
    moreover have "blocks bs (padded bs thr lpos store m) (k + 1) = blocks bs m k @ [?b]"
      using blocks_append [OF kb, of "0x80 # replicate (lpos - Suc c) 0 @ z" 1] l by (simp add: p flip: d_def)
    ultimately show ?thesis using False hs hb len [folded c_def]
      by (simp add: hash_whole_def hash_pad_def Let_def ld z_def flip: c_def)
  qed
qed

theorem done_whole:
  assumes "hash_holds compress iv bs md m"
  shows "hash_done compress bs thr lpos store out md = (CRYPT_OK, hash_whole compress iv bs thr lpos store out m)"
proof -
  have "\<not> hs_curlen md \<ge> length (hs_buf md)"
    using assms bs_pos mod_less_divisor [of bs "length m"] by (simp add: hash_holds_def Let_def not_le)
  then show ?thesis using pad_whole [OF assms] by (simp add: hash_done_def)
qed

text \<open>Any number of calls on pieces of a message, then \<open>done\<close>.\<close>

fun process_all :: "'w hash_state \<Rightarrow> mem list \<Rightarrow> 'w hash_state" where
  "process_all md [] = md"
| "process_all md (d # ds) = process_all (snd (hash_process compress bs md d)) ds"

lemma process_all_holds:
  "hash_holds compress iv bs md m \<Longrightarrow> hash_holds compress iv bs (process_all md ds) (m @ concat ds)"
proof (induction ds arbitrary: md m)
  case (Cons d ds)
  obtain md' where "hash_process compress bs md d = (CRYPT_OK, md')" "hash_holds compress iv bs md' (m @ d)"
    using process_holds [OF Cons.prems] by blast
  with Cons.IH [of md' "m @ d"] show ?case by simp
qed simp

end

end
