(* ===== verification/Sha256.thy ===== *)
theory Sha256
  imports Hash_Stream
begin

text \<open>
  \<^verbatim>\<open>libtomcrypt/sha256.c\<close> and \<^verbatim>\<open>sha224.c\<close>: the compression function, the streaming interface
  as instances of the shared shell, and the self tests of the modules.
\<close>

section \<open>The compression function\<close>

text \<open>The table of constants, by the lines of the source.\<close>

definition sha256_K :: "u32 list" where
  "sha256_K = concat [
    [0x428a2f98, 0x71374491, 0xb5c0fbcf, 0xe9b5dba5, 0x3956c25b],
    [0x59f111f1, 0x923f82a4, 0xab1c5ed5, 0xd807aa98, 0x12835b01],
    [0x243185be, 0x550c7dc3, 0x72be5d74, 0x80deb1fe, 0x9bdc06a7],
    [0xc19bf174, 0xe49b69c1, 0xefbe4786, 0x0fc19dc6, 0x240ca1cc],
    [0x2de92c6f, 0x4a7484aa, 0x5cb0a9dc, 0x76f988da, 0x983e5152],
    [0xa831c66d, 0xb00327c8, 0xbf597fc7, 0xc6e00bf3, 0xd5a79147],
    [0x06ca6351, 0x14292967, 0x27b70a85, 0x2e1b2138, 0x4d2c6dfc],
    [0x53380d13, 0x650a7354, 0x766a0abb, 0x81c2c92e, 0x92722c85],
    [0xa2bfe8a1, 0xa81a664b, 0xc24b8b70, 0xc76c51a3, 0xd192e819],
    [0xd6990624, 0xf40e3585, 0x106aa070, 0x19a4c116, 0x1e376c08],
    [0x2748774c, 0x34b0bcb5, 0x391c0cb3, 0x4ed8aa4a, 0x5b9cca4f],
    [0x682e6ff3, 0x748f82ee, 0x78a5636f, 0x84c87814, 0x8cc70208],
    [0x90befffa, 0xa4506ceb, 0xbef9a3f7, 0xc67178f2]]"

definition sha256_Ch :: "u32 \<Rightarrow> u32 \<Rightarrow> u32 \<Rightarrow> u32" where
  "sha256_Ch x y z = z XOR (x AND (y XOR z))"

definition sha256_Maj :: "u32 \<Rightarrow> u32 \<Rightarrow> u32 \<Rightarrow> u32" where
  "sha256_Maj x y z = ((x OR y) AND z) OR (x AND y)"

definition sha256_Sigma0 :: "u32 \<Rightarrow> u32" where
  "sha256_Sigma0 x = ROR x 2 XOR ROR x 13 XOR ROR x 22"

definition sha256_Sigma1 :: "u32 \<Rightarrow> u32" where
  "sha256_Sigma1 x = ROR x 6 XOR ROR x 11 XOR ROR x 25"

definition sha256_Gamma0 :: "u32 \<Rightarrow> u32" where
  "sha256_Gamma0 x = ROR x 7 XOR ROR x 18 XOR drop_bit 3 x"

definition sha256_Gamma1 :: "u32 \<Rightarrow> u32" where
  "sha256_Gamma1 x = ROR x 17 XOR ROR x 19 XOR drop_bit 10 x"

text \<open>The message schedule, one word at a time behind the ones there are.\<close>

primrec sha256_expand :: "nat \<Rightarrow> u32 list \<Rightarrow> u32 list" where
  "sha256_expand 0 W = W"
| "sha256_expand (Suc n) W =
     (let i = length W in
      sha256_expand n (W @ [sha256_Gamma1 (W ! (i - 2)) + W ! (i - 7) + sha256_Gamma0 (W ! (i - 15)) + W ! (i - 16)]))"

text \<open>
  One round. The source renames the eight registers from round to round instead of moving
  them; after a multiple of eight rounds every name is back at its register.
\<close>

fun sha256_round :: "u32 \<Rightarrow> u32 \<times> u32 \<times> u32 \<times> u32 \<times> u32 \<times> u32 \<times> u32 \<times> u32 \<Rightarrow> u32 \<times> u32 \<times> u32 \<times> u32 \<times> u32 \<times> u32 \<times> u32 \<times> u32" where
  "sha256_round kw (a, b, c, d, e, f, g, h) =
     (let t0 = h + sha256_Sigma1 e + sha256_Ch e f g + kw;
          t1 = sha256_Sigma0 a + sha256_Maj a b c
      in (t0 + t1, a, b, c, d + t0, e, f, g))"

definition sha256_compress :: "u32 list \<Rightarrow> mem \<Rightarrow> u32 list" where
  "sha256_compress state buf =
     (let W = sha256_expand 48 (map (\<lambda>i. LOADH 4 buf (4 * i)) [0..<16]);
          (a, b, c, d, e, f, g, h) = fold sha256_round (map2 (+) sha256_K W)
            (state ! 0, state ! 1, state ! 2, state ! 3, state ! 4, state ! 5, state ! 6, state ! 7)
      in map2 (+) state [a, b, c, d, e, f, g, h])"

section \<open>The streaming interface\<close>

definition sha256_iv :: "u32 list" where
  "sha256_iv = [0x6A09E667, 0xBB67AE85, 0x3C6EF372, 0xA54FF53A, 0x510E527F, 0x9B05688C, 0x1F83D9AB, 0x5BE0CD19]"

definition sha256_init :: "u32 hash_state \<Rightarrow> u32 hash_state" where
  "sha256_init md = md\<lparr>hs_curlen := 0, hs_length := 0, hs_state := sha256_iv\<rparr>"

definition sha256_process :: "u32 hash_state \<Rightarrow> mem \<Rightarrow> crypt_result \<times> u32 hash_state" where
  "sha256_process = hash_process sha256_compress 64"

definition sha256_done :: "u32 hash_state \<Rightarrow> crypt_result \<times> mem" where
  "sha256_done = hash_done sha256_compress 64 56 56 (STOREH 8) (STOREH 4)"

definition sha224_iv :: "u32 list" where
  "sha224_iv = [0xc1059ed8, 0x367cd507, 0x3070dd17, 0xf70e5939, 0xffc00b31, 0x68581511, 0x64f98fa7, 0xbefa4fa4]"

definition sha224_init :: "u32 hash_state \<Rightarrow> u32 hash_state" where
  "sha224_init md = md\<lparr>hs_curlen := 0, hs_length := 0, hs_state := sha224_iv\<rparr>"

definition sha224_done :: "u32 hash_state \<Rightarrow> crypt_result \<times> mem" where
  "sha224_done md = (let (err, buf) = sha256_done md in (err, take 28 buf))"

text \<open>A state object before \<open>init\<close>: its 64-byte buffer holds anything.\<close>

definition raw_state :: "mem \<Rightarrow> 'w hash_state" where
  "raw_state junk = \<lparr>hs_length = 0, hs_state = [], hs_curlen = 0, hs_buf = junk\<rparr>"

section \<open>What the interface computes\<close>

interpretation sha256: md_hash sha256_compress sha256_iv 64 56 56 "STOREH 8" "STOREH 4"
  by unfold_locales simp_all

interpretation sha224: md_hash sha256_compress sha224_iv 64 56 56 "STOREH 8" "STOREH 4"
  by unfold_locales simp_all

definition sha256 :: "mem \<Rightarrow> mem" where
  "sha256 = hash_whole sha256_compress sha256_iv 64 56 56 (STOREH 8) (STOREH 4)"

definition sha224 :: "mem \<Rightarrow> mem" where
  "sha224 m = take 28 (hash_whole sha256_compress sha224_iv 64 56 56 (STOREH 8) (STOREH 4) m)"

lemma sha256_holds_init: "length (hs_buf md) = 64 \<Longrightarrow> hash_holds sha256_compress sha256_iv 64 (sha256_init md) []"
  by (rule sha256.holds_start) (simp_all add: sha256_init_def)

lemma sha224_holds_init: "length (hs_buf md) = 64 \<Longrightarrow> hash_holds sha256_compress sha224_iv 64 (sha224_init md) []"
  by (rule sha224.holds_start) (simp_all add: sha224_init_def)

lemma sha256_pieces:
  assumes "length (hs_buf md) = 64"
  shows "sha256_done (sha256.process_all (sha256_init md) ds) = (CRYPT_OK, sha256 (concat ds))"
  using sha256.done_whole [OF sha256.process_all_holds [OF sha256_holds_init [OF assms], of ds]]
  by (simp add: sha256_done_def sha256_def)

lemma sha256_one:
  assumes "length (hs_buf md) = 64"
  shows "sha256_done (snd (sha256_process (sha256_init md) m)) = (CRYPT_OK, sha256 m)"
  using sha256_pieces [OF assms, of "[m]"] by (simp add: sha256_process_def)

lemma sha224_one:
  assumes "length (hs_buf md) = 64"
  shows "sha224_done (snd (sha256_process (sha224_init md) m)) = (CRYPT_OK, sha224 m)"
  using sha224.done_whole [OF sha224.process_all_holds [OF sha224_holds_init [OF assms], of "[m]"]]
  by (simp add: sha224_done_def sha256_done_def sha224_def sha256_process_def)

lemma length_sha256_compress: "length state = 8 \<Longrightarrow> length (sha256_compress state buf) = 8"
  by (simp add: sha256_compress_def Let_def split: prod.splits)

lemma length_foldl_compress:
  "(\<And>s b. length s = n \<Longrightarrow> length (f s b) = n) \<Longrightarrow> length s = n \<Longrightarrow> length (foldl f s bs) = n"
  by (induction bs arbitrary: s) simp_all

lemma length_sha256 [simp]: "length (sha256 m) = 32"
proof -
  have "length (foldl sha256_compress sha256_iv bs) = 8" for bs
    by (rule length_foldl_compress) (simp_all add: length_sha256_compress sha256_iv_def)
  then show ?thesis by (simp add: sha256_def hash_whole_def Let_def length_concat comp_def sum_list_triv)
qed

section \<open>The self tests\<close>

definition sha256_tests :: "(mem \<times> mem) list" where
  "sha256_tests = [
    ([97, 98, 99],
      [0xba, 0x78, 0x16, 0xbf, 0x8f, 0x01, 0xcf, 0xea, 0x41, 0x41, 0x40, 0xde, 0x5d, 0xae, 0x22,
       0x23, 0xb0, 0x03, 0x61, 0xa3, 0x96, 0x17, 0x7a, 0x9c, 0xb4, 0x10, 0xff, 0x61, 0xf2, 0x00,
       0x15, 0xad]),
    ([97, 98, 99, 100, 98, 99, 100, 101, 99, 100, 101, 102, 100, 101, 102, 103, 101, 102, 103,
      104, 102, 103, 104, 105, 103, 104, 105, 106, 104, 105, 106, 107, 105, 106, 107, 108, 106,
      107, 108, 109, 107, 108, 109, 110, 108, 109, 110, 111, 109, 110, 111, 112, 110, 111, 112,
      113],
      [0x24, 0x8d, 0x6a, 0x61, 0xd2, 0x06, 0x38, 0xb8, 0xe5, 0xc0, 0x26, 0x93, 0x0c, 0x3e, 0x60,
       0x39, 0xa3, 0x3c, 0xe4, 0x59, 0x64, 0xff, 0x21, 0x67, 0xf6, 0xec, 0xed, 0xd4, 0x19, 0xdb,
       0x06, 0xc1])]"

definition sha256_test :: "mem \<Rightarrow> crypt_result" where
  "sha256_test junk =
     (if list_all (\<lambda>(msg, hash). snd (sha256_done (snd (sha256_process (sha256_init (raw_state junk)) msg))) = hash) sha256_tests
      then CRYPT_OK else CRYPT_FAIL_TESTVECTOR)"

definition sha224_tests :: "(mem \<times> mem) list" where
  "sha224_tests = [
    ([97, 98, 99],
      [0x23, 0x09, 0x7d, 0x22, 0x34, 0x05, 0xd8, 0x22, 0x86, 0x42, 0xa4, 0x77, 0xbd, 0xa2, 0x55,
       0xb3, 0x2a, 0xad, 0xbc, 0xe4, 0xbd, 0xa0, 0xb3, 0xf7, 0xe3, 0x6c, 0x9d, 0xa7]),
    ([97, 98, 99, 100, 98, 99, 100, 101, 99, 100, 101, 102, 100, 101, 102, 103, 101, 102, 103,
      104, 102, 103, 104, 105, 103, 104, 105, 106, 104, 105, 106, 107, 105, 106, 107, 108, 106,
      107, 108, 109, 107, 108, 109, 110, 108, 109, 110, 111, 109, 110, 111, 112, 110, 111, 112,
      113],
      [0x75, 0x38, 0x8b, 0x16, 0x51, 0x27, 0x76, 0xcc, 0x5d, 0xba, 0x5d, 0xa1, 0xfd, 0x89, 0x01,
       0x50, 0xb0, 0xc6, 0x45, 0x5c, 0xb4, 0xf5, 0x8b, 0x19, 0x52, 0x52, 0x25, 0x25])]"

definition sha224_test :: "mem \<Rightarrow> crypt_result" where
  "sha224_test junk =
     (if list_all (\<lambda>(msg, hash). snd (sha224_done (snd (sha256_process (sha224_init (raw_state junk)) msg))) = hash) sha224_tests
      then CRYPT_OK else CRYPT_FAIL_TESTVECTOR)"

end
