(* ===== verification/Symmetric_Cipher.thy ===== *)
theory Symmetric_Cipher
  imports Bit_Stream_Codec Sha256
begin

text \<open>
  \<^verbatim>\<open>tnl/symmetricCipher.cpp\<close>: the byte-wise stream cipher over the AES block function, and the
  two packet operations of \<^verbatim>\<open>tnl/bitStream.cpp\<close> that use it, \<^verbatim>\<open>hashAndEncrypt\<close> and
  \<^verbatim>\<open>decryptAndCheckHash\<close>.

  The scheduled key is the block function itself, from 16 bytes to 16 bytes
  (\<^verbatim>\<open>rijndael_ecb_encrypt\<close> with the key that \<^verbatim>\<open>rijndael_setup\<close> expanded); \<open>rijndael\<close> below is
  that function of a key. \<open>mInitVector\<close> has 16 words in the class, of which the code only ever
  writes and reads the first four; those are kept.
\<close>

section \<open>The cipher\<close>

record symmetric_cipher =
  mCounter :: "u32 list"
  mInitVector :: "u32 list"
  mPad :: mem
  mSymmetricKey :: "mem \<Rightarrow> mem"
  mPadLen :: nat

definition BlockSize :: nat where "BlockSize = 16"
definition KeySize :: nat where "KeySize = 16"

text \<open>The words of the counter as the bytes the block function takes, on a little-endian host.\<close>

definition counterBytes :: "u32 list \<Rightarrow> mem" where
  "counterBytes ws = concat (map (le_bytes 4) ws)"

definition counterWords :: "mem \<Rightarrow> u32 list" where
  "counterWords m = map (\<lambda>i. le_value (take 4 (drop (4 * i) m))) [0..<4]"

definition SymmetricCipher_new :: "(mem \<Rightarrow> mem \<Rightarrow> mem) \<Rightarrow> mem \<Rightarrow> mem \<Rightarrow> symmetric_cipher option" where
  "SymmetricCipher_new rijndael symmetricKey initVector = do {
     key \<leftarrow> rd symmetricKey KeySize;
     iv \<leftarrow> rd initVector BlockSize;
     Some \<lparr>mCounter = counterWords iv, mInitVector = counterWords iv,
           mPad = rijndael key (counterBytes (counterWords iv)), mSymmetricKey = rijndael key, mPadLen = 0\<rparr> }"

definition SymmetricCipher_fromBuffer :: "(mem \<Rightarrow> mem \<Rightarrow> mem) \<Rightarrow> byte_buffer \<Rightarrow> symmetric_cipher option" where
  "SymmetricCipher_fromBuffer rijndael theByteBuffer =
     (if unat (mBufSize theByteBuffer) \<noteq> KeySize * 2
      then SymmetricCipher_new rijndael (replicate KeySize 0) (replicate KeySize 0)
      else SymmetricCipher_new rijndael (mDataPtr theByteBuffer) (drop KeySize (mDataPtr theByteBuffer)))"

definition setupCounter :: "u32 \<Rightarrow> u32 \<Rightarrow> u32 \<Rightarrow> u32 \<Rightarrow> symmetric_cipher \<Rightarrow> symmetric_cipher" where
  "setupCounter c1 c2 c3 c4 s =
     (let counter = map2 (+) (mInitVector s) [c1, c2, c3, c4] in
      s\<lparr>mCounter := counter, mPad := mSymmetricKey s (counterBytes counter), mPadLen := 0\<rparr>)"

text \<open>A new pad when the old one is used up.\<close>

definition nextPad :: "symmetric_cipher \<Rightarrow> symmetric_cipher" where
  "nextPad s = (if mPadLen s = BlockSize then s\<lparr>mPad := mSymmetricKey s (mPad s), mPadLen := 0\<rparr> else s)"

fun encrypt :: "mem \<Rightarrow> symmetric_cipher \<Rightarrow> (mem \<times> symmetric_cipher) option" where
  "encrypt [] s = Some ([], s)"
| "encrypt (p # ps) s =
     (let s = nextPad s in do {
        k \<leftarrow> ld (mPad s) (mPadLen s);
        let encryptedChar = p XOR k;
        pad \<leftarrow> st (mPad s) (mPadLen s) encryptedChar;
        (cs, s) \<leftarrow> encrypt ps (s\<lparr>mPad := pad, mPadLen := mPadLen s + 1\<rparr>);
        Some (encryptedChar # cs, s) })"

fun decrypt :: "mem \<Rightarrow> symmetric_cipher \<Rightarrow> (mem \<times> symmetric_cipher) option" where
  "decrypt [] s = Some ([], s)"
| "decrypt (c # cs) s =
     (let s = nextPad s in do {
        k \<leftarrow> ld (mPad s) (mPadLen s);
        pad \<leftarrow> st (mPad s) (mPadLen s) c;
        (ps, s) \<leftarrow> decrypt cs (s\<lparr>mPad := pad, mPadLen := mPadLen s + 1\<rparr>);
        Some ((c XOR k) # ps, s) })"

section \<open>The interface of a stream cipher\<close>

text \<open>
  What the packet operations rely on: ciphers in an equal state undo each other, keep the
  length and stay in step. The interface is over any state with an invariant.
\<close>

locale stream_cipher =
  fixes ok :: "'s \<Rightarrow> bool"
    and enc :: "mem \<Rightarrow> 's \<Rightarrow> (mem \<times> 's) option"
    and dec :: "mem \<Rightarrow> 's \<Rightarrow> (mem \<times> 's) option"
  assumes enc_total: "ok s \<Longrightarrow> \<exists>cs s'. enc ps s = Some (cs, s') \<and> ok s' \<and> length cs = length ps"
    and dec_enc: "ok s \<Longrightarrow> enc ps s = Some (cs, s') \<Longrightarrow> dec cs s = Some (ps, s')"
    and dec_total: "ok s \<Longrightarrow> \<exists>ps s'. dec cs s = Some (ps, s') \<and> ok s' \<and> length ps = length cs"
begin

lemma roundtrip: "ok s \<Longrightarrow> \<exists>cs s'. enc ps s = Some (cs, s') \<and> dec cs s = Some (ps, s')"
  using enc_total dec_enc by blast

lemma enc_inj: "ok s \<Longrightarrow> enc ps s = Some (cs, s1) \<Longrightarrow> enc qs s = Some (cs, s2) \<Longrightarrow> ps = qs"
  by (metis Pair_inject dec_enc option.inject)

text \<open>Packet after packet with the state carried along.\<close>

fun enc_all :: "mem list \<Rightarrow> 's \<Rightarrow> (mem list \<times> 's) option" where
  "enc_all [] s = Some ([], s)"
| "enc_all (p # ps) s = do { (c, s) \<leftarrow> enc p s; (cs, s) \<leftarrow> enc_all ps s; Some (c # cs, s) }"

fun dec_all :: "mem list \<Rightarrow> 's \<Rightarrow> (mem list \<times> 's) option" where
  "dec_all [] s = Some ([], s)"
| "dec_all (c # cs) s = do { (p, s) \<leftarrow> dec c s; (ps, s) \<leftarrow> dec_all cs s; Some (p # ps, s) }"

lemma all_roundtrip: "ok s \<Longrightarrow> \<exists>cs s'. enc_all ps s = Some (cs, s') \<and> dec_all cs s = Some (ps, s')"
proof (induction ps arbitrary: s)
  case (Cons p ps)
  obtain c s1 where 1: "enc p s = Some (c, s1)" "ok s1" using enc_total [OF Cons.prems] by blast
  obtain cs s2 where 2: "enc_all ps s1 = Some (cs, s2)" "dec_all cs s1 = Some (ps, s2)" using Cons.IH [OF 1(2)] by blast
  show ?case using 1(1) 2 dec_enc [OF Cons.prems 1(1)] by simp
qed simp

end

section \<open>The cipher provides it\<close>

definition cipher_ok :: "symmetric_cipher \<Rightarrow> bool" where
  "cipher_ok s \<longleftrightarrow> length (mPad s) = 16 \<and> mPadLen s \<le> 16"

text \<open>The block function maps every block to a block, as a block cipher does.\<close>

definition block_fun :: "(mem \<Rightarrow> mem) \<Rightarrow> bool" where
  "block_fun f \<longleftrightarrow> (\<forall>b. length (f b) = 16)"

lemma nextPad_ok: "cipher_ok s \<Longrightarrow> block_fun (mSymmetricKey s) \<Longrightarrow> cipher_ok (nextPad s) \<and> mPadLen (nextPad s) < 16"
  by (auto simp: cipher_ok_def nextPad_def BlockSize_def block_fun_def)

lemma nextPad_key [simp]: "mSymmetricKey (nextPad s) = mSymmetricKey s"
  by (simp add: nextPad_def)

lemma encrypt_total:
  "cipher_ok s \<Longrightarrow> block_fun (mSymmetricKey s) \<Longrightarrow>
   \<exists>cs s'. encrypt ps s = Some (cs, s') \<and> cipher_ok s' \<and> block_fun (mSymmetricKey s') \<and> length cs = length ps"
proof (induction ps arbitrary: s)
  case (Cons p ps)
  note n = nextPad_ok [OF Cons.prems]
  let ?s = "nextPad s"
  let ?s' = "?s\<lparr>mPad := (mPad ?s)[mPadLen ?s := p XOR mPad ?s ! mPadLen ?s], mPadLen := mPadLen ?s + 1\<rparr>"
  have "cipher_ok ?s'" "block_fun (mSymmetricKey ?s')" using n Cons.prems by (auto simp: cipher_ok_def)
  then obtain cs s' where "encrypt ps ?s' = Some (cs, s')" "cipher_ok s'" "block_fun (mSymmetricKey s')" "length cs = length ps"
    using Cons.IH by blast
  then show ?case using n by (simp add: cipher_ok_def mem_simps Let_def)
qed simp

lemma decrypt_total:
  "cipher_ok s \<Longrightarrow> block_fun (mSymmetricKey s) \<Longrightarrow>
   \<exists>ps s'. decrypt cs s = Some (ps, s') \<and> cipher_ok s' \<and> block_fun (mSymmetricKey s') \<and> length ps = length cs"
proof (induction cs arbitrary: s)
  case (Cons c cs)
  note n = nextPad_ok [OF Cons.prems]
  let ?s = "nextPad s"
  let ?s' = "?s\<lparr>mPad := (mPad ?s)[mPadLen ?s := c], mPadLen := mPadLen ?s + 1\<rparr>"
  have "cipher_ok ?s'" "block_fun (mSymmetricKey ?s')" using n Cons.prems by (auto simp: cipher_ok_def)
  then obtain ps s' where "decrypt cs ?s' = Some (ps, s')" "cipher_ok s'" "block_fun (mSymmetricKey s')" "length ps = length cs"
    using Cons.IH by blast
  then show ?case using n by (simp add: cipher_ok_def mem_simps Let_def)
qed simp

lemma decrypt_encrypt:
  "encrypt ps s = Some (cs, s') \<Longrightarrow> decrypt cs s = Some (ps, s')"
proof (induction ps arbitrary: s cs)
  case (Cons p ps)
  then obtain k pad cs' s1 where "ld (mPad (nextPad s)) (mPadLen (nextPad s)) = Some k"
      "st (mPad (nextPad s)) (mPadLen (nextPad s)) (p XOR k) = Some pad"
      "encrypt ps ((nextPad s)\<lparr>mPad := pad, mPadLen := mPadLen (nextPad s) + 1\<rparr>) = Some (cs', s1)"
      "cs = (p XOR k) # cs'" "s' = s1"
    by (auto simp: Let_def split: Option.bind_splits)
  with Cons.IH show ?case by (simp add: Let_def xor.assoc)
qed simp

interpretation tnl_cipher: stream_cipher "\<lambda>s. cipher_ok s \<and> block_fun (mSymmetricKey s)" encrypt decrypt
  by unfold_locales (use encrypt_total decrypt_total decrypt_encrypt in blast)+

lemma setupCounter_ok:
  "block_fun (mSymmetricKey s) \<Longrightarrow> cipher_ok (setupCounter c1 c2 c3 c4 s) \<and> block_fun (mSymmetricKey (setupCounter c1 c2 c3 c4 s))"
  by (simp add: setupCounter_def Let_def cipher_ok_def block_fun_def)


section \<open>Packets\<close>

text \<open>\<open>n\<close> bytes of a block from offset \<open>i\<close>, when it has them.\<close>

definition slice :: "mem \<Rightarrow> nat \<Rightarrow> nat \<Rightarrow> mem option" where
  "slice m i n = (if i + n \<le> length m then Some (take n (drop i m)) else None)"

lemma slice_in [mem_simps]: "i + n \<le> length m \<Longrightarrow> slice m i n = Some (take n (drop i m))"
  by (simp add: slice_def)

text \<open>The digest as the source computes it; the state object on the stack holds anything before \<open>init\<close>.\<close>

definition sha256_of :: "(nat \<Rightarrow> u8) \<Rightarrow> mem \<Rightarrow> mem" where
  "sha256_of fresh m = snd (sha256_done (snd (sha256_process (sha256_init (raw_state (malloc fresh 64))) m)))"

lemma sha256_of_eq [simp]: "sha256_of fresh m = sha256 m"
  using sha256_one [of "raw_state (malloc fresh 64)" m] by (simp add: sha256_of_def raw_state_def)

definition hashAndEncrypt ::
  "u32 \<Rightarrow> u32 \<Rightarrow> symmetric_cipher \<Rightarrow> bit_stream \<Rightarrow> (bit_stream \<times> symmetric_cipher) option" where
  "hashAndEncrypt hashDigestSize encryptStartOffset theCipher bs = do {
     let digestStart = getBytePosition bs;
     let bs = setBytePosition digestStart bs;
     msg \<leftarrow> rd (mDataPtr bs) (unat digestStart);
     let hash = sha256_of (mFresh bs) msg;
     (_, bs) \<leftarrow> writeBytes hashDigestSize hash bs;
     plain \<leftarrow> slice (mDataPtr bs) (unat encryptStartOffset) (unat (getBytePosition bs - encryptStartOffset));
     (cipherText, theCipher) \<leftarrow> encrypt plain theCipher;
     m \<leftarrow> memcpy (mDataPtr bs) (unat encryptStartOffset) cipherText;
     Some (bs\<lparr>mDataPtr := m\<rparr>, theCipher) }"

definition decryptAndCheckHash ::
  "u32 \<Rightarrow> u32 \<Rightarrow> symmetric_cipher \<Rightarrow> bit_stream \<Rightarrow> (bool \<times> bit_stream \<times> symmetric_cipher) option" where
  "decryptAndCheckHash hashDigestSize decryptStartOffset theCipher bs =
     (let bufferSize = mBufSize bs in
      if bufferSize < decryptStartOffset + hashDigestSize then Some (False, bs, theCipher)
      else do {
        cipherText \<leftarrow> slice (mDataPtr bs) (unat decryptStartOffset) (unat (bufferSize - decryptStartOffset));
        (plain, theCipher) \<leftarrow> decrypt cipherText theCipher;
        m \<leftarrow> memcpy (mDataPtr bs) (unat decryptStartOffset) plain;
        let bs = bs\<lparr>mDataPtr := m\<rparr>;
        msg \<leftarrow> rd m (unat (bufferSize - hashDigestSize));
        hash \<leftarrow> rd (sha256_of (mFresh bs) msg) (unat hashDigestSize);
        digest \<leftarrow> slice m (unat (bufferSize - hashDigestSize)) (unat hashDigestSize);
        if digest = hash then Some (True, snd (resize (bufferSize - hashDigestSize) bs), theCipher)
        else Some (False, bs, theCipher) })"

lemma unat_of_nat_u32: "n < 2 ^ 32 \<Longrightarrow> unat (of_nat n :: u32) = n"
  by (simp only: unat_of_nat) (simp add: take_bit_nat_eq_self)

lemma digest_write:
  assumes dsize: "unat dsize \<le> 32" and ok: "stream_ok bs" and d: "bitNum bs = push_bit 3 n" "unat n < 2 ^ 28"
    and room: "8 * (unat n + unat dsize) \<le> unat (maxWriteBitNum bs)" and h: "length h = 32"
  shows "writeBytes dsize h bs = Some (True, append_bits (get_bits h 0 (8 * unat dsize)) bs)"
proof -
  have u: "unat (push_bit 3 dsize) = 8 * unat dsize"
    using dsize by (simp add: push_bit_eq_mult unat_word_ariths)
  have "unat (bitNum bs) = 8 * unat n" using d by (simp add: push_bit_eq_mult unat_word_ariths)
  then have "can_write bs (unat (push_bit 3 dsize))" using room ok u by (simp add: can_write_def)
  then show ?thesis using writeBits_fits [of bs "push_bit 3 dsize" h] u dsize h by (simp add: writeBytes_def)
qed

lemma put_bits_bytes:
  assumes "n + k \<le> length m" and "k \<le> length h"
  shows "put_bits m (8 * n) (get_bits h 0 (8 * k)) = take n m @ take k h @ drop (n + k) m"
proof (rule mem_eqI)
  show "length (put_bits m (8 * n) (get_bits h 0 (8 * k))) = length (take n m @ take k h @ drop (n + k) m)"
    using assms by simp
  fix p assume p: "p < 8 * length (put_bits m (8 * n) (get_bits h 0 (8 * k)))"
  have "p div 8 < length m" using p by (simp add: less_mult_imp_div_less mult.commute)
  moreover consider "p < 8 * n" | "8 * n \<le> p" "p < 8 * (n + k)" | "8 * (n + k) \<le> p" by linarith
  then have "bit_at (take n m @ take k h @ drop (n + k) m) p =
      (if 8 * n \<le> p \<and> p < 8 * n + 8 * k then bit_at h (p - 8 * n) else bit_at m p)"
  proof cases
    case 1
    then have "p div 8 < n" by linarith
    then show ?thesis using 1 assms by (simp add: bit_at_def nth_append)
  next
    case 2
    define q where "q = p - 8 * n"
    have q: "p = 8 * n + q" "q < 8 * k" "q div 8 < k" using 2 by (auto simp: q_def less_mult_imp_div_less mult.commute)
    then have "p div 8 = n + q div 8" "p mod 8 = q mod 8" by simp_all
    then show ?thesis using q assms by (simp add: bit_at_def nth_append)
  next
    case 3
    then have "n + k \<le> p div 8" by (simp add: less_eq_div_iff_mult_less_eq mult.commute)
    then have "\<not> p div 8 < n" "\<not> p div 8 - n < k" "n + k + (p div 8 - n - k) = p div 8" by linarith+
    then show ?thesis using 3 assms by (simp add: bit_at_def nth_append)
  qed
  ultimately show "bit_at (put_bits m (8 * n) (get_bits h 0 (8 * k))) p = bit_at (take n m @ take k h @ drop (n + k) m) p"
    using assms by (auto simp: bit_view get_bits_def)
qed


definition cipher_ready :: "symmetric_cipher \<Rightarrow> bool" where
  "cipher_ready s \<longleftrightarrow> cipher_ok s \<and> block_fun (mSymmetricKey s)"

lemma hashAndEncrypt_seals:
  assumes ok: "stream_ok bs" and s: "cipher_ready s" and dsize: "unat dsize \<le> 32"
    and d: "unat (getBytePosition bs) = d" "d < 2 ^ 28" "unat off \<le> d"
    and room: "8 * (d + unat dsize) \<le> unat (maxWriteBitNum bs)"
    and p: "p = take d (mDataPtr bs)"
  shows "\<exists>ct s' bs'. hashAndEncrypt dsize off s bs = Some (bs', s') \<and> cipher_ready s' \<and>
    encrypt (drop (unat off) p @ take (unat dsize) (sha256 p)) s = Some (ct, s') \<and>
    length ct = d - unat off + unat dsize \<and>
    bs' = bs\<lparr>bitNum := of_nat (8 * (d + unat dsize)),
             mDataPtr := take (unat off) p @ ct @ drop (d + unat dsize) (mDataPtr bs)\<rparr>"
proof -
  let ?m = "mDataPtr bs" and ?o = "unat off" and ?k = "unat dsize"
  have lm: "d + ?k \<le> length ?m" using ok room by (simp add: stream_ok_def)
  define b1 where "b1 = setBytePosition (getBytePosition bs) bs"
  have b1: "mDataPtr b1 = ?m" "bitNum b1 = push_bit 3 (getBytePosition bs)" "stream_ok b1" "maxWriteBitNum b1 = maxWriteBitNum bs"
    using ok by (simp_all add: b1_def setBytePosition_def stream_ok_def)
  have bn: "bitNum b1 = of_nat (8 * d)" "unat (bitNum b1) = 8 * d"
    using b1(2) d by (simp_all add: push_bit_eq_mult flip: d(1)) (simp add: unat_word_ariths)
  define b2 where "b2 = append_bits (get_bits (sha256 p) 0 (8 * ?k)) b1"
  have w: "writeBytes dsize (sha256 p) b1 = Some (True, b2)"
    using digest_write [OF dsize b1(3) b1(2), of "sha256 p"] d room b1(4) by (simp add: b2_def)
  have m2: "mDataPtr b2 = p @ take ?k (sha256 p) @ drop (d + ?k) ?m"
    using put_bits_bytes [of d ?k ?m "sha256 p"] lm dsize by (simp add: b2_def append_bits_def b1(1) bn(2) p)
  have pos: "bitNum b2 = of_nat (8 * (d + ?k))" by (simp add: b2_def append_bits_def bn(1))
  have lp: "length p = d" using lm p by simp
  have u: "unat (of_nat (8 * (d + ?k)) :: u32) = 8 * (d + ?k)"
    using d(2) dsize by (intro unat_of_nat_u32) simp
  have "unat (of_nat (8 * (d + ?k)) + 7 :: u32) = 8 * (d + ?k) + 7"
    using d(2) dsize u unat_plus_small [of "of_nat (8 * (d + ?k))" 7] by simp
  then have gp: "unat (getBytePosition b2) = d + ?k"
    by (simp add: getBytePosition_def pos unat_drop_bit_eq drop_bit_eq_div unat_div)
  then have n: "unat (getBytePosition b2 - off) = d + ?k - ?o"
    using d(3) by (subst unat_sub) (simp_all add: word_le_nat_alt)
  let ?plain = "drop ?o p @ take ?k (sha256 p)"
  have sl: "slice (mDataPtr b2) ?o (unat (getBytePosition b2 - off)) = Some ?plain"
    using lp lm d(3) dsize by (simp add: slice_def n m2)
  obtain ct s' where e: "encrypt ?plain s = Some (ct, s')" "cipher_ready s'" "length ct = length ?plain"
    using encrypt_total [of s ?plain] s by (auto simp: cipher_ready_def)
  have lc: "length ct = d - ?o + ?k" using e(3) lp dsize by simp
  have mc: "memcpy (mDataPtr b2) ?o ct = Some (take ?o p @ ct @ drop (d + ?k) ?m)"
    using lc lp lm d(3) dsize by (simp add: memcpy_eq m2)
  have "rd (mDataPtr b1) (unat (getBytePosition bs)) = Some p" using lm d(1) by (simp add: rd_def b1(1) p)
  moreover have "b2\<lparr>mDataPtr := x\<rparr> = bs\<lparr>bitNum := of_nat (8 * (d + ?k)), mDataPtr := x\<rparr>" for x
    using pos by (simp add: b2_def append_bits_def b1_def setBytePosition_def)
  ultimately have "hashAndEncrypt dsize off s bs = Some (bs\<lparr>bitNum := of_nat (8 * (d + ?k)),
      mDataPtr := take ?o p @ ct @ drop (d + ?k) ?m\<rparr>, s')"
    using w sl e(1) mc by (simp add: hashAndEncrypt_def Let_def b1_def [symmetric])
  then show ?thesis using e lc by blast
qed

lemma decryptAndCheckHash_opens:
  assumes e: "encrypt (drop (unat off) p @ take (unat dsize) (sha256 p)) s = Some (ct, s')"
    and off: "unat off \<le> length p" and dsize: "unat dsize \<le> 32" and len: "length p + unat dsize < 2 ^ 32"
    and m: "mDataPtr bs = take (unat off) p @ ct @ rest" and sz: "unat (mBufSize bs) = length p + unat dsize"
    and lc: "length ct = length p - unat off + unat dsize"
  shows "\<exists>bs'. decryptAndCheckHash dsize off s bs = Some (True, bs', s') \<and> unat (mBufSize bs') = length p \<and>
    mDataPtr bs' = p @ take (unat dsize) (sha256 p) @ rest \<and> bitNum bs' = bitNum bs \<and> error bs' = error bs \<and>
    maxReadBitNum bs' = maxReadBitNum bs"
proof -
  let ?o = "unat off" and ?k = "unat dsize"
  have so: "unat (off + dsize) = ?o + ?k" using off len by (simp add: unat_word_ariths)
  have ge: "\<not> mBufSize bs < off + dsize" using so sz off by (simp add: word_less_nat_alt)
  have n1: "unat (mBufSize bs - off) = length p + ?k - ?o"
    using sz off by (subst unat_sub) (simp_all add: word_le_nat_alt)
  have n2: "unat (mBufSize bs - dsize) = length p"
    using sz by (subst unat_sub) (simp_all add: word_le_nat_alt)
  have sl: "slice (mDataPtr bs) ?o (unat (mBufSize bs - off)) = Some ct"
    using off lc by (simp add: slice_def n1 m)
  have mc: "memcpy (mDataPtr bs) ?o (drop ?o p @ take ?k (sha256 p)) = Some (p @ take ?k (sha256 p) @ rest)"
    using off lc dsize by (simp add: memcpy_eq m)
  have "decryptAndCheckHash dsize off s bs =
      Some (True, snd (resize (mBufSize bs - dsize) (bs\<lparr>mDataPtr := p @ take ?k (sha256 p) @ rest\<rparr>)), s')"
    using ge sl mc decrypt_encrypt [OF e] dsize
    by (simp add: decryptAndCheckHash_def Let_def rd_def slice_def n2)
  moreover have "mBufSize bs - dsize \<le> mBufSize bs" using n2 sz by (simp add: word_le_nat_alt)
  ultimately show ?thesis using n2 by (simp add: resize_def)
qed

text \<open>An accepted packet carries the digest of its own contents behind them.\<close>

lemma decryptAndCheckHash_accepts:
  assumes "decryptAndCheckHash dsize off s bs = Some (True, bs', s')" and "unat dsize \<le> unat (mBufSize bs)"
  shows "unat (mBufSize bs') = unat (mBufSize bs) - unat dsize \<and>
    slice (mDataPtr bs') (unat (mBufSize bs')) (unat dsize) = Some (take (unat dsize) (sha256 (contents bs')))"
proof -
  have n: "unat (mBufSize bs - dsize) = unat (mBufSize bs) - unat dsize"
    using assms(2) by (subst unat_sub) (simp_all add: word_le_nat_alt)
  have le: "mBufSize bs - dsize \<le> mBufSize bs" using n by (simp add: word_le_nat_alt)
  show ?thesis using assms(1) le
    by (auto simp: decryptAndCheckHash_def Let_def resize_def contents_def n rd_def split: if_splits Option.bind_splits)
qed

section \<open>Sealing and opening always return\<close>

lemma writeBytes_full:
  assumes own: "\<not> mOwnsMemory bs" and full: "unat (maxWriteBitNum bs) < unat (bitNum bs) + 8 * unat n"
    and n: "0 < unat n" "unat n < 2 ^ 20" "unat (bitNum bs) < 2 ^ 31"
  shows "\<exists>k. writeBytes n src bs = Some (False, bs\<lparr>mBufSize := k, error := True\<rparr>)"
proof -
  have u: "unat (push_bit 3 n) = 8 * unat n" using n by (simp add: push_bit_eq_mult unat_word_ariths)
  then have nz: "push_bit 3 n \<noteq> 0" using n(1) by auto
  have "unat (push_bit 3 n + bitNum bs) = 8 * unat n + unat (bitNum bs)" using n u by (simp add: unat_word_ariths)
  then have gt: "push_bit 3 n + bitNum bs > maxWriteBitNum bs" using full by (simp add: word_less_nat_alt)
  have same: "\<exists>k. b\<lparr>error := True\<rparr> = b\<lparr>mBufSize := k, error := True\<rparr>" for b :: bit_stream
    by (rule exI [of _ "mBufSize b"]) simp
  show ?thesis
    using own gt nz same by (auto simp: writeBytes_def writeBits_def ensureBits_def resizeBits_def resize_def Let_def split: if_splits)
qed

lemma bytePosition_bound: "unat (bitNum bs) \<le> 8 * k \<Longrightarrow> k < 2 ^ 28 \<Longrightarrow> unat (getBytePosition bs) \<le> k"
proof -
  assume b: "unat (bitNum bs) \<le> 8 * k" "k < 2 ^ 28"
  then have "unat (bitNum bs + 7) = unat (bitNum bs) + 7" using unat_plus_small [of "bitNum bs" 7] by simp
  then show ?thesis using b unfolding getBytePosition_def unat_drop_bit_eq by (simp add: drop_bit_eq_div)
qed

text \<open>Sealing returns whatever the packet holds, also when the signature no longer fits.\<close>

lemma hashAndEncrypt_total:
  assumes ok: "stream_ok bs" "\<not> mOwnsMemory bs" and s: "cipher_ready s" and dsize: "0 < unat dsize" "unat dsize \<le> 32"
    and d: "unat (getBytePosition bs) = d" "unat off \<le> d" "d \<le> length (mDataPtr bs)" and len: "length (mDataPtr bs) < 2 ^ 27"
  shows "\<exists>bs' s'. hashAndEncrypt dsize off s bs = Some (bs', s') \<and> cipher_ready s' \<and>
    unat (getBytePosition bs') \<le> length (mDataPtr bs')"
proof (cases "8 * (d + unat dsize) \<le> unat (maxWriteBitNum bs)")
  case True
  have dk: "d + unat dsize \<le> length (mDataPtr bs)" using True ok by (simp add: stream_ok_def)
  from hashAndEncrypt_seals [OF ok(1) s dsize(2) d(1) _ d(2) True refl] len d(3)
  obtain ct s' bs' where h: "hashAndEncrypt dsize off s bs = Some (bs', s')" "cipher_ready s'"
      "length ct = d - unat off + unat dsize"
      "bs' = bs\<lparr>bitNum := of_nat (8 * (d + unat dsize)),
             mDataPtr := take (unat off) (take d (mDataPtr bs)) @ ct @ drop (d + unat dsize) (mDataPtr bs)\<rparr>"
    by auto
  have u: "unat (of_nat (8 * (d + unat dsize)) :: u32) = 8 * (d + unat dsize)"
    using dk len by (intro unat_of_nat_u32) simp
  have "bitNum bs' = of_nat (8 * (d + unat dsize))" unfolding h(4) by simp
  then have "unat (bitNum bs') = 8 * (d + unat dsize)" using u by (simp only:)
  then have "unat (getBytePosition bs') \<le> d + unat dsize" using dk len by (intro bytePosition_bound) simp_all
  then show ?thesis using h dk d by auto
next
  case False
  let ?b = "setBytePosition (getBytePosition bs) bs"
  have n: "unat (bitNum ?b) = 8 * d"
    using d len by (simp add: setBytePosition_def push_bit_eq_mult unat_word_ariths flip: d(1))
  obtain k where w: "writeBytes dsize (sha256 (take d (mDataPtr bs))) ?b = Some (False, ?b\<lparr>mBufSize := k, error := True\<rparr>)"
    using writeBytes_full [of ?b dsize] ok(2) False n dsize d len by (auto simp: setBytePosition_def)
  let ?b1 = "?b\<lparr>mBufSize := k, error := True\<rparr>"
  have "unat (bitNum ?b + 7) = 8 * d + 7" using n d len unat_plus_small [of "bitNum ?b" 7] by simp
  then have p1: "unat (getBytePosition ?b1) = d"
    unfolding getBytePosition_def unat_drop_bit_eq by (simp add: drop_bit_eq_div)
  then have n1: "unat (getBytePosition ?b1 - off) = d - unat off"
    using d by (subst unat_sub) (simp_all add: word_le_nat_alt)
  let ?plain = "take (d - unat off) (drop (unat off) (mDataPtr bs))"
  obtain ct s' where e: "encrypt ?plain s = Some (ct, s')" "cipher_ready s'" "length ct = length ?plain"
    using encrypt_total [of s ?plain] s by (auto simp: cipher_ready_def)
  have m: "memcpy (mDataPtr bs) (unat off) ct = Some (take (unat off) (mDataPtr bs) @ ct @ drop (unat off + length ct) (mDataPtr bs))"
    using e d by (simp add: memcpy_eq)
  have "hashAndEncrypt dsize off s bs = Some (?b1\<lparr>mDataPtr := take (unat off) (mDataPtr bs) @ ct @ drop (unat off + length ct) (mDataPtr bs)\<rparr>, s')"
    using w e m n1 d by (simp add: hashAndEncrypt_def Let_def rd_def setBytePosition_def slice_def)
  moreover have "getBytePosition (?b1\<lparr>mDataPtr := x\<rparr>) = getBytePosition ?b1" for x by (simp add: getBytePosition_def)
  ultimately show ?thesis using e d p1 by simp
qed

lemma decryptAndCheckHash_total:
  assumes s: "cipher_ready s" and b: "unat (mBufSize bs) \<le> length (mDataPtr bs)" and dsize: "unat dsize \<le> 32"
    and off: "unat off < 2 ^ 20"
  shows "\<exists>r bs' s'. decryptAndCheckHash dsize off s bs = Some (r, bs', s') \<and> cipher_ready s' \<and>
    length (mDataPtr bs') = length (mDataPtr bs) \<and> bitNum bs' = bitNum bs \<and> maxReadBitNum bs' = maxReadBitNum bs \<and>
    maxWriteBitNum bs' = maxWriteBitNum bs \<and> mStringBuffer bs' = mStringBuffer bs"
proof (cases "mBufSize bs < off + dsize")
  case True
  then show ?thesis using s by (auto simp: decryptAndCheckHash_def)
next
  case False
  have so: "unat (off + dsize) = unat off + unat dsize" using off dsize by (simp add: unat_word_ariths)
  then have ge: "unat off + unat dsize \<le> unat (mBufSize bs)" using False by (simp add: word_less_nat_alt)
  have n1: "unat (mBufSize bs - off) = unat (mBufSize bs) - unat off"
    and n2: "unat (mBufSize bs - dsize) = unat (mBufSize bs) - unat dsize"
    using ge by (simp_all add: unat_sub word_le_nat_alt)
  let ?c = "take (unat (mBufSize bs) - unat off) (drop (unat off) (mDataPtr bs))"
  obtain ps s' where d: "decrypt ?c s = Some (ps, s')" "cipher_ready s'" "length ps = length ?c"
    using decrypt_total [of s ?c] s by (auto simp: cipher_ready_def)
  let ?m = "take (unat off) (mDataPtr bs) @ ps @ drop (unat off + length ps) (mDataPtr bs)"
  have m: "memcpy (mDataPtr bs) (unat off) ps = Some ?m" and lm: "length ?m = length (mDataPtr bs)"
    using d ge b by (simp_all add: memcpy_eq)
  have "mBufSize bs - dsize \<le> mBufSize bs" using n2 by (simp add: word_le_nat_alt)
  then show ?thesis
    using False d m lm ge b dsize by (auto simp: decryptAndCheckHash_def Let_def slice_def rd_def n1 n2 resize_def)
qed

end
