(* ===== verification/Asymmetric_Key.thy ===== *)
theory Asymmetric_Key
  imports Symmetric_Cipher
begin

text \<open>
  \<^verbatim>\<open>tnl/asymmetricKey.cpp\<close> and \<^verbatim>\<open>tnl/certificate.cpp\<close>: key pairs, the secret two of them share, and certificates. The elliptic curves
  of libtomcrypt are the functions of \<open>ecc_ops\<close>, an \<^verbatim>\<open>ecc_key\<close> the bytes of its own form; \<open>None\<close> is a failure they report.
  \<^verbatim>\<open>staticCryptoBuffer\<close> is shared by all keys, so an operation takes its bytes and returns them. A null key given to libtomcrypt is
  a fault, which stops the program.
\<close>

section \<open>Key pairs\<close>

record ecc_ops =
  ecc_make_key :: "u32 \<Rightarrow> mem option"
  ecc_import :: "mem \<Rightarrow> mem option"
  ecc_export :: "bool \<Rightarrow> mem \<Rightarrow> mem option"  \<comment> \<open>of the private or the public half\<close>
  ecc_shared_secret :: "mem \<Rightarrow> mem \<Rightarrow> mem option"
  ecc_sign_hash :: "mem \<Rightarrow> mem \<Rightarrow> mem"
  ecc_verify_hash :: "mem \<Rightarrow> mem \<Rightarrow> mem \<Rightarrow> bool"

text \<open>The fields \<open>publicHalf\<close> and \<open>privateHalf\<close> are the class's \<^verbatim>\<open>mPublicKey\<close> and \<^verbatim>\<open>mPrivateKey\<close>.\<close>

record asymmetric_key =
  mKeyData :: "mem option"
  mKeySize :: u32
  mHasPrivateKey :: bool
  publicHalf :: "mem option"
  privateHalf :: "mem option"
  mKeyIsValid :: bool

definition KeyTypePrivate :: u8 where "KeyTypePrivate = 0"
definition KeyTypePublic :: u8 where "KeyTypePublic = 1"
definition DefaultBufferSize :: u32 where "DefaultBufferSize = 1500"
definition StaticCryptoBufferSize :: nat where "StaticCryptoBufferSize = 2048"

definition putAt :: "nat \<Rightarrow> mem \<Rightarrow> mem \<Rightarrow> mem" where
  "putAt i m b = take i b @ m @ drop (i + length m) b"

text \<open>\<^verbatim>\<open>crypto_export\<close> behind the five bytes of the head; on failure the length stays as it was set.\<close>

definition exportHalf :: "ecc_ops \<Rightarrow> bool \<Rightarrow> mem \<Rightarrow> mem \<Rightarrow> bool \<times> nat \<times> mem" where
  "exportHalf ops private theKey buffer =
     (case ecc_export ops private theKey of
        None \<Rightarrow> (False, StaticCryptoBufferSize - 5, buffer)
      | Some m \<Rightarrow> (True, length m, putAt 5 m buffer))"

definition AsymmetricKey_generate :: "ecc_ops \<Rightarrow> u32 \<Rightarrow> asymmetric_key \<Rightarrow> mem \<Rightarrow> asymmetric_key \<times> mem" where
  "AsymmetricKey_generate ops keySize raw buffer =
     (case ecc_make_key ops keySize of
        None \<Rightarrow> (raw\<lparr>mKeyIsValid := False, publicHalf := None, privateHalf := None\<rparr>, buffer)
      | Some theKey \<Rightarrow>
          let buffer = putAt 1 (writeU32ToBuffer keySize) (putAt 0 [KeyTypePrivate] buffer);
              (_, privateLen, buffer) = exportHalf ops True theKey buffer;
              private = take (privateLen + 5) buffer;
              buffer = putAt 1 (writeU32ToBuffer keySize) (putAt 0 [KeyTypePublic] buffer);
              (_, publicLen, buffer) = exportHalf ops False theKey buffer
          in (\<lparr>mKeyData = Some theKey, mKeySize = keySize, mHasPrivateKey = True,
               publicHalf = Some (take (publicLen + 5) buffer), privateHalf = Some private, mKeyIsValid = True\<rparr>, buffer))"

text \<open>
  \<^verbatim>\<open>load\<close>. For a private key the head of the public half is written as the source writes it, the size at offset 0, over the type.
\<close>

definition AsymmetricKey_load ::
  "ecc_ops \<Rightarrow> 'a byte_buffer_scheme \<Rightarrow> asymmetric_key \<Rightarrow> mem \<Rightarrow> (asymmetric_key \<times> mem) option" where
  "AsymmetricKey_load ops theBuffer raw buffer = do {
     keyType \<leftarrow> ld (mDataPtr theBuffer) 0;
     let key = raw\<lparr>mKeyIsValid := False, mHasPrivateKey := (keyType = KeyTypePrivate), publicHalf := None, privateHalf := None\<rparr>;
     if unat (mBufSize theBuffer) < 5 then Some (key, buffer)
     else do {
       keySize \<leftarrow> readU32FromBuffer (drop 1 (mDataPtr theBuffer));
       packet \<leftarrow> slice (mDataPtr theBuffer) 5 (unat (mBufSize theBuffer) - 5);
       let key = key\<lparr>mKeySize := keySize\<rparr>;
       case ecc_import ops packet of
         None \<Rightarrow> Some (key, buffer)
       | Some theKey \<Rightarrow>
           let key = key\<lparr>mKeyData := Some theKey\<rparr> in
           if mHasPrivateKey key then
             let buffer = putAt 0 (writeU32ToBuffer keySize) (putAt 0 [KeyTypePublic] buffer);
                 (ok, bufferLen, buffer) = exportHalf ops False theKey buffer
             in if \<not> ok then Some (key, buffer)
                else Some (key\<lparr>publicHalf := Some (take (bufferLen + 5) buffer), privateHalf := Some (contents theBuffer),
                     mKeyIsValid := True\<rparr>, buffer)
           else Some (key\<lparr>publicHalf := Some (contents theBuffer), mKeyIsValid := True\<rparr>, buffer) } }"

text \<open>The key read from a stream, whose \<^verbatim>\<open>mKeyData\<close> the constructor leaves unset; \<^verbatim>\<open>theBuffer\<close> has the default 1500 bytes.\<close>

definition AsymmetricKey_read ::
  "ecc_ops \<Rightarrow> asymmetric_key \<Rightarrow> mem \<Rightarrow> bit_stream \<Rightarrow> (asymmetric_key \<times> mem \<times> bit_stream) option" where
  "AsymmetricKey_read ops raw buffer theStream = do {
     (_, theBuffer, theStream) \<leftarrow> readBuffer (ByteBuffer_alloc (mFresh theStream) DefaultBufferSize) theStream;
     (key, buffer) \<leftarrow> AsymmetricKey_load ops theBuffer raw buffer;
     Some (key, buffer, theStream) }"

text \<open>A null \<^verbatim>\<open>mKeyData\<close> trips the argument check of libtomcrypt. A failed agreement leaves the length, and the whole buffer is hashed.\<close>

definition computeSharedSecretKey ::
  "ecc_ops \<Rightarrow> asymmetric_key \<Rightarrow> asymmetric_key \<Rightarrow> mem \<Rightarrow> (mem option \<times> mem) option" where
  "computeSharedSecretKey ops publicKey key buffer =
     (if mKeySize publicKey \<noteq> mKeySize key \<or> \<not> mHasPrivateKey key then Some (None, buffer)
      else do {
        ours \<leftarrow> mKeyData key;
        theirs \<leftarrow> mKeyData publicKey;
        let (outLen, buffer) = (case ecc_shared_secret ops ours theirs of
              None \<Rightarrow> (length buffer, buffer) | Some m \<Rightarrow> (length m, putAt 0 m buffer));
        Some (Some (sha256_of (\<lambda>_. 0) (take outLen buffer)), buffer) })"

definition hashAndSign :: "ecc_ops \<Rightarrow> mem \<Rightarrow> asymmetric_key \<Rightarrow> mem option" where
  "hashAndSign ops m key = map_option (ecc_sign_hash ops (sha256_of (\<lambda>_. 0) m)) (mKeyData key)"

definition verifySignature :: "ecc_ops \<Rightarrow> mem \<Rightarrow> mem \<Rightarrow> asymmetric_key \<Rightarrow> bool option" where
  "verifySignature ops m theSignature key = map_option (ecc_verify_hash ops theSignature (sha256_of (\<lambda>_. 0) m)) (mKeyData key)"

section \<open>Certificates\<close>

text \<open>\<open>certBytes\<close> is the buffer a certificate is.\<close>

record certificate =
  certBytes :: mem
  mPayload :: mem
  certKey :: "asymmetric_key option"
  mSignature :: mem
  mSignatureByteSize :: u32
  mCertIsValid :: bool

definition MaxPayloadSize :: nat where "MaxPayloadSize = 512"

text \<open>A read into \<^verbatim>\<open>new ByteBuffer(0)\<close>: the buffer's bytes after it.\<close>

definition readInto :: "(nat \<Rightarrow> u8) \<Rightarrow> bit_stream \<Rightarrow> (mem \<times> bit_stream) option" where
  "readInto fresh bs = map_option (\<lambda>(_, b, bs). (contents b, bs)) (readBuffer (ByteBuffer_alloc fresh 0) bs)"

definition Certificate_parse :: "ecc_ops \<Rightarrow> asymmetric_key \<Rightarrow> mem \<Rightarrow> byte_buffer \<Rightarrow> mem \<Rightarrow> (certificate \<times> mem) option" where
  "Certificate_parse ops raw strings cert buffer = do {
     let aStream = BitStream_new (mFresh cert) strings (mDataPtr cert) (mBufSize cert) (mBufSize cert);
     (payload, aStream) \<leftarrow> readInto (mFresh cert) aStream;
     (key, buffer, aStream) \<leftarrow> AsymmetricKey_read ops raw buffer aStream;
     let signatureByteSize = getBytePosition aStream;
     let aStream = setBytePosition (getBytePosition aStream) aStream;
     (signature, aStream) \<leftarrow> readInto (mFresh cert) aStream;
     Some (\<lparr>certBytes = contents cert, mPayload = payload, certKey = Some key, mSignature = signature,
            mSignatureByteSize = signatureByteSize,
            mCertIsValid = (isValid aStream \<and> mBufSize cert = getBytePosition aStream \<and> mKeyIsValid key)\<rparr>, buffer) }"

text \<open>From a stream: \<^verbatim>\<open>Certificate(BitStream *)\<close>, the buffer being the default one.\<close>

definition Certificate_read ::
  "ecc_ops \<Rightarrow> asymmetric_key \<Rightarrow> mem \<Rightarrow> bit_stream \<Rightarrow> (certificate \<times> mem \<times> bit_stream) option" where
  "Certificate_read ops raw buffer stream = do {
     (_, cert, stream) \<leftarrow> readBuffer (ByteBuffer_alloc (mFresh stream) DefaultBufferSize) stream;
     (c, buffer) \<leftarrow> Certificate_parse ops raw (mStringBuffer stream) cert buffer;
     Some (c, buffer, stream) }"

definition Certificate_validate :: "ecc_ops \<Rightarrow> asymmetric_key \<Rightarrow> certificate \<Rightarrow> bool option" where
  "Certificate_validate ops signatoryPublicKey c =
     (if \<not> mCertIsValid c then Some False
      else do {
        signedBytes \<leftarrow> rd (certBytes c) (unat (mSignatureByteSize c));
        verifySignature ops signedBytes (mSignature c) signatoryPublicKey })"

text \<open>\<open>packet\<close> is the fresh \<^verbatim>\<open>PacketStream\<close> of the constructor. A certificate made here is not marked valid.\<close>

definition Certificate_new ::
  "ecc_ops \<Rightarrow> mem \<Rightarrow> asymmetric_key \<Rightarrow> asymmetric_key \<Rightarrow> bit_stream \<Rightarrow> certificate option" where
  "Certificate_new ops payload publicKey theCAPrivateKey packet =
     (if length payload > MaxPayloadSize \<or> \<not> mKeyIsValid publicKey
      then Some \<lparr>certBytes = [], mPayload = [], certKey = None, mSignature = [], mSignatureByteSize = 0, mCertIsValid = False\<rparr>
      else do {
        thePublicKey \<leftarrow> publicHalf publicKey;
        packet \<leftarrow> writeData (mFresh packet) payload packet;
        packet \<leftarrow> writeData (mFresh packet) thePublicKey packet;
        let signatureByteSize = getBytePosition packet;
        let packet = setBytePosition signatureByteSize packet;
        theSignedBytes \<leftarrow> rd (mDataPtr packet) (unat signatureByteSize);
        signature \<leftarrow> hashAndSign ops theSignedBytes theCAPrivateKey;
        packet \<leftarrow> writeData (mFresh packet) signature packet;
        bytes \<leftarrow> rd (mDataPtr packet) (unat (getBytePosition packet));
        Some \<lparr>certBytes = bytes, mPayload = [], certKey = None, mSignature = signature,
              mSignatureByteSize = signatureByteSize, mCertIsValid = False\<rparr> })"

section \<open>The head of the public half\<close>

lemma putAt_0: "putAt 0 m b = m @ drop (length m) b"
  by (simp add: putAt_def)

lemma putAt_append: "length a = i \<Longrightarrow> putAt i m (a @ b) = a @ m @ drop (length m) b"
  by (simp add: putAt_def)

lemma length_putAt [simp]: "i + length m \<le> length b \<Longrightarrow> length (putAt i m b) = length b"
  by (simp add: putAt_def)

lemma word_at_1: "readU32FromBuffer (drop 1 (b # writeU32ToBuffer v @ rest)) = Some v"
  by (simp add: readU32_writeU32)

text \<open>The size read one byte too far: three bytes of the size and whatever follows.\<close>

lemma word_shifted: "readU32FromBuffer (drop 1 (writeU32ToBuffer v @ b # rest)) = Some (push_bit 8 v OR ucast b)"
proof -
  have "push_bit 24 (ucast (ucast (drop_bit 16 v) :: u8)) OR push_bit 16 (ucast (ucast (drop_bit 8 v) :: u8)) OR
      push_bit 8 (ucast (ucast v :: u8)) OR ucast b = (push_bit 8 v OR ucast b :: u32)"
  proof (rule bit_word_eqI)
    fix n :: nat
    consider "n < 8" | "8 \<le> n" "n < 16" | "16 \<le> n" "n < 24" | "24 \<le> n" by linarith
    then show "bit (push_bit 24 (ucast (ucast (drop_bit 16 v) :: u8)) OR push_bit 16 (ucast (ucast (drop_bit 8 v) :: u8)) OR
      push_bit 8 (ucast (ucast v :: u8)) OR ucast b :: u32) n = bit (push_bit 8 v OR ucast b :: u32) n"
      by cases (simp_all add: bit_simps, (auto dest: bit_u8_lt)+)
  qed
  then show ?thesis by (simp add: readU32FromBuffer_def writeU32ToBuffer_def mem_simps)
qed

lemma shifted_size:
  assumes "0 < v" and "v < 2 ^ 24"
  shows "push_bit 8 v OR ucast (b :: u8) \<noteq> (v :: u32)"
proof
  assume e: "push_bit 8 v OR ucast b = v"
  have "drop_bit 8 (push_bit 8 v OR ucast b) = take_bit 24 v"
  proof (rule bit_word_eqI)
    fix n :: nat
    show "bit (drop_bit 8 (push_bit 8 v OR ucast b)) n = bit (take_bit 24 v) n" by (cases "n < 24") (auto simp: bit_simps dest: bit_u8_lt)
  qed
  also have "\<dots> = v" using assms(2) by (simp add: take_bit_word_eq_self word_less_nat_alt word_unat_eq_iff unsigned_take_bit_eq take_bit_nat_eq_self)
  finally have "unat v div 256 = unat v" using e by (simp add: drop_bit_eq_div word_unat_eq_iff unat_div)
  then show False using assms(1) by (simp add: word_less_nat_alt)
qed

lemma exported_half:
  assumes "exportHalf ops private theKey buffer = (True, n, buffer')"
  shows "\<exists>m. ecc_export ops private theKey = Some m \<and> n = length m \<and> buffer' = putAt 5 m buffer"
  using assms by (auto simp: exportHalf_def split: option.splits)

lemma generated_head:
  assumes "AsymmetricKey_generate ops keySize raw buffer = (key, buffer')" and "mKeyIsValid key" and "5 \<le> length buffer"
  shows "\<exists>m. publicHalf key = Some (KeyTypePublic # writeU32ToBuffer keySize @ m)"
proof -
  obtain theKey where t: "ecc_make_key ops keySize = Some theKey"
    using assms(1,2) by (auto simp: AsymmetricKey_generate_def split: option.splits)
  obtain ok n b1 where e1: "exportHalf ops True theKey (putAt 1 (writeU32ToBuffer keySize) (putAt 0 [KeyTypePrivate] buffer)) = (ok, n, b1)"
    by (metis prod_cases3)
  have l1: "5 \<le> length b1" using e1 assms(3) by (auto simp: exportHalf_def putAt_def split: option.splits)
  let ?h = "KeyTypePublic # writeU32ToBuffer keySize"
  have h: "putAt 1 (writeU32ToBuffer keySize) (putAt 0 [KeyTypePublic] b1) = ?h @ drop 5 b1"
    using l1 by (simp add: putAt_def)
  obtain ok' n' b2 where e2: "exportHalf ops False theKey (?h @ drop 5 b1) = (ok', n', b2)" by (metis prod_cases3)
  have "take 5 b2 = ?h" using e2 by (auto simp: exportHalf_def putAt_def split: option.splits)
  then have "take (n' + 5) b2 = ?h @ drop 5 (take (n' + 5) b2)"
    using append_take_drop_id [of 5 "take (n' + 5) b2"] by simp
  moreover have "publicHalf key = Some (take (n' + 5) b2)"
    using assms(1) t e1 e2 h by (simp add: AsymmetricKey_generate_def Let_def) (elim conjE, drule sym, simp)
  ultimately show ?thesis by (metis append_Cons)
qed

lemma loaded_head:
  assumes "AsymmetricKey_load ops theBuffer raw buffer = Some (key, buffer')" and "mKeyIsValid key" and "mHasPrivateKey key"
    and "5 \<le> length buffer"
  shows "\<exists>m. publicHalf key = Some (writeU32ToBuffer (mKeySize key) @ buffer ! 4 # m)"
proof -
  obtain keyType where k: "ld (mDataPtr theBuffer) 0 = Some keyType" using assms(1) by (auto simp: AsymmetricKey_load_def bind_eq_Some_conv)
  have b: "\<not> unat (mBufSize theBuffer) < 5" using assms(1,2) k by (auto simp: AsymmetricKey_load_def)
  obtain keySize where s: "readU32FromBuffer (drop 1 (mDataPtr theBuffer)) = Some keySize"
    using assms(1) k b by (cases "readU32FromBuffer (drop 1 (mDataPtr theBuffer))") (auto simp: AsymmetricKey_load_def)
  obtain packet where q: "slice (mDataPtr theBuffer) 5 (unat (mBufSize theBuffer) - 5) = Some packet"
    using assms(1) k b s by (cases "slice (mDataPtr theBuffer) 5 (unat (mBufSize theBuffer) - 5)") (auto simp: AsymmetricKey_load_def)
  obtain theKey where t: "ecc_import ops packet = Some theKey"
    using assms(1,2) k b s q by (cases "ecc_import ops packet") (auto simp: AsymmetricKey_load_def)
  have "keyType = KeyTypePrivate"
    using assms(1,3) k b s q t by (cases "keyType = KeyTypePrivate") (auto simp: AsymmetricKey_load_def)
  moreover obtain m where m: "ecc_export ops False theKey = Some m"
    using assms(1,2) k b s q t calculation by (cases "ecc_export ops False theKey") (auto simp: AsymmetricKey_load_def exportHalf_def)
  ultimately have e: "mKeySize key = keySize"
    and p: "publicHalf key = Some (take (length m + 5) (putAt 5 m (putAt 0 (writeU32ToBuffer keySize) (putAt 0 [KeyTypePublic] buffer))))"
    using assms(1) k b s q t by (auto simp: AsymmetricKey_load_def exportHalf_def Let_def)
  have "putAt 0 (writeU32ToBuffer keySize) (putAt 0 [KeyTypePublic] buffer) = (writeU32ToBuffer keySize @ [buffer ! 4]) @ drop 5 buffer"
    using assms(4) Cons_nth_drop_Suc [of 4 buffer] by (simp add: putAt_def)
  then have "putAt 5 m (putAt 0 (writeU32ToBuffer keySize) (putAt 0 [KeyTypePublic] buffer)) =
      (writeU32ToBuffer keySize @ [buffer ! 4]) @ m @ drop (length m) (drop 5 buffer)"
    using putAt_append [of "writeU32ToBuffer keySize @ [buffer ! 4]" 5 m "drop 5 buffer"] by (simp only: length_append length_writeU32ToBuffer) simp
  then show ?thesis using p e by simp
qed

end
