(* ===== verification/String_Table.thy ===== *)
theory String_Table
  imports Byte_Buffer
begin

text \<open>
  \<^verbatim>\<open>tnl/netStringTable.cpp\<close>: the global table that interns strings. A string is its bytes
  without the terminator; the table hands out the index of the node that holds it.

  \<open>mNodeList\<close> is the master list. A slot either points to a node or is on the free list,
  where the code stores the next free index shifted left with the low bit set; 0 ends the
  list. An unset \<open>mBuckets\<close> is the empty list. The memory pool behind the nodes
  (\<^verbatim>\<open>DataChunker\<close>) is not part of the state: \<open>compact\<close> copies every node to a new pool and
  leaves the contents alone, so only its byte counter is kept.
\<close>

section \<open>State\<close>

record st_node =
  masterIndex :: u32
  nextIndex :: u32
  nodeHash :: u32
  stringLen :: u16
  refCount :: u16
  stringData :: mem

datatype node_slot = NodePtr st_node | FreeSlot u32

record string_table =
  mNodeList :: "node_slot list"
  mBuckets :: "u32 list"
  mNumBuckets :: u32
  mNodeListFreeEntry :: u32
  mItemCount :: u32
  mFreeStringDataSize :: u32

definition InitialHashTableSize :: u32 where "InitialHashTableSize = 1237"
definition InitialNodeListSize :: nat where "InitialNodeListSize = 2048"
definition CompactThreshold :: u32 where "CompactThreshold = 32768"
definition sizeof_Node :: u32 where "sizeof_Node = 20"

definition freeCode :: "nat \<Rightarrow> u32" where "freeCode i = push_bit 1 (of_nat i) OR 1"

text \<open>The slots \<open>from ..< to\<close> of a freshly extended master list, the last one ending the free list.\<close>

definition freeSlots :: "nat \<Rightarrow> nat \<Rightarrow> node_slot list" where
  "freeSlots from to = map (\<lambda>i. FreeSlot (if i + 1 = to then 0 else freeCode (i + 1))) [from..<to]"

definition emptyNode :: st_node where
  "emptyNode = \<lparr>masterIndex = 0, nextIndex = 0, nodeHash = 0, stringLen = 0, refCount = 1, stringData = []\<rparr>"

definition string_table_init :: string_table where
  "string_table_init = \<lparr>mNodeList = NodePtr emptyNode # freeSlots 1 InitialNodeListSize,
     mBuckets = replicate (unat InitialHashTableSize) 0, mNumBuckets = InitialHashTableSize,
     mNodeListFreeEntry = freeCode 1, mItemCount = 1, mFreeStringDataSize = 0\<rparr>"

definition string_table_destroy :: "string_table \<Rightarrow> string_table" where
  "string_table_destroy t = t\<lparr>mBuckets := [], mNodeList := []\<rparr>"

definition node_at :: "string_table \<Rightarrow> u32 \<Rightarrow> st_node option" where
  "node_at t i = (case ld (mNodeList t) (unat i) of Some (NodePtr n) \<Rightarrow> Some n | _ \<Rightarrow> None)"

definition set_node :: "u32 \<Rightarrow> st_node \<Rightarrow> string_table \<Rightarrow> string_table option" where
  "set_node i n t = map_option (\<lambda>l. t\<lparr>mNodeList := l\<rparr>) (st (mNodeList t) (unat i) (NodePtr n))"

section \<open>Hashing\<close>

definition dTolower :: "u8 \<Rightarrow> u8" where
  "dTolower c = (if 65 \<le> c \<and> c \<le> 90 then c - 65 + 97 else c)"

definition sgToLowerTable :: "u8 list" where
  "sgToLowerTable = map (\<lambda>i. dTolower (of_nat i) * dTolower (of_nat i)) [0..<256]"

text \<open>The table is indexed with a \<^verbatim>\<open>char\<close>, which is signed: a byte from 128 on reads before it.\<close>

fun hashLoop :: "mem \<Rightarrow> u32 \<Rightarrow> u32 option" where
  "hashLoop [] ret = Some ret"
| "hashLoop (c # cs) ret =
     (if c \<ge> 128 then None
      else do { v \<leftarrow> ld sgToLowerTable (unat c); hashLoop cs (push_bit 1 ret XOR ucast v) })"

definition hashString :: "mem \<Rightarrow> u32 option" where "hashString str = hashLoop str 0"
definition hashStringn :: "mem \<Rightarrow> nat \<Rightarrow> u32 option" where "hashStringn str len = hashLoop (take len str) 0"

section \<open>Looking a string up\<close>

text \<open>
  The comparison of the first \<open>len\<close> characters followed by the test of the character at
  \<open>len\<close>, which lies outside the node when the node's string is shorter.
\<close>

definition sameChars :: "bool \<Rightarrow> mem \<Rightarrow> mem \<Rightarrow> bool" where
  "sameChars caseSens a b = (if caseSens then a = b else map dTolower a = map dTolower b)"

definition matches :: "bool \<Rightarrow> mem \<Rightarrow> nat \<Rightarrow> st_node \<Rightarrow> bool option" where
  "matches caseSens val len n =
     (if sameChars caseSens (take len (stringData n)) (take len val)
      then if length (stringData n) < len then None else Some (length (stringData n) = len)
      else Some False)"

text \<open>A cell that holds an index: a bucket, or the \<open>nextIndex\<close> of a node.\<close>

datatype link = BucketLink nat | NextLink u32

fun get_link :: "string_table \<Rightarrow> link \<Rightarrow> u32 option" where
  "get_link t (BucketLink b) = ld (mBuckets t) b"
| "get_link t (NextLink i) = map_option nextIndex (node_at t i)"

fun set_link :: "link \<Rightarrow> u32 \<Rightarrow> string_table \<Rightarrow> string_table option" where
  "set_link (BucketLink b) v t = map_option (\<lambda>l. t\<lparr>mBuckets := l\<rparr>) (st (mBuckets t) b v)"
| "set_link (NextLink i) v t = do { n \<leftarrow> node_at t i; set_node i (n\<lparr>nextIndex := v\<rparr>) t }"

text \<open>
  The walk along a bucket: the link that points to the first node satisfying the test, or the
  empty link at the end. The walk has fuel, one more than the nodes there are.
\<close>

fun walkChain :: "nat \<Rightarrow> (st_node \<Rightarrow> bool option) \<Rightarrow> string_table \<Rightarrow> link \<Rightarrow> (link \<times> u32) option" where
  "walkChain 0 test t walk = None"
| "walkChain (Suc f) test t walk = do {
     i \<leftarrow> get_link t walk;
     if i = 0 then Some (walk, 0)
     else do {
       n \<leftarrow> node_at t i;
       found \<leftarrow> test n;
       if found then Some (walk, i) else walkChain f test t (NextLink i) } }"

definition bucketOf :: "u32 \<Rightarrow> string_table \<Rightarrow> link option" where
  "bucketOf key t = (if mNumBuckets t = 0 then None else Some (BucketLink (unat (key mod mNumBuckets t))))"

definition walkBucket :: "u32 \<Rightarrow> (st_node \<Rightarrow> bool option) \<Rightarrow> string_table \<Rightarrow> (link \<times> u32) option" where
  "walkBucket key test t = do { b \<leftarrow> bucketOf key t; walkChain (length (mNodeList t) + 1) test t b }"

definition lookup :: "mem \<Rightarrow> bool \<Rightarrow> string_table \<Rightarrow> u32 option" where
  "lookup val caseSens t = do {
     key \<leftarrow> hashString val;
     (_, i) \<leftarrow> walkBucket key (\<lambda>n. Some (sameChars caseSens (stringData n) val)) t;
     Some i }"

definition lookupn :: "mem \<Rightarrow> nat \<Rightarrow> bool \<Rightarrow> string_table \<Rightarrow> u32 option" where
  "lookupn val len caseSens t = do {
     key \<leftarrow> hashStringn val len;
     (_, i) \<leftarrow> walkBucket key (matches caseSens val len) t;
     Some i }"

section \<open>Rehashing\<close>

text \<open>The nodes of one bucket, moved to the front of the list \<open>head\<close>.\<close>

fun reverseChain :: "nat \<Rightarrow> u32 \<Rightarrow> u32 \<Rightarrow> string_table \<Rightarrow> (u32 \<times> string_table) option" where
  "reverseChain 0 walk head t = None"
| "reverseChain (Suc f) walk head t =
     (if walk = 0 then Some (head, t)
      else do {
        n \<leftarrow> node_at t walk;
        t \<leftarrow> set_node walk (n\<lparr>nextIndex := head\<rparr>) t;
        reverseChain f (nextIndex n) walk t })"

fun reverseBuckets :: "u32 list \<Rightarrow> u32 \<Rightarrow> string_table \<Rightarrow> (u32 \<times> string_table) option" where
  "reverseBuckets [] head t = Some (head, t)"
| "reverseBuckets (b # bs) head t = do {
     (head, t) \<leftarrow> reverseChain (length (mNodeList t) + 1) b head t;
     reverseBuckets bs head t }"

fun redistribute :: "nat \<Rightarrow> u32 \<Rightarrow> string_table \<Rightarrow> string_table option" where
  "redistribute 0 walk t = None"
| "redistribute (Suc f) walk t =
     (if walk = 0 then Some t
      else do {
        n \<leftarrow> node_at t walk;
        let b = unat (nodeHash n mod mNumBuckets t);
        old \<leftarrow> ld (mBuckets t) b;
        t \<leftarrow> set_node walk (n\<lparr>nextIndex := old\<rparr>) t;
        bs \<leftarrow> st (mBuckets t) b (masterIndex n);
        redistribute f (nextIndex n) (t\<lparr>mBuckets := bs\<rparr>) })"

definition resizeHashTable :: "u32 \<Rightarrow> string_table \<Rightarrow> string_table option" where
  "resizeHashTable newSize t = do {
     (head, t) \<leftarrow> reverseBuckets (take (unat (mNumBuckets t)) (mBuckets t)) 0 t;
     redistribute (length (mNodeList t) + 1) head
       (t\<lparr>mBuckets := replicate (unat newSize) 0, mNumBuckets := newSize\<rparr>) }"

section \<open>Inserting\<close>

definition growNodeList :: "string_table \<Rightarrow> string_table" where
  "growNodeList t = (let oldNodeListSize = length (mNodeList t); newSize = oldNodeListSize + InitialNodeListSize in
     t\<lparr>mNodeList := mNodeList t @ freeSlots oldNodeListSize newSize, mNodeListFreeEntry := freeCode oldNodeListSize\<rparr>)"

definition freeNext :: "string_table \<Rightarrow> u32 \<Rightarrow> u32 option" where
  "freeNext t i = (case ld (mNodeList t) (unat i) of Some (FreeSlot c) \<Rightarrow> Some c | _ \<Rightarrow> None)"

definition insertn :: "mem \<Rightarrow> nat \<Rightarrow> bool \<Rightarrow> string_table \<Rightarrow> (u32 \<times> string_table) option" where
  "insertn val len caseSens t =
     (if val = [] \<or> len = 0 then Some (0, t)
      else let t = (if mBuckets t = [] then string_table_init else t) in do {
        key \<leftarrow> hashStringn val len;
        (walk, i) \<leftarrow> walkBucket key (matches caseSens val len) t;
        if i \<noteq> 0 then do {
          n \<leftarrow> node_at t i;
          t \<leftarrow> set_node i (n\<lparr>refCount := refCount n + 1\<rparr>) t;
          Some (i, t) }
        else do {
          let t = (if mNodeListFreeEntry t = 0 then growNodeList t else t);
          let index = drop_bit 1 (mNodeListFreeEntry t);
          next \<leftarrow> freeNext t index;
          t \<leftarrow> set_link walk index t;
          t \<leftarrow> set_node index \<lparr>masterIndex = index, nextIndex = 0, nodeHash = key, stringLen = of_nat len,
                refCount = 1, stringData = take len val\<rparr> (t\<lparr>mNodeListFreeEntry := next\<rparr>);
          let t = t\<lparr>mItemCount := mItemCount t + 1\<rparr>;
          t \<leftarrow> (if mItemCount t > 2 * mNumBuckets t then resizeHashTable (4 * mNumBuckets t - 1) t else Some t);
          Some (index, t) } })"

definition insert_string :: "mem \<Rightarrow> bool \<Rightarrow> string_table \<Rightarrow> (u32 \<times> string_table) option" where
  "insert_string val caseSens t = insertn val (length val) caseSens t"

section \<open>References\<close>

definition incRef :: "u32 \<Rightarrow> string_table \<Rightarrow> string_table option" where
  "incRef i t = do { n \<leftarrow> node_at t i; set_node i (n\<lparr>refCount := refCount n + 1\<rparr>) t }"

definition unlink :: "st_node \<Rightarrow> string_table \<Rightarrow> string_table option" where
  "unlink theNode t = do {
     (walk, i) \<leftarrow> walkBucket (nodeHash theNode) (\<lambda>n. Some (masterIndex n = masterIndex theNode)) t;
     if i = 0 then Some t else set_link walk (nextIndex theNode) t }"

definition decRef :: "u32 \<Rightarrow> string_table \<Rightarrow> string_table option" where
  "decRef i t = do {
     n \<leftarrow> node_at t i;
     let n = n\<lparr>refCount := refCount n - 1\<rparr>;
     t \<leftarrow> set_node i n t;
     if refCount n \<noteq> 0 then Some t
     else do {
       t \<leftarrow> unlink n t;
       let t = t\<lparr>mFreeStringDataSize := mFreeStringDataSize t + ucast (stringLen n) + sizeof_Node\<rparr>;
       nodes \<leftarrow> st (mNodeList t) (unat i) (FreeSlot (mNodeListFreeEntry t));
       let t = t\<lparr>mNodeList := nodes, mNodeListFreeEntry := freeCode (unat i)\<rparr>;
       let t = (if mFreeStringDataSize t > CompactThreshold then t\<lparr>mFreeStringDataSize := 0\<rparr> else t);
       let t = t\<lparr>mItemCount := mItemCount t - 1\<rparr>;
       Some (if mItemCount t = 0 then string_table_destroy t else t) } }"

definition getString :: "u32 \<Rightarrow> string_table \<Rightarrow> mem option" where
  "getString i t = (if i = 0 then Some [] else map_option stringData (node_at t i))"

text \<open>\<^verbatim>\<open>StringTableEntry::set\<close>: the entry gives its string up before it takes the new one.\<close>

definition entry_decRef :: "u32 \<Rightarrow> string_table \<Rightarrow> string_table option" where
  "entry_decRef mIndex t = (if mIndex \<noteq> 0 then decRef mIndex t else Some t)"

definition entry_incRef :: "u32 \<Rightarrow> string_table \<Rightarrow> string_table option" where
  "entry_incRef mIndex t = (if mIndex \<noteq> 0 then incRef mIndex t else Some t)"

definition entry_set :: "u32 \<Rightarrow> mem \<Rightarrow> string_table \<Rightarrow> (u32 \<times> string_table) option" where
  "entry_set mIndex val t = do { t \<leftarrow> entry_decRef mIndex t; insert_string val True t }"

definition entry_assign :: "u32 \<Rightarrow> u32 \<Rightarrow> string_table \<Rightarrow> (u32 \<times> string_table) option" where
  "entry_assign mIndex s t = do { t \<leftarrow> entry_decRef mIndex t; t \<leftarrow> entry_incRef s t; Some (s, t) }"

end
