(* ===== verification/Connection_String_Table.thy ===== *)
theory Connection_String_Table
  imports String_Stream String_Table
begin

text \<open>
  \<^verbatim>\<open>tnl/connectionStringTable.cpp\<close>: the cache by which two hosts agree on short numbers for
  strings. The sender gives a string one of 1024 entries, least recently used first; the
  packet that first carries an entry carries the string too, and once the receiver has
  acknowledged such a packet the entry number alone is sent.

  The intrusive lists are lists of entry numbers: \<open>mLRU\<close> runs from the node after
  \<^verbatim>\<open>mLRUHead\<close> to the one before \<^verbatim>\<open>mLRUTail\<close>, \<open>mHashTable\<close> holds each bucket from its first
  node, and a \<^verbatim>\<open>PacketList\<close> is the list of its entries. Strings are indices of the global
  string table, which is passed along. Freeing a \<^verbatim>\<open>PacketEntry\<close> gives no reference back,
  since \<^verbatim>\<open>StringTableEntry\<close> has no destructor.
\<close>

section \<open>State\<close>

definition EntryCount :: nat where "EntryCount = 1024"
definition EntryBitSize :: u8 where "EntryBitSize = 10"

record conn_entry =
  entryString :: u32
  receiveConfirmed :: bool

text \<open>A \<^verbatim>\<open>PacketEntry\<close>: the entry and the string that was set in it.\<close>

type_synonym packet_entry = "nat \<times> u32"

record conn_string_table =
  mEntryTable :: "conn_entry list"
  mHashTable :: "nat list list"
  mRemoteStringTable :: "u32 list"
  mLRU :: "nat list"

definition ConnectionStringTable_new :: conn_string_table where
  "ConnectionStringTable_new =
     \<lparr>mEntryTable = replicate EntryCount \<lparr>entryString = 0, receiveConfirmed = False\<rparr>,
      mHashTable = replicate EntryCount [], mRemoteStringTable = replicate EntryCount 0,
      mLRU = [0..<EntryCount]\<rparr>"

definition pushBack :: "nat \<Rightarrow> conn_string_table \<Rightarrow> conn_string_table" where
  "pushBack e c = c\<lparr>mLRU := remove1 e (mLRU c) @ [e]\<rparr>"

definition hashIndex :: "u32 \<Rightarrow> nat" where
  "hashIndex s = unat s mod EntryCount"

section \<open>Sending\<close>

text \<open>The entry for a string: the one that has it, or the least recently used one, set anew.\<close>

definition findEntry :: "u32 \<Rightarrow> conn_string_table \<Rightarrow> nat option" where
  "findEntry s c = find (\<lambda>e. entryString (mEntryTable c ! e) = s) (mHashTable c ! hashIndex s)"

definition evictEntry ::
  "u32 \<Rightarrow> conn_string_table \<Rightarrow> string_table \<Rightarrow> (nat \<times> conn_string_table \<times> string_table) option" where
  "evictEntry s c t = do {
     sendEntry \<leftarrow> ld (mLRU c) 0;
     let c = pushBack sendEntry c;
     old \<leftarrow> ld (mEntryTable c) sendEntry;
     let h = hashIndex (entryString old);
     let c = c\<lparr>mHashTable := (mHashTable c)[h := remove1 sendEntry (mHashTable c ! h)]\<rparr>;
     (str, t) \<leftarrow> entry_assign (entryString old) s t;
     let c = c\<lparr>mEntryTable := (mEntryTable c)[sendEntry := \<lparr>entryString = str, receiveConfirmed = False\<rparr>]\<rparr>;
     let h = hashIndex s;
     Some (sendEntry, c\<lparr>mHashTable := (mHashTable c)[h := sendEntry # mHashTable c ! h]\<rparr>, t) }"

definition chooseEntry ::
  "u32 \<Rightarrow> conn_string_table \<Rightarrow> string_table \<Rightarrow> (nat \<times> conn_string_table \<times> string_table) option" where
  "chooseEntry s c t =
     (case findEntry s c of
        Some e \<Rightarrow> Some (e, pushBack e c, t)
      | None \<Rightarrow> evictEntry s c t)"

definition cst_writeStringTableEntry ::
  "huff_node list \<times> huff_leaf list \<Rightarrow> u32 \<Rightarrow> packet_entry list \<Rightarrow> conn_string_table \<Rightarrow> string_table \<Rightarrow> bit_stream \<Rightarrow>
   (packet_entry list \<times> conn_string_table \<times> string_table \<times> bit_stream) option" where
  "cst_writeStringTableEntry T string stringList c t stream = do {
     (e, c, t) \<leftarrow> chooseEntry string c t;
     let sendEntry = mEntryTable c ! e;
     stream \<leftarrow> writeInt (of_nat e) EntryBitSize stream;
     (confirmed, stream) \<leftarrow> writeFlag (receiveConfirmed sendEntry) stream;
     if confirmed then Some (stringList, c, t, stream)
     else do {
       str \<leftarrow> getString (entryString sendEntry) t;
       stream \<leftarrow> writeString T (Some str) 255 stream;
       (s, t) \<leftarrow> entry_assign 0 (entryString sendEntry) t;
       Some (stringList @ [(e, s)], c, t, stream) } }"

section \<open>Receiving\<close>

text \<open>\<open>buf\<close> is the uninitialised local buffer the string is read into.\<close>

definition cst_readStringTableEntry ::
  "huff_node list \<times> huff_leaf list \<Rightarrow> mem \<Rightarrow> conn_string_table \<Rightarrow> string_table \<Rightarrow> bit_stream \<Rightarrow>
   (u32 \<times> conn_string_table \<times> string_table \<times> bit_stream) option" where
  "cst_readStringTableEntry T buf c t stream = do {
     (index, stream) \<leftarrow> readInt EntryBitSize stream;
     (known, stream) \<leftarrow> readFlag stream;
     old \<leftarrow> ld (mRemoteStringTable c) (unat index);
     (c, t, stream) \<leftarrow>
       (if known then Some (c, t, stream)
        else do {
          (buf, stream) \<leftarrow> readString T buf stream;
          (s, t) \<leftarrow> entry_set old (cstring buf) t;
          Some (c\<lparr>mRemoteStringTable := (mRemoteStringTable c)[unat index := s]\<rparr>, t, stream) });
     let s = mRemoteStringTable c ! unat index;
     t \<leftarrow> entry_incRef s t;
     Some (s, c, t, stream) }"

section \<open>Notifications\<close>

definition confirmEntry :: "packet_entry \<Rightarrow> conn_string_table \<Rightarrow> conn_string_table" where
  "confirmEntry p c = (case p of (e, s) \<Rightarrow>
     if entryString (mEntryTable c ! e) = s
     then c\<lparr>mEntryTable := (mEntryTable c)[e := (mEntryTable c ! e)\<lparr>receiveConfirmed := True\<rparr>]\<rparr> else c)"

definition cst_packetReceived :: "packet_entry list \<Rightarrow> conn_string_table \<Rightarrow> conn_string_table" where
  "cst_packetReceived note c = fold confirmEntry note c"

definition cst_packetDropped :: "packet_entry list \<Rightarrow> conn_string_table \<Rightarrow> conn_string_table" where
  "cst_packetDropped note c = c"

section \<open>The stream's entry points\<close>

definition writeStringTableEntry ::
  "huff_node list \<times> huff_leaf list \<Rightarrow> u32 \<Rightarrow> packet_entry list \<Rightarrow> conn_string_table \<Rightarrow> string_table \<Rightarrow> bit_stream \<Rightarrow>
   (packet_entry list \<times> conn_string_table \<times> string_table \<times> bit_stream) option" where
  "writeStringTableEntry T ste stringList c t stream =
     (if mStringTableSet stream then cst_writeStringTableEntry T ste stringList c t stream
      else do {
        str \<leftarrow> getString ste t;
        stream \<leftarrow> writeString T (Some str) 255 stream;
        Some (stringList, c, t, stream) })"

definition readStringTableEntry ::
  "huff_node list \<times> huff_leaf list \<Rightarrow> mem \<Rightarrow> u32 \<Rightarrow> conn_string_table \<Rightarrow> string_table \<Rightarrow> bit_stream \<Rightarrow>
   (u32 \<times> conn_string_table \<times> string_table \<times> bit_stream) option" where
  "readStringTableEntry T buf ste c t stream =
     (if mStringTableSet stream then do {
        (s, c, t, stream) \<leftarrow> cst_readStringTableEntry T buf c t stream;
        (ste, t) \<leftarrow> entry_assign ste s t;
        Some (ste, c, t, stream) }
      else do {
        (buf, stream) \<leftarrow> readString T buf stream;
        (ste, t) \<leftarrow> entry_set ste (cstring buf) t;
        Some (ste, c, t, stream) })"

end
