(* ===== verification/Float32.thy ===== *)
theory Float32
  imports Complex_Main Bit_Stream
begin

text \<open>
  The \<^verbatim>\<open>F32\<close> arithmetic the library uses: a single is the rational number it stands for, and an
  operation is the exact one followed by rounding to a 24-bit significand, ties to even. The
  values of the library lie far inside the exponent range, so infinities, not-a-numbers and
  denormals do not occur and are not modelled.
\<close>

type_synonym f32 = rat

definition round_even :: "rat \<Rightarrow> int" where
  "round_even x = (let f = \<lfloor>x\<rfloor>; r = x - of_int f in
     if r < 1 / 2 then f else if r > 1 / 2 then f + 1 else if even f then f else f + 1)"

text \<open>The exponent of a positive rational: \<open>2 ^ e \<le> x < 2 ^ (e + 1)\<close>.\<close>

definition rat_exponent :: "rat \<Rightarrow> int" where
  "rat_exponent x = (let (p, q) = quotient_of x; k = int (msb_index (nat p)) - int (msb_index (nat q)) in
     if 2 powi k \<le> x then k else k - 1)"

definition f32_round :: "rat \<Rightarrow> f32" where
  "f32_round x = (if x = 0 then 0 else
     let ulp = 2 powi (rat_exponent \<bar>x\<bar> - 23) in of_int (round_even (x / ulp)) * ulp)"

definition f32_add :: "f32 \<Rightarrow> f32 \<Rightarrow> f32" where "f32_add a b = f32_round (a + b)"
definition f32_sub :: "f32 \<Rightarrow> f32 \<Rightarrow> f32" where "f32_sub a b = f32_round (a - b)"
definition f32_mul :: "f32 \<Rightarrow> f32 \<Rightarrow> f32" where "f32_mul a b = f32_round (a * b)"
definition f32_div :: "f32 \<Rightarrow> f32 \<Rightarrow> f32" where "f32_div a b = f32_round (a / b)"
definition f32_of_u32 :: "u32 \<Rightarrow> f32" where "f32_of_u32 v = f32_round (of_nat (unat v))"
definition f32_of_s32 :: "u32 \<Rightarrow> f32" where "f32_of_s32 v = f32_round (of_int (sint v))"

text \<open>Conversion to an unsigned and to a signed integer truncates.\<close>

definition u32_of_f32 :: "f32 \<Rightarrow> u32" where "u32_of_f32 x = of_int \<lfloor>x\<rfloor>"

definition s32_of_f32 :: "f32 \<Rightarrow> u32" where
  "s32_of_f32 x = (if x \<ge> 0 then of_int \<lfloor>x\<rfloor> else of_int \<lceil>x\<rceil>)"

section \<open>Facts on rounding\<close>

lemma round_even_close: "\<bar>of_int (round_even x) - x\<bar> \<le> 1 / 2"
proof -
  define r where "r = x - of_int \<lfloor>x\<rfloor>"
  have x: "x = of_int \<lfloor>x\<rfloor> + r" and r: "0 \<le> r" "r < 1" unfolding r_def by linarith+
  have "round_even x = \<lfloor>x\<rfloor> \<and> r \<le> 1 / 2 \<or> round_even x = \<lfloor>x\<rfloor> + 1 \<and> 1 / 2 \<le> r"
    unfolding round_even_def Let_def r_def [symmetric] by auto
  then show ?thesis using x r by (auto simp: abs_le_iff)
qed

lemma round_even_int: "round_even (of_int n) = n"
  by (simp add: round_even_def)

lemma round_even_mono: "x \<le> y \<Longrightarrow> round_even x \<le> round_even y"
proof -
  assume xy: "x \<le> y"
  then have f: "\<lfloor>x\<rfloor> \<le> \<lfloor>y\<rfloor>" by (rule floor_mono)
  show ?thesis
  proof (cases "\<lfloor>x\<rfloor> = \<lfloor>y\<rfloor>")
    case True
    with xy show ?thesis by (auto simp: round_even_def Let_def)
  next
    case False
    with f have "\<lfloor>x\<rfloor> + 1 \<le> \<lfloor>y\<rfloor>" by linarith
    moreover have "round_even x \<le> \<lfloor>x\<rfloor> + 1" "\<lfloor>y\<rfloor> \<le> round_even y" by (auto simp: round_even_def Let_def)
    ultimately show ?thesis by linarith
  qed
qed

lemma f32_round_0 [simp]: "f32_round 0 = 0"
  by (simp add: f32_round_def)

lemma f32_round_nonneg: "0 \<le> x \<Longrightarrow> 0 \<le> f32_round x"
proof -
  assume x: "0 \<le> x"
  define ulp :: rat where "ulp = 2 powi (rat_exponent \<bar>x\<bar> - 23)"
  have "0 < ulp" by (simp add: ulp_def)
  then have "round_even 0 \<le> round_even (x / ulp)" using x by (intro round_even_mono) simp
  then have "0 \<le> round_even (x / ulp)" using round_even_int [of 0] by simp
  then show ?thesis using \<open>0 < ulp\<close> by (simp add: f32_round_def Let_def flip: ulp_def)
qed

section \<open>The stream's fixed-point floats\<close>

definition writeFloat :: "f32 \<Rightarrow> u8 \<Rightarrow> bit_stream \<Rightarrow> bit_stream option" where
  "writeFloat f bitCount bs = writeInt (u32_of_f32 (f32_mul f (f32_of_s32 (mask (unat bitCount))))) bitCount bs"

definition readFloat :: "u8 \<Rightarrow> bit_stream \<Rightarrow> (f32 \<times> bit_stream) option" where
  "readFloat bitCount bs = map_option (\<lambda>(v, bs). (f32_div (f32_of_u32 v) (f32_of_s32 (mask (unat bitCount))), bs)) (readInt bitCount bs)"

definition writeSignedFloat :: "f32 \<Rightarrow> u8 \<Rightarrow> bit_stream \<Rightarrow> bit_stream option" where
  "writeSignedFloat f bitCount bs =
     writeSignedInt (s32_of_f32 (f32_mul f (f32_of_s32 (mask (unat bitCount - 1))))) bitCount bs"

definition readSignedFloat :: "u8 \<Rightarrow> bit_stream \<Rightarrow> (f32 \<times> bit_stream) option" where
  "readSignedFloat bitCount bs =
     map_option (\<lambda>(v, bs). (f32_div (f32_of_s32 v) (f32_of_s32 (mask (unat bitCount - 1))), bs)) (readSignedInt bitCount bs)"

end
