(* ===== verification/Net_Connection.thy ===== *)
theory Net_Connection
  imports Asymmetric_Key Connection_String_Table Float32
begin

text \<open>
  \<^verbatim>\<open>tnl/netConnection.cpp\<close> and \<^verbatim>\<open>tnl/tnlNetConnection.h\<close>: one end of a connection, its packet
  header with the sequence number, the acknowledgement window and the notify queue, the rate
  negotiation, the adaptive window, and the ping time-out.

  A connection is a record with the fields of the class. Beside these it has \<open>mSub\<close>, the fields
  of the derived class, and \<open>mOut\<close>, what the connection has handed to its interface so far.
  \<open>mRemoteConnection\<close> says whether the pointer is set, \<open>mNotifyQueue\<close> is the linked list from its
  head, \<open>mErrorBuffer\<close> stands for the static buffer. \<open>mAckMask\<close> and the mask read from a packet
  have one word, \<^verbatim>\<open>MaxAckMaskSize\<close> being 1. The virtual functions are the fields of a
  \<open>conn_class\<close>, an argument of the operations that call them.

  The library is modelled as a release build, where \<^verbatim>\<open>TNLAssert\<close> is empty. \<^verbatim>\<open>TNL_DEBUGBREAK\<close> is a trap
  in every build; it and every undefined behaviour give \<open>None\<close>.
\<close>

section \<open>Constants\<close>

definition MaxPacketWindowSize :: u32 where "MaxPacketWindowSize = 32"
definition PacketWindowMask :: u32 where "PacketWindowMask = MaxPacketWindowSize - 1"
definition MaxAckByteCount :: u32 where "MaxAckByteCount = 4"
definition SequenceNumberBitSize :: u8 where "SequenceNumberBitSize = 11"
definition SequenceNumberWindowSize :: u32 where "SequenceNumberWindowSize = 2048"
definition AckSequenceNumberBitSize :: u8 where "AckSequenceNumberBitSize = 10"
definition AckSequenceNumberWindowSize :: u32 where "AckSequenceNumberWindowSize = 1024"
definition PacketHeaderByteSize :: u32 where "PacketHeaderByteSize = 3"
definition PacketHeaderPadBits :: u8 where "PacketHeaderPadBits = 0"
definition MessageSignatureBytes :: u32 where "MessageSignatureBytes = 5"
definition MaxPacketDataSize :: u32 where "MaxPacketDataSize = 1500"

definition DataPacket :: u32 where "DataPacket = 0"
definition PingPacket :: u32 where "PingPacket = 1"
definition AckPacket :: u32 where "AckPacket = 2"
definition InvalidPacketType :: u32 where "InvalidPacketType = 3"

definition AdaptiveInitialPingTimeout :: u32 where "AdaptiveInitialPingTimeout = 60000"
definition AdaptivePingRetryCount :: u32 where "AdaptivePingRetryCount = 4"
definition DefaultPingTimeout :: u32 where "DefaultPingTimeout = 5000"
definition DefaultPingRetryCount :: u32 where "DefaultPingRetryCount = 10"
definition AdaptiveUnackedSentPingTimeout :: u32 where "AdaptiveUnackedSentPingTimeout = 3000"

definition ConnectionToServer :: u32 where "ConnectionToServer = 1"
definition ConnectionToClient :: u32 where "ConnectionToClient = 2"
definition ConnectionAdaptive :: u32 where "ConnectionAdaptive = 4"
definition ConnectionRemoteAdaptive :: u32 where "ConnectionRemoteAdaptive = 8"

definition DefaultFixedBandwidth :: u32 where "DefaultFixedBandwidth = 2500"
definition DefaultFixedSendPeriod :: u32 where "DefaultFixedSendPeriod = 96"
definition MaxFixedBandwidth :: u32 where "MaxFixedBandwidth = 65535"
definition MaxFixedSendPeriod :: u32 where "MaxFixedSendPeriod = 2047"

lemmas packet_types = DataPacket_def PingPacket_def AckPacket_def InvalidPacketType_def

lemmas window_constants = MaxPacketWindowSize_def PacketWindowMask_def MaxAckByteCount_def
  SequenceNumberBitSize_def SequenceNumberWindowSize_def AckSequenceNumberBitSize_def
  AckSequenceNumberWindowSize_def PacketHeaderPadBits_def

section \<open>State\<close>

record net_rate =
  minPacketSendPeriod :: u32
  minPacketRecvPeriod :: u32
  maxSendBandwidth :: u32
  maxRecvBandwidth :: u32

record 'n packet_notify =
  rateChanged :: bool
  sendTime :: u32
  stringList :: "packet_entry list"
  noteData :: 'n

record address =
  addrTransport :: u16
  addrPort :: u16
  netNum :: "u32 list"

datatype net_action =
    SendTo address mem
  | SendToDelayed address mem u32
  | DeliverLocal bit_stream
  | HandleConnectionError string

datatype net_connection_state =
    NotConnected | AwaitingChallengeResponse | SendingPunchPackets | ComputingPuzzleSolution
  | AwaitingConnectResponse | ConnectTimedOut | ConnectRejected | Connected | Disconnected | TimedOut

text \<open>The keys and certificates are those of \<open>Asymmetric_Key\<close>; the shared secrets are bytes.\<close>

record connection_parameters =
  mIsArranged :: bool
  mUsingCrypto :: bool
  mPuzzleRetried :: bool
  mNonce :: mem
  mServerNonce :: mem
  mPuzzleDifficulty :: u32
  mPuzzleSolution :: u32
  mClientIdentity :: u32
  mPublicKey :: "asymmetric_key option"
  mPrivateKey :: "asymmetric_key option"
  mCertificate :: "certificate option"
  mSharedSecret :: "mem option"
  mRequestKeyExchange :: bool
  mRequestCertificate :: bool
  mSymmetricKeyBytes :: mem
  mInitVectorBytes :: mem
  mPossibleAddresses :: "address list"
  mIsInitiator :: bool
  mIsLocal :: bool
  mArrangedSecret :: "mem option"
  mDebugObjectSizes :: bool

record ('n, 'x) net_connection =
  mLastPacketRecvTime :: u32
  mLastSeqRecvdAtSend :: "u32 list"
  mLastSeqRecvd :: u32
  mHighestAckedSeq :: u32
  mLastSendSeq :: u32
  mAckMask :: u32
  mLastRecvAckAck :: u32
  mInitialSendSeq :: u32
  mInitialRecvSeq :: u32
  mHighestAckedSendTime :: u32
  mPingTimeout :: u32
  mPingRetryCount :: u32
  mTypeFlags :: u32
  mLastUpdateTime :: u32
  mRoundTripTime :: f32
  mSendDelayCredit :: u32
  mSimulatedLatency :: u32
  mSimulatedPacketLoss :: f32
  mLocalRate :: net_rate
  mRemoteRate :: net_rate
  mLocalRateChanged :: bool
  mCurrentPacketSendSize :: u32
  mCurrentPacketSendPeriod :: u32
  mNetAddress :: address
  mPingSendCount :: u32
  mLastPingSendTime :: u32
  mNotifyQueue :: "'n packet_notify list"
  mRemoteConnection :: bool
  mConnectionParameters :: connection_parameters
  mConnectSendCount :: u32
  mConnectLastSendTime :: u32
  mSymmetricCipher :: "symmetric_cipher option"
  mConnectionState :: net_connection_state
  cwnd :: f32
  ssthresh :: f32
  mLastSeqRecvdAck :: u32
  mLastAckTime :: u32
  mStringTable :: "conn_string_table option"
  mErrorBuffer :: string
  mSub :: 'x
  mOut :: "net_action list"

text \<open>What an operation finds around it: the clock, random draws, and the bytes of a fresh packet on the stack.\<close>

record packet_env =
  getCurrentTime :: u32
  recvDraw :: f32
  sendDraw :: f32
  packetBlock :: mem
  packetStrings :: mem
  packetFresh :: "nat \<Rightarrow> u8"

text \<open>The virtual functions.\<close>

record ('n, 'x) conn_class =
  allocNotify :: 'n
  prepareWritePacket :: "('n, 'x) net_connection \<Rightarrow> ('n, 'x) net_connection option"
  isDataToTransmit :: "('n, 'x) net_connection \<Rightarrow> bool"
  writePacket :: "bit_stream \<Rightarrow> 'n packet_notify \<Rightarrow> ('n, 'x) net_connection \<Rightarrow>
    (bit_stream \<times> 'n packet_notify \<times> ('n, 'x) net_connection) option"
  readPacket :: "bit_stream \<Rightarrow> ('n, 'x) net_connection \<Rightarrow> (bit_stream \<times> ('n, 'x) net_connection) option"
  packetReceived :: "'n packet_notify \<Rightarrow> ('n, 'x) net_connection \<Rightarrow> ('n, 'x) net_connection option"
  packetDropped :: "'n packet_notify \<Rightarrow> ('n, 'x) net_connection \<Rightarrow> ('n, 'x) net_connection option"

text \<open>The functions of the base class.\<close>

definition base_packetReceived :: "'n packet_notify \<Rightarrow> ('n, 'x) net_connection \<Rightarrow> ('n, 'x) net_connection" where
  "base_packetReceived note c = c\<lparr>mStringTable := map_option (cst_packetReceived (stringList note)) (mStringTable c)\<rparr>"

definition base_packetDropped :: "'n packet_notify \<Rightarrow> ('n, 'x) net_connection \<Rightarrow> ('n, 'x) net_connection" where
  "base_packetDropped note c = c\<lparr>mStringTable := map_option (cst_packetDropped (stringList note)) (mStringTable c)\<rparr>"

definition base_class :: "'n \<Rightarrow> ('n, 'x) conn_class" where
  "base_class n = \<lparr>allocNotify = n, prepareWritePacket = Some, isDataToTransmit = (\<lambda>_. False),
     writePacket = (\<lambda>bs note c. Some (bs, note, c)), readPacket = (\<lambda>bs c. Some (bs, c)),
     packetReceived = (\<lambda>note c. Some (base_packetReceived note c)),
     packetDropped = (\<lambda>note c. Some (base_packetDropped note c))\<rparr>"

section \<open>Flags, rates and the window\<close>

definition isAdaptive :: "('n, 'x) net_connection \<Rightarrow> bool" where
  "isAdaptive c \<longleftrightarrow> mTypeFlags c AND (ConnectionAdaptive OR ConnectionRemoteAdaptive) \<noteq> 0"

definition hasUnackedSentPackets :: "('n, 'x) net_connection \<Rightarrow> bool" where
  "hasUnackedSentPackets c \<longleftrightarrow> mLastSendSeq c \<noteq> mHighestAckedSeq c"

definition windowFull :: "('n, 'x) net_connection \<Rightarrow> bool" where
  "windowFull c =
     (if mLastSendSeq c - mHighestAckedSeq c \<ge> MaxPacketWindowSize - 2 then True
      else if isAdaptive c then f32_of_u32 (mLastSendSeq c - mHighestAckedSeq c) \<ge> cwnd c
      else False)"

definition computeNegotiatedRate :: "('n, 'x) net_connection \<Rightarrow> ('n, 'x) net_connection" where
  "computeNegotiatedRate c =
     (let period = max (minPacketSendPeriod (mLocalRate c)) (minPacketRecvPeriod (mRemoteRate c));
          maxBandwidth = min (maxSendBandwidth (mLocalRate c)) (maxRecvBandwidth (mRemoteRate c));
          sendSize = u32_of_f32 (f32_mul (f32_of_u32 (maxBandwidth * period)) (f32_round (1 / 1000)))
      in c\<lparr>mCurrentPacketSendPeriod := period,
           mCurrentPacketSendSize := (if sendSize > MaxPacketDataSize then MaxPacketDataSize else sendSize)\<rparr>)"

definition setIsAdaptive :: "('n, 'x) net_connection \<Rightarrow> ('n, 'x) net_connection" where
  "setIsAdaptive c = c\<lparr>mTypeFlags := mTypeFlags c OR ConnectionAdaptive, mLocalRateChanged := True\<rparr>"

definition setFixedRateParameters ::
  "u32 \<Rightarrow> u32 \<Rightarrow> u32 \<Rightarrow> u32 \<Rightarrow> ('n, 'x) net_connection \<Rightarrow> ('n, 'x) net_connection" where
  "setFixedRateParameters sendPeriod recvPeriod sendBandwidth recvBandwidth c =
     computeNegotiatedRate (c\<lparr>mTypeFlags := mTypeFlags c AND NOT ConnectionAdaptive,
       mLocalRate := \<lparr>minPacketSendPeriod = sendPeriod, minPacketRecvPeriod = recvPeriod,
                      maxSendBandwidth = sendBandwidth, maxRecvBandwidth = recvBandwidth\<rparr>,
       mLocalRateChanged := True\<rparr>)"

definition keepAlive :: "('n, 'x) net_connection \<Rightarrow> ('n, 'x) net_connection" where
  "keepAlive c = c\<lparr>mLastPingSendTime := 0, mPingSendCount := 0\<rparr>"

definition setInitialRecvSequence :: "u32 \<Rightarrow> ('n, 'x) net_connection \<Rightarrow> ('n, 'x) net_connection" where
  "setInitialRecvSequence sequence c =
     c\<lparr>mInitialRecvSeq := sequence, mLastSeqRecvd := sequence, mLastRecvAckAck := sequence\<rparr>"

definition defaultRate :: net_rate where
  "defaultRate = \<lparr>minPacketSendPeriod = DefaultFixedSendPeriod, minPacketRecvPeriod = DefaultFixedSendPeriod,
     maxSendBandwidth = DefaultFixedBandwidth, maxRecvBandwidth = DefaultFixedBandwidth\<rparr>"

text \<open>
  The constructor, over \<open>raw\<close>, the object before it ran: the fields it does not set keep
  their values. \<open>seq\<close> and \<open>nonce\<close> are the random draws.
\<close>

definition NetConnection_new :: "u32 \<Rightarrow> mem \<Rightarrow> ('n, 'x) net_connection \<Rightarrow> ('n, 'x) net_connection" where
  "NetConnection_new seq nonce raw =
     (let c = computeNegotiatedRate (raw\<lparr>mInitialSendSeq := seq,
            mConnectionParameters := (mConnectionParameters raw)\<lparr>mIsInitiator := False, mPuzzleRetried := False,
              mUsingCrypto := False, mIsArranged := False, mDebugObjectSizes := False, mIsLocal := False,
              mNonce := nonce\<rparr>,
            mTypeFlags := 0, mSimulatedLatency := 0, mSimulatedPacketLoss := 0, mLastPacketRecvTime := 0,
            mLastUpdateTime := 0, mRoundTripTime := 0, mSendDelayCredit := 0, mConnectionState := NotConnected,
            mNotifyQueue := [], mLocalRate := defaultRate, mRemoteRate := defaultRate, mLocalRateChanged := True\<rparr>)
      in c\<lparr>mPingSendCount := 0, mLastPingSendTime := 0, mLastSeqRecvd := 0, mHighestAckedSeq := seq,
           mLastSendSeq := seq, mAckMask := 0, mLastRecvAckAck := 0, cwnd := 2, ssthresh := 30,
           mLastSeqRecvdAck := 0, mPingTimeout := DefaultPingTimeout, mPingRetryCount := DefaultPingRetryCount,
           mStringTable := None, mSymmetricCipher := None, mRemoteConnection := False\<rparr>)"

section \<open>The packet header\<close>

definition currentDelay :: "packet_env \<Rightarrow> ('n, 'x) net_connection \<Rightarrow> u32" where
  "currentDelay e c = (let sendDelay = getCurrentTime e - mLastPacketRecvTime c in
     if sendDelay > 2047 then 2047 else sendDelay)"

definition ackByteCount :: "('n, 'x) net_connection \<Rightarrow> u32" where
  "ackByteCount c = drop_bit 3 (mLastSeqRecvd c - mLastRecvAckAck c + 7)"

text \<open>The loop over the words of the mask; there is one, and a second would lie outside \<open>mAckMask\<close>.\<close>

definition writeAckMask :: "u32 \<Rightarrow> u32 \<Rightarrow> bit_stream \<Rightarrow> bit_stream option" where
  "writeAckMask byteCount m stream =
     (let wordCount = drop_bit 2 (byteCount + 3) in
      if wordCount = 0 then Some stream
      else if wordCount = 1 then writeInt m (ucast (byteCount * 8)) stream
      else None)"

definition writePacketHeader ::
  "packet_env \<Rightarrow> u32 \<Rightarrow> bit_stream \<Rightarrow> ('n, 'x) net_connection \<Rightarrow> (bit_stream \<times> ('n, 'x) net_connection) option" where
  "writePacketHeader e packetType stream c =
     (if windowFull c \<and> packetType = DataPacket then None
      else do {
        let byteCount = ackByteCount c;
        let c = (if packetType = DataPacket then c\<lparr>mLastSendSeq := mLastSendSeq c + 1\<rparr> else c);
        stream \<leftarrow> writeInt packetType 2 stream;
        stream \<leftarrow> writeInt (mLastSendSeq c) 5 stream;
        (_, stream) \<leftarrow> writeFlag True stream;
        stream \<leftarrow> writeInt (drop_bit 5 (mLastSendSeq c)) (SequenceNumberBitSize - 5) stream;
        stream \<leftarrow> writeInt (mLastSeqRecvd c) AckSequenceNumberBitSize stream;
        stream \<leftarrow> writeInt 0 PacketHeaderPadBits stream;
        stream \<leftarrow> writeRangedU32 byteCount 0 MaxAckByteCount stream;
        stream \<leftarrow> writeAckMask byteCount (mAckMask c) stream;
        stream \<leftarrow> writeInt (drop_bit 3 (currentDelay e c)) 8 stream;
        sent \<leftarrow> (if packetType = DataPacket
                 then st (mLastSeqRecvdAtSend c) (unat (mLastSendSeq c AND PacketWindowMask)) (mLastSeqRecvd c)
                 else Some (mLastSeqRecvdAtSend c));
        Some (stream, c\<lparr>mLastSeqRecvdAtSend := sent\<rparr>) })"

section \<open>Writing a packet\<close>

definition writeRate :: "net_rate \<Rightarrow> bit_stream \<Rightarrow> bit_stream option" where
  "writeRate r bs = do {
     bs \<leftarrow> writeRangedU32 (maxRecvBandwidth r) 0 MaxFixedBandwidth bs;
     bs \<leftarrow> writeRangedU32 (maxSendBandwidth r) 0 MaxFixedBandwidth bs;
     bs \<leftarrow> writeRangedU32 (minPacketRecvPeriod r) 1 MaxFixedSendPeriod bs;
     writeRangedU32 (minPacketSendPeriod r) 1 MaxFixedSendPeriod bs }"

definition readRate :: "bit_stream \<Rightarrow> (net_rate \<times> bit_stream) option" where
  "readRate bs = do {
     (rb, bs) \<leftarrow> readRangedU32 0 MaxFixedBandwidth bs;
     (sb, bs) \<leftarrow> readRangedU32 0 MaxFixedBandwidth bs;
     (rp, bs) \<leftarrow> readRangedU32 1 MaxFixedSendPeriod bs;
     (sp, bs) \<leftarrow> readRangedU32 1 MaxFixedSendPeriod bs;
     Some (\<lparr>minPacketSendPeriod = sp, minPacketRecvPeriod = rp, maxSendBandwidth = sb, maxRecvBandwidth = rb\<rparr>, bs) }"

definition writePacketRateInfo ::
  "bit_stream \<Rightarrow> 'n packet_notify \<Rightarrow> ('n, 'x) net_connection \<Rightarrow>
   (bit_stream \<times> 'n packet_notify \<times> ('n, 'x) net_connection) option" where
  "writePacketRateInfo bs note c = do {
     let note = note\<lparr>rateChanged := mLocalRateChanged c\<rparr>;
     let c = c\<lparr>mLocalRateChanged := False\<rparr>;
     (changed, bs) \<leftarrow> writeFlag (rateChanged note) bs;
     if changed then do {
       (adaptive, bs) \<leftarrow> writeFlag (mTypeFlags c AND ConnectionAdaptive \<noteq> 0) bs;
       bs \<leftarrow> (if adaptive then Some bs else writeRate (mLocalRate c) bs);
       Some (bs, note, c) }
     else Some (bs, note, c) }"

definition readPacketRateInfo ::
  "bit_stream \<Rightarrow> ('n, 'x) net_connection \<Rightarrow> (bit_stream \<times> ('n, 'x) net_connection) option" where
  "readPacketRateInfo bs c = do {
     (changed, bs) \<leftarrow> readFlag bs;
     if changed then do {
       (adaptive, bs) \<leftarrow> readFlag bs;
       if adaptive then Some (bs, c\<lparr>mTypeFlags := mTypeFlags c OR ConnectionRemoteAdaptive\<rparr>)
       else do {
         (r, bs) \<leftarrow> readRate bs;
         Some (bs, computeNegotiatedRate (c\<lparr>mRemoteRate := r\<rparr>)) } }
     else Some (bs, c) }"

text \<open>
  The note is appended to the queue when it is complete; in the code it is in the queue while
  \<^verbatim>\<open>writePacket\<close> fills it in through the same pointer.
\<close>

definition writeDataPart ::
  "('n, 'x) conn_class \<Rightarrow> packet_env \<Rightarrow> bit_stream \<Rightarrow> ('n, 'x) net_connection \<Rightarrow>
   (bit_stream \<times> ('n, 'x) net_connection) option" where
  "writeDataPart cls e bs c = do {
     let note = \<lparr>rateChanged = False, sendTime = getCurrentTime e, stringList = [], noteData = allocNotify cls\<rparr>;
     (bs, note, c) \<leftarrow> writePacketRateInfo bs note c;
     (bs, note, c) \<leftarrow> writePacket cls (bs\<lparr>mStringTableSet := mStringTable c \<noteq> None\<rparr>) note c;
     Some (bs, c\<lparr>mNotifyQueue := mNotifyQueue c @ [note]\<rparr>) }"

definition sealPacket ::
  "u32 \<Rightarrow> bit_stream \<Rightarrow> ('n, 'x) net_connection \<Rightarrow> (bit_stream \<times> ('n, 'x) net_connection) option" where
  "sealPacket packetType bs c =
     (case mSymmetricCipher c of
        None \<Rightarrow> Some (bs, c)
      | Some cipher \<Rightarrow> do {
          let cipher = setupCounter (mLastSendSeq c) (mLastSeqRecvd c) packetType 0 cipher;
          (bs, cipher) \<leftarrow> hashAndEncrypt MessageSignatureBytes PacketHeaderByteSize cipher bs;
          Some (bs, c\<lparr>mSymmetricCipher := Some cipher\<rparr>) })"

definition writeRawPacket ::
  "('n, 'x) conn_class \<Rightarrow> packet_env \<Rightarrow> u32 \<Rightarrow> bit_stream \<Rightarrow> ('n, 'x) net_connection \<Rightarrow>
   (bit_stream \<times> ('n, 'x) net_connection) option" where
  "writeRawPacket cls e packetType bs c = do {
     (bs, c) \<leftarrow> writePacketHeader e packetType bs c;
     (bs, c) \<leftarrow> (if packetType = DataPacket then writeDataPart cls e bs c else Some (bs, c));
     sealPacket packetType bs c }"

definition emit :: "net_action \<Rightarrow> ('n, 'x) net_connection \<Rightarrow> ('n, 'x) net_connection" where
  "emit a c = c\<lparr>mOut := mOut c @ [a]\<rparr>"

definition sendPacket :: "packet_env \<Rightarrow> bit_stream \<Rightarrow> ('n, 'x) net_connection \<Rightarrow> ('n, 'x) net_connection option" where
  "sendPacket e stream c =
     (if mSimulatedPacketLoss c \<noteq> 0 \<and> sendDraw e < mSimulatedPacketLoss c then Some c
      else if mRemoteConnection c then
        Some (emit (DeliverLocal (setMaxSizes (getBytePosition stream) 0 (reset stream))) c)
      else do {
        bytes \<leftarrow> rd (mDataPtr stream) (unat (getBytePosition stream));
        Some (emit (if mSimulatedLatency c \<noteq> 0 then SendToDelayed (mNetAddress c) bytes (mSimulatedLatency c)
                    else SendTo (mNetAddress c) bytes) c) })"

definition PacketStream_new :: "packet_env \<Rightarrow> u32 \<Rightarrow> bit_stream" where
  "PacketStream_new e targetPacketSize =
     BitStream_new (packetFresh e) (packetStrings e) (packetBlock e) targetPacketSize MaxPacketDataSize"

definition sendControlPacket ::
  "('n, 'x) conn_class \<Rightarrow> packet_env \<Rightarrow> u32 \<Rightarrow> ('n, 'x) net_connection \<Rightarrow> ('n, 'x) net_connection option" where
  "sendControlPacket cls e packetType c = do {
     (ps, c) \<leftarrow> writeRawPacket cls e packetType (PacketStream_new e MaxPacketDataSize) c;
     sendPacket e ps c }"

definition sendPingPacket :: "('n, 'x) conn_class \<Rightarrow> packet_env \<Rightarrow> ('n, 'x) net_connection \<Rightarrow> ('n, 'x) net_connection option" where
  "sendPingPacket cls e c = sendControlPacket cls e PingPacket c"

definition sendAckPacket :: "('n, 'x) conn_class \<Rightarrow> packet_env \<Rightarrow> ('n, 'x) net_connection \<Rightarrow> ('n, 'x) net_connection option" where
  "sendAckPacket cls e c = sendControlPacket cls e AckPacket c"

section \<open>Notifications\<close>

text \<open>The adaptive window grows by one packet a time below the threshold, by \<open>1 / cwnd\<close> above it.\<close>

definition growWindow :: "('n, 'x) net_connection \<Rightarrow> ('n, 'x) net_connection" where
  "growWindow c =
     (if cwnd c < ssthresh c then c\<lparr>cwnd := f32_add (cwnd c) 1\<rparr>
      else if cwnd c < 30 then c\<lparr>cwnd := f32_add (cwnd c) (f32_div 1 (cwnd c))\<rparr>
      else c)"

definition shrinkWindow :: "('n, 'x) net_connection \<Rightarrow> ('n, 'x) net_connection" where
  "shrinkWindow c =
     (let half = f32_mul (1 / 2) (ssthresh c);
          c = c\<lparr>ssthresh := (if half < 2 then 2 else half)\<rparr>;
          c = c\<lparr>cwnd := f32_sub (cwnd c) 1\<rparr>
      in if cwnd c < 2 then c\<lparr>cwnd := 2\<rparr> else c)"

text \<open>An empty queue is a null dereference.\<close>

definition handleNotify ::
  "('n, 'x) conn_class \<Rightarrow> u32 \<Rightarrow> bool \<Rightarrow> ('n, 'x) net_connection \<Rightarrow> ('n, 'x) net_connection option" where
  "handleNotify cls sequence recvd c =
     (case mNotifyQueue c of
        [] \<Rightarrow> None
      | note # rest \<Rightarrow>
          let c = c\<lparr>mNotifyQueue := rest\<rparr>;
              c = (if rateChanged note \<and> \<not> recvd then c\<lparr>mLocalRateChanged := True\<rparr> else c)
          in if recvd then
               let c = c\<lparr>mHighestAckedSendTime := sendTime note\<rparr>;
                   c = (if isAdaptive c then growWindow c else c)
               in packetReceived cls note c
             else
               let c = (if isAdaptive c then shrinkWindow c else c)
               in packetDropped cls note c)"

text \<open>\<^verbatim>\<open>clearAllPacketNotifies\<close> for a queue of at most \<open>n\<close> notes.\<close>

fun clearNotifies :: "('n, 'x) conn_class \<Rightarrow> nat \<Rightarrow> ('n, 'x) net_connection \<Rightarrow> ('n, 'x) net_connection option" where
  "clearNotifies cls 0 c = (if mNotifyQueue c = [] then Some c else None)"
| "clearNotifies cls (Suc n) c =
     (if mNotifyQueue c = [] then Some c else do { c \<leftarrow> handleNotify cls 0 False c; clearNotifies cls n c })"

definition clearAllPacketNotifies :: "('n, 'x) conn_class \<Rightarrow> ('n, 'x) net_connection \<Rightarrow> ('n, 'x) net_connection option" where
  "clearAllPacketNotifies cls c = clearNotifies cls (length (mNotifyQueue c)) c"

section \<open>Reading a packet\<close>

text \<open>
  A number of which the packet carries the low bits, placed at or after \<open>prev\<close>. \<open>window\<close> is a
  power of two; the source masks with its negation.
\<close>

definition fullSequence :: "u32 \<Rightarrow> u32 \<Rightarrow> u32 \<Rightarrow> u32" where
  "fullSequence window prev pk =
     (let s = pk OR (prev AND - window) in if s < prev then s + window else s)"

record packet_header =
  pkPacketType :: u32
  pkSequenceNumber :: u32
  pkHighestAck :: u32
  pkPadBits :: u32

text \<open>The clear part of the header, its numbers as they stand in the packet.\<close>

definition readHeaderStart :: "bit_stream \<Rightarrow> (packet_header \<times> bit_stream) option" where
  "readHeaderStart pstream = do {
     (packetType, pstream) \<leftarrow> readInt 2 pstream;
     (low, pstream) \<leftarrow> readInt 5 pstream;
     (pkDataPacketFlag, pstream) \<leftarrow> readFlag pstream;
     (high, pstream) \<leftarrow> readInt (SequenceNumberBitSize - 5) pstream;
     (ack, pstream) \<leftarrow> readInt AckSequenceNumberBitSize pstream;
     (pad, pstream) \<leftarrow> readInt PacketHeaderPadBits pstream;
     Some (\<lparr>pkPacketType = packetType, pkSequenceNumber = low OR push_bit 5 high, pkHighestAck = ack, pkPadBits = pad\<rparr>,
           pstream) }"

text \<open>The mask of the packet, \<open>None\<close> while it has no word; the type test of the source comes between.\<close>

definition readAckMask :: "u32 \<Rightarrow> bit_stream \<Rightarrow> (u32 option \<times> bit_stream) option" where
  "readAckMask byteCount pstream =
     (let wordCount = drop_bit 2 (byteCount + 3) in
      if wordCount = 0 then Some (None, pstream)
      else if wordCount = 1 then map_option (map_prod Some id) (readInt (ucast (byteCount * 8)) pstream)
      else None)"

definition openPacket ::
  "u32 \<Rightarrow> u32 \<Rightarrow> u32 \<Rightarrow> bit_stream \<Rightarrow> ('n, 'x) net_connection \<Rightarrow>
   (bool \<times> bit_stream \<times> ('n, 'x) net_connection) option" where
  "openPacket sequence highestAck packetType pstream c =
     (case mSymmetricCipher c of
        None \<Rightarrow> Some (True, pstream, c)
      | Some cipher \<Rightarrow> do {
          let cipher = setupCounter sequence highestAck packetType 0 cipher;
          (ok, pstream, cipher) \<leftarrow> decryptAndCheckHash MessageSignatureBytes PacketHeaderByteSize cipher pstream;
          Some (ok, pstream, c\<lparr>mSymmetricCipher := Some cipher\<rparr>) })"

function shiftWords :: "u32 \<Rightarrow> u32 \<Rightarrow> u32 \<times> u32" where
  "shiftWords ackMaskShift m =
     (if ackMaskShift > 32 then shiftWords (ackMaskShift - 32) 0 else (ackMaskShift, m))"
  by pat_completeness auto
termination
proof (relation "measure (\<lambda>(s, _). unat s)")
  fix s m :: u32 assume "s > 32"
  then have "unat (s - 32) < unat s"
    by (simp add: unat_sub word_le_nat_alt word_less_nat_alt less_imp_le)
  then show "((s - 32, 0), s, m) \<in> measure (\<lambda>(s, _). unat s)" by simp
qed simp

declare shiftWords.simps [simp del]

definition shiftAckMask :: "u32 \<Rightarrow> u32 \<Rightarrow> u32 \<Rightarrow> u32" where
  "shiftAckMask packetType shift m =
     (case shiftWords shift m of (shift, m) \<Rightarrow>
        push_bit (unat shift) m OR (if packetType = DataPacket then 1 else 0))"

definition updateRoundTrip :: "packet_env \<Rightarrow> u32 \<Rightarrow> ('n, 'x) net_connection \<Rightarrow> ('n, 'x) net_connection" where
  "updateRoundTrip e pkSendDelay c =
     (if mHighestAckedSendTime c \<noteq> 0 then
        let roundTripDelta = getCurrentTime e - (mHighestAckedSendTime c + pkSendDelay);
            r = f32_add (f32_mul (mRoundTripTime c) (f32_round (9 / 10)))
                        (f32_mul (f32_of_s32 roundTripDelta) (f32_round (1 / 10)))
        in c\<lparr>mRoundTripTime := (if r < 0 then 0 else r)\<rparr>
      else c)"

text \<open>The bit of the packet's mask for a sequence number; reading an unset mask, or past it, is undefined.\<close>

definition ackBit :: "u32 option \<Rightarrow> u32 \<Rightarrow> u32 \<Rightarrow> bool option" where
  "ackBit pkAckMask highestAck notifyIndex =
     (let d = highestAck - notifyIndex in
      if drop_bit 5 d \<noteq> 0 then None
      else map_option (\<lambda>m. m AND push_bit (unat (d AND 0x1F)) 1 \<noteq> 0) pkAckMask)"

fun notifyLoop ::
  "('n, 'x) conn_class \<Rightarrow> packet_env \<Rightarrow> u32 \<Rightarrow> u32 option \<Rightarrow> u32 \<Rightarrow> nat \<Rightarrow> u32 \<Rightarrow> ('n, 'x) net_connection \<Rightarrow>
   ('n, 'x) net_connection option" where
  "notifyLoop cls e highestAck pkAckMask pkSendDelay 0 i c = Some c"
| "notifyLoop cls e highestAck pkAckMask pkSendDelay (Suc n) i c = do {
     let notifyIndex = mHighestAckedSeq c + i + 1;
     packetTransmitSuccess \<leftarrow> ackBit pkAckMask highestAck notifyIndex;
     c \<leftarrow> handleNotify cls notifyIndex packetTransmitSuccess (c\<lparr>mHighestAckedSendTime := 0\<rparr>);
     let c = updateRoundTrip e pkSendDelay c;
     c \<leftarrow> (if packetTransmitSuccess then do {
             s \<leftarrow> ld (mLastSeqRecvdAtSend c) (unat (notifyIndex AND PacketWindowMask));
             Some (c\<lparr>mLastRecvAckAck := s\<rparr>) }
           else Some c);
     notifyLoop cls e highestAck pkAckMask pkSendDelay n (i + 1) c }"

text \<open>What an accepted header does to the connection, from the shift of the mask on.\<close>

definition acceptHeader ::
  "('n, 'x) conn_class \<Rightarrow> packet_env \<Rightarrow> u32 \<Rightarrow> u32 \<Rightarrow> u32 \<Rightarrow> u32 option \<Rightarrow> u32 \<Rightarrow> ('n, 'x) net_connection \<Rightarrow>
   (bool \<times> ('n, 'x) net_connection) option" where
  "acceptHeader cls e packetType sequence highestAck pkAckMask pkSendDelay c = do {
     let c = c\<lparr>mAckMask := shiftAckMask packetType (sequence - mLastSeqRecvd c) (mAckMask c)\<rparr>;
     c \<leftarrow> notifyLoop cls e highestAck pkAckMask pkSendDelay (unat (highestAck - mHighestAckedSeq c)) 0 c;
     let c = (if sequence - mLastRecvAckAck c > MaxPacketWindowSize
              then c\<lparr>mLastRecvAckAck := sequence - MaxPacketWindowSize\<rparr> else c);
     let c = keepAlive (c\<lparr>mHighestAckedSeq := highestAck\<rparr>);
     let prevLastSequence = mLastSeqRecvd c;
     let c = c\<lparr>mLastSeqRecvd := sequence\<rparr>;
     c \<leftarrow> (if packetType = PingPacket \<or> sequence - mLastRecvAckAck c > drop_bit 1 MaxPacketWindowSize
           then sendAckPacket cls e c else Some c);
     Some (prevLastSequence \<noteq> sequence \<and> packetType = DataPacket, c) }"

definition readPacketHeader ::
  "('n, 'x) conn_class \<Rightarrow> packet_env \<Rightarrow> bit_stream \<Rightarrow> ('n, 'x) net_connection \<Rightarrow>
   (bool \<times> bit_stream \<times> ('n, 'x) net_connection) option" where
  "readPacketHeader cls e pstream c = do {
     (h, pstream) \<leftarrow> readHeaderStart pstream;
     let sequence = fullSequence SequenceNumberWindowSize (mLastSeqRecvd c) (pkSequenceNumber h);
     let highestAck = fullSequence AckSequenceNumberWindowSize (mHighestAckedSeq c) (pkHighestAck h);
     if pkPadBits h \<noteq> 0 then Some (False, pstream, c)
     else if sequence - mLastSeqRecvd c > MaxPacketWindowSize - 1 then Some (False, pstream, c)
     else if highestAck > mLastSendSeq c then Some (False, pstream, c)
     else do {
       (ok, pstream, c) \<leftarrow> openPacket sequence highestAck (pkPacketType h) pstream c;
       if \<not> ok then Some (False, pstream, c)
       else do {
         (pkAckByteCount, pstream) \<leftarrow> readRangedU32 0 MaxAckByteCount pstream;
         if pkAckByteCount > MaxAckByteCount \<or> pkPacketType h \<ge> InvalidPacketType then Some (False, pstream, c)
         else do {
           (pkAckMask, pstream) \<leftarrow> readAckMask pkAckByteCount pstream;
           (d, pstream) \<leftarrow> readInt 8 pstream;
           (data, c) \<leftarrow> acceptHeader cls e (pkPacketType h) sequence highestAck pkAckMask (push_bit 3 d + 4) c;
           Some (data, pstream, c) } } } }"

definition readRawPacket ::
  "('n, 'x) conn_class \<Rightarrow> packet_env \<Rightarrow> bit_stream \<Rightarrow> ('n, 'x) net_connection \<Rightarrow>
   (bit_stream \<times> ('n, 'x) net_connection) option" where
  "readRawPacket cls e bstream c =
     (if mSimulatedPacketLoss c \<noteq> 0 \<and> recvDraw e < mSimulatedPacketLoss c then Some (bstream, c)
      else do {
        (data, bstream, c) \<leftarrow> readPacketHeader cls e bstream (c\<lparr>mErrorBuffer := []\<rparr>);
        if data then do {
          (bstream, c) \<leftarrow> readPacketRateInfo bstream (c\<lparr>mLastPacketRecvTime := getCurrentTime e\<rparr>);
          (bstream, c) \<leftarrow> readPacket cls (bstream\<lparr>mStringTableSet := mStringTable c \<noteq> None\<rparr>) c;
          let c = (if \<not> isValid bstream \<and> mErrorBuffer c = [] then c\<lparr>mErrorBuffer := ''Invalid Packet.''\<rparr> else c);
          let c = (if mErrorBuffer c \<noteq> [] then emit (HandleConnectionError (mErrorBuffer c)) c else c);
          Some (bstream, c\<lparr>mErrorBuffer := []\<rparr>) }
        else Some (bstream, c) })"

section \<open>Timers\<close>

definition checkTimeout ::
  "('n, 'x) conn_class \<Rightarrow> packet_env \<Rightarrow> u32 \<Rightarrow> ('n, 'x) net_connection \<Rightarrow> (bool \<times> ('n, 'x) net_connection) option" where
  "checkTimeout cls e time c =
     (if mRemoteConnection c then Some (False, c)
      else
        let c = (if mLastPingSendTime c = 0 then c\<lparr>mLastPingSendTime := time\<rparr> else c);
            (timeout, timeoutCount) =
              (if isAdaptive c then
                 if hasUnackedSentPackets c then (AdaptiveUnackedSentPingTimeout, mPingRetryCount c)
                 else (if mPingSendCount c = 0 then AdaptiveInitialPingTimeout else mPingTimeout c, AdaptivePingRetryCount)
               else (mPingTimeout c, mPingRetryCount c))
        in if time - mLastPingSendTime c > timeout then
             if mPingSendCount c \<ge> timeoutCount then Some (True, c)
             else do {
               c \<leftarrow> sendPingPacket cls e (c\<lparr>mLastPingSendTime := time, mPingSendCount := mPingSendCount c + 1\<rparr>);
               Some (False, c) }
           else Some (False, c))"

text \<open>The adaptive connection's decision to acknowledge without data.\<close>

definition ackNeeded :: "u32 \<Rightarrow> ('n, 'x) net_connection \<Rightarrow> bool" where
  "ackNeeded curTime c =
     (let ackDelta = mLastSeqRecvd c - mLastSeqRecvdAck c;
          ack = f32_div (f32_mul (f32_div (f32_of_s32 ackDelta) 4) (f32_of_u32 (curTime - mLastAckTime c))) 200
      in (ack > 1 \<or> sint ackDelta > 24) \<and> mLastSeqRecvdAck c \<noteq> mLastSeqRecvd c)"

definition sendDue :: "u32 \<Rightarrow> ('n, 'x) net_connection \<Rightarrow> bool" where
  "sendDue curTime c \<longleftrightarrow> \<not> curTime - mLastUpdateTime c + mSendDelayCredit c < mCurrentPacketSendPeriod c"

definition takeCredit :: "u32 \<Rightarrow> ('n, 'x) net_connection \<Rightarrow> ('n, 'x) net_connection" where
  "takeCredit curTime c =
     (let credit = curTime - (mLastUpdateTime c + mCurrentPacketSendPeriod c - mSendDelayCredit c)
      in c\<lparr>mSendDelayCredit := (if credit > 1000 then 1000 else credit)\<rparr>)"

definition checkPacketSend ::
  "('n, 'x) conn_class \<Rightarrow> packet_env \<Rightarrow> bool \<Rightarrow> u32 \<Rightarrow> ('n, 'x) net_connection \<Rightarrow> ('n, 'x) net_connection option" where
  "checkPacketSend cls e force curTime c =
     (if \<not> force \<and> \<not> isAdaptive c \<and> \<not> sendDue curTime c then Some c
      else do {
        let c = (if \<not> force \<and> \<not> isAdaptive c then takeCredit curTime c else c);
        c \<leftarrow> prepareWritePacket cls c;
        if windowFull c \<or> \<not> isDataToTransmit cls c then
          if isAdaptive c \<and> ackNeeded curTime c
          then sendAckPacket cls e (c\<lparr>mLastSeqRecvdAck := mLastSeqRecvd c, mLastAckTime := curTime\<rparr>)
          else Some c
        else do {
          let stream = PacketStream_new e (mCurrentPacketSendSize c);
          (stream, c) \<leftarrow> writeRawPacket cls e DataPacket stream (c\<lparr>mLastUpdateTime := curTime\<rparr>);
          sendPacket e stream c } })"

section \<open>The connect request\<close>

text \<open>\<^verbatim>\<open>write\<close> and \<^verbatim>\<open>read\<close> of a \<^verbatim>\<open>U32\<close> from \<^verbatim>\<open>tnl/tnlBitStream.h\<close>; a failed read yields an unset local.\<close>

definition write_u32 :: "u32 \<Rightarrow> bit_stream \<Rightarrow> bit_stream option" where
  "write_u32 v bs = map_option snd (writeBytes 4 (le_bytes 4 v) bs)"

definition read_u32 :: "u32 \<Rightarrow> bit_stream \<Rightarrow> (u32 \<times> bit_stream) option" where
  "read_u32 junk bs = map_option (\<lambda>(ok, m, bs). (if ok then le_value m else junk, bs)) (readBytes 4 bs)"

definition base_writeConnectRequest :: "u32 \<Rightarrow> u32 \<Rightarrow> bit_stream \<Rightarrow> bit_stream option" where
  "base_writeConnectRequest classGroup classCRC stream = do {
     stream \<leftarrow> write_u32 classGroup stream;
     write_u32 classCRC stream }"

text \<open>\<open>g0\<close> and \<open>crc0\<close> are what the local of \<^verbatim>\<open>read\<close> holds when the packet is too short to set it.\<close>

definition base_readConnectRequest ::
  "u32 \<Rightarrow> u32 \<Rightarrow> u32 \<Rightarrow> u32 \<Rightarrow> bit_stream \<Rightarrow> ((string + unit) \<times> bit_stream) option" where
  "base_readConnectRequest g0 crc0 myGroup myCRC stream = do {
     (classGroup, stream) \<leftarrow> read_u32 g0 stream;
     (classCRC, stream) \<leftarrow> read_u32 crc0 stream;
     Some (if classGroup = myGroup \<and> classCRC = myCRC then Inr () else Inl ''CHR_INVALID'', stream) }"

end
