(* ===== verification/Bit_Stream_Safety.thy ===== *)
theory Bit_Stream_Safety
  imports Bit_Stream_Codec
begin

text \<open>
  Reading bits that an unknown sender wrote. Whatever the packet holds and however short it
  is, the reads return a value, stay inside the block and only move the position or set the
  error flag, provided the block has one byte behind the packet: \<open>readFlag\<close> looks one bit
  past the limit.
\<close>

definition recv_ok :: "bit_stream \<Rightarrow> bool" where
  "recv_ok bs \<longleftrightarrow> unat (maxReadBitNum bs) < 8 * length (mDataPtr bs) \<and> unat (maxReadBitNum bs) < 2 ^ 31 \<and>
     unat (bitNum bs) \<le> unat (maxReadBitNum bs) + 1"

text \<open>The stream after a read: the same packet at another position.\<close>

definition moved :: "bit_stream \<Rightarrow> bit_stream \<Rightarrow> bool" where
  "moved bs bs' \<longleftrightarrow> bs'\<lparr>bitNum := 0, error := False\<rparr> = bs\<lparr>bitNum := 0, error := False\<rparr>"

lemma moved_refl [simp]: "moved bs bs"
  by (simp add: moved_def)

lemma moved_trans: "moved a b \<Longrightarrow> moved b c \<Longrightarrow> moved a c"
  by (simp add: moved_def)

lemma moved_fields:
  "moved bs bs' \<Longrightarrow> mDataPtr bs' = mDataPtr bs \<and> mBufSize bs' = mBufSize bs \<and> maxReadBitNum bs' = maxReadBitNum bs \<and>
     maxWriteBitNum bs' = maxWriteBitNum bs \<and> mStringBuffer bs' = mStringBuffer bs"
  by (cases bs; cases bs') (simp add: moved_def)

lemma readBits_recv:
  assumes ok: "recv_ok bs" and n: "unat n \<le> 2 ^ 30"
  shows "\<exists>r out bs'. readBits n bs = Some (r, out, bs') \<and> recv_ok bs' \<and> moved bs bs' \<and> length out \<le> (unat n + 7) div 8"
proof (cases "n = 0 \<or> n + bitNum bs > maxReadBitNum bs")
  case True
  then show ?thesis using ok by (auto simp: readBits_def recv_ok_def moved_def)
next
  case False
  have b: "unat (n + bitNum bs) = unat n + unat (bitNum bs)"
    using ok n by (simp add: recv_ok_def unat_word_ariths)
  then have le: "unat n + unat (bitNum bs) \<le> unat (maxReadBitNum bs)"
    using False by (simp add: word_less_nat_alt not_less)
  have "0 < unat n" using False by (simp add: unat_gt_0)
  moreover have "unat (bitNum bs) + unat n \<le> 8 * length (mDataPtr bs)" using le ok by (simp add: recv_ok_def)
  ultimately obtain out where "readBits_mem (unat n) (unat (bitNum bs)) (mDataPtr bs) = Some out"
      "length out = (unat n + 7) div 8"
    using readBits_mem_spec by meson
  then show ?thesis using False b le ok
    by (auto simp: readBits_def recv_ok_def moved_def add.commute)
qed

lemma readInt_recv:
  assumes ok: "recv_ok bs" and n: "unat n \<le> 32"
  shows "\<exists>v bs'. readInt n bs = Some (v, bs') \<and> recv_ok bs' \<and> moved bs bs' \<and> take_bit (unat n) v = v"
proof -
  obtain r out bs' where r: "readBits (ucast n) bs = Some (r, out, bs')" "recv_ok bs'" "moved bs bs'"
      "length out \<le> (unat n + 7) div 8"
    using readBits_recv [OF ok, of "ucast n"] n unat_ucast_u8_u32 [of n] by auto
  then have "length out \<le> 4" using n by simp
  then have "memcpy [0, 0, 0, 0] 0 out = Some (out @ drop (length out) [0, 0, 0, 0])" by (simp add: memcpy_eq)
  moreover have "take_bit (unat n) (v :: u32) = v" if "n = 32" for v
    using that by (simp add: take_bit_word_eq_self)
  moreover have "take_bit (unat n) (v AND mask (unat n) :: u32) = v AND mask (unat n)" for v
    by (simp flip: take_bit_eq_mask)
  ultimately show ?thesis using r by (auto simp: readInt_def Let_def)
qed

lemma readFlag_recv:
  assumes ok: "recv_ok bs"
  shows "\<exists>v bs'. readFlag bs = Some (v, bs') \<and> recv_ok bs' \<and> moved bs bs'"
proof (cases "bitNum bs > maxReadBitNum bs")
  case True
  then show ?thesis using ok by (auto simp: readFlag_def recv_ok_def moved_def)
next
  case False
  then have le: "unat (bitNum bs) \<le> unat (maxReadBitNum bs)" by (simp add: word_less_nat_alt)
  then have "unat (bitNum bs) < 8 * length (mDataPtr bs)" using ok by (simp add: recv_ok_def)
  then have "unat (bitNum bs) div 8 < length (mDataPtr bs)" by (simp add: less_mult_imp_div_less mult.commute)
  moreover have "unat (bitNum bs + 1) = unat (bitNum bs) + 1" using le ok by (simp add: recv_ok_def unat_word_ariths)
  ultimately show ?thesis using False le ok
    by (auto simp: readFlag_def recv_ok_def moved_def mem_simps)
qed

lemma readRangedU32_recv:
  assumes ok: "recv_ok bs" and n: "unat (ucast (getNextBinLog2 (b - a + 1)) :: u8) \<le> 32"
  shows "\<exists>v bs'. readRangedU32 a b bs = Some (v, bs') \<and> recv_ok bs' \<and> moved bs bs' \<and>
    take_bit (unat (ucast (getNextBinLog2 (b - a + 1)) :: u8)) (v - a) = v - a"
  using readInt_recv [OF ok n] by (auto simp: readRangedU32_def Let_def)

section \<open>Runs of writes and reads\<close>

text \<open>
  A run of writes from a stream with room for \<open>L\<close> bits, and a run of reads from a stream whose
  next \<open>L\<close> bits are \<open>B\<close>, as rewrite rules that carry the position along.
\<close>

lemma writeInt_run:
  "can_write bs L \<Longrightarrow> length xs + unat n \<le> L \<Longrightarrow> unat n \<le> 32 \<Longrightarrow>
   writeInt v n (append_bits xs bs) = Some (append_bits (xs @ int_bits (unat n) v) bs)"
  using append_bits_append [of bs xs "int_bits (unat n) v"] can_write_append [of bs xs "unat n"]
    can_write_mono [of bs L "length xs + unat n"]
  by (simp add: writeInt_fits)

lemma writeFlag_run:
  "can_write bs L \<Longrightarrow> length xs + 1 \<le> L \<Longrightarrow> writeFlag v (append_bits xs bs) = Some (v, append_bits (xs @ [v]) bs)"
  using append_bits_append [of bs xs "[v]"] can_write_append [of bs xs 1] can_write_mono [of bs L "length xs + 1"]
  by (simp add: writeFlag_fits)

lemma next_bits_skip:
  assumes "can_read bs L" and "p + n \<le> L"
  shows "next_bits (skip_bits p bs) n = take n (drop p (next_bits bs L))"
proof -
  have "p + (n + (L - p - n)) = L" using assms(2) by simp
  then have r: "can_read bs (p + (n + (L - p - n)))" using assms(1) by simp
  have "next_bits bs L = next_bits bs p @ next_bits (skip_bits p bs) n @ next_bits (skip_bits n (skip_bits p bs)) (L - p - n)"
    using next_bits_add [OF r] next_bits_add [OF can_read_skip [OF r]] assms(2) by simp
  then show ?thesis by simp
qed

lemma readInt_run:
  "can_read bs L \<Longrightarrow> next_bits bs L = B \<Longrightarrow> p + unat n \<le> L \<Longrightarrow> unat n \<le> 32 \<Longrightarrow>
   readInt n (skip_bits p bs) = Some (bits_value (take (unat n) (drop p B)), skip_bits (p + unat n) bs)"
  using next_bits_skip [of bs L p "unat n"] can_read_skip [of bs p "unat n"] can_read_mono [of bs L "p + unat n"]
  by (simp add: readInt_fits skip_bits_skip)

lemma readFlag_run:
  "can_read bs L \<Longrightarrow> next_bits bs L = B \<Longrightarrow> p < L \<Longrightarrow> readFlag (skip_bits p bs) = Some (B ! p, skip_bits (p + 1) bs)"
  using next_bits_skip [of bs L p 1] can_read_skip [of bs p 1] can_read_mono [of bs L "p + 1"]
  by (auto simp: readFlag_fits skip_bits_skip hd_drop_conv_nth)

end
