(* ===== verification/Packet_Header.thy ===== *)
theory Packet_Header
  imports Net_Connection Bit_Stream_Safety
begin

text \<open>
  The packet header of a connection: sequence numbers of which the packet carries the low bits are
  restored, a header reads back as it was written, and an arbitrary header, from anyone, leaves the connection in order.
\<close>

section \<open>Partial sequence numbers\<close>

lemma neg_window: "- push_bit k 1 = NOT (mask k :: u32)"
  by (simp add: mask_eq_exp_minus_1 minus_eq_not_minus_1 push_bit_eq_mult)

lemma split_low: "(x :: u32) = (x AND - push_bit k 1) + take_bit k x"
proof -
  have "(x AND NOT (mask k)) AND take_bit k x = 0" by (rule bit_word_eqI) (auto simp: bit_simps)
  then have "(x AND NOT (mask k)) + take_bit k x = (x AND NOT (mask k)) OR take_bit k x" by (rule disjunctive_add_eq_or)
  also have "\<dots> = x" by (rule bit_word_eqI) (auto simp: bit_simps)
  finally show ?thesis by (simp only: neg_window)
qed

lemma low_or_high: "take_bit k s OR (x AND - push_bit k (1 :: u32)) = (x AND - push_bit k 1) + take_bit k s"
proof -
  have "(x AND NOT (mask k)) AND take_bit k s = 0" by (rule bit_word_eqI) (auto simp: bit_simps)
  then have "(x AND NOT (mask k)) + take_bit k s = (x AND NOT (mask k)) OR take_bit k s" by (rule disjunctive_add_eq_or)
  then show ?thesis by (simp only: neg_window or.commute)
qed

lemma unat_high_plus_low: "unat ((x :: u32) AND - push_bit k 1) + unat (take_bit k s) = unat ((x AND - push_bit k 1) + take_bit k s)"
proof -
  let ?H = "x AND - push_bit k 1"
  have z: "?H AND take_bit k s = 0" unfolding neg_window by (rule bit_word_eqI) (auto simp: bit_simps)
  then have "unat ?H AND unat (take_bit k s) = 0" by (metis unsigned_and_eq unsigned_0)
  then have "unat ?H + unat (take_bit k s) = unat ?H OR unat (take_bit k s)" by (rule disjunctive_add_eq_or)
  also have "\<dots> = unat (?H OR take_bit k s)" by (simp only: unsigned_or_eq)
  finally show ?thesis using disjunctive_add_eq_or [OF z] by simp
qed

lemma unat_low_sum:
  fixes x d :: u32
  assumes "k \<le> 32"
  shows "unat (take_bit k (x + d)) = (unat (take_bit k x) + unat d) mod 2 ^ k"
proof -
  have dv: "(2::nat) ^ k dvd 2 ^ 32" using assms by (intro le_imp_power_dvd) simp
  have "unat (x + d) mod 2 ^ k = (unat x + unat d) mod 2 ^ 32 mod 2 ^ k"
    using unat_word_ariths(1) [of x d] by simp
  also have "\<dots> = (unat x mod 2 ^ k + unat d) mod 2 ^ k"
    unfolding mod_mod_cancel [OF dv] by (simp add: mod_simps)
  finally show ?thesis unfolding unsigned_take_bit_eq by (simp only: take_bit_eq_mod)
qed

text \<open>The number comes back whenever it is less than a window ahead, also across the wrap at \<open>2 ^ 32\<close>.\<close>

lemma fullSequence_restores:
  assumes w: "window = push_bit k 1" "k < 32" and d: "s - prev < window"
  shows "fullSequence window prev (take_bit k s) = s"
proof -
  define H where "H = prev AND - push_bit k 1"
  define P where "P = take_bit k prev"
  define L where "L = take_bit k s"
  define D where "D = s - prev"
  have prev: "prev = H + P" unfolding H_def P_def by (rule split_low)
  have t: "L OR (prev AND - window) = H + L" unfolding L_def H_def w by (rule low_or_high)
  have uL: "unat (H + L) = unat H + unat L" and uP: "unat (H + P) = unat H + unat P"
    unfolding L_def P_def H_def by (simp_all only: unat_high_plus_low)
  have k32: "(2::nat) ^ k + 2 ^ k \<le> 2 ^ 32" using w(2) power_increasing [of "Suc k" 32 "2::nat"] by simp
  have uw: "unat window = 2 ^ k"
    unfolding w(1) unsigned_push_bit_eq using w(2) k32 by (simp add: push_bit_eq_mult take_bit_nat_eq_self)
  have s: "s = H + (P + D)" by (simp add: D_def prev add.assoc)
  have bd: "unat D < 2 ^ k" "unat P < 2 ^ k" "unat L < 2 ^ k"
    using d uw by (simp_all add: D_def word_less_nat_alt P_def L_def unsigned_take_bit_eq)
  then have uPD: "unat (P + D) = unat P + unat D" using k32 by (simp add: unat_word_ariths)
  have uLk: "unat L = (unat P + unat D) mod 2 ^ k"
    using unat_low_sum [of k prev D] w(2) by (simp add: L_def P_def D_def)
  show ?thesis
  proof (cases "unat P + unat D < 2 ^ k")
    case True
    then have "unat L = unat (P + D)" using uLk uPD by simp
    then have "L = P + D" by (rule unsigned_word_eqI)
    moreover have "\<not> H + L < H + P" using uL uP uPD uLk True by (simp add: word_less_nat_alt)
    ultimately show ?thesis using t prev s by (simp add: fullSequence_def Let_def L_def)
  next
    case False
    then have "(unat P + unat D) mod 2 ^ k = unat P + unat D - 2 ^ k"
      using bd by (simp add: mod_if le_mod_geq)
    then have l: "unat L + 2 ^ k = unat P + unat D" using False uLk by simp
    then have "unat (L + window) = unat (P + D)" using uw uPD bd k32 by (simp add: unat_word_ariths)
    then have "L + window = P + D" by (rule unsigned_word_eqI)
    moreover have "H + L < H + P" using l bd uL uP by (simp add: word_less_nat_alt)
    ultimately show ?thesis using t prev s by (simp add: fullSequence_def Let_def L_def add.assoc)
  qed
qed

section \<open>The bits of a header\<close>

definition header_bits :: "u32 \<Rightarrow> u32 \<Rightarrow> u32 \<Rightarrow> u32 \<Rightarrow> u32 \<Rightarrow> u32 \<Rightarrow> bool list" where
  "header_bits packetType sequence ack byteCount m delay =
     int_bits 2 packetType @ int_bits 5 sequence @ True # int_bits 6 (drop_bit 5 sequence) @ int_bits 10 ack @
     int_bits 3 byteCount @ int_bits (8 * unat byteCount) m @ int_bits 8 delay"

lemma length_header_bits [simp]: "length (header_bits t s a n m d) = 35 + 8 * unat n"
  by (simp add: header_bits_def)

lemma binLog2_5: "getNextBinLog2 5 = 3"
proof -
  have m: "msb_index 5 = 2" by (simp add: msb_index.simps)
  have "unat (getNextBinLog2 5) = 3"
    using getBinLog2_small [of 5] by (simp add: unat_getNextBinLog2 isPow2_def m)
  then have "unat (getNextBinLog2 5) = unat (3 :: u32)" by simp
  then show ?thesis by (rule unsigned_word_eqI)
qed

lemma and_31_less: "unat (x AND 31 :: u32) < 32"
proof -
  have "x AND 31 = take_bit 5 x" by (simp add: take_bit_eq_mask mask_eq_exp_minus_1)
  then have "unat (x AND 31) = take_bit 5 (unat x)" by (simp add: unsigned_take_bit_eq)
  also have "\<dots> < 2 ^ 5" by (rule take_bit_nat_less_exp)
  finally show ?thesis by simp
qed

lemma ack_words:
  assumes "unat (n :: u32) \<le> 4"
  shows "drop_bit 2 (n + 3) = (if n = 0 then 0 else 1) \<and> unat (ucast (n * 8) :: u8) = 8 * unat n"
  by (rule word_below_cases [where k = 5]) (use assms in \<open>simp_all add: upt_rec\<close>)

lemma writeAckMask_run:
  assumes "can_write bs L" "length xs + 8 * unat n \<le> L" "unat n \<le> 4"
  shows "writeAckMask n m (append_bits xs bs) = Some (append_bits (xs @ int_bits (8 * unat n) m) bs)"
  using assms ack_words [OF assms(3)] writeInt_run [OF assms(1), of xs "ucast (n * 8)" m]
  by (simp add: writeAckMask_def int_bits_def)

lemma int_bits_0: "int_bits 0 v = []"
  by (simp add: int_bits_def)

text \<open>What writing a header changes in the connection.\<close>

definition header_sent :: "u32 \<Rightarrow> ('n, 'x) net_connection \<Rightarrow> ('n, 'x) net_connection" where
  "header_sent packetType c =
     (if packetType = DataPacket
      then c\<lparr>mLastSendSeq := mLastSendSeq c + 1,
             mLastSeqRecvdAtSend := (mLastSeqRecvdAtSend c)[unat ((mLastSendSeq c + 1) AND 31) := mLastSeqRecvd c]\<rparr>
      else c)"

lemma writePacketHeader_fits:
  assumes room: "can_write bs (35 + 8 * unat (ackByteCount c))" and n: "unat (ackByteCount c) \<le> 4"
    and w: "packetType = DataPacket \<Longrightarrow> \<not> windowFull c" and len: "length (mLastSeqRecvdAtSend c) = 32"
  shows "writePacketHeader e packetType bs c = Some
    (append_bits (header_bits packetType (mLastSendSeq (header_sent packetType c)) (mLastSeqRecvd c) (ackByteCount c)
       (mAckMask c) (drop_bit 3 (currentDelay e c))) bs, header_sent packetType c)"
proof -
  let ?c = "if packetType = DataPacket then c\<lparr>mLastSendSeq := mLastSendSeq c + 1\<rparr> else c"
  note i = writeInt_run [OF room] writeFlag_run [OF room] writeAckMask_run [OF room]
  have first: "writeInt packetType 2 bs = Some (append_bits (int_bits 2 packetType) bs)"
    using i(1) [of "[]" 2 packetType] by simp
  have d: "currentDelay e ?c = currentDelay e c" by (simp add: currentDelay_def)
  have s: "mLastSendSeq ?c = mLastSendSeq (header_sent packetType c)" "mLastSeqRecvd ?c = mLastSeqRecvd c"
      "mAckMask ?c = mAckMask c" "mLastSeqRecvdAtSend ?c = mLastSeqRecvdAtSend c"
    by (simp_all add: header_sent_def)
  show ?thesis
    unfolding writePacketHeader_def Let_def d s
    using w n len first and_31_less
    by (simp add: i window_constants writeRangedU32_def binLog2_5 header_bits_def mem_simps int_bits_0)
      (simp add: header_sent_def)
qed

section \<open>Reading a header back\<close>

lemma take_int_bits [simp]: "take k (int_bits n v) = int_bits (min k n) v"
  by (simp add: int_bits_def take_map min_def)

lemma drop_header:
  fixes t s a n m d :: u32
  defines "h \<equiv> header_bits t s a n m d"
  shows "take 2 (drop 0 h) = int_bits 2 t" and "take 5 (drop 2 h) = int_bits 5 s" and "h ! 7"
    and "take 6 (drop 8 h) = int_bits 6 (drop_bit 5 s)" and "take 10 (drop 14 h) = int_bits 10 a"
    and "take 3 (drop 24 h) = int_bits 3 n" and "take (8 * unat n) (drop 27 h) = int_bits (8 * unat n) m"
    and "take 8 (drop (27 + 8 * unat n) h) = int_bits 8 d"
proof -
  show "take 8 (drop (27 + 8 * unat n) h) = int_bits 8 d"
    unfolding h_def header_bits_def append.assoc [symmetric] append_Cons [symmetric]
    by (subst drop_append) simp
qed (simp_all add: h_def header_bits_def nth_append)

lemma join_low_high: "take_bit 5 s OR push_bit 5 (take_bit 6 (drop_bit 5 s)) = take_bit 11 (s :: u32)"
proof (rule bit_word_eqI)
  fix i assume "i < LENGTH(32)"
  then show "bit (take_bit 5 s OR push_bit 5 (take_bit 6 (drop_bit 5 s))) i = bit (take_bit 11 s) i"
    by (cases "i < 5") (auto simp: bit_simps)
qed

lemma bits_value_Nil: "bits_value [] = 0"
  by (simp add: bits_value_def)

lemma readHeaderStart_takes:
  assumes r: "can_read bs (35 + 8 * unat n)" and b: "next_bits bs (35 + 8 * unat n) = header_bits t s a n m d"
  shows "readHeaderStart bs = Some (\<lparr>pkPacketType = take_bit 2 t, pkSequenceNumber = take_bit 11 s,
     pkHighestAck = take_bit 10 a, pkPadBits = 0\<rparr>, skip_bits 24 bs)"
proof -
  note i = readInt_run [OF r b] readFlag_run [OF r b]
  have "readInt 2 bs = Some (take_bit 2 t, skip_bits 2 bs)"
    using i(1) [of 0 2] drop_header(1) [of t s a n m d] by (simp del: One_nat_def add: numeral_2_eq_2 [symmetric])
  then show ?thesis
    by (simp add: readHeaderStart_def window_constants i drop_header join_low_high bits_value_Nil)
qed

lemma readAckMask_takes:
  assumes r: "can_read bs L" "next_bits bs L = B" "p + 8 * unat n \<le> L" and n: "unat n \<le> 4"
  shows "readAckMask n (skip_bits p bs) =
    Some (if n = 0 then None else Some (bits_value (take (8 * unat n) (drop p B))), skip_bits (p + 8 * unat n) bs)"
  using readInt_run [OF r(1,2), of p "ucast (n * 8)"] ack_words [OF n] r(3) n
  by (simp add: readAckMask_def)

text \<open>The mask as \<open>acceptHeader\<close> gets it.\<close>

definition ack_mask_of :: "u32 \<Rightarrow> u32 \<Rightarrow> u32 option" where
  "ack_mask_of n m = (if n = 0 then None else Some (take_bit (8 * unat n) m))"

lemma take_bit_small: "unat (v :: u32) < 2 ^ k \<Longrightarrow> take_bit k v = v"
  by (simp add: word_unat_eq_iff unsigned_take_bit_eq take_bit_nat_eq_self)

text \<open>A header in the windows of the connection reaches \<open>acceptHeader\<close> with the numbers it was written with.\<close>

lemma readPacketHeader_takes:
  assumes r: "can_read bs (35 + 8 * unat n)" and b: "next_bits bs (35 + 8 * unat n) = header_bits t s a n m d"
    and clear: "mSymmetricCipher c = None" and t: "t < InvalidPacketType" and n: "unat n \<le> 4" and d: "unat d < 256"
    and s: "s - mLastSeqRecvd c < MaxPacketWindowSize"
    and a: "a - mHighestAckedSeq c < AckSequenceNumberWindowSize" "a \<le> mLastSendSeq c"
  shows "readPacketHeader cls e bs c = do {
     (data, c) \<leftarrow> acceptHeader cls e t s a (ack_mask_of n m) (push_bit 3 d + 4) c;
     Some (data, skip_bits (35 + 8 * unat n) bs, c) }"
proof -
  note i = readInt_run [OF r b]
  have seq: "fullSequence SequenceNumberWindowSize (mLastSeqRecvd c) (take_bit 11 s) = s"
    using s by (intro fullSequence_restores) (auto simp: window_constants word_less_nat_alt)
  have ack: "fullSequence AckSequenceNumberWindowSize (mHighestAckedSeq c) (take_bit 10 a) = a"
    using a by (intro fullSequence_restores) (auto simp: window_constants)
  have t3: "unat t < 3" using t by (simp add: packet_types word_less_nat_alt)
  then have t2: "take_bit 2 t = t" by (intro take_bit_small) simp
  have n3: "take_bit 3 n = n" using n by (intro take_bit_small) simp
  have d8: "take_bit 8 d = d" using d by (intro take_bit_small) simp
  have w: "\<not> s - mLastSeqRecvd c > MaxPacketWindowSize - 1"
    using s by (simp add: window_constants word_less_nat_alt)
  have cnt: "readRangedU32 0 MaxAckByteCount (skip_bits 24 bs) = Some (n, skip_bits 27 bs)"
    by (simp add: readRangedU32_def window_constants binLog2_5 i drop_header n3)
  have msk: "readAckMask n (skip_bits 27 bs) = Some (ack_mask_of n m, skip_bits (27 + 8 * unat n) bs)"
    using readAckMask_takes [OF r b, of 27 n] n by (simp add: drop_header ack_mask_of_def)
  have dly: "readInt 8 (skip_bits (27 + 8 * unat n) bs) = Some (d, skip_bits (35 + 8 * unat n) bs)"
    using i [of "27 + 8 * unat n" 8] by (simp add: drop_header d8)
  have n4: "\<not> n > MaxAckByteCount" using n by (simp add: window_constants word_less_nat_alt)
  have "\<not> a > mLastSendSeq c" "\<not> t \<ge> InvalidPacketType" using a(2) t by auto
  then show ?thesis
    using w clear n4
    by (simp add: readPacketHeader_def readHeaderStart_takes [OF r b] seq ack t2 openPacket_def cnt msk dly)
qed

end
