(* ===== verification/Packet_Window.thy ===== *)
theory Packet_Window
  imports Packet_Header
begin

text \<open>
  The window of a connection under any input: the notify queue holds one note for each
  packet between \<open>mHighestAckedSeq\<close> and \<open>mLastSendSeq\<close>, at most 30, and whatever header arrives
  the queue is never popped when empty, no packet is sent into a full window and the acknowledgement
  mask never outgrows its four bytes.

  The derived class is known by the contract \<open>conn_callbacks\<close>: its functions return, and leave
  the fields of the window alone.
\<close>

section \<open>The callbacks' contract\<close>

definition window_state where
  "window_state c = ((mLastSeqRecvdAtSend c, mLastSeqRecvd c, mHighestAckedSeq c, mLastSendSeq c, mAckMask c, mLastRecvAckAck c),
     mNotifyQueue c, mSymmetricCipher c, mTypeFlags c, cwnd c, ssthresh c, mCurrentPacketSendSize c)"

text \<open>What \<open>writePacket\<close> may do to the stream: append bits, within the limits.\<close>

definition extends :: "bit_stream \<Rightarrow> bit_stream \<Rightarrow> bool" where
  "extends bs bs' \<longleftrightarrow> (\<exists>xs. can_write bs (length xs) \<and> bitNum bs' = bitNum bs + of_nat (length xs) \<and>
     mDataPtr bs' = put_bits (mDataPtr bs) (unat (bitNum bs)) xs \<and> maxWriteBitNum bs' = maxWriteBitNum bs \<and>
     maxReadBitNum bs' = maxReadBitNum bs \<and> mOwnsMemory bs' = mOwnsMemory bs)"

locale conn_callbacks =
  fixes cls :: "('n, 'x) conn_class"
  assumes prepare_ok: "\<exists>c'. prepareWritePacket cls c = Some c' \<and> window_state c' = window_state c"
    and write_ok: "can_write bs 0 \<Longrightarrow>
      \<exists>bs' note' c'. writePacket cls bs note c = Some (bs', note', c') \<and> window_state c' = window_state c \<and> extends bs bs'"
    and read_ok: "recv_ok bs \<Longrightarrow> \<exists>bs' c'. readPacket cls bs c = Some (bs', c') \<and> window_state c' = window_state c"
    and received_ok: "\<exists>c'. packetReceived cls note c = Some c' \<and> window_state c' = window_state c"
    and dropped_ok: "\<exists>c'. packetDropped cls note c = Some c' \<and> window_state c' = window_state c"

section \<open>The invariant\<close>

definition unacked :: "('n, 'x) net_connection \<Rightarrow> nat" where
  "unacked c = unat (mLastSendSeq c) - unat (mHighestAckedSeq c)"

definition conn_ok :: "('n, 'x) net_connection \<Rightarrow> bool" where
  "conn_ok c \<longleftrightarrow> length (mLastSeqRecvdAtSend c) = 32 \<and>
     unat (mHighestAckedSeq c) \<le> unat (mLastSendSeq c) \<and> unat (mLastSendSeq c) + 1024 < 2 ^ 32 \<and>
     length (mNotifyQueue c) = unacked c \<and> unacked c \<le> 30 \<and>
     unat (mLastSeqRecvd c - mLastRecvAckAck c) \<le> 32 \<and> unat (mCurrentPacketSendSize c) \<le> 1500 \<and>
     (\<forall>s. mSymmetricCipher c = Some s \<longrightarrow> cipher_ready s)"

lemma unat_unacked: "conn_ok c \<Longrightarrow> unat (mLastSendSeq c - mHighestAckedSeq c) = unacked c"
  unfolding unacked_def by (rule unat_sub) (simp add: conn_ok_def word_le_nat_alt)

lemma window_open:
  assumes "conn_ok c" and "\<not> windowFull c"
  shows "unacked c < 30"
  using assms unat_unacked [OF assms(1)]
  by (simp add: windowFull_def window_constants word_le_nat_alt split: if_splits)

lemma ackByteCount_le:
  assumes "unat (mLastSeqRecvd c - mLastRecvAckAck c) \<le> 32"
  shows "unat (ackByteCount c) \<le> 4"
proof -
  have "unat (mLastSeqRecvd c - mLastRecvAckAck c + 7) = unat (mLastSeqRecvd c - mLastRecvAckAck c) + 7"
    using unat_plus_small [of "mLastSeqRecvd c - mLastRecvAckAck c" 7] assms by simp
  then show ?thesis using assms unfolding ackByteCount_def unat_drop_bit_eq by (simp add: drop_bit_eq_div)
qed

section \<open>Notifications\<close>

text \<open>The fields a notification leaves alone.\<close>

definition seq_state where
  "seq_state c = (mLastSeqRecvdAtSend c, mLastSeqRecvd c, mHighestAckedSeq c, mLastSendSeq c, mAckMask c, mSymmetricCipher c,
     mCurrentPacketSendSize c)"

lemma growWindow_fields [simp]:
  "seq_state (growWindow c) = seq_state c" "mNotifyQueue (growWindow c) = mNotifyQueue c"
  "mLastRecvAckAck (growWindow c) = mLastRecvAckAck c"
  by (simp_all add: growWindow_def seq_state_def)

lemma shrinkWindow_fields [simp]:
  "seq_state (shrinkWindow c) = seq_state c" "mNotifyQueue (shrinkWindow c) = mNotifyQueue c"
  "mLastRecvAckAck (shrinkWindow c) = mLastRecvAckAck c"
  by (simp_all add: shrinkWindow_def seq_state_def Let_def)

lemma window_state_fields:
  "window_state c' = window_state c \<Longrightarrow> seq_state c' = seq_state c \<and> mNotifyQueue c' = mNotifyQueue c \<and>
     mLastRecvAckAck c' = mLastRecvAckAck c \<and> conn_ok c' = conn_ok c"
  by (simp add: window_state_def seq_state_def conn_ok_def unacked_def)

context conn_callbacks
begin

lemma handleNotify_pops:
  assumes "mNotifyQueue c \<noteq> []"
  shows "\<exists>c'. handleNotify cls sequence recvd c = Some c' \<and> mNotifyQueue c' = tl (mNotifyQueue c) \<and>
    seq_state c' = seq_state c \<and> mLastRecvAckAck c' = mLastRecvAckAck c"
proof -
  obtain nt rest where q: "mNotifyQueue c = nt # rest" using assms by (cases "mNotifyQueue c") auto
  define c1 where "c1 = (let c = c\<lparr>mNotifyQueue := rest\<rparr>;
      c = (if rateChanged nt \<and> \<not> recvd then c\<lparr>mLocalRateChanged := True\<rparr> else c) in
    if recvd then let c = c\<lparr>mHighestAckedSendTime := sendTime nt\<rparr> in (if isAdaptive c then growWindow c else c)
    else (if isAdaptive c then shrinkWindow c else c))"
  have c1: "mNotifyQueue c1 = rest" "seq_state c1 = seq_state c" "mLastRecvAckAck c1 = mLastRecvAckAck c"
    by (simp_all add: c1_def Let_def) (simp_all add: seq_state_def)
  have "handleNotify cls sequence recvd c = (if recvd then packetReceived cls nt c1 else packetDropped cls nt c1)"
    unfolding handleNotify_def q list.case Let_def c1_def by (cases recvd) (simp_all only: if_True if_False simp_thms)
  moreover obtain cr where "packetReceived cls nt c1 = Some cr" "window_state cr = window_state c1" using received_ok by blast
  moreover obtain cd where "packetDropped cls nt c1 = Some cd" "window_state cd = window_state c1" using dropped_ok by blast
  ultimately obtain c' where "handleNotify cls sequence recvd c = Some c'" "window_state c' = window_state c1"
    by (cases recvd) simp_all
  then show ?thesis using window_state_fields [of c' c1] c1 q by simp
qed

text \<open>
  The loop also takes over what the last acknowledged packet of the peer's acknowledged, out of the packets
  reported received.
\<close>

lemma notifyLoop_pops:
  "n \<le> length (mNotifyQueue c) \<Longrightarrow> length (mLastSeqRecvdAtSend c) = 32 \<Longrightarrow>
   (\<And>j. j < n \<Longrightarrow> ackBit m a (mHighestAckedSeq c + (i + of_nat j) + 1) \<noteq> None) \<Longrightarrow>
   \<exists>c'. notifyLoop cls e a m d n i c = Some c' \<and> mNotifyQueue c' = drop n (mNotifyQueue c) \<and> seq_state c' = seq_state c \<and>
     (mLastRecvAckAck c' = mLastRecvAckAck c \<or>
      (\<exists>j<n. let k = mHighestAckedSeq c + (i + of_nat j) + 1 in
        ackBit m a k = Some True \<and> mLastRecvAckAck c' = mLastSeqRecvdAtSend c ! unat (k AND 31)))"
proof (induction n arbitrary: i c)
  case (Suc n)
  let ?k = "mHighestAckedSeq c + i + 1"
  obtain r where r: "ackBit m a ?k = Some r" using Suc.prems(3) [of 0] by auto
  let ?c = "c\<lparr>mHighestAckedSendTime := 0\<rparr>"
  have "mNotifyQueue ?c \<noteq> []" using Suc.prems(1) by auto
  from handleNotify_pops [OF this, of ?k r] obtain c1 where c1: "handleNotify cls ?k r ?c = Some c1"
      "mNotifyQueue c1 = tl (mNotifyQueue c)" "seq_state c1 = seq_state c" "mLastRecvAckAck c1 = mLastRecvAckAck c"
    by (auto simp: seq_state_def)
  define c2 where "c2 = updateRoundTrip e d c1"
  have c2: "mNotifyQueue c2 = tl (mNotifyQueue c)" "seq_state c2 = seq_state c" "mLastRecvAckAck c2 = mLastRecvAckAck c"
    using c1 by (simp_all add: c2_def updateRoundTrip_def Let_def seq_state_def)
  then have len: "mLastSeqRecvdAtSend c2 = mLastSeqRecvdAtSend c" "mHighestAckedSeq c2 = mHighestAckedSeq c"
    by (simp_all add: seq_state_def)
  define c3 where "c3 = (if r then c2\<lparr>mLastRecvAckAck := mLastSeqRecvdAtSend c2 ! unat (?k AND 31)\<rparr> else c2)"
  have c3: "mNotifyQueue c3 = tl (mNotifyQueue c)" "seq_state c3 = seq_state c" "mHighestAckedSeq c3 = mHighestAckedSeq c"
      "mLastSeqRecvdAtSend c3 = mLastSeqRecvdAtSend c" "length (mLastSeqRecvdAtSend c3) = 32"
      "mLastRecvAckAck c3 = (if r then mLastSeqRecvdAtSend c ! unat (?k AND 31) else mLastRecvAckAck c)"
    using c2 len Suc.prems(2) by (simp_all add: c3_def seq_state_def)
  have step: "(if r then do { s \<leftarrow> ld (mLastSeqRecvdAtSend c2) (unat (?k AND PacketWindowMask)); Some (c2\<lparr>mLastRecvAckAck := s\<rparr>) }
      else Some c2) = Some c3"
    using len Suc.prems(2) and_31_less [of ?k] by (simp add: c3_def window_constants mem_simps)
  have loop: "notifyLoop cls e a m d (Suc n) i c = notifyLoop cls e a m d n (i + 1) c3"
    by (simp only: notifyLoop.simps Let_def r c1(1) c2_def [symmetric] step bind.bind_lunit)
  have "ackBit m a (mHighestAckedSeq c3 + (i + 1 + of_nat j) + 1) \<noteq> None" if "j < n" for j
    using Suc.prems(3) [of "Suc j"] that by (simp add: c3 add_ac)
  moreover have "n \<le> length (mNotifyQueue c3)" using Suc.prems(1) c3(1) by (cases "mNotifyQueue c") auto
  ultimately obtain c' where c': "notifyLoop cls e a m d n (i + 1) c3 = Some c'" "mNotifyQueue c' = drop n (mNotifyQueue c3)"
      "seq_state c' = seq_state c3"
      "mLastRecvAckAck c' = mLastRecvAckAck c3 \<or> (\<exists>j<n. let k = mHighestAckedSeq c3 + (i + 1 + of_nat j) + 1 in
        ackBit m a k = Some True \<and> mLastRecvAckAck c' = mLastSeqRecvdAtSend c3 ! unat (k AND 31))"
    using Suc.IH [OF _ c3(5), of "i + 1"] by blast
  have "mLastRecvAckAck c' = mLastRecvAckAck c \<or> (\<exists>j<Suc n. let k = mHighestAckedSeq c + (i + of_nat j) + 1 in
      ackBit m a k = Some True \<and> mLastRecvAckAck c' = mLastSeqRecvdAtSend c ! unat (k AND 31))"
    using c'(4)
  proof
    assume "mLastRecvAckAck c' = mLastRecvAckAck c3"
    then show ?thesis using r c3(6) by (cases r) (auto simp: Let_def intro!: exI [of _ 0])
  next
    assume "\<exists>j<n. let k = mHighestAckedSeq c3 + (i + 1 + of_nat j) + 1 in
        ackBit m a k = Some True \<and> mLastRecvAckAck c' = mLastSeqRecvdAtSend c3 ! unat (k AND 31)"
    then obtain j where "j < n" "ackBit m a (mHighestAckedSeq c + (i + 1 + of_nat j) + 1) = Some True"
        "mLastRecvAckAck c' = mLastSeqRecvdAtSend c ! unat ((mHighestAckedSeq c + (i + 1 + of_nat j) + 1) AND 31)"
      by (auto simp: Let_def c3)
    then show ?thesis by (intro disjI2 exI [of _ "Suc j"]) (simp add: Let_def add_ac)
  qed
  then show ?case using loop c' c3(1,2) by (cases "mNotifyQueue c") auto
qed simp

end

section \<open>Sending\<close>

lemma PacketStream_ok:
  assumes "length (packetBlock e) = 1500" and "unat target \<le> 1500"
  shows "stream_ok (PacketStream_new e target)" and "can_write (PacketStream_new e target) 12000"
    and "bitNum (PacketStream_new e target) = 0" and "\<not> mOwnsMemory (PacketStream_new e target)"
    and "length (mDataPtr (PacketStream_new e target)) = 1500"
proof -
  have u: "unat (push_bit 3 target) = 8 * unat target" using assms(2) by (simp add: push_bit_eq_mult unat_word_ariths)
  show s: "stream_ok (PacketStream_new e target)"
    using assms u by (simp add: PacketStream_new_def BitStream_new_def reset_def setMaxSizes_def stream_ok_def MaxPacketDataSize_def)
  then show "can_write (PacketStream_new e target) 12000"
    by (simp add: can_write_def) (simp add: PacketStream_new_def BitStream_new_def reset_def setMaxSizes_def MaxPacketDataSize_def)
qed (use assms in \<open>simp_all add: PacketStream_new_def BitStream_new_def reset_def setMaxSizes_def\<close>)

text \<open>A stream that \<open>sealPacket\<close> and \<open>sendPacket\<close> can take: past the clear part of the header, inside its block.\<close>

definition sealable :: "bit_stream \<Rightarrow> bool" where
  "sealable bs \<longleftrightarrow> stream_ok bs \<and> \<not> mOwnsMemory bs \<and> 24 \<le> unat (bitNum bs) \<and>
     unat (bitNum bs) \<le> 8 * length (mDataPtr bs) \<and> length (mDataPtr bs) < 2 ^ 27"

lemma sealPacket_ok:
  assumes bs: "sealable bs" and s: "\<And>k. mSymmetricCipher c = Some k \<Longrightarrow> cipher_ready k"
  shows "\<exists>bs' k. sealPacket t bs c = Some (bs', c\<lparr>mSymmetricCipher := k\<rparr>) \<and>
    unat (getBytePosition bs') \<le> length (mDataPtr bs') \<and> (\<forall>x. k = Some x \<longrightarrow> cipher_ready x)"
proof (cases "mSymmetricCipher c")
  case None
  have "unat (getBytePosition bs) \<le> length (mDataPtr bs)"
    using bs by (intro bytePosition_bound) (auto simp: sealable_def)
  moreover have "c\<lparr>mSymmetricCipher := None\<rparr> = c" using None by simp
  ultimately show ?thesis using None by (intro exI [of _ bs] exI [of _ None]) (simp add: sealPacket_def)
next
  case (Some k)
  let ?k = "setupCounter (mLastSendSeq c) (mLastSeqRecvd c) t 0 k"
  have k: "cipher_ready ?k" using s [OF Some] setupCounter_ok [of k] by (simp add: cipher_ready_def)
  have b: "unat (getBytePosition bs) \<le> length (mDataPtr bs)"
    using bs by (intro bytePosition_bound) (auto simp: sealable_def)
  have "unat (bitNum bs + 7) = unat (bitNum bs) + 7"
    using bs unat_plus_small [of "bitNum bs" 7] by (simp add: sealable_def)
  moreover have "3 \<le> (n + 7) div 8" if "24 \<le> n" for n :: nat using that by (simp add: less_eq_div_iff_mult_less_eq)
  ultimately have "3 \<le> unat (getBytePosition bs)"
    using bs unfolding getBytePosition_def unat_drop_bit_eq by (simp add: sealable_def drop_bit_eq_div)
  then obtain bs' k' where "hashAndEncrypt MessageSignatureBytes PacketHeaderByteSize ?k bs = Some (bs', k')"
      "cipher_ready k'" "unat (getBytePosition bs') \<le> length (mDataPtr bs')"
    using hashAndEncrypt_total [of bs ?k MessageSignatureBytes _ PacketHeaderByteSize] k b bs
    by (auto simp: MessageSignatureBytes_def PacketHeaderByteSize_def sealable_def)
  then show ?thesis using Some by (auto simp: sealPacket_def Let_def)
qed

lemma sendPacket_ok:
  assumes "unat (getBytePosition bs) \<le> length (mDataPtr bs)"
  shows "\<exists>acts. sendPacket e bs c = Some (c\<lparr>mOut := acts\<rparr>)"
proof -
  have "\<exists>acts. c = c\<lparr>mOut := acts\<rparr>" by (rule exI [of _ "mOut c"]) simp
  then show ?thesis using assms by (auto simp: sendPacket_def emit_def mem_simps)
qed

text \<open>The header in a fresh packet.\<close>

lemma header_fresh:
  assumes ok: "conn_ok c" and w: "t = DataPacket \<Longrightarrow> \<not> windowFull c"
    and block: "length (packetBlock e) = 1500" and target: "unat target \<le> 1500"
  shows "\<exists>hdr. writePacketHeader e t (PacketStream_new e target) c =
      Some (append_bits hdr (PacketStream_new e target), header_sent t c) \<and> 35 \<le> length hdr \<and> length hdr \<le> 67"
proof -
  have n: "unat (ackByteCount c) \<le> 4" using ok by (intro ackByteCount_le) (simp add: conn_ok_def)
  note p = PacketStream_ok [OF block target]
  have room: "can_write (PacketStream_new e target) (35 + 8 * unat (ackByteCount c))"
    using n by (intro can_write_mono [OF p(2)]) simp
  show ?thesis
    using writePacketHeader_fits [OF room n w] ok n by (auto simp: conn_ok_def)
qed

lemma sealable_append:
  assumes p: "stream_ok bs" "can_write bs 12000" "bitNum bs = 0" "\<not> mOwnsMemory bs" "length (mDataPtr bs) = 1500"
    and h: "24 \<le> length xs" "length xs \<le> 12000"
  shows "sealable (append_bits xs bs)"
proof -
  have "unat (of_nat (length xs) :: u32) = length xs" using h by (intro unat_of_nat_u32) simp
  then show ?thesis using assms by (simp add: sealable_def append_bits_def stream_ok_def)
qed

context conn_callbacks
begin

lemma sendControlPacket_ok:
  assumes ok: "conn_ok c" and block: "length (packetBlock e) = 1500" and t: "t \<noteq> DataPacket"
  shows "\<exists>k acts. sendControlPacket cls e t c = Some (c\<lparr>mSymmetricCipher := k, mOut := acts\<rparr>) \<and>
    (\<forall>x. k = Some x \<longrightarrow> cipher_ready x)"
proof -
  have k1500: "unat MaxPacketDataSize \<le> 1500" by (simp add: MaxPacketDataSize_def)
  let ?p = "PacketStream_new e MaxPacketDataSize"
  note p = PacketStream_ok [OF block k1500]
  obtain hdr where hdr: "writePacketHeader e t ?p c = Some (append_bits hdr ?p, c)" "35 \<le> length hdr" "length hdr \<le> 67"
    using header_fresh [OF ok _ block k1500, of t] t by (auto simp: header_sent_def)
  have "sealable (append_bits hdr ?p)" using sealable_append [OF p] hdr by simp
  moreover have "\<And>k. mSymmetricCipher c = Some k \<Longrightarrow> cipher_ready k" using ok by (simp add: conn_ok_def)
  ultimately obtain bs k where k: "sealPacket t (append_bits hdr ?p) c = Some (bs, c\<lparr>mSymmetricCipher := k\<rparr>)"
      "unat (getBytePosition bs) \<le> length (mDataPtr bs)" "\<forall>x. k = Some x \<longrightarrow> cipher_ready x"
    using sealPacket_ok by blast
  moreover obtain acts where "sendPacket e bs (c\<lparr>mSymmetricCipher := k\<rparr>) = Some (c\<lparr>mSymmetricCipher := k, mOut := acts\<rparr>)"
    using sendPacket_ok [OF k(2)] by blast
  ultimately show ?thesis using hdr t by (auto simp: sendControlPacket_def writeRawPacket_def)
qed

end

end
