(* ===== verification/Packet_Receive.thy ===== *)
theory Packet_Receive
  imports Packet_Window
begin

text \<open>
  The receiving side of a connection, for a header from anyone: which headers are taken, what
  they do, and that they keep the invariant of the window.
\<close>

section \<open>Receiving\<close>

lemma ackBit_in:
  assumes "unat (a - k) < 32" and "m \<noteq> None"
  shows "ackBit m a k \<noteq> None"
proof -
  have "unat (drop_bit 5 (a - k)) = drop_bit 5 (unat (a - k))" by (rule unat_drop_bit_eq)
  then have "unat (drop_bit 5 (a - k)) = unat (a - k) div 32" by (simp only: drop_bit_eq_div) simp
  then have "drop_bit 5 (a - k) = 0" using assms(1) by (simp add: word_unat_eq_iff)
  then show ?thesis using assms(2) by (auto simp: ackBit_def)
qed

lemma conn_ok_after_accept:
  assumes ok: "conn_ok c" and a: "mHighestAckedSeq c \<le> a" "a \<le> mLastSendSeq c"
    and q: "mNotifyQueue c' = drop (unat (a - mHighestAckedSeq c)) (mNotifyQueue c)"
    and s: "mHighestAckedSeq c' = a" "mLastSendSeq c' = mLastSendSeq c" "mLastSeqRecvdAtSend c' = mLastSeqRecvdAtSend c"
      "mSymmetricCipher c' = mSymmetricCipher c" "mCurrentPacketSendSize c' = mCurrentPacketSendSize c" "unat (mLastSeqRecvd c' - mLastRecvAckAck c') \<le> 32"
  shows "conn_ok c'"
proof -
  have "unat (a - mHighestAckedSeq c) = unat a - unat (mHighestAckedSeq c)" using a(1) by (intro unat_sub)
  then show ?thesis using assms by (auto simp: conn_ok_def unacked_def word_le_nat_alt)
qed

text \<open>The clamp bounds what the mask must still cover, whatever the packets said before.\<close>

lemma clamp_le:
  "unat (s - (if s - x > MaxPacketWindowSize then s - MaxPacketWindowSize else x)) \<le> 32"
  by (auto simp: window_constants word_less_nat_alt not_less)

context conn_callbacks
begin

lemma acceptHeader_run:
  assumes ok: "conn_ok c" and block: "length (packetBlock e) = 1500"
    and a: "mHighestAckedSeq c \<le> a" "a \<le> mLastSendSeq c"
    and m: "a \<noteq> mHighestAckedSeq c \<Longrightarrow> m \<noteq> None"
  shows "\<exists>c'. acceptHeader cls e t s a m d c = Some (mLastSeqRecvd c \<noteq> s \<and> t = DataPacket, c') \<and> conn_ok c' \<and>
    mHighestAckedSeq c' = a \<and> mLastSeqRecvd c' = s \<and> mLastSendSeq c' = mLastSendSeq c \<and>
    mAckMask c' = shiftAckMask t (s - mLastSeqRecvd c) (mAckMask c) \<and>
    mNotifyQueue c' = drop (unat (a - mHighestAckedSeq c)) (mNotifyQueue c) \<and> mLastSeqRecvdAtSend c' = mLastSeqRecvdAtSend c \<and>
    (\<exists>x. mLastRecvAckAck c' = (if s - x > MaxPacketWindowSize then s - MaxPacketWindowSize else x) \<and>
      (x = mLastRecvAckAck c \<or> (\<exists>k. unat (mHighestAckedSeq c) < unat k \<and> k \<le> a \<and> ackBit m a k = Some True \<and>
        x = mLastSeqRecvdAtSend c ! unat (k AND 31))))"
proof -
  let ?n = "unat (a - mHighestAckedSeq c)"
  have n: "?n = unat a - unat (mHighestAckedSeq c)" using a(1) by (intro unat_sub)
  define c1 where "c1 = c\<lparr>mAckMask := shiftAckMask t (s - mLastSeqRecvd c) (mAckMask c)\<rparr>"
  have c1: "mNotifyQueue c1 = mNotifyQueue c" "mHighestAckedSeq c1 = mHighestAckedSeq c"
      "mLastSeqRecvdAtSend c1 = mLastSeqRecvdAtSend c" "mLastRecvAckAck c1 = mLastRecvAckAck c" by (simp_all add: c1_def)
  have len: "?n \<le> length (mNotifyQueue c1)" "length (mLastSeqRecvdAtSend c1) = 32" and n30: "?n \<le> 30"
    using ok a n c1 by (auto simp: conn_ok_def unacked_def word_le_nat_alt)
  have u: "unat (of_nat (Suc j) :: u32) = Suc j" if "j < ?n" for j using that n30 by (intro unat_of_nat_u32) simp
  have "ackBit m a (mHighestAckedSeq c1 + (0 + of_nat j) + 1) \<noteq> None" if j: "j < ?n" for j
  proof (rule ackBit_in)
    have "a - (mHighestAckedSeq c1 + (0 + of_nat j) + 1) = (a - mHighestAckedSeq c) - of_nat (Suc j)"
      by (simp add: c1 algebra_simps)
    moreover have "unat ((a - mHighestAckedSeq c) - of_nat (Suc j)) = ?n - Suc j"
      using j u [OF j] by (subst unat_sub) (simp_all only: word_le_nat_alt)
    ultimately show "unat (a - (mHighestAckedSeq c1 + (0 + of_nat j) + 1)) < 32" using n30 by (simp only:)
    show "m \<noteq> None" using m j by (cases "a = mHighestAckedSeq c") simp_all
  qed
  then obtain c2 where c2: "notifyLoop cls e a m d ?n 0 c1 = Some c2" "mNotifyQueue c2 = drop ?n (mNotifyQueue c)"
      "seq_state c2 = seq_state c1" and x: "mLastRecvAckAck c2 = mLastRecvAckAck c \<or> (\<exists>j<?n. let k = mHighestAckedSeq c + (0 + of_nat j) + 1 in
        ackBit m a k = Some True \<and> mLastRecvAckAck c2 = mLastSeqRecvdAtSend c ! unat (k AND 31))"
    using notifyLoop_pops [OF len, of m a 0 e d] unfolding c1 by blast
  define x where "x = (if s - mLastRecvAckAck c2 > MaxPacketWindowSize then s - MaxPacketWindowSize else mLastRecvAckAck c2)"
  define c3 where "c3 = keepAlive (c2\<lparr>mLastRecvAckAck := x, mHighestAckedSeq := a, mLastSeqRecvd := s\<rparr>)"
  have c3: "mHighestAckedSeq c3 = a" "mLastSeqRecvd c3 = s" "mLastSendSeq c3 = mLastSendSeq c" "mLastRecvAckAck c3 = x"
      "mAckMask c3 = shiftAckMask t (s - mLastSeqRecvd c) (mAckMask c)" "mNotifyQueue c3 = drop ?n (mNotifyQueue c)"
      "mLastSeqRecvdAtSend c3 = mLastSeqRecvdAtSend c" "mSymmetricCipher c3 = mSymmetricCipher c"
      "mCurrentPacketSendSize c3 = mCurrentPacketSendSize c"
    using c2 by (simp_all add: c3_def keepAlive_def seq_state_def c1_def)
  have ok3: "conn_ok c3"
    using clamp_le [of s "mLastRecvAckAck c2"] by (intro conn_ok_after_accept [OF ok a]) (simp_all add: c3 flip: x_def)
  have prev: "mLastSeqRecvd c2 = mLastSeqRecvd c" using c2(3) by (simp add: seq_state_def c1_def)
  have run: "acceptHeader cls e t s a m d c = do {
      c' \<leftarrow> (if t = PingPacket \<or> s - mLastRecvAckAck c3 > drop_bit 1 MaxPacketWindowSize then sendAckPacket cls e c3 else Some c3);
      Some (mLastSeqRecvd c \<noteq> s \<and> t = DataPacket, c') }"
  proof -
    let ?c2 = "if s - mLastRecvAckAck c2 > MaxPacketWindowSize then c2\<lparr>mLastRecvAckAck := s - MaxPacketWindowSize\<rparr> else c2"
    have "?c2 = c2\<lparr>mLastRecvAckAck := x\<rparr>" by (simp add: x_def)
    then have "(keepAlive (?c2\<lparr>mHighestAckedSeq := a\<rparr>))\<lparr>mLastSeqRecvd := s\<rparr> = c3"
        "mLastSeqRecvd (keepAlive (?c2\<lparr>mHighestAckedSeq := a\<rparr>)) = mLastSeqRecvd c"
      by (simp_all add: c3_def keepAlive_def prev)
    then show ?thesis
      unfolding acceptHeader_def c1_def [symmetric] by (simp only: Let_def c1 c2(1) bind.bind_lunit)
  qed
  have old: "mLastRecvAckAck c2 = mLastRecvAckAck c \<or> (\<exists>k. unat (mHighestAckedSeq c) < unat k \<and> k \<le> a \<and> ackBit m a k = Some True \<and>
        mLastRecvAckAck c2 = mLastSeqRecvdAtSend c ! unat (k AND 31))"
    using x
  proof
    assume "\<exists>j<?n. let k = mHighestAckedSeq c + (0 + of_nat j) + 1 in
        ackBit m a k = Some True \<and> mLastRecvAckAck c2 = mLastSeqRecvdAtSend c ! unat (k AND 31)"
    then obtain j where j: "j < ?n" "ackBit m a (mHighestAckedSeq c + (0 + of_nat j) + 1) = Some True"
        "mLastRecvAckAck c2 = mLastSeqRecvdAtSend c ! unat ((mHighestAckedSeq c + (0 + of_nat j) + 1) AND 31)"
      by (auto simp: Let_def)
    have e: "mHighestAckedSeq c + (0 + of_nat j) + 1 = mHighestAckedSeq c + of_nat (Suc j)" by simp
    have "unat (mHighestAckedSeq c + of_nat (Suc j)) = unat (mHighestAckedSeq c) + Suc j"
      using j(1) n by (intro room_no_wrap [of _ _ a]) linarith
    then have "unat (mHighestAckedSeq c) < unat (mHighestAckedSeq c + of_nat (Suc j))" "mHighestAckedSeq c + of_nat (Suc j) \<le> a"
      using j(1) n by (simp_all only: word_le_nat_alt)
    then show ?thesis using j(2,3) unfolding e by blast
  qed simp
  obtain k acts where k: "sendAckPacket cls e c3 = Some (c3\<lparr>mSymmetricCipher := k, mOut := acts\<rparr>)"
      "\<forall>y. k = Some y \<longrightarrow> cipher_ready y"
    using sendControlPacket_ok [OF ok3 block, of AckPacket] by (auto simp: sendAckPacket_def packet_types)
  have "conn_ok (c3\<lparr>mSymmetricCipher := k, mOut := acts\<rparr>)" using ok3 k(2) by (simp add: conn_ok_def unacked_def)
  then obtain c' where c': "acceptHeader cls e t s a m d c = Some (mLastSeqRecvd c \<noteq> s \<and> t = DataPacket, c')" "conn_ok c'"
      "c' = c3 \<or> c' = c3\<lparr>mSymmetricCipher := k, mOut := acts\<rparr>"
    using run k ok3 by (cases "t = PingPacket \<or> s - mLastRecvAckAck c3 > drop_bit 1 MaxPacketWindowSize") auto
  have "mHighestAckedSeq c' = a" "mLastSeqRecvd c' = s" "mLastSendSeq c' = mLastSendSeq c" "mLastRecvAckAck c' = x"
      "mAckMask c' = shiftAckMask t (s - mLastSeqRecvd c) (mAckMask c)" "mNotifyQueue c' = drop ?n (mNotifyQueue c)"
      "mLastSeqRecvdAtSend c' = mLastSeqRecvdAtSend c"
    using c'(3) c3 by auto
  then show ?thesis using c'(1,2) old unfolding x_def by blast
qed

end

section \<open>Any header\<close>

lemma readHeaderStart_recv:
  assumes "recv_ok bs"
  shows "\<exists>h bs'. readHeaderStart bs = Some (h, bs') \<and> recv_ok bs' \<and> moved bs bs'"
proof -
  obtain t b1 where 1: "readInt 2 bs = Some (t, b1)" "recv_ok b1" "moved bs b1" using readInt_recv [OF assms, of 2] by auto
  obtain l b2 where 2: "readInt 5 b1 = Some (l, b2)" "recv_ok b2" "moved b1 b2" using readInt_recv [OF 1(2), of 5] by auto
  obtain f b3 where 3: "readFlag b2 = Some (f, b3)" "recv_ok b3" "moved b2 b3" using readFlag_recv [OF 2(2)] by auto
  obtain h b4 where 4: "readInt 6 b3 = Some (h, b4)" "recv_ok b4" "moved b3 b4" using readInt_recv [OF 3(2), of 6] by auto
  obtain a b5 where 5: "readInt 10 b4 = Some (a, b5)" "recv_ok b5" "moved b4 b5" using readInt_recv [OF 4(2), of 10] by auto
  obtain p b6 where 6: "readInt 0 b5 = Some (p, b6)" "recv_ok b6" "moved b5 b6" using readInt_recv [OF 5(2), of 0] by auto
  have "moved bs b6" using 1 2 3 4 5 6 by (blast intro: moved_trans)
  then show ?thesis using 1 2 3 4 5 6 by (simp add: readHeaderStart_def window_constants)
qed

definition packet_ok :: "bit_stream \<Rightarrow> bool" where
  "packet_ok bs \<longleftrightarrow> recv_ok bs \<and> unat (mBufSize bs) \<le> length (mDataPtr bs)"

lemma openPacket_recv:
  assumes bs: "packet_ok bs" and ok: "conn_ok c"
  shows "\<exists>r bs' k. openPacket s a t bs c = Some (r, bs', c\<lparr>mSymmetricCipher := k\<rparr>) \<and> recv_ok bs' \<and>
    (\<forall>x. k = Some x \<longrightarrow> cipher_ready x)"
proof (cases "mSymmetricCipher c")
  case None
  moreover have "c\<lparr>mSymmetricCipher := None\<rparr> = c" using None by simp
  ultimately show ?thesis using bs by (intro exI [of _ True] exI [of _ bs] exI [of _ None]) (simp add: openPacket_def packet_ok_def)
next
  case (Some k)
  let ?k = "setupCounter s a t 0 k"
  have "cipher_ready ?k" using ok Some setupCounter_ok [of k] by (simp add: cipher_ready_def conn_ok_def)
  then obtain r bs' k' where "decryptAndCheckHash MessageSignatureBytes PacketHeaderByteSize ?k bs = Some (r, bs', k')"
      "cipher_ready k'" "length (mDataPtr bs') = length (mDataPtr bs)" "bitNum bs' = bitNum bs" "maxReadBitNum bs' = maxReadBitNum bs"
    using decryptAndCheckHash_total [of ?k bs MessageSignatureBytes PacketHeaderByteSize] bs
    by (auto simp: packet_ok_def MessageSignatureBytes_def PacketHeaderByteSize_def)
  then show ?thesis using Some bs by (auto simp: openPacket_def Let_def packet_ok_def recv_ok_def)
qed

lemma readAckMask_recv:
  assumes "recv_ok bs" and "unat n \<le> 4"
  shows "\<exists>m bs'. readAckMask n bs = Some (m, bs') \<and> recv_ok bs' \<and> (m = None \<longleftrightarrow> n = 0)"
  using readInt_recv [OF assms(1), of "ucast (n * 8)"] ack_words [OF assms(2)] assms
  by (cases "n = 0") (auto simp: readAckMask_def)

text \<open>
  The one header the code must not be given: it acknowledges packets and carries no mask to say
  how they fared.
\<close>

definition maskless_ack :: "bit_stream \<Rightarrow> ('n, 'x) net_connection \<Rightarrow> bool" where
  "maskless_ack bs c \<longleftrightarrow> (\<exists>h bs1 bs2 c2 bs3.
     readHeaderStart bs = Some (h, bs1) \<and>
     fullSequence AckSequenceNumberWindowSize (mHighestAckedSeq c) (pkHighestAck h) \<noteq> mHighestAckedSeq c \<and>
     openPacket (fullSequence SequenceNumberWindowSize (mLastSeqRecvd c) (pkSequenceNumber h))
       (fullSequence AckSequenceNumberWindowSize (mHighestAckedSeq c) (pkHighestAck h)) (pkPacketType h) bs1 c = Some (True, bs2, c2) \<and>
     readRangedU32 0 MaxAckByteCount bs2 = Some (0, bs3))"

lemma fullSequence_ge:
  assumes w: "window = push_bit k 1" "k < 32" and no_wrap: "unat prev + 2 ^ k < 2 ^ 32"
  shows "prev \<le> fullSequence window prev pk"
proof -
  define H where "H = prev AND - window"
  have "unat prev = unat H + unat (take_bit k prev)"
    using split_low [of prev k] unat_high_plus_low [of prev k prev] unfolding H_def w(1) by simp
  moreover have "unat (take_bit k prev) < 2 ^ k" by (simp add: unsigned_take_bit_eq)
  moreover have "unat H \<le> unat (pk OR H)" using le_word_or2 [of H pk] by (simp add: word_le_nat_alt or.commute)
  ultimately have lt: "unat prev < unat (pk OR H) + 2 ^ k" by linarith
  have uw: "unat window = 2 ^ k"
    unfolding w(1) unsigned_push_bit_eq using w(2) power_strict_increasing [of k 32 "2::nat"]
    by (simp add: push_bit_eq_mult take_bit_nat_eq_self)
  show ?thesis
  proof (cases "pk OR H < prev")
    case True
    then have "unat ((pk OR H) + window) = unat (pk OR H) + 2 ^ k"
      using no_wrap uw by (simp add: unat_word_ariths word_less_nat_alt)
    then show ?thesis using True lt by (simp add: fullSequence_def Let_def word_le_nat_alt flip: H_def)
  next
    case False
    then show ?thesis by (simp add: fullSequence_def Let_def flip: H_def)
  qed
qed

context conn_callbacks
begin

lemma readPacketHeader_safe:
  assumes ok: "conn_ok c" and bs: "packet_ok bs" and block: "length (packetBlock e) = 1500"
    and m: "\<not> maskless_ack bs c"
  shows "\<exists>data bs' c'. readPacketHeader cls e bs c = Some (data, bs', c') \<and> conn_ok c' \<and> recv_ok bs'"
proof -
  obtain h b1 where 1: "readHeaderStart bs = Some (h, b1)" "recv_ok b1" "moved bs b1"
    using readHeaderStart_recv [of bs] bs unfolding packet_ok_def by blast
  define s where "s = fullSequence SequenceNumberWindowSize (mLastSeqRecvd c) (pkSequenceNumber h)"
  define a where "a = fullSequence AckSequenceNumberWindowSize (mHighestAckedSeq c) (pkHighestAck h)"
  have p1: "packet_ok b1" using 1 bs moved_fields [OF 1(3)] by (simp add: packet_ok_def)
  obtain r b2 k where 2: "openPacket s a (pkPacketType h) b1 c = Some (r, b2, c\<lparr>mSymmetricCipher := k\<rparr>)" "recv_ok b2"
      "\<forall>x. k = Some x \<longrightarrow> cipher_ready x" using openPacket_recv [OF p1 ok] by blast
  let ?c = "c\<lparr>mSymmetricCipher := k\<rparr>"
  have ok2: "conn_ok ?c" using ok 2(3) by (simp add: conn_ok_def unacked_def)
  obtain n b3 where 3: "readRangedU32 0 MaxAckByteCount b2 = Some (n, b3)" "recv_ok b3"
    using readRangedU32_recv [OF 2(2), where a = 0 and b = MaxAckByteCount] by (auto simp: window_constants binLog2_5)
  have refused: "readPacketHeader cls e bs c = Some (False, b1, c) \<or>
      readPacketHeader cls e bs c = Some (False, b2, ?c) \<or> readPacketHeader cls e bs c = Some (False, b3, ?c) \<or>
      r \<and> a \<le> mLastSendSeq c \<and> n \<le> MaxAckByteCount \<and>
      readPacketHeader cls e bs c = do {
        (pkAckMask, pstream) \<leftarrow> readAckMask n b3;
        (d, pstream) \<leftarrow> readInt 8 pstream;
        (data, c) \<leftarrow> acceptHeader cls e (pkPacketType h) s a pkAckMask (push_bit 3 d + 4) ?c;
        Some (data, pstream, c) }"
    using 1(1) 2(1) 3(1) by (auto simp: readPacketHeader_def Let_def s_def [symmetric] a_def [symmetric])
  show ?thesis
  proof (cases "r \<and> a \<le> mLastSendSeq c \<and> n \<le> MaxAckByteCount")
    case False
    then show ?thesis using refused ok ok2 1(2) 2(2) 3(2) by fastforce
  next
    case True
    then have n4: "unat n \<le> 4" by (simp add: window_constants word_le_nat_alt)
    obtain pm b4 where 4: "readAckMask n b3 = Some (pm, b4)" "recv_ok b4" "pm = None \<longleftrightarrow> n = 0"
      using readAckMask_recv [OF 3(2) n4] by blast
    obtain d b5 where 5: "readInt 8 b4 = Some (d, b5)" "recv_ok b5" using readInt_recv [OF 4(2), of 8] by auto
    have "mHighestAckedSeq ?c \<le> a"
      unfolding a_def using ok by (simp, intro fullSequence_ge [where k = 10]) (auto simp: window_constants conn_ok_def)
    moreover have "a \<noteq> mHighestAckedSeq ?c \<Longrightarrow> pm \<noteq> None"
      using m 1(1) 2(1) 3(1) 4(3) True unfolding maskless_ack_def s_def a_def by auto
    ultimately obtain c' where "acceptHeader cls e (pkPacketType h) s a pm (push_bit 3 d + 4) ?c =
        Some (mLastSeqRecvd ?c \<noteq> s \<and> pkPacketType h = DataPacket, c')" "conn_ok c'"
      using acceptHeader_run [OF ok2 block, of a pm "pkPacketType h" s "push_bit 3 d + 4"] True by auto
    then show ?thesis using refused 4(1) 5 ok ok2 1(2) 2(2) 3(2) by auto
  qed
qed

end

end
