(* ===== verification/Connection_Steps.thy ===== *)
theory Connection_Steps
  imports Packet_Receive
begin

text \<open>
  Whole operations of a connection: writing a data packet with its rate information, receiving a
  packet, the send timer and the ping timer. Each returns and keeps the invariant of the
  window; a connection as the constructor leaves it has the invariant, so every connection a run of these operations reaches has it.
\<close>

section \<open>Rate information\<close>

lemma nextBinLog2_small:
  "v \<noteq> 0 \<Longrightarrow> unat v < 2 ^ 24 \<Longrightarrow> unat (getNextBinLog2 v) = msb_index (unat v) + (if isPow2 v then 0 else 1)"
  by (simp add: unat_getNextBinLog2 getBinLog2_small)

lemma rate_widths: "getNextBinLog2 65536 = 16" "getNextBinLog2 2047 = 11"
proof -
  have m: "msb_index 65536 = 16" "msb_index 2047 = 10" by (simp_all add: msb_index.simps)
  have "unat (getNextBinLog2 65536) = unat (16 :: u32)" "unat (getNextBinLog2 2047) = unat (11 :: u32)"
    using m by (simp_all add: nextBinLog2_small isPow2_def)
  then show "getNextBinLog2 65536 = 16" "getNextBinLog2 2047 = 11" by (simp_all only: word_unat_eq_iff)
qed

definition rate_bits :: "net_rate \<Rightarrow> bool list" where
  "rate_bits r = int_bits 16 (maxRecvBandwidth r) @ int_bits 16 (maxSendBandwidth r) @
     int_bits 11 (minPacketRecvPeriod r - 1) @ int_bits 11 (minPacketSendPeriod r - 1)"

lemma length_rate_bits [simp]: "length (rate_bits r) = 54"
  by (simp add: rate_bits_def)

lemma writeRate_run:
  assumes "can_write bs L" "length xs + 54 \<le> L"
  shows "writeRate r (append_bits xs bs) = Some (append_bits (xs @ rate_bits r) bs)"
  using assms by (simp add: writeRate_def writeRangedU32_def MaxFixedBandwidth_def MaxFixedSendPeriod_def rate_widths
      writeInt_run [OF assms(1)] rate_bits_def)

text \<open>The rates a packet can carry: the ranges of its fields.\<close>

definition rate_valid :: "net_rate \<Rightarrow> bool" where
  "rate_valid r \<longleftrightarrow> maxRecvBandwidth r \<le> 65535 \<and> maxSendBandwidth r \<le> 65535 \<and>
     1 \<le> minPacketRecvPeriod r \<and> minPacketRecvPeriod r \<le> 2047 \<and> 1 \<le> minPacketSendPeriod r \<and> minPacketSendPeriod r \<le> 2047"

lemma rate_valid_bits:
  assumes "rate_valid r"
  shows "take_bit 16 (maxRecvBandwidth r) = maxRecvBandwidth r" "take_bit 16 (maxSendBandwidth r) = maxSendBandwidth r"
    "take_bit 11 (minPacketRecvPeriod r - 1) = minPacketRecvPeriod r - 1"
    "take_bit 11 (minPacketSendPeriod r - 1) = minPacketSendPeriod r - 1"
proof -
  have "unat (x - 1 :: u32) < 2048" if "1 \<le> x" "x \<le> 2047" for x
    using that unat_sub [of 1 x] by (simp add: word_le_nat_alt)
  then show "take_bit 11 (minPacketRecvPeriod r - 1) = minPacketRecvPeriod r - 1"
    "take_bit 11 (minPacketSendPeriod r - 1) = minPacketSendPeriod r - 1"
    using assms by (simp_all add: rate_valid_def take_bit_small)
qed (use assms in \<open>simp_all add: rate_valid_def take_bit_small word_le_nat_alt\<close>)

lemma take_drop_within: "k + n \<le> m \<Longrightarrow> take n (drop (p + k) B) = take n (drop k (take m (drop p B)))"
  by (simp add: take_drop add.commute min_absorb2)

lemma readInt_at:
  "can_read bs L \<Longrightarrow> next_bits bs L = B \<Longrightarrow> unat n = k \<Longrightarrow> k \<le> 32 \<Longrightarrow> p + k \<le> L \<Longrightarrow> p + k = q \<Longrightarrow>
   readInt n (skip_bits p bs) = Some (bits_value (take k (drop p B)), skip_bits q bs)"
  using readInt_run by blast

lemma readRate_takes:
  assumes r: "can_read bs L" "next_bits bs L = B" "p + 54 \<le> L" and b: "take 54 (drop p B) = rate_bits q"
    and valid: "rate_valid q"
  shows "readRate (skip_bits p bs) = Some (q, skip_bits (p + 54) bs)"
proof -
  have t: "take n (drop (p + k) B) = take n (drop k (rate_bits q))" if "k + n \<le> 54" for k n
    by (simp only: take_drop_within [OF that, of p B] b)
  have "take 16 (drop p B) = int_bits 16 (maxRecvBandwidth q)" "take 16 (drop (p + 16) B) = int_bits 16 (maxSendBandwidth q)"
    "take 11 (drop (p + 32) B) = int_bits 11 (minPacketRecvPeriod q - 1)" "take 11 (drop (p + 43) B) = int_bits 11 (minPacketSendPeriod q - 1)"
    using t [of 0 16] t [of 16 16] t [of 32 11] t [of 43 11] by (simp_all add: rate_bits_def)
  moreover have "readInt 16 (skip_bits p bs) = Some (bits_value (take 16 (drop p B)), skip_bits (p + 16) bs)"
      "readInt 16 (skip_bits (p + 16) bs) = Some (bits_value (take 16 (drop (p + 16) B)), skip_bits (p + 32) bs)"
      "readInt 11 (skip_bits (p + 32) bs) = Some (bits_value (take 11 (drop (p + 32) B)), skip_bits (p + 43) bs)"
      "readInt 11 (skip_bits (p + 43) bs) = Some (bits_value (take 11 (drop (p + 43) B)), skip_bits (p + 54) bs)"
    by (rule readInt_at [OF r(1,2)]; use r(3) in simp)+
  ultimately show ?thesis
    by (simp add: readRate_def readRangedU32_def MaxFixedBandwidth_def MaxFixedSendPeriod_def rate_widths rate_valid_bits [OF valid])
qed

definition rate_info_bits :: "('n, 'x) net_connection \<Rightarrow> bool list" where
  "rate_info_bits c =
     (if mLocalRateChanged c
      then True # (if mTypeFlags c AND ConnectionAdaptive \<noteq> 0 then [True] else False # rate_bits (mLocalRate c))
      else [False])"

lemma writePacketRateInfo_run:
  assumes "can_write bs L" "length xs + 56 \<le> L"
  shows "writePacketRateInfo (append_bits xs bs) nt c =
    Some (append_bits (xs @ rate_info_bits c) bs, nt\<lparr>rateChanged := mLocalRateChanged c\<rparr>, c\<lparr>mLocalRateChanged := False\<rparr>)"
  using assms by (simp add: writePacketRateInfo_def rate_info_bits_def writeFlag_run [OF assms(1)] writeRate_run [OF assms(1)])

text \<open>What the information does at the other end.\<close>

definition rate_received :: "('n, 'x) net_connection \<Rightarrow> ('m, 'y) net_connection \<Rightarrow> ('m, 'y) net_connection" where
  "rate_received s c =
     (if mLocalRateChanged s
      then if mTypeFlags s AND ConnectionAdaptive \<noteq> 0 then c\<lparr>mTypeFlags := mTypeFlags c OR ConnectionRemoteAdaptive\<rparr>
           else computeNegotiatedRate (c\<lparr>mRemoteRate := mLocalRate s\<rparr>)
      else c)"

lemma readPacketRateInfo_takes:
  assumes r: "can_read bs L" "next_bits bs L = B" and b: "take (length (rate_info_bits s)) (drop p B) = rate_info_bits s"
    and room: "p + length (rate_info_bits s) \<le> L"
    and valid: "rate_valid (mLocalRate s)"
  shows "readPacketRateInfo (skip_bits p bs) c = Some (skip_bits (p + length (rate_info_bits s)) bs, rate_received s c)"
proof -
  have len: "length B = L" using r by auto
  have nth: "B ! (p + i) = rate_info_bits s ! i" if "i < length (rate_info_bits s)" for i
    using that b room len by (metis add_leD1 nth_drop nth_take)
  have rate: "take 54 (drop (p + 2) B) = rate_bits (mLocalRate s)"
    if "mLocalRateChanged s" "mTypeFlags s AND ConnectionAdaptive = 0"
    using b that take_drop_within [of 2 54 56 p B] by (simp add: rate_info_bits_def)
  note run = readFlag_run [OF r]
  consider "\<not> mLocalRateChanged s" | "mLocalRateChanged s" "mTypeFlags s AND ConnectionAdaptive \<noteq> 0"
    | "mLocalRateChanged s" "mTypeFlags s AND ConnectionAdaptive = 0" by blast
  then show ?thesis
  proof cases
    case 1
    with nth [of 0] room show ?thesis by (simp add: readPacketRateInfo_def rate_info_bits_def rate_received_def run)
  next
    case 2
    with nth [of 0] nth [of 1] room show ?thesis
      by (simp add: readPacketRateInfo_def rate_info_bits_def rate_received_def run numeral_2_eq_2)
  next
    case 3
    have l: "length (rate_info_bits s) = 56" using 3 by (simp add: rate_info_bits_def)
    have q: "readRate (skip_bits (p + 2) bs) = Some (mLocalRate s, skip_bits (p + 2 + 54) bs)"
      using room l by (intro readRate_takes [OF r _ rate [OF 3] valid]) simp
    have "readRate (skip_bits (p + 1 + 1) bs) = Some (mLocalRate s, skip_bits (p + 56) bs)"
      using q by (simp only: add.assoc one_add_one) simp
    moreover have "B ! p" "\<not> B ! (p + 1)" using nth [of 0] nth [of 1] 3 by (simp_all add: rate_info_bits_def)
    ultimately show ?thesis using l room 3
      by (simp add: readPacketRateInfo_def rate_received_def run del: One_nat_def)
  qed
qed

section \<open>Sending data\<close>

lemma extends_sealable:
  assumes s: "sealable bs" and x: "extends bs bs'"
  shows "sealable bs'"
proof -
  obtain xs where x: "can_write bs (length xs)" "bitNum bs' = bitNum bs + of_nat (length xs)"
      "mDataPtr bs' = put_bits (mDataPtr bs) (unat (bitNum bs)) xs" "maxWriteBitNum bs' = maxWriteBitNum bs"
      "maxReadBitNum bs' = maxReadBitNum bs" "mOwnsMemory bs' = mOwnsMemory bs"
    using x unfolding extends_def by blast
  moreover have "unat (bitNum bs + of_nat (length xs)) = unat (bitNum bs) + length xs"
    using x(1) by (intro room_no_wrap [of _ _ "maxWriteBitNum bs"]) (simp add: can_write_def)
  ultimately show ?thesis using s by (auto simp: sealable_def can_write_def stream_ok_def)
qed

lemma conn_ok_sent:
  assumes ok: "conn_ok c" and w: "\<not> windowFull c" and room: "unat (mLastSendSeq c) + 1025 < 2 ^ 32"
    and q: "mNotifyQueue c' = mNotifyQueue c @ [nt]" and s: "seq_state c' = seq_state (header_sent DataPacket c)"
      "mLastRecvAckAck c' = mLastRecvAckAck c"
  shows "conn_ok c'" and "mLastSendSeq c' = mLastSendSeq c + 1"
proof -
  have u: "unat (mLastSendSeq c + 1) = unat (mLastSendSeq c) + 1" using room by (simp add: unat_word_ariths)
  have f: "mLastSendSeq c' = mLastSendSeq c + 1" "mHighestAckedSeq c' = mHighestAckedSeq c" "mLastSeqRecvd c' = mLastSeqRecvd c"
      "length (mLastSeqRecvdAtSend c') = length (mLastSeqRecvdAtSend c)" "mSymmetricCipher c' = mSymmetricCipher c"
      "mCurrentPacketSendSize c' = mCurrentPacketSendSize c"
    using s(1) by (auto simp: seq_state_def header_sent_def)
  then show "mLastSendSeq c' = mLastSendSeq c + 1" by simp
  show "conn_ok c'"
    using ok window_open [OF ok w] room u q s(2) f by (auto simp: conn_ok_def unacked_def)
qed

context conn_callbacks
begin

lemma writeDataPart_ok:
  assumes p: "stream_ok p" "can_write p 12000" "bitNum p = 0" "\<not> mOwnsMemory p" "length (mDataPtr p) = 1500"
    and h: "24 \<le> length hdr" "length hdr \<le> 67"
  shows "\<exists>bs' nt c'. writeDataPart cls e (append_bits hdr p) c = Some (bs', c'\<lparr>mNotifyQueue := mNotifyQueue c @ [nt]\<rparr>) \<and>
    sealable bs' \<and> window_state c' = window_state c"
proof -
  let ?nt = "\<lparr>rateChanged = False, sendTime = getCurrentTime e, stringList = [], noteData = allocNotify cls\<rparr>"
  let ?xs = "hdr @ rate_info_bits c" and ?c = "c\<lparr>mLocalRateChanged := False\<rparr>"
  have l: "length (rate_info_bits c) \<le> 56" by (simp add: rate_info_bits_def)
  have r: "writePacketRateInfo (append_bits hdr p) ?nt c =
      Some (append_bits ?xs p, ?nt\<lparr>rateChanged := mLocalRateChanged c\<rparr>, ?c)"
    using writePacketRateInfo_run [OF p(2), of hdr ?nt c] h by simp
  let ?b = "(append_bits ?xs p)\<lparr>mStringTableSet := mStringTable ?c \<noteq> None\<rparr>"
  have room: "can_write (append_bits ?xs p) 0"
    using can_write_append [of p ?xs 0] can_write_mono [OF p(2)] h l by simp
  have s: "sealable ?b" using sealable_append [OF p, of ?xs] h l by (simp add: sealable_def stream_ok_def)
  have "can_write ?b 0" using room by (simp add: can_write_def stream_ok_def)
  from write_ok [OF this, of "?nt\<lparr>rateChanged := mLocalRateChanged c\<rparr>" ?c] obtain bs' nt c' where
    w: "writePacket cls ?b (?nt\<lparr>rateChanged := mLocalRateChanged c\<rparr>) ?c = Some (bs', nt, c')"
      "window_state c' = window_state ?c" "extends ?b bs'" by blast
  have "window_state c' = window_state c" using w(2) by (simp add: window_state_def)
  moreover have "mNotifyQueue c' = mNotifyQueue c" using calculation window_state_fields by blast
  ultimately show ?thesis using r w extends_sealable [OF s w(3)]
    by (auto simp: writeDataPart_def Let_def)
qed

lemma writeData_ok:
  assumes ok: "conn_ok c" and w: "\<not> windowFull c" and room: "unat (mLastSendSeq c) + 1025 < 2 ^ 32"
    and block: "length (packetBlock e) = 1500" and target: "unat target \<le> 1500"
  shows "\<exists>bs' c'. writeRawPacket cls e DataPacket (PacketStream_new e target) c = Some (bs', c') \<and>
    unat (getBytePosition bs') \<le> length (mDataPtr bs') \<and> conn_ok c' \<and> mLastSendSeq c' = mLastSendSeq c + 1 \<and>
    (\<exists>k. seq_state c' = seq_state ((header_sent DataPacket c)\<lparr>mSymmetricCipher := k\<rparr>)) \<and> mLastRecvAckAck c' = mLastRecvAckAck c"
proof -
  note p = PacketStream_ok [OF block target]
  let ?c = "header_sent DataPacket c"
  obtain hdr where hdr: "writePacketHeader e DataPacket (PacketStream_new e target) c = Some (append_bits hdr (PacketStream_new e target), ?c)"
      "35 \<le> length hdr" "length hdr \<le> 67"
    using header_fresh [OF ok w block target] by blast
  obtain bs nt c1 where d: "writeDataPart cls e (append_bits hdr (PacketStream_new e target)) ?c =
      Some (bs, c1\<lparr>mNotifyQueue := mNotifyQueue ?c @ [nt]\<rparr>)" "sealable bs" "window_state c1 = window_state ?c"
    using writeDataPart_ok [OF p, of hdr] hdr by fastforce
  let ?c2 = "c1\<lparr>mNotifyQueue := mNotifyQueue ?c @ [nt]\<rparr>"
  have q: "mNotifyQueue ?c = mNotifyQueue c" "mLastRecvAckAck ?c = mLastRecvAckAck c" by (simp_all add: header_sent_def)
  have s2: "seq_state ?c2 = seq_state ?c" "mLastRecvAckAck ?c2 = mLastRecvAckAck c"
    using window_state_fields [OF d(3)] q by (simp_all add: seq_state_def)
  have q2: "mNotifyQueue ?c2 = mNotifyQueue c @ [nt]" using q by simp
  note ok2 = conn_ok_sent [OF ok w room q2 s2]
  have "\<And>k. mSymmetricCipher ?c2 = Some k \<Longrightarrow> cipher_ready k" using ok2(1) by (simp add: conn_ok_def)
  then obtain bs' k where k: "sealPacket DataPacket bs ?c2 = Some (bs', ?c2\<lparr>mSymmetricCipher := k\<rparr>)"
      "unat (getBytePosition bs') \<le> length (mDataPtr bs')" "\<forall>x. k = Some x \<longrightarrow> cipher_ready x"
    using sealPacket_ok [OF d(2)] by blast
  have "conn_ok (?c2\<lparr>mSymmetricCipher := k\<rparr>)" using ok2(1) k(3) by (simp add: conn_ok_def unacked_def)
  moreover have "seq_state (?c2\<lparr>mSymmetricCipher := k\<rparr>) = seq_state (?c\<lparr>mSymmetricCipher := k\<rparr>)"
    using s2(1) by (simp add: seq_state_def)
  ultimately show ?thesis using hdr d k ok2(2) s2(2) by (auto simp: writeRawPacket_def)
qed

end

section \<open>Whole operations\<close>

lemma computeNegotiatedRate_ok: "conn_ok c \<Longrightarrow> conn_ok (computeNegotiatedRate c)"
  by (auto simp: computeNegotiatedRate_def Let_def conn_ok_def unacked_def MaxPacketDataSize_def word_less_nat_alt not_less)

lemma conn_ok_update [simp]:
  "conn_ok (c\<lparr>mErrorBuffer := b\<rparr>) = conn_ok c" "conn_ok (c\<lparr>mLastPacketRecvTime := t\<rparr>) = conn_ok c"
  "conn_ok (c\<lparr>mTypeFlags := f\<rparr>) = conn_ok c" "conn_ok (c\<lparr>mRemoteRate := r\<rparr>) = conn_ok c"
  "conn_ok (c\<lparr>mLocalRate := r\<rparr>) = conn_ok c" "conn_ok (c\<lparr>mLocalRateChanged := l\<rparr>) = conn_ok c"
  "conn_ok (c\<lparr>mSendDelayCredit := t\<rparr>) = conn_ok c" "conn_ok (c\<lparr>mLastUpdateTime := t\<rparr>) = conn_ok c"
  "conn_ok (c\<lparr>mLastPingSendTime := t\<rparr>) = conn_ok c" "conn_ok (c\<lparr>mPingSendCount := t\<rparr>) = conn_ok c"
  "conn_ok (c\<lparr>mLastSeqRecvdAck := t\<rparr>) = conn_ok c" "conn_ok (c\<lparr>mLastAckTime := t\<rparr>) = conn_ok c"
  "conn_ok (c\<lparr>mOut := a\<rparr>) = conn_ok c"
  by (simp_all add: conn_ok_def unacked_def)

lemma conn_ok_cipher: "conn_ok c \<Longrightarrow> (\<forall>x. k = Some x \<longrightarrow> cipher_ready x) \<Longrightarrow> conn_ok (c\<lparr>mSymmetricCipher := k\<rparr>)"
  by (simp add: conn_ok_def unacked_def)

lemma readRate_recv:
  assumes "recv_ok bs"
  shows "\<exists>r bs'. readRate bs = Some (r, bs') \<and> recv_ok bs'"
proof -
  note rd = readRangedU32_recv [where a = 0 and b = 65535] readRangedU32_recv [where a = 1 and b = 2047]
  obtain a b1 where 1: "readRangedU32 0 65535 bs = Some (a, b1)" "recv_ok b1" using rd(1) [OF assms] by (auto simp: rate_widths)
  obtain b b2 where 2: "readRangedU32 0 65535 b1 = Some (b, b2)" "recv_ok b2" using rd(1) [OF 1(2)] by (auto simp: rate_widths)
  obtain c b3 where 3: "readRangedU32 1 2047 b2 = Some (c, b3)" "recv_ok b3" using rd(2) [OF 2(2)] by (auto simp: rate_widths)
  obtain d b4 where 4: "readRangedU32 1 2047 b3 = Some (d, b4)" "recv_ok b4" using rd(2) [OF 3(2)] by (auto simp: rate_widths)
  show ?thesis using 1 2 3 4 by (simp add: readRate_def MaxFixedBandwidth_def MaxFixedSendPeriod_def)
qed

lemma readPacketRateInfo_ok:
  assumes bs: "recv_ok bs" and ok: "conn_ok c"
  shows "\<exists>bs' c'. readPacketRateInfo bs c = Some (bs', c') \<and> recv_ok bs' \<and> conn_ok c'"
proof -
  obtain f b1 where 1: "readFlag bs = Some (f, b1)" "recv_ok b1" using readFlag_recv [OF bs] by blast
  obtain g b2 where 2: "readFlag b1 = Some (g, b2)" "recv_ok b2" using readFlag_recv [OF 1(2)] by blast
  obtain r b3 where 3: "readRate b2 = Some (r, b3)" "recv_ok b3" using readRate_recv [OF 2(2)] by blast
  show ?thesis using 1 2 3 ok by (auto simp: readPacketRateInfo_def intro: computeNegotiatedRate_ok)
qed

context conn_callbacks
begin

lemma readRawPacket_ok:
  assumes ok: "conn_ok c" and bs: "packet_ok bs" and block: "length (packetBlock e) = 1500" and m: "\<not> maskless_ack bs c"
  shows "\<exists>bs' c'. readRawPacket cls e bs c = Some (bs', c') \<and> conn_ok c'"
proof (cases "mSimulatedPacketLoss c \<noteq> 0 \<and> recvDraw e < mSimulatedPacketLoss c")
  case True
  then show ?thesis using ok by (simp add: readRawPacket_def)
next
  case False
  let ?c = "c\<lparr>mErrorBuffer := []\<rparr>"
  have "\<not> maskless_ack bs ?c"
    using m by (auto simp: maskless_ack_def openPacket_def split: option.splits Option.bind_splits)
  then obtain data b1 c1 where 1: "readPacketHeader cls e bs ?c = Some (data, b1, c1)" "conn_ok c1" "recv_ok b1"
    using readPacketHeader_safe [of ?c bs e] ok bs block by auto
  obtain b2 c2 where 2: "readPacketRateInfo b1 (c1\<lparr>mLastPacketRecvTime := getCurrentTime e\<rparr>) = Some (b2, c2)" "recv_ok b2" "conn_ok c2"
    using readPacketRateInfo_ok [OF 1(3), of "c1\<lparr>mLastPacketRecvTime := getCurrentTime e\<rparr>"] 1(2) by auto
  have "recv_ok (b2\<lparr>mStringTableSet := x\<rparr>)" for x using 2(2) by (simp add: recv_ok_def)
  then obtain b3 c3 where 3: "readPacket cls (b2\<lparr>mStringTableSet := mStringTable c2 \<noteq> None\<rparr>) c2 = Some (b3, c3)" "conn_ok c3"
    using read_ok [of "b2\<lparr>mStringTableSet := mStringTable c2 \<noteq> None\<rparr>" c2] window_state_fields 2(3) by blast
  then show ?thesis using False 1 2 by (auto simp: readRawPacket_def Let_def emit_def)
qed

lemma sendControl_conn_ok:
  assumes "conn_ok c" "length (packetBlock e) = 1500" "t \<noteq> DataPacket"
  shows "\<exists>c'. sendControlPacket cls e t c = Some c' \<and> conn_ok c'"
  using sendControlPacket_ok [OF assms] conn_ok_cipher [OF assms(1)] by fastforce

lemma checkTimeout_ok:
  assumes ok: "conn_ok c" and block: "length (packetBlock e) = 1500"
  shows "\<exists>r c'. checkTimeout cls e time c = Some (r, c') \<and> conn_ok c'"
proof -
  define c1 where "c1 = (if mLastPingSendTime c = 0 then c\<lparr>mLastPingSendTime := time\<rparr> else c)"
  have ok1: "conn_ok (c1\<lparr>mLastPingSendTime := time, mPingSendCount := n\<rparr>)" "conn_ok c1" for n
    using ok by (simp_all add: c1_def)
  obtain c2 where "sendPingPacket cls e (c1\<lparr>mLastPingSendTime := time, mPingSendCount := mPingSendCount c1 + 1\<rparr>) = Some c2" "conn_ok c2"
    using sendControl_conn_ok [OF ok1(1) block, of PingPacket] by (auto simp: sendPingPacket_def packet_types)
  then show ?thesis using ok ok1 unfolding checkTimeout_def Let_def c1_def [symmetric]
    by (auto split: prod.split)
qed

lemma checkPacketSend_ok:
  assumes ok: "conn_ok c" and block: "length (packetBlock e) = 1500" and room: "unat (mLastSendSeq c) + 1025 < 2 ^ 32"
  shows "\<exists>c'. checkPacketSend cls e force t c = Some c' \<and> conn_ok c'"
proof (cases "\<not> force \<and> \<not> isAdaptive c \<and> \<not> sendDue t c")
  case True
  then show ?thesis using ok by (simp add: checkPacketSend_def)
next
  case False
  define c1 where "c1 = (if \<not> force \<and> \<not> isAdaptive c then takeCredit t c else c)"
  have c1: "conn_ok c1" "mLastSendSeq c1 = mLastSendSeq c" using ok by (simp_all add: c1_def takeCredit_def Let_def)
  obtain c2 where c2: "prepareWritePacket cls c1 = Some c2" "window_state c2 = window_state c1" using prepare_ok by blast
  have ok2: "conn_ok c2" "mLastSendSeq c2 = mLastSendSeq c"
    using window_state_fields [OF c2(2)] c1 by (simp_all add: seq_state_def)
  let ?a = "c2\<lparr>mLastSeqRecvdAck := mLastSeqRecvd c2, mLastAckTime := t\<rparr>" and ?u = "c2\<lparr>mLastUpdateTime := t\<rparr>"
  obtain ca where ca: "sendAckPacket cls e ?a = Some ca" "conn_ok ca"
    using sendControl_conn_ok [of ?a e AckPacket] ok2 block by (auto simp: sendAckPacket_def packet_types)
  show ?thesis
  proof (cases "windowFull c2 \<or> \<not> isDataToTransmit cls c2")
    case True
    then show ?thesis using False c2(1) ok2 ca unfolding checkPacketSend_def Let_def c1_def [symmetric] by auto
  next
    case can_send: False
    have "windowFull ?u = windowFull c2" by (simp add: windowFull_def isAdaptive_def)
    with can_send have "\<not> windowFull ?u" by blast
    moreover have "unat (mCurrentPacketSendSize c2) \<le> 1500" using ok2 by (simp add: conn_ok_def)
    ultimately obtain bs c3 where 3: "writeRawPacket cls e DataPacket (PacketStream_new e (mCurrentPacketSendSize c2)) ?u = Some (bs, c3)"
        "unat (getBytePosition bs) \<le> length (mDataPtr bs)" "conn_ok c3"
      using writeData_ok [of ?u e "mCurrentPacketSendSize c2"] ok2 room block by auto
    obtain acts where "sendPacket e bs c3 = Some (c3\<lparr>mOut := acts\<rparr>)" using sendPacket_ok [OF 3(2)] by blast
    then show ?thesis using False can_send c2(1) 3 unfolding checkPacketSend_def Let_def c1_def [symmetric] by auto
  qed
qed

end

section \<open>Runs\<close>

text \<open>
  A connection under its interface: packets arrive, from the peer or from anyone, the two timers
  run, the application changes its rates. A send needs room in the numbers, which wrap after \<open>2 ^ 32\<close>
  packets; the connection that gets there is treated apart.
\<close>

inductive conn_run :: "('n, 'x) conn_class \<Rightarrow> ('n, 'x) net_connection \<Rightarrow> ('n, 'x) net_connection \<Rightarrow> bool" for cls c0 where
  start: "conn_run cls c0 c0"
| receive: "conn_run cls c0 c \<Longrightarrow> packet_ok bs \<Longrightarrow> length (packetBlock e) = 1500 \<Longrightarrow> \<not> maskless_ack bs c \<Longrightarrow>
    readRawPacket cls e bs c = Some (bs', c') \<Longrightarrow> conn_run cls c0 c'"
| send: "conn_run cls c0 c \<Longrightarrow> length (packetBlock e) = 1500 \<Longrightarrow> unat (mLastSendSeq c) + 1025 < 2 ^ 32 \<Longrightarrow>
    checkPacketSend cls e force t c = Some c' \<Longrightarrow> conn_run cls c0 c'"
| timeout: "conn_run cls c0 c \<Longrightarrow> length (packetBlock e) = 1500 \<Longrightarrow> checkTimeout cls e t c = Some (r, c') \<Longrightarrow> conn_run cls c0 c'"
| adaptive: "conn_run cls c0 c \<Longrightarrow> conn_run cls c0 (setIsAdaptive c)"
| rates: "conn_run cls c0 c \<Longrightarrow> conn_run cls c0 (setFixedRateParameters sp rp sb rb c)"

lemma new_connection_ok:
  assumes "length (mLastSeqRecvdAtSend raw) = 32" and "unat seq + 1024 < 2 ^ 32"
  shows "conn_ok (setInitialRecvSequence r (NetConnection_new seq nonce raw))"
proof -
  have "unat (mCurrentPacketSendSize (computeNegotiatedRate c)) \<le> 1500" for c :: "('a, 'b) net_connection"
    by (auto simp: computeNegotiatedRate_def Let_def MaxPacketDataSize_def word_less_nat_alt not_less)
  moreover have "mLastSeqRecvdAtSend (computeNegotiatedRate c) = mLastSeqRecvdAtSend c"
    "mNotifyQueue (computeNegotiatedRate c) = mNotifyQueue c" for c :: "('a, 'b) net_connection"
    by (simp_all add: computeNegotiatedRate_def Let_def)
  ultimately show ?thesis using assms
    by (simp add: conn_ok_def unacked_def setInitialRecvSequence_def NetConnection_new_def Let_def)
qed

context conn_callbacks
begin

lemma run_ok: "conn_run cls c0 c \<Longrightarrow> conn_ok c0 \<Longrightarrow> conn_ok c"
proof (induction rule: conn_run.induct)
  case (receive c bs e bs' c')
  then show ?case using readRawPacket_ok [of c bs e] by simp
next
  case (send c e force t c')
  then show ?case using checkPacketSend_ok [of c e force t] by simp
next
  case (timeout c e t r c')
  then show ?case using checkTimeout_ok [of c e t] by simp
qed (simp_all add: setIsAdaptive_def setFixedRateParameters_def computeNegotiatedRate_ok)

end

text \<open>The base class provides the contract.\<close>

lemma extends_refl: "can_write bs 0 \<Longrightarrow> extends bs bs"
  unfolding extends_def by (rule exI [of _ "[]"]) simp

interpretation base: conn_callbacks "base_class n"
  by unfold_locales (simp_all add: base_class_def base_packetReceived_def base_packetDropped_def window_state_def extends_refl)


end
