(* ===== verification/Bit_Stream_Growth.thy ===== *)
theory Bit_Stream_Growth
  imports Bit_Stream_Codec
begin

text \<open>
  \<^verbatim>\<open>BitStream::resizeBits\<close>: a stream that owns its buffer grows when a write passes its
  end, and every bit written before the growth is kept.
\<close>

section \<open>Resizable streams\<close>

text \<open>
  A stream that owns its memory, with the write limit at the end of its buffer, grows
  instead of failing; the bits already written stay.
\<close>

definition growable :: "bit_stream \<Rightarrow> bool" where
  "growable bs \<longleftrightarrow> mOwnsMemory bs \<and> length (mDataPtr bs) = unat (mBufSize bs) \<and>
     unat (maxWriteBitNum bs) = 8 * unat (mBufSize bs) \<and> unat (maxReadBitNum bs) = 8 * unat (mBufSize bs)"

lemma growable_stream_ok: "growable bs \<Longrightarrow> stream_ok bs"
  by (simp add: growable_def stream_ok_def)

lemma growable_new: "growable (BitStream_resizable fresh sbuf)"
  by (simp add: growable_def BitStream_resizable_def reset_def setMaxSizes_def malloc_def push_bit_eq_mult)

lemma bit_at_take: "take k m' = take k m \<Longrightarrow> k \<le> length m \<Longrightarrow> k \<le> length m' \<Longrightarrow> p < 8 * k \<Longrightarrow> bit_at m' p = bit_at m p"
  by (metis bit_at_def less_mult_imp_div_less mult.commute nth_take)

lemma unat_drop3: "unat (drop_bit 3 (w :: u32)) = unat w div 8"
  by (simp add: unat_drop_bit_eq drop_bit_eq_div unat_div)

lemma resizeBits_growable:
  assumes g: "growable bs" and lim: "unat (maxWriteBitNum bs) + unat newBits + 12040 < 2 ^ 32"
  shows "\<exists>bs'. resizeBits newBits bs = (True, bs') \<and> growable bs' \<and> bitNum bs' = bitNum bs \<and>
    error bs' = error bs \<and> unat (maxWriteBitNum bs) + unat newBits \<le> unat (maxWriteBitNum bs') \<and>
    (\<forall>p < unat (maxWriteBitNum bs). bit_at (mDataPtr bs') p = bit_at (mDataPtr bs) p)"
proof -
  define ns where "ns = drop_bit 3 (maxWriteBitNum bs + newBits + 7) + ResizePad"
  have a: "unat (maxWriteBitNum bs + newBits + 7) = unat (maxWriteBitNum bs) + unat newBits + 7"
    using lim by (simp add: unat_word_ariths)
  have d3: "unat (drop_bit 3 (maxWriteBitNum bs + newBits + 7)) = (unat (maxWriteBitNum bs) + unat newBits + 7) div 8"
    by (simp only: unat_drop3 a)
  have ns: "unat ns = (unat (maxWriteBitNum bs) + unat newBits + 7) div 8 + 1500"
  proof -
    have "unat ns = (unat (drop_bit 3 (maxWriteBitNum bs + newBits + 7)) + 1500) mod 2 ^ 32"
      by (simp add: ns_def ResizePad_def unat_word_ariths)
    then show ?thesis using lim by (simp only: d3) simp
  qed
  have p3: "unat (push_bit 3 ns) = 8 * unat ns"
    using ns lim by (simp add: push_bit_eq_mult unat_word_ariths)
  have gt: "\<not> mBufSize bs \<ge> ns" using ns g by (simp add: word_le_nat_alt growable_def)
  let ?bs' = "bs\<lparr>mBufSize := ns, mDataPtr := realloc (mFresh bs) (mDataPtr bs) (unat ns),
      maxReadBitNum := push_bit 3 ns, maxWriteBitNum := push_bit 3 ns\<rparr>"
  have "resizeBits newBits bs = (True, ?bs')"
    using gt g by (simp add: resizeBits_def Let_def ns_def [symmetric] resize_def growable_def)
  moreover have "growable ?bs'" using g p3 by (simp add: growable_def)
  moreover have "bit_at (realloc (mFresh bs) (mDataPtr bs) (unat ns)) p = bit_at (mDataPtr bs) p"
    if "p < unat (maxWriteBitNum bs)" for p
  proof -
    have "p div 8 < length (mDataPtr bs)" using that g by (simp add: growable_def less_mult_imp_div_less mult.commute)
    moreover have "length (mDataPtr bs) \<le> unat ns" using g ns by (simp add: growable_def)
    ultimately show ?thesis by (simp add: bit_at_def)
  qed
  ultimately show ?thesis using p3 ns by simp
qed

lemma ensureBits_growable:
  assumes g: "growable bs" and pos: "unat (bitNum bs) \<le> unat (maxWriteBitNum bs)"
    and lim: "unat (maxWriteBitNum bs) + unat n + 12040 < 2 ^ 32"
  shows "\<exists>bs1. ensureBits n bs = (True, bs1) \<and> growable bs1 \<and> bitNum bs1 = bitNum bs \<and>
      error bs1 = error bs \<and> unat (bitNum bs) + unat n \<le> unat (maxWriteBitNum bs1) \<and>
      (\<forall>p < unat (maxWriteBitNum bs). bit_at (mDataPtr bs1) p = bit_at (mDataPtr bs) p)"
proof -
  have "unat n + unat (bitNum bs) < 2 ^ 32" using pos lim by linarith
  then have sum: "unat (n + bitNum bs) = unat n + unat (bitNum bs)"
    using unat_plus_small [of n "unat (bitNum bs)"] by simp
  show ?thesis
  proof (cases "n + bitNum bs > maxWriteBitNum bs")
    case False
    then have "unat n + unat (bitNum bs) \<le> unat (maxWriteBitNum bs)"
      by (simp only: not_less word_le_nat_alt sum)
    then show ?thesis using False g by (simp add: ensureBits_def)
  next
    case True
    define nb where "nb = n + bitNum bs - maxWriteBitNum bs"
    have nb: "unat nb = unat n + unat (bitNum bs) - unat (maxWriteBitNum bs)"
      using True unat_sub [of "maxWriteBitNum bs" "n + bitNum bs"] sum by (simp add: nb_def)
    have "unat (maxWriteBitNum bs) + unat nb + 12040 < 2 ^ 32" using nb lim pos by linarith
    from resizeBits_growable [OF g this] obtain bs1 where "resizeBits nb bs = (True, bs1)" "growable bs1"
      "bitNum bs1 = bitNum bs" "error bs1 = error bs"
      "unat (maxWriteBitNum bs) + unat nb \<le> unat (maxWriteBitNum bs1)"
      "\<forall>p < unat (maxWriteBitNum bs). bit_at (mDataPtr bs1) p = bit_at (mDataPtr bs) p" by blast
    then show ?thesis using True nb by (intro exI [of _ bs1]) (simp add: ensureBits_def nb_def)
  qed
qed

lemma writeBits_ensured:
  assumes "ensureBits n bs = (True, bs1)" and w: "can_write bs1 (unat n)" and "unat n \<le> 8 * length src"
    and b: "bitNum bs1 = bitNum bs" and n: "n \<noteq> 0"
  shows "writeBits n src bs = Some (True, append_bits (get_bits src 0 (unat n)) bs1)"
proof -
  have "unat (n + bitNum bs1) = unat (bitNum bs1) + unat n"
    using w room_no_wrap [of "bitNum bs1" "unat n" "maxWriteBitNum bs1"] by (simp add: can_write_def add.commute)
  then have "\<not> maxWriteBitNum bs1 < n + bitNum bs1"
    using w by (simp add: can_write_def word_less_nat_alt)
  then have "ensureBits n bs1 = (True, bs1)" by (simp add: ensureBits_def)
  then show ?thesis using writeBits_fits [OF w assms(3)] assms(1) n by (simp add: writeBits_def)
qed

lemma writeBits_growable:
  assumes g: "growable bs" and pos: "unat (bitNum bs) \<le> unat (maxWriteBitNum bs)" and n: "n \<noteq> 0"
    and lim: "unat (maxWriteBitNum bs) + unat n + 12040 < 2 ^ 32" and src: "unat n \<le> 8 * length src"
  shows "\<exists>bs'. writeBits n src bs = Some (True, bs') \<and> growable bs' \<and> error bs' = error bs \<and>
    unat (bitNum bs') = unat (bitNum bs) + unat n \<and> unat (bitNum bs') \<le> unat (maxWriteBitNum bs') \<and>
    (\<forall>p < unat (bitNum bs). bit_at (mDataPtr bs') p = bit_at (mDataPtr bs) p) \<and>
    (\<forall>p < unat n. bit_at (mDataPtr bs') (unat (bitNum bs) + p) = bit_at src p)"
proof -
  from ensureBits_growable [OF g pos lim] obtain bs1 where e: "ensureBits n bs = (True, bs1)"
    and g1: "growable bs1" and b1: "bitNum bs1 = bitNum bs" "error bs1 = error bs"
    and room: "unat (bitNum bs) + unat n \<le> unat (maxWriteBitNum bs1)"
    and same: "\<And>p. p < unat (maxWriteBitNum bs) \<Longrightarrow> bit_at (mDataPtr bs1) p = bit_at (mDataPtr bs) p" by blast
  have w: "can_write bs1 (unat n)" using room g1 b1 growable_stream_ok by (simp add: can_write_def)
  then have fits: "unat (bitNum bs) + unat n \<le> 8 * length (mDataPtr bs1)"
    using b1 by (simp add: can_write_def stream_ok_def)
  let ?bs' = "append_bits (get_bits src 0 (unat n)) bs1"
  have "writeBits n src bs = Some (True, ?bs')" by (rule writeBits_ensured [OF e w src b1(1) n])
  moreover have "growable ?bs'" using g1 by (simp add: growable_def append_bits_def)
  moreover have "unat (bitNum ?bs') = unat (bitNum bs) + unat n"
    using room_no_wrap [OF room] b1 by (simp add: append_bits_def)
  moreover have "bit_at (mDataPtr ?bs') p = bit_at (mDataPtr bs) p" if "p < unat (bitNum bs)" for p
    using that fits b1 same [of p] pos by (simp add: append_bits_def bit_view)
  moreover have "bit_at (mDataPtr ?bs') (unat (bitNum bs) + p) = bit_at src p" if "p < unat n" for p
    using that fits b1 by (simp add: append_bits_def bit_view)
  moreover have "unat (bitNum bs) + unat n \<le> unat (maxWriteBitNum ?bs')" using room by (simp add: append_bits_def)
  moreover have "error ?bs' = error bs" using b1 by (simp add: append_bits_def)
  ultimately show ?thesis by (intro exI [of _ ?bs']) simp
qed

end
