(* ===== verification/Packet_Crossing.thy ===== *)
theory Packet_Crossing
  imports Connection_Steps Bit_Stream_Growth
begin

text \<open>
  A packet from one connection to another: what the sender wrote, sealed and handed to the socket
  is what the receiver opens and reads, provided both hold the same key and the numbers of the header lie in
  the windows of the receiver.
\<close>

section \<open>Receiving a datagram\<close>

text \<open>\<^verbatim>\<open>PacketStream::recvfrom\<close>: the bytes lie at the start of the buffer, whose rest is junk.\<close>

definition PacketStream_recvfrom :: "packet_env \<Rightarrow> mem \<Rightarrow> bit_stream" where
  "PacketStream_recvfrom e bytes =
     (let buffer = bytes @ drop (length bytes) (packetBlock e); dataSize = of_nat (length bytes);
          ps = PacketStream_new e MaxPacketDataSize
      in reset (setMaxSizes dataSize 0 (setBuffer buffer dataSize ps)))"

lemma recvfrom_fields:
  assumes "length bytes \<le> 1500"
  shows "bitNum (PacketStream_recvfrom e bytes) = 0" "unat (mBufSize (PacketStream_recvfrom e bytes)) = length bytes"
    "mDataPtr (PacketStream_recvfrom e bytes) = bytes @ drop (length bytes) (packetBlock e)"
    "unat (maxReadBitNum (PacketStream_recvfrom e bytes)) = 8 * length bytes"
    "maxWriteBitNum (PacketStream_recvfrom e bytes) = 0"
proof -
  have n: "unat (of_nat (length bytes) :: u32) = length bytes" using assms by (intro unat_of_nat_u32) simp
  then have "unat (push_bit 3 (of_nat (length bytes) :: u32)) = 8 * length bytes"
    using assms by (intro unat_push3 [THEN trans]) simp_all
  with n show "unat (mBufSize (PacketStream_recvfrom e bytes)) = length bytes"
    and "unat (maxReadBitNum (PacketStream_recvfrom e bytes)) = 8 * length bytes"
    by (simp_all add: PacketStream_recvfrom_def Let_def reset_def setMaxSizes_def setBuffer_def)
qed (simp_all add: PacketStream_recvfrom_def Let_def reset_def setMaxSizes_def setBuffer_def)

lemma recvfrom_packet_ok:
  assumes "length bytes < 1500" and "length (packetBlock e) = 1500"
  shows "packet_ok (PacketStream_recvfrom e bytes)"
  using assms by (simp add: packet_ok_def recv_ok_def recvfrom_fields)

section \<open>Sealing and opening\<close>

definition same_key :: "symmetric_cipher option \<Rightarrow> symmetric_cipher option \<Rightarrow> bool" where
  "same_key a b = (case (a, b) of
       (None, None) \<Rightarrow> True
     | (Some k, Some l) \<Rightarrow> mInitVector k = mInitVector l \<and> mSymmetricKey k = mSymmetricKey l
     | _ \<Rightarrow> False)"

lemma setupCounter_agree:
  "mInitVector k = mInitVector l \<Longrightarrow> mSymmetricKey k = mSymmetricKey l \<Longrightarrow> setupCounter a b c d k = setupCounter a b c d l"
  by (cases k; cases l) (simp add: setupCounter_def Let_def)

lemma get_bits_prefix: "n \<le> 8 * k \<Longrightarrow> get_bits (take k m @ z) 0 n = get_bits m 0 n" if "k \<le> length m"
  using that by (intro nth_equalityI) (auto simp: bit_at_take [of k "take k m @ z" m])

lemma bytes_of_bits: "n < 2 ^ 30 \<Longrightarrow> unat (getBytePosition bs) = (n + 7) div 8" if "unat (bitNum bs) = n"
  using that unat_plus_small [of "bitNum bs" 7]
  unfolding getBytePosition_def unat_drop_bit_eq by (simp add: drop_bit_eq_div)

text \<open>A written packet: \<open>xs\<close> from its start to the bit position, with room for the signature behind it.\<close>

definition packet_with :: "bool list \<Rightarrow> bit_stream \<Rightarrow> bool" where
  "packet_with xs bs \<longleftrightarrow> stream_ok bs \<and> \<not> mOwnsMemory bs \<and> length (mDataPtr bs) = 1500 \<and>
     unat (maxWriteBitNum bs) = 12000 \<and> unat (bitNum bs) = length xs \<and> 24 \<le> length xs \<and> length xs \<le> 11952 \<and>
     get_bits (mDataPtr bs) 0 (length xs) = xs"

lemma ceil_bounds: "n \<le> 8 * ((n + 7) div 8)" "(n + 7) div 8 \<le> 1494" "3 \<le> (n + 7) div 8"
  if "n \<le> 11952" "24 \<le> n" for n :: nat
  using that by (simp_all add: less_eq_div_iff_mult_less_eq)

lemma clear_arrives:
  assumes bs: "packet_with xs bs" and e: "length (packetBlock e) = 1500"
  defines "q \<equiv> PacketStream_recvfrom e (take (unat (getBytePosition bs)) (mDataPtr bs))"
  shows "can_read q (length xs)" and "next_bits q (length xs) = xs"
proof -
  define d where "d = (length xs + 7) div 8"
  have d: "length xs \<le> 8 * d" "d \<le> 1494" using bs ceil_bounds [of "length xs"] by (simp_all add: packet_with_def d_def)
  have u: "unat (getBytePosition bs) = d"
    using bs bytes_of_bits [of bs "length xs"] by (simp add: packet_with_def d_def)
  have l: "length (take d (mDataPtr bs)) = d" using bs d by (simp add: packet_with_def)
  note q = recvfrom_fields [of "take d (mDataPtr bs)" e, unfolded l]
  show "can_read q (length xs)"
    using q d e bs by (simp add: q_def u can_read_def stream_ok_def l packet_with_def)
  show "next_bits q (length xs) = xs"
    using q d bs get_bits_prefix [of d "mDataPtr bs" "length xs"] by (simp add: q_def u next_bits_def packet_with_def)
qed

lemma sealed_arrives:
  assumes bs: "packet_with xs bs" and e: "length (packetBlock e) = 1500" and k: "cipher_ready k"
  shows "\<exists>bs' k'. hashAndEncrypt 5 3 k bs = Some (bs', k') \<and>
    (let q = PacketStream_recvfrom e (take (unat (getBytePosition bs')) (mDataPtr bs')) in
     can_read q 24 \<and> next_bits q 24 = take 24 xs \<and>
     (\<exists>b. decryptAndCheckHash 5 3 k (skip_bits 24 q) = Some (True, b, k') \<and>
        can_read b (length xs - 24) \<and> next_bits b (length xs - 24) = drop 24 xs))"
proof -
  define d where "d = (length xs + 7) div 8"
  have d: "length xs \<le> 8 * d" "d \<le> 1494" "3 \<le> d" using bs ceil_bounds [of "length xs"] by (simp_all add: packet_with_def d_def)
  have u: "unat (getBytePosition bs) = d"
    using bs bytes_of_bits [of bs "length xs"] by (simp add: packet_with_def d_def)
  define p where "p = take d (mDataPtr bs)"
  have p: "length p = d" using bs d by (simp add: packet_with_def p_def)
  obtain ct k' bs' where seal: "hashAndEncrypt 5 3 k bs = Some (bs', k')"
      and ct: "encrypt (drop 3 p @ take 5 (sha256 p)) k = Some (ct, k')" "length ct = d - 3 + 5"
      and bs': "bs' = bs\<lparr>bitNum := of_nat (8 * (d + 5)), mDataPtr := take 3 p @ ct @ drop (d + 5) (mDataPtr bs)\<rparr>"
    using hashAndEncrypt_seals [of bs k 5 d 3 p] bs k u d by (auto simp: packet_with_def p_def)
  have "unat (bitNum bs') = 8 * (d + 5)" unfolding bs' using d unat_of_nat_u32 [of "8 * (d + 5)"] by simp
  then have u': "unat (getBytePosition bs') = d + 5" using bytes_of_bits [of bs' "8 * (d + 5)"] d by simp
  define bytes where "bytes = take 3 p @ ct"
  have "mDataPtr bs' = bytes @ drop (d + 5) (mDataPtr bs)" by (simp add: bs' bytes_def)
  then have bytes: "take (unat (getBytePosition bs')) (mDataPtr bs') = bytes" "length bytes = d + 5"
    using d p ct by (simp_all add: u' bytes_def)
  define q where "q = PacketStream_recvfrom e bytes"
  note qf = recvfrom_fields [of bytes e, folded q_def, unfolded bytes(2)]
  have rd: "can_read q 24" using qf d e by (simp add: can_read_def stream_ok_def bytes)
  have "get_bits (take 3 p @ z) 0 24 = take 24 xs" for z
  proof -
    have "get_bits (take 3 (mDataPtr bs) @ z) 0 24 = get_bits (mDataPtr bs) 0 24"
      using get_bits_prefix [of 3 "mDataPtr bs" 24 z] bs by (simp add: packet_with_def)
    also have "\<dots> = take 24 xs"
      using bs get_bits_split [of "mDataPtr bs" 0 24 "length xs - 24"] by (simp add: packet_with_def) (metis append_eq_conv_conj length_get_bits)
    finally show ?thesis using d by (simp add: p_def min_def)
  qed
  then have nb: "next_bits q 24 = take 24 xs" using qf d by (simp add: next_bits_def bytes_def)
  let ?s = "skip_bits 24 q"
  have s: "mDataPtr ?s = take (unat (3 :: u32)) p @ ct @ drop (d + 5) (packetBlock e)" "unat (mBufSize ?s) = length p + unat (5 :: u32)"
    using qf d p by (simp_all add: skip_bits_def bytes_def)
  obtain b where b: "decryptAndCheckHash 5 3 k ?s = Some (True, b, k')" "mDataPtr b = p @ take (unat (5 :: u32)) (sha256 p) @ drop (d + 5) (packetBlock e)"
      "bitNum b = bitNum ?s" "maxReadBitNum b = maxReadBitNum ?s"
    using decryptAndCheckHash_opens [OF _ _ _ _ s(1) s(2), of k k'] ct p d by auto
  have n: "bitNum b = 24" "unat (maxReadBitNum b) = 8 * (d + 5)" using b qf d by (simp_all add: skip_bits_def)
  have "maxWriteBitNum b = 0"
    using decryptAndCheckHash_total [OF k, of ?s 5 3] b(1) s qf d e by (auto simp: skip_bits_def bytes)
  then have "can_read b (length xs - 24)"
    using n d p e b(2) bs by (auto simp: can_read_def stream_ok_def packet_with_def)
  moreover have "next_bits b (length xs - 24) = drop 24 xs"
  proof -
    have "get_bits (mDataPtr b) 0 (length xs) = get_bits (mDataPtr bs) 0 (length xs)"
      using get_bits_prefix [of d "mDataPtr bs" "length xs"] d bs by (simp add: b(2) p_def packet_with_def)
    then have "get_bits (mDataPtr b) 0 24 @ get_bits (mDataPtr b) 24 (length xs - 24) = xs"
      using bs get_bits_split [of "mDataPtr b" 0 24 "length xs - 24"] by (simp add: packet_with_def)
    then show ?thesis using n by (simp add: next_bits_def) (metis append_eq_conv_conj length_get_bits)
  qed
  ultimately show ?thesis using seal rd nb b(1) by (auto simp: Let_def bytes q_def)
qed

section \<open>The header across\<close>

lemma take_take_drop: "p + n \<le> k \<Longrightarrow> take n (drop p (take k h)) = take n (drop p h)"
  by (simp add: drop_take min_def)

lemma readHeaderStart_clear:
  assumes r: "can_read bs 24" and b: "next_bits bs 24 = take 24 (header_bits t s a n m d)"
  shows "readHeaderStart bs = Some (\<lparr>pkPacketType = take_bit 2 t, pkSequenceNumber = take_bit 11 s,
     pkHighestAck = take_bit 10 a, pkPadBits = 0\<rparr>, skip_bits 24 bs)"
proof -
  note i = readInt_run [OF r b] readFlag_run [OF r b]
  have "readInt 2 bs = Some (take_bit 2 t, skip_bits 2 bs)"
    using i(1) [of 0 2] take_take_drop [of 0 2 24] drop_header(1) [of t s a n m d]
    by (simp del: One_nat_def add: numeral_2_eq_2 [symmetric])
  moreover have "drop 14 (take 24 (header_bits t s a n m d)) = int_bits 10 a"
    using drop_header(5) [of t s a n m d] by (simp add: drop_take)
  ultimately show ?thesis
    by (simp add: readHeaderStart_def window_constants i take_take_drop drop_header join_low_high bits_value_Nil)
qed

lemma readPacketHeader_opens:
  assumes r: "can_read bs 24" "next_bits bs 24 = take 24 (header_bits t s a n m d)"
    and opens: "openPacket s a t (skip_bits 24 bs) c = Some (True, b, c1)"
    and o: "can_read b (11 + 8 * unat n)" "next_bits b (11 + 8 * unat n) = drop 24 (header_bits t s a n m d)"
    and t: "t < InvalidPacketType" and n: "unat n \<le> 4" and d: "unat d < 256"
    and s: "s - mLastSeqRecvd c < MaxPacketWindowSize"
    and a: "a - mHighestAckedSeq c < AckSequenceNumberWindowSize" "a \<le> mLastSendSeq c"
  shows "readPacketHeader cls e bs c = do {
     (data, c) \<leftarrow> acceptHeader cls e t s a (ack_mask_of n m) (push_bit 3 d + 4) c1;
     Some (data, skip_bits (11 + 8 * unat n) b, c) }"
proof -
  note i = readInt_run [OF o]
  have h: "take k (drop p (drop 24 (header_bits t s a n m d))) = take k (drop (p + 24) (header_bits t s a n m d))" for k p by simp
  have seq: "fullSequence SequenceNumberWindowSize (mLastSeqRecvd c) (take_bit 11 s) = s"
    using s by (intro fullSequence_restores) (auto simp: window_constants word_less_nat_alt)
  have ack: "fullSequence AckSequenceNumberWindowSize (mHighestAckedSeq c) (take_bit 10 a) = a"
    using a by (intro fullSequence_restores) (auto simp: window_constants)
  have t3: "unat t < 3" using t by (simp add: packet_types word_less_nat_alt)
  have tb: "take_bit 2 t = t" "take_bit 3 n = n" "take_bit 8 d = d" using t3 n d by (auto intro!: take_bit_small)
  have w: "\<not> s - mLastSeqRecvd c > MaxPacketWindowSize - 1"
    using s by (simp add: window_constants word_less_nat_alt)
  have "readInt 3 b = Some (n, skip_bits 3 b)"
    using i [of 0 3] h [of 3 0] drop_header(6) [of t s a n m d] tb by (simp del: drop_drop)
  then have cnt: "readRangedU32 0 MaxAckByteCount b = Some (n, skip_bits 3 b)"
    by (simp add: readRangedU32_def window_constants binLog2_5)
  have msk: "readAckMask n (skip_bits 3 b) = Some (ack_mask_of n m, skip_bits (3 + 8 * unat n) b)"
    using readAckMask_takes [OF o, of 3 n] n drop_header(7) [of n t s a m d] by (simp add: ack_mask_of_def)
  have "readInt 8 (skip_bits (3 + 8 * unat n) b) =
      Some (bits_value (take 8 (drop (3 + 8 * unat n) (drop 24 (header_bits t s a n m d)))), skip_bits (11 + 8 * unat n) b)"
    by (rule readInt_at [OF o]) simp_all
  then have dly: "readInt 8 (skip_bits (3 + 8 * unat n) b) = Some (d, skip_bits (11 + 8 * unat n) b)"
    using drop_header(8) [of n t s a m d] tb by simp
  have n4: "\<not> n > MaxAckByteCount" using n by (simp add: window_constants word_less_nat_alt)
  have "\<not> a > mLastSendSeq c" "\<not> t \<ge> InvalidPacketType" using a(2) t by auto
  then show ?thesis
    using w n4 by (simp add: readPacketHeader_def readHeaderStart_clear [OF r] seq ack tb opens cnt msk dly)
qed

section \<open>Whole packets\<close>

lemma sealed_crosses:
  fixes s :: "('n, 'x) net_connection" and r :: "('m, 'y) net_connection"
  assumes bs: "packet_with xs bs" and e: "length (packetBlock e) = 1500"
    and k: "same_key (mSymmetricCipher s) (mSymmetricCipher r)" "\<And>k. mSymmetricCipher s = Some k \<Longrightarrow> cipher_ready k"
  shows "\<exists>bs' k' b. sealPacket t bs s = Some (bs', s\<lparr>mSymmetricCipher := k'\<rparr>) \<and>
    (let q = PacketStream_recvfrom e (take (unat (getBytePosition bs')) (mDataPtr bs')) in
     can_read q 24 \<and> next_bits q 24 = take 24 xs \<and>
     openPacket (mLastSendSeq s) (mLastSeqRecvd s) t (skip_bits 24 q) r = Some (True, b, r\<lparr>mSymmetricCipher := k'\<rparr>) \<and>
     can_read b (length xs - 24) \<and> next_bits b (length xs - 24) = drop 24 xs)"
proof (cases "mSymmetricCipher s")
  case None
  let ?q = "PacketStream_recvfrom e (take (unat (getBytePosition bs)) (mDataPtr bs))"
  have l: "24 + (length xs - 24) = length xs" using bs by (simp add: packet_with_def)
  note q = clear_arrives [OF bs e]
  have q': "can_read ?q (24 + (length xs - 24))" using q l by simp
  have nb: "next_bits ?q 24 @ next_bits (skip_bits 24 ?q) (length xs - 24) = xs"
    using next_bits_add [OF q'] q l by simp
  have "next_bits ?q 24 = take 24 xs" "next_bits (skip_bits 24 ?q) (length xs - 24) = drop 24 xs"
    using nb by (metis append_eq_conv_conj length_get_bits next_bits_def)+
  moreover have "can_read ?q 24" "can_read (skip_bits 24 ?q) (length xs - 24)"
    using q' by (auto intro: can_read_mono can_read_skip)
  moreover have "mSymmetricCipher r = None" using k(1) None by (auto simp: same_key_def split: option.splits)
  ultimately show ?thesis using None
    by (intro exI [of _ bs] exI [of _ None] exI [of _ "skip_bits 24 ?q"]) (simp add: sealPacket_def openPacket_def Let_def)
next
  case (Some ks)
  then obtain kr where kr: "mSymmetricCipher r = Some kr" "mInitVector ks = mInitVector kr" "mSymmetricKey ks = mSymmetricKey kr"
    using k(1) by (auto simp: same_key_def split: option.splits)
  let ?k = "setupCounter (mLastSendSeq s) (mLastSeqRecvd s) t 0 ks"
  have "cipher_ready ?k" using k(2) [OF Some] setupCounter_ok [of ks] by (simp add: cipher_ready_def)
  from sealed_arrives [OF bs e this] setupCounter_agree [OF kr(2,3)] show ?thesis
    by (auto simp: sealPacket_def openPacket_def Let_def Some kr(1) MessageSignatureBytes_def PacketHeaderByteSize_def)
qed

lemma packet_crosses:
  fixes s :: "('n, 'x) net_connection" and r :: "('m, 'y) net_connection"
  assumes bs: "packet_with (header_bits t (mLastSendSeq s) (mLastSeqRecvd s) n m d @ body) bs" and e: "length (packetBlock e) = 1500"
    and k: "same_key (mSymmetricCipher s) (mSymmetricCipher r)" "\<And>k. mSymmetricCipher s = Some k \<Longrightarrow> cipher_ready k"
    and h: "t < InvalidPacketType" "unat n \<le> 4" "unat d < 256"
    and w: "mLastSendSeq s - mLastSeqRecvd r < MaxPacketWindowSize"
      "mLastSeqRecvd s - mHighestAckedSeq r < AckSequenceNumberWindowSize" "mLastSeqRecvd s \<le> mLastSendSeq r"
  shows "\<exists>bs' k' b. sealPacket t bs s = Some (bs', s\<lparr>mSymmetricCipher := k'\<rparr>) \<and>
    readPacketHeader cls e (PacketStream_recvfrom e (take (unat (getBytePosition bs')) (mDataPtr bs'))) r = do {
      (data, c) \<leftarrow> acceptHeader cls e t (mLastSendSeq s) (mLastSeqRecvd s) (ack_mask_of n m) (push_bit 3 d + 4)
        (r\<lparr>mSymmetricCipher := k'\<rparr>);
      Some (data, b, c) } \<and>
    can_read b (length body) \<and> next_bits b (length body) = body"
proof -
  let ?h = "header_bits t (mLastSendSeq s) (mLastSeqRecvd s) n m d"
  obtain bs' k' b where 1: "sealPacket t bs s = Some (bs', s\<lparr>mSymmetricCipher := k'\<rparr>)"
    and 2: "let q = PacketStream_recvfrom e (take (unat (getBytePosition bs')) (mDataPtr bs')) in
     can_read q 24 \<and> next_bits q 24 = take 24 (?h @ body) \<and>
     openPacket (mLastSendSeq s) (mLastSeqRecvd s) t (skip_bits 24 q) r = Some (True, b, r\<lparr>mSymmetricCipher := k'\<rparr>) \<and>
     can_read b (length (?h @ body) - 24) \<and> next_bits b (length (?h @ body) - 24) = drop 24 (?h @ body)"
    using sealed_crosses [OF bs e k, of t] by blast
  define q where "q = PacketStream_recvfrom e (take (unat (getBytePosition bs')) (mDataPtr bs'))"
  have q: "can_read q 24" "next_bits q 24 = take 24 ?h"
    "openPacket (mLastSendSeq s) (mLastSeqRecvd s) t (skip_bits 24 q) r = Some (True, b, r\<lparr>mSymmetricCipher := k'\<rparr>)"
    and b: "can_read b (11 + 8 * unat n + length body)" "next_bits b (11 + 8 * unat n + length body) = drop 24 ?h @ body"
    using 2 by (simp_all add: q_def Let_def add.assoc)
  have nb: "next_bits b (11 + 8 * unat n) @ next_bits (skip_bits (11 + 8 * unat n) b) (length body) = drop 24 ?h @ body"
    using next_bits_add [OF b(1)] b(2) by simp
  have "length (drop 24 ?h) = 11 + 8 * unat n" by simp
  then have nb: "next_bits b (11 + 8 * unat n) = drop 24 ?h" "next_bits (skip_bits (11 + 8 * unat n) b) (length body) = body"
    using nb by (metis append_eq_append_conv length_get_bits next_bits_def)+
  have cr: "can_read b (11 + 8 * unat n)" "can_read (skip_bits (11 + 8 * unat n) b) (length body)"
    using b(1) by (auto intro: can_read_mono can_read_skip)
  from readPacketHeader_opens [OF q cr(1) nb(1) h w, of cls e] 1 cr(2) nb(2) show ?thesis
    unfolding q_def by blast
qed

text \<open>A stream that continues a fresh packet, with room for the signature.\<close>

lemma append_packet_with:
  assumes e: "length (packetBlock e) = 1500" and target: "unat target \<le> 1500" and xs: "24 \<le> length xs" "length xs \<le> 11952"
  shows "packet_with xs ((append_bits xs (PacketStream_new e target))\<lparr>mStringTableSet := b\<rparr>)"
proof -
  note p = PacketStream_ok [OF e target]
  have u: "unat (of_nat (length xs) :: u32) = length xs" using xs by (intro unat_of_nat_u32) simp
  have "next_bits ((append_bits xs (PacketStream_new e target))\<lparr>bitNum := bitNum (PacketStream_new e target)\<rparr>) (length xs) = xs"
    using xs by (intro next_bits_append_bits can_write_mono [OF p(2)]) simp
  moreover have "unat (maxWriteBitNum (PacketStream_new e target)) = 12000"
    by (simp add: PacketStream_new_def BitStream_new_def reset_def setMaxSizes_def MaxPacketDataSize_def)
  ultimately show ?thesis
    using p xs u by (simp add: packet_with_def append_bits_def next_bits_def stream_ok_def)
qed

lemma append_bits_set: "append_bits xs (bs\<lparr>mStringTableSet := b\<rparr>) = (append_bits xs bs)\<lparr>mStringTableSet := b\<rparr>"
  by (simp add: append_bits_def)

text \<open>What the derived class writes in a data packet, when the class just appends bits.\<close>

definition writes_payload :: "('n, 'x) conn_class \<Rightarrow> bool list \<Rightarrow> bool" where
  "writes_payload cls ys \<longleftrightarrow> (\<forall>bs nt c. can_write bs (length ys) \<longrightarrow>
     (\<exists>nt' c'. writePacket cls bs nt c = Some (append_bits ys bs, nt', c') \<and> window_state c' = window_state c))"

definition data_header :: "packet_env \<Rightarrow> ('n, 'x) net_connection \<Rightarrow> bool list" where
  "data_header e s = header_bits DataPacket (mLastSendSeq s + 1) (mLastSeqRecvd s) (ackByteCount s) (mAckMask s)
     (drop_bit 3 (currentDelay e s))"

lemma data_header_length: "conn_ok s \<Longrightarrow> 35 \<le> length (data_header e s) \<and> length (data_header e s) \<le> 67"
  using ackByteCount_le [of s] by (simp add: data_header_def conn_ok_def)

lemma data_packet_written:
  fixes s :: "('n, 'x) net_connection"
  assumes ok: "conn_ok s" "\<not> windowFull s" and e: "length (packetBlock e) = 1500" and target: "unat target \<le> 1500"
    and p: "writes_payload cls ys" "length ys \<le> 11800"
  shows "\<exists>bs s'. writePacketHeader e DataPacket (PacketStream_new e target) s =
        Some (append_bits (data_header e s) (PacketStream_new e target), header_sent DataPacket s) \<and>
      writeDataPart cls e (append_bits (data_header e s) (PacketStream_new e target)) (header_sent DataPacket s) = Some (bs, s') \<and>
      packet_with (data_header e s @ rate_info_bits s @ ys) bs \<and> seq_state s' = seq_state (header_sent DataPacket s)"
proof -
  let ?P = "PacketStream_new e target" and ?s = "header_sent DataPacket s"
  let ?nt = "\<lparr>rateChanged = False, sendTime = getCurrentTime e, stringList = [], noteData = allocNotify cls\<rparr>"
  let ?xs = "data_header e s @ rate_info_bits s"
  note P = PacketStream_ok [OF e target]
  have n: "unat (ackByteCount s) \<le> 4" using ok by (intro ackByteCount_le) (simp add: conn_ok_def)
  have room: "can_write ?P (35 + 8 * unat (ackByteCount s))" using n by (intro can_write_mono [OF P(2)]) simp
  have 1: "writePacketHeader e DataPacket ?P s = Some (append_bits (data_header e s) ?P, ?s)"
    using writePacketHeader_fits [OF room n, of DataPacket e] ok by (simp add: data_header_def conn_ok_def header_sent_def)
  have h: "35 \<le> length (data_header e s)" "length (data_header e s) \<le> 67" using data_header_length [OF ok(1)] by blast+
  have rb: "rate_info_bits ?s = rate_info_bits s" by (simp add: rate_info_bits_def header_sent_def)
  have l: "length (rate_info_bits s) \<le> 56" by (simp add: rate_info_bits_def)
  have 2: "writePacketRateInfo (append_bits (data_header e s) ?P) ?nt ?s =
      Some (append_bits ?xs ?P, ?nt\<lparr>rateChanged := mLocalRateChanged ?s\<rparr>, ?s\<lparr>mLocalRateChanged := False\<rparr>)"
    using writePacketRateInfo_run [OF P(2), of "data_header e s" ?nt ?s] h by (simp add: rb)
  let ?b = "(append_bits ?xs ?P)\<lparr>mStringTableSet := mStringTable ?s \<noteq> None\<rparr>"
  have cw: "can_write ?P (length ?xs + length ys)" using h l p(2) by (intro can_write_mono [OF P(2)]) simp
  then have "can_write ?b (length ys)" using can_write_append [of ?P ?xs "length ys"] by (simp add: can_write_def stream_ok_def)
  then obtain nt c where w: "writePacket cls ?b (?nt\<lparr>rateChanged := mLocalRateChanged ?s\<rparr>) (?s\<lparr>mLocalRateChanged := False\<rparr>) =
      Some (append_bits ys ?b, nt, c)" "window_state c = window_state (?s\<lparr>mLocalRateChanged := False\<rparr>)"
    using p(1) unfolding writes_payload_def by blast
  have "append_bits ys ?b = (append_bits (?xs @ ys) ?P)\<lparr>mStringTableSet := mStringTable ?s \<noteq> None\<rparr>"
    by (simp only: append_bits_set append_bits_append [OF cw] append.assoc)
  then have "packet_with (?xs @ ys) (append_bits ys ?b)"
    using append_packet_with [OF e target, of "?xs @ ys"] h l p(2) by simp
  moreover have "seq_state (c\<lparr>mNotifyQueue := q\<rparr>) = seq_state ?s" for q
    using w(2) by (auto simp: window_state_def seq_state_def)
  ultimately show ?thesis using 1 2 w by (auto simp: writeDataPart_def Let_def)
qed

lemma delay_byte: "unat (drop_bit 3 (currentDelay e s)) < 256"
proof -
  have "unat (currentDelay e s) \<le> 2047" by (simp add: currentDelay_def Let_def word_le_nat_alt not_less)
  then show ?thesis unfolding unat_drop_bit_eq by (simp add: drop_bit_eq_div)
qed

text \<open>
  The whole way: the sender's \<open>writeRawPacket\<close>, the datagram, the receiver's \<open>readPacketHeader\<close> and
  \<open>readPacketRateInfo\<close>, up to the bits the derived class wrote.
\<close>

lemma data_packet_crosses:
  fixes s :: "('n, 'x) net_connection" and r :: "('m, 'y) net_connection"
  assumes ok: "conn_ok s" "\<not> windowFull s" "rate_valid (mLocalRate s)" and e: "length (packetBlock e) = 1500" "length (packetBlock e') = 1500"
    and target: "unat target \<le> 1500" and p: "writes_payload cls ys" "length ys \<le> 11800"
    and k: "same_key (mSymmetricCipher s) (mSymmetricCipher r)"
    and w: "mLastSendSeq s + 1 - mLastSeqRecvd r < MaxPacketWindowSize"
      "mLastSeqRecvd s - mHighestAckedSeq r < AckSequenceNumberWindowSize" "mLastSeqRecvd s \<le> mLastSendSeq r"
  shows "\<exists>bs s' k' b. writeRawPacket cls e DataPacket (PacketStream_new e target) s = Some (bs, s') \<and>
    readPacketHeader cls' e' (PacketStream_recvfrom e' (take (unat (getBytePosition bs)) (mDataPtr bs))) r = do {
      (data, c) \<leftarrow> acceptHeader cls' e' DataPacket (mLastSendSeq s + 1) (mLastSeqRecvd s)
        (ack_mask_of (ackByteCount s) (mAckMask s)) (push_bit 3 (drop_bit 3 (currentDelay e s)) + 4)
        (r\<lparr>mSymmetricCipher := k'\<rparr>);
      Some (data, b, c) } \<and>
    (\<forall>c :: ('m, 'y) net_connection. readPacketRateInfo b c = Some (skip_bits (length (rate_info_bits s)) b, rate_received s c)) \<and>
    can_read (skip_bits (length (rate_info_bits s)) b) (length ys) \<and>
    next_bits (skip_bits (length (rate_info_bits s)) b) (length ys) = ys"
proof -
  obtain bs0 s0 where hd: "writePacketHeader e DataPacket (PacketStream_new e target) s =
        Some (append_bits (data_header e s) (PacketStream_new e target), header_sent DataPacket s)"
      and dt: "writeDataPart cls e (append_bits (data_header e s) (PacketStream_new e target)) (header_sent DataPacket s) = Some (bs0, s0)"
      and pw: "packet_with (data_header e s @ rate_info_bits s @ ys) bs0" and st: "seq_state s0 = seq_state (header_sent DataPacket s)"
    using data_packet_written [OF ok(1,2) e(1) target p] by blast
  have f: "mLastSendSeq s0 = mLastSendSeq s + 1" "mLastSeqRecvd s0 = mLastSeqRecvd s" "mSymmetricCipher s0 = mSymmetricCipher s"
    using st by (simp_all add: seq_state_def header_sent_def)
  have n: "unat (ackByteCount s) \<le> 4" using ok by (intro ackByteCount_le) (simp add: conn_ok_def)
  have c: "\<And>k. mSymmetricCipher s0 = Some k \<Longrightarrow> cipher_ready k" using ok f by (simp add: conn_ok_def)
  have d: "unat (drop_bit 3 (currentDelay e s)) < 256" by (rule delay_byte)
  have t: "DataPacket < InvalidPacketType" by (simp add: packet_types)
  have pw': "packet_with (header_bits DataPacket (mLastSendSeq s0) (mLastSeqRecvd s0) (ackByteCount s) (mAckMask s)
      (drop_bit 3 (currentDelay e s)) @ rate_info_bits s @ ys) bs0" using pw by (simp add: f data_header_def)
  obtain bs' k' b where 1: "sealPacket DataPacket bs0 s0 = Some (bs', s0\<lparr>mSymmetricCipher := k'\<rparr>)"
    and 2: "readPacketHeader cls' e' (PacketStream_recvfrom e' (take (unat (getBytePosition bs')) (mDataPtr bs'))) r = do {
      (data, c) \<leftarrow> acceptHeader cls' e' DataPacket (mLastSendSeq s0) (mLastSeqRecvd s0) (ack_mask_of (ackByteCount s) (mAckMask s))
        (push_bit 3 (drop_bit 3 (currentDelay e s)) + 4) (r\<lparr>mSymmetricCipher := k'\<rparr>);
      Some (data, b, c) }" and 3: "can_read b (length (rate_info_bits s @ ys))" "next_bits b (length (rate_info_bits s @ ys)) = rate_info_bits s @ ys"
    using packet_crosses [OF pw' e(2) _ c t n d, of r cls'] k w f by (auto simp only: f)
  have 4: "readPacketRateInfo b c = Some (skip_bits (length (rate_info_bits s)) b, rate_received s c)" for c :: "('m, 'y) net_connection"
    using readPacketRateInfo_takes [OF 3, of s 0 c] ok(3) by simp
  have 5: "next_bits (skip_bits (length (rate_info_bits s)) b) (length ys) = ys" "can_read (skip_bits (length (rate_info_bits s)) b) (length ys)"
    using next_bits_skip [OF 3(1), of "length (rate_info_bits s)" "length ys"] 3 can_read_skip [of b "length (rate_info_bits s)" "length ys"] by simp_all
  have "writeRawPacket cls e DataPacket (PacketStream_new e target) s = Some (bs', s0\<lparr>mSymmetricCipher := k'\<rparr>)"
    by (simp add: writeRawPacket_def hd dt 1)
  with 2 4 5 show ?thesis unfolding f by blast
qed

end
