(* ===== verification/Connection_Timeout.thy ===== *)
theory Connection_Timeout
  imports Connection_Steps
begin

text \<open>
  Liveness of the connection's timer: a connection that hears nothing sends its pings and then
  reports the time-out, after as many pings as it has retries. Clearing the notify queue ends with
  the queue empty.
\<close>

section \<open>The time-out\<close>

lemma unat_word_bound: "unat (w :: u32) < 2 ^ 32"
  using unsigned_less [of w] by simp

text \<open>The timer's calls until one reports a time-out, with what each finds around it.\<close>

fun runTimer :: "('n, 'x) conn_class \<Rightarrow> (packet_env \<times> u32) list \<Rightarrow> ('n, 'x) net_connection \<Rightarrow> bool list option" where
  "runTimer cls [] c = Some []"
| "runTimer cls ((e, t) # es) c = do {
     (r, c) \<leftarrow> checkTimeout cls e t c;
     if r then Some [True] else map_option ((#) r) (runTimer cls es c) }"

text \<open>The connection of the fixed kind with its ping timer set.\<close>

definition silent :: "('n, 'x) net_connection \<Rightarrow> bool" where
  "silent c \<longleftrightarrow> conn_ok c \<and> \<not> mRemoteConnection c \<and> \<not> isAdaptive c \<and> mLastPingSendTime c \<noteq> 0"

text \<open>Calls that come later than the ping time-out after one another.\<close>

fun spaced :: "u32 \<Rightarrow> u32 \<Rightarrow> (packet_env \<times> u32) list \<Rightarrow> bool" where
  "spaced timeout t [] = True"
| "spaced timeout t ((e, t') # es) \<longleftrightarrow>
     length (packetBlock e) = 1500 \<and> t' \<noteq> 0 \<and> timeout < t' - t \<and> spaced timeout t' es"

context conn_callbacks
begin

lemma ping_sent:
  assumes c: "silent c" and e: "length (packetBlock e) = 1500" "t \<noteq> 0" and late: "mPingTimeout c < t - mLastPingSendTime c"
    and left: "mPingSendCount c < mPingRetryCount c"
  shows "\<exists>c'. checkTimeout cls e t c = Some (False, c') \<and> silent c' \<and> mLastPingSendTime c' = t \<and>
    mPingSendCount c' = mPingSendCount c + 1 \<and> mPingRetryCount c' = mPingRetryCount c \<and> mPingTimeout c' = mPingTimeout c"
proof -
  let ?c = "c\<lparr>mLastPingSendTime := t, mPingSendCount := mPingSendCount c + 1\<rparr>"
  have ok: "conn_ok ?c" using c by (simp add: silent_def)
  obtain k acts where k: "sendPingPacket cls e ?c = Some (?c\<lparr>mSymmetricCipher := k, mOut := acts\<rparr>)" "\<forall>x. k = Some x \<longrightarrow> cipher_ready x"
    using sendControlPacket_ok [OF ok e(1), of PingPacket] by (auto simp: sendPingPacket_def packet_types)
  have "conn_ok (?c\<lparr>mSymmetricCipher := k, mOut := acts\<rparr>)" using conn_ok_cipher [OF ok k(2)] by simp
  then have "silent (?c\<lparr>mSymmetricCipher := k, mOut := acts\<rparr>)" using c e(2) by (simp add: silent_def isAdaptive_def)
  then show ?thesis using c late left k(1) by (simp add: checkTimeout_def silent_def not_le)
qed

lemma timeout_reported:
  assumes c: "silent c" and late: "mPingTimeout c < t - mLastPingSendTime c" and "mPingRetryCount c \<le> mPingSendCount c"
  shows "checkTimeout cls e t c = Some (True, c)"
  using assms by (simp add: checkTimeout_def silent_def)

lemma timer_ends:
  "silent c \<Longrightarrow> spaced (mPingTimeout c) (mLastPingSendTime c) es \<Longrightarrow>
   unat (mPingSendCount c) + n = unat (mPingRetryCount c) \<Longrightarrow> length es = Suc n \<Longrightarrow>
   runTimer cls es c = Some (replicate n False @ [True])"
proof (induction n arbitrary: c es)
  case 0
  then obtain e t where es: "es = [(e, t)]" by (metis length_0_conv length_Suc_conv surj_pair)
  have "mPingRetryCount c \<le> mPingSendCount c" using 0(3) by (simp add: word_le_nat_alt)
  then show ?case using timeout_reported [OF 0(1)] 0(2) by (simp add: es)
next
  case (Suc n)
  then obtain e t es' where es: "es = (e, t) # es'" "length es' = Suc n" by (metis length_Suc_conv surj_pair)
  have lt: "mPingSendCount c < mPingRetryCount c" using Suc.prems(3) by (simp add: word_less_nat_alt)
  obtain c' where c': "checkTimeout cls e t c = Some (False, c')" "silent c'" "mLastPingSendTime c' = t"
      "mPingSendCount c' = mPingSendCount c + 1" "mPingRetryCount c' = mPingRetryCount c" "mPingTimeout c' = mPingTimeout c"
    using ping_sent [OF Suc.prems(1) _ _ _ lt] Suc.prems(2) es by auto
  have "unat (mPingRetryCount c) < 2 ^ 32" by (rule unat_word_bound)
  then have "unat (mPingSendCount c') = unat (mPingSendCount c) + 1"
    using lt unat_plus_small [of "mPingSendCount c" 1] by (simp add: c' word_less_nat_alt)
  then show ?case using Suc.IH [OF c'(2)] Suc.prems(2,3) c' es by simp
qed

end

section \<open>Clearing the notify queue\<close>

context conn_callbacks
begin

lemma clearNotifies_empties:
  "length (mNotifyQueue c) \<le> n \<Longrightarrow> \<exists>c'. clearNotifies cls n c = Some c' \<and> mNotifyQueue c' = []"
proof (induction n arbitrary: c)
  case (Suc n)
  show ?case
  proof (cases "mNotifyQueue c = []")
    case False
    then obtain c1 where "handleNotify cls 0 False c = Some c1" "mNotifyQueue c1 = tl (mNotifyQueue c)"
      using handleNotify_pops by blast
    then show ?thesis using Suc False by simp
  qed simp
qed simp

lemma clearAll_empties: "\<exists>c'. clearAllPacketNotifies cls c = Some c' \<and> mNotifyQueue c' = []"
  using clearNotifies_empties by (simp add: clearAllPacketNotifies_def)

end

end
