(* ===== verification/Code_Hazards.thy ===== *)
theory Code_Hazards
  imports Packet_Crossing Connection_Timeout
begin

text \<open>
  Behaviours of the code that its comments do not announce: reads past a limit, an acknowledgement
  without a mask, a keystream used twice, digits lost by the base 16 decoder. Each is a theorem about the model,
  so a change of the code that removes it shows here.
\<close>

section \<open>The flag past the end\<close>

text \<open>The test in \<open>readFlag\<close> lets the bit at the limit through: it is read from the block and no error is noted.\<close>

lemma readFlag_at_limit:
  assumes "bitNum bs = maxReadBitNum bs" and "unat (maxReadBitNum bs) < 8 * length (mDataPtr bs)"
  shows "readFlag bs = Some (bit_at (mDataPtr bs) (unat (bitNum bs)), bs\<lparr>bitNum := bitNum bs + 1\<rparr>)"
proof -
  have "unat (bitNum bs) div 8 < length (mDataPtr bs)" using assms by simp
  then show ?thesis using assms by (simp add: readFlag_def mem_simps bit_at_def and_exp_eq_0_iff_not_bit)
qed

text \<open>At the end of the block the read leaves the block.\<close>

lemma readFlag_past_block:
  assumes "bitNum bs = maxReadBitNum bs" and "unat (maxReadBitNum bs) = 8 * length (mDataPtr bs)"
  shows "readFlag bs = None"
  using assms by (simp add: readFlag_def ld_def)

text \<open>An integer at the same place fails and notes the error.\<close>

lemma readInt_at_limit:
  assumes "bitNum bs = maxReadBitNum bs" and "0 < unat n" "unat n \<le> 32" "unat (maxReadBitNum bs) < 2 ^ 31"
  shows "readInt n bs = Some (0, bs\<lparr>error := True\<rparr>)"
proof -
  have u: "unat (ucast n :: u32) = unat n" using assms(3) by (simp add: unsigned_ucast_eq take_bit_nat_eq_self)
  have "unat (ucast n + bitNum bs :: u32) = unat n + unat (bitNum bs)"
    using assms by (simp add: unat_word_ariths u)
  then have "ucast n + bitNum bs > maxReadBitNum bs" "ucast n \<noteq> (0 :: u32)"
    using assms u by (auto simp: word_less_nat_alt)
  then show ?thesis by (simp add: readInt_def readBits_def Let_def)
qed

section \<open>An acknowledgement without a mask\<close>

lemma maskless_header_faults:
  assumes r: "can_read bs 35" and b: "next_bits bs 35 = header_bits t s a 0 m d"
    and clear: "mSymmetricCipher c = None" and t: "t < InvalidPacketType" and d: "unat d < 256"
    and s: "s - mLastSeqRecvd c < MaxPacketWindowSize"
    and a: "a \<noteq> mHighestAckedSeq c" "a - mHighestAckedSeq c < AckSequenceNumberWindowSize" "a \<le> mLastSendSeq c"
  shows "readPacketHeader cls e bs c = None"
proof -
  let ?c = "c\<lparr>mAckMask := shiftAckMask t (s - mLastSeqRecvd c) (mAckMask c)\<rparr>"
  have "unat (a - mHighestAckedSeq ?c) \<noteq> 0" using a(1) by (simp add: unat_eq_0)
  then obtain n where n: "unat (a - mHighestAckedSeq ?c) = Suc n" by (cases "unat (a - mHighestAckedSeq ?c)") auto
  have "ackBit None a i = None" for i by (simp add: ackBit_def Let_def)
  then have "acceptHeader cls e t s a None d' c = None" for d'
    using n by (simp add: acceptHeader_def Let_def)
  then show ?thesis
    using readPacketHeader_takes [of bs 0 t s a m d c cls e] assms by (simp add: ack_mask_of_def)
qed

section \<open>A keystream used twice\<close>

lemma encrypt_first_block:
  "encrypt ps s = Some (cs, s') \<Longrightarrow> mPadLen s + length ps \<le> 16 \<Longrightarrow> cs = map2 (XOR) ps (drop (mPadLen s) (mPad s))"
proof (induction ps arbitrary: s cs s')
  case (Cons p ps)
  then have k: "mPadLen s \<noteq> BlockSize" by (simp add: BlockSize_def)
  then have np: "nextPad s = s" by (simp add: nextPad_def)
  from Cons.prems(1) obtain cs1 where lt: "mPadLen s < length (mPad s)" and cs: "cs = (p XOR mPad s ! mPadLen s) # cs1"
    and rest: "encrypt ps (s\<lparr>mPad := (mPad s)[mPadLen s := p XOR mPad s ! mPadLen s], mPadLen := mPadLen s + 1\<rparr>) = Some (cs1, s')"
    by (auto simp: np ld_def st_def Let_def split: bind_splits if_splits)
  have "cs1 = map2 (XOR) ps (drop (mPadLen s + 1) ((mPad s)[mPadLen s := p XOR mPad s ! mPadLen s]))"
    using Cons.IH [OF rest] Cons.prems(2) by simp
  then show ?case using lt cs by (simp add: Cons_nth_drop_Suc [symmetric])
qed simp

lemma xor_map2: "length a = length b \<Longrightarrow> length a \<le> length k \<Longrightarrow> map2 (XOR) (map2 (XOR) a k) (map2 (XOR) b k) = map2 (XOR) a b"
  for a b k :: mem
proof (rule nth_equalityI)
  have "(x XOR z) XOR (y XOR z) = x XOR y" for x y z :: u8 by (rule bit_word_eqI) (auto simp: bit_simps)
  then show "i < length (map2 (XOR) (map2 (XOR) a k) (map2 (XOR) b k)) \<Longrightarrow>
      map2 (XOR) (map2 (XOR) a k) (map2 (XOR) b k) ! i = map2 (XOR) a b ! i" for i
    by simp
qed simp

text \<open>
  Two packets with the same sequence number, acknowledgement and type are encrypted from the same counter:
  their first 16 bytes show the exclusive or of the clear bytes.
\<close>

lemma same_counter_leaks:
  assumes "encrypt p (setupCounter n a t 0 k) = Some (c, k1)" and "encrypt q (setupCounter n a t 0 k) = Some (d, k2)"
    and "length p = length q" "length p \<le> 16" and "cipher_ready k"
  shows "map2 (XOR) c d = map2 (XOR) p q"
proof -
  let ?s = "setupCounter n a t 0 k"
  have s: "mPadLen ?s = 0" "length (mPad ?s) = 16"
    using setupCounter_ok [of k n a t 0] assms(5) by (simp_all add: cipher_ready_def cipher_ok_def) (simp add: setupCounter_def Let_def)
  then have "c = map2 (XOR) p (mPad ?s)" "d = map2 (XOR) q (mPad ?s)"
    using encrypt_first_block [OF assms(1)] encrypt_first_block [OF assms(2)] assms(3,4) by simp_all
  then show ?thesis using xor_map2 [of p q "mPad ?s"] assms(3,4) s by simp
qed

section \<open>Capital digits\<close>

lemma uppercase_lost:
  "66 \<le> h \<Longrightarrow> h \<le> 70 \<Longrightarrow> decodeHigh h = 0 \<and> decodeLow h = 0"
  by (auto simp: decodeHigh_def decodeLow_def word_le_nat_alt)

end
