(* ===== verification/Aes.thy ===== *)
theory Aes
  imports Aes_Tables Byte_Buffer
begin

text \<open>
  \<^verbatim>\<open>libtomcrypt/aes.c\<close>: the key schedule, encryption and decryption of one block, the self test and the key size.
  The state of the cipher is a quadruple of words. A round key is read with a check of its index.
\<close>

section \<open>State\<close>

type_synonym quad = "u32 \<times> u32 \<times> u32 \<times> u32"

record rijndael_key =
  eK :: "u32 list"
  dK :: "u32 list"
  Nr :: nat

text \<open>The masked table reads of the last round and the key schedule.\<close>

definition Te4_0 :: "u8 \<Rightarrow> u32" where "Te4_0 b = 0x000000FF AND Te4 ! unat b"
definition Te4_1 :: "u8 \<Rightarrow> u32" where "Te4_1 b = 0x0000FF00 AND Te4 ! unat b"
definition Te4_2 :: "u8 \<Rightarrow> u32" where "Te4_2 b = 0x00FF0000 AND Te4 ! unat b"
definition Te4_3 :: "u8 \<Rightarrow> u32" where "Te4_3 b = 0xFF000000 AND Te4 ! unat b"

section \<open>Key schedule\<close>

definition subRot :: "u32 \<Rightarrow> u32" where
  "subRot temp = Te4_3 (byte temp 2) XOR Te4_2 (byte temp 1) XOR Te4_1 (byte temp 0) XOR Te4_0 (byte temp 3)"

definition subWord :: "u32 \<Rightarrow> u32" where
  "subWord temp = Te4_3 (byte temp 3) XOR Te4_2 (byte temp 2) XOR Te4_1 (byte temp 1) XOR Te4_0 (byte temp 0)"

text \<open>The loops over \<open>i\<close> with the steps left; \<open>rk\<close> points into the words written so far.\<close>

fun expandKey16 :: "nat \<Rightarrow> nat \<Rightarrow> u32 list \<Rightarrow> u32 list" where
  "expandKey16 0 i W = W"
| "expandKey16 (Suc n) i W =
     (let rk = drop (length W - 4) W;
          w4 = rk ! 0 XOR subRot (rk ! 3) XOR rcon ! i;
          w5 = rk ! 1 XOR w4; w6 = rk ! 2 XOR w5; w7 = rk ! 3 XOR w6
      in expandKey16 n (i + 1) (W @ [w4, w5, w6, w7]))"

fun expandKey24 :: "nat \<Rightarrow> nat \<Rightarrow> u32 list \<Rightarrow> u32 list" where
  "expandKey24 0 i W = W"
| "expandKey24 (Suc n) i W =
     (let rk = drop (length W - 6) W;
          w6 = rk ! 0 XOR subRot (rk ! 5) XOR rcon ! i;
          w7 = rk ! 1 XOR w6; w8 = rk ! 2 XOR w7; w9 = rk ! 3 XOR w8
      in if n = 0 then W @ [w6, w7, w8, w9]
         else let w10 = rk ! 4 XOR w9; w11 = rk ! 5 XOR w10
              in expandKey24 n (i + 1) (W @ [w6, w7, w8, w9, w10, w11]))"

fun expandKey32 :: "nat \<Rightarrow> nat \<Rightarrow> u32 list \<Rightarrow> u32 list" where
  "expandKey32 0 i W = W"
| "expandKey32 (Suc n) i W =
     (let rk = drop (length W - 8) W;
          w8 = rk ! 0 XOR subRot (rk ! 7) XOR rcon ! i;
          w9 = rk ! 1 XOR w8; w10 = rk ! 2 XOR w9; w11 = rk ! 3 XOR w10
      in if n = 0 then W @ [w8, w9, w10, w11]
         else let w12 = rk ! 4 XOR subWord w11;
                  w13 = rk ! 5 XOR w12; w14 = rk ! 6 XOR w13; w15 = rk ! 7 XOR w14
              in expandKey32 n (i + 1) (W @ [w8, w9, w10, w11, w12, w13, w14, w15]))"

definition expandKey :: "mem \<Rightarrow> nat \<Rightarrow> u32 list" where
  "expandKey key keylen =
     (let W = map (\<lambda>i. LOADH 4 key (4 * i)) [0..<keylen div 4] in
      if keylen = 16 then expandKey16 10 0 W
      else if keylen = 24 then expandKey24 8 0 W
      else expandKey32 7 0 W)"

text \<open>The inverse key: the round keys backwards, all but the first and the last through the inverse MixColumn.\<close>

definition invKeyWord :: "u32 \<Rightarrow> u32" where
  "invKeyWord temp =
     Td0 ! unat (255 AND Te4 ! unat (byte temp 3)) XOR Td1 ! unat (255 AND Te4 ! unat (byte temp 2)) XOR
     Td2 ! unat (255 AND Te4 ! unat (byte temp 1)) XOR Td3 ! unat (255 AND Te4 ! unat (byte temp 0))"

definition inverseKey :: "nat \<Rightarrow> u32 list \<Rightarrow> u32 list" where
  "inverseKey rounds W =
     concat (map (\<lambda>i. let rrk = take 4 (drop (4 * (rounds - i)) W) in
       if i = 0 \<or> i = rounds then rrk else map invKeyWord rrk) [0..<rounds + 1])"

definition storeWords :: "u32 list \<Rightarrow> u32 list \<Rightarrow> u32 list" where
  "storeWords old W = W @ drop (length W) old"

definition rijndael_setup :: "mem \<Rightarrow> nat \<Rightarrow> nat \<Rightarrow> rijndael_key \<Rightarrow> (crypt_result \<times> rijndael_key) option" where
  "rijndael_setup key keylen rounds skey =
     (if keylen \<noteq> 16 \<and> keylen \<noteq> 24 \<and> keylen \<noteq> 32 then Some (CRYPT_INVALID_KEYSIZE, skey)
      else if rounds \<noteq> 0 \<and> rounds \<noteq> 10 + (keylen div 8 - 2) * 2 then Some (CRYPT_INVALID_ROUNDS, skey)
      else do {
        key \<leftarrow> rd key keylen;
        let nr = 10 + (keylen div 8 - 2) * 2;
        let W = expandKey key keylen;
        Some (CRYPT_OK, \<lparr>eK = storeWords (eK skey) W, dK = storeWords (dK skey) (inverseKey nr W), Nr = nr\<rparr>) })"

section \<open>Encryption\<close>

definition roundKey :: "u32 list \<Rightarrow> nat \<Rightarrow> quad option" where
  "roundKey rk i = (if i + 4 \<le> length rk then Some (rk ! i, rk ! (i + 1), rk ! (i + 2), rk ! (i + 3)) else None)"

fun addQuad :: "quad \<Rightarrow> quad \<Rightarrow> quad" where
  "addQuad (s0, s1, s2, s3) (k0, k1, k2, k3) = (s0 XOR k0, s1 XOR k1, s2 XOR k2, s3 XOR k3)"

definition loadQuad :: "mem \<Rightarrow> quad" where
  "loadQuad m = (LOADH 4 m 0, LOADH 4 m 4, LOADH 4 m 8, LOADH 4 m 12)"

fun storeQuad :: "quad \<Rightarrow> mem" where
  "storeQuad (s0, s1, s2, s3) = STOREH 4 s0 @ STOREH 4 s1 @ STOREH 4 s2 @ STOREH 4 s3"

definition encWord :: "u32 \<Rightarrow> u32 \<Rightarrow> u32 \<Rightarrow> u32 \<Rightarrow> u32" where
  "encWord a b c d = Te0 ! unat (byte a 3) XOR Te1 ! unat (byte b 2) XOR Te2 ! unat (byte c 1) XOR Te3 ! unat (byte d 0)"

fun encRound :: "quad \<Rightarrow> quad" where
  "encRound (s0, s1, s2, s3) = (encWord s0 s1 s2 s3, encWord s1 s2 s3 s0, encWord s2 s3 s0 s1, encWord s3 s0 s1 s2)"

definition encLastWord :: "u32 \<Rightarrow> u32 \<Rightarrow> u32 \<Rightarrow> u32 \<Rightarrow> u32" where
  "encLastWord a b c d = Te4_3 (byte a 3) XOR Te4_2 (byte b 2) XOR Te4_1 (byte c 1) XOR Te4_0 (byte d 0)"

fun encLast :: "quad \<Rightarrow> quad" where
  "encLast (t0, t1, t2, t3) =
     (encLastWord t0 t1 t2 t3, encLastWord t1 t2 t3 t0, encLastWord t2 t3 t0 t1, encLastWord t3 t0 t1 t2)"

text \<open>The loop with two rounds a turn; it leaves in the middle of the turn in which \<open>r\<close> comes to 0.\<close>

fun cipherLoop :: "(quad \<Rightarrow> quad) \<Rightarrow> nat \<Rightarrow> u32 list \<Rightarrow> nat \<Rightarrow> quad \<Rightarrow> quad option" where
  "cipherLoop rnd 0 rk i s = None"
| "cipherLoop rnd (Suc r) rk i s = do {
     k \<leftarrow> roundKey rk (i + 4);
     let t = addQuad (rnd s) k;
     if r = 0 then Some t
     else do {
       k \<leftarrow> roundKey rk (i + 8);
       cipherLoop rnd r rk (i + 8) (addQuad (rnd t) k) } }"

definition cipherBlock :: "(quad \<Rightarrow> quad) \<Rightarrow> (quad \<Rightarrow> quad) \<Rightarrow> u32 list \<Rightarrow> nat \<Rightarrow> mem \<Rightarrow> mem option" where
  "cipherBlock rnd lst rk nr m = do {
     m \<leftarrow> rd m 16;
     k \<leftarrow> roundKey rk 0;
     t \<leftarrow> cipherLoop rnd (nr div 2) rk 0 (addQuad (loadQuad m) k);
     k \<leftarrow> roundKey rk (8 * (nr div 2));
     Some (storeQuad (addQuad (lst t) k)) }"

definition rijndael_ecb_encrypt :: "mem \<Rightarrow> rijndael_key \<Rightarrow> mem option" where
  "rijndael_ecb_encrypt pt skey = cipherBlock encRound encLast (eK skey) (Nr skey) pt"

section \<open>Decryption\<close>

definition decWord :: "u32 \<Rightarrow> u32 \<Rightarrow> u32 \<Rightarrow> u32 \<Rightarrow> u32" where
  "decWord a b c d = Td0 ! unat (byte a 3) XOR Td1 ! unat (byte b 2) XOR Td2 ! unat (byte c 1) XOR Td3 ! unat (byte d 0)"

fun decRound :: "quad \<Rightarrow> quad" where
  "decRound (s0, s1, s2, s3) = (decWord s0 s3 s2 s1, decWord s1 s0 s3 s2, decWord s2 s1 s0 s3, decWord s3 s2 s1 s0)"

definition decLastWord :: "u32 \<Rightarrow> u32 \<Rightarrow> u32 \<Rightarrow> u32 \<Rightarrow> u32" where
  "decLastWord a b c d =
     (Td4 ! unat (byte a 3) AND 0xff000000) XOR (Td4 ! unat (byte b 2) AND 0x00ff0000) XOR
     (Td4 ! unat (byte c 1) AND 0x0000ff00) XOR (Td4 ! unat (byte d 0) AND 0x000000ff)"

fun decLast :: "quad \<Rightarrow> quad" where
  "decLast (t0, t1, t2, t3) =
     (decLastWord t0 t3 t2 t1, decLastWord t1 t0 t3 t2, decLastWord t2 t1 t0 t3, decLastWord t3 t2 t1 t0)"

definition rijndael_ecb_decrypt :: "mem \<Rightarrow> rijndael_key \<Rightarrow> mem option" where
  "rijndael_ecb_decrypt ct skey = cipherBlock decRound decLast (dK skey) (Nr skey) ct"

section \<open>Key size and self test\<close>

definition rijndael_keysize :: "int \<Rightarrow> crypt_result \<times> int" where
  "rijndael_keysize desired_keysize =
     (if desired_keysize < 16 then (CRYPT_INVALID_KEYSIZE, desired_keysize)
      else if desired_keysize < 24 then (CRYPT_OK, 16)
      else if desired_keysize < 32 then (CRYPT_OK, 24)
      else (CRYPT_OK, 32))"

definition rijndael_tests :: "(nat \<times> mem \<times> mem \<times> mem) list" where
  "rijndael_tests =
     [(16, map of_nat [0..<16], map (\<lambda>i. of_nat (0x11 * i)) [0..<16],
        [0x69, 0xc4, 0xe0, 0xd8, 0x6a, 0x7b, 0x04, 0x30, 0xd8, 0xcd, 0xb7, 0x80, 0x70, 0xb4, 0xc5, 0x5a]),
      (24, map of_nat [0..<24], map (\<lambda>i. of_nat (0x11 * i)) [0..<16],
        [0xdd, 0xa9, 0x7c, 0xa4, 0x86, 0x4c, 0xdf, 0xe0, 0x6e, 0xaf, 0x70, 0xa0, 0xec, 0x0d, 0x71, 0x91]),
      (32, map of_nat [0..<32], map (\<lambda>i. of_nat (0x11 * i)) [0..<16],
        [0x8e, 0xa2, 0xb7, 0xca, 0x51, 0x67, 0x45, 0xbf, 0xea, 0xfc, 0x49, 0x90, 0x4b, 0x49, 0x60, 0x89])]"

fun iterate :: "nat \<Rightarrow> (mem \<Rightarrow> mem option) \<Rightarrow> mem \<Rightarrow> mem option" where
  "iterate 0 f m = Some m"
| "iterate (Suc n) f m = do { m \<leftarrow> f m; iterate n f m }"

definition rijndael_test_one :: "nat \<times> mem \<times> mem \<times> mem \<Rightarrow> crypt_result option" where
  "rijndael_test_one = (\<lambda>(keylen, key, pt, ct). do {
     (err, skey) \<leftarrow> rijndael_setup key keylen 0 \<lparr>eK = replicate 64 0, dK = replicate 64 0, Nr = 0\<rparr>;
     if err \<noteq> CRYPT_OK then Some err
     else do {
       tmp0 \<leftarrow> rijndael_ecb_encrypt pt skey;
       tmp1 \<leftarrow> rijndael_ecb_decrypt tmp0 skey;
       if tmp0 \<noteq> ct \<or> tmp1 \<noteq> pt then Some CRYPT_FAIL_TESTVECTOR
       else do {
         tmp0 \<leftarrow> iterate 1000 (\<lambda>m. rijndael_ecb_encrypt m skey) (replicate 16 0);
         tmp0 \<leftarrow> iterate 1000 (\<lambda>m. rijndael_ecb_decrypt m skey) tmp0;
         Some (if tmp0 \<noteq> replicate 16 0 then CRYPT_FAIL_TESTVECTOR else CRYPT_OK) } } })"

fun rijndael_tests_run :: "(nat \<times> mem \<times> mem \<times> mem) list \<Rightarrow> crypt_result option" where
  "rijndael_tests_run [] = Some CRYPT_OK"
| "rijndael_tests_run (t # ts) = do { r \<leftarrow> rijndael_test_one t; if r \<noteq> CRYPT_OK then Some r else rijndael_tests_run ts }"

definition rijndael_test :: "crypt_result option" where
  "rijndael_test = rijndael_tests_run rijndael_tests"

end
