(* ===== verification/Aes_Spec.thy ===== *)
theory Aes_Spec
  imports Aes
begin

text \<open>
  AES as FIPS-197 has it, on bytes: S-box, ShiftRows, MixColumns over the field of 256 elements, and the tables of the
  source as these functions tabulated.
\<close>

section \<open>The field and the S-box\<close>

text \<open>Multiplication by \<open>x\<close>, and the S-box and its inverse as the bytes of \<open>Te4\<close> and \<open>Td4\<close>.\<close>

definition xtime :: "u8 \<Rightarrow> u8" where
  "xtime b = (if bit b 7 then push_bit 1 b XOR 0x1B else push_bit 1 b)"

definition sbox :: "u8 \<Rightarrow> u8" where "sbox b = ucast (Te4 ! unat b)"
definition inv_sbox :: "u8 \<Rightarrow> u8" where "inv_sbox b = ucast (Td4 ! unat b)"

lemma xtime_xor: "xtime (a XOR b) = xtime a XOR xtime b"
  by (rule bit_word_eqI) (auto simp: xtime_def bit_simps)

section \<open>Words and columns\<close>

type_synonym column = "u8 \<times> u8 \<times> u8 \<times> u8"

fun word_of :: "column \<Rightarrow> u32" where
  "word_of (a, b, c, d) = push_bit 24 (ucast a) OR push_bit 16 (ucast b) OR push_bit 8 (ucast c) OR ucast d"

definition column_of :: "u32 \<Rightarrow> column" where
  "column_of w = (byte w 3, byte w 2, byte w 1, byte w 0)"

lemma bit_word_of: "bit (word_of (a, b, c, d)) i \<longleftrightarrow>
    i < 32 \<and> (if i < 8 then bit d i else if i < 16 then bit c (i - 8) else if i < 24 then bit b (i - 16) else bit a (i - 24))"
  using bit_imp_le_length [of d i] bit_imp_le_length [of c "i - 8"] bit_imp_le_length [of b "i - 16"]
  by (auto simp: bit_simps)

declare word_of.simps [simp del]

lemma word_of_column [simp]: "word_of (column_of w) = w"
  by (rule bit_word_eqI) (auto simp: column_of_def byte_def bit_word_of bit_simps)

lemma column_of_word [simp]: "column_of (word_of (a, b, c, d)) = (a, b, c, d)"
proof -
  have "byte (word_of (a, b, c, d)) 3 = a" "byte (word_of (a, b, c, d)) 2 = b"
    "byte (word_of (a, b, c, d)) 1 = c" "byte (word_of (a, b, c, d)) 0 = d"
    by (rule bit_word_eqI; auto simp: byte_def bit_word_of bit_simps)+
  then show ?thesis by (simp only: column_of_def)
qed

lemma word_of_xor: "word_of (a, b, c, d) XOR word_of (e, f, g, h) = word_of (a XOR e, b XOR f, c XOR g, d XOR h)"
  by (rule bit_word_eqI) (auto simp: bit_word_of bit_simps)

lemma ROR_word_of: "ROR (word_of (a, b, c, d)) 8 = word_of (d, a, b, c)"
  by (rule bit_word_eqI) (auto simp: ROR_def bit_word_of bit_simps)

section \<open>The tables\<close>

lemma unat_byte_bound [simp]: "unat (b :: u8) < 256"
  using unsigned_less [of b] by simp

lemma length_Te4 [simp]: "length Te4 = 256" and length_Td4 [simp]: "length Td4 = 256"
  by (simp_all add: Te4_def Td4_def)

lemma Te4_bytes: "list_all (\<lambda>w. w = (let s = ucast w :: u8 in word_of (s, s, s, s))) Te4"
  unfolding Te4_def by (simp add: word_of.simps)

lemma Td4_bytes: "list_all (\<lambda>w. w = (let s = ucast w :: u8 in word_of (s, s, s, s))) Td4"
  unfolding Td4_def by (simp add: word_of.simps)

lemma inv_sbox_all: "map (\<lambda>w. ucast (Td4 ! unat (ucast w :: u8)) :: u8) Te4 = map of_nat [0..<256]"
  by code_simp

lemma Te0_map: "Te0 = map (\<lambda>w. let s = ucast w; t = xtime s in word_of (t, s, s, t XOR s)) Te4"
  unfolding Te0_def Te4_def by (simp add: xtime_def word_of.simps)

lemma Te123_map: "Te1 = map (\<lambda>w. ROR w 8) Te0" "Te2 = map (\<lambda>w. ROR w 8) Te1" "Te3 = map (\<lambda>w. ROR w 8) Te2"
  unfolding Te0_def Te1_def Te2_def Te3_def by (simp_all add: ROR_def)

lemma Td0_map: "Td0 = map (\<lambda>w. let s = ucast w; x = xtime s; y = xtime x; z = xtime y
    in word_of (z XOR y XOR x, z XOR s, z XOR y XOR s, z XOR x XOR s)) Td4"
  unfolding Td0_def Td4_def by (simp add: xtime_def word_of.simps)

lemma Td123_map: "Td1 = map (\<lambda>w. ROR w 8) Td0" "Td2 = map (\<lambda>w. ROR w 8) Td1" "Td3 = map (\<lambda>w. ROR w 8) Td2"
  unfolding Td0_def Td1_def Td2_def Td3_def by (simp_all add: ROR_def)

lemma list_all_nth: "list_all P l \<Longrightarrow> i < length l \<Longrightarrow> P (l ! i)"
  by (simp add: list_all_length)

lemma Te4_at: "Te4 ! unat b = word_of (sbox b, sbox b, sbox b, sbox b)"
  using list_all_nth [OF Te4_bytes, of "unat b"] by (simp add: sbox_def Let_def)

lemma Td4_at: "Td4 ! unat b = word_of (inv_sbox b, inv_sbox b, inv_sbox b, inv_sbox b)"
  using list_all_nth [OF Td4_bytes, of "unat b"] by (simp add: inv_sbox_def Let_def)

lemma inv_sbox_sbox [simp]: "inv_sbox (sbox b) = b"
proof -
  have "map (\<lambda>w. ucast (Td4 ! unat (ucast w :: u8)) :: u8) Te4 ! unat b = of_nat (unat b)"
    by (simp add: inv_sbox_all)
  then show ?thesis by (simp add: inv_sbox_def sbox_def)
qed

lemma Te_at:
  "Te0 ! unat b = word_of (xtime (sbox b), sbox b, sbox b, xtime (sbox b) XOR sbox b)"
  "Te1 ! unat b = word_of (xtime (sbox b) XOR sbox b, xtime (sbox b), sbox b, sbox b)"
  "Te2 ! unat b = word_of (sbox b, xtime (sbox b) XOR sbox b, xtime (sbox b), sbox b)"
  "Te3 ! unat b = word_of (sbox b, sbox b, xtime (sbox b) XOR sbox b, xtime (sbox b))"
  by (simp_all add: Te123_map Te0_map Let_def ROR_word_of flip: sbox_def)

definition mul9 :: "u8 \<Rightarrow> u8" where "mul9 b = xtime (xtime (xtime b)) XOR b"
definition mulB :: "u8 \<Rightarrow> u8" where "mulB b = xtime (xtime (xtime b)) XOR xtime b XOR b"
definition mulD :: "u8 \<Rightarrow> u8" where "mulD b = xtime (xtime (xtime b)) XOR xtime (xtime b) XOR b"
definition mulE :: "u8 \<Rightarrow> u8" where "mulE b = xtime (xtime (xtime b)) XOR xtime (xtime b) XOR xtime b"

lemma Td_at:
  "Td0 ! unat b = word_of (mulE (inv_sbox b), mul9 (inv_sbox b), mulD (inv_sbox b), mulB (inv_sbox b))"
  "Td1 ! unat b = word_of (mulB (inv_sbox b), mulE (inv_sbox b), mul9 (inv_sbox b), mulD (inv_sbox b))"
  "Td2 ! unat b = word_of (mulD (inv_sbox b), mulB (inv_sbox b), mulE (inv_sbox b), mul9 (inv_sbox b))"
  "Td3 ! unat b = word_of (mul9 (inv_sbox b), mulD (inv_sbox b), mulB (inv_sbox b), mulE (inv_sbox b))"
  by (simp_all add: Td123_map Td0_map Let_def ROR_word_of mul9_def mulB_def mulD_def mulE_def flip: inv_sbox_def)

section \<open>The steps of the cipher\<close>

fun sub_column :: "column \<Rightarrow> column" where
  "sub_column (a, b, c, d) = (sbox a, sbox b, sbox c, sbox d)"

fun inv_sub_column :: "column \<Rightarrow> column" where
  "inv_sub_column (a, b, c, d) = (inv_sbox a, inv_sbox b, inv_sbox c, inv_sbox d)"

fun mix_column :: "column \<Rightarrow> column" where
  "mix_column (a, b, c, d) =
     (xtime a XOR (xtime b XOR b) XOR c XOR d, a XOR xtime b XOR (xtime c XOR c) XOR d,
      a XOR b XOR xtime c XOR (xtime d XOR d), (xtime a XOR a) XOR b XOR c XOR xtime d)"

fun inv_mix_column :: "column \<Rightarrow> column" where
  "inv_mix_column (a, b, c, d) =
     (mulE a XOR mulB b XOR mulD c XOR mul9 d, mul9 a XOR mulE b XOR mulB c XOR mulD d,
      mulD a XOR mul9 b XOR mulE c XOR mulB d, mulB a XOR mulD b XOR mul9 c XOR mulE d)"

fun add_column :: "column \<Rightarrow> column \<Rightarrow> column" where
  "add_column (a, b, c, d) (e, f, g, h) = (a XOR e, b XOR f, c XOR g, d XOR h)"

lemma xor_cancel [simp]: "(x :: u8) XOR (x XOR y) = y"
  by (simp flip: xor.assoc)

lemma inv_sub_sub [simp]: "inv_sub_column (sub_column c) = c"
  by (cases c) simp

lemma inv_mix_mix [simp]: "inv_mix_column (mix_column c) = c"
  by (cases c) (simp add: mul9_def mulB_def mulD_def mulE_def xtime_xor xor.assoc xor.commute xor.left_commute)

lemma inv_mix_add: "inv_mix_column (add_column c d) = add_column (inv_mix_column c) (inv_mix_column d)"
  by (cases c; cases d) (simp add: mul9_def mulB_def mulD_def mulE_def xtime_xor xor.assoc xor.commute xor.left_commute)

lemma add_add [simp]: "add_column (add_column c d) d = c"
  by (cases c; cases d) (simp add: xor.assoc)

section \<open>The table-driven words are these steps\<close>

lemma encWord_spec: "encWord a b c d = word_of (mix_column (sub_column (byte a 3, byte b 2, byte c 1, byte d 0)))"
  by (simp add: encWord_def Te_at word_of_xor xor.assoc xor.commute xor.left_commute)

lemma word_of_and: "word_of (a, b, c, d) AND word_of (e, f, g, h) = word_of (a AND e, b AND f, c AND g, d AND h)"
  by (rule bit_word_eqI) (auto simp: bit_word_of bit_simps)

lemma mask_word_of:
  "0xFF000000 AND word_of (a, b, c, d) = word_of (a, 0, 0, 0)" "0x00FF0000 AND word_of (a, b, c, d) = word_of (0, b, 0, 0)"
  "0x0000FF00 AND word_of (a, b, c, d) = word_of (0, 0, c, 0)" "0x000000FF AND word_of (a, b, c, d) = word_of (0, 0, 0, d)"
proof -
  have "(255 :: u8) = - 1" by simp
  then have f: "255 AND x = x" for x :: u8 by (metis and.left_neutral)
  have m: "(0xFF000000 :: u32) = word_of (255, 0, 0, 0)" "(0x00FF0000 :: u32) = word_of (0, 255, 0, 0)"
    "(0x0000FF00 :: u32) = word_of (0, 0, 255, 0)" "(0x000000FF :: u32) = word_of (0, 0, 0, 255)"
    by (simp_all add: word_of.simps)
  show "0xFF000000 AND word_of (a, b, c, d) = word_of (a, 0, 0, 0)" "0x00FF0000 AND word_of (a, b, c, d) = word_of (0, b, 0, 0)"
    "0x0000FF00 AND word_of (a, b, c, d) = word_of (0, 0, c, 0)" "0x000000FF AND word_of (a, b, c, d) = word_of (0, 0, 0, d)"
    unfolding m by (simp_all add: word_of_and f)
qed

lemmas word_of_mask = mask_word_of [THEN and.commute [THEN trans]]

lemma word_of_low: "word_of (0, 0, 0, d) = ucast d"
  by (simp add: word_of.simps)

lemma encLastWord_spec: "encLastWord a b c d = word_of (sub_column (byte a 3, byte b 2, byte c 1, byte d 0))"
  by (simp add: encLastWord_def Te4_0_def Te4_1_def Te4_2_def Te4_3_def Te4_at mask_word_of word_of_xor)

lemma decWord_spec: "decWord a b c d = word_of (inv_mix_column (inv_sub_column (byte a 3, byte b 2, byte c 1, byte d 0)))"
  by (simp add: decWord_def Td_at word_of_xor xor.assoc xor.commute xor.left_commute)

lemma decLastWord_spec: "decLastWord a b c d = word_of (inv_sub_column (byte a 3, byte b 2, byte c 1, byte d 0))"
  by (simp add: decLastWord_def Td4_at word_of_mask word_of_xor)

lemma Te4_index: "unat (255 AND Te4 ! unat b) = unat (sbox b)"
proof -
  have "take_bit 32 (unat x) = unat x" for x :: u8
    by (rule take_bit_nat_eq_self, rule less_trans [OF unat_byte_bound]) simp
  then show ?thesis by (simp add: Te4_at mask_word_of word_of_low unsigned_ucast_eq)
qed

lemma invKeyWord_spec: "invKeyWord w = word_of (inv_mix_column (column_of w))"
  by (simp add: invKeyWord_def Te4_index Td_at column_of_def word_of_xor xor.assoc xor.commute xor.left_commute)

end
