(* ===== verification/Aes_Cipher.thy ===== *)
theory Aes_Cipher
  imports Aes_Spec Symmetric_Cipher
begin

text \<open>
  The table-driven cipher of the source is the AES of FIPS-197 on bytes, its key schedule is the one of the
  standard, and decryption undoes encryption for every key of the three sizes.
\<close>

section \<open>The standard's state\<close>

type_synonym aes_state = "column \<times> column \<times> column \<times> column"

fun columns :: "quad \<Rightarrow> aes_state" where
  "columns (s0, s1, s2, s3) = (column_of s0, column_of s1, column_of s2, column_of s3)"

fun map_columns :: "(column \<Rightarrow> column) \<Rightarrow> aes_state \<Rightarrow> aes_state" where
  "map_columns f (a, b, c, d) = (f a, f b, f c, f d)"

fun shift_rows :: "aes_state \<Rightarrow> aes_state" where
  "shift_rows ((a0, a1, a2, a3), (b0, b1, b2, b3), (c0, c1, c2, c3), (d0, d1, d2, d3)) =
     ((a0, b1, c2, d3), (b0, c1, d2, a3), (c0, d1, a2, b3), (d0, a1, b2, c3))"

fun add_state :: "aes_state \<Rightarrow> aes_state \<Rightarrow> aes_state" where
  "add_state (a, b, c, d) (e, f, g, h) = (add_column a e, add_column b f, add_column c g, add_column d h)"

definition aes_round :: "aes_state \<Rightarrow> aes_state" where
  "aes_round s = map_columns mix_column (shift_rows (map_columns sub_column s))"

definition aes_last :: "aes_state \<Rightarrow> aes_state" where
  "aes_last s = shift_rows (map_columns sub_column s)"

text \<open>The cipher of the standard over its list of round keys.\<close>

fun aes_rounds :: "aes_state list \<Rightarrow> aes_state \<Rightarrow> aes_state" where
  "aes_rounds [] s = s"
| "aes_rounds [k] s = add_state (aes_last s) k"
| "aes_rounds (k # ks) s = aes_rounds ks (add_state (aes_round s) k)"

definition aes_cipher :: "aes_state list \<Rightarrow> aes_state \<Rightarrow> aes_state" where
  "aes_cipher ks s = aes_rounds (tl ks) (add_state s (hd ks))"

section \<open>The steps on words\<close>

lemma column_of_xor: "column_of (v XOR w) = add_column (column_of v) (column_of w)"
proof -
  have "byte (v XOR w) n = byte v n XOR byte w n" for n
    by (rule bit_word_eqI) (auto simp: byte_def bit_simps)
  then show ?thesis by (simp add: column_of_def)
qed

lemma columns_add: "columns (addQuad q k) = add_state (columns q) (columns k)"
  by (cases q; cases k) (simp add: column_of_xor)

lemma columns_inj: "columns q = columns r \<Longrightarrow> q = r"
proof -
  have "v = w" if "column_of v = column_of w" for v w using arg_cong [OF that, of word_of] by simp
  then show "columns q = columns r \<Longrightarrow> q = r" by (cases q; cases r) simp
qed

lemma columns_round: "columns (encRound q) = aes_round (columns q)"
proof -
  obtain s0 s1 s2 s3 where q: "q = (s0, s1, s2, s3)" by (cases q)
  have "column_of (encWord a b c d) = mix_column (sub_column (byte a 3, byte b 2, byte c 1, byte d 0))" for a b c d
    unfolding encWord_spec by (cases "mix_column (sub_column (byte a 3, byte b 2, byte c 1, byte d 0))") simp
  then show ?thesis by (simp add: q aes_round_def column_of_def)
qed

lemma columns_last: "columns (encLast q) = aes_last (columns q)"
proof -
  obtain s0 s1 s2 s3 where q: "q = (s0, s1, s2, s3)" by (cases q)
  have "column_of (encLastWord a b c d) = sub_column (byte a 3, byte b 2, byte c 1, byte d 0)" for a b c d
    unfolding encLastWord_spec by simp
  then show ?thesis by (simp add: q aes_last_def) (simp add: column_of_def)
qed

section \<open>Undoing a step\<close>

fun invQuad :: "quad \<Rightarrow> quad" where
  "invQuad (k0, k1, k2, k3) = (invKeyWord k0, invKeyWord k1, invKeyWord k2, invKeyWord k3)"

lemma word_cases: "(\<And>a b c d. w = word_of (a, b, c, d) \<Longrightarrow> P) \<Longrightarrow> P"
  using word_of_column [of w] by (cases "column_of w") metis

lemma byte_word_of [simp]:
  "byte (word_of (a, b, c, d)) 3 = a" "byte (word_of (a, b, c, d)) 2 = b"
  "byte (word_of (a, b, c, d)) 1 = c" "byte (word_of (a, b, c, d)) (Suc 0) = c" "byte (word_of (a, b, c, d)) 0 = d"
  using column_of_word [of a b c d] by (simp_all add: column_of_def)

lemma quad_cases:
  "(\<And>a0 a1 a2 a3 b0 b1 b2 b3 c0 c1 c2 c3 d0 d1 d2 d3.
     q = (word_of (a0, a1, a2, a3), word_of (b0, b1, b2, b3), word_of (c0, c1, c2, c3), word_of (d0, d1, d2, d3)) \<Longrightarrow> P) \<Longrightarrow> P"
  by (cases q) (metis word_cases)

lemma invKeyWord_word_of [simp]: "invKeyWord (word_of c) = word_of (inv_mix_column c)"
  by (cases c) (simp add: invKeyWord_spec)

lemma decRound_encLast: "decRound (encLast q) = invQuad q"
  by (rule quad_cases [of q]) (simp add: encLastWord_spec decWord_spec)

lemma decLast_encLast: "decLast (encLast q) = q"
  by (rule quad_cases [of q]) (simp add: encLastWord_spec decLastWord_spec)

lemma invQuad_encRound: "invQuad (encRound q) = encLast q"
  by (rule quad_cases [of q]) (simp add: encWord_spec encLastWord_spec del: mix_column.simps inv_mix_column.simps)

lemma invKeyWord_xor: "invKeyWord (v XOR w) = invKeyWord v XOR invKeyWord w"
  unfolding invKeyWord_spec column_of_xor inv_mix_add
  by (cases "inv_mix_column (column_of v)"; cases "inv_mix_column (column_of w)") (simp add: word_of_xor)

lemma invQuad_add: "invQuad (addQuad a b) = addQuad (invQuad a) (invQuad b)"
  by (cases a; cases b) (simp add: invKeyWord_xor)

lemma addQuad_cancel: "addQuad (addQuad a b) b = a"
  by (cases a; cases b) (simp add: xor.assoc)

section \<open>The rounds\<close>

definition keyAt :: "u32 list \<Rightarrow> nat \<Rightarrow> quad" where
  "keyAt rk j = (rk ! (4 * j), rk ! (4 * j + 1), rk ! (4 * j + 2), rk ! (4 * j + 3))"

fun rounds :: "(quad \<Rightarrow> quad) \<Rightarrow> (nat \<Rightarrow> quad) \<Rightarrow> nat \<Rightarrow> quad \<Rightarrow> quad" where
  "rounds f k 0 s = s"
| "rounds f k (Suc n) s = addQuad (f (rounds f k n s)) (k (Suc n))"

lemma roundKey_at: "4 * j + 4 \<le> length rk \<Longrightarrow> roundKey rk (4 * j) = Some (keyAt rk j)"
  by (simp add: roundKey_def keyAt_def)

lemma cipherLoop_rounds:
  "8 * (m + r) + 8 \<le> length rk \<Longrightarrow>
   cipherLoop f (Suc r) rk (8 * m) (rounds f (keyAt rk) (2 * m) s) = Some (rounds f (keyAt rk) (2 * (m + r) + 1) s)"
proof (induction r arbitrary: m)
  case 0
  then show ?case using roundKey_at [of "2 * m + 1" rk] by (simp add: add.commute)
next
  case (Suc r)
  have k: "roundKey rk (8 * m + 4) = Some (keyAt rk (2 * m + 1))" "roundKey rk (8 * m + 8) = Some (keyAt rk (2 * m + 2))"
    using roundKey_at [of "2 * m + 1" rk] roundKey_at [of "2 * m + 2" rk] Suc.prems by (simp_all add: algebra_simps)
  have "cipherLoop f (Suc (Suc r)) rk (8 * m) (rounds f (keyAt rk) (2 * m) s) =
      cipherLoop f (Suc r) rk (8 * Suc m) (rounds f (keyAt rk) (2 * Suc m) s)"
    using k by (simp add: algebra_simps)
  also have "\<dots> = Some (rounds f (keyAt rk) (2 * (m + Suc r) + 1) s)" using Suc.IH [of "Suc m"] Suc.prems by simp
  finally show ?case .
qed

lemma cipherBlock_rounds:
  assumes nr: "nr = 2 * h" "0 < h" and rk: "4 * nr + 4 \<le> length rk" and m: "length m = 16"
  shows "cipherBlock f l rk nr m =
    Some (storeQuad (addQuad (l (rounds f (keyAt rk) (nr - 1) (addQuad (loadQuad m) (keyAt rk 0)))) (keyAt rk nr)))"
proof -
  obtain r where h: "h = Suc r" using nr(2) by (cases h) auto
  have "cipherLoop f (Suc r) rk 0 s = Some (rounds f (keyAt rk) (nr - 1) s)" for s
    using cipherLoop_rounds [of 0 r rk f s] rk nr h by simp
  moreover have "roundKey rk 0 = Some (keyAt rk 0)" "roundKey rk (8 * h) = Some (keyAt rk nr)"
    using roundKey_at [of 0 rk] roundKey_at [of nr rk] rk nr(1) by simp_all
  ultimately show ?thesis using nr(1) h m by (simp add: cipherBlock_def mem_simps)
qed

text \<open>Decryption walks the rounds back.\<close>

lemma rounds_back:
  "(\<And>j. 0 < j \<Longrightarrow> j \<le> m \<Longrightarrow> k' j = invQuad (k (Suc (n + m) - j))) \<Longrightarrow>
   rounds decRound k' m (encLast (rounds encRound k (n + m) s)) = encLast (rounds encRound k n s)"
proof (induction m arbitrary: n)
  case (Suc m)
  have "rounds decRound k' m (encLast (rounds encRound k (Suc n + m) s)) = encLast (rounds encRound k (Suc n) s)"
    using Suc.prems by (intro Suc.IH) simp
  moreover have "k' (Suc m) = invQuad (k (Suc n))" using Suc.prems [of "Suc m"] by simp
  ultimately show ?case
    by (simp add: decRound_encLast invQuad_add addQuad_cancel invQuad_encRound)
qed simp

section \<open>Blocks\<close>

lemma LOADH4: "i + 4 \<le> length m \<Longrightarrow> LOADH 4 m i = word_of (m ! i, m ! (i + 1), m ! (i + 2), m ! (i + 3))"
proof -
  assume "i + 4 \<le> length m"
  then have "take 4 (drop i m) = [m ! i, m ! (i + 1), m ! (i + 2), m ! (i + 3)]"
    by (intro nth_equalityI) (auto simp: less_Suc_eq numeral_eq_Suc)
  then show ?thesis
    by (simp add: LOADH_def word_of.simps or.assoc or.commute or.left_commute)
qed

lemma loadQuad_storeQuad: "loadQuad (storeQuad q) = q"
  by (cases q) (simp add: loadQuad_def LOADH_def STOREH_def le_value_le_bytes)

lemma length_storeQuad [simp]: "length (storeQuad q) = 16"
  by (cases q) simp

lemma STOREH_LOADH: "i + 4 \<le> length m \<Longrightarrow> STOREH 4 (LOADH 4 m i :: u32) = take 4 (drop i m)"
  using le_bytes_le_value [of "rev (take 4 (drop i m))", where 'a = 32] by (simp add: STOREH_def LOADH_def)

lemma storeQuad_loadQuad: "length m = 16 \<Longrightarrow> storeQuad (loadQuad m) = m"
  using append_take_drop_id [of 4 m] append_take_drop_id [of 4 "drop 4 m"] append_take_drop_id [of 4 "drop 8 m"]
  by (simp add: loadQuad_def STOREH_LOADH)

section \<open>Keys\<close>

text \<open>A key as \<open>rijndael_setup\<close> leaves it: the inverse round keys belong to the round keys.\<close>

definition key_ok :: "rijndael_key \<Rightarrow> bool" where
  "key_ok k \<longleftrightarrow> Nr k \<in> {10, 12, 14} \<and> 4 * Nr k + 4 \<le> length (eK k) \<and> 4 * Nr k + 4 \<le> length (dK k) \<and>
     (\<forall>j \<le> Nr k. keyAt (dK k) j = (if j = 0 \<or> j = Nr k then keyAt (eK k) (Nr k - j) else invQuad (keyAt (eK k) (Nr k - j))))"

lemma decrypt_encrypt_block:
  assumes k: "key_ok key" and pt: "length pt = 16"
  shows "\<exists>ct. rijndael_ecb_encrypt pt key = Some ct \<and> length ct = 16 \<and> rijndael_ecb_decrypt ct key = Some pt"
proof -
  define n where "n = Nr key"
  define q where "q = addQuad (loadQuad pt) (keyAt (eK key) 0)"
  have n: "n = 2 * (n div 2)" "0 < n div 2" "0 < n" using k by (auto simp: key_ok_def n_def)
  have l: "4 * n + 4 \<le> length (eK key)" "4 * n + 4 \<le> length (dK key)" using k by (simp_all add: key_ok_def n_def)
  let ?e = "encLast (rounds encRound (keyAt (eK key)) (n - 1) q)"
  let ?ct = "storeQuad (addQuad ?e (keyAt (eK key) n))"
  have enc: "rijndael_ecb_encrypt pt key = Some ?ct"
    using cipherBlock_rounds [OF n(1,2) l(1) pt] by (simp add: rijndael_ecb_encrypt_def q_def n_def)
  have d: "keyAt (dK key) 0 = keyAt (eK key) n" "keyAt (dK key) n = keyAt (eK key) 0"
    using k n(3) by (simp_all add: key_ok_def n_def)
  have "rounds decRound (keyAt (dK key)) (n - 1) (encLast (rounds encRound (keyAt (eK key)) (0 + (n - 1)) q)) =
      encLast (rounds encRound (keyAt (eK key)) 0 q)"
    using k n(3) by (intro rounds_back) (auto simp: key_ok_def n_def)
  then have "rijndael_ecb_decrypt ?ct key = Some (storeQuad (loadQuad pt))"
    using cipherBlock_rounds [OF n(1,2) l(2), of ?ct decRound decLast]
    by (simp add: rijndael_ecb_decrypt_def loadQuad_storeQuad d addQuad_cancel decLast_encLast q_def flip: n_def)
  then show ?thesis using enc pt by (simp add: storeQuad_loadQuad)
qed

text \<open>Encryption is the cipher of the standard.\<close>

lemma columns_rounds:
  "columns (addQuad (encLast (rounds encRound k n q)) (k (Suc n))) =
   aes_rounds (map (\<lambda>j. columns (k j)) [m + 1..<n + 2]) (columns (rounds encRound k m q))" if "m \<le> n"
  using that
proof (induction "n - m" arbitrary: m)
  case 0
  then show ?case by (simp add: columns_add columns_last)
next
  case (Suc x)
  then have u: "[m + 1..<n + 2] = (m + 1) # (m + 2) # [m + 3..<n + 2]" "[Suc m + 1..<n + 2] = (m + 2) # [m + 3..<n + 2]"
    using upt_conv_Cons [of "m + 1" "n + 2"] upt_conv_Cons [of "m + 2" "n + 2"] by (simp_all del: upt_Suc add: numeral_3_eq_3)
  have "columns (addQuad (encLast (rounds encRound k n q)) (k (Suc n))) =
      aes_rounds (map (\<lambda>j. columns (k j)) [Suc m + 1..<n + 2]) (columns (rounds encRound k (Suc m) q))"
    using Suc.hyps by (intro Suc.hyps(1)) simp_all
  then show ?case unfolding u by (simp del: upt_Suc add: columns_add columns_round)
qed

lemma encrypt_block_spec:
  assumes k: "key_ok key" and pt: "length pt = 16"
  shows "\<exists>ct. rijndael_ecb_encrypt pt key = Some ct \<and> columns (loadQuad ct) =
    aes_cipher (map (\<lambda>j. columns (keyAt (eK key) j)) [0..<Nr key + 1]) (columns (loadQuad pt))"
proof -
  define n where "n = Nr key"
  define q where "q = addQuad (loadQuad pt) (keyAt (eK key) 0)"
  have n: "n = 2 * (n div 2)" "0 < n div 2" "0 < n" using k by (auto simp: key_ok_def n_def)
  have l: "4 * n + 4 \<le> length (eK key)" using k by (simp add: key_ok_def n_def)
  let ?q = "addQuad (encLast (rounds encRound (keyAt (eK key)) (n - 1) q)) (keyAt (eK key) n)"
  have enc: "rijndael_ecb_encrypt pt key = Some (storeQuad ?q)"
    using cipherBlock_rounds [OF n(1,2) l pt] by (simp add: rijndael_ecb_encrypt_def q_def n_def)
  have "columns ?q = aes_rounds (map (\<lambda>j. columns (keyAt (eK key) j)) [1..<n + 1]) (columns q)"
    using columns_rounds [of 0 "n - 1" "keyAt (eK key)" q] n(3) by (simp del: upt_Suc)
  moreover have "[0..<n + 1] = 0 # [1..<n + 1]" by (simp add: upt_conv_Cons del: upt_Suc)
  ultimately show ?thesis using enc
    by (simp add: loadQuad_storeQuad aes_cipher_def q_def columns_add del: upt_Suc flip: n_def)
qed

section \<open>The key schedule\<close>

definition sub_word :: "u32 \<Rightarrow> u32" where "sub_word w = word_of (sub_column (column_of w))"

definition rot_word :: "u32 \<Rightarrow> u32" where
  "rot_word w = (case column_of w of (a, b, c, d) \<Rightarrow> word_of (b, c, d, a))"

definition rcon_word :: "nat \<Rightarrow> u32" where "rcon_word j = word_of ((xtime ^^ (j - 1)) 1, 0, 0, 0)"

text \<open>The next word of the expanded key of the standard, for a key of \<open>Nk\<close> words.\<close>

definition fips_word :: "nat \<Rightarrow> u32 list \<Rightarrow> u32" where
  "fips_word Nk W =
     (let i = length W; temp = W ! (i - 1)
      in W ! (i - Nk) XOR
         (if i mod Nk = 0 then sub_word (rot_word temp) XOR rcon_word (i div Nk)
          else if 6 < Nk \<and> i mod Nk = 4 then sub_word temp else temp))"

fun fips_expand :: "nat \<Rightarrow> nat \<Rightarrow> u32 list \<Rightarrow> u32 list" where
  "fips_expand Nk 0 W = W"
| "fips_expand Nk (Suc n) W = fips_expand Nk n (W @ [fips_word Nk W])"

lemma subWord_spec: "subWord w = sub_word w"
  by (simp add: subWord_def sub_word_def column_of_def Te4_0_def Te4_1_def Te4_2_def Te4_3_def Te4_at mask_word_of word_of_xor)

lemma subRot_spec: "subRot w = sub_word (rot_word w)"
  by (simp add: subRot_def sub_word_def rot_word_def column_of_def Te4_0_def Te4_1_def Te4_2_def Te4_3_def Te4_at mask_word_of word_of_xor)

lemma rcon_map: "rcon = map (\<lambda>i. rcon_word (i + 1)) [0..<10]"
  by code_simp

lemma rcon_spec: "i < 10 \<Longrightarrow> rcon ! i = rcon_word (i + 1)"
  by (simp add: rcon_map)

lemma length_fips_expand [simp]: "length (fips_expand Nk n W) = length W + n"
  by (induction n arbitrary: W) simp_all

lemma fips_expand_add: "fips_expand Nk (m + n) W = fips_expand Nk n (fips_expand Nk m W)"
  by (induction m arbitrary: W) simp_all

text \<open>The word by its place in the group of \<open>Nk\<close>.\<close>

lemma fips_first:
  "length W = Nk * q \<Longrightarrow> 0 < Nk \<Longrightarrow> 0 < q \<Longrightarrow>
   fips_word Nk W = W ! (length W - Nk) XOR (sub_word (rot_word (W ! (length W - 1))) XOR rcon_word q)"
  by (simp add: fips_word_def Let_def)

lemma fips_next:
  "length W = Nk * q + r \<Longrightarrow> 0 < r \<Longrightarrow> r < Nk \<Longrightarrow> \<not> (6 < Nk \<and> r = 4) \<Longrightarrow>
   fips_word Nk W = W ! (length W - Nk) XOR W ! (length W - 1)"
  by (auto simp: fips_word_def Let_def)

lemma fips_middle:
  "length W = Nk * q + 4 \<Longrightarrow> 6 < Nk \<Longrightarrow> fips_word Nk W = W ! (length W - Nk) XOR sub_word (W ! (length W - 1))"
  by (simp add: fips_word_def Let_def)

lemma fips_four:
  assumes "length W = 4 * (i + 1)" and W: "W = V @ [a, b, c, d]"
  shows "fips_expand 4 4 W = (let w4 = a XOR (sub_word (rot_word d) XOR rcon_word (i + 1)); w5 = b XOR w4; w6 = c XOR w5; w7 = d XOR w6
    in W @ [w4, w5, w6, w7])"
proof -
  define w4 where "w4 = a XOR (sub_word (rot_word d) XOR rcon_word (i + 1))"
  have l: "length V = 4 * i" using assms by simp
  have 1: "fips_word 4 W = w4"
    using fips_first [of W 4 "i + 1"] assms l by (simp add: w4_def nth_append)
  have 2: "fips_word 4 (W @ [w4]) = b XOR w4"
    using fips_next [of "W @ [w4]" 4 "i + 1" 1] assms l by (simp add: nth_append)
  have 3: "fips_word 4 (W @ [w4, b XOR w4]) = c XOR (b XOR w4)"
    using fips_next [of "W @ [w4, b XOR w4]" 4 "i + 1" 2] assms l by (simp add: nth_append)
  have 4: "fips_word 4 (W @ [w4, b XOR w4, c XOR (b XOR w4)]) = d XOR (c XOR (b XOR w4))"
    using fips_next [of "W @ [w4, b XOR w4, c XOR (b XOR w4)]" 4 "i + 1" 3] assms l by (simp add: nth_append)
  show ?thesis
    using 1 2 3 4 unfolding w4_def by (simp add: eval_nat_numeral Let_def)
qed

lemma fips_expand_Suc: "0 < n \<Longrightarrow> fips_expand Nk n W = fips_expand Nk (n - 1) (W @ [fips_word Nk W])"
  by (cases n) simp_all

lemma fips_four_of_six:
  assumes "length W = 6 * (i + 1)" and W: "W = V @ [a, b, c, d, e, f]"
  shows "fips_expand 6 4 W = (let w6 = a XOR (sub_word (rot_word f) XOR rcon_word (i + 1)); w7 = b XOR w6; w8 = c XOR w7; w9 = d XOR w8
    in W @ [w6, w7, w8, w9])"
proof -
  define w6 where "w6 = a XOR (sub_word (rot_word f) XOR rcon_word (i + 1))"
  have l: "length V = 6 * i" using assms by simp
  have 1: "fips_word 6 W = w6"
    using fips_first [of W 6 "i + 1"] assms l by (simp add: w6_def nth_append)
  have 2: "fips_word 6 (W @ [w6]) = b XOR w6"
    using fips_next [of "W @ [w6]" 6 "i + 1" 1] assms l by (simp add: nth_append)
  have 3: "fips_word 6 (W @ [w6, b XOR w6]) = c XOR (b XOR w6)"
    using fips_next [of "W @ [w6, b XOR w6]" 6 "i + 1" 2] assms l by (simp add: nth_append)
  have 4: "fips_word 6 (W @ [w6, b XOR w6, c XOR (b XOR w6)]) = d XOR (c XOR (b XOR w6))"
    using fips_next [of "W @ [w6, b XOR w6, c XOR (b XOR w6)]" 6 "i + 1" 3] assms l by (simp add: nth_append)
  show ?thesis
    using 1 2 3 4 unfolding w6_def by (simp add: fips_expand_Suc Let_def)
qed

lemma fips_two_of_six:
  assumes "length W = 6 * (i + 1) + 4" and W: "W = V @ [e, f, w6, w7, w8, w9]"
  shows "fips_expand 6 2 W = (let w10 = e XOR w9; w11 = f XOR w10 in W @ [w10, w11])"
proof -
  have l: "length V = 6 * i + 4" using assms by simp
  have 1: "fips_word 6 W = e XOR w9"
    using fips_next [of W 6 "i + 1" 4] assms l by (simp add: nth_append)
  have 2: "fips_word 6 (W @ [e XOR w9]) = f XOR (e XOR w9)"
    using fips_next [of "W @ [e XOR w9]" 6 "i + 1" 5] assms l by (simp add: nth_append)
  show ?thesis using 1 2 by (simp add: fips_expand_Suc Let_def)
qed

lemma fips_four_of_eight:
  assumes "length W = 8 * (i + 1)" and W: "W = V @ [a, b, c, d, e, f, g, h]"
  shows "fips_expand 8 4 W = (let w8 = a XOR (sub_word (rot_word h) XOR rcon_word (i + 1)); w9 = b XOR w8; w10 = c XOR w9; w11 = d XOR w10
    in W @ [w8, w9, w10, w11])"
proof -
  define w8 where "w8 = a XOR (sub_word (rot_word h) XOR rcon_word (i + 1))"
  have l: "length V = 8 * i" using assms by simp
  have 1: "fips_word 8 W = w8"
    using fips_first [of W 8 "i + 1"] assms l by (simp add: w8_def nth_append)
  have 2: "fips_word 8 (W @ [w8]) = b XOR w8"
    using fips_next [of "W @ [w8]" 8 "i + 1" 1] assms l by (simp add: nth_append)
  have 3: "fips_word 8 (W @ [w8, b XOR w8]) = c XOR (b XOR w8)"
    using fips_next [of "W @ [w8, b XOR w8]" 8 "i + 1" 2] assms l by (simp add: nth_append)
  have 4: "fips_word 8 (W @ [w8, b XOR w8, c XOR (b XOR w8)]) = d XOR (c XOR (b XOR w8))"
    using fips_next [of "W @ [w8, b XOR w8, c XOR (b XOR w8)]" 8 "i + 1" 3] assms l by (simp add: nth_append)
  show ?thesis
    using 1 2 3 4 unfolding w8_def by (simp add: fips_expand_Suc Let_def)
qed

lemma fips_rest_of_eight:
  assumes "length W = 8 * (i + 1) + 4" and W: "W = V @ [e, f, g, h, w8, w9, w10, w11]"
  shows "fips_expand 8 4 W = (let w12 = e XOR sub_word w11; w13 = f XOR w12; w14 = g XOR w13; w15 = h XOR w14
    in W @ [w12, w13, w14, w15])"
proof -
  define w12 where "w12 = e XOR sub_word w11"
  have l: "length V = 8 * i + 4" using assms by simp
  have 1: "fips_word 8 W = w12"
    using fips_middle [of W 8 "i + 1"] assms l by (simp add: w12_def nth_append)
  have 2: "fips_word 8 (W @ [w12]) = f XOR w12"
    using fips_next [of "W @ [w12]" 8 "i + 1" 5] assms l by (simp add: nth_append)
  have 3: "fips_word 8 (W @ [w12, f XOR w12]) = g XOR (f XOR w12)"
    using fips_next [of "W @ [w12, f XOR w12]" 8 "i + 1" 6] assms l by (simp add: nth_append)
  have 4: "fips_word 8 (W @ [w12, f XOR w12, g XOR (f XOR w12)]) = h XOR (g XOR (f XOR w12))"
    using fips_next [of "W @ [w12, f XOR w12, g XOR (f XOR w12)]" 8 "i + 1" 7] assms l by (simp add: nth_append)
  show ?thesis
    using 1 2 3 4 unfolding w12_def by (simp add: fips_expand_Suc Let_def)
qed

lemma list_of_4: "length L = 4 \<Longrightarrow> \<exists>a b c d. L = [a, b, c, d]" and list_of_2: "length L = 2 \<Longrightarrow> \<exists>a b. L = [a, b]"
  by (auto simp: numeral_eq_Suc length_Suc_conv)

lemma last_4: "4 \<le> length W \<Longrightarrow> \<exists>V a b c d. W = V @ [a, b, c, d]" for W :: "'a list"
proof -
  assume "4 \<le> length W"
  then have "length (drop (length W - 4) W) = 4" by simp
  then obtain a b c d where "drop (length W - 4) W = [a, b, c, d]" using list_of_4 by blast
  then show ?thesis by (metis append_take_drop_id)
qed

lemma last_6: "6 \<le> length W \<Longrightarrow> \<exists>V a b c d e f. W = V @ [a, b, c, d, e, f]" for W :: "'a list"
proof -
  assume l: "6 \<le> length W"
  then obtain V c d e f where 1: "W = V @ [c, d, e, f]" using last_4 [of W] by auto
  have "length (drop (length V - 2) V) = 2" using l 1 by simp
  then obtain a b where "drop (length V - 2) V = [a, b]" using list_of_2 by blast
  then have "V = take (length V - 2) V @ [a, b]" using append_take_drop_id [of "length V - 2" V] by simp
  then obtain U where "V = U @ [a, b]" by blast
  then show ?thesis using 1 by simp
qed

lemma last_8: "8 \<le> length W \<Longrightarrow> \<exists>V a b c d e f g h. W = V @ [a, b, c, d, e, f, g, h]" for W :: "'a list"
proof -
  assume l: "8 \<le> length W"
  then obtain V e f g h where 1: "W = V @ [e, f, g, h]" using last_4 [of W] by auto
  then obtain U a b c d where "V = U @ [a, b, c, d]" using last_4 [of V] l by auto
  then show ?thesis using 1 by simp
qed

text \<open>The loops of the source are the standard's expansion.\<close>

lemma expandKey16_fips:
  "length W = 4 * (i + 1) \<Longrightarrow> i + n \<le> 10 \<Longrightarrow> expandKey16 n i W = fips_expand 4 (4 * n) W"
proof (induction n arbitrary: i W)
  case (Suc n)
  obtain V a b c d where W: "W = V @ [a, b, c, d]" using last_4 [of W] Suc.prems(1) by auto
  have "expandKey16 (Suc n) i W = expandKey16 n (i + 1) (fips_expand 4 4 W)"
    using Suc.prems(2) unfolding fips_four [OF Suc.prems(1) W] by (simp add: W Let_def subRot_spec rcon_spec xor.assoc)
  also have "\<dots> = fips_expand 4 (4 * n) (fips_expand 4 4 W)" using Suc.prems by (intro Suc.IH) simp_all
  finally show ?case by (simp flip: fips_expand_add)
qed simp

lemma expandKey24_fips:
  "length W = 6 * (i + 1) \<Longrightarrow> i + Suc n \<le> 10 \<Longrightarrow> expandKey24 (Suc n) i W = fips_expand 6 (6 * n + 4) W"
proof (induction n arbitrary: i W)
  case 0
  obtain V a b c d e f where W: "W = V @ [a, b, c, d, e, f]" using last_6 [of W] 0(1) by auto
  show ?case
    using 0(2) fips_four_of_six [OF 0(1) W] by (simp add: W Let_def subRot_spec rcon_spec xor.assoc)
next
  case (Suc n)
  obtain V a b c d e f where W: "W = V @ [a, b, c, d, e, f]" using last_6 [of W] Suc.prems(1) by auto
  define w6 where "w6 = a XOR (sub_word (rot_word f) XOR rcon_word (i + 1))"
  let ?W4 = "(V @ [a, b, c, d]) @ [e, f, w6, b XOR w6, c XOR (b XOR w6), d XOR (c XOR (b XOR w6))]"
  have 4: "fips_expand 6 4 W = ?W4" using fips_four_of_six [OF Suc.prems(1) W] by (simp add: W Let_def w6_def)
  have "length ?W4 = 6 * (i + 1) + 4" using Suc.prems(1) by (simp add: W)
  from fips_two_of_six [OF this refl] have 6: "expandKey24 (Suc (Suc n)) i W = expandKey24 (Suc n) (i + 1) (fips_expand 6 2 ?W4)"
    using Suc.prems(2) by (simp add: W w6_def Let_def subRot_spec rcon_spec xor.assoc)
  have "expandKey24 (Suc n) (i + 1) (fips_expand 6 2 ?W4) = fips_expand 6 (6 * n + 4) (fips_expand 6 2 ?W4)"
    using Suc.prems by (intro Suc.IH) (simp_all add: W)
  then show ?case unfolding 6 4 [symmetric] by (simp flip: fips_expand_add)
qed

lemma expandKey32_fips:
  "length W = 8 * (i + 1) \<Longrightarrow> i + Suc n \<le> 10 \<Longrightarrow> expandKey32 (Suc n) i W = fips_expand 8 (8 * n + 4) W"
proof (induction n arbitrary: i W)
  case 0
  obtain V a b c d e f g h where W: "W = V @ [a, b, c, d, e, f, g, h]" using last_8 [of W] 0(1) by auto
  show ?case
    using 0(2) fips_four_of_eight [OF 0(1) W] by (simp add: W Let_def subRot_spec rcon_spec xor.assoc)
next
  case (Suc n)
  obtain V a b c d e f g h where W: "W = V @ [a, b, c, d, e, f, g, h]" using last_8 [of W] Suc.prems(1) by auto
  define w8 where "w8 = a XOR (sub_word (rot_word h) XOR rcon_word (i + 1))"
  let ?W4 = "(V @ [a, b, c, d]) @ [e, f, g, h, w8, b XOR w8, c XOR (b XOR w8), d XOR (c XOR (b XOR w8))]"
  have 4: "fips_expand 8 4 W = ?W4" using fips_four_of_eight [OF Suc.prems(1) W] by (simp add: W Let_def w8_def)
  have "length ?W4 = 8 * (i + 1) + 4" using Suc.prems(1) by (simp add: W)
  from fips_rest_of_eight [OF this refl] have 8: "expandKey32 (Suc (Suc n)) i W = expandKey32 (Suc n) (i + 1) (fips_expand 8 4 ?W4)"
    using Suc.prems(2) by (simp add: W w8_def Let_def subRot_spec subWord_spec rcon_spec xor.assoc)
  have "expandKey32 (Suc n) (i + 1) (fips_expand 8 4 ?W4) = fips_expand 8 (8 * n + 4) (fips_expand 8 4 ?W4)"
    using Suc.prems by (intro Suc.IH) (simp_all add: W)
  then show ?case unfolding 8 4 [symmetric] by (simp flip: fips_expand_add)
qed

text \<open>The words of a key, and the expanded key for it.\<close>

definition key_words :: "mem \<Rightarrow> nat \<Rightarrow> u32 list" where
  "key_words key keylen = map (\<lambda>i. LOADH 4 key (4 * i)) [0..<keylen div 4]"

definition key_rounds :: "nat \<Rightarrow> nat" where
  "key_rounds keylen = 10 + (keylen div 8 - 2) * 2"

lemma expandKey_fips:
  assumes "keylen \<in> {16, 24, 32}"
  shows "expandKey key keylen = fips_expand (keylen div 4) (4 * (key_rounds keylen + 1) - keylen div 4) (key_words key keylen)"
  using assms expandKey16_fips [of "key_words key 16" 0 10] expandKey24_fips [of "key_words key 24" 0 7]
    expandKey32_fips [of "key_words key 32" 0 6]
  by (auto simp: expandKey_def key_rounds_def Let_def key_words_def [symmetric]) (simp_all add: key_words_def)

section \<open>The key that is set up\<close>

lemma nth_concat_four:
  "(\<And>j. j < n \<Longrightarrow> length (f j) = 4) \<Longrightarrow> j < n \<Longrightarrow> i < 4 \<Longrightarrow> concat (map f [0..<n]) ! (4 * j + i) = f j ! i"
  "(\<And>j. j < n \<Longrightarrow> length (f j) = 4) \<Longrightarrow> length (concat (map f [0..<n])) = 4 * n"
proof (induction n)
  case (Suc n)
  {
    case 1
    have l: "length (concat (map f [0..<n])) = 4 * n" using Suc.IH(2) 1 by simp
    show ?case
    proof (cases "j = n")
      case True
      then show ?thesis using l by (simp add: nth_append)
    next
      case False
      then have "j < n" "4 * j + i < 4 * n" using 1 by simp_all
      then show ?thesis using l Suc.IH(1) 1 by (simp add: nth_append)
    qed
  next
    case 2
    then show ?case using Suc.IH(2) by simp
  }
qed simp_all

lemma keyAt_store: "4 * j + 4 \<le> length W \<Longrightarrow> keyAt (storeWords old W) j = keyAt W j"
  by (simp add: keyAt_def storeWords_def nth_append)

lemma keyAt_inverse:
  assumes W: "length W = 4 * (n + 1)" and j: "j \<le> n"
  shows "keyAt (inverseKey n W) j = (if j = 0 \<or> j = n then keyAt W (n - j) else invQuad (keyAt W (n - j)))"
proof -
  define f where "f i = (let rrk = take 4 (drop (4 * (n - i)) W) in if i = 0 \<or> i = n then rrk else map invKeyWord rrk)" for i
  have len: "length (f i) = 4" for i using W by (simp add: f_def Let_def)
  have at: "inverseKey n W ! (4 * j + i) = f j ! i" if "i < 4" for i
    using nth_concat_four(1) [of "n + 1" f j i] len that j by (simp add: inverseKey_def f_def [abs_def])
  have rk: "take 4 (drop (4 * (n - j)) W) ! i = W ! (4 * (n - j) + i)" if "i < 4" for i using W that by simp
  have fj: "f j ! i = (if j = 0 \<or> j = n then W ! (4 * (n - j) + i) else invKeyWord (W ! (4 * (n - j) + i)))" if "i < 4" for i
    using that W rk [OF that] by (auto simp: f_def Let_def)
  show ?thesis using at [of 0] at [of 1] at [of 2] at [of 3] fj [of 0] fj [of 1] fj [of 2] fj [of 3]
    by (simp add: keyAt_def)
qed

lemma length_expandKey: "keylen \<in> {16, 24, 32} \<Longrightarrow> length (expandKey key keylen) = 4 * (key_rounds keylen + 1)"
  by (auto simp: expandKey_fips key_words_def key_rounds_def)

lemma length_inverseKey: "length W = 4 * (n + 1) \<Longrightarrow> length (inverseKey n W) = 4 * (n + 1)"
  unfolding inverseKey_def by (rule nth_concat_four(2)) (simp add: Let_def)

lemma setup_ok:
  assumes key: "keylen \<in> {16, 24, 32}" "keylen \<le> length key" and nrounds: "nrounds = 0 \<or> nrounds = key_rounds keylen"
  shows "\<exists>k. rijndael_setup key keylen nrounds skey = Some (CRYPT_OK, k) \<and> key_ok k \<and> Nr k = key_rounds keylen \<and>
    take (4 * (Nr k + 1)) (eK k) =
      fips_expand (keylen div 4) (4 * (Nr k + 1) - keylen div 4) (key_words (take keylen key) keylen)"
proof -
  define W where "W = expandKey (take keylen key) keylen"
  define k where "k = \<lparr>eK = storeWords (eK skey) W, dK = storeWords (dK skey) (inverseKey (key_rounds keylen) W), Nr = key_rounds keylen\<rparr>"
  have W: "length W = 4 * (Nr k + 1)" using length_expandKey [OF key(1)] by (simp add: W_def k_def)
  have "rijndael_setup key keylen nrounds skey = Some (CRYPT_OK, k)"
    using key nrounds by (auto simp: rijndael_setup_def mem_simps Let_def k_def W_def key_rounds_def)
  moreover have "key_ok k"
    unfolding key_ok_def
  proof (intro conjI allI impI)
    show "Nr k \<in> {10, 12, 14}" using key(1) by (auto simp: k_def key_rounds_def)
    show "4 * Nr k + 4 \<le> length (eK k)" "4 * Nr k + 4 \<le> length (dK k)"
      using W length_inverseKey [of W "Nr k"] by (simp_all add: k_def storeWords_def)
    fix j assume j: "j \<le> Nr k"
    then show "keyAt (dK k) j = (if j = 0 \<or> j = Nr k then keyAt (eK k) (Nr k - j) else invQuad (keyAt (eK k) (Nr k - j)))"
      using keyAt_inverse [of W "Nr k" j] W length_inverseKey [of W "Nr k"]
        keyAt_store [of j "inverseKey (Nr k) W" "dK skey"] keyAt_store [of "Nr k - j" W "eK skey"]
      by (simp add: k_def)
  qed
  moreover have "take (4 * (Nr k + 1)) (eK k) = W" using W by (simp add: k_def storeWords_def)
  ultimately show ?thesis using expandKey_fips [OF key(1), of "take keylen key"] by (auto simp: W_def k_def)
qed

lemma keysize_ok: "rijndael_keysize n = (CRYPT_OK, m) \<Longrightarrow> m \<in> {16, 24, 32} \<and> m \<le> n"
  by (auto simp: rijndael_keysize_def split: if_splits)

text \<open>The expanded key of the standard, and what a key that was set up does.\<close>

definition fips_key :: "nat \<Rightarrow> mem \<Rightarrow> u32 list" where
  "fips_key keylen key = fips_expand (keylen div 4) (4 * (key_rounds keylen + 1) - keylen div 4) (key_words key keylen)"

lemma setup_encrypts:
  assumes key: "keylen \<in> {16, 24, 32}" "keylen \<le> length key" and pt: "length pt = 16"
    and nrounds: "nrounds = 0 \<or> nrounds = key_rounds keylen"
  shows "\<exists>k ct. rijndael_setup key keylen nrounds skey = Some (CRYPT_OK, k) \<and> Nr k = key_rounds keylen \<and>
    rijndael_ecb_encrypt pt k = Some ct \<and>
    columns (loadQuad ct) = aes_cipher (map (\<lambda>j. columns (keyAt (fips_key keylen (take keylen key)) j)) [0..<Nr k + 1])
      (columns (loadQuad pt))"
proof -
  obtain k where k: "rijndael_setup key keylen nrounds skey = Some (CRYPT_OK, k)" "key_ok k" "Nr k = key_rounds keylen"
      "take (4 * (Nr k + 1)) (eK k) = fips_key keylen (take keylen key)"
    using setup_ok [OF key nrounds] unfolding fips_key_def by force
  obtain ct where ct: "rijndael_ecb_encrypt pt k = Some ct" "columns (loadQuad ct) =
      aes_cipher (map (\<lambda>j. columns (keyAt (eK k) j)) [0..<Nr k + 1]) (columns (loadQuad pt))"
    using encrypt_block_spec [OF k(2) pt] by blast
  have "keyAt (eK k) j = keyAt (fips_key keylen (take keylen key)) j" if "j < Nr k + 1" for j
    using that by (simp add: keyAt_def flip: k(4))
  then have "map (\<lambda>j. columns (keyAt (eK k) j)) [0..<Nr k + 1] =
      map (\<lambda>j. columns (keyAt (fips_key keylen (take keylen key)) j)) [0..<Nr k + 1]"
    by (simp del: upt_Suc)
  then show ?thesis using k(1,3) ct by metis
qed

lemma setup_accepts:
  assumes "keylen \<le> length key" and k: "rijndael_setup key keylen nrounds skey = Some (CRYPT_OK, k)"
  shows "key_ok k"
proof -
  have "keylen \<in> {16, 24, 32}" "nrounds = 0 \<or> nrounds = key_rounds keylen"
    using k by (auto simp: rijndael_setup_def key_rounds_def split: if_splits)
  from setup_ok [OF this(1) assms(1) this(2), of skey] k show ?thesis by auto
qed
section \<open>A block cipher for the stream cipher\<close>

text \<open>
  What \<^verbatim>\<open>rijndael_setup\<close> and \<^verbatim>\<open>rijndael_ecb_encrypt\<close> make of a 16-byte key, as \<^verbatim>\<open>symmetricCipher.cpp\<close> calls
  them; the stream cipher never asks for shorter keys or blocks, for which this is zero.
\<close>

definition rijndael :: "mem \<Rightarrow> mem \<Rightarrow> mem" where
  "rijndael key block =
     (case do {
        (_, k) \<leftarrow> rijndael_setup key 16 0 \<lparr>eK = replicate 64 0, dK = replicate 64 0, Nr = 0\<rparr>;
        rijndael_ecb_encrypt block k }
      of Some c \<Rightarrow> c | None \<Rightarrow> replicate 16 0)"

lemma length_rijndael [simp]: "length (rijndael key block) = 16"
proof -
  have "length c = 16" if "rijndael_ecb_encrypt block k = Some c" for k c
    using that by (auto simp: rijndael_ecb_encrypt_def cipherBlock_def Let_def split: bind_splits)
  then show ?thesis by (auto simp: rijndael_def split: option.splits bind_splits)
qed

lemma rijndael_cipher_ready: "SymmetricCipher_new rijndael key iv = Some s \<Longrightarrow> cipher_ready s"
  by (auto simp: SymmetricCipher_new_def cipher_ready_def cipher_ok_def block_fun_def split: bind_splits)

section \<open>The self test\<close>

lemma iterate_snoc: "iterate (Suc n) f m = Option.bind (iterate n f m) f"
  by (induction n f m rule: iterate.induct) (auto split: bind_splits)

lemma iterate_length:
  "key_ok k \<Longrightarrow> length m = 16 \<Longrightarrow> \<exists>c. iterate n (\<lambda>m. rijndael_ecb_encrypt m k) m = Some c \<and> length c = 16"
proof (induction n arbitrary: m)
  case (Suc n)
  obtain c where "rijndael_ecb_encrypt m k = Some c" "length c = 16" using decrypt_encrypt_block [OF Suc.prems] by blast
  then show ?case using Suc.IH [OF Suc.prems(1)] by simp
qed simp

lemma iterate_back:
  "key_ok k \<Longrightarrow> length m = 16 \<Longrightarrow>
   \<exists>c. iterate n (\<lambda>m. rijndael_ecb_encrypt m k) m = Some c \<and> iterate n (\<lambda>m. rijndael_ecb_decrypt m k) c = Some m"
proof (induction n arbitrary: m)
  case (Suc n)
  obtain c where c: "rijndael_ecb_encrypt m k = Some c" "length c = 16" "rijndael_ecb_decrypt c k = Some m"
    using decrypt_encrypt_block [OF Suc.prems] by blast
  obtain d where "iterate n (\<lambda>m. rijndael_ecb_encrypt m k) c = Some d" "iterate n (\<lambda>m. rijndael_ecb_decrypt m k) d = Some c"
    using Suc.IH [OF Suc.prems(1) c(2)] by blast
  then show ?case using c iterate_snoc [of n "\<lambda>m. rijndael_ecb_decrypt m k" d] by auto
qed simp

text \<open>The test of a key can fail only on the known answer: the thousand blocks always come back.\<close>

lemma test_one_iff:
  assumes key: "keylen \<in> {16, 24, 32}" "keylen \<le> length key" and pt: "length pt = 16"
  shows "\<exists>k c. rijndael_setup key keylen 0 \<lparr>eK = replicate 64 0, dK = replicate 64 0, Nr = 0\<rparr> = Some (CRYPT_OK, k) \<and>
    rijndael_ecb_encrypt pt k = Some c \<and>
    rijndael_test_one (keylen, key, pt, ct) = Some (if c = ct then CRYPT_OK else CRYPT_FAIL_TESTVECTOR)"
proof -
  obtain k where k: "rijndael_setup key keylen 0 \<lparr>eK = replicate 64 0, dK = replicate 64 0, Nr = 0\<rparr> = Some (CRYPT_OK, k)" "key_ok k"
    using setup_ok [OF key, of 0] by blast
  obtain c where c: "rijndael_ecb_encrypt pt k = Some c" "rijndael_ecb_decrypt c k = Some pt"
    using decrypt_encrypt_block [OF k(2) pt] by blast
  obtain d where d: "iterate 1000 (\<lambda>m. rijndael_ecb_encrypt m k) (replicate 16 0) = Some d"
      "iterate 1000 (\<lambda>m. rijndael_ecb_decrypt m k) d = Some (replicate 16 0)"
    using iterate_back [OF k(2), of "replicate 16 0" 1000] by auto
  have "rijndael_test_one (keylen, key, pt, ct) = Some (if c = ct then CRYPT_OK else CRYPT_FAIL_TESTVECTOR)"
    unfolding rijndael_test_one_def by (simp add: k c d del: iterate.simps)
  then show ?thesis using k c by blast
qed

end
