(* ===== verification/Sample_Connection.thy ===== *)
theory Sample_Connection
  imports Connection_Steps
begin

text \<open>
  Connections for the concrete instances of the properties: memory before the constructor, holding arbitrary values, and what the
  constructor and the handshake make of it.
\<close>

text \<open>A connection as its memory is before the constructor, with the fields of a derived class.\<close>

definition raw_connection :: "'x \<Rightarrow> ('n, 'x) net_connection" where
  "raw_connection x = \<lparr>mLastPacketRecvTime = 7, mLastSeqRecvdAtSend = replicate 32 0xCCCCCCCC, mLastSeqRecvd = 1, mHighestAckedSeq = 2,
     mLastSendSeq = 3, mAckMask = 4, mLastRecvAckAck = 5, mInitialSendSeq = 6, mInitialRecvSeq = 7, mHighestAckedSendTime = 8,
     mPingTimeout = 9, mPingRetryCount = 10, mTypeFlags = 11, mLastUpdateTime = 12, mRoundTripTime = 13, mSendDelayCredit = 14,
     mSimulatedLatency = 15, mSimulatedPacketLoss = 0, mLocalRate = defaultRate, mRemoteRate = defaultRate,
     mLocalRateChanged = False, mCurrentPacketSendSize = 1, mCurrentPacketSendPeriod = 2,
     mNetAddress = \<lparr>addrTransport = 0, addrPort = 28000, netNum = [0x7F000001, 0, 0, 0]\<rparr>, mPingSendCount = 3,
     mLastPingSendTime = 4, mNotifyQueue = [], mRemoteConnection = True,
     mConnectionParameters = \<lparr>mIsArranged = True, mUsingCrypto = True, mPuzzleRetried = True, mNonce = [], mServerNonce = [],
       mPuzzleDifficulty = 0, mPuzzleSolution = 0, mClientIdentity = 0, mPublicKey = None, mPrivateKey = None, mCertificate = None,
       mSharedSecret = None, mRequestKeyExchange = False, mRequestCertificate = False, mSymmetricKeyBytes = [], mInitVectorBytes = [],
       mPossibleAddresses = [], mIsInitiator = True, mIsLocal = True, mArrangedSecret = None, mDebugObjectSizes = True\<rparr>,
     mConnectSendCount = 0, mConnectLastSendTime = 0, mSymmetricCipher = None, mConnectionState = Connected, cwnd = 1, ssthresh = 1,
     mLastSeqRecvdAck = 0, mLastAckTime = 0, mStringTable = None, mErrorBuffer = [], mSub = x, mOut = []\<rparr>"

definition sample_connection :: "u32 \<Rightarrow> u32 \<Rightarrow> (unit, unit) net_connection" where
  "sample_connection mine theirs = setInitialRecvSequence theirs (NetConnection_new mine [1, 2, 3, 4, 5, 6, 7, 8] (raw_connection ()))"

definition sample_env :: packet_env where
  "sample_env = \<lparr>getCurrentTime = 1000, recvDraw = 0, sendDraw = 0, packetBlock = replicate 1500 0xCC,
     packetStrings = replicate 256 0xCC, packetFresh = (\<lambda>_. 0xCC)\<rparr>"

lemma sample_connection_ok: "unat mine + 1024 < 2 ^ 32 \<Longrightarrow> conn_ok (sample_connection mine theirs)"
  unfolding sample_connection_def by (rule new_connection_ok) (simp_all add: raw_connection_def)

lemma sample_connection_fields:
  "mHighestAckedSeq (sample_connection m t) = m" "mLastSendSeq (sample_connection m t) = m" "mLastSeqRecvd (sample_connection m t) = t"
  "mLastRecvAckAck (sample_connection m t) = t" "mSymmetricCipher (sample_connection m t) = None" "mTypeFlags (sample_connection m t) = 0"
  "mPingTimeout (sample_connection m t) = DefaultPingTimeout" "mPingRetryCount (sample_connection m t) = DefaultPingRetryCount"
  "mPingSendCount (sample_connection m t) = 0" "mRemoteConnection (sample_connection m t) = False"
  "mLocalRate (sample_connection m t) = defaultRate" "mNotifyQueue (sample_connection m t) = []" "mAckMask (sample_connection m t) = 0"
  by (simp_all add: sample_connection_def setInitialRecvSequence_def NetConnection_new_def computeNegotiatedRate_def Let_def)

lemma sample_block [simp]: "length (packetBlock sample_env) = 1500"
  by (simp add: sample_env_def)

lemma windowFull_cipher [simp]: "windowFull (c\<lparr>mSymmetricCipher := k\<rparr>) = windowFull c"
  by (simp add: windowFull_def isAdaptive_def)

lemma sample_window: "\<not> windowFull (sample_connection m t)"
  by (simp add: windowFull_def sample_connection_fields isAdaptive_def window_constants)

end
