(* ===== verification/Notify_Protocol.thy ===== *)
theory Notify_Protocol
  imports Sample_Connection
begin

text \<open>
  The notify protocol between two ends. Each end numbers its data packets and tells the other, in every header, which of the other's
  it has got; the network loses, repeats, delays and reorders. A header is the values \<open>writePacketHeader\<close> writes and
  \<open>readPacketHeader\<close> hands to \<open>acceptHeader\<close>; that they cross intact is \<open>data_packet_crosses\<close>. The steps of the ends are
  the operations of \<^verbatim>\<open>netConnection.cpp\<close>.

  What an end is told about a packet is true: one reported lost is never handed to the peer's \<^verbatim>\<open>readPacket\<close>, before or after,
  and one reported delivered was accepted by the peer.
\<close>

section \<open>Two ends\<close>

record packet_head =
  headType :: u32
  headSeq :: u32
  headAck :: u32
  headBytes :: u32
  headMask :: u32

definition head_of :: "u32 \<Rightarrow> ('n, 'x) net_connection \<Rightarrow> packet_head" where
  "head_of t c = \<lparr>headType = t, headSeq = (if t = DataPacket then mLastSendSeq c + 1 else mLastSendSeq c), headAck = mLastSeqRecvd c,
     headBytes = ackByteCount c, headMask = mAckMask c\<rparr>"

text \<open>
  The ends are told apart by a truth value. Beside each end stand the headers it ever sent, the numbers of the data packets
  it accepted, of those the ones handed to \<^verbatim>\<open>readPacket\<close>, and what it was told of its own packets, as \<open>notifyLoop\<close> hands it to
  \<open>handleNotify\<close>.
\<close>

record ('n, 'x) link =
  ends :: "bool \<Rightarrow> ('n, 'x) net_connection"
  heads :: "bool \<Rightarrow> packet_head set"
  accepted :: "bool \<Rightarrow> nat set"
  handed :: "bool \<Rightarrow> nat set"
  told :: "bool \<Rightarrow> (nat \<times> bool) set"

definition notified :: "u32 \<Rightarrow> u32 option \<Rightarrow> u32 \<Rightarrow> (nat \<times> bool) set" where
  "notified old m a = {(unat k, r) | k r. old < k \<and> k \<le> a \<and> ackBit m a k = Some r}"

text \<open>A header within the windows of the end that reads it, as \<open>readPacketHeader\<close> tests.\<close>

definition in_windows :: "packet_head \<Rightarrow> ('n, 'x) net_connection \<Rightarrow> bool" where
  "in_windows h c \<longleftrightarrow> headSeq h - mLastSeqRecvd c < MaxPacketWindowSize \<and>
     headAck h - mHighestAckedSeq c < AckSequenceNumberWindowSize \<and> headAck h \<le> mLastSendSeq c"

inductive link_step :: "('n, 'x) conn_class \<Rightarrow> ('n, 'x) link \<Rightarrow> ('n, 'x) link \<Rightarrow> bool" for cls where
  data: "\<not> windowFull (ends L i) \<Longrightarrow> unat (mLastSendSeq (ends L i)) + 1025 < 2 ^ 32 \<Longrightarrow> length (packetBlock e) = 1500 \<Longrightarrow> unat target \<le> 1500 \<Longrightarrow>
    writeRawPacket cls e DataPacket (PacketStream_new e target) (ends L i) = Some (bs, c) \<Longrightarrow>
    link_step cls L (L\<lparr>ends := (ends L)(i := c), heads := (heads L)(i := insert (head_of DataPacket (ends L i)) (heads L i))\<rparr>)"
| control: "t \<noteq> DataPacket \<Longrightarrow> length (packetBlock e) = 1500 \<Longrightarrow> sendControlPacket cls e t (ends L i) = Some c \<Longrightarrow>
    link_step cls L (L\<lparr>ends := (ends L)(i := c), heads := (heads L)(i := insert (head_of t (ends L i)) (heads L i))\<rparr>)"
| receive: "h \<in> heads L (\<not> i) \<Longrightarrow> in_windows h (ends L i) \<Longrightarrow> length (packetBlock e) = 1500 \<Longrightarrow> m = ack_mask_of (headBytes h) (headMask h) \<Longrightarrow>
    acceptHeader cls e (headType h) (headSeq h) (headAck h) m d (ends L i) = Some (isData, c) \<Longrightarrow>
    link_step cls L (L\<lparr>ends := (ends L)(i := c), heads := (heads L)(i := insert (head_of AckPacket c) (heads L i)),
      accepted := (accepted L)(i := (if headType h = DataPacket then {unat (headSeq h)} else {}) \<union> accepted L i),
      handed := (handed L)(i := (if isData then {unat (headSeq h)} else {}) \<union> handed L i),
      told := (told L)(i := notified (mHighestAckedSeq (ends L i)) m (headAck h) \<union> told L i)\<rparr>)"
| other: "window_state c = window_state (ends L i) \<Longrightarrow> link_step cls L (L\<lparr>ends := (ends L)(i := c)\<rparr>)"

text \<open>After the handshake, each end knows the first number of the other.\<close>

definition link_start :: "('n, 'x) link \<Rightarrow> bool" where
  "link_start L \<longleftrightarrow> (\<forall>i. conn_ok (ends L i) \<and> mLastSeqRecvd (ends L i) = mLastSendSeq (ends L (\<not> i)) \<and>
     mHighestAckedSeq (ends L i) = mLastSendSeq (ends L i) \<and> mLastRecvAckAck (ends L i) = mLastSeqRecvd (ends L i) \<and>
     mAckMask (ends L i) = 0 \<and> heads L i = {} \<and> accepted L i = {} \<and> handed L i = {} \<and> told L i = {})"

section \<open>The invariant\<close>

text \<open>What an end remembers of its unacknowledged data packets.\<close>

abbreviation ack_sent :: "('n, 'x) net_connection \<Rightarrow> nat \<Rightarrow> nat" where
  "ack_sent c k \<equiv> unat (mLastSeqRecvdAtSend c ! (k mod 32))"

text \<open>A header of an end \<open>c\<close> that has accepted \<open>A\<close> and handed on \<open>H\<close>, for a reader that knows \<open>seen\<close> of its numbers.\<close>

definition head_ok :: "('n, 'x) net_connection \<Rightarrow> nat set \<Rightarrow> nat set \<Rightarrow> nat \<Rightarrow> packet_head \<Rightarrow> bool" where
  "head_ok c A H seen h \<longleftrightarrow> unat (headSeq h) \<le> unat (mLastSendSeq c) \<and> unat (headAck h) \<le> unat (mLastSeqRecvd c) \<and> unat (headBytes h) \<le> 4 \<and>
     unat (headAck h) \<le> 8 * unat (headBytes h) + seen \<and>
     (headType h = DataPacket \<and> unat (mHighestAckedSeq c) < unat (headSeq h) \<longrightarrow> ack_sent c (unat (headSeq h)) = unat (headAck h)) \<and>
     (\<forall>d<32. d \<le> unat (headAck h) \<longrightarrow> (bit (headMask h) d \<longrightarrow> unat (headAck h) - d \<in> A) \<and> (\<not> bit (headMask h) d \<longrightarrow> unat (headAck h) - d \<notin> H))"

definition end_ok :: "('n, 'x) link \<Rightarrow> bool \<Rightarrow> bool" where
  "end_ok L i \<longleftrightarrow> (let c = ends L i; p = ends L (\<not> i); A = accepted L i; H = handed L i; seen = unat (mHighestAckedSeq p) in
     conn_ok c \<and> unat (mLastSeqRecvd c) \<le> unat (mLastSendSeq p) \<and> unat (mHighestAckedSeq c) \<le> unat (mLastSeqRecvd p) \<and>
     unat (mLastRecvAckAck c) \<le> seen \<and> unat (mLastRecvAckAck c) \<le> unat (mLastSeqRecvd c) \<and>
     (\<forall>d<32. bit (mAckMask c) d \<longleftrightarrow> d \<le> unat (mLastSeqRecvd c) \<and> unat (mLastSeqRecvd c) - d \<in> A) \<and>
     (\<forall>k\<in>A. k \<le> unat (mLastSeqRecvd c)) \<and> H \<subseteq> A \<and>
     (\<forall>k. unat (mHighestAckedSeq c) < k \<and> k \<le> unat (mLastSendSeq c) \<longrightarrow>
       ack_sent c k \<le> unat (mLastSeqRecvd c) \<and> (k \<in> accepted L (\<not> i) \<longrightarrow> ack_sent c k \<le> seen)) \<and>
     (\<forall>h\<in>heads L i. head_ok c A H seen h) \<and>
     (\<forall>(k, r)\<in>told L i. k \<le> unat (mHighestAckedSeq c) \<and> (r \<longrightarrow> k \<in> accepted L (\<not> i)) \<and> (\<not> r \<longrightarrow> k \<notin> handed L (\<not> i))))"

definition link_ok :: "('n, 'x) link \<Rightarrow> bool" where
  "link_ok L \<longleftrightarrow> (\<forall>i. end_ok L i)"

lemma link_okI: "end_ok L i \<Longrightarrow> end_ok L (\<not> i) \<Longrightarrow> link_ok L"
proof -
  assume i: "end_ok L i" "end_ok L (\<not> i)"
  have "end_ok L j" for j using i by (cases "j = i") auto
  then show "link_ok L" by (simp add: link_ok_def)
qed

lemma link_okD: "link_ok L \<Longrightarrow> end_ok L i"
  by (simp add: link_ok_def)

lemma link_start_ok: "link_start L \<Longrightarrow> link_ok L"
  by (auto simp: link_start_def link_ok_def end_ok_def Let_def)

section \<open>The receiver's window as a set\<close>

text \<open>What a receiver would keep without bounds: the newest number and all the data packets it has got.\<close>

record recv_window =
  newest :: nat
  got :: "nat set"

definition window_accept :: "u32 \<Rightarrow> nat \<Rightarrow> recv_window \<Rightarrow> recv_window" where
  "window_accept t s W = \<lparr>newest = s, got = (if t = DataPacket then {s} else {}) \<union> got W\<rparr>"

text \<open>The connection stands for it: its number, and the last 32 members in the mask.\<close>

definition window_rel :: "('n, 'x) net_connection \<Rightarrow> recv_window \<Rightarrow> bool" where
  "window_rel c W \<longleftrightarrow> newest W = unat (mLastSeqRecvd c) \<and> (\<forall>k\<in>got W. k \<le> newest W) \<and>
     (\<forall>d<32. bit (mAckMask c) d \<longleftrightarrow> d \<le> newest W \<and> newest W - d \<in> got W)"

text \<open>A packet is reported once.\<close>

definition told_once :: "('n, 'x) link \<Rightarrow> bool" where
  "told_once L \<longleftrightarrow> (\<forall>i k r r'. (k, r) \<in> told L i \<longrightarrow> (k, r') \<in> told L i \<longrightarrow> r = r')"

section \<open>Headers\<close>

lemma ackByteCount_covers:
  assumes "conn_ok c" and "unat (mLastRecvAckAck c) \<le> unat (mLastSeqRecvd c)"
  shows "unat (mLastSeqRecvd c) \<le> 8 * unat (ackByteCount c) + unat (mLastRecvAckAck c)" and "unat (ackByteCount c) \<le> 4"
proof -
  have l: "unat (mLastSeqRecvd c - mLastRecvAckAck c) \<le> 32" using assms(1) by (simp add: conn_ok_def)
  then show "unat (ackByteCount c) \<le> 4" by (rule ackByteCount_le)
  have d: "unat (mLastSeqRecvd c - mLastRecvAckAck c) = unat (mLastSeqRecvd c) - unat (mLastRecvAckAck c)"
    using assms(2) by (intro unat_sub) (simp add: word_le_nat_alt)
  have "unat (mLastSeqRecvd c - mLastRecvAckAck c + 7) = unat (mLastSeqRecvd c - mLastRecvAckAck c) + 7"
    using unat_plus_small [of "mLastSeqRecvd c - mLastRecvAckAck c" 7] l by simp
  then have "unat (ackByteCount c) = (unat (mLastSeqRecvd c) - unat (mLastRecvAckAck c) + 7) div 8"
    unfolding ackByteCount_def unat_drop_bit_eq d by (simp add: drop_bit_eq_div)
  then show "unat (mLastSeqRecvd c) \<le> 8 * unat (ackByteCount c) + unat (mLastRecvAckAck c)" using assms(2) by linarith
qed

lemma control_head_ok:
  assumes "end_ok L i" and "t \<noteq> DataPacket"
  shows "head_ok (ends L i) (accepted L i) (handed L i) (unat (mHighestAckedSeq (ends L (\<not> i)))) (head_of t (ends L i))"
  using assms ackByteCount_covers [of "ends L i"] unfolding head_ok_def head_of_def end_ok_def Let_def by auto

lemma end_okD:
  assumes "end_ok L i"
  shows "conn_ok (ends L i)" "unat (mLastSeqRecvd (ends L i)) \<le> unat (mLastSendSeq (ends L (\<not> i)))"
    "unat (mHighestAckedSeq (ends L i)) \<le> unat (mLastSeqRecvd (ends L (\<not> i)))"
    "unat (mLastRecvAckAck (ends L i)) \<le> unat (mHighestAckedSeq (ends L (\<not> i)))"
    "unat (mLastRecvAckAck (ends L i)) \<le> unat (mLastSeqRecvd (ends L i))"
    "\<forall>d<32. bit (mAckMask (ends L i)) d \<longleftrightarrow> d \<le> unat (mLastSeqRecvd (ends L i)) \<and> unat (mLastSeqRecvd (ends L i)) - d \<in> accepted L i"
    "\<forall>k\<in>accepted L i. k \<le> unat (mLastSeqRecvd (ends L i))" "handed L i \<subseteq> accepted L i"
    "\<forall>k. unat (mHighestAckedSeq (ends L i)) < k \<and> k \<le> unat (mLastSendSeq (ends L i)) \<longrightarrow>
       ack_sent (ends L i) k \<le> unat (mLastSeqRecvd (ends L i)) \<and>
       (k \<in> accepted L (\<not> i) \<longrightarrow> ack_sent (ends L i) k \<le> unat (mHighestAckedSeq (ends L (\<not> i))))"
    "\<forall>h\<in>heads L i. head_ok (ends L i) (accepted L i) (handed L i) (unat (mHighestAckedSeq (ends L (\<not> i)))) h"
    "\<forall>(k, r)\<in>told L i. k \<le> unat (mHighestAckedSeq (ends L i)) \<and> (r \<longrightarrow> k \<in> accepted L (\<not> i)) \<and> (\<not> r \<longrightarrow> k \<notin> handed L (\<not> i))"
  using assms unfolding end_ok_def Let_def by - (elim conjE, assumption)+

section \<open>The steps that leave the window alone\<close>

definition numbers where
  "numbers c = (mLastSeqRecvdAtSend c, mLastSeqRecvd c, mHighestAckedSeq c, mLastSendSeq c, mAckMask c, mLastRecvAckAck c)"

lemma numbers_fields:
  "numbers c' = numbers c \<Longrightarrow> mLastSeqRecvdAtSend c' = mLastSeqRecvdAtSend c \<and> mLastSeqRecvd c' = mLastSeqRecvd c \<and>
     mHighestAckedSeq c' = mHighestAckedSeq c \<and> mLastSendSeq c' = mLastSendSeq c \<and> mAckMask c' = mAckMask c \<and> mLastRecvAckAck c' = mLastRecvAckAck c"
  by (simp add: numbers_def)

lemma same_numbers:
  assumes "link_ok L" and "numbers c = numbers (ends L i)" and "conn_ok c"
  shows "link_ok (L\<lparr>ends := (ends L)(i := c)\<rparr>)"
proof -
  let ?L = "L\<lparr>ends := (ends L)(i := c)\<rparr>"
  have f: "mLastSeqRecvdAtSend (ends ?L j) = mLastSeqRecvdAtSend (ends L j)" "mLastSeqRecvd (ends ?L j) = mLastSeqRecvd (ends L j)"
      "mHighestAckedSeq (ends ?L j) = mHighestAckedSeq (ends L j)" "mLastSendSeq (ends ?L j) = mLastSendSeq (ends L j)"
      "mAckMask (ends ?L j) = mAckMask (ends L j)" "mLastRecvAckAck (ends ?L j) = mLastRecvAckAck (ends L j)" for j
    using numbers_fields [OF assms(2)] by simp_all
  have ok: "conn_ok (ends ?L j)" for j using assms(1,3) end_okD(1) by (auto simp: link_ok_def)
  have "end_ok ?L j" for j
    using assms(1) [THEN link_okD, of j] ok [of j] unfolding end_ok_def Let_def head_ok_def f by simp
  then show ?thesis by (simp add: link_ok_def)
qed

lemma new_head:
  assumes "link_ok L" and "head_ok (ends L i) (accepted L i) (handed L i) (unat (mHighestAckedSeq (ends L (\<not> i)))) h"
  shows "link_ok (L\<lparr>heads := (heads L)(i := insert h (heads L i))\<rparr>)"
proof (rule link_okI [of _ i])
  show "end_ok (L\<lparr>heads := (heads L)(i := insert h (heads L i))\<rparr>) i"
    using link_okD [OF assms(1), of i] assms(2) by (simp add: end_ok_def Let_def)
  show "end_ok (L\<lparr>heads := (heads L)(i := insert h (heads L i))\<rparr>) (\<not> i)"
    using link_okD [OF assms(1), of "\<not> i"] by (simp add: end_ok_def Let_def)
qed

section \<open>Sending data\<close>

lemma sent_numbers:
  assumes "seq_state c = seq_state ((header_sent DataPacket c0)\<lparr>mSymmetricCipher := k\<rparr>)"
  shows "mLastSendSeq c = mLastSendSeq c0 + 1" "mLastSeqRecvd c = mLastSeqRecvd c0" "mHighestAckedSeq c = mHighestAckedSeq c0"
    "mAckMask c = mAckMask c0"
    "mLastSeqRecvdAtSend c = (mLastSeqRecvdAtSend c0)[unat ((mLastSendSeq c0 + 1) AND 31) := mLastSeqRecvd c0]"
  using assms by (simp_all add: seq_state_def header_sent_def)

lemma unat_and_31: "unat (x AND 31 :: u32) = unat x mod 32"
proof -
  have "x AND 31 = take_bit 5 x" by (simp add: take_bit_eq_mask mask_eq_exp_minus_1)
  then show ?thesis by (simp only: unsigned_take_bit_eq) (simp add: take_bit_eq_mod)
qed

lemma data_ok:
  assumes L: "link_ok L" and w: "\<not> windowFull (ends L i)" and r: "unat (mLastSendSeq (ends L i)) + 1025 < 2 ^ 32"
    and c: "conn_ok c" "seq_state c = seq_state ((header_sent DataPacket (ends L i))\<lparr>mSymmetricCipher := k\<rparr>)"
      "mLastRecvAckAck c = mLastRecvAckAck (ends L i)"
  shows "link_ok (L\<lparr>ends := (ends L)(i := c), heads := (heads L)(i := insert (head_of DataPacket (ends L i)) (heads L i))\<rparr>)"
proof -
  let ?c = "ends L i" and ?p = "ends L (\<not> i)"
  let ?L = "L\<lparr>ends := (ends L)(i := c), heads := (heads L)(i := insert (head_of DataPacket ?c) (heads L i))\<rparr>"
  note D = end_okD [OF link_okD [OF L, of i]] and P = end_okD [OF link_okD [OF L, of "\<not> i"], simplified]
  note f = sent_numbers [OF c(2)]
  have n: "unat (mLastSendSeq ?c + 1) = unat (mLastSendSeq ?c) + 1" using unat_plus_small [of "mLastSendSeq ?c" 1] r by simp
  have un: "unat (mLastSendSeq ?c) - unat (mHighestAckedSeq ?c) < 30" using window_open [OF D(1) w] by (simp add: unacked_def)
  have len: "length (mLastSeqRecvdAtSend ?c) = 32" using D(1) by (simp add: conn_ok_def)
  have at: "ack_sent c k = (if k = unat (mLastSendSeq ?c) + 1 then unat (mLastSeqRecvd ?c) else ack_sent ?c k)"
    if "unat (mHighestAckedSeq ?c) < k" "k \<le> unat (mLastSendSeq ?c) + 1" for k
  proof -
    have "(unat (mLastSendSeq ?c) + 1) mod 32 = k mod 32 \<longleftrightarrow> k = unat (mLastSendSeq ?c) + 1"
    proof
      assume e: "(unat (mLastSendSeq ?c) + 1) mod 32 = k mod 32"
      have "unat (mLastSendSeq ?c) + 1 - k < 32" using un that by linarith
      moreover have "32 dvd unat (mLastSendSeq ?c) + 1 - k" using e that(2) by (metis mod_eq_dvd_iff_nat)
      ultimately show "k = unat (mLastSendSeq ?c) + 1" using that(2) by (metis dvd_imp_le le_antisym not_less diff_is_0_eq bot_nat_0.not_eq_extremum)
    qed simp
    then show ?thesis by (simp add: f(5) unat_and_31 n len nth_list_update)
  qed
  have acc: "unat (mLastSendSeq ?c) + 1 \<notin> accepted L (\<not> i)" using P(2,7) by fastforce
  have H: "head_ok c (accepted L i) (handed L i) (unat (mHighestAckedSeq ?p)) h" if h: "h \<in> heads L i" for h
  proof -
    have h': "head_ok ?c (accepted L i) (handed L i) (unat (mHighestAckedSeq ?p)) h" using D(10) h by blast
    then show ?thesis using at [of "unat (headSeq h)"] by (simp add: head_ok_def f(1-3) n)
  qed
  have new: "head_ok c (accepted L i) (handed L i) (unat (mHighestAckedSeq ?p)) (head_of DataPacket ?c)"
  proof -
    have "unat (mHighestAckedSeq ?c) < unat (mLastSendSeq ?c) + 1" using D(1) by (simp add: conn_ok_def)
    then show ?thesis using at [of "unat (mLastSendSeq ?c) + 1"] ackByteCount_covers [OF D(1,5)] D(4,6,8)
      by (auto simp: head_ok_def head_of_def f(1-3) n)
  qed
  have "end_ok ?L i"
    using D c(1,3) f H new at acc n P(2) by (auto simp: end_ok_def Let_def)
  moreover have "end_ok ?L (\<not> i)" using P f n by (auto simp: end_ok_def Let_def)
  ultimately show ?thesis by (rule link_okI)
qed

section \<open>Receiving\<close>

lemma bit_shiftAckMask:
  assumes "unat s < 32" and "d < 32"
  shows "bit (shiftAckMask t s m) d \<longleftrightarrow> (d = 0 \<and> t = DataPacket) \<or> (unat s \<le> d \<and> bit m (d - unat s))"
proof -
  have "shiftWords s m = (s, m)" using assms(1) by (subst shiftWords.simps) (simp add: word_less_nat_alt)
  then show ?thesis using assms(2) by (auto simp: shiftAckMask_def bit_simps)
qed

text \<open>The mask after a header has been accepted speaks of the set with the new number in it.\<close>

lemma mask_accepts:
  assumes g: "unat g < 32" "s = n + unat g" and m: "\<forall>d<32. bit m d \<longleftrightarrow> d \<le> n \<and> n - d \<in> A" and A: "\<forall>k\<in>A. k \<le> n"
  shows "\<forall>d<32. bit (shiftAckMask t g m) d \<longleftrightarrow> d \<le> s \<and> s - d \<in> (if t = DataPacket then {s} else {}) \<union> A"
proof (intro allI impI)
  fix d :: nat assume d: "d < 32"
  have "d \<le> s \<and> s - d \<in> A \<longleftrightarrow> unat g \<le> d \<and> bit m (d - unat g)"
  proof (cases "unat g \<le> d")
    case True
    then have "s - d = n - (d - unat g)" "d \<le> s \<longleftrightarrow> d - unat g \<le> n" using g(2) by linarith+
    then show ?thesis using m d True by simp
  next
    case False
    then have "s - d > n" using g(2) by linarith
    then show ?thesis using A False by fastforce
  qed
  then show "bit (shiftAckMask t g m) d \<longleftrightarrow> d \<le> s \<and> s - d \<in> (if t = DataPacket then {s} else {}) \<union> A"
    using bit_shiftAckMask [OF g(1) d, of t m] by auto
qed

lemma ackBit_bit:
  assumes "ackBit (ack_mask_of n m) a k = Some r" and "k \<le> a"
  shows "unat a - unat k < 32" and "r \<longleftrightarrow> unat a - unat k < 8 * unat n \<and> bit m (unat a - unat k)"
proof -
  have d: "unat (a - k) = unat a - unat k" using assms(2) by (intro unat_sub)
  have z: "drop_bit 5 (a - k) = 0" "n \<noteq> 0"
    using assms(1) by (auto simp: ackBit_def ack_mask_of_def Let_def split: if_splits)
  have "unat (drop_bit 5 (a - k)) = drop_bit 5 (unat (a - k))" by (rule unat_drop_bit_eq)
  then have "unat (a - k) div 32 = 0" using z(1) by (simp add: drop_bit_eq_div)
  then have l: "unat (a - k) < 32" by simp
  then show "unat a - unat k < 32" using d by simp
  have "unat ((a - k) AND 31) = unat (a - k)" using l by (simp add: unat_and_31)
  then have "r = (take_bit (8 * unat n) m AND push_bit (unat (a - k)) 1 \<noteq> 0)"
    using assms(1) z by (simp add: ackBit_def ack_mask_of_def Let_def)
  also have "\<dots> = bit (take_bit (8 * unat n) m) (unat (a - k))"
    using l by (simp add: push_bit_eq_mult and_exp_eq_0_iff_not_bit)
  finally show "r \<longleftrightarrow> unat a - unat k < 8 * unat n \<and> bit m (unat a - unat k)" by (simp add: bit_simps d)
qed

lemma window_le:
  assumes "unat (s - n) < 1024" "unat n + 1024 < 2 ^ 32"
  shows "unat (s :: u32) = unat n + unat (s - n)"
proof -
  have "unat (n + of_nat (unat (s - n))) = unat n + unat (s - n)" using assms by (intro unat_plus_small) simp
  then show ?thesis by simp
qed

text \<open>What the reports of a header say.\<close>

lemma notified_true:
  assumes h: "head_ok p A H (unat old) h" and k: "(k, r) \<in> notified old (ack_mask_of (headBytes h) (headMask h)) (headAck h)"
  shows "unat old < k" "k \<le> unat (headAck h)" "r \<Longrightarrow> k \<in> A" "\<not> r \<Longrightarrow> k \<notin> H"
proof -
  obtain w where w: "k = unat w" "old < w" "w \<le> headAck h" "ackBit (ack_mask_of (headBytes h) (headMask h)) (headAck h) w = Some r"
    using k by (auto simp: notified_def)
  show l: "unat old < k" "k \<le> unat (headAck h)" using w by (simp_all add: word_less_nat_alt word_le_nat_alt)
  note b = ackBit_bit [OF w(4,3)]
  have "unat (headAck h) \<le> 8 * unat (headBytes h) + unat old" using h by (simp add: head_ok_def)
  then have "unat (headAck h) - k < 8 * unat (headBytes h)" using l by linarith
  then have "r \<longleftrightarrow> bit (headMask h) (unat (headAck h) - k)" using b(2) w(1) by simp
  moreover have "unat (headAck h) - (unat (headAck h) - k) = k" using l by simp
  moreover have "unat (headAck h) - k < 32" using b(1) w(1) by simp
  ultimately show "r \<Longrightarrow> k \<in> A" "\<not> r \<Longrightarrow> k \<notin> H" using h unfolding head_ok_def by (metis diff_le_self)+
qed

context conn_callbacks
begin

text \<open>A header of the peer is always taken: its mask covers what it acknowledges.\<close>

lemma receive_runs:
  assumes L: "link_ok L" and h: "h \<in> heads L (\<not> i)" "in_windows h (ends L i)" and block: "length (packetBlock e) = 1500"
  shows "\<exists>c x. acceptHeader cls e (headType h) (headSeq h) (headAck h) (ack_mask_of (headBytes h) (headMask h)) d (ends L i) =
      Some (mLastSeqRecvd (ends L i) \<noteq> headSeq h \<and> headType h = DataPacket, c) \<and> conn_ok c \<and>
    mHighestAckedSeq c = headAck h \<and> mLastSeqRecvd c = headSeq h \<and> mLastSendSeq c = mLastSendSeq (ends L i) \<and>
    mAckMask c = shiftAckMask (headType h) (headSeq h - mLastSeqRecvd (ends L i)) (mAckMask (ends L i)) \<and>
    mLastSeqRecvdAtSend c = mLastSeqRecvdAtSend (ends L i) \<and>
    mLastRecvAckAck c = (if headSeq h - x > MaxPacketWindowSize then headSeq h - MaxPacketWindowSize else x) \<and>
    unat x \<le> unat (mHighestAckedSeq (ends L (\<not> i))) \<and> unat x \<le> unat (mLastSeqRecvd (ends L i)) \<and>
    unat (headSeq h - mLastSeqRecvd (ends L i)) < 32 \<and>
    unat (headSeq h) = unat (mLastSeqRecvd (ends L i)) + unat (headSeq h - mLastSeqRecvd (ends L i)) \<and>
    unat (mHighestAckedSeq (ends L i)) \<le> unat (headAck h) \<and> unat (headAck h) \<le> unat (mLastSendSeq (ends L i))"
proof -
  let ?c = "ends L i" and ?p = "ends L (\<not> i)" and ?m = "ack_mask_of (headBytes h) (headMask h)"
  note D = end_okD [OF link_okD [OF L, of i]] and P = end_okD [OF link_okD [OF L, of "\<not> i"], simplified]
  have H: "head_ok ?p (accepted L (\<not> i)) (handed L (\<not> i)) (unat (mHighestAckedSeq ?c)) h" using P(10) h(1) by blast
  have w: "unat (headSeq h - mLastSeqRecvd ?c) < 32" "unat (headAck h - mHighestAckedSeq ?c) < 1024" "headAck h \<le> mLastSendSeq ?c"
    using h(2) by (simp_all add: in_windows_def window_constants word_less_nat_alt)
  have big: "unat (mLastSeqRecvd ?c) + 1024 < 2 ^ 32" "unat (mHighestAckedSeq ?c) + 1024 < 2 ^ 32"
    using D(1,2) P(1) by (simp_all add: conn_ok_def)
  have s: "unat (headSeq h) = unat (mLastSeqRecvd ?c) + unat (headSeq h - mLastSeqRecvd ?c)" by (rule window_le [OF order.strict_trans [OF w(1)] big(1)]) simp
  have a: "unat (headAck h) = unat (mHighestAckedSeq ?c) + unat (headAck h - mHighestAckedSeq ?c)" using window_le [OF w(2) big(2)] .
  then have a': "mHighestAckedSeq ?c \<le> headAck h" by (simp add: word_le_nat_alt)
  have m: "?m \<noteq> None" if "headAck h \<noteq> mHighestAckedSeq ?c"
  proof -
    have "unat (headAck h) \<noteq> unat (mHighestAckedSeq ?c)" using that by (simp add: word_unat_eq_iff)
    then have "unat (headBytes h) \<noteq> 0" using a H by (auto simp: head_ok_def)
    then show ?thesis by (auto simp: ack_mask_of_def)
  qed
  from acceptHeader_run [OF D(1) block a' w(3) m, of "headType h" "headSeq h" d] obtain c x where
    c: "acceptHeader cls e (headType h) (headSeq h) (headAck h) ?m d ?c = Some (mLastSeqRecvd ?c \<noteq> headSeq h \<and> headType h = DataPacket, c)"
      "conn_ok c" "mHighestAckedSeq c = headAck h" "mLastSeqRecvd c = headSeq h" "mLastSendSeq c = mLastSendSeq ?c"
      "mAckMask c = shiftAckMask (headType h) (headSeq h - mLastSeqRecvd ?c) (mAckMask ?c)" "mLastSeqRecvdAtSend c = mLastSeqRecvdAtSend ?c"
      "mLastRecvAckAck c = (if headSeq h - x > MaxPacketWindowSize then headSeq h - MaxPacketWindowSize else x)"
    and x: "x = mLastRecvAckAck ?c \<or> (\<exists>k. unat (mHighestAckedSeq ?c) < unat k \<and> k \<le> headAck h \<and> ackBit ?m (headAck h) k = Some True \<and>
        x = mLastSeqRecvdAtSend ?c ! unat (k AND 31))"
    by blast
  have "unat x \<le> unat (mHighestAckedSeq ?p) \<and> unat x \<le> unat (mLastSeqRecvd ?c)"
    using x
  proof
    assume "x = mLastRecvAckAck ?c"
    then show ?thesis using D(4,5) by simp
  next
    assume "\<exists>k. unat (mHighestAckedSeq ?c) < unat k \<and> k \<le> headAck h \<and> ackBit ?m (headAck h) k = Some True \<and>
        x = mLastSeqRecvdAtSend ?c ! unat (k AND 31)"
    then obtain k where k: "unat (mHighestAckedSeq ?c) < unat k" "k \<le> headAck h" "ackBit ?m (headAck h) k = Some True"
        "x = mLastSeqRecvdAtSend ?c ! unat (k AND 31)" by blast
    have "(unat k, True) \<in> notified (mHighestAckedSeq ?c) ?m (headAck h)"
      using k(1-3) by (auto simp: notified_def word_less_nat_alt)
    then have "unat k \<in> accepted L (\<not> i)" using notified_true(3) [OF H] by blast
    moreover have "unat k \<le> unat (mLastSendSeq ?c)" using k(2) w(3) by (simp add: word_le_nat_alt)
    ultimately show ?thesis using D(9) k(1,4) by (simp add: unat_and_31)
  qed
  moreover have "unat (headAck h) \<le> unat (mLastSendSeq ?c)" using w(3) by (simp add: word_le_nat_alt)
  ultimately show ?thesis using c s a w(1) by (intro exI [of _ c] exI [of _ x]) simp
qed

lemma receive_ok:
  assumes L: "link_ok L" and h: "h \<in> heads L (\<not> i)" "in_windows h (ends L i)" and block: "length (packetBlock e) = 1500"
    and m: "m = ack_mask_of (headBytes h) (headMask h)"
    and r: "acceptHeader cls e (headType h) (headSeq h) (headAck h) m d (ends L i) = Some (isData, c)"
  shows "link_ok (L\<lparr>ends := (ends L)(i := c), heads := (heads L)(i := insert (head_of AckPacket c) (heads L i)),
      accepted := (accepted L)(i := (if headType h = DataPacket then {unat (headSeq h)} else {}) \<union> accepted L i),
      handed := (handed L)(i := (if isData then {unat (headSeq h)} else {}) \<union> handed L i),
      told := (told L)(i := notified (mHighestAckedSeq (ends L i)) m (headAck h) \<union> told L i)\<rparr>)" (is "link_ok ?L")
proof -
  let ?c = "ends L i" and ?p = "ends L (\<not> i)" and ?s = "unat (headSeq h)" and ?a = "unat (headAck h)"
  let ?A = "(if headType h = DataPacket then {?s} else {}) \<union> accepted L i" and ?H = "(if isData then {?s} else {}) \<union> handed L i"
  let ?g = "headSeq h - mLastSeqRecvd ?c"
  note D = end_okD [OF link_okD [OF L, of i]] and P = end_okD [OF link_okD [OF L, of "\<not> i"], simplified]
  have Hh: "head_ok ?p (accepted L (\<not> i)) (handed L (\<not> i)) (unat (mHighestAckedSeq ?c)) h" using P(10) h(1) by blast
  obtain x where isData: "isData \<longleftrightarrow> mLastSeqRecvd ?c \<noteq> headSeq h \<and> headType h = DataPacket" and
    c: "conn_ok c" "mHighestAckedSeq c = headAck h" "mLastSeqRecvd c = headSeq h" "mLastSendSeq c = mLastSendSeq ?c"
      "mAckMask c = shiftAckMask (headType h) ?g (mAckMask ?c)" "mLastSeqRecvdAtSend c = mLastSeqRecvdAtSend ?c"
      "mLastRecvAckAck c = (if headSeq h - x > MaxPacketWindowSize then headSeq h - MaxPacketWindowSize else x)"
    and x: "unat x \<le> unat (mHighestAckedSeq ?p)" "unat x \<le> unat (mLastSeqRecvd ?c)"
    and g: "unat ?g < 32" "?s = unat (mLastSeqRecvd ?c) + unat ?g" and a: "unat (mHighestAckedSeq ?c) \<le> ?a" "?a \<le> unat (mLastSendSeq ?c)"
    using receive_runs [OF L h block, of d] r m by auto
  have sp: "?s \<le> unat (mLastSendSeq ?p)" and ap: "?a \<le> unat (mLastSeqRecvd ?p)" using Hh by (simp_all add: head_ok_def)
  have lra: "unat (mLastRecvAckAck c) \<le> unat (mHighestAckedSeq ?p) \<and> unat (mLastRecvAckAck c) \<le> ?s"
  proof (cases "headSeq h - x > MaxPacketWindowSize")
    case True
    have "unat (headSeq h - x) = ?s - unat x" using x(2) g(2) by (intro unat_sub) (simp add: word_le_nat_alt)
    then have l: "32 < ?s - unat x" using True by (simp add: window_constants word_less_nat_alt)
    then have "unat (headSeq h - 32) = ?s - 32" by (subst unat_sub) (simp_all add: word_le_nat_alt)
    moreover have "unacked ?p \<le> 30" using P(1) by (simp add: conn_ok_def)
    then have "unat (mLastSendSeq ?p) \<le> unat (mHighestAckedSeq ?p) + 30" unfolding unacked_def by linarith
    ultimately show ?thesis using True c(7) sp by (simp add: window_constants)
  next
    case False
    then show ?thesis using c(7) x g(2) by simp
  qed
  have mask: "\<forall>d<32. bit (mAckMask c) d \<longleftrightarrow> d \<le> ?s \<and> ?s - d \<in> ?A"
    unfolding c(5) by (rule mask_accepts [OF g D(6,7)])
  have ns: "unat (mLastSeqRecvd ?c) \<le> ?s" using g(2) by linarith
  have A: "\<forall>k\<in>?A. k \<le> ?s"
  proof
    fix k assume "k \<in> ?A"
    then have "k = ?s \<or> k \<in> accepted L i" by (auto split: if_splits)
    then show "k \<le> ?s" using order.trans [OF bspec [OF D(7)] ns] by blast
  qed
  have HA: "?H \<subseteq> ?A" using D(8) isData by auto
  have new: "k \<notin> ?H" if "k \<notin> handed L i" "k \<le> unat (mLastSeqRecvd ?c)" for k
    using that isData g(2) by (auto simp: word_unat_eq_iff)
  have heads: "head_ok c ?A ?H (unat (mHighestAckedSeq ?p)) k" if "k \<in> heads L i" for k
  proof -
    have k: "head_ok ?c (accepted L i) (handed L i) (unat (mHighestAckedSeq ?p)) k" using D(10) that by blast
    have "unat (headAck k) - d \<notin> ?H" if "d < 32" "d \<le> unat (headAck k)" "\<not> bit (headMask k) d" for d
    proof (rule new)
      show "unat (headAck k) - d \<notin> handed L i" using k that unfolding head_ok_def by blast
      show "unat (headAck k) - d \<le> unat (mLastSeqRecvd ?c)" using k unfolding head_ok_def by linarith
    qed
    moreover have "unat (headAck k) \<le> ?s" "unat (mHighestAckedSeq ?c) < unat (headSeq k)" if "?a < unat (headSeq k)"
      using k ns a(1) that unfolding head_ok_def by linarith+
    moreover have "unat (headAck k) \<le> ?s" using k ns unfolding head_ok_def by linarith
    ultimately show ?thesis using k unfolding head_ok_def c by blast
  qed
  have ack: "head_ok c ?A ?H (unat (mHighestAckedSeq ?p)) (head_of AckPacket c)"
    using ackByteCount_covers [OF c(1)] lra mask HA unfolding head_ok_def head_of_def c(3) by (auto simp: packet_types)
  have sent: "ack_sent c k \<le> ?s \<and> (k \<in> accepted L (\<not> i) \<longrightarrow> ack_sent c k \<le> unat (mHighestAckedSeq ?p))"
    if "?a < k" "k \<le> unat (mLastSendSeq ?c)" for k
  proof -
    have "unat (mHighestAckedSeq ?c) < k" using a(1) that(1) by linarith
    then show ?thesis using D(9) that(2) ns unfolding c(6) by (meson order.trans)
  qed
  have told: "k \<le> ?a \<and> (r \<longrightarrow> k \<in> accepted L (\<not> i)) \<and> (\<not> r \<longrightarrow> k \<notin> handed L (\<not> i))"
    if "(k, r) \<in> notified (mHighestAckedSeq ?c) m (headAck h) \<union> told L i" for k r
    using that
  proof
    assume "(k, r) \<in> notified (mHighestAckedSeq ?c) m (headAck h)"
    from notified_true [OF Hh this [unfolded m]] show ?thesis by blast
  next
    assume "(k, r) \<in> told L i"
    then show ?thesis using bspec [OF D(11)] order.trans [OF _ a(1)] by blast
  qed
  then have told: "\<forall>(k, r)\<in>notified (mHighestAckedSeq ?c) m (headAck h) \<union> told L i.
      k \<le> ?a \<and> (r \<longrightarrow> k \<in> accepted L (\<not> i)) \<and> (\<not> r \<longrightarrow> k \<notin> handed L (\<not> i))" by blast
  have "end_ok ?L i"
    unfolding end_ok_def Let_def
    using c(1-4) sp ap lra mask A HA heads ack sent told by simp
  moreover have "end_ok ?L (\<not> i)"
  proof -
    have seen: "ack_sent ?p k \<le> unat (mLastSeqRecvd ?p) \<and> (k \<in> ?A \<longrightarrow> ack_sent ?p k \<le> ?a)"
      if k: "unat (mHighestAckedSeq ?p) < k" "k \<le> unat (mLastSendSeq ?p)" for k
    proof -
      have "ack_sent ?p ?s = ?a" if "headType h = DataPacket" "k = ?s" using Hh k that by (simp add: head_ok_def)
      moreover have "ack_sent ?p k \<le> ?a" if "k \<in> accepted L i" using P(9) k that order.trans [OF _ a(1)] by blast
      moreover have "k = ?s \<and> headType h = DataPacket \<or> k \<in> accepted L i" if "k \<in> ?A" using that by (auto split: if_splits)
      ultimately show ?thesis using P(9) k by auto
    qed
    have known: "head_ok ?p (accepted L (\<not> i)) (handed L (\<not> i)) ?a k" if "k \<in> heads L (\<not> i)" for k
    proof -
      have k: "head_ok ?p (accepted L (\<not> i)) (handed L (\<not> i)) (unat (mHighestAckedSeq ?c)) k" using P(10) that by blast
      then have "unat (headAck k) \<le> 8 * unat (headBytes k) + ?a" using a(1) unfolding head_ok_def by linarith
      then show ?thesis using k unfolding head_ok_def by blast
    qed
    have "k \<le> unat (mHighestAckedSeq ?p) \<and> (r \<longrightarrow> k \<in> ?A) \<and> (\<not> r \<longrightarrow> k \<notin> ?H)" if "(k, r) \<in> told L (\<not> i)" for k r
    proof -
      have "k \<le> unat (mHighestAckedSeq ?p) \<and> (r \<longrightarrow> k \<in> accepted L i) \<and> (\<not> r \<longrightarrow> k \<notin> handed L i)" using P(11) that by blast
      then show ?thesis using new [of k] order.trans [OF _ P(3)] by blast
    qed
    then have reports: "\<forall>(k, r)\<in>told L (\<not> i). k \<le> unat (mHighestAckedSeq ?p) \<and> (r \<longrightarrow> k \<in> ?A) \<and> (\<not> r \<longrightarrow> k \<notin> ?H)" by blast
    have "unat (mLastSeqRecvd ?p) \<le> unat (mLastSendSeq c)" "unat (mHighestAckedSeq ?p) \<le> ?s" "unat (mLastRecvAckAck ?p) \<le> ?a"
      using P(2) order.trans [OF P(3) ns] order.trans [OF P(4) a(1)] unfolding c(4) by blast+
    then show ?thesis
      unfolding end_ok_def Let_def using P(1,5-8) c(2-4) seen known reports by simp
  qed
  ultimately show ?thesis by (rule link_okI)
qed

lemma link_step_ok:
  assumes "link_step cls L L'" and L: "link_ok L"
  shows "link_ok L'"
  using assms(1)
proof (cases rule: link_step.cases)
  case (data i e target bs c)
  note D = end_okD(1) [OF link_okD [OF L, of i]]
  from writeData_ok [OF D data(2-5)] data(6) obtain k where
    "conn_ok c" "seq_state c = seq_state ((header_sent DataPacket (ends L i))\<lparr>mSymmetricCipher := k\<rparr>)"
    "mLastRecvAckAck c = mLastRecvAckAck (ends L i)" by auto
  then show ?thesis unfolding data(1) by (rule data_ok [OF L data(2,3)])
next
  case (control t e i c)
  note D = end_okD(1) [OF link_okD [OF L, of i]]
  from sendControlPacket_ok [OF D control(3,2)] control(4) obtain k acts where
    c: "c = (ends L i)\<lparr>mSymmetricCipher := k, mOut := acts\<rparr>" and k: "\<forall>x. k = Some x \<longrightarrow> cipher_ready x" by auto
  have "conn_ok c" unfolding c using D k by (simp add: conn_ok_def unacked_def)
  moreover have n: "numbers c = numbers (ends L i)" unfolding c by (simp add: numbers_def)
  ultimately have 1: "link_ok (L\<lparr>ends := (ends L)(i := c)\<rparr>)" using same_numbers [OF L] by blast
  have "head_of t c = head_of t (ends L i)" unfolding c by (simp add: head_of_def ackByteCount_def)
  then have "head_ok (ends (L\<lparr>ends := (ends L)(i := c)\<rparr>) i) (accepted L i) (handed L i) (unat (mHighestAckedSeq (ends L (\<not> i)))) (head_of t (ends L i))"
    using control_head_ok [OF link_okD [OF 1, of i] control(2)] by simp
  then have "link_ok (L\<lparr>ends := (ends L)(i := c)\<rparr>\<lparr>heads := (heads L)(i := insert (head_of t (ends L i)) (heads L i))\<rparr>)"
    using new_head [OF 1, of i] by simp
  then show ?thesis unfolding control(1) by simp
next
  case (receive h i e m d isData c)
  then show ?thesis using receive_ok [OF L receive(2-6)] by simp
next
  case (other c i)
  have "numbers c = numbers (ends L i)" using other(2) by (simp add: window_state_def numbers_def)
  moreover have "conn_ok c" using window_state_fields [OF other(2)] end_okD(1) [OF link_okD [OF L, of i]] by blast
  ultimately show ?thesis unfolding other(1) using same_numbers [OF L] by blast
qed

lemma link_run_ok: "(link_step cls)\<^sup>*\<^sup>* L0 L \<Longrightarrow> link_start L0 \<Longrightarrow> link_ok L"
  by (induction rule: rtranclp_induct) (auto intro: link_start_ok link_step_ok)

lemma told_once_step:
  assumes "link_step cls L L'" and L: "link_ok L" and t: "told_once L"
  shows "told_once L'"
  using assms(1)
proof (cases rule: link_step.cases)
  case (receive h i e m d isData c)
  let ?N = "notified (mHighestAckedSeq (ends L i)) m (headAck h)"
  have "r = r'" if "(k, r) \<in> ?N \<union> told L i" "(k, r') \<in> ?N \<union> told L i" for k r r'
  proof -
    have old: "k \<le> unat (mHighestAckedSeq (ends L i))" if "(k, r) \<in> told L i" for r
      using end_okD(11) [OF link_okD [OF L, of i]] that by blast
    have new: "unat (mHighestAckedSeq (ends L i)) < k" if "(k, r) \<in> ?N" for r
      using that by (auto simp: notified_def word_less_nat_alt)
    have "r = r'" if "(k, r) \<in> ?N" "(k, r') \<in> ?N"
    proof -
      from that obtain w w' where w: "k = unat w" "ackBit m (headAck h) w = Some r" "k = unat w'" "ackBit m (headAck h) w' = Some r'"
        unfolding notified_def by blast
      then have "w = w'" by (simp add: word_unat_eq_iff)
      then show ?thesis using w by simp
    qed
    then show ?thesis using that old new t unfolding told_once_def by (metis Un_iff not_less)
  qed
  then show ?thesis using t unfolding receive(1) told_once_def by simp
qed (use t in \<open>simp_all add: told_once_def\<close>)

end

section \<open>A concrete run\<close>

lemma base_receive_step:
  fixes L :: "(unit, unit) link"
  assumes L: "link_ok L" and h: "h \<in> heads L (\<not> i)" "in_windows h (ends L i)"
  shows "\<exists>c isData L'. link_step (base_class ()) L L' \<and> isData = (mLastSeqRecvd (ends L i) \<noteq> headSeq h \<and> headType h = DataPacket) \<and>
    L' = L\<lparr>ends := (ends L)(i := c), heads := (heads L)(i := insert (head_of AckPacket c) (heads L i)),
      accepted := (accepted L)(i := (if headType h = DataPacket then {unat (headSeq h)} else {}) \<union> accepted L i),
      handed := (handed L)(i := (if isData then {unat (headSeq h)} else {}) \<union> handed L i),
      told := (told L)(i := notified (mHighestAckedSeq (ends L i)) (ack_mask_of (headBytes h) (headMask h)) (headAck h) \<union> told L i)\<rparr> \<and>
    conn_ok c \<and> mHighestAckedSeq c = headAck h \<and> mLastSeqRecvd c = headSeq h \<and> mLastSendSeq c = mLastSendSeq (ends L i) \<and>
    mAckMask c = shiftAckMask (headType h) (headSeq h - mLastSeqRecvd (ends L i)) (mAckMask (ends L i))"
proof -
  from base.receive_runs [OF L h sample_block, of "()" 0] obtain c where c:
    "acceptHeader (base_class ()) sample_env (headType h) (headSeq h) (headAck h) (ack_mask_of (headBytes h) (headMask h)) 0 (ends L i) =
      Some (mLastSeqRecvd (ends L i) \<noteq> headSeq h \<and> headType h = DataPacket, c)"
    "conn_ok c" "mHighestAckedSeq c = headAck h" "mLastSeqRecvd c = headSeq h" "mLastSendSeq c = mLastSendSeq (ends L i)"
    "mAckMask c = shiftAckMask (headType h) (headSeq h - mLastSeqRecvd (ends L i)) (mAckMask (ends L i))"
    by blast
  show ?thesis
    using link_step.receive [OF h sample_block refl c(1)] c(2-6)
    by (intro exI [of _ c] exI conjI) (assumption | rule refl)+
qed

definition sample_link :: "(unit, unit) link" where
  "sample_link = \<lparr>ends = (\<lambda>_. sample_connection 0 0), heads = (\<lambda>_. {}), accepted = (\<lambda>_. {}), handed = (\<lambda>_. {}), told = (\<lambda>_. {})\<rparr>"

lemma sample_link_starts: "link_start sample_link"
  by (simp add: link_start_def sample_link_def sample_connection_ok sample_connection_fields)

text \<open>A data packet of the one end, and a ping behind it.\<close>

definition late_data :: packet_head where "late_data = \<lparr>headType = DataPacket, headSeq = 1, headAck = 0, headBytes = 0, headMask = 0\<rparr>"
definition early_ping :: packet_head where "early_ping = \<lparr>headType = PingPacket, headSeq = 1, headAck = 0, headBytes = 0, headMask = 0\<rparr>"

lemma sent_both:
  "\<exists>L. (link_step (base_class ()))\<^sup>*\<^sup>* sample_link L \<and> late_data \<in> heads L False \<and> early_ping \<in> heads L False \<and> ends L True = sample_connection 0 0 \<and>
     mLastSendSeq (ends L False) = 1 \<and> mHighestAckedSeq (ends L False) = 0 \<and> mLastSeqRecvd (ends L False) = 0 \<and>
     accepted L True = {} \<and> handed L True = {}"
proof -
  let ?c0 = "sample_connection 0 0"
  have w: "\<not> windowFull ?c0" "unat (mLastSendSeq ?c0) + 1025 < 2 ^ 32" "conn_ok ?c0"
    using sample_window sample_connection_ok [of 0 0] by (simp_all add: sample_connection_fields)
  obtain bs c1 k where c1: "writeRawPacket (base_class ()) sample_env DataPacket (PacketStream_new sample_env 200) ?c0 = Some (bs, c1)" "conn_ok c1"
      "seq_state c1 = seq_state ((header_sent DataPacket ?c0)\<lparr>mSymmetricCipher := k\<rparr>)" "mLastRecvAckAck c1 = 0"
    using base.writeData_ok [OF w(3,1,2) sample_block, of 200] by (auto simp: sample_connection_fields)
  note f = sent_numbers [OF c1(3), unfolded sample_connection_fields]
  define L1 where "L1 = sample_link\<lparr>ends := (ends sample_link)(False := c1), heads := (heads sample_link)(False := insert (head_of DataPacket ?c0) {})\<rparr>"
  have 1: "link_step (base_class ()) sample_link L1"
    using link_step.data [of sample_link False sample_env 200 "base_class ()" bs c1] w c1(1) by (simp add: L1_def sample_link_def)
  obtain c2 where c2: "sendControlPacket (base_class ()) sample_env PingPacket c1 = Some c2" "numbers c2 = numbers c1"
    using base.sendControlPacket_ok [OF c1(2) sample_block, of PingPacket] by (auto simp: packet_types numbers_def)
  define L2 where "L2 = L1\<lparr>ends := (ends L1)(False := c2), heads := (heads L1)(False := insert (head_of PingPacket c1) (heads L1 False))\<rparr>"
  have 2: "link_step (base_class ()) L1 L2"
    using link_step.control [of PingPacket sample_env "base_class ()" L1 False c2] c2(1) by (simp add: L2_def L1_def packet_types)
  have z: "ackByteCount ?c0 = 0" "ackByteCount c1 = 0" using f c1(4) by (simp_all add: ackByteCount_def sample_connection_fields drop_bit_eq_div)
  have "head_of DataPacket ?c0 = late_data" "head_of PingPacket c1 = early_ping"
    using z f by (simp_all add: head_of_def late_data_def early_ping_def sample_connection_fields packet_types)
  then have "late_data \<in> heads L2 False" "early_ping \<in> heads L2 False" by (simp_all add: L2_def L1_def)
  moreover have "(link_step (base_class ()))\<^sup>*\<^sup>* sample_link L2" using 1 2 by (meson r_into_rtranclp rtranclp_trans)
  ultimately show ?thesis
    using f numbers_fields [OF c2(2)] by (intro exI [of _ L2]) (simp add: L2_def L1_def sample_link_def)
qed

section \<open>Properties\<close>





text \<open>
  C5: the 32-bit acknowledgement mask implements the set of all data packets received: from related states, accepting a header gives
  related states, over any shift of the window and any packet type, and the packet goes on to \<^verbatim>\<open>readPacket\<close> exactly when it is a
  data packet with a new number.
\<close>
theorem ack_mask_refines_set:
  assumes "conn_callbacks cls" and "conn_ok c" and "window_rel c W" and "length (packetBlock e) = 1500"
    and "newest W \<le> unat s" "unat s < newest W + 32"
    and "mHighestAckedSeq c \<le> a" "a \<le> mLastSendSeq c" "a = mHighestAckedSeq c \<or> m \<noteq> None"
  shows "\<exists>c'. acceptHeader cls e t s a m d c = Some (t = DataPacket \<and> unat s \<noteq> newest W, c') \<and> conn_ok c' \<and>
    window_rel c' (window_accept t (unat s) W)"
proof -
  have W: "newest W = unat (mLastSeqRecvd c)" "\<forall>k\<in>got W. k \<le> newest W" "\<forall>d<32. bit (mAckMask c) d \<longleftrightarrow> d \<le> newest W \<and> newest W - d \<in> got W"
    using assms(3) unfolding window_rel_def by blast+
  have "unat (s - mLastSeqRecvd c) = unat s - unat (mLastSeqRecvd c)"
    using assms(5) W(1) by (intro unat_sub) (simp add: word_le_nat_alt)
  then have g: "unat (s - mLastSeqRecvd c) < 32" "unat s = newest W + unat (s - mLastSeqRecvd c)" using assms(5,6) W(1) by linarith+
  have m: "m \<noteq> None" if "a \<noteq> mHighestAckedSeq c" using assms(9) that by blast
  obtain c' where c': "acceptHeader cls e t s a m d c = Some (mLastSeqRecvd c \<noteq> s \<and> t = DataPacket, c')" "conn_ok c'"
      "mLastSeqRecvd c' = s" "mAckMask c' = shiftAckMask t (s - mLastSeqRecvd c) (mAckMask c)"
    using conn_callbacks.acceptHeader_run [OF assms(1,2,4,7,8) m, of t s d] by blast
  have "window_rel c' (window_accept t (unat s) W)"
    using mask_accepts [OF g W(3,2), of t] W(2) assms(5) order.trans by (auto simp: window_rel_def window_accept_def c'(3,4))
  moreover have "(mLastSeqRecvd c \<noteq> s \<and> t = DataPacket) = (t = DataPacket \<and> unat s \<noteq> newest W)"
    using W(1) by (auto simp: word_unat_eq_iff)
  ultimately show ?thesis using c'(1,2) by auto
qed

lemma ack_mask_refines_set_witness:
  "\<exists>c'. acceptHeader (base_class ()) sample_env DataPacket 3 0 None 0 (sample_connection 0 0) = Some (True, c') \<and>
     window_rel c' \<lparr>newest = 3, got = {3}\<rparr>"
proof -
  have "window_rel (sample_connection 0 0) \<lparr>newest = 0, got = {}\<rparr>" by (simp add: window_rel_def sample_connection_fields)
  from ack_mask_refines_set [OF base.conn_callbacks_axioms sample_connection_ok this sample_block,
      where s = 3 and a = 0 and m = None and t = DataPacket and d = 0]
  show ?thesis by (auto simp: sample_connection_fields window_accept_def)
qed

text \<open>
  C32: a data packet that arrives behind a control packet with its number is acknowledged and lost. A ping, or a bare acknowledgement,
  carries the number of the last data packet; when it overtakes that packet, the number counts as received, the data packet that
  follows sets its bit in the mask but is not handed to \<^verbatim>\<open>readPacket\<close>, and its sender is told that it was delivered.
\<close>
theorem overtaken_data_is_lost:
  "\<exists>L. link_start sample_link \<and> (link_step (base_class ()))\<^sup>*\<^sup>* sample_link L \<and> late_data \<in> heads L False \<and>
     (unat (headSeq late_data), True) \<in> told L False \<and> unat (headSeq late_data) \<notin> handed L True"
proof -
  let ?st = "link_step (base_class ())"
  obtain L2 where L2: "?st\<^sup>*\<^sup>* sample_link L2" "late_data \<in> heads L2 False" "early_ping \<in> heads L2 False" "ends L2 True = sample_connection 0 0"
      "mLastSendSeq (ends L2 False) = 1" "mHighestAckedSeq (ends L2 False) = 0" "mLastSeqRecvd (ends L2 False) = 0"
      "accepted L2 True = {}" "handed L2 True = {}"
    using sent_both by blast
  note ok2 = base.link_run_ok [OF L2(1) sample_link_starts]
  have "in_windows early_ping (ends L2 True)"
    using L2(4) by (simp add: in_windows_def early_ping_def sample_connection_fields window_constants)
  then obtain c3 L3 where L3: "?st L2 L3" "ends L3 = (ends L2)(True := c3)" "heads L3 False = heads L2 False" "handed L3 True = {}"
      "mHighestAckedSeq c3 = 0" "mLastSeqRecvd c3 = 1" "mLastSendSeq c3 = 0"
    using base_receive_step [OF ok2, of early_ping True] L2(3,4,9) by (auto simp: early_ping_def sample_connection_fields packet_types)
  have r3: "?st\<^sup>*\<^sup>* sample_link L3" using L2(1) L3(1) by simp
  note ok3 = base.link_run_ok [OF r3 sample_link_starts]
  have "in_windows late_data (ends L3 True)" using L3(2,5-7) by (simp add: in_windows_def late_data_def window_constants)
  then obtain c4 L4 where L4: "?st L3 L4" "ends L4 = (ends L3)(True := c4)" "head_of AckPacket c4 \<in> heads L4 True" "handed L4 True = {}"
      "mHighestAckedSeq c4 = 0" "mLastSeqRecvd c4 = 1" "mLastSendSeq c4 = 0" "mAckMask c4 = shiftAckMask DataPacket 0 (mAckMask c3)"
      "heads L4 False = heads L3 False"
    using base_receive_step [OF ok3, of late_data True] L2(2) L3 by (auto simp: late_data_def)
  have r4: "?st\<^sup>*\<^sup>* sample_link L4" using r3 L4(1) by simp
  note ok4 = base.link_run_ok [OF r4 sample_link_starts]
  let ?h = "head_of AckPacket c4"
  have h: "headSeq ?h = 0" "headAck ?h = 1" "headMask ?h = mAckMask c4" using L4 by (simp_all add: head_of_def packet_types)
  have A: "ends L4 False = ends L2 False" using L3(2) L4(2) by simp
  have "in_windows ?h (ends L4 False)" using A h L2(5-7) by (simp add: in_windows_def window_constants)
  then obtain L5 where L5: "?st L4 L5" "told L5 False = notified 0 (ack_mask_of (headBytes ?h) (headMask ?h)) 1 \<union> told L4 False"
      "handed L5 True = {}" "heads L5 True = heads L4 True" "late_data \<in> heads L5 False"
    using base_receive_step [OF ok4, of ?h False] L4(3,4,9) L3(3) L2(2,6) A h by auto
  have "head_ok (ends L4 True) (accepted L4 True) (handed L4 True) 0 ?h"
    using end_okD(10) [OF link_okD [OF ok4, of True]] L4(3) A L2(6) by auto
  then have "unat (headBytes ?h) \<noteq> 0" "unat (headBytes ?h) \<le> 4" using h(2) by (auto simp: head_ok_def)
  then have "headBytes ?h \<noteq> 0" "0 < 8 * unat (headBytes ?h)" by auto
  moreover have "bit (mAckMask c4) 0" using L4(8) bit_shiftAckMask [of 0 0 DataPacket "mAckMask c3"] by simp
  ultimately have "ackBit (ack_mask_of (headBytes ?h) (headMask ?h)) 1 1 = Some True"
    using h(3) by (simp add: ackBit_def ack_mask_of_def and_exp_eq_0_iff_not_bit [of _ 0, simplified] bit_simps)
  then have "(unat (1 :: u32), True) \<in> notified 0 (ack_mask_of (headBytes ?h) (headMask ?h)) 1"
    unfolding notified_def by (intro CollectI exI [of _ 1] exI [of _ True]) simp
  moreover have "?st\<^sup>*\<^sup>* sample_link L5" using r4 L5(1) by simp
  ultimately show ?thesis using L5 sample_link_starts by (intro exI [of _ L5]) (simp add: late_data_def)
qed

end
