(* ===== verification/Event_Connection.thy ===== *)
theory Event_Connection
  imports Packet_Window
begin

text \<open>
  \<^verbatim>\<open>tnl/eventConnection.cpp\<close>: events posted on one end of a connection and processed on the other. An
  \<^verbatim>\<open>EventConnection\<close> is a connection whose derived fields are an \<open>event_state\<close> and whose packets carry the list
  of the events sent in them. The linked lists are lists from their heads; a pointer to a link
  (\<^verbatim>\<open>insertList\<close>, \<^verbatim>\<open>noteList\<close>, \<^verbatim>\<open>waitInsert\<close>) is the number of nodes before it. Sequence numbers are \<^verbatim>\<open>S32\<close>, kept as integers;
  an increment that overflows is undefined. The virtual functions of \<^verbatim>\<open>NetEvent\<close> are the fields of an
  \<open>event_class\<close>; \<open>mUser\<close> holds the fields of a class derived from \<^verbatim>\<open>EventConnection\<close>.
\<close>

section \<open>State\<close>

datatype guarantee_type = GuaranteedOrdered | Guaranteed | Unguaranteed

datatype event_direction = DirUnset | DirAny | DirServerToClient | DirClientToServer

record 'e event_note =
  mEvent :: 'e
  mSeqCount :: int

record ('e, 'u) event_state =
  mNotifyEventList :: "'e event_note list"
  mSendEventQueue :: "'e event_note list"
  mUnorderedSendEventQueue :: "'e event_note list"
  mWaitSeqEvents :: "'e event_note list"
  mNextSendEventSeq :: int
  mNextRecvEventSeq :: int
  mLastAckedEventSeq :: int
  mEventClassCount :: u32
  mEventClassBitSize :: u32
  mEventClassVersion :: u32
  mUser :: 'u

type_synonym ('e, 'u) event_connection = "('e event_note list, ('e, 'u) event_state) net_connection"

record ('e, 'u) event_class =
  getClassId :: "'e \<Rightarrow> u32"
  mGuaranteeType :: "'e \<Rightarrow> guarantee_type"
  mEventDirection :: "'e \<Rightarrow> event_direction"
  pack :: "'e \<Rightarrow> bit_stream \<Rightarrow> ('e, 'u) event_connection \<Rightarrow> (bit_stream \<times> ('e, 'u) event_connection) option"
  createEvent :: "u32 \<Rightarrow> 'e option"
  unpack :: "'e \<Rightarrow> bit_stream \<Rightarrow> ('e, 'u) event_connection \<Rightarrow> (bit_stream \<times> 'e \<times> ('e, 'u) event_connection) option"
  process :: "'e \<Rightarrow> ('e, 'u) event_connection \<Rightarrow> ('e, 'u) event_connection option"
  notifyPosted :: "'e \<Rightarrow> ('e, 'u) event_connection \<Rightarrow> ('e, 'u) event_connection option"
  notifySent :: "'e \<Rightarrow> ('e, 'u) event_connection \<Rightarrow> ('e, 'u) event_connection option"
  notifyDelivered :: "'e \<Rightarrow> bool \<Rightarrow> ('e, 'u) event_connection \<Rightarrow> ('e, 'u) event_connection option"

definition DebugChecksum :: u32 where "DebugChecksum = 0xF00DBAAD"
definition BitStreamPosBitSize :: u8 where "BitStreamPosBitSize = 16"
definition InvalidSendEventSeq :: int where "InvalidSendEventSeq = - 1"
definition FirstValidSendEventSeq :: int where "FirstValidSendEventSeq = 0"
definition MinimumPaddingBits :: u32 where "MinimumPaddingBits = 128"

definition EventConnection_new :: "u32 \<Rightarrow> 'u \<Rightarrow> ('e, 'u) event_state" where
  "EventConnection_new version user = \<lparr>mNotifyEventList = [], mSendEventQueue = [], mUnorderedSendEventQueue = [],
     mWaitSeqEvents = [], mNextSendEventSeq = FirstValidSendEventSeq, mNextRecvEventSeq = FirstValidSendEventSeq,
     mLastAckedEventSeq = - 1, mEventClassCount = 0, mEventClassBitSize = 0, mEventClassVersion = version, mUser = user\<rparr>"

abbreviation set_ev :: "(('e, 'u) event_state \<Rightarrow> ('e, 'u) event_state) \<Rightarrow> ('e, 'u) event_connection \<Rightarrow> ('e, 'u) event_connection" where
  "set_ev f c \<equiv> c\<lparr>mSub := f (mSub c)\<rparr>"

text \<open>\<^verbatim>\<open>++\<close> on an \<^verbatim>\<open>S32\<close>.\<close>

definition inc_s32 :: "int \<Rightarrow> int option" where
  "inc_s32 i = (if i < 2 ^ 31 - 1 then Some (i + 1) else None)"

text \<open>The loops that move a link pointer past the smaller sequence numbers, and the insertion there.\<close>

definition skipBefore :: "int \<Rightarrow> 'e event_note list \<Rightarrow> nat \<Rightarrow> nat" where
  "skipBefore seq q k = k + length (takeWhile (\<lambda>n. mSeqCount n < seq) (drop k q))"

definition insertAt :: "nat \<Rightarrow> 'a \<Rightarrow> 'a list \<Rightarrow> 'a list" where
  "insertAt k x q = take k q @ x # drop k q"

section \<open>Posting\<close>

definition postNetEvent :: "('e, 'u) event_class \<Rightarrow> 'e \<Rightarrow> ('e, 'u) event_connection \<Rightarrow> (bool \<times> ('e, 'u) event_connection) option" where
  "postNetEvent ops theEvent c =
     (if getClassId ops theEvent \<ge> mEventClassCount (mSub c) \<and> mConnectionState c = Connected then Some (False, c)
      else do {
        c \<leftarrow> notifyPosted ops theEvent c;
        if mGuaranteeType ops theEvent = GuaranteedOrdered then do {
          let seq = mNextSendEventSeq (mSub c);
          next \<leftarrow> inc_s32 seq;
          Some (True, set_ev (\<lambda>s. s\<lparr>mNextSendEventSeq := next,
            mSendEventQueue := mSendEventQueue s @ [\<lparr>mEvent = theEvent, mSeqCount = seq\<rparr>]\<rparr>) c) }
        else Some (True, set_ev (\<lambda>s. s\<lparr>mUnorderedSendEventQueue :=
            mUnorderedSendEventQueue s @ [\<lparr>mEvent = theEvent, mSeqCount = InvalidSendEventSeq\<rparr>]\<rparr>) c) })"

definition ev_isDataToTransmit :: "('e, 'u) event_connection \<Rightarrow> bool" where
  "ev_isDataToTransmit c \<longleftrightarrow> mUnorderedSendEventQueue (mSub c) \<noteq> [] \<or> mSendEventQueue (mSub c) \<noteq> []"

section \<open>Writing events\<close>

definition clearError :: "bit_stream \<Rightarrow> bit_stream" where
  "clearError bs = bs\<lparr>error := False\<rparr>"

text \<open>What both loops write of an event after its flags: class, contents and, when debugging, the position behind them.\<close>

definition writeEvent ::
  "('e, 'u) event_class \<Rightarrow> u32 \<Rightarrow> 'e event_note \<Rightarrow> bit_stream \<Rightarrow> ('e, 'u) event_connection \<Rightarrow>
   (bit_stream \<times> ('e, 'u) event_connection) option" where
  "writeEvent ops sizeAt ev bstream c = do {
     bstream \<leftarrow> writeInt (getClassId ops (mEvent ev)) (ucast (mEventClassBitSize (mSub c))) bstream;
     (bstream, c) \<leftarrow> pack ops (mEvent ev) bstream c;
     bstream \<leftarrow> (if mDebugObjectSizes (mConnectionParameters c) then writeIntAt (bitNum bstream) BitStreamPosBitSize sizeAt bstream
                 else Some bstream);
     Some (bstream, c) }"

definition debugAdvance :: "('e, 'u) event_connection \<Rightarrow> bit_stream \<Rightarrow> bit_stream" where
  "debugAdvance c bstream =
     (if mDebugObjectSizes (mConnectionParameters c) then advanceBitPosition (ucast BitStreamPosBitSize) bstream else bstream)"

partial_function (option) writeUnordered ::
  "('e, 'u) event_class \<Rightarrow> 'e event_note list \<Rightarrow> bit_stream \<Rightarrow> ('e, 'u) event_connection \<Rightarrow>
   (bit_stream \<times> 'e event_note list \<times> ('e, 'u) event_connection) option" where
  "writeUnordered ops packQueue bstream c =
     (case mUnorderedSendEventQueue (mSub c) of
        [] \<Rightarrow> Some (bstream, packQueue, c)
      | ev # _ \<Rightarrow>
          if isFull bstream then Some (bstream, packQueue, c)
          else Option.bind (writeFlag True bstream) (\<lambda>(_, bstream).
            let start = bitNum bstream in
            Option.bind (writeEvent ops start ev (debugAdvance c bstream) c) (\<lambda>(bstream, c).
            if getBitSpaceAvailable bstream < MinimumPaddingBits
            then Some (clearError (setBitPosition (start - 1) bstream), packQueue, c)
            else writeUnordered ops (packQueue @ [ev]) bstream
              (set_ev (\<lambda>s. s\<lparr>mUnorderedSendEventQueue := tl (mUnorderedSendEventQueue s)\<rparr>) c))))"

partial_function (option) writeOrdered ::
  "('e, 'u) event_class \<Rightarrow> int \<Rightarrow> 'e event_note list \<Rightarrow> bit_stream \<Rightarrow> ('e, 'u) event_connection \<Rightarrow>
   (bit_stream \<times> 'e event_note list \<times> ('e, 'u) event_connection) option" where
  "writeOrdered ops prevSeq packQueue bstream c =
     (case mSendEventQueue (mSub c) of
        [] \<Rightarrow> Some (bstream, packQueue, c)
      | ev # _ \<Rightarrow>
          if isFull bstream \<or> mSeqCount ev > mLastAckedEventSeq (mSub c) + 126 then Some (bstream, packQueue, c)
          else let eventStart = bitNum bstream in
            Option.bind (writeFlag True bstream) (\<lambda>(_, bstream).
            Option.bind (writeFlag (mSeqCount ev = prevSeq + 1) bstream) (\<lambda>(inOrder, bstream).
            Option.bind (if inOrder then Some bstream else writeInt (of_int (mSeqCount ev)) 7 bstream) (\<lambda>bstream.
            let sizeAt = bitNum bstream in
            Option.bind (writeEvent ops sizeAt ev (debugAdvance c bstream) c) (\<lambda>(bstream, c).
            if getBitSpaceAvailable bstream < MinimumPaddingBits
            then Some (clearError (setBitPosition eventStart bstream), packQueue, c)
            else writeOrdered ops (mSeqCount ev) (packQueue @ [ev]) bstream
              (set_ev (\<lambda>s. s\<lparr>mSendEventQueue := tl (mSendEventQueue s)\<rparr>) c))))))"

fun notifyAllSent :: "('e, 'u) event_class \<Rightarrow> 'e event_note list \<Rightarrow> ('e, 'u) event_connection \<Rightarrow> ('e, 'u) event_connection option" where
  "notifyAllSent ops [] c = Some c"
| "notifyAllSent ops (ev # evs) c = do { c \<leftarrow> notifySent ops (mEvent ev) c; notifyAllSent ops evs c }"

definition ev_writePacket ::
  "('e, 'u) event_class \<Rightarrow> bit_stream \<Rightarrow> 'e event_note list packet_notify \<Rightarrow> ('e, 'u) event_connection \<Rightarrow>
   (bit_stream \<times> 'e event_note list packet_notify \<times> ('e, 'u) event_connection) option" where
  "ev_writePacket ops bstream note c = do {
     bstream \<leftarrow> (if mDebugObjectSizes (mConnectionParameters c) then writeInt DebugChecksum 32 bstream else Some bstream);
     (bstream, packQueue, c) \<leftarrow> writeUnordered ops [] bstream c;
     (_, bstream) \<leftarrow> writeFlag False bstream;
     (bstream, packQueue, c) \<leftarrow> writeOrdered ops (- 2) packQueue bstream c;
     c \<leftarrow> notifyAllSent ops packQueue c;
     (_, bstream) \<leftarrow> writeFlag False bstream;
     Some (bstream, note\<lparr>noteData := packQueue\<rparr>, c) }"

section \<open>Reading events\<close>

definition processEvent :: "('e, 'u) event_class \<Rightarrow> 'e \<Rightarrow> ('e, 'u) event_connection \<Rightarrow> ('e, 'u) event_connection option" where
  "processEvent ops theEvent c = (if mConnectionState c = Connected then process ops theEvent c else Some c)"

definition isConnectionToClient :: "('n, 'x) net_connection \<Rightarrow> bool" where
  "isConnectionToClient c \<longleftrightarrow> mTypeFlags c AND ConnectionToClient \<noteq> 0"

definition isConnectionToServer :: "('n, 'x) net_connection \<Rightarrow> bool" where
  "isConnectionToServer c \<longleftrightarrow> mTypeFlags c AND ConnectionToServer \<noteq> 0"

definition directionAllowed :: "event_direction \<Rightarrow> ('n, 'x) net_connection \<Rightarrow> bool" where
  "directionAllowed d c \<longleftrightarrow> \<not> (d = DirUnset \<or> (d = DirServerToClient \<and> isConnectionToClient c) \<or>
     (d = DirClientToServer \<and> isConnectionToServer c))"

text \<open>
  The event after its flags and sequence number; \<open>None\<close> in the middle when the packet is refused, with the error
  set. \<open>evt\<close> is created and unpacked.
\<close>

definition readEvent ::
  "('e, 'u) event_class \<Rightarrow> bit_stream \<Rightarrow> ('e, 'u) event_connection \<Rightarrow>
   (bit_stream \<times> 'e option \<times> ('e, 'u) event_connection) option" where
  "readEvent ops bstream c = do {
     (_, bstream) \<leftarrow> (if mDebugObjectSizes (mConnectionParameters c) then readInt BitStreamPosBitSize bstream else Some (0, bstream));
     (classId, bstream) \<leftarrow> readInt (ucast (mEventClassBitSize (mSub c))) bstream;
     if classId \<ge> mEventClassCount (mSub c) then Some (bstream, None, c\<lparr>mErrorBuffer := ''Invalid packet.''\<rparr>)
     else case createEvent ops classId of
       None \<Rightarrow> Some (bstream, None, c\<lparr>mErrorBuffer := ''Invalid packet.''\<rparr>)
     | Some evt \<Rightarrow>
         if \<not> directionAllowed (mEventDirection ops evt) c then Some (bstream, None, c\<lparr>mErrorBuffer := ''Invalid Packet.''\<rparr>)
         else do {
           (bstream, evt, c) \<leftarrow> unpack ops evt bstream c;
           Some (bstream, if mErrorBuffer c \<noteq> [] then None else Some evt, c) } }"

text \<open>The full sequence number of the low seven bits.\<close>

definition fullEventSeq :: "int \<Rightarrow> int \<Rightarrow> int" where
  "fullEventSeq seq next = (let seq = seq OR (next AND NOT 0x7F) in if seq < next then seq + 128 else seq)"

text \<open>The loop over the events; the result says whether it ended at the closing flag.\<close>

partial_function (option) readEvents ::
  "('e, 'u) event_class \<Rightarrow> int \<Rightarrow> nat \<Rightarrow> bool \<Rightarrow> bit_stream \<Rightarrow> ('e, 'u) event_connection \<Rightarrow>
   (bool \<times> bit_stream \<times> ('e, 'u) event_connection) option" where
  "readEvents ops prevSeq waitInsert unguaranteedPhase bstream c =
     Option.bind (readFlag bstream) (\<lambda>(bit0, bstream).
     Option.bind (if unguaranteedPhase \<and> \<not> bit0 then readFlag bstream else Some (bit0, bstream)) (\<lambda>(bit1, bstream).
     let phase = unguaranteedPhase \<and> bit0 in
     if \<not> phase \<and> \<not> bit1 then Some (True, bstream, c)
     else
       Option.bind (if phase then Some (- 1, bstream)
           else Option.bind (readFlag bstream) (\<lambda>(inOrder, bstream).
             if inOrder then Some ((prevSeq + 1) AND 0x7f, bstream)
             else map_option (\<lambda>(v, bs). (uint v, bs)) (readInt 7 bstream))) (\<lambda>(seq, bstream).
       Option.bind (readEvent ops bstream c) (\<lambda>(bstream, r, c).
       case r of
         None \<Rightarrow> Some (False, bstream, c)
       | Some evt \<Rightarrow>
           if phase then
             Option.bind (processEvent ops evt c) (\<lambda>c.
             if mErrorBuffer c \<noteq> [] then Some (False, bstream, c)
             else readEvents ops prevSeq waitInsert phase bstream c)
           else
             let full = fullEventSeq seq (mNextRecvEventSeq (mSub c));
                 k = skipBefore full (mWaitSeqEvents (mSub c)) waitInsert
             in readEvents ops seq (k + 1) phase bstream
                  (set_ev (\<lambda>s. s\<lparr>mWaitSeqEvents := insertAt k \<lparr>mEvent = evt, mSeqCount = full\<rparr> (mWaitSeqEvents s)\<rparr>) c)))))"

text \<open>The events whose turn has come; at most as many turns as events wait.\<close>

fun processWaiting :: "nat \<Rightarrow> ('e, 'u) event_class \<Rightarrow> ('e, 'u) event_connection \<Rightarrow> ('e, 'u) event_connection option" where
  "processWaiting 0 ops c = Some c"
| "processWaiting (Suc n) ops c =
     (case mWaitSeqEvents (mSub c) of
        [] \<Rightarrow> Some c
      | temp # rest \<Rightarrow>
          if mSeqCount temp = mNextRecvEventSeq (mSub c) then do {
            next \<leftarrow> inc_s32 (mNextRecvEventSeq (mSub c));
            c \<leftarrow> processEvent ops (mEvent temp) (set_ev (\<lambda>s. s\<lparr>mNextRecvEventSeq := next, mWaitSeqEvents := rest\<rparr>) c);
            if mErrorBuffer c \<noteq> [] then Some c else processWaiting n ops c }
          else Some c)"

definition ev_readPacket ::
  "('e, 'u) event_class \<Rightarrow> bit_stream \<Rightarrow> ('e, 'u) event_connection \<Rightarrow> (bit_stream \<times> ('e, 'u) event_connection) option" where
  "ev_readPacket ops bstream c = do {
     (_, bstream) \<leftarrow> (if mDebugObjectSizes (mConnectionParameters c) then readInt 32 bstream else Some (0, bstream));
     (complete, bstream, c) \<leftarrow> readEvents ops (- 2) 0 True bstream c;
     c \<leftarrow> (if complete then processWaiting (length (mWaitSeqEvents (mSub c))) ops c else Some c);
     Some (bstream, c) }"

declare writeUnordered.simps [code] writeOrdered.simps [code] readEvents.simps [code]

section \<open>Notifications\<close>

fun dropEvents :: "('e, 'u) event_class \<Rightarrow> 'e event_note list \<Rightarrow> nat \<Rightarrow> ('e, 'u) event_connection \<Rightarrow> ('e, 'u) event_connection option" where
  "dropEvents ops [] insertList c = Some c"
| "dropEvents ops (walk # rest) insertList c =
     (case mGuaranteeType ops (mEvent walk) of
        GuaranteedOrdered \<Rightarrow>
          let k = skipBefore (mSeqCount walk) (mSendEventQueue (mSub c)) insertList
          in dropEvents ops rest (k + 1) (set_ev (\<lambda>s. s\<lparr>mSendEventQueue := insertAt k walk (mSendEventQueue s)\<rparr>) c)
      | Guaranteed \<Rightarrow>
          dropEvents ops rest insertList (set_ev (\<lambda>s. s\<lparr>mUnorderedSendEventQueue := walk # mUnorderedSendEventQueue s\<rparr>) c)
      | Unguaranteed \<Rightarrow> do {
          c \<leftarrow> notifyDelivered ops (mEvent walk) False c;
          dropEvents ops rest insertList c })"

definition ev_packetDropped ::
  "('e, 'u) event_class \<Rightarrow> 'e event_note list packet_notify \<Rightarrow> ('e, 'u) event_connection \<Rightarrow> ('e, 'u) event_connection option" where
  "ev_packetDropped ops notify c = dropEvents ops (noteData notify) 0 (base_packetDropped notify c)"

fun receiveEvents :: "('e, 'u) event_class \<Rightarrow> 'e event_note list \<Rightarrow> nat \<Rightarrow> ('e, 'u) event_connection \<Rightarrow> ('e, 'u) event_connection option" where
  "receiveEvents ops [] noteList c = Some c"
| "receiveEvents ops (walk # rest) noteList c =
     (if mGuaranteeType ops (mEvent walk) \<noteq> GuaranteedOrdered then do {
        c \<leftarrow> notifyDelivered ops (mEvent walk) True c;
        receiveEvents ops rest noteList c }
      else
        let k = skipBefore (mSeqCount walk) (mNotifyEventList (mSub c)) noteList
        in receiveEvents ops rest (k + 1) (set_ev (\<lambda>s. s\<lparr>mNotifyEventList := insertAt k walk (mNotifyEventList s)\<rparr>) c))"

fun notifyInOrder :: "nat \<Rightarrow> ('e, 'u) event_class \<Rightarrow> ('e, 'u) event_connection \<Rightarrow> ('e, 'u) event_connection option" where
  "notifyInOrder 0 ops c = Some c"
| "notifyInOrder (Suc n) ops c =
     (case mNotifyEventList (mSub c) of
        [] \<Rightarrow> Some c
      | x # next \<Rightarrow>
          if mSeqCount x = mLastAckedEventSeq (mSub c) + 1 then do {
            acked \<leftarrow> inc_s32 (mLastAckedEventSeq (mSub c));
            c \<leftarrow> notifyDelivered ops (mEvent x) True (set_ev (\<lambda>s. s\<lparr>mLastAckedEventSeq := acked\<rparr>) c);
            notifyInOrder n ops (set_ev (\<lambda>s. s\<lparr>mNotifyEventList := next\<rparr>) c) }
          else Some c)"

definition ev_packetReceived ::
  "('e, 'u) event_class \<Rightarrow> 'e event_note list packet_notify \<Rightarrow> ('e, 'u) event_connection \<Rightarrow> ('e, 'u) event_connection option" where
  "ev_packetReceived ops notify c = do {
     c \<leftarrow> receiveEvents ops (noteData notify) 0 (base_packetReceived notify c);
     notifyInOrder (length (mNotifyEventList (mSub c))) ops c }"

section \<open>The class\<close>

definition event_connection_class :: "('e, 'u) event_class \<Rightarrow> ('e event_note list, ('e, 'u) event_state) conn_class" where
  "event_connection_class ops = \<lparr>allocNotify = [], prepareWritePacket = Some, isDataToTransmit = ev_isDataToTransmit,
     writePacket = ev_writePacket ops, readPacket = ev_readPacket ops,
     packetReceived = ev_packetReceived ops, packetDropped = ev_packetDropped ops\<rparr>"

text \<open>The destructor tells every event that is left that it was delivered, list by list.\<close>

partial_function (option) deliverAll ::
  "('e, 'u) event_class \<Rightarrow> (('e, 'u) event_state \<Rightarrow> 'e event_note list) \<Rightarrow>
   ('e event_note list \<Rightarrow> ('e, 'u) event_state \<Rightarrow> ('e, 'u) event_state) \<Rightarrow> ('e, 'u) event_connection \<Rightarrow> ('e, 'u) event_connection option" where
  "deliverAll ops get put c =
     (case get (mSub c) of
        [] \<Rightarrow> Some c
      | temp # rest \<Rightarrow>
          Option.bind (notifyDelivered ops (mEvent temp) True (set_ev (put rest) c)) (\<lambda>c. deliverAll ops get put c))"

declare deliverAll.simps [code]

definition EventConnection_delete :: "('e, 'u) event_class \<Rightarrow> ('e, 'u) event_connection \<Rightarrow> ('e, 'u) event_connection option" where
  "EventConnection_delete ops c = do {
     c \<leftarrow> deliverAll ops mNotifyEventList (\<lambda>q s. s\<lparr>mNotifyEventList := q\<rparr>) c;
     c \<leftarrow> deliverAll ops mUnorderedSendEventQueue (\<lambda>q s. s\<lparr>mUnorderedSendEventQueue := q\<rparr>) c;
     deliverAll ops mSendEventQueue (\<lambda>q s. s\<lparr>mSendEventQueue := q\<rparr>) c }"

end
