(* ===== verification/Event_Codec.thy ===== *)
theory Event_Codec
  imports Event_Connection Bit_Stream_Safety
begin

text \<open>
  The events of a packet as bits. The locale \<open>event_ops\<close> is what an event class promises the connection: packing appends bits,
  unpacking takes them back, the notifications and the processing of an event touch the fields of the derived
  class only. Under it a packet holds exactly the events it notes, and the reader finds them.
\<close>

section \<open>A stream being written\<close>

text \<open>\<open>bs\<close> is \<open>bs0\<close> with the bits \<open>xs\<close> written from its position on; what follows them is free.\<close>

definition wrote :: "bit_stream \<Rightarrow> bool list \<Rightarrow> bit_stream \<Rightarrow> bool" where
  "wrote bs0 xs bs \<longleftrightarrow> stream_ok bs \<and> maxWriteBitNum bs = maxWriteBitNum bs0 \<and> mBufSize bs = mBufSize bs0 \<and>
     unat (bitNum bs) = unat (bitNum bs0) + length xs \<and> unat (bitNum bs) \<le> unat (maxWriteBitNum bs) \<and>
     get_bits (mDataPtr bs) (unat (bitNum bs0)) (length xs) = xs"

lemma wrote_Nil: "can_write bs 0 \<Longrightarrow> wrote bs [] bs"
  by (simp add: wrote_def can_write_def get_bits_def)

lemma wrote_room: "wrote bs0 xs bs \<Longrightarrow> can_write bs n \<longleftrightarrow> unat (bitNum bs0) + length xs + n \<le> unat (maxWriteBitNum bs0)"
  by (simp add: wrote_def can_write_def)

lemma get_bits_take: "b \<le> a \<Longrightarrow> get_bits m p b = take b (get_bits m p a)"
  by (rule nth_equalityI) auto

lemma get_bits_put_after: "p + a \<le> q \<Longrightarrow> q + length ys \<le> 8 * length m \<Longrightarrow> get_bits (put_bits m q ys) p a = get_bits m p a"
  by (rule nth_equalityI) (auto simp: bit_view)

lemma wrote_append:
  assumes w: "wrote bs0 xs bs" and r: "can_write bs (length ys)"
  shows "wrote bs0 (xs @ ys) (append_bits ys bs)"
proof -
  let ?p = "unat (bitNum bs0)"
  have n: "unat (bitNum bs + of_nat (length ys)) = unat (bitNum bs) + length ys"
    using r by (intro room_no_wrap [of _ _ "maxWriteBitNum bs"]) (simp add: can_write_def)
  have q: "unat (bitNum bs) + length ys \<le> 8 * length (mDataPtr bs)" using r by (simp add: can_write_def stream_ok_def)
  have e: "unat (bitNum bs) = ?p + length xs" using w by (simp add: wrote_def)
  have "get_bits (put_bits (mDataPtr bs) (?p + length xs) ys) ?p (length xs + length ys) = xs @ ys"
    using w q unfolding get_bits_split by (simp add: get_bits_put_after get_bits_put_bits wrote_def)
  then show ?thesis using w r n by (simp add: wrote_def append_bits_def can_write_def stream_ok_def e)
qed

lemma wrote_rewind:
  assumes "wrote bs0 (xs @ ys) bs" and "unat p = unat (bitNum bs0) + length xs"
  shows "wrote bs0 xs (clearError (setBitPosition p bs))"
  using assms get_bits_take [of "length xs" "length xs + length ys" "mDataPtr bs" "unat (bitNum bs0)"]
  by (auto simp: wrote_def clearError_def setBitPosition_def stream_ok_def)

lemma wrote_flag:
  "wrote bs0 xs bs \<Longrightarrow> can_write bs 1 \<Longrightarrow> \<exists>bs'. writeFlag v bs = Some (v, bs') \<and> wrote bs0 (xs @ [v]) bs'"
  using wrote_append [of bs0 xs bs "[v]"] by (simp add: writeFlag_fits)

lemma wrote_int:
  "wrote bs0 xs bs \<Longrightarrow> can_write bs (unat n) \<Longrightarrow> unat n \<le> 32 \<Longrightarrow>
   \<exists>bs'. writeInt v n bs = Some bs' \<and> wrote bs0 (xs @ int_bits (unat n) v) bs'"
  using wrote_append [of bs0 xs bs "int_bits (unat n) v"] by (simp add: writeInt_fits)

lemma set_ev_same: "f (mSub c) = mSub c \<Longrightarrow> set_ev f c = c"
  by (cases c) simp

lemma queue_same:
  "mUnorderedSendEventQueue s = q \<Longrightarrow> s\<lparr>mUnorderedSendEventQueue := q\<rparr> = s"
  "mSendEventQueue s = q \<Longrightarrow> s\<lparr>mSendEventQueue := q\<rparr> = s"
  by (cases s; simp)+

text \<open>A stream that has room for an event beyond its intended size, so that no write fails.\<close>

definition roomy :: "nat \<Rightarrow> nat \<Rightarrow> bit_stream \<Rightarrow> bool" where
  "roomy maxBits k bs \<longleftrightarrow> k \<le> 32 \<and> unat (mBufSize bs) < 2 ^ 28 \<and> unat (bitNum bs) \<le> 8 * unat (mBufSize bs) \<and>
     8 * unat (mBufSize bs) + k + maxBits + 144 \<le> unat (maxWriteBitNum bs)"

section \<open>A stream being read\<close>

definition reads :: "bit_stream \<Rightarrow> bool list \<Rightarrow> bool" where
  "reads bs xs \<longleftrightarrow> can_read bs (length xs) \<and> next_bits bs (length xs) = xs"

lemma reads_append: "reads bs (xs @ ys) \<Longrightarrow> reads bs xs \<and> reads (skip_bits (length xs) bs) ys"
  using next_bits_add [of bs "length xs" "length ys"] can_read_skip [of bs "length xs" "length ys"]
    can_read_mono [of bs "length xs + length ys" "length xs"]
  by (simp add: reads_def)

lemma reads_flag: "reads bs (v # xs) \<Longrightarrow> readFlag bs = Some (v, skip_bits 1 bs) \<and> reads (skip_bits 1 bs) xs"
  using reads_append [of bs "[v]" xs] readFlag_fits [of bs] by (auto simp: reads_def)

lemma reads_int:
  "reads bs (int_bits (unat n) v @ xs) \<Longrightarrow> unat n \<le> 32 \<Longrightarrow>
   readInt n bs = Some (take_bit (unat n) v, skip_bits (unat n) bs) \<and> reads (skip_bits (unat n) bs) xs"
  using reads_append [of bs "int_bits (unat n) v" xs] readInt_fits [of bs n] by (auto simp: reads_def)

section \<open>The full sequence number\<close>

lemma low_high_or: "(a mod 128) OR (b AND NOT 0x7F) = a mod 128 + (b - b mod 128)" for a b :: int
proof -
  have m: "(0x7F :: int) = mask 7" by (simp add: mask_eq_exp_minus_1)
  have l: "x mod 128 = take_bit 7 x" for x :: int by (simp add: take_bit_eq_mod)
  have "take_bit 7 a + (b AND NOT (mask 7)) = take_bit 7 a OR (b AND NOT (mask 7))"
    by (rule disjunctive_add) (auto simp: bit_simps)
  moreover have "take_bit 7 b + (b AND NOT (mask 7)) = take_bit 7 b OR (b AND NOT (mask 7))"
    by (rule disjunctive_add) (auto simp: bit_simps)
  moreover have "take_bit 7 b OR (b AND NOT (mask 7)) = b" by (rule bit_eqI) (auto simp: bit_simps)
  ultimately show ?thesis unfolding m l by simp
qed

lemma fullEventSeq_restores:
  assumes "next \<le> seq" and "seq < next + 128"
  shows "fullEventSeq (seq mod 128) next = seq"
proof -
  define p q where "p = seq div 128" and "q = next div 128"
  have d: "seq = 128 * p + seq mod 128" "next = 128 * q + next mod 128" "0 \<le> seq mod 128" "seq mod 128 < 128"
      "0 \<le> next mod 128" "next mod 128 < 128"
    by (simp_all add: p_def q_def)
  define x where "x = seq mod 128 + (next - next mod 128)"
  have "p = q \<or> p = q + 1" using d assms by linarith
  then have "x = seq \<or> x + 128 = seq \<and> x < next" using d assms unfolding x_def by linarith
  moreover have "fullEventSeq (seq mod 128) next = (if x < next then x + 128 else x)"
    by (simp only: fullEventSeq_def low_high_or x_def Let_def)
  ultimately show ?thesis using assms by auto
qed

section \<open>Insertion by sequence number\<close>

text \<open>What the three insertion loops do to their list: the notes go in from the left, each behind the last one.\<close>

fun insertNotes :: "'e event_note list \<Rightarrow> nat \<Rightarrow> 'e event_note list \<Rightarrow> 'e event_note list" where
  "insertNotes [] k q = q"
| "insertNotes (x # xs) k q = (let j = skipBefore (mSeqCount x) q k in insertNotes xs (j + 1) (insertAt j x q))"

section \<open>The contract of an event class\<close>

abbreviation set_user :: "('u \<Rightarrow> 'u) \<Rightarrow> ('e, 'u) event_connection \<Rightarrow> ('e, 'u) event_connection" where
  "set_user f c \<equiv> set_ev (\<lambda>s. s\<lparr>mUser := f (mUser s)\<rparr>) c"

text \<open>\<open>fresh\<close> is an event as it is created for a class, before its contents are unpacked.\<close>

locale event_ops =
  fixes ops :: "('e, 'u) event_class" and valid :: "'e \<Rightarrow> bool" and bits :: "'e \<Rightarrow> bool list" and maxBits :: nat
    and onPosted onSent onProcess :: "'e \<Rightarrow> 'u \<Rightarrow> 'u" and onDelivered :: "'e \<Rightarrow> bool \<Rightarrow> 'u \<Rightarrow> 'u"
  assumes pack_appends: "valid e \<Longrightarrow> can_write bs (length (bits e)) \<Longrightarrow> pack ops e bs c = Some (append_bits (bits e) bs, c)"
    and created: "valid e \<Longrightarrow> \<exists>fresh. createEvent ops (getClassId ops e) = Some fresh \<and> mEventDirection ops fresh = mEventDirection ops e \<and>
      (\<forall>bs c. can_read bs (length (bits e)) \<longrightarrow> next_bits bs (length (bits e)) = bits e \<longrightarrow>
        unpack ops fresh bs c = Some (skip_bits (length (bits e)) bs, e, c))"
    and few_bits: "valid e \<Longrightarrow> length (bits e) \<le> maxBits"
    and posted: "notifyPosted ops e c = Some (set_user (onPosted e) c)"
    and sent: "notifySent ops e c = Some (set_user (onSent e) c)"
    and processed: "process ops e c = Some (set_user (onProcess e) c)"
    and delivered: "notifyDelivered ops e ok c = Some (set_user (onDelivered e ok) c)"
begin

text \<open>An event in a packet, with class numbers of \<open>k\<close> bits.\<close>

definition payload :: "nat \<Rightarrow> 'e event_note \<Rightarrow> bool list" where
  "payload k ev = int_bits k (getClassId ops (mEvent ev)) @ bits (mEvent ev)"

definition unordered_bits :: "nat \<Rightarrow> 'e event_note list \<Rightarrow> bool list" where
  "unordered_bits k evs = concat (map (\<lambda>ev. True # payload k ev) evs)"

definition seq_bits :: "int \<Rightarrow> int \<Rightarrow> bool list" where
  "seq_bits prev seq = (if seq = prev + 1 then [True] else False # int_bits 7 (of_int seq :: u32))"

fun ordered_bits :: "nat \<Rightarrow> int \<Rightarrow> 'e event_note list \<Rightarrow> bool list" where
  "ordered_bits k prev [] = []"
| "ordered_bits k prev (ev # evs) = True # seq_bits prev (mSeqCount ev) @ payload k ev @ ordered_bits k (mSeqCount ev) evs"

definition event_bits :: "nat \<Rightarrow> 'e event_note list \<Rightarrow> 'e event_note list \<Rightarrow> bool list" where
  "event_bits k us os = unordered_bits k us @ [False] @ ordered_bits k (- 2) os @ [False]"

lemma unordered_bits_snoc: "unordered_bits k (evs @ [ev]) = unordered_bits k evs @ True # payload k ev"
  by (simp add: unordered_bits_def)

lemma ordered_bits_snoc:
  "ordered_bits k prev (evs @ [ev]) =
   ordered_bits k prev evs @ True # seq_bits (if evs = [] then prev else mSeqCount (last evs)) (mSeqCount ev) @ payload k ev"
  by (induction evs arbitrary: prev) auto

lemma length_payload: "valid (mEvent ev) \<Longrightarrow> length (payload k ev) \<le> k + maxBits"
  using few_bits by (simp add: payload_def)

text \<open>The width of the class numbers of a connection.\<close>

definition class_bits :: "('e, 'u) event_connection \<Rightarrow> nat" where
  "class_bits c = unat (ucast (mEventClassBitSize (mSub c)) :: u8)"

lemma not_full: "wrote bs0 xs bs \<Longrightarrow> roomy maxBits k bs0 \<Longrightarrow> \<not> isFull bs \<Longrightarrow> unat (bitNum bs0) + length xs \<le> 8 * unat (mBufSize bs0)"
  using unat_push3 [of "unat (mBufSize bs0)"] by (auto simp: wrote_def roomy_def isFull_def word_le_nat_alt not_less)

lemma writeEvent_appends:
  assumes "valid (mEvent ev)" "\<not> mDebugObjectSizes (mConnectionParameters c)" "class_bits c = k" "k \<le> 32"
    and w: "wrote bs0 xs bs" and r: "can_write bs (k + length (bits (mEvent ev)))"
  shows "\<exists>bs'. writeEvent ops p ev bs c = Some (bs', c) \<and> wrote bs0 (xs @ payload k ev) bs'"
proof -
  obtain bs1 where 1: "writeInt (getClassId ops (mEvent ev)) (ucast (mEventClassBitSize (mSub c))) bs = Some bs1"
      "wrote bs0 (xs @ int_bits k (getClassId ops (mEvent ev))) bs1"
    using wrote_int [OF w, of "ucast (mEventClassBitSize (mSub c))"] assms(3,4) can_write_mono [OF r, of k]
    by (auto simp: class_bits_def)
  have "can_write bs1 (length (bits (mEvent ev)))" using r wrote_room [OF w] wrote_room [OF 1(2)] by simp
  then show ?thesis using 1 wrote_append [OF 1(2), of "bits (mEvent ev)"] pack_appends [OF assms(1), of bs1 c] assms(2)
    by (simp add: writeEvent_def payload_def)
qed

lemma space_left:
  assumes w: "wrote bs0 xs bs" and "\<not> getBitSpaceAvailable bs < MinimumPaddingBits"
  shows "can_write bs 128"
proof -
  have "unat (maxWriteBitNum bs - bitNum bs) = unat (maxWriteBitNum bs) - unat (bitNum bs)"
    using w by (intro unat_sub) (auto simp: wrote_def word_le_nat_alt)
  then show ?thesis using assms by (auto simp: getBitSpaceAvailable_def MinimumPaddingBits_def word_less_nat_alt wrote_def can_write_def)
qed

lemma room_kept: "wrote bs0 xs bs \<Longrightarrow> wrote bs0 xs bs' \<Longrightarrow> can_write bs n \<Longrightarrow> can_write bs' n"
  by (simp add: wrote_room)

lemma writeUnordered_appends:
  assumes c: "\<not> mDebugObjectSizes (mConnectionParameters c)" "class_bits c = k" and r: "roomy maxBits k bs0"
    and w: "wrote bs0 (unordered_bits k us) bs"
    and q: "mUnorderedSendEventQueue (mSub c) = q" "\<forall>ev \<in> set q. valid (mEvent ev)"
  shows "\<exists>q1 q2 bs'. q = q1 @ q2 \<and> wrote bs0 (unordered_bits k (us @ q1)) bs' \<and> (n \<le> 128 \<longrightarrow> can_write bs n \<longrightarrow> can_write bs' n) \<and>
    writeUnordered ops us bs c = Some (bs', us @ q1, set_ev (\<lambda>s. s\<lparr>mUnorderedSendEventQueue := q2\<rparr>) c)"
  using c w q
proof (induction q arbitrary: us bs c)
  case Nil
  have "set_ev (\<lambda>s. s\<lparr>mUnorderedSendEventQueue := []\<rparr>) c = c" by (rule set_ev_same) (simp add: queue_same Nil.prems(4))
  then show ?case using Nil.prems writeUnordered.simps [of ops us bs c]
    by (intro exI [of _ "[]"] exI [of _ bs]) simp
next
  case (Cons ev q)
  have v: "valid (mEvent ev) \<and> (\<forall>ev \<in> set q. valid (mEvent ev))" using Cons.prems(5) by simp
  have k: "k \<le> 32" using r by (simp add: roomy_def)
  show ?case
  proof (cases "isFull bs")
    case True
    have "set_ev (\<lambda>s. s\<lparr>mUnorderedSendEventQueue := ev # q\<rparr>) c = c" by (rule set_ev_same) (simp add: queue_same Cons.prems(4))
    moreover have "writeUnordered ops us bs c = Some (bs, us, c)"
      by (subst writeUnordered.simps) (simp add: Cons.prems(4) True)
    ultimately show ?thesis using Cons.prems(3) by (intro exI [of _ "[]"] exI [of _ "ev # q"] exI [of _ bs]) simp
  next
    case False
    have room: "unat (bitNum bs0) + length (unordered_bits k us) + k + maxBits + 144 \<le> unat (maxWriteBitNum bs0)"
      using not_full [OF Cons.prems(3) r False] r by (simp add: roomy_def)
    obtain bs1 where 1: "writeFlag True bs = Some (True, bs1)" "wrote bs0 (unordered_bits k us @ [True]) bs1"
      using wrote_flag [OF Cons.prems(3), of True] wrote_room [OF Cons.prems(3), of 1] room by auto
    have cw: "can_write bs1 (k + length (bits (mEvent ev)))"
      using wrote_room [OF 1(2)] room few_bits [of "mEvent ev"] v by simp
    obtain bs2 where 2: "writeEvent ops (bitNum bs1) ev bs1 c = Some (bs2, c)"
        "wrote bs0 ((unordered_bits k us @ [True]) @ payload k ev) bs2"
      using writeEvent_appends [OF v [THEN conjunct1] Cons.prems(1,2) k 1(2) cw, of "bitNum bs1"] by blast
    have 3: "wrote bs0 (unordered_bits k (us @ [ev])) bs2" using 2(2) by (simp add: unordered_bits_snoc)
    show ?thesis
    proof (cases "getBitSpaceAvailable bs2 < MinimumPaddingBits")
      case True
      have "unat (bitNum bs1 - 1) = unat (bitNum bs0) + length (unordered_bits k us)"
        using 1(2) by (subst unat_sub) (auto simp: wrote_def word_le_nat_alt)
      then have "wrote bs0 (unordered_bits k us) (clearError (setBitPosition (bitNum bs1 - 1) bs2))"
        using 2(2) by (intro wrote_rewind) simp_all
      moreover have "set_ev (\<lambda>s. s\<lparr>mUnorderedSendEventQueue := ev # q\<rparr>) c = c" by (rule set_ev_same) (simp add: queue_same Cons.prems(4))
      moreover have "can_write bs n \<longrightarrow> can_write (clearError (setBitPosition (bitNum bs1 - 1) bs2)) n"
        using room_kept [OF Cons.prems(3) calculation(1)] by blast
      moreover have "writeUnordered ops us bs c = Some (clearError (setBitPosition (bitNum bs1 - 1) bs2), us, c)"
        by (subst writeUnordered.simps) (simp add: Cons.prems(1,4) True False 1(1) 2(1) debugAdvance_def)
      ultimately show ?thesis
        by (intro exI [of _ "[]"] exI [of _ "ev # q"] exI [of _ "clearError (setBitPosition (bitNum bs1 - 1) bs2)"]) simp
    next
      case fits: False
      define c1 where "c1 = set_ev (\<lambda>s. s\<lparr>mUnorderedSendEventQueue := q\<rparr>) c"
      have c1: "\<not> mDebugObjectSizes (mConnectionParameters c1)" "class_bits c1 = k" "mUnorderedSendEventQueue (mSub c1) = q"
        using Cons.prems(1,2) by (simp_all add: c1_def class_bits_def)
      obtain q1 q2 bs' where r: "q = q1 @ q2" "wrote bs0 (unordered_bits k ((us @ [ev]) @ q1)) bs'"
          "n \<le> 128 \<longrightarrow> can_write bs2 n \<longrightarrow> can_write bs' n"
          "writeUnordered ops (us @ [ev]) bs2 c1 = Some (bs', (us @ [ev]) @ q1, set_ev (\<lambda>s. s\<lparr>mUnorderedSendEventQueue := q2\<rparr>) c1)"
        using Cons.IH [OF c1(1,2) 3 c1(3)] v by auto
      have "writeUnordered ops us bs c = writeUnordered ops (us @ [ev]) bs2 c1"
        by (subst writeUnordered.simps) (simp add: Cons.prems(1,4) fits False 1(1) 2(1) debugAdvance_def c1_def)
      moreover have "n \<le> 128 \<longrightarrow> can_write bs' n" using r(3) can_write_mono [OF space_left [OF 3 fits]] by blast
      ultimately show ?thesis using r(1,2,4) by (intro exI [of _ "ev # q1"] exI [of _ q2] exI [of _ bs']) (simp add: c1_def)
    qed
  qed
qed

definition last_seq :: "'e event_note list \<Rightarrow> int" where
  "last_seq os = (if os = [] then - 2 else mSeqCount (last os))"

lemma length_seq_bits: "length (seq_bits prev seq) \<le> 8"
  by (simp add: seq_bits_def)

text \<open>The flags and the sequence number before an ordered event.\<close>

lemma writeSeq_appends:
  assumes w: "wrote bs0 xs bs" and r: "can_write bs 9"
  shows "\<exists>bs1 bs2 bs3. writeFlag True bs = Some (True, bs1) \<and> writeFlag (seq = prev + 1) bs1 = Some (seq = prev + 1, bs2) \<and>
    (if seq = prev + 1 then Some bs2 else writeInt (of_int seq) 7 bs2) = Some bs3 \<and> wrote bs0 (xs @ True # seq_bits prev seq) bs3"
proof -
  obtain bs1 where 1: "writeFlag True bs = Some (True, bs1)" "wrote bs0 (xs @ [True]) bs1"
    using wrote_flag [OF w can_write_mono [OF r], of True] by auto
  obtain bs2 where 2: "writeFlag (seq = prev + 1) bs1 = Some (seq = prev + 1, bs2)" "wrote bs0 ((xs @ [True]) @ [seq = prev + 1]) bs2"
    using wrote_flag [OF 1(2), of "seq = prev + 1"] r wrote_room [OF w] wrote_room [OF 1(2)] by auto
  have "can_write bs2 (unat (7 :: u8))" using r wrote_room [OF w] wrote_room [OF 2(2)] by simp
  then obtain bs3 where "writeInt (of_int seq) 7 bs2 = Some bs3" "wrote bs0 (((xs @ [True]) @ [seq = prev + 1]) @ int_bits 7 (of_int seq :: u32)) bs3"
    using wrote_int [OF 2(2), of 7 "of_int seq"] by auto
  then show ?thesis using 1 2 by (cases "seq = prev + 1") (auto simp: seq_bits_def)
qed

lemma writeOrdered_appends:
  assumes c: "\<not> mDebugObjectSizes (mConnectionParameters c)" "class_bits c = k" and r: "roomy maxBits k bs0"
    and w: "wrote bs0 (pre @ ordered_bits k (- 2) os) bs"
    and q: "mSendEventQueue (mSub c) = q" "\<forall>ev \<in> set q. valid (mEvent ev)"
  shows "\<exists>q1 q2 bs'. q = q1 @ q2 \<and> wrote bs0 (pre @ ordered_bits k (- 2) (os @ q1)) bs' \<and> (n \<le> 128 \<longrightarrow> can_write bs n \<longrightarrow> can_write bs' n) \<and>
    (\<forall>ev \<in> set q1. mSeqCount ev \<le> mLastAckedEventSeq (mSub c) + 126) \<and>
    writeOrdered ops (last_seq os) (us @ os) bs c = Some (bs', us @ os @ q1, set_ev (\<lambda>s. s\<lparr>mSendEventQueue := q2\<rparr>) c)"
  using c w q
proof (induction q arbitrary: os bs c)
  case Nil
  have "set_ev (\<lambda>s. s\<lparr>mSendEventQueue := []\<rparr>) c = c" by (rule set_ev_same) (simp add: queue_same Nil.prems(4))
  moreover have "writeOrdered ops (last_seq os) (us @ os) bs c = Some (bs, us @ os, c)"
    by (subst writeOrdered.simps) (simp add: Nil.prems(4))
  ultimately show ?case using Nil.prems(3) by (intro exI [of _ "[]"] exI [of _ bs]) simp
next
  case (Cons ev q)
  have v: "valid (mEvent ev) \<and> (\<forall>ev \<in> set q. valid (mEvent ev))" using Cons.prems(5) by simp
  have k: "k \<le> 32" using r by (simp add: roomy_def)
  have same: "set_ev (\<lambda>s. s\<lparr>mSendEventQueue := ev # q\<rparr>) c = c" by (rule set_ev_same) (simp add: queue_same Cons.prems(4))
  let ?xs = "pre @ ordered_bits k (- 2) os"
  show ?case
  proof (cases "isFull bs \<or> mSeqCount ev > mLastAckedEventSeq (mSub c) + 126")
    case True
    have "writeOrdered ops (last_seq os) (us @ os) bs c = Some (bs, us @ os, c)"
      by (subst writeOrdered.simps) (simp add: Cons.prems(4) True)
    then show ?thesis using Cons.prems(3) same by (intro exI [of _ "[]"] exI [of _ "ev # q"] exI [of _ bs]) simp
  next
    case False
    then have room: "unat (bitNum bs0) + length ?xs + k + maxBits + 144 \<le> unat (maxWriteBitNum bs0)"
      using not_full [OF Cons.prems(3) r] r by (simp add: roomy_def)
    have "can_write bs 9" using wrote_room [OF Cons.prems(3), of 9] room by simp
    from writeSeq_appends [OF Cons.prems(3) this, of "mSeqCount ev" "last_seq os"] obtain bs1 bs2 bs3 where
      1: "writeFlag True bs = Some (True, bs1)" "writeFlag (mSeqCount ev = last_seq os + 1) bs1 = Some (mSeqCount ev = last_seq os + 1, bs2)"
        "(if mSeqCount ev = last_seq os + 1 then Some bs2 else writeInt (of_int (mSeqCount ev)) 7 bs2) = Some bs3"
        and w3: "wrote bs0 (?xs @ True # seq_bits (last_seq os) (mSeqCount ev)) bs3"
      by blast
    have cw: "can_write bs3 (k + length (bits (mEvent ev)))"
      using wrote_room [OF w3] room few_bits [of "mEvent ev"] v length_seq_bits [of "last_seq os" "mSeqCount ev"] by simp
    obtain bs4 where 2: "writeEvent ops (bitNum bs3) ev bs3 c = Some (bs4, c)"
        "wrote bs0 ((?xs @ True # seq_bits (last_seq os) (mSeqCount ev)) @ payload k ev) bs4"
      using writeEvent_appends [OF v [THEN conjunct1] Cons.prems(1,2) k w3 cw, of "bitNum bs3"] by blast
    have nf: "(isFull bs \<or> mSeqCount ev > mLastAckedEventSeq (mSub c) + 126) = False" using False by simp
    have da: "debugAdvance c bs3 = bs3" using Cons.prems(1) by (simp add: debugAdvance_def)
    note step_simps = Cons.prems(4) list.case nf if_False Let_def 1 bind.bind_lunit prod.case da 2(1)
    have 3: "wrote bs0 (pre @ ordered_bits k (- 2) (os @ [ev])) bs4"
      using 2(2) by (simp add: ordered_bits_snoc last_seq_def split: if_splits)
    show ?thesis
    proof (cases "getBitSpaceAvailable bs4 < MinimumPaddingBits")
      case True
      have "unat (bitNum bs) = unat (bitNum bs0) + length ?xs" using Cons.prems(3) by (simp add: wrote_def)
      then have "wrote bs0 ?xs (clearError (setBitPosition (bitNum bs) bs4))"
        using 2(2) by (intro wrote_rewind [of _ _ "True # seq_bits (last_seq os) (mSeqCount ev) @ payload k ev"]) simp_all
      moreover have "can_write bs n \<longrightarrow> can_write (clearError (setBitPosition (bitNum bs) bs4)) n"
        using room_kept [OF Cons.prems(3) calculation(1)] by blast
      moreover have "writeOrdered ops (last_seq os) (us @ os) bs c = Some (clearError (setBitPosition (bitNum bs) bs4), us @ os, c)"
        by (subst writeOrdered.simps) (simp only: step_simps True if_True)
      ultimately show ?thesis using same
        by (intro exI [of _ "[]"] exI [of _ "ev # q"] exI [of _ "clearError (setBitPosition (bitNum bs) bs4)"]) simp
    next
      case fits: False
      define c1 where "c1 = set_ev (\<lambda>s. s\<lparr>mSendEventQueue := q\<rparr>) c"
      have c1: "\<not> mDebugObjectSizes (mConnectionParameters c1)" "class_bits c1 = k" "mSendEventQueue (mSub c1) = q"
          "mLastAckedEventSeq (mSub c1) = mLastAckedEventSeq (mSub c)"
        using Cons.prems(1,2) by (simp_all add: c1_def class_bits_def)
      obtain q1 q2 bs' where r: "q = q1 @ q2" "wrote bs0 (pre @ ordered_bits k (- 2) ((os @ [ev]) @ q1)) bs'"
          "\<forall>ev \<in> set q1. mSeqCount ev \<le> mLastAckedEventSeq (mSub c1) + 126" "n \<le> 128 \<longrightarrow> can_write bs4 n \<longrightarrow> can_write bs' n"
          "writeOrdered ops (last_seq (os @ [ev])) (us @ os @ [ev]) bs4 c1 =
            Some (bs', us @ (os @ [ev]) @ q1, set_ev (\<lambda>s. s\<lparr>mSendEventQueue := q2\<rparr>) c1)"
        using Cons.IH [OF c1(1,2) 3 c1(3)] v by auto
      have "writeOrdered ops (last_seq os) (us @ os) bs c = writeOrdered ops (mSeqCount ev) (us @ os @ [ev]) bs4 c1"
        by (subst writeOrdered.simps) (simp only: step_simps fits list.sel c1_def append_assoc)
      moreover have "set_ev (\<lambda>s. s\<lparr>mSendEventQueue := q2\<rparr>) c1 = set_ev (\<lambda>s. s\<lparr>mSendEventQueue := q2\<rparr>) c" by (simp add: c1_def)
      moreover have "last_seq (os @ [ev]) = mSeqCount ev" "us @ (os @ [ev]) @ q1 = us @ os @ ev # q1"
          "(os @ [ev]) @ q1 = os @ ev # q1" by (simp_all add: last_seq_def)
      ultimately have e: "writeOrdered ops (last_seq os) (us @ os) bs c =
          Some (bs', us @ os @ ev # q1, set_ev (\<lambda>s. s\<lparr>mSendEventQueue := q2\<rparr>) c)"
        and w: "wrote bs0 (pre @ ordered_bits k (- 2) (os @ ev # q1)) bs'"
        using r(2,5) by (simp_all only:)
      have a: "\<forall>x \<in> set (ev # q1). mSeqCount x \<le> mLastAckedEventSeq (mSub c) + 126"
        using r(3) c1(4) False by simp
      have "n \<le> 128 \<longrightarrow> can_write bs n \<longrightarrow> can_write bs' n" using r(4) can_write_mono [OF space_left [OF 3 fits]] by blast
      then show ?thesis
        by (intro exI [of _ "ev # q1"] exI [of _ q2] exI [of _ bs'] conjI e w a) (simp add: r(1), blast)
    qed
  qed
qed

lemma notifyAllSent_user: "notifyAllSent ops evs c = Some (set_user (\<lambda>u. fold (onSent \<circ> mEvent) evs u) c)"
  by (induction evs arbitrary: c) (simp_all add: sent set_ev_same)

theorem writePacket_events:
  assumes c: "\<not> mDebugObjectSizes (mConnectionParameters c)" "class_bits c = k" and r: "roomy maxBits k bs" "stream_ok bs"
    and v: "\<forall>ev \<in> set (mUnorderedSendEventQueue (mSub c)) \<union> set (mSendEventQueue (mSub c)). valid (mEvent ev)"
  shows "\<exists>us os us' os' bs'. mUnorderedSendEventQueue (mSub c) = us @ us' \<and> mSendEventQueue (mSub c) = os @ os' \<and>
    (\<forall>ev \<in> set os. mSeqCount ev \<le> mLastAckedEventSeq (mSub c) + 126) \<and> wrote bs (event_bits k us os) bs' \<and>
    ev_writePacket ops bs note c = Some (bs', note\<lparr>noteData := us @ os\<rparr>,
      set_ev (\<lambda>s. s\<lparr>mUnorderedSendEventQueue := us', mSendEventQueue := os', mUser := fold (onSent \<circ> mEvent) (us @ os) (mUser s)\<rparr>) c)"
proof -
  have w: "wrote bs (unordered_bits k []) bs" and room: "can_write bs 2"
    using r by (auto simp: roomy_def can_write_def unordered_bits_def intro!: wrote_Nil)
  obtain us us' bs1 where u: "mUnorderedSendEventQueue (mSub c) = us @ us'" "wrote bs (unordered_bits k us) bs1" "can_write bs1 2"
      "writeUnordered ops [] bs c = Some (bs1, us, set_ev (\<lambda>s. s\<lparr>mUnorderedSendEventQueue := us'\<rparr>) c)"
    using writeUnordered_appends [OF c r(1) w refl, of 2] v room by auto
  obtain bs2 where f: "writeFlag False bs1 = Some (False, bs2)" "wrote bs (unordered_bits k us @ [False]) bs2"
    using wrote_flag [OF u(2) can_write_mono [OF u(3)], of False] by auto
  have room2: "can_write bs2 1" using u(3) wrote_room [OF u(2)] wrote_room [OF f(2)] by simp
  define c1 where "c1 = set_ev (\<lambda>s. s\<lparr>mUnorderedSendEventQueue := us'\<rparr>) c"
  have c1: "\<not> mDebugObjectSizes (mConnectionParameters c1)" "class_bits c1 = k" "mSendEventQueue (mSub c1) = mSendEventQueue (mSub c)"
      "mLastAckedEventSeq (mSub c1) = mLastAckedEventSeq (mSub c)"
    using c by (simp_all add: c1_def class_bits_def)
  have w2: "wrote bs ((unordered_bits k us @ [False]) @ ordered_bits k (- 2) []) bs2" using f(2) by simp
  obtain os os' bs3 where o: "mSendEventQueue (mSub c) = os @ os'"
      "wrote bs ((unordered_bits k us @ [False]) @ ordered_bits k (- 2) os) bs3" "can_write bs3 1"
      "\<forall>ev \<in> set os. mSeqCount ev \<le> mLastAckedEventSeq (mSub c) + 126"
      "writeOrdered ops (- 2) us bs2 c1 = Some (bs3, us @ os, set_ev (\<lambda>s. s\<lparr>mSendEventQueue := os'\<rparr>) c1)"
    using writeOrdered_appends [OF c1(1,2) r(1) w2 c1(3), of 1 us] v room2 unfolding c1(4) by (auto simp: last_seq_def)
  obtain bs4 where g: "writeFlag False bs3 = Some (False, bs4)" "wrote bs (event_bits k us os) bs4"
    using wrote_flag [OF o(2,3), of False] by (auto simp: event_bits_def)
  have "ev_writePacket ops bs note c = Some (bs4, note\<lparr>noteData := us @ os\<rparr>,
      set_user (\<lambda>u. fold (onSent \<circ> mEvent) (us @ os) u) (set_ev (\<lambda>s. s\<lparr>mSendEventQueue := os'\<rparr>) c1))"
    unfolding ev_writePacket_def using c(1) by (simp add: u(4) f(1) o(5) [unfolded c1_def] g(1) notifyAllSent_user c1_def)
  moreover have "set_user (\<lambda>u. fold (onSent \<circ> mEvent) (us @ os) u) (set_ev (\<lambda>s. s\<lparr>mSendEventQueue := os'\<rparr>) c1) =
      set_ev (\<lambda>s. s\<lparr>mUnorderedSendEventQueue := us', mSendEventQueue := os', mUser := fold (onSent \<circ> mEvent) (us @ os) (mUser s)\<rparr>) c"
    by (simp add: c1_def)
  ultimately show ?thesis using u(1) o(1,4) g(2) by metis
qed

text \<open>The connection that reads: connected, without errors, with a class number for the event and in the right direction.\<close>

definition accepts :: "('e, 'u) event_connection \<Rightarrow> 'e \<Rightarrow> bool" where
  "accepts c e \<longleftrightarrow> valid e \<and> getClassId ops e < mEventClassCount (mSub c) \<and>
     take_bit (class_bits c) (getClassId ops e) = getClassId ops e \<and> directionAllowed (mEventDirection ops e) c"

definition ready :: "('e, 'u) event_connection \<Rightarrow> bool" where
  "ready c \<longleftrightarrow> mConnectionState c = Connected \<and> mErrorBuffer c = [] \<and> \<not> mDebugObjectSizes (mConnectionParameters c) \<and> class_bits c \<le> 32"

lemma ready_set_ev [simp]: "mEventClassBitSize (f (mSub c)) = mEventClassBitSize (mSub c) \<Longrightarrow> ready (set_ev f c) = ready c"
  by (simp add: ready_def class_bits_def)

lemma accepts_set_ev [simp]:
  "mEventClassBitSize (f (mSub c)) = mEventClassBitSize (mSub c) \<Longrightarrow> mEventClassCount (f (mSub c)) = mEventClassCount (mSub c) \<Longrightarrow>
   accepts (set_ev f c) e = accepts c e"
  by (simp add: accepts_def class_bits_def directionAllowed_def isConnectionToClient_def isConnectionToServer_def)

lemma readEvent_takes:
  assumes c: "ready c" "accepts c (mEvent ev)" and r: "reads bs (payload (class_bits c) ev @ xs)"
  shows "readEvent ops bs c = Some (skip_bits (length (payload (class_bits c) ev)) bs, Some (mEvent ev), c) \<and>
    reads (skip_bits (length (payload (class_bits c) ev)) bs) xs"
proof -
  let ?k = "class_bits c" and ?w = "ucast (mEventClassBitSize (mSub c)) :: u8"
  have k: "unat ?w = ?k" "?k \<le> 32" using c(1) by (simp_all add: class_bits_def ready_def)
  have "reads bs (int_bits (unat ?w) (getClassId ops (mEvent ev)) @ bits (mEvent ev) @ xs)" using r k by (simp add: payload_def)
  from reads_int [OF this] k c(2) have 1: "readInt ?w bs = Some (getClassId ops (mEvent ev), skip_bits ?k bs)"
      "reads (skip_bits ?k bs) (bits (mEvent ev) @ xs)"
    by (simp_all add: accepts_def)
  obtain new where n: "createEvent ops (getClassId ops (mEvent ev)) = Some new" "mEventDirection ops new = mEventDirection ops (mEvent ev)"
      "\<And>bs c. can_read bs (length (bits (mEvent ev))) \<Longrightarrow> next_bits bs (length (bits (mEvent ev))) = bits (mEvent ev) \<Longrightarrow>
        unpack ops new bs c = Some (skip_bits (length (bits (mEvent ev))) bs, mEvent ev, c)"
    using created [of "mEvent ev"] c(2) by (auto simp: accepts_def)
  note 2 = reads_append [OF 1(2)]
  have "unpack ops new (skip_bits ?k bs) c = Some (skip_bits (length (bits (mEvent ev))) (skip_bits ?k bs), mEvent ev, c)"
    using 2 by (intro n(3)) (simp_all add: reads_def)
  moreover have "\<not> mEventClassCount (mSub c) \<le> getClassId ops (mEvent ev)" using c(2) by (simp add: accepts_def not_le)
  ultimately show ?thesis using 1(1) 2 n(1,2) c
    by (simp add: readEvent_def ready_def accepts_def payload_def skip_bits_skip)
qed

lemma processEvent_ready: "ready c \<Longrightarrow> processEvent ops e c = Some (set_user (onProcess e) c)"
  by (simp add: processEvent_def ready_def processed)

lemma readEvents_unordered:
  assumes "ready c" "\<forall>ev \<in> set us. accepts c (mEvent ev)" "class_bits c = k" and "reads bs (unordered_bits k us @ xs)"
  shows "readEvents ops prev w True bs c =
      readEvents ops prev w True (skip_bits (length (unordered_bits k us)) bs) (set_user (fold (onProcess \<circ> mEvent) us) c) \<and>
    reads (skip_bits (length (unordered_bits k us)) bs) xs"
  using assms
proof (induction us arbitrary: bs c)
  case Nil
  then show ?case by (simp add: unordered_bits_def set_ev_same)
next
  case (Cons ev us)
  let ?n = "length (payload k ev)"
  let ?c = "set_user (onProcess (mEvent ev)) c"
  have "reads bs (True # payload k ev @ unordered_bits k us @ xs)" using Cons.prems(4) by (simp add: unordered_bits_def)
  note 1 = reads_flag [OF this]
  have 2: "readEvent ops (skip_bits 1 bs) c = Some (skip_bits ?n (skip_bits 1 bs), Some (mEvent ev), c)"
      "reads (skip_bits ?n (skip_bits 1 bs)) (unordered_bits k us @ xs)"
    using readEvent_takes [of c ev "skip_bits 1 bs" "unordered_bits k us @ xs"] Cons.prems(1-3) 1 by auto
  have c: "mErrorBuffer ?c = []" "ready ?c" "\<forall>ev \<in> set us. accepts ?c (mEvent ev)" "class_bits ?c = k"
    using Cons.prems(1-3) by (simp_all add: ready_def class_bits_def)
  have "readEvents ops prev w True bs c = readEvents ops prev w True (skip_bits ?n (skip_bits 1 bs)) ?c"
    by (subst readEvents.simps)
      (simp only: 1 [THEN conjunct1] bind.bind_lunit prod.case simp_thms if_True if_False Let_def 2(1) option.case
        processEvent_ready [OF Cons.prems(1)] c(1) list.distinct)
  then show ?case using Cons.IH [OF c(2-4) 2(2)]
    by (simp add: unordered_bits_def skip_bits_skip add.assoc comp_def set_ev_same)
qed

lemma readEvents_switch: "reads bs (False # xs) \<Longrightarrow> readEvents ops prev w True bs c = readEvents ops prev w False (skip_bits 1 bs) c"
  using reads_flag [of bs False xs] by (subst (1 2) readEvents.simps) simp

text \<open>The sequence number of an ordered event, whose low bits the reader counts on from the last one.\<close>

lemma readSeq_takes:
  assumes r: "reads bs (seq_bits prev' seq @ xs)" and p: "prev mod 128 = prev' mod 128"
  shows "\<exists>bs'. Option.bind (readFlag bs) (\<lambda>(inOrder, bstream).
      if inOrder then Some ((prev + 1) AND 0x7f, bstream) else map_option (\<lambda>(v, bs). (uint v, bs)) (readInt 7 bstream)) =
        Some (seq mod 128, bs') \<and> bs' = skip_bits (length (seq_bits prev' seq)) bs \<and> reads bs' xs"
proof -
  have m: "x AND 0x7f = x mod 128" for x :: int using take_bit_eq_mask [of 7 x] by (simp add: take_bit_eq_mod mask_eq_exp_minus_1)
  show ?thesis
  proof (cases "seq = prev' + 1")
    case True
    have "(prev + 1) mod 128 = seq mod 128" using p mod_add_cong [OF p, of 1 1] True by simp
    then show ?thesis using reads_flag [of bs True xs] r True by (simp add: seq_bits_def m)
  next
    case False
    have 1: "readFlag bs = Some (False, skip_bits 1 bs)" "reads (skip_bits 1 bs) (int_bits (unat (7 :: u8)) (of_int seq :: u32) @ xs)"
      using reads_flag [of bs False] r False by (auto simp: seq_bits_def)
    have "uint (take_bit 7 (of_int seq :: u32)) = seq mod 128"
      unfolding unsigned_take_bit_eq by (simp add: uint_word_of_int take_bit_eq_mod mod_mod_cancel)
    then show ?thesis using 1(1) reads_int [OF 1(2)] False by (simp add: seq_bits_def skip_bits_skip)
  qed
qed

lemma readEvents_ordered:
  assumes "ready c" "\<forall>ev \<in> set os. accepts c (mEvent ev)" "class_bits c = k"
    and "\<forall>ev \<in> set os. mNextRecvEventSeq (mSub c) \<le> mSeqCount ev \<and> mSeqCount ev < mNextRecvEventSeq (mSub c) + 128"
    and "prev mod 128 = prev' mod 128" and "reads bs (ordered_bits k prev' os @ False # xs)"
  shows "readEvents ops prev w False bs c = Some (True, skip_bits (length (ordered_bits k prev' os) + 1) bs,
    set_ev (\<lambda>s. s\<lparr>mWaitSeqEvents := insertNotes os w (mWaitSeqEvents s)\<rparr>) c)"
  using assms
proof (induction os arbitrary: bs c w prev prev')
  case Nil
  note 1 = reads_flag [OF Nil.prems(6) [simplified]]
  have "set_ev (\<lambda>s. s\<lparr>mWaitSeqEvents := insertNotes [] w (mWaitSeqEvents s)\<rparr>) c = c" by (rule set_ev_same) simp
  then show ?case using 1 by (subst readEvents.simps) simp
next
  case (Cons ev os)
  let ?n = "length (payload k ev)" and ?m = "length (seq_bits prev' (mSeqCount ev))" and ?R = "mNextRecvEventSeq (mSub c)"
  let ?j = "skipBefore (mSeqCount ev) (mWaitSeqEvents (mSub c)) w"
  let ?c = "set_ev (\<lambda>s. s\<lparr>mWaitSeqEvents := insertAt ?j ev (mWaitSeqEvents s)\<rparr>) c"
  have "reads bs (True # seq_bits prev' (mSeqCount ev) @ payload k ev @ ordered_bits k (mSeqCount ev) os @ False # xs)"
    using Cons.prems(6) by simp
  note 1 = reads_flag [OF this]
  obtain bs2 where 2: "Option.bind (readFlag (skip_bits 1 bs)) (\<lambda>(inOrder, bstream).
      if inOrder then Some ((prev + 1) AND 0x7f, bstream) else map_option (\<lambda>(v, bs). (uint v, bs)) (readInt 7 bstream)) =
        Some (mSeqCount ev mod 128, bs2)" "bs2 = skip_bits ?m (skip_bits 1 bs)"
      "reads bs2 (payload k ev @ ordered_bits k (mSeqCount ev) os @ False # xs)"
    using readSeq_takes [OF 1 [THEN conjunct2] Cons.prems(5)] by blast
  have 3: "readEvent ops bs2 c = Some (skip_bits ?n bs2, Some (mEvent ev), c)"
      "reads (skip_bits ?n bs2) (ordered_bits k (mSeqCount ev) os @ False # xs)"
    using readEvent_takes [of c ev bs2] Cons.prems(1-3) 2(3) by auto
  have full: "fullEventSeq (mSeqCount ev mod 128) ?R = mSeqCount ev" using Cons.prems(4) by (intro fullEventSeq_restores) simp_all
  have note_eq: "\<lparr>mEvent = mEvent ev, mSeqCount = mSeqCount ev\<rparr> = ev" by simp
  have c: "ready ?c" "\<forall>ev \<in> set os. accepts ?c (mEvent ev)" "class_bits ?c = k"
      "\<forall>ev \<in> set os. mNextRecvEventSeq (mSub ?c) \<le> mSeqCount ev \<and> mSeqCount ev < mNextRecvEventSeq (mSub ?c) + 128"
    using Cons.prems(1-4) by (simp_all add: class_bits_def)
  have "readEvents ops prev w False bs c = readEvents ops (mSeqCount ev mod 128) (?j + 1) False (skip_bits ?n bs2) ?c"
    by (subst readEvents.simps)
      (simp only: 1 [THEN conjunct1] bind.bind_lunit prod.case simp_thms if_True if_False Let_def 2(1) 3(1) option.case full note_eq)
  also have "\<dots> = Some (True, skip_bits (length (ordered_bits k (mSeqCount ev) os) + 1) (skip_bits ?n bs2),
      set_ev (\<lambda>s. s\<lparr>mWaitSeqEvents := insertNotes os (?j + 1) (mWaitSeqEvents s)\<rparr>) ?c)"
    by (rule Cons.IH [OF c _ 3(2)]) simp
  finally show ?case by (simp add: 2(2) skip_bits_skip add.assoc Let_def)
qed

theorem readPacket_events:
  assumes c: "ready c" and us: "\<forall>ev \<in> set us \<union> set os. accepts c (mEvent ev)"
    and os: "\<forall>ev \<in> set os. mNextRecvEventSeq (mSub c) \<le> mSeqCount ev \<and> mSeqCount ev < mNextRecvEventSeq (mSub c) + 128"
    and r: "reads bs (event_bits (class_bits c) us os)"
  shows "ev_readPacket ops bs c = do {
    c' \<leftarrow> processWaiting (length (insertNotes os 0 (mWaitSeqEvents (mSub c)))) ops
      (set_ev (\<lambda>s. s\<lparr>mUser := fold (onProcess \<circ> mEvent) us (mUser s), mWaitSeqEvents := insertNotes os 0 (mWaitSeqEvents s)\<rparr>) c);
    Some (skip_bits (length (event_bits (class_bits c) us os)) bs, c') }"
proof -
  let ?k = "class_bits c" and ?u = "set_user (fold (onProcess \<circ> mEvent) us) c"
  have "reads bs (unordered_bits ?k us @ False # ordered_bits ?k (- 2) os @ [False])" using r by (simp add: event_bits_def)
  from readEvents_unordered [OF c _ refl this, of "- 2" 0] us
  have 1: "readEvents ops (- 2) 0 True bs c = readEvents ops (- 2) 0 True (skip_bits (length (unordered_bits ?k us)) bs) ?u"
    "reads (skip_bits (length (unordered_bits ?k us)) bs) (False # ordered_bits ?k (- 2) os @ [False])"
    by auto
  have u: "ready ?u" "class_bits ?u = ?k" "\<forall>ev \<in> set os. accepts ?u (mEvent ev)"
      "\<forall>ev \<in> set os. mNextRecvEventSeq (mSub ?u) \<le> mSeqCount ev \<and> mSeqCount ev < mNextRecvEventSeq (mSub ?u) + 128"
    using c us os by (simp_all add: class_bits_def)
  note 2 = readEvents_switch [OF 1(2), of "- 2" 0 ?u] reads_flag [OF 1(2)]
  have "readEvents ops (- 2) 0 True bs c = Some (True, skip_bits (length (event_bits ?k us os)) bs,
      set_ev (\<lambda>s. s\<lparr>mWaitSeqEvents := insertNotes os 0 (mWaitSeqEvents s)\<rparr>) ?u)"
    using 1(1) 2 readEvents_ordered [OF u(1,3,2,4), of "- 2" "- 2" _ "[]"] by (simp add: skip_bits_skip event_bits_def add.assoc)
  then show ?thesis using c by (simp add: ev_readPacket_def ready_def)
qed

lemma processWaiting_run:
  assumes "ready c" and "mNextRecvEventSeq (mSub c) + int (length ws) < 2 ^ 31"
    and "mWaitSeqEvents (mSub c) = ws @ rest" and "map mSeqCount ws = map (\<lambda>i. mNextRecvEventSeq (mSub c) + int i) [0..<length ws]"
    and "rest \<noteq> [] \<longrightarrow> mSeqCount (hd rest) \<noteq> mNextRecvEventSeq (mSub c) + int (length ws)" and "length (ws @ rest) \<le> n"
  shows "processWaiting n ops c = Some (set_ev (\<lambda>s. s\<lparr>mNextRecvEventSeq := mNextRecvEventSeq s + int (length ws),
    mWaitSeqEvents := rest, mUser := fold (onProcess \<circ> mEvent) ws (mUser s)\<rparr>) c)"
  using assms
proof (induction ws arbitrary: n c)
  case Nil
  have "set_ev (\<lambda>s. s\<lparr>mNextRecvEventSeq := mNextRecvEventSeq s + int (length []), mWaitSeqEvents := rest, mUser := fold (onProcess \<circ> mEvent) [] (mUser s)\<rparr>) c = c"
    using Nil.prems(3) by (intro set_ev_same) (cases "mSub c"; simp)
  then show ?case using Nil.prems by (cases n; cases rest) auto
next
  case (Cons w ws)
  obtain m where n: "n = Suc m" using Cons.prems(6) by (cases n) simp_all
  let ?R = "mNextRecvEventSeq (mSub c)"
  have u: "[0..<length (w # ws)] = 0 # map Suc [0..<length ws]" by (simp add: map_Suc_upt upt_conv_Cons del: upt_Suc)
  have w: "mSeqCount w = ?R" "map mSeqCount ws = map (\<lambda>i. ?R + 1 + int i) [0..<length ws]"
    using Cons.prems(4) unfolding u by (simp_all add: comp_def add.assoc)
  let ?c = "set_ev (\<lambda>s. s\<lparr>mNextRecvEventSeq := ?R + 1, mWaitSeqEvents := ws @ rest, mUser := onProcess (mEvent w) (mUser s)\<rparr>) c"
  let ?d = "set_ev (\<lambda>s. s\<lparr>mNextRecvEventSeq := ?R + 1, mWaitSeqEvents := ws @ rest\<rparr>) c"
  have r0: "ready ?d" using Cons.prems(1) by (simp add: ready_def class_bits_def)
  have 1: "processEvent ops (mEvent w) ?d = Some ?c" unfolding processEvent_ready [OF r0] by simp
  have "mErrorBuffer ?c = []" using Cons.prems(1) by (simp add: ready_def)
  then have "processWaiting n ops c = processWaiting m ops ?c"
    using Cons.prems(2,3) w(1) 1 by (simp add: n inc_s32_def)
  also have "\<dots> = Some (set_ev (\<lambda>s. s\<lparr>mNextRecvEventSeq := mNextRecvEventSeq s + int (length ws), mWaitSeqEvents := rest,
      mUser := fold (onProcess \<circ> mEvent) ws (mUser s)\<rparr>) ?c)"
    using Cons.prems w(2) n by (intro Cons.IH) (simp_all add: add.assoc ready_def class_bits_def)
  finally show ?case by (simp add: add.assoc comp_def)
qed

subsection \<open>Notifications\<close>

abbreviation ordered :: "'e event_note \<Rightarrow> bool" where
  "ordered ev \<equiv> mGuaranteeType ops (mEvent ev) = GuaranteedOrdered"

abbreviation guaranteed :: "'e event_note \<Rightarrow> bool" where
  "guaranteed ev \<equiv> mGuaranteeType ops (mEvent ev) = Guaranteed"

abbreviation unguaranteed :: "'e event_note \<Rightarrow> bool" where
  "unguaranteed ev \<equiv> mGuaranteeType ops (mEvent ev) = Unguaranteed"

text \<open>A dropped packet: ordered events back into the queue by number, guaranteed ones to the front, the others reported lost.\<close>

lemma dropEvents_run:
  "dropEvents ops evs k c = Some (set_ev (\<lambda>s. s\<lparr>mSendEventQueue := insertNotes (filter ordered evs) k (mSendEventQueue s),
     mUnorderedSendEventQueue := rev (filter guaranteed evs) @ mUnorderedSendEventQueue s,
     mUser := fold (\<lambda>ev. onDelivered (mEvent ev) False) (filter unguaranteed evs) (mUser s)\<rparr>) c)"
proof (induction evs arbitrary: k c)
  case Nil
  show ?case by (simp add: set_ev_same)
next
  case (Cons ev evs)
  then show ?case by (cases "mGuaranteeType ops (mEvent ev)") (simp_all add: Let_def delivered)
qed

lemma receiveEvents_run:
  "receiveEvents ops evs k c = Some (set_ev (\<lambda>s. s\<lparr>mNotifyEventList := insertNotes (filter ordered evs) k (mNotifyEventList s),
     mUser := fold (\<lambda>ev. onDelivered (mEvent ev) True) (filter (\<lambda>ev. \<not> ordered ev) evs) (mUser s)\<rparr>) c)"
  by (induction evs arbitrary: k c) (simp_all add: Let_def delivered set_ev_same)

lemma notifyInOrder_run:
  assumes "mLastAckedEventSeq (mSub c) + int (length ns) + 1 < 2 ^ 31"
    and "mNotifyEventList (mSub c) = ns @ rest" and "map mSeqCount ns = map (\<lambda>i. mLastAckedEventSeq (mSub c) + 1 + int i) [0..<length ns]"
    and "rest \<noteq> [] \<longrightarrow> mSeqCount (hd rest) \<noteq> mLastAckedEventSeq (mSub c) + 1 + int (length ns)" and "length (ns @ rest) \<le> n"
  shows "notifyInOrder n ops c = Some (set_ev (\<lambda>s. s\<lparr>mLastAckedEventSeq := mLastAckedEventSeq s + int (length ns),
    mNotifyEventList := rest, mUser := fold (\<lambda>ev. onDelivered (mEvent ev) True) ns (mUser s)\<rparr>) c)"
  using assms
proof (induction ns arbitrary: n c)
  case Nil
  have "set_ev (\<lambda>s. s\<lparr>mLastAckedEventSeq := mLastAckedEventSeq s + int (length []), mNotifyEventList := rest,
      mUser := fold (\<lambda>ev. onDelivered (mEvent ev) True) [] (mUser s)\<rparr>) c = c"
    using Nil.prems(2) by (intro set_ev_same) (cases "mSub c"; simp)
  then show ?case using Nil.prems by (cases n; cases rest) auto
next
  case (Cons w ns)
  obtain m where n: "n = Suc m" using Cons.prems(5) by (cases n) simp_all
  let ?L = "mLastAckedEventSeq (mSub c)"
  have u: "[0..<length (w # ns)] = 0 # map Suc [0..<length ns]" by (simp add: map_Suc_upt upt_conv_Cons del: upt_Suc)
  have w: "mSeqCount w = ?L + 1" "map mSeqCount ns = map (\<lambda>i. ?L + 1 + 1 + int i) [0..<length ns]"
    using Cons.prems(3) unfolding u by (simp_all add: comp_def add.assoc)
  let ?c = "set_ev (\<lambda>s. s\<lparr>mLastAckedEventSeq := ?L + 1, mUser := onDelivered (mEvent w) True (mUser s), mNotifyEventList := ns @ rest\<rparr>) c"
  have "notifyInOrder n ops c = notifyInOrder m ops ?c"
    using Cons.prems(1,2) w(1) by (simp add: n inc_s32_def delivered)
  also have "\<dots> = Some (set_ev (\<lambda>s. s\<lparr>mLastAckedEventSeq := mLastAckedEventSeq s + int (length ns), mNotifyEventList := rest,
      mUser := fold (\<lambda>ev. onDelivered (mEvent ev) True) ns (mUser s)\<rparr>) ?c)"
    using Cons.prems w(2) n by (intro Cons.IH) (simp_all add: add.assoc)
  finally show ?case by (simp add: add.assoc)
qed

end

end
