(* ===== verification/Event_Order.thy ===== *)
theory Event_Order
  imports Event_Codec
begin

text \<open>
  The order of events by their sequence numbers: the insertion loops keep lists sorted, and the numbers of the ordered events
  between two ends, wherever they are, move as the operations of the connection move them.
\<close>

section \<open>Lists in order of their sequence numbers\<close>

definition in_order :: "'e event_note list \<Rightarrow> bool" where
  "in_order q \<longleftrightarrow> sorted_wrt (\<lambda>a b. mSeqCount a < mSeqCount b) q"

lemma in_order_simps [simp]:
  "in_order []" "in_order (x # q) \<longleftrightarrow> (\<forall>y \<in> set q. mSeqCount x < mSeqCount y) \<and> in_order q"
  by (simp_all add: in_order_def)

lemma in_order_append:
  "in_order (p @ q) \<longleftrightarrow> in_order p \<and> in_order q \<and> (\<forall>x \<in> set p. \<forall>y \<in> set q. mSeqCount x < mSeqCount y)"
  by (simp add: in_order_def sorted_wrt_append)

lemma in_order_dropWhile: "in_order q \<Longrightarrow> y \<in> set (dropWhile (\<lambda>n. mSeqCount n < s) q) \<Longrightarrow> s \<le> mSeqCount y"
  by (induction q) (fastforce split: if_splits)+

lemma skipBefore_split:
  assumes "in_order q" and "k \<le> length q" and "\<forall>y \<in> set (take k q). mSeqCount y < s"
  shows "\<exists>a b. q = a @ b \<and> skipBefore s q k = length a \<and> (\<forall>y \<in> set a. mSeqCount y < s) \<and> (\<forall>y \<in> set b. s \<le> mSeqCount y)"
proof (intro exI conjI)
  let ?a = "take k q @ takeWhile (\<lambda>n. mSeqCount n < s) (drop k q)" and ?b = "dropWhile (\<lambda>n. mSeqCount n < s) (drop k q)"
  show "q = ?a @ ?b" by simp
  show "skipBefore s q k = length ?a" using assms(2) by (simp add: skipBefore_def)
  show "\<forall>y \<in> set ?a. mSeqCount y < s" using assms(3) by (auto dest: set_takeWhileD)
  have "in_order (drop k q)" using assms(1) by (metis append_take_drop_id in_order_append)
  then show "\<forall>y \<in> set ?b. s \<le> mSeqCount y" using in_order_dropWhile by blast
qed

lemma insertNotes_in_order:
  "in_order q \<Longrightarrow> in_order xs \<Longrightarrow> k \<le> length q \<Longrightarrow> \<forall>y \<in> set (take k q). \<forall>x \<in> set xs. mSeqCount y < mSeqCount x \<Longrightarrow>
   mSeqCount ` set xs \<inter> mSeqCount ` set q = {} \<Longrightarrow>
   in_order (insertNotes xs k q) \<and> mset (insertNotes xs k q) = mset xs + mset q"
proof (induction xs arbitrary: k q)
  case (Cons x xs)
  obtain a b where q: "q = a @ b" "skipBefore (mSeqCount x) q k = length a" "\<forall>y \<in> set a. mSeqCount y < mSeqCount x"
      "\<forall>y \<in> set b. mSeqCount x \<le> mSeqCount y"
    using skipBefore_split [of q k "mSeqCount x"] Cons.prems by auto
  have b: "\<forall>y \<in> set b. mSeqCount x < mSeqCount y" using q(1,4) Cons.prems(5) by force
  let ?q = "a @ x # b"
  have "in_order ?q" using Cons.prems(1) q(3) b unfolding q(1) in_order_append by auto
  moreover have "\<forall>y \<in> set (take (length a + 1) ?q). \<forall>z \<in> set xs. mSeqCount y < mSeqCount z"
    using Cons.prems(2) q(3) by fastforce
  moreover have "mSeqCount ` set xs \<inter> mSeqCount ` set ?q = {}" using Cons.prems(2,5) q(1) by fastforce
  ultimately have "in_order (insertNotes xs (length a + 1) ?q) \<and> mset (insertNotes xs (length a + 1) ?q) = mset xs + mset ?q"
    using Cons.prems(2) by (intro Cons.IH) simp_all
  then show ?case using q(1,2) by (simp add: insertAt_def Let_def)
qed simp

lemma insertNotes_sorted:
  assumes "in_order q" "in_order xs" "mSeqCount ` set xs \<inter> mSeqCount ` set q = {}"
  shows "in_order (insertNotes xs 0 q)" "mset (insertNotes xs 0 q) = mset xs + mset q" "set (insertNotes xs 0 q) = set xs \<union> set q"
proof -
  show 1: "in_order (insertNotes xs 0 q)" "mset (insertNotes xs 0 q) = mset xs + mset q"
    using insertNotes_in_order [of q xs 0] assms by simp_all
  show "set (insertNotes xs 0 q) = set xs \<union> set q" using arg_cong [OF 1(2), of set_mset] by simp
qed

text \<open>The events at the head of a list whose turn has come.\<close>

lemma next_run:
  "in_order q \<Longrightarrow> \<forall>x \<in> set q. n \<le> mSeqCount x \<Longrightarrow>
   \<exists>a b. q = a @ b \<and> map mSeqCount a = map (\<lambda>i. n + int i) [0..<length a] \<and> (\<forall>x \<in> set b. n + int (length a) < mSeqCount x)"
proof (induction q arbitrary: n)
  case (Cons x q)
  show ?case
  proof (cases "mSeqCount x = n")
    case True
    have "\<forall>y \<in> set q. n + 1 \<le> mSeqCount y" using Cons.prems(1) True by fastforce
    from Cons.IH [OF _ this] Cons.prems(1) obtain a b where ab: "q = a @ b"
        "map mSeqCount a = map (\<lambda>i. n + 1 + int i) [0..<length a]" "\<forall>x \<in> set b. n + 1 + int (length a) < mSeqCount x"
      by auto
    have u: "[0..<length (x # a)] = 0 # map Suc [0..<length a]" by (simp add: map_Suc_upt upt_conv_Cons del: upt_Suc)
    have "map mSeqCount (x # a) = map (\<lambda>i. n + int i) [0..<length (x # a)]"
      unfolding u using True ab(2) by (simp add: comp_def add.assoc)
    then show ?thesis using ab(1,3) by (intro exI [of _ "x # a"] exI [of _ b]) (simp add: add.assoc)
  next
    case False
    then show ?thesis using Cons.prems by (intro exI [of _ "[]"] exI [of _ "x # q"]) fastforce
  qed
qed simp

lemma seqs_of_run: "map mSeqCount a = map (\<lambda>i. n + int i) [0..<length a] \<Longrightarrow> mSeqCount ` set a = {n..<n + int (length a)}"
proof -
  assume m: "map mSeqCount a = map (\<lambda>i. n + int i) [0..<length a]"
  have "mSeqCount ` set a = (\<lambda>i. n + int i) ` {0..<length a}" using arg_cong [OF m, of set] by simp
  also have "\<dots> = {n..<n + int (length a)}"
  proof
    show "{n..<n + int (length a)} \<subseteq> (\<lambda>i. n + int i) ` {0..<length a}"
    proof
      fix x assume "x \<in> {n..<n + int (length a)}"
      then show "x \<in> (\<lambda>i. n + int i) ` {0..<length a}" by (intro image_eqI [of _ _ "nat (x - n)"]) auto
    qed
  qed auto
  finally show ?thesis .
qed

section \<open>The invariant of the ordered events\<close>

datatype fate = Pending | Arrived | Lost

text \<open>
  \<open>P\<close>: the ordered events posted; \<open>Q\<close>: the send queue; \<open>A\<close>: arrived, but waiting for an earlier one to be reported; \<open>L\<close>: the last one
  reported; \<open>F\<close>: fates and ordered notes of the packets under way; \<open>W\<close>: the events that wait at the receiver; \<open>R\<close>: the
  next one it will process. Every number between \<open>L\<close> and the next is in one place on the sending side, and the receiver
  has exactly the events of packets that arrived.
\<close>

definition arrived :: "(fate \<times> 'e event_note list) list \<Rightarrow> 'e event_note list" where
  "arrived F = concat (map snd (filter (\<lambda>p. fst p = Arrived) F))"

definition unreported :: "'e event_note list \<Rightarrow> (fate \<times> 'e event_note list) list \<Rightarrow> 'e event_note list \<Rightarrow> 'e event_note list" where
  "unreported Q F A = Q @ concat (map snd F) @ A"

definition event_order ::
  "'e list \<Rightarrow> 'e event_note list \<Rightarrow> 'e event_note list \<Rightarrow> int \<Rightarrow> (fate \<times> 'e event_note list) list \<Rightarrow> 'e event_note list \<Rightarrow> int \<Rightarrow> bool" where
  "event_order P Q A L F W R \<longleftrightarrow>
     - 1 \<le> L \<and> L < R \<and> R \<le> int (length P) \<and> in_order Q \<and> in_order A \<and> in_order W \<and>
     (\<forall>p \<in> set F. in_order (snd p) \<and> (\<forall>x \<in> set (snd p). mSeqCount x \<le> L + 126)) \<and>
     (\<forall>x \<in> set (unreported Q F A) \<union> set W. 0 \<le> mSeqCount x \<and> mSeqCount x < int (length P) \<and> mEvent x = P ! nat (mSeqCount x)) \<and>
     distinct (map mSeqCount (unreported Q F A)) \<and> mSeqCount ` set (unreported Q F A) = {L + 1..<int (length P)} \<and>
     (\<forall>x \<in> set W. R < mSeqCount x) \<and>
     {0..<R} \<union> mSeqCount ` set W = {0..L} \<union> mSeqCount ` set A \<union> mSeqCount ` set (arrived F)"

lemma event_orderD:
  assumes "event_order P Q A L F W R"
  shows "- 1 \<le> L" "L < R" "R \<le> int (length P)" "in_order Q" "in_order A" "in_order W"
    "\<forall>p \<in> set F. in_order (snd p) \<and> (\<forall>x \<in> set (snd p). mSeqCount x \<le> L + 126)"
    "\<forall>x \<in> set (unreported Q F A) \<union> set W. 0 \<le> mSeqCount x \<and> mSeqCount x < int (length P) \<and> mEvent x = P ! nat (mSeqCount x)"
    "distinct (map mSeqCount (unreported Q F A))" "mSeqCount ` set (unreported Q F A) = {L + 1..<int (length P)}"
    "\<forall>x \<in> set W. R < mSeqCount x"
    "{0..<R} \<union> mSeqCount ` set W = {0..L} \<union> mSeqCount ` set A \<union> mSeqCount ` set (arrived F)"
  using assms unfolding event_order_def by - (elim conjE, assumption)+

lemma unreported_perm:
  "mset (unreported Q F A) = mset (unreported Q' F' A') \<Longrightarrow>
   set (unreported Q F A) = set (unreported Q' F' A') \<and> distinct (map mSeqCount (unreported Q F A)) = distinct (map mSeqCount (unreported Q' F' A'))"
  using mset_eq_setD [of "unreported Q F A"] by (metis mset_map mset_eq_imp_distinct_iff)

lemma arrived_simps [simp]:
  "arrived (F @ G) = arrived F @ arrived G" "arrived [] = []"
  "arrived ((Arrived, os) # F) = os @ arrived F" "arrived ((Lost, os) # F) = arrived F" "arrived ((Pending, os) # F) = arrived F"
  by (simp_all add: arrived_def)

lemma order_start: "event_order [] [] [] (- 1) [] [] 0"
  by (simp add: event_order_def unreported_def)

lemma order_post:
  assumes "event_order P Q A L F W R"
  shows "event_order (P @ [e]) (Q @ [\<lparr>mEvent = e, mSeqCount = int (length P)\<rparr>]) A L F W R"
proof -
  let ?n = "\<lparr>mEvent = e, mSeqCount = int (length P)\<rparr>" and ?U = "unreported Q F A"
  have m: "mset (unreported (Q @ [?n]) F A) = mset (?n # ?U)" by (simp add: unreported_def)
  have U: "set (unreported (Q @ [?n]) F A) = insert ?n (set ?U)" "distinct (map mSeqCount (unreported (Q @ [?n]) F A)) = distinct (map mSeqCount (?n # ?U))"
    using mset_eq_setD [OF m] m by (simp, metis mset_map mset_eq_imp_distinct_iff)
  have old: "0 \<le> mSeqCount x" "mSeqCount x < int (length P)" "mEvent x = P ! nat (mSeqCount x)" if "x \<in> set ?U \<union> set W" for x
    using assms that unfolding event_order_def by blast+
  have new: "mEvent x = (P @ [e]) ! nat (mSeqCount x)" if "x \<in> set ?U \<union> set W" for x
  proof -
    have "nat (mSeqCount x) < length P" using old(1,2) [OF that] by linarith
    then show ?thesis using old(3) [OF that] by (simp add: nth_append)
  qed
  have range: "insert (int (length P)) {L + 1..<int (length P)} = {L + 1..<int (length (P @ [e]))}"
    using assms by (auto simp: event_order_def)
  have img: "mSeqCount ` set ?U = {L + 1..<int (length P)}" using assms by (simp add: event_order_def)
  have "in_order (Q @ [?n])"
    using assms old(2) by (auto simp: in_order_append event_order_def unreported_def)
  moreover have "distinct (map mSeqCount (?n # ?U))" using assms img by (auto simp: event_order_def)
  moreover have "mSeqCount ` set (unreported (Q @ [?n]) F A) = {L + 1..<int (length (P @ [e]))}"
    unfolding U(1) using img range by simp
  moreover have "\<forall>x \<in> set (unreported (Q @ [?n]) F A) \<union> set W.
      0 \<le> mSeqCount x \<and> mSeqCount x < int (length (P @ [e])) \<and> mEvent x = (P @ [e]) ! nat (mSeqCount x)"
    unfolding U(1) using old new by (force simp: nth_append)
  ultimately show ?thesis using assms unfolding event_order_def U(2) by simp
qed

lemma order_send:
  assumes "event_order P (os @ os') A L F W R" and "\<forall>x \<in> set os. mSeqCount x \<le> L + 126"
  shows "event_order P os' A L (F @ [(Pending, os)]) W R"
proof -
  have m: "mset (unreported os' (F @ [(Pending, os)]) A) = mset (unreported (os @ os') F A)" by (simp add: unreported_def ac_simps)
  show ?thesis using assms unreported_perm [OF m] by (simp add: event_order_def in_order_append)
qed

lemma order_lose: "event_order P Q A L (F1 @ (Pending, os) # F2) W R \<Longrightarrow> event_order P Q A L (F1 @ (Lost, os) # F2) W R"
  by (simp add: event_order_def unreported_def)

lemma order_nacked:
  assumes "event_order P Q A L (F1 @ (Lost, os) # F2) W R"
  shows "event_order P (insertNotes os 0 Q) A L (F1 @ F2) W R"
proof -
  have d: "distinct (map mSeqCount (unreported Q (F1 @ (Lost, os) # F2) A))" "in_order Q" "in_order os"
    using assms by (simp_all add: event_order_def)
  then have "mSeqCount ` set os \<inter> mSeqCount ` set Q = {}" by (auto simp: unreported_def)
  note i = insertNotes_sorted [OF d(2,3) this]
  have m: "mset (unreported (insertNotes os 0 Q) (F1 @ F2) A) = mset (unreported Q (F1 @ (Lost, os) # F2) A)"
    by (simp add: unreported_def i(2) ac_simps)
  show ?thesis using assms i(1) unreported_perm [OF m] by (simp add: event_order_def)
qed

lemma distinct_parts:
  assumes "distinct (map mSeqCount (unreported Q (F1 @ (f, os) # F2) A))"
  shows "mSeqCount ` set os \<inter> mSeqCount ` set Q = {}" "mSeqCount ` set os \<inter> mSeqCount ` set A = {}"
    "mSeqCount ` set os \<inter> mSeqCount ` set (arrived (F1 @ F2)) = {}"
proof -
  have "set (arrived (F1 @ F2)) \<subseteq> set (concat (map snd (F1 @ F2)))" by (auto simp: arrived_def)
  moreover have "mSeqCount ` set os \<inter> mSeqCount ` (set Q \<union> set (concat (map snd (F1 @ F2))) \<union> set A) = {}"
  proof -
    have "distinct (map g (a @ b @ c)) \<Longrightarrow> g ` set b \<inter> g ` (set a \<union> set c) = {}" for g :: "'a event_note \<Rightarrow> int" and a b c by auto
    from this [of mSeqCount "Q @ concat (map snd F1)" os "concat (map snd F2) @ A"] assms
    have "mSeqCount ` set os \<inter> mSeqCount ` (set (Q @ concat (map snd F1)) \<union> set (concat (map snd F2) @ A)) = {}"
      by (simp add: unreported_def)
    moreover have "set Q \<union> set (concat (map snd (F1 @ F2))) \<union> set A = set (Q @ concat (map snd F1)) \<union> set (concat (map snd F2) @ A)"
      by (simp add: Un_ac)
    ultimately show ?thesis by (simp only:)
  qed
  ultimately show "mSeqCount ` set os \<inter> mSeqCount ` set Q = {}" "mSeqCount ` set os \<inter> mSeqCount ` set A = {}"
      "mSeqCount ` set os \<inter> mSeqCount ` set (arrived (F1 @ F2)) = {}"
    by blast+
qed

text \<open>A packet arrives: the numbers of its events are within 128 of the receiver's, none was there before, and those whose turn has come are processed.\<close>

lemma order_deliver:
  assumes o: "event_order P Q A L (F1 @ (Pending, os) # F2) W R"
  shows "(\<forall>x \<in> set os. R \<le> mSeqCount x \<and> mSeqCount x < R + 128) \<and>
    (\<exists>ws rest. insertNotes os 0 W = ws @ rest \<and> map mSeqCount ws = map (\<lambda>i. R + int i) [0..<length ws] \<and>
      (rest \<noteq> [] \<longrightarrow> mSeqCount (hd rest) \<noteq> R + int (length ws)) \<and> R + int (length ws) \<le> int (length P) \<and>
      map mEvent ws = take (length ws) (drop (nat R) P) \<and>
      event_order P Q A L (F1 @ (Arrived, os) # F2) rest (R + int (length ws)))"
proof -
  let ?F = "F1 @ (Pending, os) # F2" and ?U = "unreported Q (F1 @ (Pending, os) # F2) A"
  note f = event_orderD [OF o]
  have d: "distinct (map mSeqCount ?U)" and img: "mSeqCount ` set ?U = {L + 1..<int (length P)}"
    and got: "{0..<R} \<union> mSeqCount ` set W = {0..L} \<union> mSeqCount ` set A \<union> mSeqCount ` set (arrived (F1 @ F2))"
    and LR: "L < R" "- 1 \<le> L" "R \<le> int (length P)" and W: "in_order W" "\<forall>x \<in> set W. R < mSeqCount x"
    using f by simp_all
  have osU: "set os \<subseteq> set ?U" by (auto simp: unreported_def)
  have os: "in_order os" "\<forall>x \<in> set os. mSeqCount x \<le> L + 126" using f(7) by simp_all
  have gt: "L < mSeqCount x" if "x \<in> set os" for x
  proof -
    have "mSeqCount x \<in> {L + 1..<int (length P)}" using img osU that by blast
    then show ?thesis by simp
  qed
  have new: "mSeqCount ` set os \<inter> ({0..<R} \<union> mSeqCount ` set W) = {}"
  proof -
    have "mSeqCount ` set os \<inter> {0..L} = {}" using gt by fastforce
    then show ?thesis unfolding got using distinct_parts(2,3) [OF d] by blast
  qed
  have ge: "R \<le> mSeqCount x" if "x \<in> set os" for x
  proof (rule ccontr)
    assume "\<not> R \<le> mSeqCount x"
    then have "mSeqCount x \<in> {0..<R}" using gt [OF that] LR(2) by simp
    then show False using new that by blast
  qed
  have W1: "in_order (insertNotes os 0 W)" "mset (insertNotes os 0 W) = mset os + mset W" "set (insertNotes os 0 W) = set os \<union> set W"
    using insertNotes_sorted [OF W(1) os(1)] new by blast+
  have all: "\<forall>x \<in> set (insertNotes os 0 W). R \<le> mSeqCount x" unfolding W1(3) using ge W(2) by fastforce
  obtain ws rest where r: "insertNotes os 0 W = ws @ rest" "map mSeqCount ws = map (\<lambda>i. R + int i) [0..<length ws]"
      "\<forall>x \<in> set rest. R + int (length ws) < mSeqCount x"
    using next_run [OF W1(1) all] by blast
  note run = seqs_of_run [OF r(2)]
  have sub: "set ws \<union> set rest = set os \<union> set W" using W1(3) r(1) by simp
  have val: "mSeqCount x < int (length P) \<and> mEvent x = P ! nat (mSeqCount x)" if "x \<in> set ws \<union> set rest" for x
    using f(8) osU that unfolding sub by blast
  have R': "R + int (length ws) \<le> int (length P)"
  proof (cases "ws = []")
    case False
    then have "R + int (length ws) - 1 \<in> {R..<R + int (length ws)}" by simp
    then obtain x where "x \<in> set ws" "mSeqCount x = R + int (length ws) - 1" unfolding run [symmetric] by auto
    then show ?thesis using val by fastforce
  qed (use LR in simp)
  have ev: "map mEvent ws = take (length ws) (drop (nat R) P)"
  proof (rule nth_equalityI)
    show "length (map mEvent ws) = length (take (length ws) (drop (nat R) P))" using R' LR by simp
    fix i assume i: "i < length (map mEvent ws)"
    have "mSeqCount (ws ! i) = R + int i" using arg_cong [OF r(2), of "\<lambda>l. l ! i"] i by simp
    then have "mEvent (ws ! i) = P ! nat (R + int i)" using val [of "ws ! i"] i by simp
    then show "map mEvent ws ! i = take (length ws) (drop (nat R) P) ! i" using i LR R' by (simp add: nat_add_distrib)
  qed
  have upto: "{0..<R + int (length ws)} = {0..<R} \<union> mSeqCount ` set ws" unfolding run using LR by auto
  have m: "mset (unreported Q (F1 @ (Arrived, os) # F2) A) = mset ?U" by (simp add: unreported_def)
  have "{0..<R + int (length ws)} \<union> mSeqCount ` set rest = ({0..<R} \<union> mSeqCount ` set W) \<union> mSeqCount ` set os"
    unfolding upto using sub by (metis (no_types, lifting) Un_assoc Un_commute image_Un)
  also have "\<dots> = {0..L} \<union> mSeqCount ` set A \<union> mSeqCount ` set (arrived (F1 @ (Arrived, os) # F2))"
    unfolding got by (auto simp: image_Un)
  finally have got': "{0..<R + int (length ws)} \<union> mSeqCount ` set rest =
      {0..L} \<union> mSeqCount ` set A \<union> mSeqCount ` set (arrived (F1 @ (Arrived, os) # F2))" .
  have "in_order rest" using W1(1) r(1) by (simp add: in_order_append)
  moreover have "\<forall>x \<in> set (unreported Q (F1 @ (Arrived, os) # F2) A) \<union> set rest.
      0 \<le> mSeqCount x \<and> mSeqCount x < int (length P) \<and> mEvent x = P ! nat (mSeqCount x)"
    using f(8) osU sub unfolding unreported_perm [OF m, THEN conjunct1] by blast
  moreover have "\<forall>p \<in> set (F1 @ (Arrived, os) # F2). in_order (snd p) \<and> (\<forall>x \<in> set (snd p). mSeqCount x \<le> L + 126)"
    using f(7) by simp
  ultimately have "event_order P Q A L (F1 @ (Arrived, os) # F2) rest (R + int (length ws))"
    unfolding event_order_def unreported_perm [OF m, THEN conjunct1] unreported_perm [OF m, THEN conjunct2]
    using f R' LR r(3) got' by simp
  moreover have "rest \<noteq> [] \<longrightarrow> mSeqCount (hd rest) \<noteq> R + int (length ws)" using r(3) by (cases rest) auto
  moreover have "\<forall>x \<in> set os. R \<le> mSeqCount x \<and> mSeqCount x < R + 128" using ge os(2) LR(1) by fastforce
  ultimately show ?thesis using r(1,2) R' ev by blast
qed

text \<open>A packet is reported as received: its events wait for the earlier ones, and are reported in order.\<close>

lemma order_acked:
  assumes o: "event_order P Q A L (F1 @ (Arrived, os) # F2) W R"
  shows "\<exists>ns rest. insertNotes os 0 A = ns @ rest \<and> map mSeqCount ns = map (\<lambda>i. L + 1 + int i) [0..<length ns] \<and>
      (rest \<noteq> [] \<longrightarrow> mSeqCount (hd rest) \<noteq> L + 1 + int (length ns)) \<and> L + int (length ns) < int (length P) \<and>
      event_order P Q rest (L + int (length ns)) (F1 @ F2) W R"
proof -
  let ?U = "unreported Q (F1 @ (Arrived, os) # F2) A"
  note f = event_orderD [OF o]
  have d: "distinct (map mSeqCount ?U)" and img: "mSeqCount ` set ?U = {L + 1..<int (length P)}"
    and got: "{0..<R} \<union> mSeqCount ` set W = {0..L} \<union> mSeqCount ` set A \<union> mSeqCount ` set os \<union> mSeqCount ` set (arrived (F1 @ F2))"
    and LR: "L < R" "- 1 \<le> L" "R \<le> int (length P)" and A: "in_order A" "in_order os" and W: "\<forall>x \<in> set W. R < mSeqCount x"
    using f by (simp_all add: image_Un Un_assoc Un_left_commute)
  note A1 = insertNotes_sorted [OF A distinct_parts(2) [OF d]]
  let ?A = "insertNotes os 0 A"
  have m: "mset (unreported Q (F1 @ F2) ?A) = mset ?U" by (simp add: unreported_def A1(2) ac_simps)
  note U = unreported_perm [OF m]
  have all: "\<forall>x \<in> set ?A. L + 1 \<le> mSeqCount x"
  proof
    fix x assume "x \<in> set ?A"
    then have "mSeqCount x \<in> mSeqCount ` set ?U" unfolding U [THEN conjunct1, symmetric] by (simp add: unreported_def)
    then show "L + 1 \<le> mSeqCount x" unfolding img by simp
  qed
  obtain ns rest where r: "?A = ns @ rest" "map mSeqCount ns = map (\<lambda>i. L + 1 + int i) [0..<length ns]"
      "\<forall>x \<in> set rest. L + 1 + int (length ns) < mSeqCount x"
    using next_run [OF A1(1) all] by blast
  note run = seqs_of_run [OF r(2)]
  have sub: "mSeqCount ` set ns \<union> mSeqCount ` set rest = mSeqCount ` set A \<union> mSeqCount ` set os"
    using A1(3) r(1) by (metis Un_commute image_Un set_append)
  have upto: "{0..L + int (length ns)} = {0..L} \<union> mSeqCount ` set ns" unfolding run using LR by auto
  have got': "{0..<R} \<union> mSeqCount ` set W = {0..L + int (length ns)} \<union> mSeqCount ` set rest \<union> mSeqCount ` set (arrived (F1 @ F2))"
    unfolding got upto using sub by blast
  have "R \<notin> {0..<R} \<union> mSeqCount ` set W" using W by auto
  then have LR': "L + int (length ns) < R" using LR unfolding got' by auto
  have dA: "distinct (map mSeqCount (unreported Q (F1 @ F2) (ns @ rest)))"
    and iA: "mSeqCount ` set (unreported Q (F1 @ F2) (ns @ rest)) = {L + 1..<int (length P)}"
    using U d img r(1) by simp_all
  have m2: "mset (unreported Q (F1 @ F2) (ns @ rest)) = mset (ns @ unreported Q (F1 @ F2) rest)"
    by (simp add: unreported_def ac_simps)
  have d2: "distinct (map mSeqCount (ns @ unreported Q (F1 @ F2) rest))" and s2: "set (unreported Q (F1 @ F2) (ns @ rest)) = set ns \<union> set (unreported Q (F1 @ F2) rest)"
    using dA m2 mset_eq_setD [OF m2] by (metis mset_map mset_eq_imp_distinct_iff, simp)
  have "mSeqCount ` set (unreported Q (F1 @ F2) rest) = {L + 1..<int (length P)} - mSeqCount ` set ns"
    using d2 unfolding iA [symmetric] s2 by auto
  also have "\<dots> = {L + int (length ns) + 1..<int (length P)}" unfolding run by auto
  finally have i2: "mSeqCount ` set (unreported Q (F1 @ F2) rest) = {L + int (length ns) + 1..<int (length P)}" .
  have "\<forall>x \<in> set (unreported Q (F1 @ F2) rest) \<union> set W.
      0 \<le> mSeqCount x \<and> mSeqCount x < int (length P) \<and> mEvent x = P ! nat (mSeqCount x)"
    using f(8) unfolding U [THEN conjunct1, symmetric] r(1) s2 by blast
  moreover have "in_order rest" using A1(1) r(1) by (simp add: in_order_append)
  moreover have "\<forall>p \<in> set (F1 @ F2). in_order (snd p) \<and> (\<forall>x \<in> set (snd p). mSeqCount x \<le> L + int (length ns) + 126)"
    using f(7) by fastforce
  moreover have "distinct (map mSeqCount (unreported Q (F1 @ F2) rest))" using d2 by simp
  ultimately have "event_order P Q rest (L + int (length ns)) (F1 @ F2) W R"
    unfolding event_order_def using f LR LR' got' i2 by simp
  moreover have "rest \<noteq> [] \<longrightarrow> mSeqCount (hd rest) \<noteq> L + 1 + int (length ns)" using r(3) by (cases rest) auto
  ultimately show ?thesis using r(1,2) LR LR' by (intro exI [of _ ns] exI [of _ rest]) simp
qed

end
