(* ===== verification/Event_System.thy ===== *)
theory Event_System
  imports Event_Order
begin

text \<open>
  Events across a connection that loses and reorders packets. A system is one end that posts and sends, another that receives, and
  the packets between them, each with its note and its fate. The steps are the operations of the code; the fate of a packet is
  told truthfully, once it is known, in any order. What was posted is kept beside the state.

  Ordered events are processed exactly once and in the order they were posted, whatever the packets do; guaranteed ones at
  most once, and all of them when nothing is left to send; nothing is reported delivered before it was processed.
\<close>

section \<open>The system\<close>

record 'e sent_packet =
  packetBits :: "bool list"
  packetNote :: "'e event_note list packet_notify"
  packetFate :: fate

record ('e, 'u) event_system =
  sender :: "('e, 'u) event_connection"
  receiver :: "('e, 'u) event_connection"
  inFlight :: "'e sent_packet list"
  postedEvents :: "'e list"

text \<open>\<open>admissible\<close> are the events the two ends can exchange, \<open>stream_fits\<close> the streams a packet is written to.\<close>

inductive event_step ::
  "('e, 'u) event_class \<Rightarrow> ('e \<Rightarrow> bool) \<Rightarrow> (bit_stream \<Rightarrow> bool) \<Rightarrow> ('e, 'u) event_system \<Rightarrow> ('e, 'u) event_system \<Rightarrow> bool"
  for ops admissible stream_fits where
  post: "admissible e \<Longrightarrow> postNetEvent ops e (sender S) = Some (True, s) \<Longrightarrow>
    event_step ops admissible stream_fits S (S\<lparr>sender := s, postedEvents := postedEvents S @ [e]\<rparr>)"
| send: "stream_fits bs \<Longrightarrow> ev_writePacket ops bs note (sender S) = Some (bs', note', s) \<Longrightarrow>
    event_step ops admissible stream_fits S (S\<lparr>sender := s, inFlight := inFlight S @
      [\<lparr>packetBits = next_bits (bs'\<lparr>bitNum := bitNum bs\<rparr>) (unat (bitNum bs') - unat (bitNum bs)), packetNote = note', packetFate = Pending\<rparr>]\<rparr>)"
| deliver: "inFlight S = F1 @ p # F2 \<Longrightarrow> packetFate p = Pending \<Longrightarrow> reads bs (packetBits p) \<Longrightarrow>
    ev_readPacket ops bs (receiver S) = Some (bs', r) \<Longrightarrow>
    event_step ops admissible stream_fits S (S\<lparr>receiver := r, inFlight := F1 @ p\<lparr>packetFate := Arrived\<rparr> # F2\<rparr>)"
| lose: "inFlight S = F1 @ p # F2 \<Longrightarrow> packetFate p = Pending \<Longrightarrow>
    event_step ops admissible stream_fits S (S\<lparr>inFlight := F1 @ p\<lparr>packetFate := Lost\<rparr> # F2\<rparr>)"
| acked: "inFlight S = F1 @ p # F2 \<Longrightarrow> packetFate p = Arrived \<Longrightarrow> ev_packetReceived ops (packetNote p) (sender S) = Some s \<Longrightarrow>
    event_step ops admissible stream_fits S (S\<lparr>sender := s, inFlight := F1 @ F2\<rparr>)"
| nacked: "inFlight S = F1 @ p # F2 \<Longrightarrow> packetFate p = Lost \<Longrightarrow> ev_packetDropped ops (packetNote p) (sender S) = Some s \<Longrightarrow>
    event_step ops admissible stream_fits S (S\<lparr>sender := s, inFlight := F1 @ F2\<rparr>)"

inductive_cases event_stepE: "event_step ops admissible stream_fits S S'"

section \<open>The invariant of the system\<close>

context event_ops begin

abbreviation ty :: "guarantee_type \<Rightarrow> 'e \<Rightarrow> bool" where
  "ty g e \<equiv> mGuaranteeType ops e = g"

definition notes_of :: "'e sent_packet \<Rightarrow> 'e event_note list" where
  "notes_of p = noteData (packetNote p)"

definition flights :: "'e sent_packet list \<Rightarrow> (fate \<times> 'e event_note list) list" where
  "flights F = map (\<lambda>p. (packetFate p, filter ordered (notes_of p))) F"

text \<open>The events of a kind that are still to be sent or under way.\<close>

definition waiting :: "guarantee_type \<Rightarrow> 'e event_note list \<Rightarrow> 'e sent_packet list \<Rightarrow> 'e multiset" where
  "waiting g U F = mset (filter (ty g) (map mEvent (U @ concat (map notes_of (filter (\<lambda>p. packetFate p \<noteq> Arrived) F)))))"

definition packet_holds :: "nat \<Rightarrow> ('e \<Rightarrow> bool) \<Rightarrow> 'e sent_packet \<Rightarrow> bool" where
  "packet_holds k adm p \<longleftrightarrow> (\<exists>us os. notes_of p = us @ os \<and> packetBits p = event_bits k us os \<and>
     (\<forall>x \<in> set us. \<not> ordered x) \<and> (\<forall>x \<in> set os. ordered x) \<and> (\<forall>x \<in> set us \<union> set os. adm (mEvent x)))"

text \<open>What the receiver has processed: the ordered events in order, the guaranteed ones once, the others at most once.\<close>

definition processed_so_far :: "'u \<Rightarrow> ('e, 'u) event_system \<Rightarrow> 'e list \<Rightarrow> bool" where
  "processed_so_far u S es \<longleftrightarrow> mUser (mSub (receiver S)) = fold onProcess es u \<and>
     filter (ty GuaranteedOrdered) es = take (nat (mNextRecvEventSeq (mSub (receiver S)))) (filter (ty GuaranteedOrdered) (postedEvents S)) \<and>
     mset (filter (ty Guaranteed) es) + waiting Guaranteed (mUnorderedSendEventQueue (mSub (sender S))) (inFlight S) =
       mset (filter (ty Guaranteed) (postedEvents S)) \<and>
     mset (filter (ty Unguaranteed) es) + waiting Unguaranteed (mUnorderedSendEventQueue (mSub (sender S))) (inFlight S) \<subseteq>#
       mset (filter (ty Unguaranteed) (postedEvents S))"

definition ends_ok :: "nat \<Rightarrow> ('e \<Rightarrow> bool) \<Rightarrow> ('e, 'u) event_system \<Rightarrow> bool" where
  "ends_ok k adm S \<longleftrightarrow> \<not> mDebugObjectSizes (mConnectionParameters (sender S)) \<and> class_bits (sender S) = k \<and>
     ready (receiver S) \<and> class_bits (receiver S) = k \<and> (\<forall>e. adm e \<longrightarrow> accepts (receiver S) e)"

definition sender_order :: "('e, 'u) event_system \<Rightarrow> bool" where
  "sender_order S \<longleftrightarrow> event_order (filter (ty GuaranteedOrdered) (postedEvents S)) (mSendEventQueue (mSub (sender S)))
     (mNotifyEventList (mSub (sender S))) (mLastAckedEventSeq (mSub (sender S))) (flights (inFlight S))
     (mWaitSeqEvents (mSub (receiver S))) (mNextRecvEventSeq (mSub (receiver S)))"

definition ev_inv :: "nat \<Rightarrow> ('e \<Rightarrow> bool) \<Rightarrow> 'u \<Rightarrow> ('e, 'u) event_system \<Rightarrow> bool" where
  "ev_inv k adm u S \<longleftrightarrow> ends_ok k adm S \<and> sender_order S \<and> (\<forall>e \<in> set (postedEvents S). adm e) \<and>
     mNextSendEventSeq (mSub (sender S)) = int (length (filter (ty GuaranteedOrdered) (postedEvents S))) \<and>
     mNextSendEventSeq (mSub (sender S)) < 2 ^ 31 \<and>
     (\<forall>x \<in> set (mUnorderedSendEventQueue (mSub (sender S))). \<not> ordered x \<and> adm (mEvent x)) \<and>
     (\<forall>p \<in> set (inFlight S). packet_holds k adm p) \<and> (\<exists>es. processed_so_far u S es)"

lemma flights_simps [simp]:
  "flights (F @ G) = flights F @ flights G" "flights (p # F) = (packetFate p, filter ordered (notes_of p)) # flights F" "flights [] = []"
  by (simp_all add: flights_def)

lemma waiting_simps:
  "waiting g U (F @ G) = waiting g U F + waiting g [] G" "waiting g (U @ V) F = waiting g U F + waiting g V []"
  "waiting g U (p # F) = waiting g U F + (if packetFate p = Arrived then {#} else waiting g (notes_of p) [])"
  by (simp_all add: waiting_def ac_simps)

lemma ev_inv_start:
  assumes "ends_ok k adm S" "inFlight S = []" "postedEvents S = []" "mSub (sender S) = EventConnection_new v u1\<lparr>mEventClassBitSize := b1, mEventClassCount := n1\<rparr>"
    "mSub (receiver S) = EventConnection_new v2 u\<lparr>mEventClassBitSize := b2, mEventClassCount := n2\<rparr>"
  shows "ev_inv k adm u S"
  using assms order_start
  by (auto simp: ev_inv_def sender_order_def EventConnection_new_def FirstValidSendEventSeq_def processed_so_far_def waiting_def
      intro!: exI [of _ "[]"])

text \<open>The notes of the ordered events carry ordered events.\<close>

lemma order_notes:
  assumes "ev_inv k adm u S" and "x \<in> set (unreported (mSendEventQueue (mSub (sender S))) (flights (inFlight S)) (mNotifyEventList (mSub (sender S)))) \<union>
      set (mWaitSeqEvents (mSub (receiver S)))"
  shows "ordered x \<and> adm (mEvent x)"
proof -
  let ?P = "filter (ty GuaranteedOrdered) (postedEvents S)"
  have o: "sender_order S" and a: "\<forall>e \<in> set (postedEvents S). adm e" using assms(1) by (simp_all add: ev_inv_def)
  have "mEvent x = ?P ! nat (mSeqCount x)" "0 \<le> mSeqCount x" "mSeqCount x < int (length ?P)"
    using event_orderD(8) [OF o [unfolded sender_order_def]] assms(2) by auto
  then have "mEvent x \<in> set ?P" by (metis nat_less_iff nth_mem)
  then show ?thesis using a by auto
qed

lemma ev_invD:
  assumes "ev_inv k adm u S"
  shows "ends_ok k adm S" "sender_order S" "\<forall>e \<in> set (postedEvents S). adm e"
    "mNextSendEventSeq (mSub (sender S)) = int (length (filter (ty GuaranteedOrdered) (postedEvents S)))"
    "mNextSendEventSeq (mSub (sender S)) < 2 ^ 31"
    "\<forall>x \<in> set (mUnorderedSendEventQueue (mSub (sender S))). \<not> ordered x \<and> adm (mEvent x)"
    "\<forall>p \<in> set (inFlight S). packet_holds k adm p" "\<exists>es. processed_so_far u S es"
  using assms unfolding ev_inv_def by - (elim conjE, assumption)+

lemma fate_simps [simp]:
  "notes_of (p\<lparr>packetFate := f\<rparr>) = notes_of p" "packet_holds k adm (p\<lparr>packetFate := f\<rparr>) = packet_holds k adm p"
  by (simp_all add: notes_of_def packet_holds_def)

lemma ends_ok_fields:
  "ends_ok k adm S \<Longrightarrow> receiver S' = receiver S \<Longrightarrow> mConnectionParameters (sender S') = mConnectionParameters (sender S) \<Longrightarrow>
   mEventClassBitSize (mSub (sender S')) = mEventClassBitSize (mSub (sender S)) \<Longrightarrow> ends_ok k adm S'"
  by (simp add: ends_ok_def class_bits_def)

lemma inv_post:
  assumes i: "ev_inv k adm u S" and e: "adm e" and p: "postNetEvent ops e (sender S) = Some (True, s)"
  shows "ev_inv k adm u (S\<lparr>sender := s, postedEvents := postedEvents S @ [e]\<rparr>)"
proof -
  let ?S = "S\<lparr>sender := s, postedEvents := postedEvents S @ [e]\<rparr>" and ?t = "mSub (sender S)"
  note d = ev_invD [OF i]
  obtain es where es: "processed_so_far u S es" using d(8) by blast
  have R: "nat (mNextRecvEventSeq (mSub (receiver S))) \<le> length (filter (ty GuaranteedOrdered) (postedEvents S))"
    using event_orderD(3) [OF d(2) [unfolded sender_order_def]] by simp
  show ?thesis
  proof (cases "ty GuaranteedOrdered e")
    case True
    then have s: "mNextSendEventSeq ?t < 2 ^ 31 - 1" "s = set_ev (\<lambda>t. t\<lparr>mUser := onPosted e (mUser t), mNextSendEventSeq := mNextSendEventSeq t + 1,
        mSendEventQueue := mSendEventQueue t @ [\<lparr>mEvent = e, mSeqCount = mNextSendEventSeq t\<rparr>]\<rparr>) (sender S)"
      using p by (auto simp: postNetEvent_def posted inc_s32_def Let_def split: if_splits bind_splits)
    have "sender_order ?S" using order_post [OF d(2) [unfolded sender_order_def], of e] True s(2) d(4) by (simp add: sender_order_def)
    moreover have "processed_so_far u ?S es" using es True s(2) R by (simp add: processed_so_far_def)
    ultimately show ?thesis using d e s True ends_ok_fields [OF d(1), of ?S] by (auto simp: ev_inv_def)
  next
    case False
    then have s: "s = set_ev (\<lambda>t. t\<lparr>mUser := onPosted e (mUser t),
        mUnorderedSendEventQueue := mUnorderedSendEventQueue t @ [\<lparr>mEvent = e, mSeqCount = InvalidSendEventSeq\<rparr>]\<rparr>) (sender S)"
      using p by (auto simp: postNetEvent_def posted Let_def split: if_splits bind_splits)
    have "sender_order ?S" using d(2) False s by (simp add: sender_order_def)
    moreover have "processed_so_far u ?S es" using es False s by (auto simp: processed_so_far_def waiting_def)
    ultimately show ?thesis using d e s False ends_ok_fields [OF d(1), of ?S] by (auto simp: ev_inv_def)
  qed
qed

lemma inv_lose:
  assumes i: "ev_inv k adm u S" and F: "inFlight S = F1 @ p # F2" "packetFate p = Pending"
  shows "ev_inv k adm u (S\<lparr>inFlight := F1 @ p\<lparr>packetFate := Lost\<rparr> # F2\<rparr>)"
proof -
  let ?S = "S\<lparr>inFlight := F1 @ p\<lparr>packetFate := Lost\<rparr> # F2\<rparr>"
  note d = ev_invD [OF i]
  obtain es where es: "processed_so_far u S es" using d(8) by blast
  have "sender_order ?S" using d(2) F by (simp add: sender_order_def order_lose)
  moreover have "processed_so_far u ?S es" using es F by (simp add: processed_so_far_def waiting_simps)
  ultimately show ?thesis using d(3-7) F(1) ends_ok_fields [OF d(1), of ?S] by (auto simp: ev_inv_def)
qed

lemma inv_nacked:
  assumes i: "ev_inv k adm u S" and F: "inFlight S = F1 @ p # F2" "packetFate p = Lost"
  shows "\<exists>s. ev_packetDropped ops (packetNote p) (sender S) = Some s \<and> ev_inv k adm u (S\<lparr>sender := s, inFlight := F1 @ F2\<rparr>)"
proof -
  note d = ev_invD [OF i]
  obtain es where es: "processed_so_far u S es" using d(8) by blast
  obtain us os where p: "notes_of p = us @ os" "\<forall>x \<in> set us. \<not> ordered x" "\<forall>x \<in> set os. ordered x" "\<forall>x \<in> set us \<union> set os. adm (mEvent x)"
    using d(7) F(1) by (auto simp: packet_holds_def)
  let ?s = "set_ev (\<lambda>s. s\<lparr>mSendEventQueue := insertNotes (filter ordered (notes_of p)) 0 (mSendEventQueue s),
     mUnorderedSendEventQueue := rev (filter guaranteed (notes_of p)) @ mUnorderedSendEventQueue s,
     mUser := fold (\<lambda>ev. onDelivered (mEvent ev) False) (filter unguaranteed (notes_of p)) (mUser s)\<rparr>)
     (base_packetDropped (packetNote p) (sender S))"
  let ?S = "S\<lparr>sender := ?s, inFlight := F1 @ F2\<rparr>"
  have s: "ev_packetDropped ops (packetNote p) (sender S) = Some ?s"
    by (simp add: ev_packetDropped_def dropEvents_run notes_of_def)
  have sub: "mSub (base_packetDropped (packetNote p) (sender S)) = mSub (sender S)"
      "mConnectionParameters (base_packetDropped (packetNote p) (sender S)) = mConnectionParameters (sender S)"
    by (simp_all add: base_packetDropped_def)
  have "sender_order ?S" using d(2) F by (simp add: sender_order_def sub order_nacked)
  moreover have "processed_so_far u ?S es"
  proof -
    have g: "filter (ty Guaranteed) (map mEvent (filter guaranteed xs)) = filter (ty Guaranteed) (map mEvent xs)"
      "filter (ty Unguaranteed) (map mEvent (filter guaranteed xs)) = []" for xs
      by (induction xs) simp_all
    have w: "waiting Guaranteed (rev (filter guaranteed (notes_of p)) @ U) (F1 @ F2) = waiting Guaranteed U (F1 @ p # F2)"
      "waiting Unguaranteed (rev (filter guaranteed (notes_of p)) @ U) (F1 @ F2) \<subseteq># waiting Unguaranteed U (F1 @ p # F2)" for U
      using F(2) g by (simp_all add: waiting_def rev_map [symmetric] rev_filter [symmetric] ac_simps)
    have "mset (filter (ty Unguaranteed) es) + waiting Unguaranteed (rev (filter guaranteed (notes_of p)) @ mUnorderedSendEventQueue (mSub (sender S))) (F1 @ F2)
        \<subseteq># mset (filter (ty Unguaranteed) (postedEvents S))"
      using es F(1) w(2) by (auto simp: processed_so_far_def intro: subset_mset.order_trans [OF subset_mset.add_left_mono])
    then show ?thesis using es F(1) by (simp add: processed_so_far_def sub w(1))
  qed
  ultimately have "ev_inv k adm u ?S" using d(3-7) F(1) p ends_ok_fields [OF d(1), of ?S] by (auto simp: ev_inv_def sub)
  then show ?thesis using s by blast
qed

lemma inv_acked:
  assumes i: "ev_inv k adm u S" and F: "inFlight S = F1 @ p # F2" "packetFate p = Arrived"
  shows "\<exists>s. ev_packetReceived ops (packetNote p) (sender S) = Some s \<and> ev_inv k adm u (S\<lparr>sender := s, inFlight := F1 @ F2\<rparr>)"
proof -
  note d = ev_invD [OF i]
  let ?t = "mSub (sender S)" and ?os = "filter ordered (notes_of p)"
  let ?A = "insertNotes ?os 0 (mNotifyEventList ?t)" and ?L = "mLastAckedEventSeq ?t"
  obtain es where es: "processed_so_far u S es" using d(8) by blast
  have o: "event_order (filter (ty GuaranteedOrdered) (postedEvents S)) (mSendEventQueue ?t) (mNotifyEventList ?t) ?L
      (flights F1 @ (Arrived, ?os) # flights F2) (mWaitSeqEvents (mSub (receiver S))) (mNextRecvEventSeq (mSub (receiver S)))"
    using d(2) F by (simp add: sender_order_def)
  obtain ns rest where r: "?A = ns @ rest" "map mSeqCount ns = map (\<lambda>i. ?L + 1 + int i) [0..<length ns]"
      "rest \<noteq> [] \<longrightarrow> mSeqCount (hd rest) \<noteq> ?L + 1 + int (length ns)"
      "?L + int (length ns) < int (length (filter (ty GuaranteedOrdered) (postedEvents S)))"
      "event_order (filter (ty GuaranteedOrdered) (postedEvents S)) (mSendEventQueue ?t) rest (?L + int (length ns))
        (flights F1 @ flights F2) (mWaitSeqEvents (mSub (receiver S))) (mNextRecvEventSeq (mSub (receiver S)))"
    using order_acked [OF o] by blast
  define c1 where "c1 = set_ev (\<lambda>s. s\<lparr>mNotifyEventList := ?A,
     mUser := fold (\<lambda>ev. onDelivered (mEvent ev) True) (filter (\<lambda>ev. \<not> ordered ev) (notes_of p)) (mUser s)\<rparr>)
     (base_packetReceived (packetNote p) (sender S))"
  define s where "s = set_ev (\<lambda>s. s\<lparr>mLastAckedEventSeq := ?L + int (length ns), mNotifyEventList := rest,
     mUser := fold (\<lambda>ev. onDelivered (mEvent ev) True) ns (mUser s)\<rparr>) c1"
  have sub: "mSub (base_packetReceived (packetNote p) (sender S)) = ?t"
      "mConnectionParameters (base_packetReceived (packetNote p) (sender S)) = mConnectionParameters (sender S)"
    by (simp_all add: base_packetReceived_def)
  have c1: "mLastAckedEventSeq (mSub c1) = ?L" "mNotifyEventList (mSub c1) = ns @ rest" using r(1) by (simp_all add: c1_def sub)
  have "receiveEvents ops (noteData (packetNote p)) 0 (base_packetReceived (packetNote p) (sender S)) = Some c1"
    by (simp add: receiveEvents_run c1_def sub notes_of_def)
  moreover have "notifyInOrder (length (mNotifyEventList (mSub c1))) ops c1 = Some s"
  proof -
    have b: "?L + int (length ns) + 1 < 2 ^ 31" using r(4) d(4,5) by linarith
    show ?thesis using notifyInOrder_run [of c1 ns rest "length (mNotifyEventList (mSub c1))"] b r(2,3)
      unfolding c1 by (simp add: s_def c1)
  qed
  ultimately have eq: "ev_packetReceived ops (packetNote p) (sender S) = Some s" by (simp add: ev_packetReceived_def)
  let ?S = "S\<lparr>sender := s, inFlight := F1 @ F2\<rparr>"
  have "sender_order ?S" using r(5) by (simp add: sender_order_def s_def c1_def sub)
  moreover have "processed_so_far u ?S es" using es F by (simp add: processed_so_far_def waiting_simps s_def c1_def sub)
  moreover have "ends_ok k adm ?S" by (rule ends_ok_fields [OF d(1)]) (simp_all add: s_def c1_def sub)
  ultimately have "ev_inv k adm u ?S" using d(3-7) F(1) by (auto simp: ev_inv_def s_def c1_def sub)
  then show ?thesis using eq by blast
qed

lemma inv_send:
  assumes i: "ev_inv k adm u S" and bs: "roomy maxBits k bs" "stream_ok bs" and adm: "\<forall>e. adm e \<longrightarrow> valid e"
  shows "\<exists>bs' note' s. ev_writePacket ops bs note (sender S) = Some (bs', note', s) \<and>
    ev_inv k adm u (S\<lparr>sender := s, inFlight := inFlight S @ [\<lparr>packetBits = next_bits (bs'\<lparr>bitNum := bitNum bs\<rparr>) (unat (bitNum bs') - unat (bitNum bs)),
      packetNote = note', packetFate = Pending\<rparr>]\<rparr>)"
proof -
  note d = ev_invD [OF i]
  let ?t = "mSub (sender S)"
  obtain es where es: "processed_so_far u S es" using d(8) by blast
  have Q: "ordered x \<and> adm (mEvent x)" if "x \<in> set (mSendEventQueue ?t)" for x
    by (rule order_notes [OF i]) (use that in \<open>simp add: unreported_def\<close>)
  have c: "\<not> mDebugObjectSizes (mConnectionParameters (sender S))" "class_bits (sender S) = k" using d(1) by (simp_all add: ends_ok_def)
  have v: "\<forall>x \<in> set (mUnorderedSendEventQueue ?t) \<union> set (mSendEventQueue ?t). valid (mEvent x)" using d(6) Q adm by blast
  obtain us os us' os' bs' where w: "mUnorderedSendEventQueue ?t = us @ us'" "mSendEventQueue ?t = os @ os'"
      "\<forall>ev \<in> set os. mSeqCount ev \<le> mLastAckedEventSeq ?t + 126" "wrote bs (event_bits k us os) bs'"
      "ev_writePacket ops bs note (sender S) = Some (bs', note\<lparr>noteData := us @ os\<rparr>,
        set_ev (\<lambda>s. s\<lparr>mUnorderedSendEventQueue := us', mSendEventQueue := os', mUser := fold (onSent \<circ> mEvent) (us @ os) (mUser s)\<rparr>) (sender S))"
    using writePacket_events [OF c bs v, of "note"] by (elim exE conjE) (rule that; assumption)
  let ?s = "set_ev (\<lambda>s. s\<lparr>mUnorderedSendEventQueue := us', mSendEventQueue := os', mUser := fold (onSent \<circ> mEvent) (us @ os) (mUser s)\<rparr>) (sender S)"
  let ?p = "\<lparr>packetBits = next_bits (bs'\<lparr>bitNum := bitNum bs\<rparr>) (unat (bitNum bs') - unat (bitNum bs)),
      packetNote = note\<lparr>noteData := us @ os\<rparr>, packetFate = Pending\<rparr>"
  let ?S = "S\<lparr>sender := ?s, inFlight := inFlight S @ [?p]\<rparr>"
  have us: "\<forall>x \<in> set us. \<not> ordered x \<and> adm (mEvent x)" using d(6) w(1) by simp
  have os: "\<forall>x \<in> set os. ordered x \<and> adm (mEvent x)" using Q w(2) by simp
  have n: "notes_of ?p = us @ os" by (simp add: notes_of_def)
  have bits: "packetBits ?p = event_bits k us os" using w(4) by (simp add: wrote_def next_bits_def)
  have f: "filter ordered us = []" "filter ordered os = os" using us os by (auto simp: filter_empty_conv filter_id_conv)
  have "packet_holds k adm ?p" unfolding packet_holds_def n bits using us os by blast
  moreover have "sender_order ?S"
    using order_send [of _ os os'] d(2) w(2,3) by (simp add: sender_order_def n f)
  moreover have "processed_so_far u ?S es"
  proof -
    have "waiting g os [] = {#}" if "g \<noteq> GuaranteedOrdered" for g
      using os that by (auto simp: waiting_def filter_empty_conv)
    then have "waiting g us' (inFlight S @ [?p]) = waiting g (mUnorderedSendEventQueue ?t) (inFlight S)" if "g \<noteq> GuaranteedOrdered" for g
      using that unfolding waiting_simps(1) w(1) waiting_simps(3) n waiting_simps(2)
      by (simp add: waiting_def ac_simps)
    then show ?thesis using es by (simp add: processed_so_far_def)
  qed
  ultimately have "ev_inv k adm u ?S" using d(3-7) w(1) ends_ok_fields [OF d(1), of ?S] by (auto simp: ev_inv_def)
  then show ?thesis using w(5) by blast
qed

lemma inv_deliver:
  assumes i: "ev_inv k adm u S" and F: "inFlight S = F1 @ p # F2" "packetFate p = Pending" and b: "reads bs (packetBits p)"
  shows "\<exists>bs' r. ev_readPacket ops bs (receiver S) = Some (bs', r) \<and>
    ev_inv k adm u (S\<lparr>receiver := r, inFlight := F1 @ p\<lparr>packetFate := Arrived\<rparr> # F2\<rparr>)"
proof -
  note d = ev_invD [OF i]
  let ?t = "mSub (receiver S)" and ?os = "filter ordered (notes_of p)" and ?P = "filter (ty GuaranteedOrdered) (postedEvents S)"
  let ?W = "insertNotes ?os 0 (mWaitSeqEvents ?t)" and ?R = "mNextRecvEventSeq ?t"
  obtain es where es: "processed_so_far u S es" using d(8) by blast
  obtain us os where p: "notes_of p = us @ os" "packetBits p = event_bits k us os" "\<forall>x \<in> set us. \<not> ordered x" "\<forall>x \<in> set os. ordered x"
      "\<forall>x \<in> set us \<union> set os. adm (mEvent x)"
    using d(7) F(1) by (auto simp: packet_holds_def)
  have f: "?os = os" using p(1,3,4) by (simp add: filter_empty_conv filter_id_conv)
  have "event_order ?P (mSendEventQueue (mSub (sender S))) (mNotifyEventList (mSub (sender S))) (mLastAckedEventSeq (mSub (sender S)))
      (flights F1 @ (Pending, os) # flights F2) (mWaitSeqEvents ?t) ?R"
    using d(2) F f by (simp add: sender_order_def)
  note o = order_deliver [OF this] event_orderD(1-3) [OF this]
  obtain ws rest where r: "insertNotes os 0 (mWaitSeqEvents ?t) = ws @ rest" "map mSeqCount ws = map (\<lambda>i. ?R + int i) [0..<length ws]"
      "rest \<noteq> [] \<longrightarrow> mSeqCount (hd rest) \<noteq> ?R + int (length ws)" "?R + int (length ws) \<le> int (length ?P)"
      "map mEvent ws = take (length ws) (drop (nat ?R) ?P)"
      "event_order ?P (mSendEventQueue (mSub (sender S))) (mNotifyEventList (mSub (sender S))) (mLastAckedEventSeq (mSub (sender S)))
        (flights F1 @ (Arrived, os) # flights F2) rest (?R + int (length ws))"
    using o(1) [THEN conjunct2] by blast
  have e: "ready (receiver S)" "class_bits (receiver S) = k" "\<forall>x \<in> set us \<union> set os. accepts (receiver S) (mEvent x)"
    using d(1) p(5) by (simp_all add: ends_ok_def)
  have b': "reads bs (event_bits (class_bits (receiver S)) us os)" using b p(2) e(2) by simp
  define c1 where "c1 = set_ev (\<lambda>s. s\<lparr>mUser := fold (onProcess \<circ> mEvent) us (mUser s), mWaitSeqEvents := insertNotes os 0 (mWaitSeqEvents s)\<rparr>) (receiver S)"
  define c2 where "c2 = set_ev (\<lambda>s. s\<lparr>mNextRecvEventSeq := mNextRecvEventSeq s + int (length ws),
    mWaitSeqEvents := rest, mUser := fold (onProcess \<circ> mEvent) ws (mUser s)\<rparr>) c1"
  have c1: "ready c1" "mNextRecvEventSeq (mSub c1) = ?R" "mWaitSeqEvents (mSub c1) = ws @ rest"
    using e(1) r(1) by (simp_all add: c1_def ready_def class_bits_def)
  have "processWaiting (length (ws @ rest)) ops c1 = Some c2"
    unfolding c2_def
  proof (rule processWaiting_run [OF c1(1) _ c1(3)])
    show "mNextRecvEventSeq (mSub c1) + int (length ws) < 2 ^ 31" unfolding c1(2) using r(4) d(4,5) by linarith
  qed (simp_all add: c1(2) r(2,3))
  then have eq: "ev_readPacket ops bs (receiver S) = Some (skip_bits (length (event_bits (class_bits (receiver S)) us os)) bs, c2)"
    unfolding readPacket_events [OF e(1,3) o(1) [THEN conjunct1] b'] by (simp add: r(1) c1_def)
  let ?S = "S\<lparr>receiver := c2, inFlight := F1 @ p\<lparr>packetFate := Arrived\<rparr> # F2\<rparr>"
  have "sender_order ?S" using r(6) f by (simp add: sender_order_def c2_def c1_def)
  moreover have "ends_ok k adm ?S"
    using d(1) by (auto simp: ends_ok_def ready_def class_bits_def c2_def c1_def accepts_def directionAllowed_def
      isConnectionToClient_def isConnectionToServer_def)
  moreover have "processed_so_far u ?S (es @ map mEvent us @ map mEvent ws)"
  proof -
    have ws: "\<forall>e \<in> set (map mEvent ws). ty GuaranteedOrdered e" unfolding r(5) by (auto dest!: in_set_takeD in_set_dropD)
    then have fw: "filter (ty GuaranteedOrdered) (map mEvent ws) = take (length ws) (drop (nat ?R) ?P)"
      "\<And>g. g \<noteq> GuaranteedOrdered \<Longrightarrow> filter (ty g) (map mEvent ws) = []"
      by (simp_all add: r(5) [symmetric] filter_id_conv filter_empty_conv)
    have fu: "filter (ty GuaranteedOrdered) (map mEvent us) = []" using p(3) by (simp add: filter_empty_conv)
    have fo: "\<And>g. g \<noteq> GuaranteedOrdered \<Longrightarrow> filter (ty g) (map mEvent os) = []" using p(4) by (simp add: filter_empty_conv)
    have "nat (int (length ws) + ?R) = nat ?R + length ws" using o(2,3) by (simp add: nat_add_distrib)
    then have n: "take (nat (int (length ws) + ?R)) ?P = take (nat ?R) ?P @ take (length ws) (drop (nat ?R) ?P)"
      by (simp only: take_add)
    have w: "waiting g U (inFlight S) = mset (filter (ty g) (map mEvent us)) + waiting g U (F1 @ p\<lparr>packetFate := Arrived\<rparr> # F2)"
      if "g \<noteq> GuaranteedOrdered" for g U
      using F(2) fo [OF that] unfolding F(1) waiting_simps(1) [of _ _ F1] waiting_simps(3)
      by (simp add: waiting_def p(1) ac_simps)
    show ?thesis using es w unfolding processed_so_far_def
      by (simp add: c2_def c1_def fw fu n comp_def fold_map ac_simps)
  qed
  ultimately have "ev_inv k adm u ?S" using d(3-7) F(1) by (auto simp: ev_inv_def)
  then show ?thesis using eq by blast
qed

section \<open>Reachable systems\<close>

abbreviation fits :: "nat \<Rightarrow> bit_stream \<Rightarrow> bool" where
  "fits k bs \<equiv> roomy maxBits k bs \<and> stream_ok bs"

lemma inv_step:
  assumes "event_step ops adm (fits k) S S'" and "ev_inv k adm u S" and "\<forall>e. adm e \<longrightarrow> valid e"
  shows "ev_inv k adm u S'"
  using assms(1)
proof (cases rule: event_step.cases)
  case (post e s)
  then show ?thesis using inv_post [OF assms(2)] by simp
next
  case (send bs n bs' n' s)
  then show ?thesis using inv_send [OF assms(2) _ _ assms(3), of bs n] by auto
next
  case (deliver F1 p F2 bs bs' r)
  then show ?thesis using inv_deliver [OF assms(2), of F1 p F2 bs] by auto
next
  case (lose F1 p F2)
  then show ?thesis using inv_lose [OF assms(2)] by simp
next
  case (acked F1 p F2 s)
  then show ?thesis using inv_acked [OF assms(2), of F1 p F2] by auto
next
  case (nacked F1 p F2 s)
  then show ?thesis using inv_nacked [OF assms(2), of F1 p F2] by auto
qed

lemma inv_reachable:
  assumes "(event_step ops adm (fits k))\<^sup>*\<^sup>* S S'" and "ev_inv k adm u S" and "\<forall>e. adm e \<longrightarrow> valid e"
  shows "ev_inv k adm u S'"
  using assms(1,2) by induction (use inv_step assms(3) in blast)+

text \<open>What the invariant says of a reachable system.\<close>

lemma inv_delivery:
  assumes "ev_inv k adm u S"
  shows "\<exists>es. mUser (mSub (receiver S)) = fold onProcess es u \<and>
    (\<exists>n. filter (ty GuaranteedOrdered) es = take n (filter (ty GuaranteedOrdered) (postedEvents S))) \<and>
    mset (filter (ty Guaranteed) es) \<subseteq># mset (filter (ty Guaranteed) (postedEvents S)) \<and>
    mset (filter (ty Unguaranteed) es) \<subseteq># mset (filter (ty Unguaranteed) (postedEvents S))"
proof -
  obtain es where es: "processed_so_far u S es" using ev_invD(8) [OF assms] by blast
  have "mset (filter (ty Guaranteed) es) \<subseteq># mset (filter (ty Guaranteed) (postedEvents S))"
    using es unfolding processed_so_far_def by (metis mset_subset_eq_add_left)
  moreover have "mset (filter (ty Unguaranteed) es) \<subseteq># mset (filter (ty Unguaranteed) (postedEvents S))"
    using es unfolding processed_so_far_def by (meson mset_subset_eq_add_left subset_mset.order_trans)
  ultimately show ?thesis using es unfolding processed_so_far_def by blast
qed

lemma inv_reported: "ev_inv k adm u S \<Longrightarrow> mLastAckedEventSeq (mSub (sender S)) < mNextRecvEventSeq (mSub (receiver S))"
  using event_orderD(2) [OF ev_invD(2) [unfolded sender_order_def]] .

lemma inv_drained:
  assumes i: "ev_inv k adm u S" and F: "inFlight S = []" "mSendEventQueue (mSub (sender S)) = []" "mUnorderedSendEventQueue (mSub (sender S)) = []"
  shows "\<exists>es. mUser (mSub (receiver S)) = fold onProcess es u \<and>
    filter (ty GuaranteedOrdered) es = filter (ty GuaranteedOrdered) (postedEvents S) \<and>
    mset (filter (ty Guaranteed) es) = mset (filter (ty Guaranteed) (postedEvents S))"
proof -
  obtain es where es: "processed_so_far u S es" using ev_invD(8) [OF i] by blast
  let ?P = "filter (ty GuaranteedOrdered) (postedEvents S)" and ?A = "mNotifyEventList (mSub (sender S))"
    and ?L = "mLastAckedEventSeq (mSub (sender S))" and ?R = "mNextRecvEventSeq (mSub (receiver S))"
  note o = event_orderD [OF ev_invD(2) [OF i, unfolded sender_order_def]]
  have "mSeqCount ` set ?A = {?L + 1..<int (length ?P)}" using o(10) F by (simp add: unreported_def)
  then have "{0..<?R} \<union> mSeqCount ` set (mWaitSeqEvents (mSub (receiver S))) = {0..?L} \<union> {?L + 1..<int (length ?P)}"
    using o(12) F by (simp add: arrived_def)
  moreover have "?R \<notin> {0..<?R} \<union> mSeqCount ` set (mWaitSeqEvents (mSub (receiver S)))" using o(11) by auto
  ultimately have "?R \<notin> {0..?L} \<union> {?L + 1..<int (length ?P)}" by simp
  then have "nat ?R = length ?P" using o(1-3) by auto
  then show ?thesis using es F by (auto simp: processed_so_far_def waiting_def)
qed

end

end
