(* ===== verification/Remote_Calls.thy ===== *)
theory Remote_Calls
  imports Event_System
begin

text \<open>
  \<^verbatim>\<open>tnl/rpc.cpp\<close>, \<^verbatim>\<open>tnl/tnlRPC.h\<close> and the argument types of \<^verbatim>\<open>tnl/tnlMethodDispatch.h\<close>: a remote call is an event that packs its
  arguments one after the other, each by its type. The types are a datatype, the overloaded \<^verbatim>\<open>Types::write\<close> and
  \<^verbatim>\<open>Types::read\<close> functions on it; strings, string table entries and floats, whose coding depends on more than the value, are
  left out. With the table of declared calls this is an event class in the sense of \<open>event_ops\<close>.
\<close>

section \<open>Writers and readers in sequence\<close>

definition appends :: "(bit_stream \<Rightarrow> bit_stream option) \<Rightarrow> bool list \<Rightarrow> bool" where
  "appends w xs \<longleftrightarrow> (\<forall>bs. can_write bs (length xs) \<longrightarrow> w bs = Some (append_bits xs bs))"

definition takes :: "(bit_stream \<Rightarrow> ('a \<times> bit_stream) option) \<Rightarrow> 'a \<Rightarrow> bool list \<Rightarrow> bool" where
  "takes r v xs \<longleftrightarrow> (\<forall>bs. reads bs xs \<longrightarrow> r bs = Some (v, skip_bits (length xs) bs))"

lemma appends_then:
  assumes "appends f xs" and "appends g ys"
  shows "appends (\<lambda>bs. Option.bind (f bs) g) (xs @ ys)"
proof -
  have "Option.bind (f bs) g = Some (append_bits (xs @ ys) bs)" if r: "can_write bs (length (xs @ ys))" for bs
  proof -
    have "f bs = Some (append_bits xs bs)" using assms(1) can_write_mono [OF r, of "length xs"] by (simp add: appends_def)
    moreover have "g (append_bits xs bs) = Some (append_bits ys (append_bits xs bs))"
      using assms(2) can_write_append [of bs xs "length ys"] r by (simp add: appends_def)
    ultimately show ?thesis using append_bits_append [of bs xs ys] r by simp
  qed
  then show ?thesis by (simp add: appends_def)
qed

lemma takes_then:
  assumes "takes f v xs" and "takes (g v) u ys"
  shows "takes (\<lambda>bs. Option.bind (f bs) (\<lambda>(v, bs). g v bs)) u (xs @ ys)"
  using assms reads_append by (fastforce simp: takes_def skip_bits_skip)

lemma takes_map: "takes f v xs \<Longrightarrow> takes (\<lambda>bs. map_option (map_prod h id) (f bs)) (h v) xs"
  by (simp add: takes_def)

lemma appends_Some: "appends Some []" and takes_Some: "takes (\<lambda>bs. Some (v, bs)) v []"
  by (simp_all add: appends_def takes_def)

fun write_all :: "('v \<Rightarrow> bit_stream \<Rightarrow> bit_stream option) \<Rightarrow> 'v list \<Rightarrow> bit_stream \<Rightarrow> bit_stream option" where
  "write_all w [] bs = Some bs"
| "write_all w (v # vs) bs = do { bs \<leftarrow> w v bs; write_all w vs bs }"

fun read_all :: "(bit_stream \<Rightarrow> ('v \<times> bit_stream) option) \<Rightarrow> nat \<Rightarrow> bit_stream \<Rightarrow> ('v list \<times> bit_stream) option" where
  "read_all r 0 bs = Some ([], bs)"
| "read_all r (Suc n) bs = do { (v, bs) \<leftarrow> r bs; (vs, bs) \<leftarrow> read_all r n bs; Some (v # vs, bs) }"

lemma write_all_appends: "\<forall>v \<in> set vs. appends (w v) (enc v) \<Longrightarrow> appends (write_all w vs) (concat (map enc vs))"
proof (induction vs)
  case Nil
  then show ?case by (simp add: appends_def)
next
  case (Cons v vs)
  then have "appends (\<lambda>bs. Option.bind (w v bs) (write_all w vs)) (enc v @ concat (map enc vs))" by (intro appends_then) simp_all
  then show ?case by (simp add: appends_def)
qed

lemma read_all_takes: "\<forall>v \<in> set vs. takes r v (enc v) \<Longrightarrow> takes (read_all r (length vs)) vs (concat (map enc vs))"
proof (induction vs)
  case Nil
  then show ?case by (simp add: takes_def)
next
  case (Cons v vs)
  have 1: "takes r v (enc v)" "takes (read_all r (length vs)) vs (concat (map enc vs))" using Cons by simp_all
  have "read_all r (length (v # vs)) bs = Some (v # vs, skip_bits (length (concat (map enc (v # vs)))) bs)"
    if "reads bs (concat (map enc (v # vs)))" for bs
  proof -
    have "reads bs (enc v @ concat (map enc vs))" using that by simp
    from reads_append [OF this] 1 show ?thesis by (simp add: takes_def skip_bits_skip)
  qed
  then show ?case by (simp add: takes_def)
qed

section \<open>The argument types\<close>

datatype arg_type =
    ArgBool
  | ArgWord nat  \<comment> \<open>an unsigned type of so many bytes\<close>
  | ArgInt u8
  | ArgSignedInt u8
  | ArgRangedU32 u32 u32
  | ArgByteBuffer
  | ArgIPAddress
  | ArgVector arg_type

datatype arg =
    BoolArg bool
  | WordArg u32
  | BytesArg mem
  | AddressArg u32 u32  \<comment> \<open>\<^verbatim>\<open>netNum\<close> and \<^verbatim>\<open>port\<close>\<close>
  | VectorArg "arg list"

definition VectorSizeBitSize :: u8 where "VectorSizeBitSize = 8"
definition ByteBufferSizeBitSize :: u8 where "ByteBufferSizeBitSize = 10"

text \<open>\<^verbatim>\<open>write\<close> and \<^verbatim>\<open>read\<close> of a little-endian word; \<open>junk\<close> is what the unset local holds when the read fails.\<close>

definition writeWord :: "nat \<Rightarrow> u32 \<Rightarrow> bit_stream \<Rightarrow> bit_stream option" where
  "writeWord n v bs = map_option snd (writeBytes (of_nat n) (le_bytes n v) bs)"

definition readWord :: "u32 \<Rightarrow> nat \<Rightarrow> bit_stream \<Rightarrow> (u32 \<times> bit_stream) option" where
  "readWord junk n bs = map_option (\<lambda>(ok, m, bs). (if ok then le_value m else take_bit (8 * n) junk, bs)) (readBytes (of_nat n) bs)"

definition writeByteBuffer :: "mem \<Rightarrow> bit_stream \<Rightarrow> bit_stream option" where
  "writeByteBuffer d bs = do {
     bs \<leftarrow> writeInt (of_nat (length d)) ByteBufferSizeBitSize bs;
     map_option snd (writeBytes (of_nat (length d)) d bs) }"

definition readByteBuffer :: "(nat \<Rightarrow> u8) \<Rightarrow> bit_stream \<Rightarrow> (mem \<times> bit_stream) option" where
  "readByteBuffer fresh bs = do {
     (sz, bs) \<leftarrow> readInt ByteBufferSizeBitSize bs;
     (ok, m, bs) \<leftarrow> readBytes sz bs;
     Some (if ok then m else map fresh [0..<unat sz], bs) }"

primrec writeArg :: "arg_type \<Rightarrow> arg \<Rightarrow> bit_stream \<Rightarrow> bit_stream option" where
  "writeArg ArgBool v bs = (case v of BoolArg b \<Rightarrow> map_option snd (writeFlag b bs) | _ \<Rightarrow> None)"
| "writeArg (ArgWord n) v bs = (case v of WordArg x \<Rightarrow> writeWord n x bs | _ \<Rightarrow> None)"
| "writeArg (ArgInt n) v bs = (case v of WordArg x \<Rightarrow> writeInt x n bs | _ \<Rightarrow> None)"
| "writeArg (ArgSignedInt n) v bs = (case v of WordArg x \<Rightarrow> writeSignedInt x n bs | _ \<Rightarrow> None)"
| "writeArg (ArgRangedU32 a b) v bs = (case v of WordArg x \<Rightarrow> writeRangedU32 x a b bs | _ \<Rightarrow> None)"
| "writeArg ArgByteBuffer v bs = (case v of BytesArg d \<Rightarrow> writeByteBuffer d bs | _ \<Rightarrow> None)"
| "writeArg ArgIPAddress v bs = (case v of AddressArg a p \<Rightarrow> do { bs \<leftarrow> writeWord 4 a bs; writeWord 2 p bs } | _ \<Rightarrow> None)"
| "writeArg (ArgVector t) v bs = (case v of VectorArg vs \<Rightarrow> do {
       bs \<leftarrow> writeInt (of_nat (length vs)) VectorSizeBitSize bs;
       write_all (writeArg t) vs bs } | _ \<Rightarrow> None)"

primrec readArg :: "u32 \<Rightarrow> (nat \<Rightarrow> u8) \<Rightarrow> arg_type \<Rightarrow> bit_stream \<Rightarrow> (arg \<times> bit_stream) option" where
  "readArg junk fresh ArgBool bs = map_option (map_prod BoolArg id) (readFlag bs)"
| "readArg junk fresh (ArgWord n) bs = map_option (map_prod WordArg id) (readWord junk n bs)"
| "readArg junk fresh (ArgInt n) bs = map_option (map_prod WordArg id) (readInt n bs)"
| "readArg junk fresh (ArgSignedInt n) bs = map_option (map_prod WordArg id) (readSignedInt n bs)"
| "readArg junk fresh (ArgRangedU32 a b) bs = map_option (map_prod WordArg id) (readRangedU32 a b bs)"
| "readArg junk fresh ArgByteBuffer bs = map_option (map_prod BytesArg id) (readByteBuffer fresh bs)"
| "readArg junk fresh ArgIPAddress bs = do {
     (a, bs) \<leftarrow> readWord junk 4 bs;
     (p, bs) \<leftarrow> readWord junk 2 bs;
     Some (AddressArg a p, bs) }"
| "readArg junk fresh (ArgVector t) bs = do {
     (sz, bs) \<leftarrow> readInt VectorSizeBitSize bs;
     (vs, bs) \<leftarrow> read_all (readArg junk fresh t) (unat sz) bs;
     Some (VectorArg vs, bs) }"

text \<open>An argument of a type, and its bits.\<close>

definition word_valid :: "nat \<Rightarrow> u32 \<Rightarrow> bool" where
  "word_valid n v \<longleftrightarrow> 0 < n \<and> n \<le> 4 \<and> take_bit (8 * n) v = v"

primrec has_type :: "arg_type \<Rightarrow> arg \<Rightarrow> bool" where
  "has_type ArgBool v = (case v of BoolArg b \<Rightarrow> True | _ \<Rightarrow> False)"
| "has_type (ArgWord n) v = (case v of WordArg x \<Rightarrow> word_valid n x | _ \<Rightarrow> False)"
| "has_type (ArgInt n) v = (case v of WordArg x \<Rightarrow> int_valid n x | _ \<Rightarrow> False)"
| "has_type (ArgSignedInt n) v = (case v of WordArg x \<Rightarrow> signed_valid n x | _ \<Rightarrow> False)"
| "has_type (ArgRangedU32 a b) v = (case v of WordArg x \<Rightarrow> ranged_valid (a, b) x | _ \<Rightarrow> False)"
| "has_type ArgByteBuffer v = (case v of BytesArg d \<Rightarrow> length d \<le> 1023 | _ \<Rightarrow> False)"
| "has_type ArgIPAddress v = (case v of AddressArg a p \<Rightarrow> word_valid 2 p | _ \<Rightarrow> False)"
| "has_type (ArgVector t) v = (case v of VectorArg vs \<Rightarrow> length vs \<le> 255 \<and> list_all (has_type t) vs | _ \<Rightarrow> False)"

primrec arg_bits :: "arg_type \<Rightarrow> arg \<Rightarrow> bool list" where
  "arg_bits ArgBool v = (case v of BoolArg b \<Rightarrow> [b] | _ \<Rightarrow> [])"
| "arg_bits (ArgWord n) v = (case v of WordArg x \<Rightarrow> int_bits (8 * n) x | _ \<Rightarrow> [])"
| "arg_bits (ArgInt n) v = (case v of WordArg x \<Rightarrow> int_bits (unat n) x | _ \<Rightarrow> [])"
| "arg_bits (ArgSignedInt n) v = (case v of WordArg x \<Rightarrow> signed_bits n x | _ \<Rightarrow> [])"
| "arg_bits (ArgRangedU32 a b) v = (case v of WordArg x \<Rightarrow> int_bits (ranged_width (a, b)) (x - a) | _ \<Rightarrow> [])"
| "arg_bits ArgByteBuffer v = (case v of BytesArg d \<Rightarrow> data_bits d | _ \<Rightarrow> [])"
| "arg_bits ArgIPAddress v = (case v of AddressArg a p \<Rightarrow> int_bits 32 a @ int_bits 16 p | _ \<Rightarrow> [])"
| "arg_bits (ArgVector t) v = (case v of VectorArg vs \<Rightarrow> int_bits 8 (of_nat (length vs) :: u32) @ concat (map (arg_bits t) vs) | _ \<Rightarrow> [])"

section \<open>Each type is read as it was written\<close>

lemma bytes_append: "length d < 2 ^ 28 \<Longrightarrow> appends (\<lambda>bs. map_option snd (writeBytes (of_nat (length d)) d bs)) (get_bits d 0 (8 * length d))"
  using unat_push3 [of "length d"] by (auto simp: appends_def writeBytes_def writeBits_fits)

lemma bytes_take:
  assumes "n < 2 ^ 28" and "reads bs xs" and "length xs = 8 * n"
  shows "\<exists>m. readBytes (of_nat n) bs = Some (True, m, skip_bits (8 * n) bs) \<and> length m = n \<and> get_bits m 0 (8 * n) = xs"
  using readBits_fits [of bs "push_bit 3 (of_nat n)"] unat_push3 [of n] assms by (auto simp: reads_def readBytes_def)

lemma word_appends: "n \<le> 4 \<Longrightarrow> appends (writeWord n v) (int_bits (8 * n) v)"
  using bytes_append [of "le_bytes n v"] get_bits_le_bytes [of "8 * n" n v] by (simp add: appends_def writeWord_def)

lemma word_takes:
  assumes "word_valid n v"
  shows "takes (readWord junk n) v (int_bits (8 * n) v)"
proof -
  have "readWord junk n bs = Some (v, skip_bits (8 * n) bs)" if r: "reads bs (int_bits (8 * n) v)" for bs
  proof -
    obtain m where m: "readBytes (of_nat n) bs = Some (True, m, skip_bits (8 * n) bs)" "length m = n" "get_bits m 0 (8 * n) = int_bits (8 * n) v"
      using bytes_take [OF _ r, of n] assms by (auto simp: word_valid_def)
    have "get_bits m 0 (8 * length m) = get_bits (le_bytes n v) 0 (8 * length m)" using m(2,3) by (simp add: get_bits_le_bytes)
    then have "m = le_bytes n v" using m(2) by (intro get_bits_inj) simp_all
    then have "le_value m = take_bit (8 * n) v" by (intro bit_word_eqI) (auto simp: bit_view bit_simps)
    then show ?thesis using m(1) assms by (simp add: readWord_def word_valid_def)
  qed
  then show ?thesis by (simp add: takes_def)
qed

lemma u32_appends: "appends (write_u32 v) (int_bits 32 v)"
  using word_appends [of 4 v] by (simp add: appends_def write_u32_def writeWord_def)

lemma u32_takes: "takes (read_u32 junk) v (int_bits 32 v)"
proof -
  have v: "word_valid 4 v" by (simp add: word_valid_def take_bit_word_eq_self)
  have "read_u32 junk = readWord junk 4" using take_bit_word_eq_self [of 32 junk] by (intro ext) (auto simp: read_u32_def readWord_def intro!: option.map_cong)
  then show ?thesis using word_takes [OF v, of junk] by simp
qed

lemma size_appends: "unat n \<le> 32 \<Longrightarrow> appends (writeInt v n) (int_bits (unat n) v)"
  by (simp add: appends_def writeInt_fits)

lemma size_takes: "unat n \<le> 32 \<Longrightarrow> take_bit (unat n) v = v \<Longrightarrow> takes (readInt n) v (int_bits (unat n) v)"
  using readInt_fits by (auto simp: takes_def reads_def)

lemma small_take_bit: "n < 2 ^ k \<Longrightarrow> k \<le> 32 \<Longrightarrow> take_bit k (of_nat n :: u32) = of_nat n"
  by (simp add: take_bit_of_nat take_bit_nat_eq_self)

lemma buffer_appends:
  assumes "length d \<le> 1023"
  shows "appends (writeByteBuffer d) (data_bits d)"
proof -
  have "appends (\<lambda>bs. Option.bind (writeInt (of_nat (length d)) ByteBufferSizeBitSize bs)
      (\<lambda>bs. map_option snd (writeBytes (of_nat (length d)) d bs))) (data_bits d)"
    unfolding data_bits_def using assms size_appends [of ByteBufferSizeBitSize "of_nat (length d)"]
    by (intro appends_then bytes_append) (simp_all add: ByteBufferSizeBitSize_def)
  then show ?thesis by (simp add: appends_def writeByteBuffer_def)
qed

lemma buffer_takes:
  assumes "length d \<le> 1023"
  shows "takes (readByteBuffer fresh) d (data_bits d)"
proof -
  have u: "unat (of_nat (length d) :: u32) = length d" using assms by (simp add: unat_of_nat take_bit_nat_eq_self)
  have "readByteBuffer fresh bs = Some (d, skip_bits (length (data_bits d)) bs)" if r: "reads bs (data_bits d)" for bs
  proof -
    note s = reads_append [OF r [unfolded data_bits_def]]
    have "readInt ByteBufferSizeBitSize bs = Some (of_nat (length d), skip_bits 10 bs)"
      using size_takes [of ByteBufferSizeBitSize "of_nat (length d)"] s assms by (simp add: takes_def ByteBufferSizeBitSize_def small_take_bit)
    moreover obtain m where m: "readBytes (of_nat (length d)) (skip_bits 10 bs) = Some (True, m, skip_bits (8 * length d) (skip_bits 10 bs))"
        "length m = length d" "get_bits m 0 (8 * length d) = get_bits d 0 (8 * length d)"
      using bytes_take [of "length d" "skip_bits 10 bs" "get_bits d 0 (8 * length d)"] s assms by auto
    moreover have "m = d" using m(2,3) by (intro get_bits_inj) simp_all
    ultimately show ?thesis by (simp add: readByteBuffer_def skip_bits_skip)
  qed
  then show ?thesis by (simp add: takes_def)
qed

lemma codec_appends_takes:
  assumes "bit_codec valid enc wr rdr" and "valid f v"
  shows "appends (wr f v) (enc f v)" and "takes (rdr f) v (enc f v)"
  using assms bit_codec.write_appends [OF assms] bit_codec.read_takes [OF assms] by (auto simp: appends_def takes_def reads_def)

lemma writeArg_appends: "has_type t v \<Longrightarrow> appends (writeArg t v) (arg_bits t v)"
proof (induction t arbitrary: v)
  case (ArgVector t)
  then obtain vs where v: "v = VectorArg vs" "length vs \<le> 255" "\<forall>v \<in> set vs. has_type t v"
    by (auto simp: list_all_iff split: arg.splits)
  have "appends (\<lambda>bs. Option.bind (writeInt (of_nat (length vs)) VectorSizeBitSize bs) (write_all (writeArg t) vs))
      (int_bits 8 (of_nat (length vs) :: u32) @ concat (map (arg_bits t) vs))"
    using size_appends [of VectorSizeBitSize "of_nat (length vs)"] v ArgVector.IH
    by (intro appends_then write_all_appends) (simp_all add: VectorSizeBitSize_def)
  then show ?case using v by (simp add: appends_def)
next
  case ArgIPAddress
  then obtain a p where v: "v = AddressArg a p" by (auto split: arg.splits)
  have "appends (\<lambda>bs. Option.bind (writeWord 4 a bs) (writeWord 2 p)) (int_bits 32 a @ int_bits 16 p)"
    using word_appends [of 4 a] word_appends [of 2 p] by (intro appends_then) simp_all
  then show ?case using v by (simp add: appends_def)
next
  case (ArgSignedInt n)
  then show ?case using codec_appends_takes(1) [OF signed_codec.bit_codec_axioms] by (auto simp: appends_def split: arg.splits)
next
  case (ArgRangedU32 a b)
  then show ?case using codec_appends_takes(1) [OF ranged_codec.bit_codec_axioms, of "(a, b)"] by (auto simp: appends_def split: arg.splits)
next
  case ArgByteBuffer
  then show ?case using buffer_appends by (auto simp: appends_def split: arg.splits)
next
  case (ArgWord n)
  then show ?case using word_appends [of n] by (auto simp: appends_def word_valid_def split: arg.splits)
next
  case (ArgInt n)
  then show ?case using size_appends [of n] by (auto simp: appends_def int_valid_def split: arg.splits)
next
  case ArgBool
  then show ?case by (auto simp: appends_def writeFlag_fits split: arg.splits)
qed

lemma readArg_takes: "has_type t v \<Longrightarrow> takes (readArg junk fresh t) v (arg_bits t v)"
proof (induction t arbitrary: v)
  case (ArgVector t)
  then obtain vs where v: "v = VectorArg vs" "length vs \<le> 255" "\<forall>v \<in> set vs. has_type t v"
    by (auto simp: list_all_iff split: arg.splits)
  have u: "unat (of_nat (length vs) :: u32) = length vs" using v(2) by (simp add: unat_of_nat take_bit_nat_eq_self)
  have "readArg junk fresh (ArgVector t) bs = Some (v, skip_bits (length (arg_bits (ArgVector t) v)) bs)"
    if r: "reads bs (arg_bits (ArgVector t) v)" for bs
  proof -
    have "reads bs (int_bits 8 (of_nat (length vs) :: u32) @ concat (map (arg_bits t) vs))" using r v(1) by simp
    note s = reads_append [OF this]
    have "readInt VectorSizeBitSize bs = Some (of_nat (length vs), skip_bits 8 bs)"
      using size_takes [of VectorSizeBitSize "of_nat (length vs)"] s v(2) by (simp add: takes_def VectorSizeBitSize_def small_take_bit)
    moreover have "takes (read_all (readArg junk fresh t) (length vs)) vs (concat (map (arg_bits t) vs))"
      using v(3) ArgVector.IH by (intro read_all_takes) simp
    ultimately show ?thesis using s u v(1) by (simp add: takes_def skip_bits_skip)
  qed
  then show ?case by (simp add: takes_def)
next
  case ArgIPAddress
  then obtain a p where v: "v = AddressArg a p" "word_valid 2 p" by (auto split: arg.splits)
  have "readArg junk fresh ArgIPAddress bs = Some (v, skip_bits (length (arg_bits ArgIPAddress v)) bs)"
    if r: "reads bs (arg_bits ArgIPAddress v)" for bs
  proof -
    have "reads bs (int_bits 32 a @ int_bits 16 p)" using r v(1) by simp
    note s = reads_append [OF this]
    moreover have "word_valid 4 a" by (simp add: word_valid_def take_bit_word_eq_self)
    ultimately show ?thesis using word_takes [of 4 a junk] word_takes [OF v(2), of junk] v(1)
      by (simp add: takes_def skip_bits_skip)
  qed
  then show ?case by (simp add: takes_def)
next
  case (ArgSignedInt n)
  then show ?case using codec_appends_takes(2) [OF signed_codec.bit_codec_axioms] by (auto simp: takes_def split: arg.splits)
next
  case (ArgRangedU32 a b)
  then show ?case using codec_appends_takes(2) [OF ranged_codec.bit_codec_axioms, of "(a, b)"] by (auto simp: takes_def split: arg.splits)
next
  case ArgByteBuffer
  then show ?case using buffer_takes by (auto simp: takes_def split: arg.splits)
next
  case (ArgWord n)
  then show ?case using word_takes [of n] by (auto simp: takes_def split: arg.splits)
next
  case (ArgInt n)
  then show ?case using codec_appends_takes(2) [OF int_codec.bit_codec_axioms, of n] by (auto simp: takes_def split: arg.splits)
next
  case ArgBool
  then show ?case using reads_flag by (fastforce simp: takes_def split: arg.splits)
qed

section \<open>Remote calls as events\<close>

text \<open>
  A declared method: what \<^verbatim>\<open>TNL_IMPLEMENT_RPC\<close> gives. The event of a call is an \<^verbatim>\<open>RPCEvent\<close> with the functor of its
  arguments; \<open>unset\<close> are the arguments of a functor not read yet.
\<close>

record rpc_decl =
  declArgs :: "arg_type list"
  declGuarantee :: guarantee_type
  declDirection :: event_direction

record rpc_event =
  rpcClassId :: u32
  rpcGuarantee :: guarantee_type
  rpcDirection :: event_direction
  functorTypes :: "arg_type list"
  functorArgs :: "arg list"

definition RPCEvent_new :: "rpc_decl \<Rightarrow> u32 \<Rightarrow> arg list \<Rightarrow> rpc_event" where
  "RPCEvent_new d i args = \<lparr>rpcClassId = i, rpcGuarantee = declGuarantee d, rpcDirection = declDirection d,
     functorTypes = declArgs d, functorArgs = args\<rparr>"

fun functor_write :: "arg_type list \<Rightarrow> arg list \<Rightarrow> bit_stream \<Rightarrow> bit_stream option" where
  "functor_write (t # ts) (v # vs) bs = do { bs \<leftarrow> writeArg t v bs; functor_write ts vs bs }"
| "functor_write _ _ bs = Some bs"

fun functor_read :: "u32 \<Rightarrow> (nat \<Rightarrow> u8) \<Rightarrow> arg_type list \<Rightarrow> bit_stream \<Rightarrow> (arg list \<times> bit_stream) option" where
  "functor_read junk fresh [] bs = Some ([], bs)"
| "functor_read junk fresh (t # ts) bs = do {
     (v, bs) \<leftarrow> readArg junk fresh t bs;
     (vs, bs) \<leftarrow> functor_read junk fresh ts bs;
     Some (v # vs, bs) }"

definition RPCEvent_pack :: "rpc_event \<Rightarrow> bit_stream \<Rightarrow> bit_stream option" where
  "RPCEvent_pack e bs = functor_write (functorTypes e) (functorArgs e) bs"

definition RPCEvent_unpack :: "u32 \<Rightarrow> (nat \<Rightarrow> u8) \<Rightarrow> rpc_event \<Rightarrow> bit_stream \<Rightarrow> (bit_stream \<times> rpc_event) option" where
  "RPCEvent_unpack junk fresh e bs = map_option (\<lambda>(vs, bs). (bs, e\<lparr>functorArgs := vs\<rparr>)) (functor_read junk fresh (functorTypes e) bs)"

definition RPCEvent_process :: "bool \<Rightarrow> (u32 \<Rightarrow> arg list \<Rightarrow> 'u \<Rightarrow> 'u) \<Rightarrow> rpc_event \<Rightarrow> 'u \<Rightarrow> 'u" where
  "RPCEvent_process checkClassType dispatch e user = (if checkClassType then dispatch (rpcClassId e) (functorArgs e) user else user)"

text \<open>\<open>dispatch\<close> is the body of the methods; \<open>ofClass\<close> says for which of them the connection is of the class that declares them.\<close>

definition rpc_ops ::
  "rpc_decl list \<Rightarrow> u32 \<Rightarrow> (nat \<Rightarrow> u8) \<Rightarrow> (u32 \<Rightarrow> bool) \<Rightarrow> (u32 \<Rightarrow> arg list \<Rightarrow> 'u \<Rightarrow> 'u) \<Rightarrow> (rpc_event, 'u) event_class" where
  "rpc_ops decls junk fresh ofClass dispatch = \<lparr>
     getClassId = rpcClassId, mGuaranteeType = rpcGuarantee, mEventDirection = rpcDirection,
     pack = (\<lambda>e bs c. map_option (\<lambda>bs. (bs, c)) (RPCEvent_pack e bs)),
     createEvent = (\<lambda>i. if unat i < length decls then Some (RPCEvent_new (decls ! unat i) i []) else None),
     unpack = (\<lambda>e bs c. map_option (\<lambda>(bs, e). (bs, e, c)) (RPCEvent_unpack junk fresh e bs)),
     process = (\<lambda>e c. Some (set_ev (\<lambda>s. s\<lparr>mUser := RPCEvent_process (ofClass (rpcClassId e)) dispatch e (mUser s)\<rparr>) c)),
     notifyPosted = (\<lambda>e c. Some c), notifySent = (\<lambda>e c. Some c), notifyDelivered = (\<lambda>e ok c. Some c)\<rparr>"

text \<open>A call as the program makes it, and its bits.\<close>

definition functor_bits :: "arg_type list \<Rightarrow> arg list \<Rightarrow> bool list" where
  "functor_bits ts vs = concat (map2 arg_bits ts vs)"

definition rpc_bits :: "rpc_event \<Rightarrow> bool list" where
  "rpc_bits e = functor_bits (functorTypes e) (functorArgs e)"

definition rpc_valid :: "rpc_decl list \<Rightarrow> nat \<Rightarrow> rpc_event \<Rightarrow> bool" where
  "rpc_valid decls maxBits e \<longleftrightarrow> unat (rpcClassId e) < length decls \<and>
     e = RPCEvent_new (decls ! unat (rpcClassId e)) (rpcClassId e) (functorArgs e) \<and>
     list_all2 has_type (functorTypes e) (functorArgs e) \<and> length (rpc_bits e) \<le> maxBits"

lemma functor_appends: "list_all2 has_type ts vs \<Longrightarrow> appends (functor_write ts vs) (functor_bits ts vs)"
proof (induction ts vs rule: list_all2_induct)
  case Nil
  then show ?case by (simp add: appends_def functor_bits_def)
next
  case (Cons t ts v vs)
  have "appends (\<lambda>bs. Option.bind (writeArg t v bs) (functor_write ts vs)) (arg_bits t v @ functor_bits ts vs)"
    using Cons by (intro appends_then writeArg_appends)
  then show ?case by (simp add: appends_def functor_bits_def)
qed

lemma functor_takes: "list_all2 has_type ts vs \<Longrightarrow> takes (functor_read junk fresh ts) vs (functor_bits ts vs)"
proof (induction ts vs rule: list_all2_induct)
  case Nil
  then show ?case by (simp add: takes_def functor_bits_def)
next
  case (Cons t ts v vs)
  note t = readArg_takes [OF Cons.hyps(1), of junk fresh]
  have "functor_read junk fresh (t # ts) bs = Some (v # vs, skip_bits (length (functor_bits (t # ts) (v # vs))) bs)"
    if r: "reads bs (functor_bits (t # ts) (v # vs))" for bs
  proof -
    have "reads bs (arg_bits t v @ functor_bits ts vs)" using r by (simp add: functor_bits_def)
    from reads_append [OF this] show ?thesis using t Cons.IH by (simp add: takes_def functor_bits_def skip_bits_skip)
  qed
  then show ?case by (simp add: takes_def)
qed

interpretation rpc: event_ops "rpc_ops decls junk fresh ofClass dispatch" "rpc_valid decls maxBits" rpc_bits maxBits
  "\<lambda>e u. u" "\<lambda>e u. u" "\<lambda>e. RPCEvent_process (ofClass (rpcClassId e)) dispatch e" "\<lambda>e ok u. u"
  for decls junk fresh ofClass dispatch maxBits
proof unfold_locales
  fix e :: rpc_event and bs c
  assume v: "rpc_valid decls maxBits e"
  show "length (rpc_bits e) \<le> maxBits" using v by (simp add: rpc_valid_def)
  show "pack (rpc_ops decls junk fresh ofClass dispatch) e bs c = Some (append_bits (rpc_bits e) bs, c)"
    if "can_write bs (length (rpc_bits e))"
    using functor_appends [of "functorTypes e" "functorArgs e"] v that
    by (simp add: rpc_ops_def RPCEvent_pack_def rpc_bits_def rpc_valid_def appends_def)
  have "\<exists>d i. e = RPCEvent_new d i (functorArgs e) \<and> createEvent (rpc_ops decls junk fresh ofClass dispatch) (rpcClassId e) = Some (e\<lparr>functorArgs := []\<rparr>)"
    using v by (cases e) (auto simp: rpc_valid_def rpc_ops_def RPCEvent_new_def)
  moreover have "functor_read junk fresh (functorTypes e) bs = Some (functorArgs e, skip_bits (length (rpc_bits e)) bs)"
    if "can_read bs (length (rpc_bits e))" "next_bits bs (length (rpc_bits e)) = rpc_bits e" for bs
    using functor_takes [of "functorTypes e" "functorArgs e" junk fresh] v that
    by (simp add: rpc_valid_def takes_def reads_def rpc_bits_def)
  ultimately show "\<exists>x. createEvent (rpc_ops decls junk fresh ofClass dispatch) (getClassId (rpc_ops decls junk fresh ofClass dispatch) e) = Some x \<and>
      mEventDirection (rpc_ops decls junk fresh ofClass dispatch) x = mEventDirection (rpc_ops decls junk fresh ofClass dispatch) e \<and>
      (\<forall>bs c. can_read bs (length (rpc_bits e)) \<longrightarrow> next_bits bs (length (rpc_bits e)) = rpc_bits e \<longrightarrow>
        unpack (rpc_ops decls junk fresh ofClass dispatch) x bs c = Some (skip_bits (length (rpc_bits e)) bs, e, c))"
    by (auto simp: rpc_ops_def RPCEvent_unpack_def)
qed (simp_all add: rpc_ops_def)

end
