(* ===== verification/Event_Delivery.thy ===== *)
theory Event_Delivery
  imports Remote_Calls Sample_Connection
begin

text \<open>
  Remote calls from one end of a connection to the other: the promises of \<open>Event_System\<close> at the event class of the calls. Both
  ends start as the constructors and the negotiation leave them, with class numbers of \<open>k\<close> bits.
\<close>

section \<open>The start\<close>

definition fresh_end :: "nat \<Rightarrow> ('e, 'u) event_connection \<Rightarrow> bool" where
  "fresh_end k c \<longleftrightarrow> (let s = mSub c in
     mNotifyEventList s = [] \<and> mSendEventQueue s = [] \<and> mUnorderedSendEventQueue s = [] \<and> mWaitSeqEvents s = [] \<and>
     mNextSendEventSeq s = FirstValidSendEventSeq \<and> mNextRecvEventSeq s = FirstValidSendEventSeq \<and> mLastAckedEventSeq s = - 1 \<and>
     unat (ucast (mEventClassBitSize s) :: u8) = k) \<and> k \<le> 32 \<and>
     mConnectionState c = Connected \<and> mErrorBuffer c = [] \<and> \<not> mDebugObjectSizes (mConnectionParameters c)"

lemma fresh_endD:
  "fresh_end k c \<Longrightarrow> mSub c = EventConnection_new (mEventClassVersion (mSub c)) (mUser (mSub c))
     \<lparr>mEventClassBitSize := mEventClassBitSize (mSub c), mEventClassCount := mEventClassCount (mSub c)\<rparr>"
  by (cases "mSub c") (simp add: fresh_end_def EventConnection_new_def Let_def)

definition calls_start :: "nat \<Rightarrow> (rpc_event, 'u) event_system \<Rightarrow> bool" where
  "calls_start k S \<longleftrightarrow> fresh_end k (sender S) \<and> fresh_end k (receiver S) \<and> inFlight S = [] \<and> postedEvents S = []"

text \<open>The calls the receiver takes: declared, small enough, in its range of classes and in the right direction.\<close>

definition call_accepted :: "rpc_decl list \<Rightarrow> nat \<Rightarrow> nat \<Rightarrow> (rpc_event, 'u) event_connection \<Rightarrow> rpc_event \<Rightarrow> bool" where
  "call_accepted decls maxBits k r e \<longleftrightarrow> rpc_valid decls maxBits e \<and> rpcClassId e < mEventClassCount (mSub r) \<and>
     take_bit k (rpcClassId e) = rpcClassId e \<and> directionAllowed (rpcDirection e) r"

definition packet_fits :: "nat \<Rightarrow> nat \<Rightarrow> bit_stream \<Rightarrow> bool" where
  "packet_fits maxBits k bs \<longleftrightarrow> roomy maxBits k bs \<and> stream_ok bs"

definition calls_run ::
  "rpc_decl list \<Rightarrow> u32 \<Rightarrow> (nat \<Rightarrow> u8) \<Rightarrow> (u32 \<Rightarrow> bool) \<Rightarrow> (u32 \<Rightarrow> arg list \<Rightarrow> 'u \<Rightarrow> 'u) \<Rightarrow> nat \<Rightarrow> nat \<Rightarrow>
   (rpc_event, 'u) event_system \<Rightarrow> (rpc_event, 'u) event_system \<Rightarrow> bool" where
  "calls_run decls junk fresh ofClass dispatch maxBits k S0 S \<longleftrightarrow> calls_start k S0 \<and>
     (event_step (rpc_ops decls junk fresh ofClass dispatch) (call_accepted decls maxBits k (receiver S0)) (packet_fits maxBits k))\<^sup>*\<^sup>* S0 S"

lemma rpc_ops_fields [simp]:
  "getClassId (rpc_ops decls junk fresh ofClass dispatch) = rpcClassId"
  "mGuaranteeType (rpc_ops decls junk fresh ofClass dispatch) = rpcGuarantee"
  "mEventDirection (rpc_ops decls junk fresh ofClass dispatch) = rpcDirection"
  by (simp_all add: rpc_ops_def)

lemma calls_inv:
  assumes "calls_run decls junk fresh ofClass dispatch maxBits k S0 S"
  shows "rpc.ev_inv decls junk fresh ofClass dispatch maxBits k (call_accepted decls maxBits k (receiver S0)) (mUser (mSub (receiver S0))) S"
proof (rule rpc.inv_reachable)
  have s: "calls_start k S0" using assms by (simp add: calls_run_def)
  show "\<forall>e. call_accepted decls maxBits k (receiver S0) e \<longrightarrow> rpc_valid decls maxBits e" by (simp add: call_accepted_def)
  show "(event_step (rpc_ops decls junk fresh ofClass dispatch) (call_accepted decls maxBits k (receiver S0))
      (\<lambda>bs. roomy maxBits k bs \<and> stream_ok bs))\<^sup>*\<^sup>* S0 S"
    using assms by (simp add: calls_run_def packet_fits_def [abs_def])
  show "rpc.ev_inv decls junk fresh ofClass dispatch maxBits k (call_accepted decls maxBits k (receiver S0)) (mUser (mSub (receiver S0))) S0"
  proof (rule rpc.ev_inv_start)
    show "rpc.ends_ok decls junk fresh ofClass dispatch maxBits k (call_accepted decls maxBits k (receiver S0)) S0"
      using s by (simp add: rpc.ends_ok_def calls_start_def fresh_end_def rpc.class_bits_def rpc.ready_def rpc.accepts_def call_accepted_def Let_def)
    show "mSub (sender S0) = EventConnection_new (mEventClassVersion (mSub (sender S0))) (mUser (mSub (sender S0)))
       \<lparr>mEventClassBitSize := mEventClassBitSize (mSub (sender S0)), mEventClassCount := mEventClassCount (mSub (sender S0))\<rparr>"
      and "mSub (receiver S0) = EventConnection_new (mEventClassVersion (mSub (receiver S0))) (mUser (mSub (receiver S0)))
       \<lparr>mEventClassBitSize := mEventClassBitSize (mSub (receiver S0)), mEventClassCount := mEventClassCount (mSub (receiver S0))\<rparr>"
      using s fresh_endD unfolding calls_start_def by blast+
  qed (use s in \<open>simp_all add: calls_start_def\<close>)
qed

section \<open>The calls of the master server\<close>

text \<open>The methods of \<^verbatim>\<open>master/masterInterface.cpp\<close> whose arguments are of the types modelled.\<close>

abbreviation ArgU32 :: arg_type where "ArgU32 \<equiv> ArgWord 4"

definition masterCalls :: "rpc_decl list" where
  "masterCalls = map (\<lambda>(d, ts). \<lparr>declArgs = ts, declGuarantee = GuaranteedOrdered, declDirection = d\<rparr>)
    [(DirClientToServer, [ArgU32]),
     (DirServerToClient, [ArgU32, ArgVector ArgIPAddress]),
     (DirClientToServer, [ArgU32, ArgIPAddress, ArgIPAddress, ArgByteBuffer]),
     (DirServerToClient, [ArgU32, ArgVector ArgIPAddress, ArgByteBuffer]),
     (DirClientToServer, [ArgU32, ArgIPAddress, ArgByteBuffer]),
     (DirClientToServer, [ArgU32, ArgByteBuffer]),
     (DirServerToClient, [ArgU32, ArgVector ArgIPAddress, ArgByteBuffer]),
     (DirServerToClient, [ArgU32, ArgByteBuffer])]"

section \<open>A concrete run\<close>

text \<open>An end that has agreed on the eight classes and logs the calls made on it.\<close>

definition master_end :: "u32 \<Rightarrow> (rpc_event, (u32 \<times> arg list) list) event_connection" where
  "master_end flags = (NetConnection_new 0 [1, 2, 3, 4, 5, 6, 7, 8] (raw_connection
     (EventConnection_new 0 []\<lparr>mEventClassCount := 8, mEventClassBitSize := 3\<rparr>)))\<lparr>mConnectionState := Connected, mTypeFlags := flags\<rparr>"

definition master_ops :: "(rpc_event, (u32 \<times> arg list) list) event_class" where
  "master_ops = rpc_ops masterCalls 0 (\<lambda>_. 0xCC) (\<lambda>_. True) (\<lambda>i vs l. l @ [(i, vs)])"

definition master_call :: "u32 \<Rightarrow> arg list \<Rightarrow> rpc_event" where
  "master_call i vs = RPCEvent_new (masterCalls ! unat i) i vs"

text \<open>The client asks for the game types twice over.\<close>

definition master_start :: "(rpc_event, (u32 \<times> arg list) list) event_system" where
  "master_start = \<lparr>sender = master_end ConnectionToServer, receiver = master_end ConnectionToClient, inFlight = [], postedEvents = []\<rparr>"

definition small_stream :: bit_stream where
  "small_stream = \<lparr>mDataPtr = replicate 32 0, mBufSize = 8, mOwnsMemory = False, mFresh = (\<lambda>_. 0xCC), bitNum = 0,
     error = False, mCompressRelative = False, maxReadBitNum = 256, maxWriteBitNum = 256, mStringTableSet = False, mStringBuffer = []\<rparr>"

definition empty_note :: "rpc_event event_note list packet_notify" where
  "empty_note = \<lparr>rateChanged = False, sendTime = 0, stringList = [], noteData = []\<rparr>"

lemma master_fields:
  "mSub (master_end f) = EventConnection_new 0 []\<lparr>mEventClassCount := 8, mEventClassBitSize := 3\<rparr>"
  "mConnectionState (master_end f) = Connected" "mErrorBuffer (master_end f) = []"
  "\<not> mDebugObjectSizes (mConnectionParameters (master_end f))" "mTypeFlags (master_end f) = f"
  by (simp_all add: master_end_def NetConnection_new_def raw_connection_def computeNegotiatedRate_def Let_def)

lemma master_starts: "calls_start 3 master_start"
  by (simp add: calls_start_def fresh_end_def master_start_def master_fields EventConnection_new_def Let_def)

definition query :: rpc_event where "query = master_call 0 [WordArg 7]"

lemma query_fields: "rpcClassId query = 0" "rpcGuarantee query = GuaranteedOrdered" "rpcDirection query = DirClientToServer"
    "functorTypes query = [ArgU32]" "functorArgs query = [WordArg 7]" "rpc_bits query = int_bits 32 (7 :: u32)"
  by (simp_all add: query_def master_call_def RPCEvent_new_def masterCalls_def rpc_bits_def functor_bits_def)

lemma query_valid: "rpc_valid masterCalls 32 query"
proof -
  have "length masterCalls = 8" by (simp add: masterCalls_def)
  moreover have "word_valid 4 7" by (simp add: word_valid_def take_bit_word_eq_self)
  moreover have "query = RPCEvent_new (masterCalls ! 0) 0 [WordArg 7]" by (simp add: query_def master_call_def)
  ultimately show ?thesis by (simp add: rpc_valid_def query_fields)
qed

lemma query_accepted: "call_accepted masterCalls 32 3 (receiver master_start) query"
  using query_valid by (simp add: call_accepted_def query_fields master_start_def master_fields EventConnection_new_def directionAllowed_def
      isConnectionToServer_def ConnectionToServer_def ConnectionToClient_def)

lemma small_fits: "packet_fits 32 3 small_stream"
  by (simp add: packet_fits_def roomy_def small_stream_def stream_ok_def)

text \<open>The client posts the query.\<close>

definition asked :: "(rpc_event, (u32 \<times> arg list) list) event_connection" where
  "asked = set_ev (\<lambda>s. s\<lparr>mNextSendEventSeq := 1, mSendEventQueue := [\<lparr>mEvent = query, mSeqCount = 0\<rparr>]\<rparr>) (sender master_start)"

lemma query_posted: "postNetEvent master_ops query (sender master_start) = Some (True, asked)"
proof -
  have "\<not> rpcClassId query \<ge> mEventClassCount (mSub (sender master_start))"
    by (simp add: query_fields master_start_def master_fields EventConnection_new_def)
  then show ?thesis
    by (simp add: postNetEvent_def master_ops_def query_fields rpc_ops_def asked_def master_start_def master_fields EventConnection_new_def
        FirstValidSendEventSeq_def inc_s32_def Let_def)
qed

text \<open>The packet with it, its arrival and its acknowledgement.\<close>

interpretation master: event_ops master_ops "rpc_valid masterCalls 32" rpc_bits 32 "\<lambda>e u. u" "\<lambda>e u. u"
    "\<lambda>e. RPCEvent_process True (\<lambda>i vs l. l @ [(i, vs)]) e" "\<lambda>e ok u. u"
  unfolding master_ops_def by (rule rpc.event_ops_axioms)

definition query_note :: "rpc_event event_note list packet_notify" where
  "query_note = empty_note\<lparr>noteData := [\<lparr>mEvent = query, mSeqCount = 0\<rparr>]\<rparr>"

definition waiting_answer :: "(rpc_event, (u32 \<times> arg list) list) event_connection" where
  "waiting_answer = set_ev (\<lambda>s. s\<lparr>mSendEventQueue := []\<rparr>) asked"

lemma query_sent: "\<exists>bs. ev_writePacket master_ops small_stream empty_note asked = Some (bs, query_note, waiting_answer) \<and> unat (bitNum bs) \<le> 256"
proof -
  have k: "mEventClassBitSize (mSub asked) = 3" "\<not> mDebugObjectSizes (mConnectionParameters asked)" "mLastAckedEventSeq (mSub asked) = - 1"
      "mUnorderedSendEventQueue (mSub asked) = []" "mSendEventQueue (mSub asked) = [\<lparr>mEvent = query, mSeqCount = 0\<rparr>]"
    by (simp_all add: asked_def master_start_def master_fields EventConnection_new_def)
  have w0: "wrote small_stream [] small_stream"
    by (rule wrote_Nil) (simp add: can_write_def small_stream_def stream_ok_def)
  have room: "can_write bs n \<longleftrightarrow> length xs + n \<le> 256" if "wrote small_stream xs bs" for xs bs n
    using wrote_room [OF that] by (simp add: small_stream_def)
  obtain b1 where b1: "writeFlag False small_stream = Some (False, b1)" "wrote small_stream [False] b1"
    using wrote_flag [OF w0, of False] room [OF w0] by auto
  obtain b2 where b2: "writeFlag True b1 = Some (True, b2)" "wrote small_stream [False, True] b2"
    using wrote_flag [OF b1(2), of True] room [OF b1(2)] by auto
  obtain b3 where b3: "writeFlag False b2 = Some (False, b3)" "wrote small_stream [False, True, False] b3"
    using wrote_flag [OF b2(2), of False] room [OF b2(2)] by auto
  obtain b4 where b4: "writeInt 0 7 b3 = Some b4" "wrote small_stream ([False, True, False] @ int_bits 7 (0 :: u32)) b4"
    using wrote_int [OF b3(2), of 7 0] room [OF b3(2)] by auto
  let ?ev = "\<lparr>mEvent = query, mSeqCount = 0\<rparr>"
  have c: "master.class_bits asked = 3" by (simp add: master.class_bits_def k)
  have r4: "can_write b4 (3 + length (rpc_bits (mEvent ?ev)))" using room [OF b4(2)] by (simp add: query_fields)
  have v: "rpc_valid masterCalls 32 (mEvent ?ev)" using query_valid by simp
  obtain b5 xs where b5: "writeEvent master_ops (bitNum b4) ?ev b4 asked = Some (b5, asked)"
      "wrote small_stream (([False, True, False] @ int_bits 7 (0 :: u32)) @ xs) b5" "length xs \<le> 35"
    using master.writeEvent_appends [OF v k(2) c _ b4(2) r4, of "bitNum b4"] master.length_payload [OF v, of 3] by auto
  have full: "\<not> isFull b1" using b1(2) by (simp add: isFull_def wrote_def small_stream_def word_less_nat_alt)
  have space: "\<not> getBitSpaceAvailable b5 < MinimumPaddingBits"
  proof -
    have "unat (bitNum b5) = 10 + length xs" "maxWriteBitNum b5 = 256" using b5(2) by (simp_all add: wrote_def small_stream_def)
    then have "unat (maxWriteBitNum b5 - bitNum b5) = 246 - length xs"
      using b5(3) by (subst unat_sub) (simp_all add: word_le_nat_alt)
    then show ?thesis using b5(3) by (simp add: getBitSpaceAvailable_def MinimumPaddingBits_def word_less_nat_alt)
  qed
  define c' where "c' = set_ev (\<lambda>s. s\<lparr>mSendEventQueue := tl (mSendEventQueue s)\<rparr>) asked"
  have c': "c' = waiting_answer" by (simp add: c'_def waiting_answer_def k)
  have d: "debugAdvance asked b = b" for b using k(2) by (simp add: debugAdvance_def)
  have "writeOrdered master_ops 0 [?ev] b5 c' = Some (b5, [?ev], c')"
    by (subst writeOrdered.simps) (simp add: c'_def k)
  then have "writeOrdered master_ops (- 2) [] b1 asked = Some (b5, [?ev], c')"
    by (subst writeOrdered.simps) (simp add: k(3,5) full b2(1) b3(1) b4(1) d b5(1) space c'_def)
  moreover have "writeUnordered master_ops [] small_stream asked = Some (small_stream, [], asked)"
    by (subst writeUnordered.simps) (simp add: k)
  moreover have "notifySent master_ops query c' = Some c'" by (simp add: master_ops_def rpc_ops_def)
  moreover obtain b6 where b6: "writeFlag False b5 = Some (False, b6)" "unat (bitNum b6) \<le> 256"
    using wrote_flag [OF b5(2), of False] room [OF b5(2)] b5(3) by (auto simp: wrote_def small_stream_def)
  ultimately have "ev_writePacket master_ops small_stream empty_note asked = Some (b6, query_note, waiting_answer)"
    using k(2) b1(1) by (simp add: ev_writePacket_def query_note_def flip: c')
  then show ?thesis using b6(2) by blast
qed

text \<open>The packet as it leaves is read from the start of a stream of the size of its block.\<close>

lemma reads_somewhere:
  assumes "length xs < 2 ^ 28"
  shows "\<exists>bs. reads bs xs"
proof -
  let ?n = "length xs" and ?m = "replicate (length xs) (0 :: u8)"
  define b where "b = \<lparr>mDataPtr = ?m, mBufSize = of_nat ?n, mOwnsMemory = False, mFresh = (\<lambda>_. 0xCC), bitNum = 0,
     error = False, mCompressRelative = False, maxReadBitNum = of_nat ?n, maxWriteBitNum = of_nat ?n, mStringTableSet = False, mStringBuffer = []\<rparr>"
  have u: "unat (of_nat ?n :: u32) = ?n" using assms by (simp add: unat_of_nat take_bit_nat_eq_self)
  have w: "can_write b ?n" by (simp add: can_write_def b_def stream_ok_def u)
  have "can_read ((append_bits xs b)\<lparr>bitNum := bitNum b\<rparr>) ?n" by (simp add: can_read_def append_bits_def b_def stream_ok_def u)
  then show ?thesis using next_bits_append_bits [OF w] by (auto simp: reads_def)
qed

abbreviation master_run :: "(rpc_event, (u32 \<times> arg list) list) event_system \<Rightarrow> bool" where
  "master_run S \<equiv> calls_run masterCalls 0 (\<lambda>_. 0xCC) (\<lambda>_. True) (\<lambda>i vs l. l @ [(i, vs)]) 32 3 master_start S"

lemma master_run_step:
  "master_run S \<Longrightarrow> event_step master_ops (call_accepted masterCalls 32 3 (receiver master_start)) (packet_fits 32 3) S S' \<Longrightarrow> master_run S'"
  by (auto simp: calls_run_def master_ops_def intro: rtranclp.rtrancl_into_rtrancl)

lemma master_run_inv: "master_run S \<Longrightarrow> master.ev_inv 3 (call_accepted masterCalls 32 3 (receiver master_start)) [] S"
  using calls_inv [of masterCalls 0 "\<lambda>_. 0xCC" "\<lambda>_. True" "\<lambda>i vs l. l @ [(i, vs)]" 32 3 master_start S]
  by (simp add: master_ops_def master_start_def master_fields EventConnection_new_def)

lemma query_acked:
  "\<exists>s. ev_packetReceived master_ops query_note waiting_answer = Some s \<and> mSendEventQueue (mSub s) = [] \<and> mUnorderedSendEventQueue (mSub s) = []"
  by (simp add: ev_packetReceived_def query_note_def waiting_answer_def asked_def base_packetReceived_def master_start_def master_fields
      EventConnection_new_def master_ops_def rpc_ops_def query_fields insertAt_def inc_s32_def)

text \<open>The whole run: posted, sent, delivered, acknowledged.\<close>

lemma query_run:
  "\<exists>S. master_run S \<and> postedEvents S = [query] \<and> inFlight S = [] \<and> mSendEventQueue (mSub (sender S)) = [] \<and>
     mUnorderedSendEventQueue (mSub (sender S)) = []"
proof -
  let ?adm = "call_accepted masterCalls 32 3 (receiver master_start)"
  let ?step = "event_step master_ops ?adm (packet_fits 32 3)"
  define S1 where "S1 = master_start\<lparr>sender := asked, postedEvents := [query]\<rparr>"
  have "?step master_start S1"
    using event_step.post [of ?adm query master_ops master_start asked "packet_fits 32 3", OF query_accepted query_posted]
    by (simp add: S1_def master_start_def)
  moreover have "master_run master_start" by (simp add: calls_run_def master_starts)
  ultimately have 1: "master_run S1" by (rule master_run_step [rotated])
  obtain bs where w: "ev_writePacket master_ops small_stream empty_note (sender S1) = Some (bs, query_note, waiting_answer)" "unat (bitNum bs) \<le> 256"
    using query_sent by (auto simp: S1_def)
  let ?p = "\<lparr>packetBits = next_bits (bs\<lparr>bitNum := bitNum small_stream\<rparr>) (unat (bitNum bs) - unat (bitNum small_stream)),
    packetNote = query_note, packetFate = Pending\<rparr>"
  define S2 where "S2 = S1\<lparr>sender := waiting_answer, inFlight := [?p]\<rparr>"
  have "?step S1 S2" using event_step.send [of "packet_fits 32 3" small_stream, OF small_fits w(1), of ?adm] by (simp add: S2_def S1_def master_start_def)
  then have 2: "master_run S2" by (rule master_run_step [OF 1])
  have f2: "inFlight S2 = [] @ ?p # []" by (simp add: S2_def)
  have "length (packetBits ?p) < 2 ^ 28" using w(2) by simp
  then obtain rs where rs: "reads rs (packetBits ?p)" using reads_somewhere by blast
  obtain bs' r where r: "ev_readPacket master_ops rs (receiver S2) = Some (bs', r)"
    using master.inv_deliver [OF master_run_inv [OF 2] f2 _ rs] by auto
  define S3 where "S3 = S2\<lparr>receiver := r, inFlight := [?p\<lparr>packetFate := Arrived\<rparr>]\<rparr>"
  have "?step S2 S3" unfolding S3_def using event_step.deliver [OF f2 _ rs r] by simp
  then have 3: "master_run S3" by (rule master_run_step [OF 2])
  have f3: "inFlight S3 = [] @ ?p\<lparr>packetFate := Arrived\<rparr> # []" by (simp add: S3_def)
  obtain s where s: "ev_packetReceived master_ops query_note (sender S3) = Some s" "mSendEventQueue (mSub s) = []" "mUnorderedSendEventQueue (mSub s) = []"
    using query_acked by (auto simp: S3_def S2_def)
  define S4 where "S4 = S3\<lparr>sender := s, inFlight := []\<rparr>"
  have "?step S3 S4" unfolding S4_def using event_step.acked [OF f3, of master_ops s] s(1) by simp
  then have "master_run S4" by (rule master_run_step [OF 3])
  then show ?thesis using s by (intro exI [of _ S4]) (simp add: S4_def S3_def S2_def S1_def)
qed

section \<open>What the calls are promised\<close>







end
