(* ===== verification/Call_Safety.thy ===== *)
theory Call_Safety
  imports Remote_Calls
begin

text \<open>
  Remote calls out of packets that anyone may have sent, and calls whose arguments do not fit their coding. Reading never
  faults and yields arguments of the declared types, but for the ranges, which are not checked: a value past the end of a
  \<^verbatim>\<open>RangedU32\<close> gets through. A vector of more than 255 elements leaves its reader in the middle of its elements.
\<close>

section \<open>The types of what is read\<close>

primrec well_formed :: "arg_type \<Rightarrow> bool" where
  "well_formed ArgBool = True"
| "well_formed (ArgWord n) = (0 < n \<and> n \<le> 4)"
| "well_formed (ArgInt n) = (unat n \<le> 32)"
| "well_formed (ArgSignedInt n) = (0 < unat n \<and> unat n \<le> 32)"
| "well_formed (ArgRangedU32 a b) = (a \<le> b \<and> unat b - unat a + 1 < 2 ^ 32 - 128)"
| "well_formed ArgByteBuffer = True"
| "well_formed ArgIPAddress = True"
| "well_formed (ArgVector t) = well_formed t"

text \<open>As \<open>has_type\<close>, but a ranged value only fits the width of the range.\<close>

primrec read_type :: "arg_type \<Rightarrow> arg \<Rightarrow> bool" where
  "read_type ArgBool v = has_type ArgBool v"
| "read_type (ArgWord n) v = has_type (ArgWord n) v"
| "read_type (ArgInt n) v = has_type (ArgInt n) v"
| "read_type (ArgSignedInt n) v = has_type (ArgSignedInt n) v"
| "read_type (ArgRangedU32 a b) v = (case v of WordArg x \<Rightarrow> take_bit (ranged_width (a, b)) (x - a) = x - a | _ \<Rightarrow> False)"
| "read_type ArgByteBuffer v = has_type ArgByteBuffer v"
| "read_type ArgIPAddress v = has_type ArgIPAddress v"
| "read_type (ArgVector t) v = (case v of VectorArg vs \<Rightarrow> length vs \<le> 255 \<and> list_all (read_type t) vs | _ \<Rightarrow> False)"

text \<open>A reader that never faults on a packet and whose value satisfies \<open>P\<close>.\<close>

definition reads_safely :: "(bit_stream \<Rightarrow> ('a \<times> bit_stream) option) \<Rightarrow> ('a \<Rightarrow> bool) \<Rightarrow> bool" where
  "reads_safely r P \<longleftrightarrow> (\<forall>bs. recv_ok bs \<longrightarrow> (\<exists>v bs'. r bs = Some (v, bs') \<and> recv_ok bs' \<and> P v))"

lemma reads_safelyE: "reads_safely r P \<Longrightarrow> recv_ok bs \<Longrightarrow> \<exists>v bs'. r bs = Some (v, bs') \<and> recv_ok bs' \<and> P v"
  by (simp add: reads_safely_def)

lemma safely_map_arg:
  "reads_safely r P \<Longrightarrow> (\<And>bs. readArg junk fresh t bs = map_option (map_prod h id) (r bs)) \<Longrightarrow> (\<And>v. P v \<Longrightarrow> read_type t (h v)) \<Longrightarrow>
   reads_safely (readArg junk fresh t) (read_type t)"
  by (fastforce simp: reads_safely_def)

lemma read_all_safely: "reads_safely r P \<Longrightarrow> reads_safely (read_all r n) (\<lambda>vs. length vs = n \<and> list_all P vs)"
proof (induction n)
  case 0
  then show ?case by (simp add: reads_safely_def)
next
  case (Suc n)
  show ?case
    unfolding reads_safely_def
  proof (intro allI impI)
    fix bs assume "recv_ok bs"
    then obtain v b1 where 1: "r bs = Some (v, b1)" "recv_ok b1" "P v" using reads_safelyE [OF Suc.prems] by blast
    then obtain vs b2 where "read_all r n b1 = Some (vs, b2)" "recv_ok b2" "length vs = n" "list_all P vs"
      using reads_safelyE [OF Suc.IH [OF Suc.prems]] by blast
    then show "\<exists>v bs'. read_all r (Suc n) bs = Some (v, bs') \<and> recv_ok bs' \<and> length v = Suc n \<and> list_all P v" using 1 by simp
  qed
qed

lemma int_safely: "unat n \<le> 32 \<Longrightarrow> reads_safely (readInt n) (\<lambda>v. take_bit (unat n) v = v)"
  using readInt_recv unfolding reads_safely_def by blast

lemma bytes_recv:
  assumes "recv_ok bs" and "unat sz \<le> 1023"
  shows "\<exists>r m bs'. readBytes sz bs = Some (r, m, bs') \<and> recv_ok bs' \<and> length m \<le> unat sz"
proof -
  have u: "unat (push_bit 3 sz) = 8 * unat sz" using unat_push3 [of "unat sz"] assms(2) by simp
  then have "unat (push_bit 3 sz) \<le> 2 ^ 30" using assms(2) by simp
  from readBits_recv [OF assms(1) this] u show ?thesis by (auto simp: readBytes_def)
qed

lemma word_safely:
  assumes "0 < n" "n \<le> 4"
  shows "reads_safely (readWord junk n) (word_valid n)"
  unfolding reads_safely_def
proof (intro allI impI)
  fix bs assume "recv_ok bs"
  moreover have u: "unat (of_nat n :: u32) = n" using assms(2) by (simp add: unat_of_nat take_bit_nat_eq_self)
  ultimately obtain r m bs' where r: "readBytes (of_nat n) bs = Some (r, m, bs')" "recv_ok bs'" "length m \<le> n"
    using bytes_recv [of bs "of_nat n"] assms by auto
  have "take_bit (8 * n) (le_value m :: u32) = le_value m" using r(3) by (intro bit_word_eqI) (auto simp: bit_simps bit_view)
  then have "word_valid n (if r then le_value m else take_bit (8 * n) junk)" using assms by (simp add: word_valid_def)
  then show "\<exists>v bs'. readWord junk n bs = Some (v, bs') \<and> recv_ok bs' \<and> word_valid n v" using r by (simp add: readWord_def)
qed

lemma sint_small:
  fixes v :: u32
  assumes "take_bit 31 v = v"
  shows "sint v = uint v" and "sint (- v) = - uint v"
proof -
  have "uint v = take_bit 31 (uint v)" by (metis assms unsigned_take_bit_eq)
  then have l: "0 \<le> uint v" "uint v < 2 ^ 31" using take_bit_int_less_exp [of 31 "uint v"] by simp_all
  have "- (2 ^ 31) \<le> uint v" by (rule order_trans [OF _ l(1)]) simp
  from signed_take_bit_int_eq_self [OF this l(2)] show "sint v = uint v" by (simp add: sint_uint)
  have "- v = word_of_int (- uint v)" by simp
  then have "sint (- v) = signed_take_bit 31 (- uint v)" by (simp only: signed_of_int len_num1) simp
  moreover have "- (2 ^ 31) \<le> - uint v" "- uint v < 2 ^ 31" using l by linarith+
  ultimately show "sint (- v) = - uint v" using signed_take_bit_int_eq_self by simp
qed

lemma signed_valid_read:
  assumes "0 < unat n" "unat n \<le> 32" "take_bit (unat n - 1) v = v"
  shows "signed_valid n v" "signed_valid n (- v)"
proof -
  have "take_bit 31 v = take_bit 31 (take_bit (unat n - 1) v)" using assms(3) by simp
  also have "\<dots> = take_bit (min 31 (unat n - 1)) v" by (simp only: take_bit_take_bit)
  also have "min 31 (unat n - 1) = unat n - 1" using assms by simp
  finally have s: "sint v = uint v" "sint (- v) = - uint v" using sint_small assms(3) by simp_all
  show "signed_valid n v" using assms s(1) by (simp add: signed_valid_def)
  show "signed_valid n (- v)" using assms s(2) by (cases "v = 0") (auto simp: signed_valid_def word_less_def word_neq_0_conv)
qed

lemma signed_safely:
  assumes "0 < unat n" "unat n \<le> 32"
  shows "reads_safely (readSignedInt n) (signed_valid n)"
  unfolding reads_safely_def
proof (intro allI impI)
  fix bs assume "recv_ok bs"
  then obtain neg b1 where 1: "readFlag bs = Some (neg, b1)" "recv_ok b1" using readFlag_recv by blast
  have n: "unat (n - 1) = unat n - 1" using assms by (subst unat_sub) (simp_all add: word_le_nat_alt)
  obtain v b2 where 2: "readInt (n - 1) b1 = Some (v, b2)" "recv_ok b2" "take_bit (unat n - 1) v = v"
  proof -
    have "unat n - Suc 0 \<le> 32" using assms by linarith
    then show ?thesis using that readInt_recv [OF 1(2), of "n - 1"] n by auto
  qed
  then have "signed_valid n (if neg then - v else v)" using signed_valid_read [OF assms] by simp
  then show "\<exists>v bs'. readSignedInt n bs = Some (v, bs') \<and> recv_ok bs' \<and> signed_valid n v" using 1 2 by (simp add: readSignedInt_def)
qed

lemma ranged_safely:
  assumes "a \<le> b" "unat b - unat a + 1 < 2 ^ 32 - 128"
  shows "reads_safely (readRangedU32 a b) (\<lambda>x. take_bit (ranged_width (a, b)) (x - a) = x - a)"
proof -
  have "ranged_valid (a, b) a" using assms by (simp add: ranged_valid_def)
  note w = ranged_facts [OF this]
  show ?thesis using readRangedU32_recv [of _ b a] w unfolding reads_safely_def by (fastforce simp: ranged_width_def)
qed

lemma buffer_safely: "reads_safely (readByteBuffer fresh) (\<lambda>d. length d \<le> 1023)"
  unfolding reads_safely_def
proof (intro allI impI)
  fix bs assume "recv_ok bs"
  then obtain sz b1 where 1: "readInt ByteBufferSizeBitSize bs = Some (sz, b1)" "recv_ok b1" "take_bit 10 sz = sz"
    using readInt_recv [of bs ByteBufferSizeBitSize] by (auto simp: ByteBufferSizeBitSize_def)
  have "unat sz = take_bit 10 (unat sz)" by (metis 1(3) unsigned_take_bit_eq)
  then have "unat sz < 2 ^ 10" using take_bit_nat_less_exp [of 10 "unat sz"] by simp
  then obtain r m b2 where 2: "readBytes sz b1 = Some (r, m, b2)" "recv_ok b2" "length m \<le> 1023" "unat sz \<le> 1023"
    using bytes_recv [OF 1(2), of sz] by auto
  then show "\<exists>v bs'. readByteBuffer fresh bs = Some (v, bs') \<and> recv_ok bs' \<and> length v \<le> 1023"
    using 1 by (auto simp: readByteBuffer_def)
qed

lemma readArg_safely: "well_formed t \<Longrightarrow> reads_safely (readArg junk fresh t) (read_type t)"
proof (induction t)
  case (ArgVector t)
  then have i: "reads_safely (readArg junk fresh t) (read_type t)" by simp
  show ?case
    unfolding reads_safely_def
  proof (intro allI impI)
    fix bs assume "recv_ok bs"
    then obtain sz b1 where 1: "readInt VectorSizeBitSize bs = Some (sz, b1)" "recv_ok b1" "take_bit 8 sz = sz"
      using readInt_recv [of bs VectorSizeBitSize] by (auto simp: VectorSizeBitSize_def)
    have "unat sz = take_bit 8 (unat sz)" by (metis 1(3) unsigned_take_bit_eq)
    then have "unat sz < 2 ^ 8" using take_bit_nat_less_exp [of 8 "unat sz"] by simp
    moreover obtain vs b2 where "read_all (readArg junk fresh t) (unat sz) b1 = Some (vs, b2)" "recv_ok b2" "length vs = unat sz"
        "list_all (read_type t) vs"
      using reads_safelyE [OF read_all_safely [OF i] 1(2)] by blast
    ultimately show "\<exists>v bs'. readArg junk fresh (ArgVector t) bs = Some (v, bs') \<and> recv_ok bs' \<and> read_type (ArgVector t) v"
      using 1(1) by simp
  qed
next
  case ArgIPAddress
  show ?case
    unfolding reads_safely_def
  proof (intro allI impI)
    fix bs assume "recv_ok bs"
    then obtain a b1 where 1: "readWord junk 4 bs = Some (a, b1)" "recv_ok b1"
      using reads_safelyE [OF word_safely [of 4 junk]] by fastforce
    then obtain p b2 where "readWord junk 2 b1 = Some (p, b2)" "recv_ok b2" "word_valid 2 p"
      using reads_safelyE [OF word_safely [of 2 junk]] by fastforce
    then show "\<exists>v bs'. readArg junk fresh ArgIPAddress bs = Some (v, bs') \<and> recv_ok bs' \<and> read_type ArgIPAddress v" using 1 by simp
  qed
next
  case (ArgWord n)
  then show ?case by (intro safely_map_arg [where h = WordArg, OF word_safely [of n junk]]) simp_all
next
  case (ArgInt n)
  then show ?case by (intro safely_map_arg [where h = WordArg, OF int_safely [of n]]) (simp_all add: int_valid_def)
next
  case (ArgSignedInt n)
  then show ?case by (intro safely_map_arg [where h = WordArg, OF signed_safely [of n]]) simp_all
next
  case (ArgRangedU32 a b)
  then show ?case by (intro safely_map_arg [where h = WordArg, OF ranged_safely [of a b]]) simp_all
next
  case ArgByteBuffer
  then show ?case by (intro safely_map_arg [where h = BytesArg, OF buffer_safely [of fresh]]) simp_all
next
  case ArgBool
  then show ?case using readFlag_recv by (fastforce simp: reads_safely_def)
qed

lemma functor_read_safely: "list_all well_formed ts \<Longrightarrow> reads_safely (functor_read junk fresh ts) (list_all2 read_type ts)"
proof (induction ts)
  case Nil
  then show ?case by (simp add: reads_safely_def)
next
  case (Cons t ts)
  show ?case
    unfolding reads_safely_def
  proof (intro allI impI)
    fix bs assume "recv_ok bs"
    then obtain v b1 where 1: "readArg junk fresh t bs = Some (v, b1)" "recv_ok b1" "read_type t v"
      using reads_safelyE [OF readArg_safely] Cons.prems by fastforce
    then obtain vs b2 where "functor_read junk fresh ts b1 = Some (vs, b2)" "recv_ok b2" "list_all2 read_type ts vs"
      using reads_safelyE [OF Cons.IH] Cons.prems by fastforce
    then show "\<exists>v bs'. functor_read junk fresh (t # ts) bs = Some (v, bs') \<and> recv_ok bs' \<and> list_all2 read_type (t # ts) v"
      using 1 by simp
  qed
qed

section \<open>What was written is there to be read\<close>

lemma appends_reads:
  assumes "appends w xs" and "can_write bs (length xs)" and "can_read bs (length xs)"
  shows "\<exists>bs1. w bs = Some bs1 \<and> reads (setBitPosition (bitNum bs) bs1) xs \<and>
    skip_bits (length xs) (setBitPosition (bitNum bs) bs1) = bs1"
proof -
  let ?b = "setBitPosition (bitNum bs) (append_bits xs bs)"
  have "can_read ?b (length xs)"
    using assms(3) by (simp add: can_read_def append_bits_def setBitPosition_def stream_ok_def)
  moreover have "next_bits ?b (length xs) = xs" using next_bits_append_bits [OF assms(2)] by (simp add: setBitPosition_def)
  moreover have "skip_bits (length xs) ?b = append_bits xs bs" by (simp add: skip_bits_def append_bits_def setBitPosition_def)
  ultimately show ?thesis using assms(1,2) by (auto simp: appends_def reads_def)
qed

lemma vector_appends:
  assumes "list_all (has_type t) vs"
  shows "appends (writeArg (ArgVector t) (VectorArg vs)) (arg_bits (ArgVector t) (VectorArg vs))"
proof -
  have "appends (\<lambda>bs. Option.bind (writeInt (of_nat (length vs)) VectorSizeBitSize bs) (write_all (writeArg t) vs))
      (int_bits 8 (of_nat (length vs) :: u32) @ concat (map (arg_bits t) vs))"
    using size_appends [of VectorSizeBitSize "of_nat (length vs)"] assms writeArg_appends
    by (intro appends_then write_all_appends) (simp_all add: VectorSizeBitSize_def list_all_iff)
  then show ?thesis by (simp add: appends_def)
qed

text \<open>The reader of a vector takes its size modulo 256.\<close>

lemma vector_read_cut:
  assumes "list_all (has_type t) vs" and "reads bs (arg_bits (ArgVector t) (VectorArg vs))" and "ws = take (length vs mod 256) vs"
  shows "readArg junk fresh (ArgVector t) bs = Some (VectorArg ws, skip_bits (8 + length (concat (map (arg_bits t) ws))) bs)"
proof -
  have vs: "vs = ws @ drop (length vs mod 256) vs" using assms(3) by simp
  have "int_bits 8 (of_nat (length vs) :: u32) @ concat (map (arg_bits t) vs) =
      int_bits 8 (of_nat (length vs) :: u32) @ concat (map (arg_bits t) ws) @ concat (map (arg_bits t) (drop (length vs mod 256) vs))"
    by (subst (2) vs) (simp only: map_append concat_append)
  then have r: "reads bs (int_bits 8 (of_nat (length vs) :: u32) @ concat (map (arg_bits t) ws) @ concat (map (arg_bits t) (drop (length vs mod 256) vs)))"
    using assms(2) by simp
  note s = reads_append [OF r]
  have "readInt 8 bs = Some (take_bit 8 (of_nat (length vs)), skip_bits 8 bs)"
    using reads_int [of bs 8 "of_nat (length vs)" "[]"] s by simp
  moreover have "unat (take_bit 8 (of_nat (length vs) :: u32)) = length vs mod 256"
  proof -
    have "unat (take_bit 8 (of_nat (length vs) :: u32)) = take_bit 8 (take_bit 32 (length vs))"
      unfolding unsigned_take_bit_eq unsigned_of_nat by simp
    also have "\<dots> = take_bit 8 (length vs)" by simp
    finally show ?thesis by (simp add: take_bit_eq_mod)
  qed
  moreover have "length ws = length vs mod 256"
    using assms(3) by simp
  moreover have "takes (read_all (readArg junk fresh t) (length ws)) ws (concat (map (arg_bits t) ws))"
  proof (rule read_all_takes)
    show "\<forall>v \<in> set ws. takes (readArg junk fresh t) v (arg_bits t v)"
      using assms(1,3) readArg_takes by (auto simp: list_all_iff dest: in_set_takeD)
  qed
  moreover have "reads (skip_bits 8 bs) (concat (map (arg_bits t) ws))" using s reads_append by fastforce
  ultimately show ?thesis by (simp add: VectorSizeBitSize_def takes_def skip_bits_skip)
qed

text \<open>A range is read as its width says: a value behind the end comes through.\<close>

lemma range_not_checked:
  assumes "a \<le> b" "unat b - unat a + 1 < 2 ^ 32 - 128" and "take_bit (ranged_width (a, b)) (x - a) = x - a"
    and "reads bs (int_bits (ranged_width (a, b)) (x - a))"
  shows "readArg junk fresh (ArgRangedU32 a b) bs = Some (WordArg x, skip_bits (ranged_width (a, b)) bs)"
proof -
  have "ranged_valid (a, b) a" using assms by (simp add: ranged_valid_def)
  note w = ranged_facts [OF this]
  have "readInt (ucast (getNextBinLog2 (b - a + 1))) bs = Some (x - a, skip_bits (ranged_width (a, b)) bs)"
    using reads_int [of bs "ucast (getNextBinLog2 (b - a + 1))" "x - a" "[]"] w assms by simp
  then show ?thesis by (simp add: readRangedU32_def)
qed

section \<open>Properties\<close>

text \<open>A block of so many bytes and one more behind them.\<close>

definition block_stream :: "nat \<Rightarrow> bit_stream" where
  "block_stream n = \<lparr>mDataPtr = replicate (n + 1) 0xFF, mBufSize = of_nat n, mOwnsMemory = False, mFresh = (\<lambda>_. 0xCC), bitNum = 0,
     error = False, mCompressRelative = False, maxReadBitNum = of_nat (8 * n), maxWriteBitNum = of_nat (8 * n), mStringTableSet = False,
     mStringBuffer = []\<rparr>"

lemma block_stream_room:
  assumes "n < 2 ^ 27" and "k \<le> 8 * n"
  shows "can_write (block_stream n) k" and "can_read (block_stream n) k" and "recv_ok (block_stream n)"
proof -
  have "unat (of_nat (8 * n) :: u32) = 8 * n" using assms(1) by (intro unat_of_nat_u32) simp
  then show "can_write (block_stream n) k" "can_read (block_stream n) k" "recv_ok (block_stream n)"
    using assms by (simp_all add: block_stream_def can_write_def can_read_def stream_ok_def recv_ok_def del: of_nat_mult)
qed







end
