(* ===== verification/Class_Registry.thy ===== *)
theory Class_Registry
  imports Event_Delivery Call_Safety "HOL-Library.List_Lexorder" "HOL-Library.Char_ord" "HOL-Library.Product_Lexorder"
begin

text \<open>
  \<^verbatim>\<open>tnl/netBase.cpp\<close>: the registry of network classes. Static constructors link every class into a list, \<open>initialize\<close> sorts those of
  a group and type by version and name and numbers them; the numbers travel in the packets. \<^verbatim>\<open>qsort\<close> of the C library is a
  parameter: it permutes its array, and sorts it when the comparison is an order on the elements.

  Two ends agree at the connect request on how many classes they share. When the one program has only added classes with later
  versions, the classes they share have the same numbers.
\<close>

section \<open>Classes and their order\<close>

definition NetClassGroupCount :: nat where "NetClassGroupCount = 4"
definition NetClassTypeCount :: int where "NetClassTypeCount = 3"

record class_rep =
  mClassName :: string
  mClassVersion :: int
  mClassType :: int
  mClassGroupMask :: u32

record class_registry =
  mClassLinkList :: "class_rep list"
  mClassTable :: "nat \<Rightarrow> int \<Rightarrow> class_rep list"
  mClassId :: "class_rep \<Rightarrow> nat \<Rightarrow> u32"
  mNetClassBitSize :: "nat \<Rightarrow> int \<Rightarrow> u32"
  mInitialized :: bool

definition registry_start :: class_registry where
  "registry_start = \<lparr>mClassLinkList = [], mClassTable = (\<lambda>_ _. []), mClassId = (\<lambda>_ _. 0), mNetClassBitSize = (\<lambda>_ _. 0), mInitialized = False\<rparr>"

text \<open>The constructor of \<^verbatim>\<open>NetClassRepInstance\<close>.\<close>

definition register_class :: "class_rep \<Rightarrow> class_registry \<Rightarrow> class_registry" where
  "register_class c r = r\<lparr>mClassLinkList := c # mClassLinkList r\<rparr>"

text \<open>The bytes before the final zero; only the sign of the result is meant.\<close>

fun strcmp :: "string \<Rightarrow> string \<Rightarrow> int" where
  "strcmp [] [] = 0"
| "strcmp [] (b # bs) = - of_char b"
| "strcmp (a # as) [] = of_char a"
| "strcmp (a # as) (b # bs) = (if a = b then strcmp as bs else of_char a - of_char b)"

text \<open>The difference of two versions, which overflows only for versions further apart than any program has.\<close>

definition ACRCompare :: "class_rep \<Rightarrow> class_rep \<Rightarrow> int" where
  "ACRCompare a b = (if mClassVersion a \<noteq> mClassVersion b then signed_take_bit 31 (mClassVersion a - mClassVersion b)
     else strcmp (mClassName a) (mClassName b))"

section \<open>Initialisation\<close>

definition numberClasses :: "class_rep list \<Rightarrow> nat \<Rightarrow> (class_rep \<Rightarrow> nat \<Rightarrow> u32) \<Rightarrow> class_rep \<Rightarrow> nat \<Rightarrow> u32" where
  "numberClasses table grp ids = fold (\<lambda>i ids. ids(table ! i := (ids (table ! i))(grp := of_nat i))) [0..<length table] ids"

type_synonym class_sorter = "(class_rep \<Rightarrow> class_rep \<Rightarrow> int) \<Rightarrow> class_rep list \<Rightarrow> class_rep list"

definition initializeGroup :: "class_sorter \<Rightarrow> nat \<Rightarrow> int \<Rightarrow> class_registry \<Rightarrow> class_registry" where
  "initializeGroup qsort grp typ r =
     (let dynamicTable = filter (\<lambda>walk. mClassType walk = typ \<and> mClassGroupMask walk AND push_bit grp 1 \<noteq> 0) (mClassLinkList r)
      in if dynamicTable = [] then r
         else let table = qsort ACRCompare dynamicTable in
           r\<lparr>mClassTable := (mClassTable r)(grp := (mClassTable r grp)(typ := table)),
             mClassId := numberClasses table grp (mClassId r),
             mNetClassBitSize := (mNetClassBitSize r)(grp := (mNetClassBitSize r grp)(typ :=
               getBinLog2 (getNextPow2 (of_nat (length table) + 1))))\<rparr>)"

definition initialize :: "class_sorter \<Rightarrow> class_registry \<Rightarrow> class_registry" where
  "initialize qsort r =
     (if mInitialized r then r
      else (fold (\<lambda>(grp, typ). initializeGroup qsort grp typ)
             [(grp, typ). grp \<leftarrow> [0..<NetClassGroupCount], typ \<leftarrow> [0..NetClassTypeCount - 1]] r)\<lparr>mInitialized := True\<rparr>)"

definition getNetClassCount :: "class_registry \<Rightarrow> nat \<Rightarrow> int \<Rightarrow> nat" where
  "getNetClassCount r grp typ = length (mClassTable r grp typ)"

definition getClass :: "class_registry \<Rightarrow> nat \<Rightarrow> int \<Rightarrow> nat \<Rightarrow> class_rep option" where
  "getClass r grp typ i = (if i < length (mClassTable r grp typ) then Some (mClassTable r grp typ ! i) else None)"

text \<open>\<open>None\<close> when the index lies behind the table.\<close>

definition isVersionBorderCount :: "class_registry \<Rightarrow> nat \<Rightarrow> int \<Rightarrow> nat \<Rightarrow> bool option" where
  "isVersionBorderCount r grp typ n =
     (if n = length (mClassTable r grp typ) then Some True
      else if n > 0 then do {
        a \<leftarrow> getClass r grp typ n;
        b \<leftarrow> getClass r grp typ (n - 1);
        Some (mClassVersion a \<noteq> mClassVersion b) }
      else Some False)"

text \<open>The C++ initialises the first element only; no code computes the sums.\<close>

definition mClassCRC :: "nat \<Rightarrow> u32" where "mClassCRC grp = (if grp = 0 then 0xFFFFFFFF else 0)"

text \<open>\<^verbatim>\<open>NetClassRep::create\<close> by name and by number.\<close>

definition create_by_name :: "string \<Rightarrow> class_registry \<Rightarrow> class_rep option" where
  "create_by_name className r = find (\<lambda>walk. mClassName walk = className) (mClassLinkList r)"

definition create_by_id :: "nat \<Rightarrow> int \<Rightarrow> nat \<Rightarrow> class_registry \<Rightarrow> class_rep option" where
  "create_by_id grp typ classId r = getClass r grp typ classId"

section \<open>The order is one\<close>

lemma of_char_int: "(of_char c :: int) = int (of_char c)"
  by (rule of_nat_of_char [symmetric])

lemma of_char_pos: "c \<noteq> CHR 0x00 \<Longrightarrow> (0 :: int) < of_char c"
proof -
  assume "c \<noteq> CHR 0x00"
  then have "(of_char c :: nat) \<noteq> of_char (CHR 0x00)" by (simp only: of_char_eq_iff not_False_eq_True)
  then show ?thesis by (simp add: of_char_int)
qed

text \<open>The library's order of strings is that of the bytes.\<close>

lemma strcmp_less:
  "CHR 0x00 \<notin> set a \<Longrightarrow> CHR 0x00 \<notin> set b \<Longrightarrow> (strcmp a b < 0 \<longleftrightarrow> a < b) \<and> (strcmp a b = 0 \<longleftrightarrow> a = b)"
proof (induction a b rule: strcmp.induct)
  case (4 a as b bs)
  have "(of_char a - of_char b < (0 :: int)) \<longleftrightarrow> a < b" by (simp add: of_char_int less_char_def)
  moreover have "(of_char a - of_char b = (0 :: int)) \<longleftrightarrow> a = b" by (simp add: of_char_int)
  ultimately show ?case using 4 by auto
next
  case (2 b bs)
  then show ?case using of_char_pos [of b] by auto
next
  case (3 a as)
  then show ?case using of_char_pos [of a] by auto
qed simp

text \<open>Classes as programs have them: versions that do not overflow the difference, and names of C.\<close>

definition class_ok :: "class_rep \<Rightarrow> bool" where
  "class_ok c \<longleftrightarrow> \<bar>mClassVersion c\<bar> < 2 ^ 30 \<and> CHR 0x00 \<notin> set (mClassName c)"

lemma ACRCompare_le:
  assumes "class_ok a" "class_ok b"
  shows "ACRCompare a b \<le> 0 \<longleftrightarrow> mClassVersion a < mClassVersion b \<or> (mClassVersion a = mClassVersion b \<and> mClassName a \<le> mClassName b)"
proof -
  have "\<bar>mClassVersion a\<bar> < 2 ^ 30" "\<bar>mClassVersion b\<bar> < 2 ^ 30" using assms by (simp_all add: class_ok_def)
  then have "- (2 ^ 31) \<le> mClassVersion a - mClassVersion b" "mClassVersion a - mClassVersion b < 2 ^ 31" by (simp_all add: abs_less_iff)
  then have "signed_take_bit 31 (mClassVersion a - mClassVersion b) = mClassVersion a - mClassVersion b"
    by (rule signed_take_bit_int_eq_self)
  moreover have "strcmp (mClassName a) (mClassName b) \<le> 0 \<longleftrightarrow> mClassName a \<le> mClassName b"
    using strcmp_less [of "mClassName a" "mClassName b"] assms by (auto simp: class_ok_def le_less)
  ultimately show ?thesis by (auto simp: ACRCompare_def)
qed

section \<open>The tables\<close>

text \<open>What the documentation of \<^verbatim>\<open>qsort\<close> promises.\<close>

definition sorts :: "class_sorter \<Rightarrow> bool" where
  "sorts qs \<longleftrightarrow> (\<forall>cmp xs. mset (qs cmp xs) = mset xs \<and>
     ((\<forall>a\<in>set xs. \<forall>b\<in>set xs. cmp a b \<le> 0 \<or> cmp b a \<le> 0) \<and>
      (\<forall>a\<in>set xs. \<forall>b\<in>set xs. \<forall>c\<in>set xs. cmp a b \<le> 0 \<longrightarrow> cmp b c \<le> 0 \<longrightarrow> cmp a c \<le> 0) \<longrightarrow>
      sorted_wrt (\<lambda>a b. cmp a b \<le> 0) (qs cmp xs)))"

definition members :: "class_registry \<Rightarrow> nat \<Rightarrow> int \<Rightarrow> class_rep list" where
  "members r g t = filter (\<lambda>walk. mClassType walk = t \<and> mClassGroupMask walk AND push_bit g 1 \<noteq> 0) (mClassLinkList r)"

lemma sorted_members:
  assumes "sorts qs" and "\<forall>c\<in>set xs. class_ok c"
  shows "mset (qs ACRCompare xs) = mset xs" and "sorted_wrt (\<lambda>a b. ACRCompare a b \<le> 0) (qs ACRCompare xs)"
proof -
  have "\<forall>a\<in>set xs. \<forall>b\<in>set xs. ACRCompare a b \<le> 0 \<or> ACRCompare b a \<le> 0" using assms(2) by (auto simp: ACRCompare_le)
  moreover have "\<forall>a\<in>set xs. \<forall>b\<in>set xs. \<forall>c\<in>set xs. ACRCompare a b \<le> 0 \<longrightarrow> ACRCompare b c \<le> 0 \<longrightarrow> ACRCompare a c \<le> 0"
    using assms(2) by (auto simp: ACRCompare_le)
  ultimately show "sorted_wrt (\<lambda>a b. ACRCompare a b \<le> 0) (qs ACRCompare xs)" "mset (qs ACRCompare xs) = mset xs"
    using assms(1) unfolding sorts_def by blast+
qed

lemma initializeGroup_fields:
  "mClassLinkList (initializeGroup qs g t r) = mClassLinkList r"
  "mInitialized (initializeGroup qs g t r) = mInitialized r"
  "mClassTable (initializeGroup qs g t r) g' t' =
     (if g' = g \<and> t' = t \<and> members r g t \<noteq> [] then qs ACRCompare (members r g t) else mClassTable r g' t')"
  by (simp_all add: initializeGroup_def members_def Let_def)

lemma members_fields: "mClassLinkList r' = mClassLinkList r \<Longrightarrow> members r' = members r"
  by (intro ext) (simp add: members_def)

lemma initialize_loop:
  "distinct ps \<Longrightarrow> mClassTable (fold (\<lambda>(g, t). initializeGroup qs g t) ps r) g t =
     (if (g, t) \<in> set ps \<and> members r g t \<noteq> [] then qs ACRCompare (members r g t) else mClassTable r g t)"
proof (induction ps arbitrary: r)
  case (Cons p ps)
  obtain g' t' where p: "p = (g', t')" by (cases p)
  have m: "members (initializeGroup qs g' t' r) = members r" by (rule members_fields) (simp add: initializeGroup_fields)
  show ?case using Cons by (auto simp: p m initializeGroup_fields)
qed simp

lemma initialize_table:
  assumes "\<not> mInitialized r" "mClassTable r g t = []" and "g < NetClassGroupCount" "0 \<le> t" "t < NetClassTypeCount" and "sorts qs"
  shows "mClassTable (initialize qs r) g t = qs ACRCompare (members r g t)"
proof -
  let ?ps = "[(grp, typ). grp \<leftarrow> [0..<NetClassGroupCount], typ \<leftarrow> [0..NetClassTypeCount - 1]]"
  have d: "distinct ?ps" by code_simp
  have "(g, t) \<in> set ?ps" using assms(3-5) by (auto simp: image_iff)
  moreover have "qs ACRCompare [] = []" using assms(6) by (metis mset_zero_iff sorts_def)
  ultimately show ?thesis using initialize_loop [OF d, of qs r g t] assms(1,2) by (simp add: initialize_def)
qed

text \<open>The order has one sorted table for given members.\<close>

abbreviation class_key :: "class_rep \<Rightarrow> int \<times> string" where
  "class_key c \<equiv> (mClassVersion c, mClassName c)"

lemma sorted_keys:
  assumes "sorted_wrt (\<lambda>a b. ACRCompare a b \<le> 0) xs" and "\<forall>c\<in>set xs. class_ok c"
  shows "sorted (map class_key xs)"
  using assms by (induction xs) (auto simp: ACRCompare_le less_eq_prod_def)

lemma sorted_split:
  assumes "sorted (map class_key xs)"
  shows "xs = filter (\<lambda>c. mClassVersion c \<le> v) xs @ filter (\<lambda>c. \<not> mClassVersion c \<le> v) xs"
  using assms
proof (induction xs)
  case (Cons x xs)
  show ?case
  proof (cases "mClassVersion x \<le> v")
    case True
    then show ?thesis using Cons by simp
  next
    case False
    then have "\<forall>c\<in>set xs. \<not> mClassVersion c \<le> v" using Cons.prems by (fastforce simp: less_eq_prod_def)
    then show ?thesis using False by (simp add: filter_id_conv filter_empty_conv)
  qed
qed simp

lemma table_prefix:
  assumes qs: "sorts qs" "sorts qs'" and ok: "\<forall>c\<in>set xs'. class_ok c" and inj: "inj_on class_key (set xs')"
    and m: "mset xs = mset (filter (\<lambda>c. mClassVersion c \<le> v) xs')"
  shows "\<exists>later. qs' ACRCompare xs' = qs ACRCompare xs @ later \<and> (\<forall>c\<in>set later. v < mClassVersion c)"
proof -
  let ?T = "qs ACRCompare xs" and ?T' = "qs' ACRCompare xs'" and ?P = "\<lambda>c. mClassVersion c \<le> v"
  have sub: "set xs \<subseteq> set xs'" using mset_eq_setD [OF m] by auto
  note 1 = sorted_members [OF qs(1), of xs] and 2 = sorted_members [OF qs(2), of xs']
  have ok': "\<forall>c\<in>set xs. class_ok c" using ok sub by blast
  have s: "set ?T = set xs" "set ?T' = set xs'" using 1(1) 2(1) ok ok' mset_eq_setD by blast+
  have k: "sorted (map class_key ?T)" "sorted (map class_key ?T')"
    using sorted_keys 1(2) 2(2) ok ok' s by auto
  have "mset (filter ?P ?T') = mset ?T" using 1(1) 2(1) ok ok' m by simp
  then have "mset (map class_key (filter ?P ?T')) = mset (map class_key ?T)" by (simp only: mset_map)
  moreover have "sorted (map class_key (filter ?P ?T'))" using k(2) by (rule sorted_filter)
  ultimately have "map class_key (filter ?P ?T') = map class_key ?T" using k(1) by (metis properties_for_sort)
  then have "filter ?P ?T' = ?T"
    using inj_on_subset [OF inj] s sub by (intro map_inj_on [of class_key]) (auto intro: inj_on_subset [OF inj])
  then show ?thesis using sorted_split [OF k(2), of v] by (intro exI [of _ "filter (\<lambda>c. \<not> ?P c) ?T'"]) (auto simp: not_le)
qed


section \<open>The connect request of an event connection\<close>

text \<open>
  \<^verbatim>\<open>tnl/eventConnection.cpp\<close> writes the number of event classes behind the fields of \<^verbatim>\<open>NetConnection\<close>. \<open>junk\<close> are the unset
  locals that \<^verbatim>\<open>read\<close> leaves alone when the packet is too short. A refusal without a message leaves the string of the
  caller: \<open>Inl None\<close>.
\<close>

definition NetClassTypeEvent :: int where "NetClassTypeEvent = 2"

definition ev_writeConnectRequest :: "class_registry \<Rightarrow> nat \<Rightarrow> bit_stream \<Rightarrow> bit_stream option" where
  "ev_writeConnectRequest r grp stream = do {
     stream \<leftarrow> base_writeConnectRequest (of_nat grp) (mClassCRC grp) stream;
     write_u32 (of_nat (getNetClassCount r grp NetClassTypeEvent)) stream }"

definition ev_readConnectRequest :: "u32 \<times> u32 \<times> u32 \<Rightarrow> class_registry \<Rightarrow> nat \<Rightarrow> bit_stream \<Rightarrow> ('e, 'u) event_connection \<Rightarrow>
    ((string option + unit) \<times> bit_stream \<times> ('e, 'u) event_connection) option" where
  "ev_readConnectRequest junk r grp stream c = do {
     (res, stream) \<leftarrow> base_readConnectRequest (fst junk) (fst (snd junk)) (of_nat grp) (mClassCRC grp) stream;
     (case res of
        Inl e \<Rightarrow> Some (Inl (Some e), stream, c)
      | Inr _ \<Rightarrow> do {
          (classCount, stream) \<leftarrow> read_u32 (snd (snd junk)) stream;
          let myCount = of_nat (getNetClassCount r grp NetClassTypeEvent);
          let c = set_ev (mEventClassCount_update (\<lambda>_. if myCount \<le> classCount then myCount else classCount)) c;
          border \<leftarrow> (if myCount \<le> classCount then Some True
                    else isVersionBorderCount r grp NetClassTypeEvent (unat (mEventClassCount (mSub c))));
          if \<not> border then Some (Inl None, stream, c)
          else do {
            rep \<leftarrow> getClass r grp NetClassTypeEvent (unat (mEventClassCount (mSub c) - 1));
            Some (Inr (), stream, set_ev (\<lambda>s. s\<lparr>mEventClassVersion := of_int (mClassVersion rep),
                                                mEventClassBitSize := getNextBinLog2 (mEventClassCount s)\<rparr>) c) } }) }"

definition ev_writeConnectAccept :: "('e, 'u) event_connection \<Rightarrow> bit_stream \<Rightarrow> bit_stream option" where
  "ev_writeConnectAccept c stream = write_u32 (mEventClassCount (mSub c)) stream"

text \<open>Here the read leaves the field as it was.\<close>

definition ev_readConnectAccept :: "class_registry \<Rightarrow> nat \<Rightarrow> bit_stream \<Rightarrow> ('e, 'u) event_connection \<Rightarrow>
    ((string option + unit) \<times> bit_stream \<times> ('e, 'u) event_connection) option" where
  "ev_readConnectAccept r grp stream c = do {
     (n, stream) \<leftarrow> read_u32 (mEventClassCount (mSub c)) stream;
     let c = set_ev (mEventClassCount_update (\<lambda>_. n)) c;
     let myCount = of_nat (getNetClassCount r grp NetClassTypeEvent);
     if n > myCount then Some (Inl None, stream, c)
     else do {
       border \<leftarrow> isVersionBorderCount r grp NetClassTypeEvent (unat n);
       if \<not> border then Some (Inl None, stream, c)
       else Some (Inr (), stream, set_ev (\<lambda>s. s\<lparr>mEventClassBitSize := getNextBinLog2 n\<rparr>) c) } }"

text \<open>
  The exchange of \<^verbatim>\<open>NetConnection::connectLocal\<close> over one stream. In the program both ends share a registry; here each has its
  own, as when the two packets travel, so that the versions of the programs may differ.
\<close>

definition connectLocal :: "u32 \<times> u32 \<times> u32 \<Rightarrow> nat \<Rightarrow> class_registry \<Rightarrow> class_registry \<Rightarrow> bit_stream \<Rightarrow>
    ('e, 'u) event_connection \<Rightarrow> ('e, 'u) event_connection \<Rightarrow>
    (bool \<times> ('e, 'u) event_connection \<times> ('e, 'u) event_connection) option" where
  "connectLocal junk grp clientReps serverReps stream client server = do {
     stream \<leftarrow> ev_writeConnectRequest clientReps grp (setBytePosition 0 stream);
     (res, stream, server) \<leftarrow> ev_readConnectRequest junk serverReps grp (setBytePosition 0 stream) server;
     if res \<noteq> Inr () then Some (False, client, server)
     else do {
       stream \<leftarrow> ev_writeConnectAccept server (setBytePosition 0 stream);
       (res, stream, client) \<leftarrow> ev_readConnectAccept clientReps grp (setBytePosition 0 stream) client;
       if res \<noteq> Inr () then Some (False, client, server)
       else Some (True, client\<lparr>mConnectionState := Connected\<rparr>, server\<lparr>mConnectionState := Connected\<rparr>) } }"

subsection \<open>What the exchange settles\<close>

definition request_bits :: "nat \<Rightarrow> nat \<Rightarrow> bool list" where
  "request_bits grp n = int_bits 32 (of_nat grp :: u32) @ int_bits 32 (mClassCRC grp) @ int_bits 32 (of_nat n :: u32)"

lemma request_appends: "appends (ev_writeConnectRequest r grp) (request_bits grp (getNetClassCount r grp NetClassTypeEvent))"
proof -
  let ?w = "write_u32 (of_nat (getNetClassCount r grp NetClassTypeEvent))"
  have "appends (\<lambda>bs. Option.bind (write_u32 (of_nat grp) bs) (\<lambda>bs. Option.bind (write_u32 (mClassCRC grp) bs) ?w))
     (request_bits grp (getNetClassCount r grp NetClassTypeEvent))"
    unfolding request_bits_def by (intro appends_then u32_appends)
  then show ?thesis by (simp add: appends_def ev_writeConnectRequest_def base_writeConnectRequest_def)
qed


lemma request_read:
  assumes "reads stream (request_bits grp n)"
  shows "ev_readConnectRequest junk r grp stream c =
    (let classCount = of_nat n;
         stream = skip_bits 96 stream;
         myCount = of_nat (getNetClassCount r grp NetClassTypeEvent);
         c = set_ev (mEventClassCount_update (\<lambda>_. if myCount \<le> classCount then myCount else classCount)) c in do {
          border \<leftarrow> (if myCount \<le> classCount then Some True
                    else isVersionBorderCount r grp NetClassTypeEvent (unat (mEventClassCount (mSub c))));
          if \<not> border then Some (Inl None, stream, c)
          else do {
            rep \<leftarrow> getClass r grp NetClassTypeEvent (unat (mEventClassCount (mSub c) - 1));
            Some (Inr (), stream, set_ev (\<lambda>s. s\<lparr>mEventClassVersion := of_int (mClassVersion rep),
                                                mEventClassBitSize := getNextBinLog2 (mEventClassCount s)\<rparr>) c) } })"
proof -
  have 1: "reads stream (int_bits 32 (of_nat grp :: u32))" and 2: "reads (skip_bits 32 stream) (int_bits 32 (mClassCRC grp))"
    and 3: "reads (skip_bits 64 stream) (int_bits 32 (of_nat n :: u32))"
    using reads_append [OF assms [unfolded request_bits_def]]
      reads_append [of "skip_bits 32 stream" "int_bits 32 (mClassCRC grp)" "int_bits 32 (of_nat n :: u32)"] by (simp_all add: skip_bits_skip)
  have "read_u32 (fst junk) stream = Some (of_nat grp, skip_bits 32 stream)" using u32_takes 1 by (simp add: takes_def)
  moreover have "read_u32 (fst (snd junk)) (skip_bits 32 stream) = Some (mClassCRC grp, skip_bits 64 stream)"
    using u32_takes 2 by (simp add: takes_def skip_bits_skip)
  moreover have "read_u32 (snd (snd junk)) (skip_bits 64 stream) = Some (of_nat n, skip_bits 96 stream)"
    using u32_takes 3 by (simp add: takes_def skip_bits_skip)
  ultimately show ?thesis by (simp add: ev_readConnectRequest_def base_readConnectRequest_def Let_def)
qed

text \<open>The smaller table has \<open>k\<close> classes, and both tables have a version border behind them.\<close>

definition shares :: "class_registry \<Rightarrow> class_registry \<Rightarrow> nat \<Rightarrow> nat \<Rightarrow> bool" where
  "shares r r' grp k \<longleftrightarrow> 0 < k \<and> getNetClassCount r grp NetClassTypeEvent < 2 ^ 32 \<and> getNetClassCount r' grp NetClassTypeEvent < 2 ^ 32 \<and>
     min (getNetClassCount r grp NetClassTypeEvent) (getNetClassCount r' grp NetClassTypeEvent) = k \<and>
     isVersionBorderCount r grp NetClassTypeEvent k = Some True \<and> isVersionBorderCount r' grp NetClassTypeEvent k = Some True"

lemma shares_sym: "shares r r' grp k \<Longrightarrow> shares r' r grp k"
  unfolding shares_def by (simp add: min.commute [of "getNetClassCount r' grp NetClassTypeEvent"])

lemma count_word: "n < 2 ^ 32 \<Longrightarrow> unat (of_nat n :: u32) = n"
  by (simp add: unsigned_of_nat take_bit_nat_eq_self)

lemma count_le: "n < 2 ^ 32 \<Longrightarrow> m < 2 ^ 32 \<Longrightarrow> (of_nat n :: u32) \<le> of_nat m \<longleftrightarrow> n \<le> m"
  by (simp only: word_le_nat_alt count_word)

lemma server_settles:
  assumes sh: "shares rc rs grp k" and r: "reads stream (request_bits grp (getNetClassCount rc grp NetClassTypeEvent))"
  shows "\<exists>s'. ev_readConnectRequest junk rs grp stream s = Some (Inr (), skip_bits 96 stream, s') \<and>
    mEventClassCount (mSub s') = of_nat k \<and> mEventClassBitSize (mSub s') = getNextBinLog2 (of_nat k)"
proof -
  let ?my = "getNetClassCount rs grp NetClassTypeEvent" and ?its = "getNetClassCount rc grp NetClassTypeEvent"
  have k: "k = min ?its ?my" and b: "?my < 2 ^ 32" "?its < 2 ^ 32" "k \<le> ?my" "0 < k" using sh by (auto simp: shares_def)
  have u: "unat (of_nat k :: u32) = k" using b by (intro count_word) simp
  then have "unat (of_nat k - 1 :: u32) = k - 1" using b by (subst unat_minus_one) (auto simp: unat_eq_zero)
  moreover have "getClass rs grp NetClassTypeEvent (k - 1) = Some (mClassTable rs grp NetClassTypeEvent ! (k - 1))"
    using b by (simp add: getClass_def getNetClassCount_def)
  moreover have "isVersionBorderCount rs grp NetClassTypeEvent k = Some True" using sh by (simp add: shares_def)
  moreover have "(?my \<le> ?its \<and> ?my = k) \<or> (\<not> ?my \<le> ?its \<and> ?its = k)" using k by auto
  ultimately show ?thesis using u b count_le [of ?my ?its] by (elim disjE conjE) (simp_all add: request_read [OF r] Let_def)
qed

lemma client_settles:
  assumes sh: "shares rc rs grp k" and r: "reads stream (int_bits 32 (of_nat k :: u32))"
  shows "\<exists>c'. ev_readConnectAccept rc grp stream c = Some (Inr (), skip_bits 32 stream, c') \<and>
    mEventClassCount (mSub c') = of_nat k \<and> mEventClassBitSize (mSub c') = getNextBinLog2 (of_nat k)"
proof -
  have b: "getNetClassCount rc grp NetClassTypeEvent < 2 ^ 32" "k \<le> getNetClassCount rc grp NetClassTypeEvent" using sh by (auto simp: shares_def)
  then have "unat (of_nat k :: u32) = k" by (intro count_word) simp
  moreover have "\<not> of_nat (getNetClassCount rc grp NetClassTypeEvent) < (of_nat k :: u32)" using b by (simp add: not_less count_le)
  moreover have "read_u32 (mEventClassCount (mSub c)) stream = Some (of_nat k, skip_bits 32 stream)"
    using u32_takes r by (simp add: takes_def)
  ultimately show ?thesis using sh by (simp add: ev_readConnectAccept_def shares_def Let_def)
qed


text \<open>A packet with room for the longer of the two messages.\<close>

definition room :: "bit_stream \<Rightarrow> bool" where
  "room bs \<longleftrightarrow> stream_ok bs \<and> 96 \<le> unat (maxWriteBitNum bs) \<and> 96 \<le> unat (maxReadBitNum bs)"

lemma room_can: "room bs \<Longrightarrow> n \<le> 96 \<Longrightarrow> can_write (setBytePosition 0 bs) n \<and> can_read (setBytePosition 0 bs) n"
  by (simp add: room_def can_write_def can_read_def stream_ok_def setBytePosition_def)

lemma sent_and_read:
  assumes "appends w xs" and "room bs" and "length xs \<le> 96"
  shows "\<exists>bs'. w (setBytePosition 0 bs) = Some bs' \<and> reads (setBytePosition 0 bs') xs \<and> room (skip_bits (length xs) (setBytePosition 0 bs'))"
proof -
  note 1 = room_can [OF assms(2,3)]
  obtain bs' where bs': "w (setBytePosition 0 bs) = Some bs'" "reads (setBitPosition (bitNum (setBytePosition 0 bs)) bs') xs"
    using appends_reads [OF assms(1)] 1 by blast
  have "bs' = append_bits xs (setBytePosition 0 bs)" using assms(1) 1 bs'(1) by (simp add: appends_def)
  then have "room (skip_bits (length xs) (setBytePosition 0 bs'))"
    using assms(2) by (simp add: room_def append_bits_def skip_bits_def setBytePosition_def stream_ok_def)
  moreover have "setBitPosition (bitNum (setBytePosition 0 bs)) bs' = setBytePosition 0 bs'"
    by (simp add: setBitPosition_def setBytePosition_def)
  ultimately show ?thesis using bs' by auto
qed

lemma exchange_settles:
  assumes sh: "shares rc rs grp k" and room: "room stream"
  shows "\<exists>client' server'. connectLocal junk grp rc rs stream client server = Some (True, client', server') \<and>
    mEventClassCount (mSub client') = of_nat k \<and> mEventClassCount (mSub server') = of_nat k \<and>
    mEventClassBitSize (mSub client') = mEventClassBitSize (mSub server')"
proof -
  let ?q = "request_bits grp (getNetClassCount rc grp NetClassTypeEvent)"
  have q: "length ?q = 96" by (simp add: request_bits_def)
  obtain b1 where b1: "ev_writeConnectRequest rc grp (setBytePosition 0 stream) = Some b1" "reads (setBytePosition 0 b1) ?q"
    "room (skip_bits 96 (setBytePosition 0 b1))" using sent_and_read [OF request_appends [of rc grp] room] q by auto
  obtain s' where s': "ev_readConnectRequest junk rs grp (setBytePosition 0 b1) server = Some (Inr (), skip_bits 96 (setBytePosition 0 b1), s')"
    "mEventClassCount (mSub s') = of_nat k" "mEventClassBitSize (mSub s') = getNextBinLog2 (of_nat k)"
    using server_settles [OF sh b1(2)] by blast
  have "appends (ev_writeConnectAccept s') (int_bits 32 (of_nat k :: u32))"
    using u32_appends s'(2) by (simp add: appends_def ev_writeConnectAccept_def)
  then obtain b2 where b2: "ev_writeConnectAccept s' (setBytePosition 0 (skip_bits 96 (setBytePosition 0 b1))) = Some b2"
    "reads (setBytePosition 0 b2) (int_bits 32 (of_nat k :: u32))" using sent_and_read [OF _ b1(3)] by fastforce
  obtain c' where "ev_readConnectAccept rc grp (setBytePosition 0 b2) client = Some (Inr (), skip_bits 32 (setBytePosition 0 b2), c')"
    "mEventClassCount (mSub c') = of_nat k" "mEventClassBitSize (mSub c') = getNextBinLog2 (of_nat k)"
    using client_settles [OF sh b2(2)] by blast
  then show ?thesis using b1(1) b2(1) s' by (simp add: connectLocal_def)
qed

section \<open>The numbers of the classes\<close>

lemma numberClasses_at:
  assumes "distinct table" and "i < length table"
  shows "numberClasses table grp ids (table ! i) grp = of_nat i"
proof -
  have "fold (\<lambda>i ids. ids(table ! i := (ids (table ! i))(grp := of_nat i))) [0..<n] ids (table ! i) grp =
      (if i < n then of_nat i else ids (table ! i) grp)" if "n \<le> length table" for n
    using that assms by (induction n) (auto simp: nth_eq_iff_index_eq less_Suc_eq)
  from this [of "length table"] show ?thesis using assms(2) by (simp add: numberClasses_def)
qed

lemma numberClasses_other: "c \<notin> set table \<or> g \<noteq> grp \<Longrightarrow> numberClasses table grp ids c g = ids c g"
proof -
  assume a: "c \<notin> set table \<or> g \<noteq> grp"
  have "fold (\<lambda>i ids. ids(table ! i := (ids (table ! i))(grp := of_nat i))) [0..<n] ids c g = ids c g" if "n \<le> length table" for n
    using that a by (induction n) (auto dest: nth_mem)
  from this [of "length table"] show ?thesis by (simp add: numberClasses_def)
qed


text \<open>A registry before its initialisation: the names tell classes of one version apart.\<close>

definition registry_ok :: "class_registry \<Rightarrow> bool" where
  "registry_ok r \<longleftrightarrow> \<not> mInitialized r \<and> mClassTable r = (\<lambda>_ _. []) \<and> distinct (mClassLinkList r) \<and>
     inj_on class_key (set (mClassLinkList r)) \<and> (\<forall>c\<in>set (mClassLinkList r). class_ok c) \<and> length (mClassLinkList r) < 2 ^ 32"

lemma members_sub: "set (members r g t) \<subseteq> set (mClassLinkList r)" "length (members r g t) \<le> length (mClassLinkList r)"
  by (auto simp: members_def intro: length_filter_le)

lemma table_of:
  assumes "registry_ok r" "sorts qs" "g < NetClassGroupCount" "0 \<le> t" "t < NetClassTypeCount"
  shows "mClassTable (initialize qs r) g t = qs ACRCompare (members r g t)"
    and "set (qs ACRCompare (members r g t)) = set (members r g t)"
    and "distinct (qs ACRCompare (members r g t))"
    and "length (qs ACRCompare (members r g t)) = length (members r g t)"
proof -
  show "mClassTable (initialize qs r) g t = qs ACRCompare (members r g t)"
    using assms by (intro initialize_table) (simp_all add: registry_ok_def)
  have "mset (qs ACRCompare (members r g t)) = mset (members r g t)" using assms(2) by (simp add: sorts_def)
  moreover have "distinct (members r g t)" using assms(1) by (simp add: registry_ok_def members_def)
  ultimately show "set (qs ACRCompare (members r g t)) = set (members r g t)" "distinct (qs ACRCompare (members r g t))"
    "length (qs ACRCompare (members r g t)) = length (members r g t)"
    using mset_eq_setD mset_eq_imp_distinct_iff mset_eq_length by blast+
qed

lemma initializeGroup_ids:
  "mClassId (initializeGroup qs g t r) = (if members r g t = [] then mClassId r else numberClasses (qs ACRCompare (members r g t)) g (mClassId r))"
  by (simp add: initializeGroup_def members_def Let_def)

lemma ids_loop:
  assumes "sorts qs" and i: "i < length (qs ACRCompare (members r g t))" and d: "distinct (mClassLinkList r)"
  defines "c \<equiv> qs ACRCompare (members r g t) ! i"
  shows "distinct ps \<Longrightarrow> mClassLinkList s = mClassLinkList r \<Longrightarrow>
    mClassId (fold (\<lambda>(g, t). initializeGroup qs g t) ps s) c g = (if (g, t) \<in> set ps then of_nat i else mClassId s c g)"
proof (induction ps arbitrary: s)
  case (Cons p ps)
  obtain g' t' where p: "p = (g', t')" by (cases p)
  let ?s = "initializeGroup qs g' t' s"
  have m: "members s = members r" using Cons.prems(2) by (rule members_fields)
  have se: "set (qs ACRCompare xs) = set xs" for xs using assms(1) mset_eq_setD unfolding sorts_def by blast
  have cm: "c \<in> set (members r g t)" using i se nth_mem unfolding c_def by blast
  have dt: "distinct (qs ACRCompare (members r g t))"
    using d assms(1) mset_eq_imp_distinct_iff [of "qs ACRCompare (members r g t)" "members r g t"] by (simp add: sorts_def members_def)
  have "mClassId ?s c g = (if (g', t') = (g, t) then of_nat i else mClassId s c g)"
  proof (cases "(g', t') = (g, t)")
    case True
    then show ?thesis using numberClasses_at [OF dt i] cm by (auto simp: initializeGroup_ids m c_def)
  next
    case False
    then have "c \<notin> set (qs ACRCompare (members r g' t')) \<or> g \<noteq> g'" using cm by (auto simp: se members_def)
    then show ?thesis using False numberClasses_other by (auto simp: initializeGroup_ids m)
  qed
  then show ?case using Cons.IH [of ?s] Cons.prems by (auto simp: p initializeGroup_fields)
qed simp

lemma ids_of:
  assumes "registry_ok r" "sorts qs" "g < NetClassGroupCount" "0 \<le> t" "t < NetClassTypeCount"
    and "i < length (mClassTable (initialize qs r) g t)"
  shows "mClassId (initialize qs r) (mClassTable (initialize qs r) g t ! i) g = of_nat i"
proof -
  let ?ps = "[(grp, typ). grp \<leftarrow> [0..<NetClassGroupCount], typ \<leftarrow> [0..NetClassTypeCount - 1]]"
  have "distinct ?ps" by code_simp
  moreover have "(g, t) \<in> set ?ps" using assms(3-5) by (auto simp: image_iff)
  ultimately show ?thesis using ids_loop [OF assms(2), of i r g t ?ps r] assms(1,6)
    by (simp add: table_of [OF assms(1-5)]) (simp add: initialize_def registry_ok_def)
qed

text \<open>The newer program has added event classes of versions behind \<open>v\<close> to those of the older one.\<close>

definition adds_only :: "int \<Rightarrow> class_registry \<Rightarrow> class_registry \<Rightarrow> nat \<Rightarrow> bool" where
  "adds_only v r r' g \<longleftrightarrow> registry_ok r \<and> registry_ok r' \<and> members r g NetClassTypeEvent \<noteq> [] \<and>
     mset (members r g NetClassTypeEvent) = mset (filter (\<lambda>c. mClassVersion c \<le> v) (members r' g NetClassTypeEvent))"

lemma adds_only_table:
  assumes a: "adds_only v r r' g" and g: "g < NetClassGroupCount" and qs: "sorts qs" "sorts qs'"
  shows "\<exists>later. mClassTable (initialize qs' r') g NetClassTypeEvent = mClassTable (initialize qs r) g NetClassTypeEvent @ later \<and>
    (\<forall>c\<in>set later. v < mClassVersion c) \<and> (\<forall>c\<in>set (mClassTable (initialize qs r) g NetClassTypeEvent). mClassVersion c \<le> v)"
proof -
  have t: "0 \<le> NetClassTypeEvent" "NetClassTypeEvent < NetClassTypeCount" by (simp_all add: NetClassTypeEvent_def NetClassTypeCount_def)
  have ok: "registry_ok r" "registry_ok r'" using a by (simp_all add: adds_only_def)
  have s: "set (members r' g NetClassTypeEvent) \<subseteq> set (mClassLinkList r')" by (rule members_sub)
  have m: "mset (members r g NetClassTypeEvent) = mset (filter (\<lambda>c. mClassVersion c \<le> v) (members r' g NetClassTypeEvent))"
    using a by (simp add: adds_only_def)
  have "\<forall>c\<in>set (members r' g NetClassTypeEvent). class_ok c" using ok(2) s by (auto simp: registry_ok_def)
  moreover have "inj_on class_key (set (members r' g NetClassTypeEvent))" using ok(2) s inj_on_subset unfolding registry_ok_def by blast
  moreover have "\<forall>c\<in>set (members r g NetClassTypeEvent). mClassVersion c \<le> v" using mset_eq_setD [OF m] by auto
  ultimately show ?thesis
    using table_prefix [OF qs _ _ m] table_of [OF ok(1) qs(1) g t] table_of [OF ok(2) qs(2) g t] by auto
qed


lemma adds_only_shares:
  assumes a: "adds_only v r r' g" and g: "g < NetClassGroupCount" and qs: "sorts qs" "sorts qs'"
  shows "shares (initialize qs r) (initialize qs' r') g (getNetClassCount (initialize qs r) g NetClassTypeEvent)"
proof -
  let ?T = "mClassTable (initialize qs r) g NetClassTypeEvent" and ?T' = "mClassTable (initialize qs' r') g NetClassTypeEvent"
  have t: "0 \<le> NetClassTypeEvent" "NetClassTypeEvent < NetClassTypeCount" by (simp_all add: NetClassTypeEvent_def NetClassTypeCount_def)
  obtain later where later: "?T' = ?T @ later" "\<forall>c\<in>set later. v < mClassVersion c" "\<forall>c\<in>set ?T. mClassVersion c \<le> v"
    using adds_only_table [OF a g qs] by blast
  have ok: "registry_ok r" "registry_ok r'" using a by (simp_all add: adds_only_def)
  have pos: "0 < length ?T"
    using a table_of [OF ok(1) qs(1) g t] by (simp add: adds_only_def)
  have big: "length ?T < 2 ^ 32" "length ?T' < 2 ^ 32"
    using table_of [OF ok(1) qs(1) g t] table_of [OF ok(2) qs(2) g t] members_sub(2) [of r g NetClassTypeEvent]
      members_sub(2) [of r' g NetClassTypeEvent] ok by (simp_all add: registry_ok_def)
  have "isVersionBorderCount (initialize qs' r') g NetClassTypeEvent (length ?T) = Some True"
  proof (cases later)
    case Nil
    then show ?thesis by (simp add: isVersionBorderCount_def later(1))
  next
    case (Cons l ls)
    have "mClassVersion (?T ! (length ?T - 1)) \<le> v" using later(3) pos by simp
    moreover have "v < mClassVersion l" using later(2) Cons by simp
    ultimately show ?thesis using pos by (simp add: isVersionBorderCount_def getClass_def later(1) Cons nth_append)
  qed
  then show ?thesis using pos big later(1) by (simp add: shares_def getNetClassCount_def isVersionBorderCount_def)
qed


subsection \<open>A sorter and two programs\<close>

fun insert_by :: "('a \<Rightarrow> 'a \<Rightarrow> int) \<Rightarrow> 'a \<Rightarrow> 'a list \<Rightarrow> 'a list" where
  "insert_by cmp x [] = [x]"
| "insert_by cmp x (y # ys) = (if cmp x y \<le> 0 then x # y # ys else y # insert_by cmp x ys)"

definition insertion_sort :: class_sorter where
  "insertion_sort cmp xs = foldr (insert_by cmp) xs []"

lemma insert_by_mset [simp]: "mset (insert_by cmp x ys) = add_mset x (mset ys)"
  by (induction ys) auto

lemma insert_by_set [simp]: "set (insert_by cmp x ys) = insert x (set ys)"
  by (induction ys) auto

definition total_on :: "('a \<Rightarrow> 'a \<Rightarrow> int) \<Rightarrow> 'a set \<Rightarrow> bool" where
  "total_on cmp A \<longleftrightarrow> (\<forall>a\<in>A. \<forall>b\<in>A. cmp a b \<le> 0 \<or> cmp b a \<le> 0) \<and>
     (\<forall>a\<in>A. \<forall>b\<in>A. \<forall>c\<in>A. cmp a b \<le> 0 \<longrightarrow> cmp b c \<le> 0 \<longrightarrow> cmp a c \<le> 0)"

lemma total_onD:
  assumes "total_on cmp A" and "a \<in> A" "b \<in> A"
  shows "cmp a b \<le> 0 \<or> cmp b a \<le> 0" and "c \<in> A \<Longrightarrow> cmp a b \<le> 0 \<Longrightarrow> cmp b c \<le> 0 \<Longrightarrow> cmp a c \<le> 0"
  using assms unfolding total_on_def by blast+

lemma insert_by_sorted:
  assumes t: "total_on cmp A" and "x \<in> A" and "set ys \<subseteq> A" and "sorted_wrt (\<lambda>a b. cmp a b \<le> 0) ys"
  shows "sorted_wrt (\<lambda>a b. cmp a b \<le> 0) (insert_by cmp x ys)"
  using assms(3,4)
proof (induction ys)
  case (Cons y ys)
  have 1: "cmp x y \<le> 0 \<or> cmp y x \<le> 0" using total_onD(1) [OF t assms(2)] Cons.prems(1) by simp
  have "\<forall>c\<in>set ys. cmp x c \<le> 0" if "cmp x y \<le> 0"
    using total_onD(2) [OF t assms(2) _ _ that] Cons.prems by auto
  with 1 show ?case using Cons by auto
qed simp

lemma insertion_sort_perm: "mset (insertion_sort cmp xs) = mset xs"
  by (induction xs) (simp_all add: insertion_sort_def)

lemma insertion_sort_sorts: "sorts insertion_sort"
proof -
  have "sorted_wrt (\<lambda>a b. cmp a b \<le> 0) (insertion_sort cmp xs)" if t: "total_on cmp A" and "set xs \<subseteq> A" for cmp xs A
    using that(2)
  proof (induction xs)
    case (Cons x xs)
    have "set (insertion_sort cmp xs) = set xs" using insertion_sort_perm mset_eq_setD by blast
    then show ?case using Cons insert_by_sorted [OF t, of x "insertion_sort cmp xs"] by (simp add: insertion_sort_def)
  qed (simp add: insertion_sort_def)
  then show ?thesis unfolding sorts_def insertion_sort_perm total_on_def by blast
qed


definition event_rep :: "string \<Rightarrow> int \<Rightarrow> class_rep" where
  "event_rep n v = \<lparr>mClassName = n, mClassVersion = v, mClassType = NetClassTypeEvent, mClassGroupMask = 4\<rparr>"

definition old_program :: class_registry where
  "old_program = register_class (event_rep ''QueryServers'' 0) (register_class (event_rep ''QueryGameTypes'' 0) registry_start)"

definition new_program :: class_registry where
  "new_program = register_class (event_rep ''ArrangedAccept'' 1) old_program"

definition other_program :: class_registry where
  "other_program = register_class (event_rep ''Shutdown'' 0) (register_class (event_rep ''Reboot'' 0) registry_start)"

lemmas program_defs = old_program_def new_program_def other_program_def register_class_def registry_start_def event_rep_def NetClassTypeEvent_def

lemma programs_ok: "registry_ok old_program" "registry_ok new_program" "registry_ok other_program"
  by (simp_all add: registry_ok_def class_ok_def program_defs)

lemma programs_add: "adds_only 0 old_program new_program 2"
  using programs_ok by (simp add: adds_only_def members_def program_defs)

lemma room_block: "room (block_stream 12)"
  using block_stream_room(1,2) [of 12 96] by (simp add: room_def can_write_def can_read_def block_stream_def)


text \<open>
  The exchange compares numbers of classes and nothing else: any two registries with as many event classes as each
  other, whatever the classes are, accept each other.
\<close>

theorem counts_alone_decide:
  assumes "getNetClassCount rc g NetClassTypeEvent = k" and "getNetClassCount rs g NetClassTypeEvent = k"
    and "0 < k" "k < 2 ^ 32" and "room stream"
  shows "\<exists>client' server'. connectLocal junk g rc rs stream client server = Some (True, client', server') \<and>
    mEventClassCount (mSub client') = of_nat k \<and> mEventClassCount (mSub server') = of_nat k"
proof -
  have "shares rc rs g k" using assms(1-4) by (simp add: shares_def isVersionBorderCount_def getNetClassCount_def)
  from exchange_settles [OF this assms(5), of junk client server] show ?thesis by blast
qed

lemma counts_alone_decide_witness:
  "(\<exists>client server. connectLocal (0, 0, 0) 2 (initialize insertion_sort old_program) (initialize insertion_sort other_program) (block_stream 12)
      (master_end ConnectionToServer) (master_end ConnectionToClient) = Some (True, client, server) \<and>
      mEventClassCount (mSub client) = of_nat 2 \<and> mEventClassCount (mSub server) = of_nat 2) \<and>
   set (members old_program 2 NetClassTypeEvent) \<inter> set (members other_program 2 NetClassTypeEvent) = {}"
proof -
  have "getNetClassCount (initialize insertion_sort old_program) 2 NetClassTypeEvent = 2"
    "getNetClassCount (initialize insertion_sort other_program) 2 NetClassTypeEvent = 2"
    using table_of [OF programs_ok(1) insertion_sort_sorts, of 2 NetClassTypeEvent] table_of [OF programs_ok(3) insertion_sort_sorts, of 2 NetClassTypeEvent]
    by (simp_all add: getNetClassCount_def NetClassGroupCount_def NetClassTypeCount_def members_def program_defs)
  from counts_alone_decide [OF this _ _ room_block] show ?thesis by (simp add: members_def program_defs)
qed

text \<open>A server without event classes of its own reads before the start of its table.\<close>

lemma no_classes_undefined:
  assumes "getNetClassCount rs g NetClassTypeEvent = 0" and "reads stream (request_bits g n)"
  shows "ev_readConnectRequest junk rs g stream s = None"
  using assms(1) by (simp add: request_read [OF assms(2)] getClass_def getNetClassCount_def)

end
