(* ===== verification/Connection_Table.thy ===== *)
theory Connection_Table
  imports Net_Connection
begin

text \<open>
  The table of connections of \<^verbatim>\<open>tnl/netInterface.cpp\<close>: a list of all connections and a hash table from their addresses, in which collisions take
  the next free slot. A removal empties a slot and puts all entries up to the next empty slot in again. A connection is its pointer, a number;
  \<open>addrOf\<close> gives the addresses, which stay the same while a connection is in the table. Reference counts are left out.
\<close>

section \<open>The operations\<close>

type_synonym conn_id = nat

record conn_table =
  mConnectionList :: "conn_id list"
  mConnectionHashTable :: "conn_id option list"

definition conn_table_new :: conn_table where
  "conn_table_new = \<lparr>mConnectionList = [], mConnectionHashTable = replicate 129 None\<rparr>"

definition address_hash :: "address \<Rightarrow> u32" where
  "address_hash a = (netNum a ! 0) XOR push_bit 8 (ucast (addrPort a)) XOR push_bit 16 (netNum a ! 1) XOR
     drop_bit 16 (netNum a ! 1) XOR push_bit 5 (netNum a ! 2)"

definition homeSlot :: "nat \<Rightarrow> address \<Rightarrow> nat" where
  "homeSlot n a = unat (address_hash a) mod n"

definition nextSlot :: "nat \<Rightarrow> nat \<Rightarrow> nat" where
  "nextSlot n i = (if i + 1 \<ge> n then 0 else i + 1)"

text \<open>The three probing loops. \<open>None\<close> is a loop without an end.\<close>

partial_function (option) freeSlot :: "conn_id option list \<Rightarrow> nat \<Rightarrow> nat option" where
  "freeSlot T i =
     Option.bind (ld T i) (\<lambda>slot.
     if slot = None then Some i else freeSlot T (nextSlot (length T) i))"

partial_function (option) findFrom :: "(conn_id \<Rightarrow> address) \<Rightarrow> conn_id option list \<Rightarrow> address \<Rightarrow> nat \<Rightarrow> conn_id option option" where
  "findFrom addrOf T a i =
     Option.bind (ld T i) (\<lambda>slot.
     case slot of
       None \<Rightarrow> Some None
     | Some c \<Rightarrow> if a = addrOf c then Some (Some c) else findFrom addrOf T a (nextSlot (length T) i))"

partial_function (option) slotOf :: "conn_id option list \<Rightarrow> conn_id \<Rightarrow> nat \<Rightarrow> nat \<Rightarrow> nat option option" where
  "slotOf T c start i =
     Option.bind (ld T i) (\<lambda>slot.
     if slot = Some c then Some (Some i)
     else if nextSlot (length T) i = start then Some None else slotOf T c start (nextSlot (length T) i))"

partial_function (option) rehashFrom :: "(conn_id \<Rightarrow> address) \<Rightarrow> conn_id option list \<Rightarrow> nat \<Rightarrow> conn_id option list option" where
  "rehashFrom addrOf T i =
     (let i = nextSlot (length T) i in
      Option.bind (ld T i) (\<lambda>slot.
      case slot of
        None \<Rightarrow> Some T
      | Some c \<Rightarrow>
          Option.bind (freeSlot (T[i := None]) (homeSlot (length T) (addrOf c))) (\<lambda>j.
          rehashFrom addrOf (T[i := None, j := Some c]) i)))"

declare freeSlot.simps [code] findFrom.simps [code] slotOf.simps [code] rehashFrom.simps [code]

fun insertAll :: "(conn_id \<Rightarrow> address) \<Rightarrow> conn_id list \<Rightarrow> conn_id option list \<Rightarrow> conn_id option list option" where
  "insertAll addrOf [] T = Some T"
| "insertAll addrOf (c # cs) T = do {
     i \<leftarrow> freeSlot T (homeSlot (length T) (addrOf c));
     insertAll addrOf cs (T[i := Some c]) }"

definition findConnection :: "(conn_id \<Rightarrow> address) \<Rightarrow> address \<Rightarrow> conn_table \<Rightarrow> conn_id option option" where
  "findConnection addrOf a t =
     findFrom addrOf (mConnectionHashTable t) a (homeSlot (length (mConnectionHashTable t)) a)"

definition addConnection :: "(conn_id \<Rightarrow> address) \<Rightarrow> conn_id \<Rightarrow> conn_table \<Rightarrow> conn_table option" where
  "addConnection addrOf c t =
     (let conns = mConnectionList t @ [c]; numConnections = length conns; T = mConnectionHashTable t in do {
        T \<leftarrow> (if numConnections > length T div 2 then insertAll addrOf conns (replicate (numConnections * 4 - 1) None)
             else insertAll addrOf [c] T);
        Some \<lparr>mConnectionList = conns, mConnectionHashTable = T\<rparr> })"

text \<open>\<^verbatim>\<open>Vector::erase_fast\<close> moves the last element to the place of the erased one.\<close>

definition eraseFast :: "nat \<Rightarrow> 'a list \<Rightarrow> 'a list" where
  "eraseFast i xs = butlast (if i \<noteq> length xs - 1 then xs[i := last xs] else xs)"

fun indexOf :: "'a \<Rightarrow> 'a list \<Rightarrow> nat option" where
  "indexOf x [] = None"
| "indexOf x (y # ys) = (if y = x then Some 0 else map_option Suc (indexOf x ys))"

definition removeConnection :: "(conn_id \<Rightarrow> address) \<Rightarrow> conn_id \<Rightarrow> conn_table \<Rightarrow> conn_table option" where
  "removeConnection addrOf c t =
     (let conns = (case indexOf c (mConnectionList t) of None \<Rightarrow> mConnectionList t | Some i \<Rightarrow> eraseFast i (mConnectionList t));
          T = mConnectionHashTable t; start = homeSlot (length T) (addrOf c) in do {
        found \<leftarrow> slotOf T c start start;
        case found of
          None \<Rightarrow> Some (t\<lparr>mConnectionList := conns\<rparr>)
        | Some i \<Rightarrow> do {
            T \<leftarrow> rehashFrom addrOf (T[i := None]) i;
            Some \<lparr>mConnectionList = conns, mConnectionHashTable = T\<rparr> } })"


section \<open>The invariant\<close>

text \<open>The entries with their multiplicity, and the first free slot on a way around the table.\<close>

definition entries :: "conn_id option list \<Rightarrow> conn_id multiset" where
  "entries T = image_mset the (filter_mset (\<lambda>x. x \<noteq> None) (mset T))"

definition full_for :: "conn_id option list \<Rightarrow> nat \<Rightarrow> nat \<Rightarrow> bool" where
  "full_for T h d \<longleftrightarrow> (\<forall>k<d. T ! ((h + k) mod length T) \<noteq> None)"

text \<open>No free slot lies between the home of an entry and its place.\<close>

definition table_ok :: "(conn_id \<Rightarrow> address) \<Rightarrow> conn_id option list \<Rightarrow> bool" where
  "table_ok addrOf T \<longleftrightarrow> (\<forall>j<length T. \<forall>c. T ! j = Some c \<longrightarrow>
     (\<exists>d<length T. j = (homeSlot (length T) (addrOf c) + d) mod length T \<and> full_for T (homeSlot (length T) (addrOf c)) d))"

definition conns_ok :: "(conn_id \<Rightarrow> address) \<Rightarrow> conn_table \<Rightarrow> bool" where
  "conns_ok addrOf t \<longleftrightarrow> distinct (mConnectionList t) \<and> entries (mConnectionHashTable t) = mset (mConnectionList t) \<and>
     0 < length (mConnectionHashTable t) \<and> 2 * length (mConnectionList t) \<le> length (mConnectionHashTable t) \<and>
     table_ok addrOf (mConnectionHashTable t)"

lemma nextSlot_mod: "i < n \<Longrightarrow> nextSlot n i = (i + 1) mod n"
  by (cases "i + 1 = n") (auto simp: nextSlot_def)

lemma ld_mod: "i < length T \<Longrightarrow> ld T (k mod length T) = Some (T ! (k mod length T))"
  by (rule ld_in) (auto intro: mod_less_divisor)

lemma homeSlot_less [simp]: "0 < n \<Longrightarrow> homeSlot n a < n"
  by (simp add: homeSlot_def)

lemma entries_in: "c \<in># entries T \<longleftrightarrow> (\<exists>j<length T. T ! j = Some c)"
proof -
  have "c \<in># entries T \<longleftrightarrow> Some c \<in> set T" by (force simp: entries_def)
  then show ?thesis by (simp add: in_set_conv_nth)
qed

lemma entries_insert: "i < length T \<Longrightarrow> T ! i = None \<Longrightarrow> entries (T[i := Some c]) = add_mset c (entries T)"
  by (simp add: entries_def mset_update)

lemma entries_delete:
  assumes "i < length T" and "T ! i = Some c"
  shows "entries T = add_mset c (entries (T[i := None]))"
  using entries_insert [of i "T[i := None]" c] assms list_update_id [of T i] by simp

lemma free_exists:
  assumes "size (entries T) < length T"
  shows "\<exists>i<length T. T ! i = None"
proof (rule ccontr)
  assume "\<not> ?thesis"
  then have "filter_mset (\<lambda>x. x \<noteq> None) (mset T) = mset T" by (auto simp: filter_mset_eq_conv in_set_conv_nth)
  then have "size (entries T) = length T" by (simp add: entries_def)
  then show False using assms by simp
qed

text \<open>On the way around from any slot there is a first free one.\<close>

lemma first_free:
  assumes "i < length T" "T ! i = None" and "h < length T"
  obtains d where "d < length T" "T ! ((h + d) mod length T) = None" "full_for T h d"
proof -
  let ?n = "length T"
  let ?P = "\<lambda>d. T ! ((h + d) mod ?n) = None"
  define d0 where "d0 = (i + ?n - h) mod ?n"
  have "(h + d0) mod ?n = (h + (i + ?n - h)) mod ?n" unfolding d0_def by (rule mod_add_right_eq)
  also have "h + (i + ?n - h) = i + ?n" using assms(3) by simp
  finally have "(h + d0) mod ?n = i" using assms(1) by simp
  then have "?P d0" using assms(2) by simp
  then have "?P (LEAST d. ?P d)" and "(LEAST d. ?P d) \<le> d0" by (rule LeastI, rule Least_le)
  moreover have "d0 < ?n" using assms(1) by (auto simp: d0_def intro: mod_less_divisor)
  moreover have "full_for T h (LEAST d. ?P d)" unfolding full_for_def by (blast dest: not_less_Least)
  ultimately show ?thesis using that [of "LEAST d. ?P d"] by simp
qed

section \<open>The loops\<close>

lemma freeSlot_finds:
  assumes "T ! ((h + d) mod length T) = None" and "full_for T h d" and "0 < length T"
  shows "freeSlot T (h mod length T) = Some ((h + d) mod length T)"
  using assms(1,2)
proof (induction d arbitrary: h)
  case 0
  then show ?case using assms(3) by (subst freeSlot.simps) (simp add: ld_in)
next
  case (Suc d)
  have "full_for T (Suc h) d" using Suc.prems(2) by (auto simp: full_for_def)
  then have "freeSlot T (Suc h mod length T) = Some ((Suc h + d) mod length T)" using Suc.IH [of "Suc h"] Suc.prems(1) by simp
  moreover have "T ! (h mod length T) \<noteq> None" using Suc.prems(2) unfolding full_for_def by (metis add_0_right zero_less_Suc)
  ultimately show ?case using assms(3) nextSlot_mod [of "h mod length T" "length T"]
    by (subst freeSlot.simps) (auto simp: ld_in mod_Suc_eq)
qed

lemma findFrom_runs:
  assumes "full_for T h d" and "\<forall>k<d. \<forall>c. T ! ((h + k) mod length T) = Some c \<longrightarrow> addrOf c \<noteq> a" and "0 < length T"
    and "T ! ((h + d) mod length T) = x" "\<forall>c. x = Some c \<longrightarrow> addrOf c = a"
  shows "findFrom addrOf T a (h mod length T) = Some x"
  using assms(1,2,4)
proof (induction d arbitrary: h)
  case 0
  then show ?case using assms(3,5) by (subst findFrom.simps) (auto simp: ld_in split: option.splits)
next
  case (Suc d)
  have "full_for T (Suc h) d" using Suc.prems(1) by (auto simp: full_for_def)
  moreover have "\<forall>k<d. \<forall>c. T ! ((Suc h + k) mod length T) = Some c \<longrightarrow> addrOf c \<noteq> a"
    using Suc.prems(2) by (metis Suc_less_eq add_Suc_right add_Suc)
  ultimately have "findFrom addrOf T a (Suc h mod length T) = Some x" using Suc.IH [of "Suc h"] Suc.prems(3) by simp
  moreover obtain c where "T ! (h mod length T) = Some c" "addrOf c \<noteq> a"
    using Suc.prems(1,2) unfolding full_for_def by (metis add_0_right zero_less_Suc not_None_eq)
  ultimately show ?case using assms(3) nextSlot_mod [of "h mod length T" "length T"]
    by (subst findFrom.simps) (auto simp: ld_in mod_Suc_eq)
qed

lemma mod_forward: "(h + k) mod n = (q + a) mod n \<Longrightarrow> k \<le> d \<Longrightarrow> (h + d) mod n = (q + (a + (d - k))) mod (n :: nat)"
  by (metis add.assoc le_add_diff_inverse mod_add_left_eq)

lemma mod_offset_le: "(q + a) mod n = (q + b) mod n \<Longrightarrow> a \<le> b \<Longrightarrow> b < n \<Longrightarrow> a = (b :: nat)"
  using mod_eq_dvd_iff_nat [of "q + a" "q + b" n] nat_dvd_not_less [of "b - a" n] by fastforce

lemma mod_offset: "(q + a) mod n = (q + b) mod n \<Longrightarrow> a < n \<Longrightarrow> b < n \<Longrightarrow> a = (b :: nat)"
  by (cases "a \<le> b") (auto dest: mod_offset_le mod_offset_le [OF sym])


lemma mod_moves: "q < n \<Longrightarrow> 0 < a \<Longrightarrow> a < n \<Longrightarrow> (q + a) mod n \<noteq> (q :: nat)"
  using mod_offset [of q a n 0] by (metis add.right_neutral mod_less less_irrefl less_trans)

section \<open>Rehashing\<close>

text \<open>
  In the middle of a removal the slots behind \<open>q\<close>, up to the free slot at the distance \<open>m\<close>, hold entries that wait for their turn. No way of an entry
  passes that slot; those of the others are as they should be and avoid the waiting slots.
\<close>

definition waits :: "nat \<Rightarrow> nat \<Rightarrow> nat \<Rightarrow> nat \<Rightarrow> bool" where
  "waits n q m j \<longleftrightarrow> (\<exists>k. 0 < k \<and> k < m \<and> j = (q + k) mod n)"

definition settled :: "conn_id option list \<Rightarrow> nat \<Rightarrow> nat \<Rightarrow> nat \<Rightarrow> nat \<Rightarrow> bool" where
  "settled T q m h d \<longleftrightarrow> (\<forall>k<d. T ! ((h + k) mod length T) \<noteq> None \<and> \<not> waits (length T) q m ((h + k) mod length T))"

definition rehash_ok :: "(conn_id \<Rightarrow> address) \<Rightarrow> conn_id option list \<Rightarrow> nat \<Rightarrow> nat \<Rightarrow> bool" where
  "rehash_ok addrOf T q m \<longleftrightarrow> 0 < m \<and> m < length T \<and> q < length T \<and> T ! ((q + m) mod length T) = None \<and>
     (\<forall>k. 0 < k \<longrightarrow> k < m \<longrightarrow> T ! ((q + k) mod length T) \<noteq> None) \<and>
     (\<forall>j<length T. \<forall>c. T ! j = Some c \<longrightarrow>
        (\<exists>d<length T. j = (homeSlot (length T) (addrOf c) + d) mod length T \<and>
          (\<forall>k<d. (homeSlot (length T) (addrOf c) + k) mod length T \<noteq> (q + m) mod length T) \<and>
          (waits (length T) q m j \<or> settled T q m (homeSlot (length T) (addrOf c)) d)))"

lemma rehash_okD:
  "rehash_ok addrOf T q m \<Longrightarrow> j < length T \<Longrightarrow> T ! j = Some c \<Longrightarrow>
    \<exists>d<length T. j = (homeSlot (length T) (addrOf c) + d) mod length T \<and>
      (\<forall>k<d. (homeSlot (length T) (addrOf c) + k) mod length T \<noteq> (q + m) mod length T) \<and>
      (waits (length T) q m j \<or> settled T q m (homeSlot (length T) (addrOf c)) d)"
  unfolding rehash_ok_def by blast

lemma rehash_done:
  assumes "rehash_ok addrOf T q 1"
  shows "table_ok addrOf T"
proof -
  have w: "\<not> waits (length T) q 1 j" for j by (auto simp: waits_def)
  show ?thesis unfolding table_ok_def
  proof (intro allI impI)
    fix j c assume "j < length T" "T ! j = Some c"
    from rehash_okD [OF assms this] obtain d where "d < length T" "j = (homeSlot (length T) (addrOf c) + d) mod length T"
        "settled T q 1 (homeSlot (length T) (addrOf c)) d"
      using w by blast
    moreover from this(3) have "full_for T (homeSlot (length T) (addrOf c)) d" unfolding settled_def full_for_def by blast
    ultimately show "\<exists>d<length T. j = (homeSlot (length T) (addrOf c) + d) mod length T \<and> full_for T (homeSlot (length T) (addrOf c)) d"
      by blast
  qed
qed

text \<open>The entry behind \<open>q\<close> goes to the first free slot of its way, which it reaches before the waiting ones.\<close>

lemma rehash_step:
  assumes ok: "rehash_ok addrOf T q (Suc (Suc m))"
  defines "q1 \<equiv> (q + 1) mod length T"
  obtains c j where "T ! q1 = Some c" "freeSlot (T[q1 := None]) (homeSlot (length T) (addrOf c)) = Some j"
    "rehash_ok addrOf (T[q1 := None, j := Some c]) q1 (Suc m)" "entries (T[q1 := None, j := Some c]) = entries T"
proof -
  let ?n = "length T" and ?e = "(q + Suc (Suc m)) mod length T"
  have n: "Suc (Suc m) < ?n" "0 < ?n" and q1: "q1 < ?n" using ok by (auto simp: rehash_ok_def q1_def intro: mod_less_divisor)
  have e: "T ! ?e = None" and pend: "\<And>k. 0 < k \<Longrightarrow> k < Suc (Suc m) \<Longrightarrow> T ! ((q + k) mod ?n) \<noteq> None" using ok by (simp_all add: rehash_ok_def)
  obtain c where c: "T ! q1 = Some c" using pend [of 1] by (auto simp: q1_def)
  let ?h = "homeSlot ?n (addrOf c)"
  obtain d where d: "d < ?n" "q1 = (?h + d) mod ?n" "\<And>k. k < d \<Longrightarrow> (?h + k) mod ?n \<noteq> ?e"
    using ok c q1 unfolding rehash_ok_def by blast
  let ?T1 = "T[q1 := None]"
  have h: "?h < ?n" using n by simp
  obtain d1 where d1: "d1 < ?n" "?T1 ! ((?h + d1) mod ?n) = None" "full_for ?T1 ?h d1"
    using first_free [of q1 ?T1 ?h] q1 h by auto
  let ?j = "(?h + d1) mod ?n"
  have le: "d1 \<le> d" using d1(3) d(2) q1 unfolding full_for_def by (metis length_list_update not_less nth_list_update_eq)
  have j: "?j < ?n" "?j \<noteq> ?e"
  proof -
    show "?j < ?n" using n by simp
    show "?j \<noteq> ?e" using le d(2,3) c e by (cases "d1 = d") auto
  qed
  have free: "freeSlot ?T1 ?h = Some ?j" using freeSlot_finds [of ?T1 ?h d1] d1(2,3) n h by simp
  let ?T2 = "?T1[?j := Some c]"
  have off: "(q1 + a) mod ?n = (q + Suc a) mod ?n" for a
    using mod_add_left_eq [of "q + 1" ?n a] by (simp add: q1_def)
  then have e1: "(q1 + Suc m) mod ?n = ?e" .
  have w1: "waits ?n q (Suc (Suc m)) x \<longleftrightarrow> x = q1 \<or> waits ?n q1 (Suc m) x" for x
  proof
    assume "waits ?n q (Suc (Suc m)) x"
    then obtain k where "0 < k" "k < Suc (Suc m)" "x = (q + k) mod ?n" by (auto simp: waits_def)
    then show "x = q1 \<or> waits ?n q1 (Suc m) x" using off by (cases "k = 1") (auto simp: waits_def q1_def gr0_conv_Suc)
  next
    assume "x = q1 \<or> waits ?n q1 (Suc m) x"
    then show "waits ?n q (Suc (Suc m)) x"
    proof
      assume "waits ?n q1 (Suc m) x"
      then obtain k where "k < Suc m" "x = (q + Suc k) mod ?n" using off by (auto simp: waits_def)
      then show ?thesis unfolding waits_def by (intro exI [of _ "Suc k"]) simp
    qed (auto simp: waits_def q1_def)
  qed
  have T2: "?T2 ! x \<noteq> None" if "?T1 ! x \<noteq> None" for x using that j(1) by (cases "x = ?j") simp_all
  have away: "\<not> waits ?n q1 (Suc m) ((?h + k) mod ?n)" if k: "k < d1" for k
  proof
    assume "waits ?n q1 (Suc m) ((?h + k) mod ?n)"
    then obtain a where a: "0 < a" "a < Suc m" "(?h + k) mod ?n = (q1 + a) mod ?n" by (auto simp: waits_def)
    have kd: "k < d" using k le by simp
    have "(?h + d) mod ?n = (q1 + (a + (d - k))) mod ?n" using mod_forward [OF a(3), of d] kd by simp
    then have "(q1 + 0) mod ?n = (q1 + (a + (d - k))) mod ?n" using d(2) q1 by simp
    then have "\<not> a + (d - k) \<le> Suc m" using mod_offset [of q1 0 ?n "a + (d - k)"] a(1) n by auto
    then have "k + (Suc m - a) < d" using kd a(2) by linarith
    moreover have "(?h + (k + (Suc m - a))) mod ?n = (q1 + Suc m) mod ?n" using mod_forward [OF a(3), of "k + (Suc m - a)"] a(2) by simp
    ultimately show False using d(3) e1 by simp
  qed
  have eq1: "?e \<noteq> q1" using c e by auto
  have "rehash_ok addrOf ?T2 q1 (Suc m)" unfolding rehash_ok_def length_list_update
  proof (intro conjI allI impI)
    show "?T2 ! ((q1 + Suc m) mod ?n) = None" using j eq1 e by (simp only: e1) simp
    show "?T2 ! ((q1 + k) mod ?n) \<noteq> None" if "0 < k" "k < Suc m" for k
    proof -
      have "(q1 + k) mod ?n \<noteq> q1" using mod_moves [OF q1 that(1)] that n by simp
      moreover have "T ! ((q1 + k) mod ?n) \<noteq> None" using pend [of "Suc k"] that off by simp
      ultimately show ?thesis by (intro T2) simp
    qed
    fix i x assume i: "i < ?n" and x: "?T2 ! i = Some x"
    let ?g = "homeSlot ?n (addrOf x)"
    show "\<exists>d<?n. i = (?g + d) mod ?n \<and> (\<forall>k<d. (?g + k) mod ?n \<noteq> (q1 + Suc m) mod ?n) \<and> (waits ?n q1 (Suc m) i \<or> settled ?T2 q1 (Suc m) ?g d)"
    proof (cases "i = ?j")
      case True
      then have "x = c" using x j(1) by simp
      moreover have "settled ?T2 q1 (Suc m) ?h d1" using away T2 d1(3) by (simp add: settled_def full_for_def)
      moreover have "\<forall>k<d1. (?h + k) mod ?n \<noteq> (q1 + Suc m) mod ?n" using le d(3) e1 by simp
      ultimately show ?thesis using True d1(1) by blast
    next
      case False
      then have x1: "?T1 ! i = Some x" using x by simp
      then have iq: "i \<noteq> q1" using q1 by auto
      then have Ti: "T ! i = Some x" using x1 by simp
      then obtain d' where d': "d' < ?n" "i = (?g + d') mod ?n" "\<forall>k<d'. (?g + k) mod ?n \<noteq> ?e"
          "waits ?n q (Suc (Suc m)) i \<or> settled T q (Suc (Suc m)) ?g d'"
        using ok i unfolding rehash_ok_def by blast
      have "settled ?T2 q1 (Suc m) ?g d'" if "settled T q (Suc (Suc m)) ?g d'"
        using that T2 w1 unfolding settled_def length_list_update by (metis nth_list_update_neq)
      then show ?thesis using d' w1 iq e1 by auto
    qed
  qed (use n q1 in simp_all)
  moreover have "entries ?T2 = entries T"
    using entries_insert [of ?j ?T1 c] entries_delete [OF q1 c] j(1) d1(2) by simp
  ultimately show ?thesis using that c free by simp
qed


lemma rehashFrom_ok:
  "rehash_ok addrOf T q (Suc m) \<Longrightarrow>
    \<exists>T'. rehashFrom addrOf T q = Some T' \<and> table_ok addrOf T' \<and> length T' = length T \<and> entries T' = entries T"
proof (induction m arbitrary: T q)
  case 0
  then have "ld T (nextSlot (length T) q) = Some None" using ld_mod [of q T "Suc q"] by (simp add: rehash_ok_def nextSlot_mod)
  moreover have "table_ok addrOf T" using 0 by (intro rehash_done) simp
  ultimately show ?case by (subst rehashFrom.simps) simp
next
  case (Suc m)
  let ?q = "(q + 1) mod length T"
  obtain c j where s: "T ! ?q = Some c" "freeSlot (T[?q := None]) (homeSlot (length T) (addrOf c)) = Some j"
      "rehash_ok addrOf (T[?q := None, j := Some c]) ?q (Suc m)" "entries (T[?q := None, j := Some c]) = entries T"
    using rehash_step [OF Suc.prems] by blast
  have "q < length T" "?q < length T" using Suc.prems by (auto simp: rehash_ok_def intro: mod_less_divisor)
  then have "ld T (nextSlot (length T) q) = Some (Some c)" "nextSlot (length T) q = ?q" using s(1) nextSlot_mod [of q "length T"] by (simp_all add: ld_in)
  then show ?case using Suc.IH [OF s(3)] s(2,4) by (subst rehashFrom.simps) (simp add: Let_def)
qed

lemma removal_starts:
  assumes ok: "table_ok addrOf T" and i: "i < length T" "T ! i = Some c" and room: "size (entries T) < length T"
  obtains m where "rehash_ok addrOf (T[i := None]) i (Suc m)"
proof -
  let ?n = "length T" and ?T = "T[i := None]"
  have n: "0 < ?n" using i by auto
  obtain i0 where "i0 < ?n" "T ! i0 = None" using free_exists [OF room] by blast
  then obtain d where d: "d < ?n" "T ! (((i + 1) mod ?n + d) mod ?n) = None" "full_for T ((i + 1) mod ?n) d"
    using first_free [of i0 T "(i + 1) mod ?n"] n by auto
  have off: "((i + 1) mod ?n + a) mod ?n = (i + Suc a) mod ?n" for a using mod_add_left_eq [of "i + 1" ?n a] by simp
  have e: "T ! ((i + Suc d) mod ?n) = None" using d(2) by (simp only: off)
  have "(i + ?n) mod ?n = i" using i(1) by simp
  have "Suc d \<noteq> ?n"
  proof
    assume "Suc d = ?n"
    then have "T ! i = None" using e \<open>(i + ?n) mod ?n = i\<close> by (simp only:)
    then show False using i(2) by simp
  qed
  then have dn: "Suc d < ?n" using d(1) by simp
  have full: "T ! ((i + k) mod ?n) \<noteq> None" if "0 < k" "k < Suc d" for k
    using d(3) that off [of "k - 1"] unfolding full_for_def by (cases k) auto
  have ei: "(i + Suc d) mod ?n \<noteq> i" using e i(2) by auto
  have "rehash_ok addrOf ?T i (Suc d)" unfolding rehash_ok_def length_list_update
  proof (intro conjI allI impI)
    show "?T ! ((i + Suc d) mod ?n) = None" using e ei by (simp only: nth_list_update_neq [OF ei [symmetric]])
    show "?T ! ((i + k) mod ?n) \<noteq> None" if "0 < k" "k < Suc d" for k
    proof -
      have "(i + k) mod ?n \<noteq> i" using mod_moves [OF i(1) that(1)] that dn by simp
      then show ?thesis using full [OF that] by simp
    qed
    fix j x assume j: "j < ?n" and x: "?T ! j = Some x"
    let ?h = "homeSlot ?n (addrOf x)"
    have ji: "j \<noteq> i" using x i by auto
    then have Tj: "T ! j = Some x" using x by simp
    obtain d' where d': "d' < ?n" "j = (?h + d') mod ?n" "full_for T ?h d'" using ok j Tj unfolding table_ok_def by blast
    have ne: "(?h + k) mod ?n \<noteq> (i + Suc d) mod ?n" if "k < d'" for k using d'(3) that e unfolding full_for_def by metis
    have far: "(?h + k) mod ?n \<noteq> (i + a) mod ?n" if k: "k < d'" and a: "a < Suc d" and nw: "\<not> waits ?n i (Suc d) j" for k a
    proof
      assume eq: "(?h + k) mod ?n = (i + a) mod ?n"
      have jj: "j = (i + (a + (d' - k))) mod ?n" using mod_forward [OF eq, of d'] k d'(2) by simp
      have "\<not> a + (d' - k) < Suc d" using nw jj k unfolding waits_def by (metis add_gr_0 zero_less_diff)
      moreover have "a + (d' - k) \<noteq> Suc d" using jj e Tj by auto
      ultimately have "k + (Suc d - a) < d'" using a k by linarith
      moreover have "(?h + (k + (Suc d - a))) mod ?n = (i + Suc d) mod ?n" using mod_forward [OF eq, of "k + (Suc d - a)"] a by simp
      ultimately show False using ne by blast
    qed
    have "settled ?T i (Suc d) ?h d'" if nw: "\<not> waits ?n i (Suc d) j"
      unfolding settled_def length_list_update
    proof (intro allI impI)
      fix k assume k: "k < d'"
      have "(?h + k) mod ?n \<noteq> i" using far [OF k _ nw, of 0] i by simp
      moreover have "\<not> waits ?n i (Suc d) ((?h + k) mod ?n)" using far [OF k _ nw] unfolding waits_def by blast
      moreover have "T ! ((?h + k) mod ?n) \<noteq> None" using d'(3) k by (simp add: full_for_def)
      ultimately show "?T ! ((?h + k) mod ?n) \<noteq> None \<and> \<not> waits ?n i (Suc d) ((?h + k) mod ?n)" by simp
    qed
    then show "\<exists>d'<?n. j = (?h + d') mod ?n \<and> (\<forall>k<d'. (?h + k) mod ?n \<noteq> (i + Suc d) mod ?n) \<and> (waits ?n i (Suc d) j \<or> settled ?T i (Suc d) ?h d')"
      using d' ne by blast
  qed (use dn i in simp_all)
  then show ?thesis using that by blast
qed

section \<open>The table finds what is in it\<close>

lemma slot_less: "i < length T \<Longrightarrow> k mod length T < length T"
  by (rule mod_less_divisor) linarith

lemma next_mod: "i < length T \<Longrightarrow> nextSlot (length T) (k mod length T) = Suc k mod length T"
  using nextSlot_mod [of "k mod length T" "length T"] slot_less [of i T k] by (simp add: mod_Suc_eq)

lemma slotOf_runs:
  assumes "\<forall>k<d. T ! ((h + k) mod length T) \<noteq> Some c" and "T ! ((h + d) mod length T) = Some c" and "d < length T" and "h < length T"
  shows "k \<le> d \<Longrightarrow> slotOf T c h ((h + k) mod length T) = Some (Some ((h + d) mod length T))"
proof (induction "d - k" arbitrary: k)
  case 0
  then have "k = d" by simp
  then show ?case using assms(2) ld_mod [OF assms(3), of "h + d"] by (subst slotOf.simps) simp
next
  case (Suc e)
  then have "slotOf T c h ((h + Suc k) mod length T) = Some (Some ((h + d) mod length T))" using Suc.hyps(1) [of "Suc k"] by simp
  moreover have "T ! ((h + k) mod length T) \<noteq> Some c" using assms(1) Suc by simp
  moreover have "(h + Suc k) mod length T \<noteq> h" using mod_moves [OF assms(4), of "Suc k"] assms(3) Suc by simp
  ultimately show ?case using next_mod [OF assms(3), of "h + k"] ld_mod [OF assms(3), of "h + k"] by (subst slotOf.simps) simp
qed


lemma slotOf_absent:
  assumes "\<forall>j<length T. T ! j \<noteq> Some c" and "h < length T"
  shows "k < length T \<Longrightarrow> slotOf T c h ((h + k) mod length T) = Some None"
proof (induction "length T - Suc k" arbitrary: k)
  case 0
  then have "Suc (h + k) = h + length T" by simp
  then have "Suc (h + k) mod length T = h" using assms(2) by (simp only: mod_add_self2 mod_less)
  moreover have "T ! ((h + k) mod length T) \<noteq> Some c" using assms(1) slot_less [OF assms(2)] by blast
  ultimately show ?case using next_mod [OF assms(2), of "h + k"] ld_mod [OF assms(2), of "h + k"] by (subst slotOf.simps) simp
next
  case (Suc e)
  then have "slotOf T c h ((h + Suc k) mod length T) = Some None" using Suc.hyps(1) [of "Suc k"] by simp
  moreover have "T ! ((h + k) mod length T) \<noteq> Some c" using assms(1) slot_less [OF assms(2)] by blast
  ultimately show ?case using next_mod [OF assms(2), of "h + k"] ld_mod [OF assms(2), of "h + k"] by (subst slotOf.simps) simp
qed

lemma table_okD:
  "table_ok addrOf T \<Longrightarrow> j < length T \<Longrightarrow> T ! j = Some c \<Longrightarrow>
    \<exists>d<length T. j = (homeSlot (length T) (addrOf c) + d) mod length T \<and> full_for T (homeSlot (length T) (addrOf c)) d"
  unfolding table_ok_def by blast

lemma find_ok:
  assumes ok: "table_ok addrOf T" and room: "size (entries T) < length T"
  shows "\<exists>r. findFrom addrOf T a (homeSlot (length T) a) = Some r \<and>
    (case r of None \<Rightarrow> \<forall>c. c \<in># entries T \<longrightarrow> addrOf c \<noteq> a | Some c \<Rightarrow> c \<in># entries T \<and> addrOf c = a)"
proof -
  let ?h = "homeSlot (length T) a" and ?n = "length T"
  let ?P = "\<lambda>k. T ! ((?h + k) mod ?n) = None \<or> (\<exists>c. T ! ((?h + k) mod ?n) = Some c \<and> addrOf c = a)"
  have n: "0 < ?n" using room by linarith
  obtain i where i: "i < ?n" "T ! i = None" using free_exists [OF room] by blast
  obtain d0 where "T ! ((?h + d0) mod ?n) = None" using first_free [OF i, of ?h] n by auto
  then have "?P d0" by simp
  define d where "d = (LEAST k. ?P k)"
  have Pd: "?P d" unfolding d_def using \<open>?P d0\<close> by (rule LeastI)
  have before: "T ! ((?h + k) mod ?n) \<noteq> None \<and> (\<forall>c. T ! ((?h + k) mod ?n) = Some c \<longrightarrow> addrOf c \<noteq> a)" if "k < d" for k
  proof -
    have "\<not> ?P k" using that unfolding d_def by (rule not_less_Least)
    then show ?thesis by auto
  qed
  have run: "findFrom addrOf T a ?h = Some (T ! ((?h + d) mod ?n))"
    using findFrom_runs [of T ?h d addrOf a] before Pd n by (auto simp: full_for_def)
  show ?thesis
  proof (cases "T ! ((?h + d) mod ?n)")
    case None
    have "addrOf c \<noteq> a" if "c \<in># entries T" for c
    proof
      assume a: "addrOf c = a"
      from that obtain j where j: "j < ?n" "T ! j = Some c" unfolding entries_in by blast
      obtain d' where d': "j = (?h + d') mod ?n" "full_for T ?h d'" using table_okD [OF ok j] unfolding a by blast
      have "\<not> d' < d" using before [of d'] d'(1) j a by auto
      moreover have "\<not> d < d'" using d'(2) None by (auto simp: full_for_def)
      ultimately have "d' = d" by simp
      then show False using None d' j by simp
    qed
    then show ?thesis using run None by simp
  next
    case (Some c)
    have "(?h + d) mod ?n < ?n" using n by simp
    then show ?thesis using run Some Pd entries_in by auto
  qed
qed

lemma insertAll_ok:
  "table_ok addrOf T \<Longrightarrow> size (entries T) + length cs \<le> length T \<Longrightarrow>
    \<exists>T'. insertAll addrOf cs T = Some T' \<and> table_ok addrOf T' \<and> length T' = length T \<and> entries T' = entries T + mset cs"
proof (induction cs arbitrary: T)
  case (Cons c cs)
  let ?h = "homeSlot (length T) (addrOf c)"
  obtain i where i: "i < length T" "T ! i = None" using free_exists [of T] Cons.prems(2) by auto
  have h: "?h < length T" using i by (intro homeSlot_less) auto
  obtain d where d: "d < length T" "T ! ((?h + d) mod length T) = None" "full_for T ?h d" using first_free [OF i h] by blast
  let ?j = "(?h + d) mod length T"
  let ?T = "T[?j := Some c]"
  have j: "?j < length T" using i by (auto intro: mod_less_divisor)
  have "freeSlot T ?h = Some ?j" using freeSlot_finds [OF d(2,3)] h i slot_less [OF i(1)] by (metis mod_less gr_zeroI not_less_zero)
  moreover have e: "entries ?T = add_mset c (entries T)" using entries_insert [OF j d(2)] .
  moreover have "table_ok addrOf ?T" unfolding table_ok_def length_list_update
  proof (intro allI impI)
    fix k x assume k: "k < length T" "?T ! k = Some x"
    have grow: "full_for ?T g d'" if "full_for T g d'" for g d'
      using that j by (auto simp: full_for_def nth_list_update)
    show "\<exists>d<length T. k = (homeSlot (length T) (addrOf x) + d) mod length T \<and> full_for ?T (homeSlot (length T) (addrOf x)) d"
    proof (cases "k = ?j")
      case True
      then show ?thesis using k j d grow by auto
    next
      case False
      then have "T ! k = Some x" using k by simp
      then show ?thesis using table_okD [OF Cons.prems(1) k(1)] grow by blast
    qed
  qed
  ultimately show ?case using Cons.IH [of ?T] Cons.prems(2) by simp
qed simp

lemma empty_table: "table_ok addrOf (replicate n None)" "entries (replicate n None) = {#}"
  by (simp_all add: table_ok_def entries_def)


section \<open>The operations keep the invariant\<close>

lemma conns_new: "conns_ok addrOf conn_table_new"
  using empty_table(1) [of addrOf 129] by (simp add: conns_ok_def conn_table_new_def empty_table(2))

lemma conns_room: "conns_ok addrOf t \<Longrightarrow> size (entries (mConnectionHashTable t)) < length (mConnectionHashTable t)"
proof -
  assume ok: "conns_ok addrOf t"
  then have "size (entries (mConnectionHashTable t)) = length (mConnectionList t)" by (simp add: conns_ok_def)
  moreover have "0 < length (mConnectionHashTable t)" "2 * length (mConnectionList t) \<le> length (mConnectionHashTable t)"
    using ok unfolding conns_ok_def by blast+
  ultimately show ?thesis by linarith
qed

lemma addConnection_ok:
  assumes ok: "conns_ok addrOf t" and new: "c \<notin> set (mConnectionList t)"
  shows "\<exists>t'. addConnection addrOf c t = Some t' \<and> conns_ok addrOf t' \<and> mConnectionList t' = mConnectionList t @ [c]"
proof -
  let ?L = "mConnectionList t @ [c]" and ?T = "mConnectionHashTable t"
  have o: "distinct (mConnectionList t)" "entries ?T = mset (mConnectionList t)" "0 < length ?T"
    "2 * length (mConnectionList t) \<le> length ?T" "table_ok addrOf ?T" using ok by (simp_all add: conns_ok_def)
  show ?thesis
  proof (cases "length ?L > length ?T div 2")
    case True
    let ?N = "replicate (length ?L * 4 - 1) None :: conn_id option list"
    have "size (entries ?N) + length ?L \<le> length ?N" using empty_table by simp
    then obtain T' where "insertAll addrOf ?L ?N = Some T'" "table_ok addrOf T'" "length T' = length ?N" "entries T' = entries ?N + mset ?L"
      using insertAll_ok [OF empty_table(1)] by blast
    moreover from this(3) have "T' \<noteq> []" by auto
    ultimately show ?thesis using True o(1) new empty_table(2) by (simp add: addConnection_def conns_ok_def Let_def)
  next
    case False
    have "size (entries ?T) + length [c] \<le> length ?T" using conns_room [OF ok] by simp
    then obtain T' where "insertAll addrOf [c] ?T = Some T'" "table_ok addrOf T'" "length T' = length ?T" "entries T' = entries ?T + mset [c]"
      using insertAll_ok [OF o(5)] by blast
    moreover have "T' \<noteq> []" "2 * length ?L \<le> length T'" using False o(3) calculation(3) by auto
    ultimately show ?thesis using False o(1,2) new unfolding addConnection_def conns_ok_def Let_def by simp
  qed
qed

lemma eraseFast_mset:
  assumes "i < length xs"
  shows "mset (eraseFast i xs) = mset xs - {#xs ! i#}"
proof -
  obtain ys y where xs: "xs = ys @ [y]" using assms by (cases xs rule: rev_cases) auto
  show ?thesis
  proof (cases "i = length ys")
    case True
    then show ?thesis by (simp add: eraseFast_def xs)
  next
    case False
    then have "i < length ys" using assms xs by simp
    moreover from this have "xs ! i \<in># mset ys" by (simp add: xs nth_append)
    ultimately show ?thesis by (simp add: eraseFast_def xs nth_append list_update_append mset_update)
  qed
qed

lemma indexOf_cases: "(case indexOf x xs of None \<Rightarrow> x \<notin> set xs | Some i \<Rightarrow> i < length xs \<and> xs ! i = x)"
  by (induction xs) (auto split: option.splits)

lemma removeConnection_ok:
  assumes ok: "conns_ok addrOf t"
  shows "\<exists>t'. removeConnection addrOf c t = Some t' \<and> conns_ok addrOf t' \<and> set (mConnectionList t') = set (mConnectionList t) - {c}"
proof -
  let ?L = "mConnectionList t" and ?T = "mConnectionHashTable t"
  let ?h = "homeSlot (length ?T) (addrOf c)"
  have o: "distinct ?L" "entries ?T = mset ?L" "0 < length ?T" "2 * length ?L \<le> length ?T" "table_ok addrOf ?T"
    using ok by (simp_all add: conns_ok_def)
  have h: "?h < length ?T" using o(3) by simp
  show ?thesis
  proof (cases "c \<in> set ?L")
    case False
    then have "indexOf c ?L = None" using indexOf_cases [of c ?L] by (auto split: option.splits)
    moreover have "\<forall>j<length ?T. ?T ! j \<noteq> Some c" using False o(2) entries_in [of c ?T] by auto
    then have "slotOf ?T c ?h ?h = Some None" using slotOf_absent [of ?T c ?h 0] h o(3) by simp
    ultimately show ?thesis using False ok by (simp add: removeConnection_def Let_def)
  next
    case True
    obtain i where i: "indexOf c ?L = Some i" "i < length ?L" "?L ! i = c"
      using indexOf_cases [of c ?L] True by (auto split: option.splits)
    have L: "mset (eraseFast i ?L) = mset ?L - {#c#}" using eraseFast_mset [OF i(2)] i(3) by simp
    have dL: "distinct (eraseFast i ?L)" "set (eraseFast i ?L) = set ?L - {c}" "length (eraseFast i ?L) \<le> length ?L"
    proof -
      have m: "mset (eraseFast i ?L) = mset (remove1 c ?L)" using L by simp
      show "distinct (eraseFast i ?L)" using mset_eq_imp_distinct_iff [OF m] o(1) by simp
      show "set (eraseFast i ?L) = set ?L - {c}" using mset_eq_setD [OF m] o(1) by simp
      show "length (eraseFast i ?L) \<le> length ?L" using mset_eq_length [OF m] by (simp add: length_remove1)
    qed
    have "c \<in># entries ?T" using True o(2) by simp
    then obtain j where j: "j < length ?T" "?T ! j = Some c" unfolding entries_in by blast
    obtain d where d: "d < length ?T" "j = (?h + d) mod length ?T" using table_okD [OF o(5) j] by blast
    let ?P = "\<lambda>k. ?T ! ((?h + k) mod length ?T) = Some c"
    have "?P d" using d j by simp
    then have P: "?P (LEAST k. ?P k)" "(LEAST k. ?P k) \<le> d" by (rule LeastI, rule Least_le)
    have "\<forall>k < (LEAST k. ?P k). \<not> ?P k" using not_less_Least by blast
    then have s: "slotOf ?T c ?h ?h = Some (Some ((?h + (LEAST k. ?P k)) mod length ?T))"
      using slotOf_runs [of "LEAST k. ?P k" ?T ?h c 0] P d(1) h by simp
    let ?i = "(?h + (LEAST k. ?P k)) mod length ?T"
    have il: "?i < length ?T" using slot_less [OF h] .
    obtain m where "rehash_ok addrOf (?T[?i := None]) ?i (Suc m)"
      using removal_starts [OF o(5) il P(1) conns_room [OF ok]] by blast
    then obtain T' where T': "rehashFrom addrOf (?T[?i := None]) ?i = Some T'" "table_ok addrOf T'" "length T' = length ?T"
        "entries T' = entries (?T[?i := None])" using rehashFrom_ok by fastforce
    have "entries T' = mset ?L - {#c#}" using entries_delete [OF il P(1)] T'(4) o(2) by (metis add_mset_remove_trivial)
    then have "conns_ok addrOf \<lparr>mConnectionList = eraseFast i ?L, mConnectionHashTable = T'\<rparr>"
      using dL L T'(2,3) o(3,4) by (simp add: conns_ok_def)
    then show ?thesis using i(1) s T'(1) dL(2) by (simp add: removeConnection_def Let_def)
  qed
qed

section \<open>A finite map from addresses\<close>

datatype conn_op = AddConn conn_id | RemoveConn conn_id

fun conn_ops :: "(conn_id \<Rightarrow> address) \<Rightarrow> conn_op list \<Rightarrow> conn_table \<Rightarrow> conn_table option" where
  "conn_ops addrOf [] t = Some t"
| "conn_ops addrOf (AddConn c # ops) t = do { t \<leftarrow> addConnection addrOf c t; conn_ops addrOf ops t }"
| "conn_ops addrOf (RemoveConn c # ops) t = do { t \<leftarrow> removeConnection addrOf c t; conn_ops addrOf ops t }"

fun conn_set :: "conn_op list \<Rightarrow> conn_id set \<Rightarrow> conn_id set" where
  "conn_set [] S = S"
| "conn_set (AddConn c # ops) S = conn_set ops (insert c S)"
| "conn_set (RemoveConn c # ops) S = conn_set ops (S - {c})"

text \<open>No connection is added twice.\<close>

fun adds_new :: "conn_op list \<Rightarrow> conn_id set \<Rightarrow> bool" where
  "adds_new [] S = True"
| "adds_new (AddConn c # ops) S = (c \<notin> S \<and> adds_new ops (insert c S))"
| "adds_new (RemoveConn c # ops) S = adds_new ops (S - {c})"

lemma conn_ops_ok:
  "conns_ok addrOf t \<Longrightarrow> adds_new ops (set (mConnectionList t)) \<Longrightarrow>
    \<exists>t'. conn_ops addrOf ops t = Some t' \<and> conns_ok addrOf t' \<and> set (mConnectionList t') = conn_set ops (set (mConnectionList t))"
proof (induction ops arbitrary: t)
  case (Cons op ops)
  show ?case
  proof (cases op)
    case (AddConn c)
    then obtain t' where "addConnection addrOf c t = Some t'" "conns_ok addrOf t'" "mConnectionList t' = mConnectionList t @ [c]"
      using addConnection_ok [OF Cons.prems(1)] Cons.prems(2) by auto
    then show ?thesis using Cons.IH [of t'] Cons.prems(2) AddConn by simp
  next
    case (RemoveConn c)
    obtain t' where "removeConnection addrOf c t = Some t'" "conns_ok addrOf t'" "set (mConnectionList t') = set (mConnectionList t) - {c}"
      using removeConnection_ok [OF Cons.prems(1)] by blast
    then show ?thesis using Cons.IH [of t'] Cons.prems(2) RemoveConn by simp
  qed
qed simp

text \<open>
  C14: the table of connections implements a set searched by address. After any sequence of additions and removals, which all return, a
  look-up finds a connection of the address when there is one, and nothing otherwise.
\<close>

theorem connection_table_refines_set:
  assumes "adds_new ops {}"
  shows "\<exists>t. conn_ops addrOf ops conn_table_new = Some t \<and> set (mConnectionList t) = conn_set ops {} \<and>
    (\<forall>a. \<exists>r. findConnection addrOf a t = Some r \<and>
       (case r of None \<Rightarrow> (\<nexists>c. c \<in> conn_set ops {} \<and> addrOf c = a) | Some c \<Rightarrow> c \<in> conn_set ops {} \<and> addrOf c = a))"
proof -
  obtain t where t: "conn_ops addrOf ops conn_table_new = Some t" "conns_ok addrOf t" "set (mConnectionList t) = conn_set ops {}"
    using conn_ops_ok [OF conns_new, of ops] assms by (auto simp: conn_table_new_def)
  have e: "c \<in># entries (mConnectionHashTable t) \<longleftrightarrow> c \<in> conn_set ops {}" for c using t(2,3) by (simp add: conns_ok_def)
  have "\<exists>r. findConnection addrOf a t = Some r \<and>
       (case r of None \<Rightarrow> (\<nexists>c. c \<in> conn_set ops {} \<and> addrOf c = a) | Some c \<Rightarrow> c \<in> conn_set ops {} \<and> addrOf c = a)" for a
    using find_ok [OF _ conns_room [OF t(2)], where a = a and addrOf = addrOf] t(2) unfolding findConnection_def e conns_ok_def by (fastforce split: option.splits)
  then show ?thesis using t(1,3) by blast
qed


text \<open>Three connections of one host: the ports 1 and 2 have other homes, but two of the connections share a port.\<close>

definition sample_addr :: "conn_id \<Rightarrow> address" where
  "sample_addr c = \<lparr>addrTransport = 1, addrPort = (if c = 7 then 2 else 1), netNum = [0x7F000001, 0, 0, 0]\<rparr>"

lemma connection_table_refines_set_witness:
  "\<exists>t. conn_ops sample_addr [AddConn 5, AddConn 6, AddConn 7, RemoveConn 5] conn_table_new = Some t \<and>
    set (mConnectionList t) = {6, 7} \<and> findConnection sample_addr (sample_addr 5) t = Some (Some 6)"
proof -
  let ?ops = "[AddConn 5, AddConn 6, AddConn 7, RemoveConn 5]"
  have s: "conn_set ?ops {} = {6, 7}" by auto
  have "adds_new ?ops {}" by simp
  from connection_table_refines_set [OF this, of sample_addr] obtain t where t: "conn_ops sample_addr ?ops conn_table_new = Some t"
      "set (mConnectionList t) = {6, 7}"
      "\<exists>r. findConnection sample_addr (sample_addr 5) t = Some r \<and>
        (case r of None \<Rightarrow> (\<nexists>c. c \<in> {6, 7} \<and> sample_addr c = sample_addr 5) | Some c \<Rightarrow> c \<in> {6, 7} \<and> sample_addr c = sample_addr 5)"
    unfolding s by blast
  then show ?thesis by (auto simp: sample_addr_def split: option.splits)
qed

end
