(* ===== verification/Client_Puzzle.thy ===== *)
theory Client_Puzzle
  imports Machine_Types Sha256
begin

text \<open>
  \<^verbatim>\<open>tnl/clientPuzzle.cpp\<close>: a client that connects has to find a number whose SHA-256 hash, taken with its own nonce and that of
  the server, starts with zero bits. The server keeps the client nonces of solved puzzles in hash tables, one for its current nonce
  and one for the last. What \<^verbatim>\<open>Random\<close> draws and the readings of the clock are arguments of the operations that take them; the bytes of the
  uninitialised hash state are \<open>junk\<close>. The times of the manager carry the prefix \<open>mPuzzle\<close>.
\<close>

section \<open>The table of nonces\<close>

type_synonym nonce = mem

definition NonceSize :: nat where "NonceSize = 8"
definition MinHashTableSize :: u32 where "MinHashTableSize = 127"
definition MaxHashTableSize :: u32 where "MaxHashTableSize = 387"

record nonce_table =
  mHashTableSize :: u32
  mNonceHashTable :: "nonce list list"

text \<open>\<^verbatim>\<open>Random::readI\<close> of a range, from four random bytes as a word.\<close>

definition readI :: "u32 \<Rightarrow> u32 \<Rightarrow> u32 \<Rightarrow> u32" where
  "readI draw rangeStart rangeEnd = draw mod (rangeEnd - rangeStart + 1) + rangeStart"

definition NonceTable_reset :: "u32 \<Rightarrow> nonce_table" where
  "NonceTable_reset draw = (let size = readI draw MinHashTableSize MaxHashTableSize * 2 + 1 in
     \<lparr>mHashTableSize = size, mNonceHashTable = replicate (unat size) []\<rparr>)"

definition nonceIndex :: "nonce \<Rightarrow> nonce_table \<Rightarrow> nat option" where
  "nonceIndex theNonce t = do {
     nonce1 \<leftarrow> readU32FromBuffer theNonce;
     nonce2 \<leftarrow> readU32FromBuffer (drop 4 theNonce);
     let fullNonce = (push_bit 32 (ucast nonce1) OR ucast nonce2 :: u64);
     if mHashTableSize t = 0 then None
     else Some (unat (ucast (fullNonce mod ucast (mHashTableSize t)) :: u32)) }"

text \<open>The chain of a slot is a list, the newest entry first.\<close>

definition checkAdd :: "nonce \<Rightarrow> nonce_table \<Rightarrow> (bool \<times> nonce_table) option" where
  "checkAdd theNonce t = do {
     hashIndex \<leftarrow> nonceIndex theNonce t;
     chain \<leftarrow> (if hashIndex < length (mNonceHashTable t) then Some (mNonceHashTable t ! hashIndex) else None);
     if theNonce \<in> set chain then Some (False, t)
     else Some (True, t\<lparr>mNonceHashTable := (mNonceHashTable t)[hashIndex := theNonce # chain]\<rparr>) }"

section \<open>The manager\<close>

definition PuzzleRefreshTime :: u32 where "PuzzleRefreshTime = 30000"
definition InitialPuzzleDifficulty :: u32 where "InitialPuzzleDifficulty = 17"
definition MaxSolutionComputeFragment :: u32 where "MaxSolutionComputeFragment = 30"
definition SolutionFragmentIterations :: u32 where "SolutionFragmentIterations = 50000"

datatype puzzle_result = Success | InvalidSolution | InvalidServerNonce | InvalidClientNonce | InvalidPuzzleDifficulty

record puzzle_manager =
  mCurrentDifficulty :: u32
  mPuzzleUpdateTime :: u32
  mPuzzleTickTime :: u32
  mCurrentNonce :: nonce
  mLastNonce :: nonce
  mCurrentNonceTable :: nonce_table
  mLastNonceTable :: nonce_table

definition ClientPuzzleManager_new :: "nonce \<Rightarrow> nonce \<Rightarrow> u32 \<Rightarrow> u32 \<Rightarrow> puzzle_manager" where
  "ClientPuzzleManager_new current recent draw1 draw2 =
     \<lparr>mCurrentDifficulty = InitialPuzzleDifficulty, mPuzzleUpdateTime = 0, mPuzzleTickTime = 0, mCurrentNonce = current,
      mLastNonce = recent, mCurrentNonceTable = NonceTable_reset draw1, mLastNonceTable = NonceTable_reset draw2\<rparr>"

definition tick :: "u32 \<Rightarrow> u32 \<Rightarrow> nonce \<Rightarrow> puzzle_manager \<Rightarrow> puzzle_manager" where
  "tick currentTime draw newNonce m =
     (let m = (if mPuzzleTickTime m = 0 then m\<lparr>mPuzzleTickTime := currentTime\<rparr> else m);
          timeDelta = currentTime - mPuzzleUpdateTime m
      in if timeDelta > PuzzleRefreshTime then
           (let m = m\<lparr>mPuzzleUpdateTime := currentTime, mLastNonce := mCurrentNonce m\<rparr>;
                m = m\<lparr>mLastNonceTable := mCurrentNonceTable m, mCurrentNonceTable := mLastNonceTable m\<rparr>;
                m = m\<lparr>mLastNonce := mCurrentNonce m\<rparr>
            in m\<lparr>mCurrentNonceTable := NonceTable_reset draw, mCurrentNonce := newNonce\<rparr>)
         else m)"

text \<open>\<open>None\<close> when the difficulty reaches behind the hash.\<close>

function zeroBits :: "mem \<Rightarrow> nat \<Rightarrow> u32 \<Rightarrow> bool option" where
  "zeroBits hash index puzzleDifficulty =
     (if puzzleDifficulty > 8 then do {
        b \<leftarrow> ld hash index;
        if b \<noteq> 0 then Some False else zeroBits hash (index + 1) (puzzleDifficulty - 8) }
      else do {
        b \<leftarrow> ld hash index;
        let mask = (ucast (push_bit (unat (8 - puzzleDifficulty)) (0xFF :: u32)) :: u8);
        Some (mask AND b = 0) })"
  by pat_completeness auto
termination
proof (relation "measure (\<lambda>(_, _, d). unat d)")
  fix hash :: mem and index :: nat and d :: u32 and b :: u8
  assume "d > 8"
  then have "unat (d - 8) = unat d - 8" "8 < unat d" by (simp_all add: unat_sub word_le_nat_alt word_less_nat_alt)
  then show "((hash, index + 1, d - 8), (hash, index, d)) \<in> measure (\<lambda>(_, _, d). unat d)" by simp
qed simp

declare zeroBits.simps [simp del]

definition puzzleHash :: "mem \<Rightarrow> u32 \<Rightarrow> nonce \<Rightarrow> nonce \<Rightarrow> u32 \<Rightarrow> mem" where
  "puzzleHash junk solution clientNonce serverNonce clientIdentity =
     (let hashState = sha256_init (raw_state junk);
          hashState = snd (sha256_process hashState (writeU32ToBuffer solution @ writeU32ToBuffer clientIdentity));
          hashState = snd (sha256_process hashState clientNonce);
          hashState = snd (sha256_process hashState serverNonce)
      in snd (sha256_done hashState))"

definition checkOneSolution :: "mem \<Rightarrow> u32 \<Rightarrow> nonce \<Rightarrow> nonce \<Rightarrow> u32 \<Rightarrow> u32 \<Rightarrow> bool option" where
  "checkOneSolution junk solution clientNonce serverNonce puzzleDifficulty clientIdentity =
     zeroBits (puzzleHash junk solution clientNonce serverNonce clientIdentity) 0 puzzleDifficulty"

definition checkSolution :: "mem \<Rightarrow> u32 \<Rightarrow> nonce \<Rightarrow> nonce \<Rightarrow> u32 \<Rightarrow> u32 \<Rightarrow> puzzle_manager \<Rightarrow> (puzzle_result \<times> puzzle_manager) option" where
  "checkSolution junk solution clientNonce serverNonce puzzleDifficulty clientIdentity m =
     (if puzzleDifficulty \<noteq> mCurrentDifficulty m then Some (InvalidPuzzleDifficulty, m)
      else if serverNonce \<noteq> mCurrentNonce m \<and> serverNonce \<noteq> mLastNonce m then Some (InvalidServerNonce, m)
      else do {
        ok \<leftarrow> checkOneSolution junk solution clientNonce serverNonce puzzleDifficulty clientIdentity;
        if \<not> ok then Some (InvalidSolution, m)
        else if serverNonce = mCurrentNonce m then do {
          (added, t) \<leftarrow> checkAdd clientNonce (mCurrentNonceTable m);
          Some (if added then Success else InvalidClientNonce, m\<lparr>mCurrentNonceTable := t\<rparr>) }
        else do {
          (added, t) \<leftarrow> checkAdd clientNonce (mLastNonceTable m);
          Some (if added then Success else InvalidClientNonce, m\<lparr>mLastNonceTable := t\<rparr>) } })"

subsection \<open>The solver\<close>

text \<open>One fragment of the search: \<open>Inl\<close> the solution, \<open>Inr\<close> where it stopped.\<close>

function tryFragment :: "(u32 \<Rightarrow> bool option) \<Rightarrow> u32 \<Rightarrow> u32 \<Rightarrow> (u32 + u32) option" where
  "tryFragment check startValue nextValue =
     (if startValue < nextValue then do {
        ok \<leftarrow> check startValue;
        if ok then Some (Inl startValue) else tryFragment check (startValue + 1) nextValue }
      else Some (Inr startValue))"
  by pat_completeness auto
termination
proof (relation "measure (\<lambda>(_, s, n). unat n - unat s)")
  fix check :: "u32 \<Rightarrow> bool option" and s n :: u32 and ok
  assume "s < n"
  then have "unat s < unat n" by (simp add: word_less_nat_alt)
  moreover have "unat (s + 1) = unat s + 1" using calculation unsigned_less [of n, where ?'a = nat] by (subst unat_word_ariths) simp
  ultimately show "((check, s + 1, n), (check, s, n)) \<in> measure (\<lambda>(_, s, n). unat n - unat s)" by simp
qed simp

declare tryFragment.simps [simp del]

partial_function (option) solveLoop :: "(u32 \<Rightarrow> bool option) \<Rightarrow> (nat \<Rightarrow> u32) \<Rightarrow> u32 \<Rightarrow> nat \<Rightarrow> u32 \<Rightarrow> (bool \<times> u32) option" where
  "solveLoop check clock startTime k startValue = do {
     r \<leftarrow> tryFragment check startValue (startValue + SolutionFragmentIterations);
     case r of
       Inl s \<Rightarrow> Some (True, s)
     | Inr startValue \<Rightarrow>
         if clock k - startTime > MaxSolutionComputeFragment then Some (False, startValue)
         else solveLoop check clock startTime (Suc k) startValue }"

text \<open>\<open>clock k\<close> is the \<open>k\<close>-th reading of \<^verbatim>\<open>Platform::getRealMilliseconds\<close>.\<close>

definition solvePuzzle :: "mem \<Rightarrow> (nat \<Rightarrow> u32) \<Rightarrow> u32 \<Rightarrow> nonce \<Rightarrow> nonce \<Rightarrow> u32 \<Rightarrow> u32 \<Rightarrow> (bool \<times> u32) option" where
  "solvePuzzle junk clock solution clientNonce serverNonce puzzleDifficulty clientIdentity =
     solveLoop (\<lambda>v. checkOneSolution junk v clientNonce serverNonce puzzleDifficulty clientIdentity) clock (clock 0) 1 solution"


section \<open>The table is a set\<close>

definition nonceSet :: "nonce_table \<Rightarrow> nonce set" where
  "nonceSet t = (\<Union>chain\<in>set (mNonceHashTable t). set chain)"

definition table_ok :: "nonce_table \<Rightarrow> bool" where
  "table_ok t \<longleftrightarrow> 0 < mHashTableSize t \<and> length (mNonceHashTable t) = unat (mHashTableSize t) \<and>
     (\<forall>i < length (mNonceHashTable t). \<forall>n \<in> set (mNonceHashTable t ! i). nonceIndex n t = Some i)"

lemma nonceSet_iff: "n \<in> nonceSet t \<longleftrightarrow> (\<exists>i < length (mNonceHashTable t). n \<in> set (mNonceHashTable t ! i))"
proof
  assume "n \<in> nonceSet t"
  then obtain chain where "chain \<in> set (mNonceHashTable t)" "n \<in> set chain" by (auto simp: nonceSet_def)
  then show "\<exists>i < length (mNonceHashTable t). n \<in> set (mNonceHashTable t ! i)" by (auto simp only: in_set_conv_nth [of chain])
qed (auto simp: nonceSet_def intro: nth_mem)

lemma reset_table: "table_ok (NonceTable_reset draw)" "nonceSet (NonceTable_reset draw) = {}"
proof -
  define x where "x = draw mod 261"
  have x: "unat x < 261" using word_mod_less_divisor [of 261 draw] by (simp add: x_def word_less_nat_alt)
  have "unat (readI draw MinHashTableSize MaxHashTableSize) = unat x + 127"
    using x by (simp add: readI_def MinHashTableSize_def MaxHashTableSize_def x_def [symmetric] unat_word_ariths)
  then have "unat (readI draw MinHashTableSize MaxHashTableSize * 2 + 1) = 2 * (unat x + 127) + 1"
    using x by (simp add: unat_word_ariths)
  then show "table_ok (NonceTable_reset draw)"
    by (auto simp: NonceTable_reset_def table_ok_def Let_def word_less_nat_alt)
  show "nonceSet (NonceTable_reset draw) = {}" by (auto simp: NonceTable_reset_def nonceSet_def Let_def)
qed

lemma nonce_index:
  assumes "table_ok t" and "length n = NonceSize"
  shows "\<exists>i < length (mNonceHashTable t). nonceIndex n t = Some i"
proof -
  let ?s = "ucast (mHashTableSize t) :: u64"
  have "mHashTableSize t \<noteq> 0" and l: "length (mNonceHashTable t) = unat (mHashTableSize t)" using assms(1) by (auto simp: table_ok_def)
  then have s: "0 < unat (mHashTableSize t)" by (simp add: unat_gt_0)
  have us: "unat ?s = unat (mHashTableSize t)" by (simp add: unsigned_ucast_eq take_bit_nat_eq_self order.strict_trans2 [OF unsigned_less])
  obtain n1 n2 where "readU32FromBuffer n = Some n1" "readU32FromBuffer (drop 4 n) = Some n2"
    using assms(2) by (simp add: readU32FromBuffer_def ld_def NonceSize_def)
  moreover have "unat (ucast (f mod ?s) :: u32) < unat (mHashTableSize t)" for f :: u64
  proof -
    have "unat (f mod ?s) < unat (mHashTableSize t)" using s us by (simp add: unat_mod)
    moreover have "unat (ucast (f mod ?s) :: u32) \<le> unat (f mod ?s)" by (simp add: unsigned_ucast_eq)
    ultimately show ?thesis by linarith
  qed
  ultimately show ?thesis using s l by (auto simp: nonceIndex_def unat_gt_0 Let_def)
qed

text \<open>The hash table implements a set: \<open>checkAdd\<close> tells whether the nonce was new, and inserts it.\<close>

lemma checkAdd_set:
  assumes t: "table_ok t" and n: "length n = NonceSize"
  shows "\<exists>t'. checkAdd n t = Some (n \<notin> nonceSet t, t') \<and> nonceSet t' = insert n (nonceSet t) \<and> table_ok t'"
proof -
  obtain i where i: "i < length (mNonceHashTable t)" "nonceIndex n t = Some i" using nonce_index [OF t n] by blast
  let ?T = "mNonceHashTable t"
  have new: "n \<in> nonceSet t \<longleftrightarrow> n \<in> set (?T ! i)"
  proof
    assume "n \<in> nonceSet t"
    then obtain j where "j < length ?T" "n \<in> set (?T ! j)" by (auto simp: nonceSet_iff)
    then show "n \<in> set (?T ! i)" using t i by (auto simp: table_ok_def)
  qed (use i in \<open>auto simp: nonceSet_iff\<close>)
  let ?t = "t\<lparr>mNonceHashTable := ?T[i := n # ?T ! i]\<rparr>"
  have same: "nonceIndex m ?t = nonceIndex m t" for m by (simp add: nonceIndex_def cong: if_cong)
  have "nonceSet ?t = insert n (nonceSet t)"
    using i by (auto simp: set_eq_iff nonceSet_iff nth_list_update)
  moreover have "table_ok ?t" using t i by (auto simp: table_ok_def same nth_list_update)
  ultimately show ?thesis using i t new by (auto simp: checkAdd_def insert_absorb)
qed


section \<open>What a solution is\<close>

text \<open>The bits of a hash from the most significant of its first byte on.\<close>

definition hashBit :: "mem \<Rightarrow> nat \<Rightarrow> bool" where
  "hashBit hash i = bit (hash ! (i div 8)) (7 - i mod 8)"

lemma u8_zero: "(x :: u8) = 0 \<longleftrightarrow> (\<forall>n<8. \<not> bit x n)"
  by (auto intro: bit_word_eqI)

lemma mask_zero:
  fixes b :: u8
  assumes "d \<le> 8"
  shows "(ucast (push_bit (8 - d) (0xFF :: u32)) :: u8) AND b = 0 \<longleftrightarrow> (\<forall>i<d. \<not> bit b (7 - i))"
proof -
  have "(0xFF :: u32) = mask 8" by (simp add: mask_eq_exp_minus_1)
  then have b: "bit (0xFF :: u32) n \<longleftrightarrow> n < 8" for n by (simp only: bit_mask_iff) auto
  have m: "bit (ucast (push_bit (8 - d) (0xFF :: u32)) :: u8) n \<longleftrightarrow> 8 - d \<le> n \<and> n < 8" for n
    unfolding bit_ucast_iff bit_push_bit_iff b using assms by auto
  have "(ucast (push_bit (8 - d) (0xFF :: u32)) :: u8) AND b = 0 \<longleftrightarrow> (\<forall>n<8. 8 - d \<le> n \<longrightarrow> \<not> bit b n)"
    unfolding u8_zero bit_and_iff m by blast
  also have "\<dots> \<longleftrightarrow> (\<forall>i<d. \<not> bit b (7 - i))"
  proof safe
    fix i assume "\<forall>n<8. 8 - d \<le> n \<longrightarrow> \<not> bit b n" "i < d" "bit b (7 - i)"
    then show False using assms by (auto dest: spec [of _ "7 - i"])
  next
    fix n assume a: "\<forall>i<d. \<not> bit b (7 - i)" "n < 8" "8 - d \<le> n" "bit b n"
    then have "7 - n < d" "7 - (7 - n) = n" by simp_all
    then show False using a by metis
  qed
  finally show ?thesis .
qed

lemma byte_zero: "(b :: u8) = 0 \<longleftrightarrow> (\<forall>i<8. \<not> bit b (7 - i))"
  unfolding u8_zero
proof safe
  fix n :: nat assume "\<forall>i<8. \<not> bit b (7 - i)" "n < 8" "bit b n"
  then show False by (auto dest: spec [of _ "7 - n"])
qed simp

lemma zeroBits_meaning:
  "8 * index + unat d \<le> 8 * length hash \<Longrightarrow> index < length hash \<Longrightarrow>
    zeroBits hash index d = Some (\<forall>i<unat d. \<not> hashBit hash (8 * index + i))"
proof (induction hash index d rule: zeroBits.induct)
  case (1 hash index d)
  have shift: "hashBit hash (8 * index + i) = hashBit (drop index hash) i" for i
    using 1 by (simp add: hashBit_def)
  show ?case
  proof (cases "d > 8")
    case True
    then have u: "unat (d - 8) = unat d - 8" "8 < unat d" by (simp_all add: unat_sub word_le_nat_alt word_less_nat_alt)
    have b: "hash ! index = 0 \<longleftrightarrow> (\<forall>i<8. \<not> hashBit hash (8 * index + i))" by (simp add: byte_zero hashBit_def)
    have all: "(\<forall>i<unat d. \<not> P i) \<longleftrightarrow> (\<forall>i<8. \<not> P i) \<and> (\<forall>i<unat d - 8. \<not> P (8 + i))" for P
    proof safe
      fix i assume "\<forall>i<unat d - 8. \<not> P (8 + i)" "\<forall>i<8. \<not> P i" "i < unat d" "P i"
      then show False by (cases "i < 8") (auto dest: spec [of _ "i - 8"])
    qed (use u(2) in auto)
    show ?thesis
      using 1 True u b all [of "\<lambda>i. hashBit hash (8 * index + i)"] by (simp add: zeroBits.simps [of hash index d] ld_in algebra_simps)
  next
    case False
    then have "unat (8 - d) = 8 - unat d" "unat d \<le> 8" by (simp_all add: unat_sub word_le_nat_alt not_less)
    then show ?thesis
      using 1 False mask_zero [of "unat d" "hash ! index"] by (simp add: zeroBits.simps [of hash index d] ld_in hashBit_def)
  qed
qed

lemma puzzleHash_is_sha256:
  assumes "length junk = 64"
  shows "puzzleHash junk v cn sn ident = sha256 (writeU32ToBuffer v @ writeU32ToBuffer ident @ cn @ sn)"
  using sha256_pieces [of "raw_state junk" "[writeU32ToBuffer v @ writeU32ToBuffer ident, cn, sn]"] assms
  by (simp add: puzzleHash_def sha256_process_def raw_state_def)

text \<open>
  A solution is a number whose SHA-256 hash, taken of the number, the client's identity and the two nonces, begins with as many zero bits as the
  difficulty says; the byte-wise test decides this for every difficulty up to the length of the hash.
\<close>

theorem solution_is_leading_zeros:
  assumes "length junk = 64" and "unat d \<le> 256"
  shows "checkOneSolution junk v cn sn d ident =
    Some (\<forall>i<unat d. \<not> hashBit (sha256 (writeU32ToBuffer v @ writeU32ToBuffer ident @ cn @ sn)) i)"
  using assms zeroBits_meaning [of 0 d "sha256 (writeU32ToBuffer v @ writeU32ToBuffer ident @ cn @ sn)"]
  by (simp add: checkOneSolution_def puzzleHash_is_sha256)

lemma solution_is_leading_zeros_witness:
  "checkOneSolution (replicate 64 0xCC) 90029 [1, 2, 3, 4, 5, 6, 7, 8] [11, 12, 13, 14, 15, 16, 17, 18] 17 7 =
    Some (\<forall>i<unat (17 :: u32). \<not> hashBit (sha256 (writeU32ToBuffer 90029 @ writeU32ToBuffer 7 @ [1, 2, 3, 4, 5, 6, 7, 8] @
      [11, 12, 13, 14, 15, 16, 17, 18])) i)"
  by (rule solution_is_leading_zeros) simp_all


section \<open>Each nonce is accepted once\<close>

record solved =
  byServer :: nonce
  byClient :: nonce
  solution :: u32
  identity :: u32

text \<open>
  The runs of a manager: \<open>issued\<close> are the server nonces there have been, \<open>accepted\<close> the solutions that \<open>checkSolution\<close> found good, the last
  first. A new nonce differs from the ones before.
\<close>

inductive puzzle_run :: "mem \<Rightarrow> puzzle_manager \<Rightarrow> nonce set \<Rightarrow> solved list \<Rightarrow> bool" for junk where
  begins: "n1 \<noteq> n2 \<Longrightarrow> puzzle_run junk (ClientPuzzleManager_new n1 n2 draw1 draw2) {n1, n2} []"
| ticks: "puzzle_run junk m issued accepted \<Longrightarrow> n \<notin> issued \<Longrightarrow>
    puzzle_run junk (tick t draw n m) (insert (mCurrentNonce (tick t draw n m)) issued) accepted"
| checks: "puzzle_run junk m issued accepted \<Longrightarrow> length cn = NonceSize \<Longrightarrow>
    checkSolution junk v cn sn d ident m = Some (r, m') \<Longrightarrow>
    puzzle_run junk m' issued
      (if r = Success then \<lparr>byServer = sn, byClient = cn, solution = v, identity = ident\<rparr> # accepted else accepted)"

abbreviation solved_key :: "solved \<Rightarrow> nonce \<times> nonce" where
  "solved_key a \<equiv> (byServer a, byClient a)"

definition puzzle_ok :: "puzzle_manager \<Rightarrow> nonce set \<Rightarrow> solved list \<Rightarrow> bool" where
  "puzzle_ok m issued accepted \<longleftrightarrow> table_ok (mCurrentNonceTable m) \<and> table_ok (mLastNonceTable m) \<and>
     mCurrentNonce m \<noteq> mLastNonce m \<and> mCurrentNonce m \<in> issued \<and> mLastNonce m \<in> issued \<and> mCurrentDifficulty m = InitialPuzzleDifficulty \<and>
     (\<forall>a\<in>set accepted. byServer a \<in> issued \<and>
        (byServer a = mCurrentNonce m \<longrightarrow> byClient a \<in> nonceSet (mCurrentNonceTable m)) \<and>
        (byServer a = mLastNonce m \<longrightarrow> byClient a \<in> nonceSet (mLastNonceTable m)))"

lemma tick_ok:
  assumes "puzzle_ok m issued accepted" and "n \<notin> issued"
  shows "puzzle_ok (tick t draw n m) (insert (mCurrentNonce (tick t draw n m)) issued) accepted"
  using assms reset_table by (auto simp: puzzle_ok_def tick_def Let_def insert_absorb)

lemma checkSolution_cases:
  assumes "checkSolution junk v cn sn d ident m = Some (r, m')"
  obtains (refused) "m' = m" "r \<noteq> Success"
  | (this_nonce) added t where "sn = mCurrentNonce m" "checkAdd cn (mCurrentNonceTable m) = Some (added, t)" "added \<longleftrightarrow> r = Success"
      "m' = m\<lparr>mCurrentNonceTable := t\<rparr>" "checkOneSolution junk v cn sn d ident = Some True" "d = mCurrentDifficulty m"
  | (last_nonce) added t where "sn = mLastNonce m" "sn \<noteq> mCurrentNonce m" "checkAdd cn (mLastNonceTable m) = Some (added, t)"
      "added \<longleftrightarrow> r = Success" "m' = m\<lparr>mLastNonceTable := t\<rparr>" "checkOneSolution junk v cn sn d ident = Some True" "d = mCurrentDifficulty m"
  using assms by (auto simp: checkSolution_def split: if_splits bind_splits)

lemma check_ok:
  assumes ok: "puzzle_ok m issued accepted" and cn: "length cn = NonceSize" and c: "checkSolution junk v cn sn d ident m = Some (r, m')"
    and dist: "distinct (map solved_key accepted)"
  defines "a \<equiv> \<lparr>byServer = sn, byClient = cn, solution = v, identity = ident\<rparr>"
  shows "puzzle_ok m' issued (if r = Success then a # accepted else accepted) \<and> distinct (map solved_key (if r = Success then a # accepted else accepted))"
  using c
proof (cases rule: checkSolution_cases)
  case refused
  then show ?thesis using ok dist by simp
next
  case (this_nonce added t)
  obtain t' where "checkAdd cn (mCurrentNonceTable m) = Some (cn \<notin> nonceSet (mCurrentNonceTable m), t')"
    "nonceSet t' = insert cn (nonceSet (mCurrentNonceTable m))" "table_ok t'"
    using checkAdd_set [OF _ cn] ok unfolding puzzle_ok_def by blast
  then show ?thesis using this_nonce ok dist by (auto simp: puzzle_ok_def a_def)
next
  case (last_nonce added t)
  obtain t' where "checkAdd cn (mLastNonceTable m) = Some (cn \<notin> nonceSet (mLastNonceTable m), t')"
    "nonceSet t' = insert cn (nonceSet (mLastNonceTable m))" "table_ok t'"
    using checkAdd_set [OF _ cn] ok unfolding puzzle_ok_def by blast
  then show ?thesis using last_nonce ok dist by (auto simp: puzzle_ok_def a_def)
qed

lemma puzzle_run_ok: "puzzle_run junk m issued accepted \<Longrightarrow> puzzle_ok m issued accepted \<and> distinct (map solved_key accepted)"
proof (induction rule: puzzle_run.induct)
  case (begins n1 n2 draw1 draw2)
  then show ?case using reset_table by (simp add: puzzle_ok_def ClientPuzzleManager_new_def)
next
  case (ticks m issued accepted n t draw)
  then show ?case using tick_ok by blast
next
  case (checks m issued accepted cn v sn d ident r m')
  then show ?case using check_ok by blast
qed

definition worked :: "solved \<Rightarrow> bool" where
  "worked a \<longleftrightarrow> (\<forall>i<unat InitialPuzzleDifficulty. \<not> hashBit (sha256 (writeU32ToBuffer (solution a) @ writeU32ToBuffer (identity a) @
     byClient a @ byServer a)) i)"

lemma one_solution:
  "length junk = 64 \<Longrightarrow> checkOneSolution junk v cn sn InitialPuzzleDifficulty ident =
     Some (worked \<lparr>byServer = sn, byClient = cn, solution = v, identity = ident\<rparr>)"
  using zeroBits_meaning [of 0 InitialPuzzleDifficulty "sha256 (writeU32ToBuffer v @ writeU32ToBuffer ident @ cn @ sn)"]
  by (simp add: checkOneSolution_def puzzleHash_is_sha256 worked_def InitialPuzzleDifficulty_def)

lemma all_worked:
  assumes "puzzle_run junk m issued accepted" and junk: "length junk = 64"
  shows "\<forall>a\<in>set accepted. worked a"
  using assms(1)
proof (induction rule: puzzle_run.induct)
  case (checks m issued accepted cn v sn d ident r m')
  have "mCurrentDifficulty m = InitialPuzzleDifficulty" using puzzle_run_ok [OF checks.hyps(1)] by (simp add: puzzle_ok_def)
  with checks.hyps(3) checks.IH show ?case
    by (cases rule: checkSolution_cases) (auto simp: one_solution [OF junk])
qed simp_all


text \<open>A run with a refresh, after which the solution to the nonce before the last is refused.\<close>

definition first_manager :: puzzle_manager where
  "first_manager = ClientPuzzleManager_new [1, 1, 1, 1, 1, 1, 1, 1] [2, 2, 2, 2, 2, 2, 2, 2] 0 0"

lemma first_run: "puzzle_run junk first_manager {[1, 1, 1, 1, 1, 1, 1, 1], [2, 2, 2, 2, 2, 2, 2, 2]} []"
  unfolding first_manager_def by (rule begins) simp

definition second_manager :: puzzle_manager where
  "second_manager = tick 40000 0 [3, 3, 3, 3, 3, 3, 3, 3] first_manager"

lemma second_fields:
  "mCurrentNonce second_manager = [3, 3, 3, 3, 3, 3, 3, 3]" "mLastNonce second_manager = [1, 1, 1, 1, 1, 1, 1, 1]"
  "mCurrentDifficulty second_manager = 17" "mCurrentNonceTable second_manager = NonceTable_reset 0"
  by (simp_all add: second_manager_def tick_def first_manager_def ClientPuzzleManager_new_def PuzzleRefreshTime_def InitialPuzzleDifficulty_def)

lemma refused_run:
  "puzzle_run junk second_manager {[3, 3, 3, 3, 3, 3, 3, 3], [1, 1, 1, 1, 1, 1, 1, 1], [2, 2, 2, 2, 2, 2, 2, 2]} []"
proof -
  have "puzzle_run junk second_manager (insert (mCurrentNonce second_manager) {[1, 1, 1, 1, 1, 1, 1, 1], [2, 2, 2, 2, 2, 2, 2, 2]}) []"
    using first_run unfolding second_manager_def by (rule ticks) simp
  then have 1: "puzzle_run junk second_manager {[3, 3, 3, 3, 3, 3, 3, 3], [1, 1, 1, 1, 1, 1, 1, 1], [2, 2, 2, 2, 2, 2, 2, 2]} []"
    by (simp only: second_fields)
  have "checkSolution junk 5 [9, 9, 9, 9, 9, 9, 9, 9] [2, 2, 2, 2, 2, 2, 2, 2] 17 7 second_manager = Some (InvalidServerNonce, second_manager)"
    by (simp add: checkSolution_def second_fields)
  from checks [OF 1 _ this] show ?thesis by (simp add: NonceSize_def)
qed



section \<open>The solver\<close>

lemma word_Suc: "s < n \<Longrightarrow> unat (s + 1 :: u32) = unat s + 1" for s n :: u32
  using unsigned_less [of n, where ?'a = nat] by (subst unat_word_ariths) (simp add: word_less_nat_alt)

text \<open>A fragment whose tests all have an answer stops with a solution or at its end.\<close>

lemma tryFragment_total:
  "(\<forall>v. check v \<noteq> None) \<Longrightarrow>
   (\<exists>w. tryFragment check s n = Some (Inl w) \<and> check w = Some True) \<or> tryFragment check s n = Some (Inr (if s < n then n else s))"
proof (induction check s n rule: tryFragment.induct)
  case (1 check s n)
  show ?case
  proof (cases "s < n")
    case True
    obtain ok where ok: "check s = Some ok" using "1.prems" by (metis not_None_eq)
    have "(if s + 1 < n then n else s + 1) = n" using True word_Suc [OF True] by (auto simp: word_less_nat_alt word_unat_eq_iff)
    then show ?thesis using 1 True ok by (cases ok) (auto simp: tryFragment.simps [of check s n])
  qed (simp add: tryFragment.simps [of check s n])
qed

lemma solveLoop_ends:
  assumes t: "\<forall>v. check v \<noteq> None" and late: "MaxSolutionComputeFragment < clock (k + j) - t0"
  shows "\<exists>ok w. solveLoop check clock t0 k s = Some (ok, w) \<and> (ok \<longrightarrow> check w = Some True)"
  using late
proof (induction j arbitrary: k s)
  case 0
  then show ?case using tryFragment_total [OF t, of s "s + SolutionFragmentIterations"]
    by (subst solveLoop.simps) auto
next
  case (Suc j)
  show ?case using tryFragment_total [OF t, of s "s + SolutionFragmentIterations"] Suc.IH [of "Suc k"] Suc.prems
    by (subst solveLoop.simps) auto
qed

text \<open>
  C27: the solver returns once the clock has passed its limit, and when it says that it found a solution, the server accepts it
  from a client whose nonce it has not seen.
\<close>

theorem solver_ends_and_is_accepted:
  assumes junk: "length junk = 64" and m: "puzzle_run junk m issued accepted" and late: "MaxSolutionComputeFragment < clock (Suc k) - clock 0"
    and cn: "length cn = NonceSize" "cn \<notin> nonceSet (mCurrentNonceTable m)"
  shows "\<exists>ok w. solvePuzzle junk clock v cn (mCurrentNonce m) (mCurrentDifficulty m) ident = Some (ok, w) \<and>
    (ok \<longrightarrow> (\<exists>m'. checkSolution junk w cn (mCurrentNonce m) (mCurrentDifficulty m) ident m = Some (Success, m')))"
proof -
  let ?check = "\<lambda>w. checkOneSolution junk w cn (mCurrentNonce m) (mCurrentDifficulty m) ident"
  have ok: "puzzle_ok m issued accepted" using puzzle_run_ok [OF m] by simp
  then have d: "mCurrentDifficulty m = InitialPuzzleDifficulty" by (simp add: puzzle_ok_def)
  have "\<forall>w. ?check w \<noteq> None" by (simp add: d one_solution [OF junk])
  then obtain found w where w: "solveLoop ?check clock (clock 0) 1 v = Some (found, w)" "found \<longrightarrow> ?check w = Some True"
    using solveLoop_ends [of ?check clock 1 k "clock 0" v] late by auto
  obtain t where "checkAdd cn (mCurrentNonceTable m) = Some (True, t)"
    using checkAdd_set [OF _ cn(1)] ok cn(2) unfolding puzzle_ok_def by fastforce
  then have "\<exists>m'. checkSolution junk w cn (mCurrentNonce m) (mCurrentDifficulty m) ident m = Some (Success, m')" if found
    using w(2) that by (simp add: checkSolution_def)
  then show ?thesis using w(1) by (auto simp: solvePuzzle_def)
qed

lemma solver_ends_and_is_accepted_witness:
  "\<exists>ok w. solvePuzzle (replicate 64 0xCC) (\<lambda>k. of_nat k) 0 [9, 9, 9, 9, 9, 9, 9, 9] (mCurrentNonce second_manager)
      (mCurrentDifficulty second_manager) 7 = Some (ok, w) \<and>
    (ok \<longrightarrow> (\<exists>m'. checkSolution (replicate 64 0xCC) w [9, 9, 9, 9, 9, 9, 9, 9] (mCurrentNonce second_manager)
      (mCurrentDifficulty second_manager) 7 second_manager = Some (Success, m')))"
proof (rule solver_ends_and_is_accepted [OF _ refused_run])
  show "MaxSolutionComputeFragment < word_of_nat (Suc 39) - word_of_nat 0" by (simp add: MaxSolutionComputeFragment_def)
qed (simp_all add: NonceSize_def second_fields reset_table)

text \<open>
  From a start in the last fifty thousand numbers the end of a fragment wraps around to a smaller number, so that no number is tried: the
  solver spends its time and returns where it began, whatever the puzzle.
\<close>

theorem solver_stuck_at_the_end:
  assumes s: "2 ^ 32 - 50000 \<le> unat s" and late: "MaxSolutionComputeFragment < clock (Suc k) - clock 0"
  shows "solvePuzzle junk clock s cn sn d ident = Some (False, s)"
proof -
  have "unat (s + SolutionFragmentIterations) = (unat s + 50000) mod 2 ^ 32"
    by (simp add: SolutionFragmentIterations_def unat_word_ariths)
  also have "\<dots> = unat s + 50000 - 2 ^ 32" using s unsigned_less [of s, where ?'a = nat] by (simp add: mod_if)
  finally have "\<not> s < s + SolutionFragmentIterations" using unsigned_less [of s, where ?'a = nat] by (simp add: word_less_nat_alt)
  then have 1: "tryFragment check s (s + SolutionFragmentIterations) = Some (Inr s)" for check by (simp add: tryFragment.simps [of check s])
  have "solveLoop check clock t0 n s = Some (False, s)" if "MaxSolutionComputeFragment < clock (n + j) - t0" for check t0 n j
    using that by (induction j arbitrary: n) (subst solveLoop.simps, simp add: 1)+
  from this [of 1 k "clock 0"] late show ?thesis by (simp add: solvePuzzle_def)
qed

lemma solver_stuck_at_the_end_witness:
  "solvePuzzle (replicate 64 0xCC) (\<lambda>k. of_nat k) 4294950000 [9, 9, 9, 9, 9, 9, 9, 9] [3, 3, 3, 3, 3, 3, 3, 3] 17 7 = Some (False, 4294950000)"
proof (rule solver_stuck_at_the_end)
  show "MaxSolutionComputeFragment < word_of_nat (Suc 39) - word_of_nat 0" by (simp add: MaxSolutionComputeFragment_def)
qed simp

end
