(* ===== verification/Net_Interface.thy ===== *)
theory Net_Interface
  imports Connection_Table Client_Puzzle Packet_Crossing
begin

text \<open>
  \<^verbatim>\<open>tnl/netInterface.cpp\<close>: two interfaces set up a connection over a socket. An interface holds the connections of its table and those in
  their start-up phase. A connection is a number, its object the value of \<open>object\<close> there, and a connection made by a request takes the next
  number. What the socket is given to send collects in \<open>socketOut\<close>. The curves are those of \<open>ecc_ops\<close>, the virtual functions of a
  connection those of \<open>conn_type\<close> and \<open>conn_class\<close>; they change their own connection only. Random draws, the clock and what unset
  locals hold are the fields of \<open>iface_env\<close>. Reference counts and log messages are left out, and so is delivery between two connections of
  one program: such a packet stays in the connection's \<open>mOut\<close>. \<open>None\<close> is a fault: a null pointer followed, memory outside its block.
\<close>

section \<open>The state\<close>

datatype termination_reason =
    ReasonTimedOut | ReasonFailedConnectHandshake | ReasonRemoteHostRejectedConnection | ReasonRemoteDisconnectPacket
  | ReasonDuplicateConnectionAttempt | ReasonSelfDisconnect | ReasonError

text \<open>A registered class: its name, whether a remote host may create it, and the object its constructor makes.\<close>

record ('n, 'x) net_connection_rep =
  repName :: mem
  mCanRemoteCreate :: bool
  repCreate :: "('n, 'x) net_connection"

text \<open>The virtual functions of the start-up. A reader that refuses gives its error string, if it set one.\<close>

record ('n, 'x) conn_type =
  getClassName :: "('n, 'x) net_connection \<Rightarrow> mem"
  writeConnectRequest :: "('n, 'x) net_connection \<Rightarrow> bit_stream \<Rightarrow> bit_stream option"
  readConnectRequest :: "('n, 'x) net_connection \<Rightarrow> bit_stream \<Rightarrow> ((mem option + unit) \<times> bit_stream \<times> ('n, 'x) net_connection) option"
  writeConnectAccept :: "('n, 'x) net_connection \<Rightarrow> bit_stream \<Rightarrow> bit_stream option"
  readConnectAccept :: "('n, 'x) net_connection \<Rightarrow> bit_stream \<Rightarrow> ((mem option + unit) \<times> bit_stream \<times> ('n, 'x) net_connection) option"
  validatePublicKey :: "('n, 'x) net_connection \<Rightarrow> asymmetric_key \<Rightarrow> bool"
  validateCertificate :: "('n, 'x) net_connection \<Rightarrow> certificate \<Rightarrow> bool"
  onConnectionEstablished :: "('n, 'x) net_connection \<Rightarrow> ('n, 'x) net_connection option"
  onConnectTerminated :: "termination_reason \<Rightarrow> mem \<Rightarrow> ('n, 'x) net_connection \<Rightarrow> ('n, 'x) net_connection option"
  onConnectionTerminated :: "termination_reason \<Rightarrow> mem \<Rightarrow> ('n, 'x) net_connection \<Rightarrow> ('n, 'x) net_connection option"
  transport :: "('n, 'x) conn_class"

record ('n, 'x) iface_env =
  packetEnv :: packet_env
  connEnv :: "conn_id \<Rightarrow> packet_env"
  reps :: "('n, 'x) net_connection_rep list"
  unsetNonce :: mem
  unsetWord :: u32
  unsetText :: mem
  unsetParams :: connection_parameters
  unsetKey :: asymmetric_key
  hashState0 :: mem
  drawnKey :: mem
  drawnNonce :: mem
  drawnVector :: mem
  drawnIndex :: u32
  puzzleClock :: "nat \<Rightarrow> u32"
  huffman :: "huff_node list \<times> huff_leaf list"
  aes_setup :: "mem \<Rightarrow> mem \<Rightarrow> mem"

record ('n, 'x) net_interface =
  connTable :: conn_table
  object :: "conn_id \<Rightarrow> ('n, 'x) net_connection"
  nextObject :: conn_id
  mPendingConnections :: "conn_id list"
  mPuzzleManager :: puzzle_manager
  mInterfaceKey :: "asymmetric_key option"
  mInterfaceCertificate :: "certificate option"
  mRequiresKeyExchange :: bool
  mAllowConnections :: bool
  mRandomHashData :: mem
  mLastTimeoutCheckTime :: u32
  mCurrentTime :: u32
  mSendPacketList :: "(u32 \<times> address \<times> mem) list"
  mStaticCryptoBuffer :: mem
  socketOut :: "(address \<times> mem) list"

definition ConnectChallengeRequest :: u8 where "ConnectChallengeRequest = 0"
definition ConnectChallengeResponse :: u8 where "ConnectChallengeResponse = 1"
definition ConnectRequest :: u8 where "ConnectRequest = 2"
definition ConnectReject :: u8 where "ConnectReject = 3"
definition ConnectAccept :: u8 where "ConnectAccept = 4"
definition DisconnectPacket :: u8 where "DisconnectPacket = 5"
definition Punch :: u8 where "Punch = 6"
definition ArrangedConnectRequest :: u8 where "ArrangedConnectRequest = 7"
definition FirstValidInfoPacketId :: u8 where "FirstValidInfoPacketId = 8"

definition ChallengeRetryCount :: u32 where "ChallengeRetryCount = 4"
definition ChallengeRetryTime :: u32 where "ChallengeRetryTime = 2500"
definition ConnectRetryCount :: u32 where "ConnectRetryCount = 4"
definition ConnectRetryTime :: u32 where "ConnectRetryTime = 2500"
definition PunchRetryCount :: u32 where "PunchRetryCount = 6"
definition PunchRetryTime :: u32 where "PunchRetryTime = 2500"
definition TimeoutCheckInterval :: u32 where "TimeoutCheckInterval = 1500"
definition PuzzleSolutionTimeout :: u32 where "PuzzleSolutionTimeout = 30000"
definition MaxPuzzleDifficulty :: u32 where "MaxPuzzleDifficulty = 26"

definition bytes_of :: "string \<Rightarrow> mem" where "bytes_of s = map of_char s"

abbreviation on_object :: "conn_id \<Rightarrow> (('n, 'x) net_connection \<Rightarrow> ('n, 'x) net_connection) \<Rightarrow> ('n, 'x) net_interface \<Rightarrow> ('n, 'x) net_interface" where
  "on_object i f s \<equiv> s\<lparr>object := (object s)(i := f (object s i))\<rparr>"

abbreviation set_params :: "(connection_parameters \<Rightarrow> connection_parameters) \<Rightarrow> ('n, 'x) net_connection \<Rightarrow> ('n, 'x) net_connection" where
  "set_params f c \<equiv> c\<lparr>mConnectionParameters := f (mConnectionParameters c)\<rparr>"

abbreviation params :: "('n, 'x) net_interface \<Rightarrow> conn_id \<Rightarrow> connection_parameters" where
  "params s i \<equiv> mConnectionParameters (object s i)"

abbreviation addresses :: "('n, 'x) net_interface \<Rightarrow> conn_id \<Rightarrow> address" where
  "addresses s \<equiv> \<lambda>i. mNetAddress (object s i)"

definition put_params :: "conn_id \<Rightarrow> connection_parameters \<Rightarrow> ('n, 'x) net_interface \<Rightarrow> ('n, 'x) net_interface" where
  "put_params i p s = on_object i (\<lambda>c. c\<lparr>mConnectionParameters := p\<rparr>) s"

text \<open>The constructor. \<open>NetClassRep::initialize\<close> is the class registry's.\<close>

definition NetInterface_new :: "('n, 'x) iface_env \<Rightarrow> mem \<Rightarrow> puzzle_manager \<Rightarrow> u32 \<Rightarrow> ('n, 'x) net_interface \<Rightarrow> ('n, 'x) net_interface" where
  "NetInterface_new e hashData puzzles now raw = raw\<lparr>connTable := conn_table_new, mPendingConnections := [], mPuzzleManager := puzzles,
     mInterfaceKey := None, mInterfaceCertificate := None, mRequiresKeyExchange := False, mAllowConnections := True,
     mRandomHashData := hashData, mLastTimeoutCheckTime := 0, mCurrentTime := now, mSendPacketList := []\<rparr>"

section \<open>Fields of packets\<close>

definition writeNonce :: "nonce \<Rightarrow> bit_stream \<Rightarrow> bit_stream option" where
  "writeNonce n bs = map_option snd (writeBytes (of_nat NonceSize) n bs)"

definition readNonce :: "nonce \<Rightarrow> bit_stream \<Rightarrow> (nonce \<times> bit_stream) option" where
  "readNonce old bs = map_option (\<lambda>(ok, m, bs). (if ok then m else old, bs)) (readBytes (of_nat NonceSize) bs)"

definition writeKeyBytes :: "mem \<Rightarrow> bit_stream \<Rightarrow> bit_stream option" where
  "writeKeyBytes m bs = map_option snd (writeBytes (of_nat KeySize) m bs)"

definition readKeyBytes :: "mem \<Rightarrow> bit_stream \<Rightarrow> (mem \<times> bit_stream) option" where
  "readKeyBytes old bs = map_option (\<lambda>(ok, m, bs). (if ok then m else old, bs)) (readBytes (of_nat KeySize) bs)"

definition alignByte :: "bit_stream \<Rightarrow> bit_stream" where
  "alignByte bs = setBytePosition (getBytePosition bs) bs"

definition startPacket :: "('n, 'x) iface_env \<Rightarrow> u8 \<Rightarrow> bit_stream option" where
  "startPacket e packetType = map_option snd (writeBytes 1 [packetType] (PacketStream_new (packetEnv e) MaxPacketDataSize))"

text \<open>\<^verbatim>\<open>sendto\<close> of a stream: its bytes up to the position.\<close>

definition sendStream :: "bit_stream \<Rightarrow> address \<Rightarrow> ('n, 'x) net_interface \<Rightarrow> ('n, 'x) net_interface option" where
  "sendStream out a s = do {
     bytes \<leftarrow> rd (mDataPtr out) (unat (getBytePosition out));
     Some (s\<lparr>socketOut := socketOut s @ [(a, bytes)]\<rparr>) }"

text \<open>A packet that waits is inserted before the first that is not due earlier.\<close>

definition sendtoDelayed :: "address \<Rightarrow> mem \<Rightarrow> u32 \<Rightarrow> ('n, 'x) net_interface \<Rightarrow> ('n, 'x) net_interface" where
  "sendtoDelayed a bytes millisecondDelay s =
     (let sendTime = mCurrentTime s + millisecondDelay; list = mSendPacketList s
      in s\<lparr>mSendPacketList := takeWhile (\<lambda>(t, _). t < sendTime) list @ [(sendTime, a, bytes)] @ dropWhile (\<lambda>(t, _). t < sendTime) list\<rparr>)"

text \<open>The bytes of an \<^verbatim>\<open>Address\<close> in memory are hashed, and the first word of the hash is read from memory.\<close>

definition addressBytes :: "address \<Rightarrow> mem" where
  "addressBytes a = le_bytes 2 (addrTransport a) @ le_bytes 2 (addrPort a) @ concat (map (le_bytes 4) (netNum a))"

definition computeClientIdentityToken :: "('n, 'x) iface_env \<Rightarrow> address \<Rightarrow> nonce \<Rightarrow> ('n, 'x) net_interface \<Rightarrow> u32" where
  "computeClientIdentityToken e a theNonce s =
     (let hashState = sha256_init (raw_state (hashState0 e));
          hashState = snd (sha256_process hashState (addressBytes a));
          hashState = snd (sha256_process hashState theNonce);
          hashState = snd (sha256_process hashState (mRandomHashData s))
      in le_value (take 4 (snd (sha256_done hashState))))"

definition isEqualAddress :: "address \<Rightarrow> address \<Rightarrow> bool" where
  "isEqualAddress a b \<longleftrightarrow> addrTransport a = addrTransport b \<and> netNum a = netNum b"

text \<open>The constructor of \<^verbatim>\<open>ConnectionParameters\<close>, over what the memory held.\<close>

definition ConnectionParameters_new :: "connection_parameters \<Rightarrow> connection_parameters" where
  "ConnectionParameters_new raw = raw\<lparr>mIsInitiator := False, mPuzzleRetried := False, mUsingCrypto := False,
     mIsArranged := False, mDebugObjectSizes := False, mIsLocal := False, mPublicKey := None, mPrivateKey := None,
     mCertificate := None, mSharedSecret := None, mArrangedSecret := None, mPossibleAddresses := []\<rparr>"

text \<open>The ciphers: over a shared secret, which the code reaches through a pointer, and over a session key.\<close>

definition secretCipher :: "('n, 'x) iface_env \<Rightarrow> mem option \<Rightarrow> symmetric_cipher option" where
  "secretCipher e secret = do {
     m \<leftarrow> secret;
     SymmetricCipher_fromBuffer (aes_setup e) (ByteBuffer_wrap (packetFresh (packetEnv e)) m (of_nat (length m))) }"

definition sessionCipher :: "('n, 'x) iface_env \<Rightarrow> connection_parameters \<Rightarrow> symmetric_cipher option" where
  "sessionCipher e p = SymmetricCipher_new (aes_setup e) (mSymmetricKeyBytes p) (mInitVectorBytes p)"

definition encryptTail :: "('n, 'x) iface_env \<Rightarrow> u32 \<Rightarrow> mem option \<Rightarrow> bit_stream \<Rightarrow> bit_stream option" where
  "encryptTail e encryptPos secret out = do {
     theCipher \<leftarrow> secretCipher e secret;
     map_option fst (hashAndEncrypt MessageSignatureBytes encryptPos theCipher out) }"

definition decryptTail :: "('n, 'x) iface_env \<Rightarrow> u32 \<Rightarrow> mem option \<Rightarrow> bit_stream \<Rightarrow> (bool \<times> bit_stream) option" where
  "decryptTail e decryptPos secret stream = do {
     theCipher \<leftarrow> secretCipher e secret;
     map_option (\<lambda>(ok, bs, _). (ok, bs)) (decryptAndCheckHash MessageSignatureBytes decryptPos theCipher stream) }"

section \<open>Pending connections\<close>

definition removePendingConnection :: "conn_id \<Rightarrow> ('n, 'x) net_interface \<Rightarrow> ('n, 'x) net_interface" where
  "removePendingConnection i s = s\<lparr>mPendingConnections := remove1 i (mPendingConnections s)\<rparr>"

definition findPendingConnection :: "address \<Rightarrow> ('n, 'x) net_interface \<Rightarrow> conn_id option" where
  "findPendingConnection a s = find (\<lambda>i. a = addresses s i) (mPendingConnections s)"

definition findAndRemovePendingConnection :: "address \<Rightarrow> ('n, 'x) net_interface \<Rightarrow> ('n, 'x) net_interface" where
  "findAndRemovePendingConnection a s =
     (case findPendingConnection a s of None \<Rightarrow> s | Some i \<Rightarrow> removePendingConnection i s)"

section \<open>Disconnecting\<close>

definition callback :: "conn_id \<Rightarrow> (('n, 'x) net_connection \<Rightarrow> ('n, 'x) net_connection option) \<Rightarrow> ('n, 'x) net_interface \<Rightarrow> ('n, 'x) net_interface option" where
  "callback i f s = do { c \<leftarrow> f (object s i); Some (on_object i (\<lambda>_. c) s) }"

definition setConnectionState :: "net_connection_state \<Rightarrow> conn_id \<Rightarrow> ('n, 'x) net_interface \<Rightarrow> ('n, 'x) net_interface" where
  "setConnectionState newState i s = on_object i (\<lambda>c. c\<lparr>mConnectionState := newState\<rparr>) s"

definition if_addConnection :: "conn_id \<Rightarrow> ('n, 'x) net_interface \<Rightarrow> ('n, 'x) net_interface option" where
  "if_addConnection i s = do { t \<leftarrow> addConnection (addresses s) i (connTable s); Some (s\<lparr>connTable := t\<rparr>) }"

definition if_removeConnection :: "conn_id \<Rightarrow> ('n, 'x) net_interface \<Rightarrow> ('n, 'x) net_interface option" where
  "if_removeConnection i s = do { t \<leftarrow> removeConnection (addresses s) i (connTable s); Some (s\<lparr>connTable := t\<rparr>) }"

definition sendDisconnect :: "('n, 'x) iface_env \<Rightarrow> conn_id \<Rightarrow> mem \<Rightarrow> ('n, 'x) net_interface \<Rightarrow> ('n, 'x) net_interface option" where
  "sendDisconnect e i reasonString s = do {
     out \<leftarrow> startPacket e DisconnectPacket;
     out \<leftarrow> writeNonce (mNonce (params s i)) out;
     out \<leftarrow> writeNonce (mServerNonce (params s i)) out;
     let encryptPos = getBytePosition out;
     let out = setBytePosition encryptPos out;
     out \<leftarrow> writeString (huffman e) (Some reasonString) 255 out;
     out \<leftarrow> (if mUsingCrypto (params s i) then encryptTail e encryptPos (mSharedSecret (params s i)) out else Some out);
     sendStream out (mNetAddress (object s i)) s }"

definition disconnect ::
  "('n, 'x) conn_type \<Rightarrow> ('n, 'x) iface_env \<Rightarrow> conn_id \<Rightarrow> termination_reason \<Rightarrow> mem \<Rightarrow> ('n, 'x) net_interface \<Rightarrow> ('n, 'x) net_interface option" where
  "disconnect typ e i reason reasonString s =
     (if mConnectionState (object s i) = AwaitingChallengeResponse \<or> mConnectionState (object s i) = AwaitingConnectResponse then do {
        s \<leftarrow> callback i (onConnectTerminated typ reason reasonString) s;
        Some (removePendingConnection i s) }
      else if mConnectionState (object s i) = Connected then do {
        s \<leftarrow> callback i (onConnectionTerminated typ reason reasonString) (setConnectionState Disconnected i s);
        s \<leftarrow> (if mRemoteConnection (object s i) then Some s else sendDisconnect e i reasonString s);
        if_removeConnection i s }
      else Some s)"

definition addPendingConnection ::
  "('n, 'x) conn_type \<Rightarrow> ('n, 'x) iface_env \<Rightarrow> conn_id \<Rightarrow> ('n, 'x) net_interface \<Rightarrow> ('n, 'x) net_interface option" where
  "addPendingConnection typ e i s = do {
     let s = findAndRemovePendingConnection (addresses s i) s;
     temp \<leftarrow> findConnection (addresses s) (addresses s i) (connTable s);
     s \<leftarrow> (case temp of None \<Rightarrow> Some s | Some j \<Rightarrow> disconnect typ e j ReasonSelfDisconnect (bytes_of ''Reconnecting'') s);
     Some (s\<lparr>mPendingConnections := mPendingConnections s @ [i]\<rparr>) }"

text \<open>The clock of a connection is the interface's.\<close>

definition envOf :: "('n, 'x) iface_env \<Rightarrow> conn_id \<Rightarrow> ('n, 'x) net_interface \<Rightarrow> packet_env" where
  "envOf e i s = (connEnv e i)\<lparr>getCurrentTime := mCurrentTime s\<rparr>"

text \<open>What a connection handed to its interface is done, in its order.\<close>

fun perform ::
  "('n, 'x) conn_type \<Rightarrow> ('n, 'x) iface_env \<Rightarrow> conn_id \<Rightarrow> net_action list \<Rightarrow> ('n, 'x) net_interface \<Rightarrow> ('n, 'x) net_interface option" where
  "perform typ e i [] s = Some s"
| "perform typ e i (SendTo a m # acts) s = perform typ e i acts (s\<lparr>socketOut := socketOut s @ [(a, m)]\<rparr>)"
| "perform typ e i (SendToDelayed a m d # acts) s = perform typ e i acts (sendtoDelayed a m d s)"
| "perform typ e i (DeliverLocal bs # acts) s = perform typ e i acts (on_object i (\<lambda>c. c\<lparr>mOut := mOut c @ [DeliverLocal bs]\<rparr>) s)"
| "perform typ e i (HandleConnectionError text # acts) s = do {
     s \<leftarrow> disconnect typ e i ReasonError (bytes_of text) s;
     perform typ e i acts s }"

definition flush :: "('n, 'x) conn_type \<Rightarrow> ('n, 'x) iface_env \<Rightarrow> conn_id \<Rightarrow> ('n, 'x) net_interface \<Rightarrow> ('n, 'x) net_interface option" where
  "flush typ e i s = perform typ e i (mOut (object s i)) (on_object i (\<lambda>c. c\<lparr>mOut := []\<rparr>) s)"

section \<open>The challenge\<close>

text \<open>One more packet of the start-up has gone out.\<close>

definition countSend :: "conn_id \<Rightarrow> ('n, 'x) net_interface \<Rightarrow> ('n, 'x) net_interface" where
  "countSend i s = on_object i (\<lambda>c. c\<lparr>mConnectSendCount := mConnectSendCount c + 1, mConnectLastSendTime := mCurrentTime s\<rparr>) s"

definition sendConnectChallengeRequest :: "('n, 'x) iface_env \<Rightarrow> conn_id \<Rightarrow> ('n, 'x) net_interface \<Rightarrow> ('n, 'x) net_interface option" where
  "sendConnectChallengeRequest e i s = do {
     out \<leftarrow> startPacket e ConnectChallengeRequest;
     out \<leftarrow> writeNonce (mNonce (params s i)) out;
     (_, out) \<leftarrow> writeFlag (mRequestKeyExchange (params s i)) out;
     (_, out) \<leftarrow> writeFlag (mRequestCertificate (params s i)) out;
     sendStream out (addresses s i) (countSend i s) }"

definition startConnection ::
  "('n, 'x) conn_type \<Rightarrow> ('n, 'x) iface_env \<Rightarrow> conn_id \<Rightarrow> ('n, 'x) net_interface \<Rightarrow> ('n, 'x) net_interface option" where
  "startConnection typ e i s = do {
     s \<leftarrow> addPendingConnection typ e i s;
     let s = on_object i (\<lambda>c. c\<lparr>mConnectSendCount := 0, mConnectionState := AwaitingChallengeResponse\<rparr>) s;
     sendConnectChallengeRequest e i s }"

text \<open>The certificate, or the public key, of the interface.\<close>

definition writeOwnKey :: "bool \<Rightarrow> ('n, 'x) net_interface \<Rightarrow> bit_stream \<Rightarrow> bit_stream option" where
  "writeOwnKey wantsCertificate s out = do {
     (certified, out) \<leftarrow> writeFlag (wantsCertificate \<and> mInterfaceCertificate s \<noteq> None) out;
     if certified then do { cert \<leftarrow> mInterfaceCertificate s; writeData (mFresh out) (certBytes cert) out }
     else do { key \<leftarrow> mInterfaceKey s; m \<leftarrow> publicHalf key; writeData (mFresh out) m out } }"

definition sendConnectChallengeResponse ::
  "('n, 'x) iface_env \<Rightarrow> address \<Rightarrow> nonce \<Rightarrow> bool \<Rightarrow> bool \<Rightarrow> ('n, 'x) net_interface \<Rightarrow> ('n, 'x) net_interface option" where
  "sendConnectChallengeResponse e a clientNonce wantsKeyExchange wantsCertificate s = do {
     out \<leftarrow> startPacket e ConnectChallengeResponse;
     out \<leftarrow> writeNonce clientNonce out;
     out \<leftarrow> write_u32 (computeClientIdentityToken e a clientNonce s) out;
     out \<leftarrow> writeNonce (mCurrentNonce (mPuzzleManager s)) out;
     out \<leftarrow> write_u32 (mCurrentDifficulty (mPuzzleManager s)) out;
     (keyed, out) \<leftarrow> writeFlag (mRequiresKeyExchange s \<or> (wantsKeyExchange \<and> mInterfaceKey s \<noteq> None)) out;
     out \<leftarrow> (if keyed then writeOwnKey wantsCertificate s out else Some out);
     sendStream out a s }"

definition handleConnectChallengeRequest :: "('n, 'x) iface_env \<Rightarrow> address \<Rightarrow> bit_stream \<Rightarrow> ('n, 'x) net_interface \<Rightarrow> ('n, 'x) net_interface option" where
  "handleConnectChallengeRequest e a stream s =
     (if \<not> mAllowConnections s then Some s
      else do {
        (clientNonce, stream) \<leftarrow> readNonce (unsetNonce e) stream;
        (wantsKeyExchange, stream) \<leftarrow> readFlag stream;
        (wantsCertificate, stream) \<leftarrow> readFlag stream;
        sendConnectChallengeResponse e a clientNonce wantsKeyExchange wantsCertificate s })"

section \<open>The connect request\<close>

definition sendConnectRequest :: "('n, 'x) conn_type \<Rightarrow> ('n, 'x) iface_env \<Rightarrow> conn_id \<Rightarrow> ('n, 'x) net_interface \<Rightarrow> ('n, 'x) net_interface option" where
  "sendConnectRequest typ e i s = do {
     let theParams = params s i;
     out \<leftarrow> startPacket e ConnectRequest;
     out \<leftarrow> writeNonce (mNonce theParams) out;
     out \<leftarrow> writeNonce (mServerNonce theParams) out;
     out \<leftarrow> write_u32 (mClientIdentity theParams) out;
     out \<leftarrow> write_u32 (mPuzzleDifficulty theParams) out;
     out \<leftarrow> write_u32 (mPuzzleSolution theParams) out;
     (crypto, out) \<leftarrow> writeFlag (mUsingCrypto theParams) out;
     (encryptPos, out) \<leftarrow> (if crypto then do {
          key \<leftarrow> mPrivateKey theParams;
          m \<leftarrow> publicHalf key;
          out \<leftarrow> writeData (mFresh out) m out;
          let encryptPos = getBytePosition out;
          out \<leftarrow> writeKeyBytes (mSymmetricKeyBytes theParams) (setBytePosition encryptPos out);
          Some (encryptPos, out) }
        else Some (0, out));
     (_, out) \<leftarrow> writeFlag (mDebugObjectSizes theParams) out;
     out \<leftarrow> write_u32 (mInitialSendSeq (object s i)) out;
     out \<leftarrow> writeString (huffman e) (Some (getClassName typ (object s i))) 255 out;
     out \<leftarrow> writeConnectRequest typ (object s i) out;
     out \<leftarrow> (if encryptPos \<noteq> 0 then encryptTail e encryptPos (mSharedSecret theParams) out else Some out);
     sendStream out (addresses s i) (countSend i s) }"

definition continuePuzzleSolution ::
  "('n, 'x) conn_type \<Rightarrow> ('n, 'x) iface_env \<Rightarrow> conn_id \<Rightarrow> ('n, 'x) net_interface \<Rightarrow> ('n, 'x) net_interface option" where
  "continuePuzzleSolution typ e i s = do {
     let theParams = params s i;
     (solved, solution) \<leftarrow> solvePuzzle (hashState0 e) (puzzleClock e) (mPuzzleSolution theParams) (mNonce theParams) (mServerNonce theParams)
       (mPuzzleDifficulty theParams) (mClientIdentity theParams);
     let s = put_params i (theParams\<lparr>mPuzzleSolution := solution\<rparr>) s;
     if solved then sendConnectRequest typ e i (setConnectionState AwaitingConnectResponse i s) else Some s }"

text \<open>
  The key or certificate of the other end, from a challenge response or a punch packet. The first component says whether the handler goes on.
\<close>

definition readPeerKey ::
  "ecc_ops \<Rightarrow> ('n, 'x) conn_type \<Rightarrow> ('n, 'x) iface_env \<Rightarrow> conn_id \<Rightarrow> bit_stream \<Rightarrow> ('n, 'x) net_interface \<Rightarrow>
   (bool \<times> ('n, 'x) net_interface) option" where
  "readPeerKey ops typ e i stream s = do {
     (keyed, stream) \<leftarrow> readFlag stream;
     if \<not> keyed then Some (True, s)
     else do {
       (certified, stream) \<leftarrow> readFlag stream;
       (ok, s) \<leftarrow> (if certified then do {
            (cert, buffer, stream) \<leftarrow> Certificate_read ops (unsetKey e) (mStaticCryptoBuffer s) stream;
            let s = put_params i ((params s i)\<lparr>mCertificate := Some cert\<rparr>) (s\<lparr>mStaticCryptoBuffer := buffer\<rparr>);
            if \<not> mCertIsValid cert \<or> \<not> validateCertificate typ (object s i) cert then Some (False, s)
            else Some (True, put_params i ((params s i)\<lparr>mPublicKey := certKey cert\<rparr>) s) }
          else do {
            (key, buffer, stream) \<leftarrow> AsymmetricKey_read ops (unsetKey e) (mStaticCryptoBuffer s) stream;
            let s = put_params i ((params s i)\<lparr>mPublicKey := Some key\<rparr>) (s\<lparr>mStaticCryptoBuffer := buffer\<rparr>);
            Some (mKeyIsValid key \<and> validatePublicKey typ (object s i) key, s) });
       if \<not> ok then Some (False, s)
       else do {
         publicKey \<leftarrow> mPublicKey (params s i);
         let (own, buffer) = (case mInterfaceKey s of
               None \<Rightarrow> AsymmetricKey_generate ops (mKeySize publicKey) (unsetKey e) (mStaticCryptoBuffer s)
             | Some key \<Rightarrow> if mKeySize key \<noteq> mKeySize publicKey
                 then AsymmetricKey_generate ops (mKeySize publicKey) (unsetKey e) (mStaticCryptoBuffer s)
                 else (key, mStaticCryptoBuffer s));
         (secret, buffer) \<leftarrow> computeSharedSecretKey ops publicKey own buffer;
         Some (True, put_params i ((params s i)\<lparr>mPrivateKey := Some own, mSharedSecret := secret, mSymmetricKeyBytes := drawnKey e,
           mUsingCrypto := True\<rparr>) (s\<lparr>mStaticCryptoBuffer := buffer\<rparr>)) } } }"

definition handleConnectChallengeResponse ::
  "ecc_ops \<Rightarrow> ('n, 'x) conn_type \<Rightarrow> ('n, 'x) iface_env \<Rightarrow> address \<Rightarrow> bit_stream \<Rightarrow> ('n, 'x) net_interface \<Rightarrow> ('n, 'x) net_interface option" where
  "handleConnectChallengeResponse ops typ e a stream s =
     (case findPendingConnection a s of
        None \<Rightarrow> Some s
      | Some i \<Rightarrow>
          if mConnectionState (object s i) \<noteq> AwaitingChallengeResponse then Some s
          else do {
            (theNonce, stream) \<leftarrow> readNonce (unsetNonce e) stream;
            if theNonce \<noteq> mNonce (params s i) then Some s
            else do {
              (identity, stream) \<leftarrow> read_u32 (mClientIdentity (params s i)) stream;
              (serverNonce, stream) \<leftarrow> readNonce (mServerNonce (params s i)) stream;
              (difficulty, stream) \<leftarrow> read_u32 (mPuzzleDifficulty (params s i)) stream;
              let s = put_params i ((params s i)\<lparr>mClientIdentity := identity, mServerNonce := serverNonce, mPuzzleDifficulty := difficulty\<rparr>) s;
              if difficulty > MaxPuzzleDifficulty then Some s
              else do {
                (ok, s) \<leftarrow> readPeerKey ops typ e i stream s;
                if \<not> ok then Some s
                else do {
                  let s = on_object i (\<lambda>c. c\<lparr>mConnectionState := ComputingPuzzleSolution, mConnectSendCount := 0,
                    mConnectLastSendTime := mCurrentTime s\<rparr>) s;
                  continuePuzzleSolution typ e i (put_params i ((params s i)\<lparr>mPuzzleSolution := 0\<rparr>) s) } } } })"

section \<open>The answer to a request\<close>

definition sendConnectReject ::
  "('n, 'x) iface_env \<Rightarrow> connection_parameters \<Rightarrow> address \<Rightarrow> mem option \<Rightarrow> ('n, 'x) net_interface \<Rightarrow> ('n, 'x) net_interface option" where
  "sendConnectReject e p a reason s =
     (case reason of
        None \<Rightarrow> Some s
      | Some text \<Rightarrow> do {
          out \<leftarrow> startPacket e ConnectReject;
          out \<leftarrow> writeNonce (mNonce p) out;
          out \<leftarrow> writeNonce (mServerNonce p) out;
          out \<leftarrow> writeString (huffman e) (Some text) 255 out;
          sendStream out a s })"

definition sendConnectAccept :: "('n, 'x) conn_type \<Rightarrow> ('n, 'x) iface_env \<Rightarrow> conn_id \<Rightarrow> ('n, 'x) net_interface \<Rightarrow> ('n, 'x) net_interface option" where
  "sendConnectAccept typ e i s = do {
     let theParams = params s i;
     out \<leftarrow> startPacket e ConnectAccept;
     out \<leftarrow> writeNonce (mNonce theParams) out;
     out \<leftarrow> writeNonce (mServerNonce theParams) out;
     let encryptPos = getBytePosition out;
     out \<leftarrow> write_u32 (mInitialSendSeq (object s i)) (setBytePosition encryptPos out);
     out \<leftarrow> writeConnectAccept typ (object s i) out;
     out \<leftarrow> (if mUsingCrypto theParams then do {
          out \<leftarrow> writeKeyBytes (mInitVectorBytes theParams) out;
          encryptTail e encryptPos (mSharedSecret theParams) out }
        else Some out);
     sendStream out (addresses s i) s }"

text \<open>The key of the client and what it encrypts. The first component says whether the handler goes on.\<close>

definition readClientKey ::
  "ecc_ops \<Rightarrow> ('n, 'x) iface_env \<Rightarrow> asymmetric_key \<Rightarrow> bit_stream \<Rightarrow> connection_parameters \<Rightarrow> mem \<Rightarrow>
   (bool \<times> bit_stream \<times> connection_parameters \<times> mem) option" where
  "readClientKey ops e own stream p buffer = do {
     (key, buffer, stream) \<leftarrow> AsymmetricKey_read ops (unsetKey e) buffer stream;
     let decryptPos = getBytePosition stream;
     (secret, buffer) \<leftarrow> computeSharedSecretKey ops key own buffer;
     let p = p\<lparr>mUsingCrypto := True, mPublicKey := Some key, mPrivateKey := Some own, mSharedSecret := secret\<rparr>;
     (ok, stream) \<leftarrow> decryptTail e decryptPos secret (setBytePosition decryptPos stream);
     if \<not> ok then Some (False, stream, p, buffer)
     else do {
       (sessionKey, stream) \<leftarrow> readKeyBytes (mSymmetricKeyBytes p) stream;
       Some (True, stream, p\<lparr>mSymmetricKeyBytes := sessionKey, mInitVectorBytes := drawnVector e\<rparr>, buffer) } }"

text \<open>\<^verbatim>\<open>NetConnectionRep::create\<close>: the first class of that name a remote host may create.\<close>

definition createConnection :: "('n, 'x) iface_env \<Rightarrow> mem \<Rightarrow> ('n, 'x) net_connection option" where
  "createConnection e name = map_option repCreate (find (\<lambda>r. mCanRemoteCreate r \<and> name = repName r) (reps e))"

text \<open>The connection the request asks for, and its way into the table.\<close>

definition enterConnection ::
  "('n, 'x) conn_type \<Rightarrow> ('n, 'x) iface_env \<Rightarrow> conn_id \<Rightarrow> ('n, 'x) net_interface \<Rightarrow> ('n, 'x) net_interface option" where
  "enterConnection typ e i s = do {
     s \<leftarrow> callback i (onConnectionEstablished typ) (setConnectionState Connected i s);
     sendConnectAccept typ e i s }"

definition setSessionCipher :: "('n, 'x) iface_env \<Rightarrow> ('n, 'x) net_connection \<Rightarrow> ('n, 'x) net_connection option" where
  "setSessionCipher e c =
     (if mUsingCrypto (mConnectionParameters c)
      then do { k \<leftarrow> sessionCipher e (mConnectionParameters c); Some (c\<lparr>mSymmetricCipher := Some k\<rparr>) }
      else Some c)"

definition makeConnection ::
  "('n, 'x) conn_type \<Rightarrow> ('n, 'x) iface_env \<Rightarrow> address \<Rightarrow> u32 \<Rightarrow> connection_parameters \<Rightarrow> bit_stream \<Rightarrow> ('n, 'x) net_connection \<Rightarrow>
   ('n, 'x) net_interface \<Rightarrow> ('n, 'x) net_interface option" where
  "makeConnection typ e a connectSequence theParams stream conn s = do {
     let i = nextObject s;
     c \<leftarrow> setSessionCipher e (setInitialRecvSequence connectSequence (conn\<lparr>mConnectionParameters := theParams, mNetAddress := a\<rparr>));
     (answer, _, c) \<leftarrow> readConnectRequest typ c stream;
     let s = on_object i (\<lambda>_. c) (s\<lparr>nextObject := i + 1\<rparr>);
     case answer of
       Inl errorString \<Rightarrow> sendConnectReject e theParams a errorString s
     | Inr _ \<Rightarrow> do { s \<leftarrow> if_addConnection i s; enterConnection typ e i s } }"

text \<open>A request of a client that has proved its work, from the key exchange on.\<close>

definition acceptRequest ::
  "ecc_ops \<Rightarrow> ('n, 'x) conn_type \<Rightarrow> ('n, 'x) iface_env \<Rightarrow> address \<Rightarrow> bit_stream \<Rightarrow> connection_parameters \<Rightarrow> conn_id option \<Rightarrow>
   ('n, 'x) net_interface \<Rightarrow> ('n, 'x) net_interface option" where
  "acceptRequest ops typ e a stream theParams connect s = do {
     (keyed, stream) \<leftarrow> readFlag stream;
     (ok, stream, theParams, s) \<leftarrow> (if \<not> keyed then Some (True, stream, theParams, s)
       else case mInterfaceKey s of
         None \<Rightarrow> Some (False, stream, theParams, s)
       | Some own \<Rightarrow> map_option (\<lambda>(ok, stream, p, buffer). (ok, stream, p, s\<lparr>mStaticCryptoBuffer := buffer\<rparr>))
           (readClientKey ops e own stream theParams (mStaticCryptoBuffer s)));
     if \<not> ok then Some s
     else do {
       (debugSizes, stream) \<leftarrow> readFlag stream;
       let theParams = theParams\<lparr>mDebugObjectSizes := debugSizes\<rparr>;
       (connectSequence, stream) \<leftarrow> read_u32 (unsetWord e) stream;
       s \<leftarrow> (case connect of None \<Rightarrow> Some s | Some j \<Rightarrow> disconnect typ e j ReasonSelfDisconnect (bytes_of ''NewConnection'') s);
       (connectionClass, stream) \<leftarrow> readString (huffman e) (unsetText e) stream;
       case createConnection e (cstring connectionClass) of
         None \<Rightarrow> Some s
       | Some conn \<Rightarrow> makeConnection typ e a connectSequence theParams stream conn s } }"

definition handleConnectRequest ::
  "ecc_ops \<Rightarrow> ('n, 'x) conn_type \<Rightarrow> ('n, 'x) iface_env \<Rightarrow> address \<Rightarrow> bit_stream \<Rightarrow> ('n, 'x) net_interface \<Rightarrow> ('n, 'x) net_interface option" where
  "handleConnectRequest ops typ e a stream s =
     (if \<not> mAllowConnections s then Some s
      else do {
        let theParams = ConnectionParameters_new (unsetParams e);
        (nonce, stream) \<leftarrow> readNonce (mNonce theParams) stream;
        (serverNonce, stream) \<leftarrow> readNonce (mServerNonce theParams) stream;
        (identity, stream) \<leftarrow> read_u32 (mClientIdentity theParams) stream;
        if identity \<noteq> computeClientIdentityToken e a nonce s then Some s
        else do {
          (difficulty, stream) \<leftarrow> read_u32 (mPuzzleDifficulty theParams) stream;
          (solution, stream) \<leftarrow> read_u32 (mPuzzleSolution theParams) stream;
          let theParams = theParams\<lparr>mNonce := nonce, mServerNonce := serverNonce, mClientIdentity := identity,
            mPuzzleDifficulty := difficulty, mPuzzleSolution := solution\<rparr>;
          connect \<leftarrow> findConnection (addresses s) a (connTable s);
          let again = (case connect of None \<Rightarrow> None
            | Some j \<Rightarrow> if mNonce (params s j) = nonce \<and> mServerNonce (params s j) = serverNonce then Some j else None);
          case again of
            Some j \<Rightarrow> sendConnectAccept typ e j s
          | None \<Rightarrow> do {
              (result, puzzles) \<leftarrow> checkSolution (hashState0 e) solution nonce serverNonce difficulty identity (mPuzzleManager s);
              let s = s\<lparr>mPuzzleManager := puzzles\<rparr>;
              if result \<noteq> Success then sendConnectReject e theParams a (Some (bytes_of ''Puzzle'')) s
              else acceptRequest ops typ e a stream theParams connect s } } })"

section \<open>The client's end of it\<close>

definition handleConnectAccept ::
  "('n, 'x) conn_type \<Rightarrow> ('n, 'x) iface_env \<Rightarrow> address \<Rightarrow> bit_stream \<Rightarrow> ('n, 'x) net_interface \<Rightarrow> ('n, 'x) net_interface option" where
  "handleConnectAccept typ e a stream s = do {
     (nonce, stream) \<leftarrow> readNonce (unsetNonce e) stream;
     (serverNonce, stream) \<leftarrow> readNonce (unsetNonce e) stream;
     let decryptPos = getBytePosition stream;
     let stream = setBytePosition decryptPos stream;
     case findPendingConnection a s of
       None \<Rightarrow> Some s
     | Some i \<Rightarrow>
         if mConnectionState (object s i) \<noteq> AwaitingConnectResponse then Some s
         else if mNonce (params s i) \<noteq> nonce \<or> mServerNonce (params s i) \<noteq> serverNonce then Some s
         else do {
           (ok, stream) \<leftarrow> (if mUsingCrypto (params s i) then decryptTail e decryptPos (mSharedSecret (params s i)) stream else Some (True, stream));
           if \<not> ok then Some s
           else do {
             (recvSequence, stream) \<leftarrow> read_u32 (unsetWord e) stream;
             (answer, stream, c) \<leftarrow> readConnectAccept typ (setInitialRecvSequence recvSequence (object s i)) stream;
             let s = on_object i (\<lambda>_. c) s;
             case answer of
               Inl _ \<Rightarrow> Some (removePendingConnection i s)
             | Inr _ \<Rightarrow> do {
                 (vector, stream) \<leftarrow> (if mUsingCrypto (params s i) then readKeyBytes (mInitVectorBytes (params s i)) stream
                   else Some (mInitVectorBytes (params s i), stream));
                 let s = put_params i ((params s i)\<lparr>mInitVectorBytes := vector\<rparr>) s;
                 s \<leftarrow> callback i (setSessionCipher e) s;
                 s \<leftarrow> if_addConnection i s;
                 callback i (onConnectionEstablished typ) (setConnectionState Connected i (removePendingConnection i s)) } } } }"

definition handleConnectReject ::
  "('n, 'x) conn_type \<Rightarrow> ('n, 'x) iface_env \<Rightarrow> address \<Rightarrow> bit_stream \<Rightarrow> ('n, 'x) net_interface \<Rightarrow> ('n, 'x) net_interface option" where
  "handleConnectReject typ e a stream s = do {
     (nonce, stream) \<leftarrow> readNonce (unsetNonce e) stream;
     (serverNonce, stream) \<leftarrow> readNonce (unsetNonce e) stream;
     case findPendingConnection a s of
       None \<Rightarrow> Some s
     | Some i \<Rightarrow>
         if mConnectionState (object s i) \<noteq> AwaitingChallengeResponse \<and> mConnectionState (object s i) \<noteq> AwaitingConnectResponse then Some s
         else if mNonce (params s i) \<noteq> nonce \<or> mServerNonce (params s i) \<noteq> serverNonce then Some s
         else do {
           (reason, _) \<leftarrow> readString (huffman e) (unsetText e) stream;
           if cstring reason = bytes_of ''Puzzle'' \<and> \<not> mPuzzleRetried (params s i) then
             sendConnectChallengeRequest e i (on_object i (\<lambda>c. c\<lparr>mConnectionState := AwaitingChallengeResponse, mConnectSendCount := 0,
               mConnectionParameters := (mConnectionParameters c)\<lparr>mPuzzleRetried := True, mNonce := drawnNonce e\<rparr>\<rparr>) s)
           else do {
             s \<leftarrow> callback i (onConnectTerminated typ ReasonRemoteHostRejectedConnection (cstring reason)) (setConnectionState ConnectRejected i s);
             Some (removePendingConnection i s) } } }"

definition handleDisconnect ::
  "('n, 'x) conn_type \<Rightarrow> ('n, 'x) iface_env \<Rightarrow> address \<Rightarrow> bit_stream \<Rightarrow> ('n, 'x) net_interface \<Rightarrow> ('n, 'x) net_interface option" where
  "handleDisconnect typ e a stream s = do {
     found \<leftarrow> findConnection (addresses s) a (connTable s);
     case found of
       None \<Rightarrow> Some s
     | Some i \<Rightarrow> do {
         (nonce, stream) \<leftarrow> readNonce (unsetNonce e) stream;
         (serverNonce, stream) \<leftarrow> readNonce (unsetNonce e) stream;
         if nonce \<noteq> mNonce (params s i) \<or> serverNonce \<noteq> mServerNonce (params s i) then Some s
         else do {
           let decryptPos = getBytePosition stream;
           let stream = setBytePosition decryptPos stream;
           (ok, stream) \<leftarrow> (if mUsingCrypto (params s i) then decryptTail e decryptPos (mSharedSecret (params s i)) stream else Some (True, stream));
           if \<not> ok then Some s
           else do {
             (reason, _) \<leftarrow> readString (huffman e) (unsetText e) stream;
             s \<leftarrow> callback i (onConnectionTerminated typ ReasonRemoteDisconnectPacket (cstring reason)) (setConnectionState Disconnected i s);
             if_removeConnection i s } } } }"

section \<open>Arranged connections\<close>

fun sendToAll :: "bit_stream \<Rightarrow> address list \<Rightarrow> ('n, 'x) net_interface \<Rightarrow> ('n, 'x) net_interface option" where
  "sendToAll out [] s = Some s"
| "sendToAll out (a # as) s = do { s \<leftarrow> sendStream out a s; sendToAll out as s }"

definition sendPunchPackets :: "('n, 'x) iface_env \<Rightarrow> conn_id \<Rightarrow> ('n, 'x) net_interface \<Rightarrow> ('n, 'x) net_interface option" where
  "sendPunchPackets e i s = do {
     let theParams = params s i;
     out \<leftarrow> startPacket e Punch;
     out \<leftarrow> writeNonce (if mIsInitiator theParams then mNonce theParams else mServerNonce theParams) out;
     let encryptPos = getBytePosition out;
     let out = setBytePosition encryptPos out;
     out \<leftarrow> (if mIsInitiator theParams then writeNonce (mServerNonce theParams) out
       else do {
         out \<leftarrow> writeNonce (mNonce theParams) out;
         (keyed, out) \<leftarrow> writeFlag (mRequiresKeyExchange s \<or> (mRequestKeyExchange theParams \<and> mInterfaceKey s \<noteq> None)) out;
         if keyed then writeOwnKey (mRequestCertificate theParams) s out else Some out });
     out \<leftarrow> encryptTail e encryptPos (mArrangedSecret theParams) out;
     s \<leftarrow> sendToAll out (mPossibleAddresses theParams) s;
     Some (countSend i s) }"

definition startArrangedConnection ::
  "('n, 'x) conn_type \<Rightarrow> ('n, 'x) iface_env \<Rightarrow> conn_id \<Rightarrow> ('n, 'x) net_interface \<Rightarrow> ('n, 'x) net_interface option" where
  "startArrangedConnection typ e i s = do {
     s \<leftarrow> addPendingConnection typ e i (setConnectionState SendingPunchPackets i s);
     sendPunchPackets e i (on_object i (\<lambda>c. c\<lparr>mConnectSendCount := 0, mConnectLastSendTime := mCurrentTime s\<rparr>) s) }"

definition sendArrangedConnectRequest :: "('n, 'x) conn_type \<Rightarrow> ('n, 'x) iface_env \<Rightarrow> conn_id \<Rightarrow> ('n, 'x) net_interface \<Rightarrow> ('n, 'x) net_interface option" where
  "sendArrangedConnectRequest typ e i s = do {
     let theParams = params s i;
     out \<leftarrow> startPacket e ArrangedConnectRequest;
     out \<leftarrow> writeNonce (mNonce theParams) out;
     let encryptPos = getBytePosition out;
     out \<leftarrow> writeNonce (mServerNonce theParams) (setBytePosition encryptPos out);
     (crypto, out) \<leftarrow> writeFlag (mUsingCrypto theParams) out;
     (innerEncryptPos, out) \<leftarrow> (if crypto then do {
          key \<leftarrow> mPrivateKey theParams;
          m \<leftarrow> publicHalf key;
          out \<leftarrow> writeData (mFresh out) m out;
          let innerEncryptPos = getBytePosition out;
          out \<leftarrow> writeKeyBytes (mSymmetricKeyBytes theParams) (setBytePosition innerEncryptPos out);
          Some (innerEncryptPos, out) }
        else Some (0, out));
     (_, out) \<leftarrow> writeFlag (mDebugObjectSizes theParams) out;
     out \<leftarrow> write_u32 (mInitialSendSeq (object s i)) out;
     out \<leftarrow> writeConnectRequest typ (object s i) out;
     out \<leftarrow> (if innerEncryptPos \<noteq> 0 then encryptTail e innerEncryptPos (mSharedSecret theParams) out else Some out);
     out \<leftarrow> encryptTail e encryptPos (mArrangedSecret theParams) out;
     sendStream out (addresses s i) (countSend i s) }"

text \<open>
  The search of \<^verbatim>\<open>handlePunch\<close>. An address that differs in the port only is added to the possible ones on the way, whether or not the
  loop stops there; it stops only at a connection that is the initiator.
\<close>

fun findPunched :: "address \<Rightarrow> nonce \<Rightarrow> conn_id list \<Rightarrow> ('n, 'x) net_interface \<Rightarrow> conn_id option \<times> ('n, 'x) net_interface" where
  "findPunched a firstNonce [] s = (None, s)"
| "findPunched a firstNonce (i # is) s =
     (let p = params s i in
      if mConnectionState (object s i) \<noteq> SendingPunchPackets then findPunched a firstNonce is s
      else if (if mIsInitiator p then firstNonce \<noteq> mServerNonce p else firstNonce \<noteq> mNonce p) then findPunched a firstNonce is s
      else if a \<in> set (mPossibleAddresses p) then (if mIsInitiator p then (Some i, s) else findPunched a firstNonce is s)
      else if \<not> list_ex (isEqualAddress a) (mPossibleAddresses p) then findPunched a firstNonce is s
      else
        let s = (if length (mPossibleAddresses p) < 5 then put_params i (p\<lparr>mPossibleAddresses := mPossibleAddresses p @ [a]\<rparr>) s else s)
        in if mIsInitiator p then (Some i, s) else findPunched a firstNonce is s)"

definition handlePunch ::
  "ecc_ops \<Rightarrow> ('n, 'x) conn_type \<Rightarrow> ('n, 'x) iface_env \<Rightarrow> address \<Rightarrow> bit_stream \<Rightarrow> ('n, 'x) net_interface \<Rightarrow> ('n, 'x) net_interface option" where
  "handlePunch ops typ e a stream s = do {
     (firstNonce, stream) \<leftarrow> readNonce (unsetNonce e) stream;
     case findPunched a firstNonce (mPendingConnections s) s of
       (None, s) \<Rightarrow> Some s
     | (Some i, s) \<Rightarrow> do {
         (ok, stream) \<leftarrow> decryptTail e (getBytePosition stream) (mArrangedSecret (params s i)) stream;
         if \<not> ok then Some s
         else do {
           (nextNonce, stream) \<leftarrow> readNonce (unsetNonce e) stream;
           if nextNonce \<noteq> mNonce (params s i) then Some s
           else do {
             (ok, s) \<leftarrow> readPeerKey ops typ e i stream s;
             if \<not> ok then Some s
             else sendArrangedConnectRequest typ e i (on_object i (\<lambda>c. c\<lparr>mNetAddress := a, mConnectionState := AwaitingConnectResponse,
               mConnectSendCount := 0, mConnectLastSendTime := mCurrentTime s\<rparr>) s) } } } }"

text \<open>The pending connection that an arranged request is for.\<close>

definition findArranged :: "address \<Rightarrow> nonce \<Rightarrow> ('n, 'x) net_interface \<Rightarrow> conn_id option" where
  "findArranged a nonce s =
     find (\<lambda>i. mConnectionState (object s i) = SendingPunchPackets \<and> \<not> mIsInitiator (params s i) \<and> nonce = mNonce (params s i) \<and>
       list_ex (isEqualAddress a) (mPossibleAddresses (params s i))) (mPendingConnections s)"

definition handleArrangedConnectRequest ::
  "ecc_ops \<Rightarrow> ('n, 'x) conn_type \<Rightarrow> ('n, 'x) iface_env \<Rightarrow> address \<Rightarrow> bit_stream \<Rightarrow> ('n, 'x) net_interface \<Rightarrow> ('n, 'x) net_interface option" where
  "handleArrangedConnectRequest ops typ e a stream s = do {
     (nonce, stream) \<leftarrow> readNonce (unsetNonce e) stream;
     oldConnection \<leftarrow> findConnection (addresses s) a (connTable s);
     let again = (case oldConnection of None \<Rightarrow> None | Some j \<Rightarrow> if mNonce (params s j) = nonce then Some j else None);
     case again of
       Some j \<Rightarrow> sendConnectAccept typ e j s
     | None \<Rightarrow> (case findArranged a nonce s of
         None \<Rightarrow> Some s
       | Some i \<Rightarrow> do {
           (ok, stream) \<leftarrow> decryptTail e (getBytePosition stream) (mArrangedSecret (params s i)) stream;
           if \<not> ok then Some s
           else do {
             (serverNonce, stream) \<leftarrow> readNonce (unsetNonce e) (alignByte stream);
             if serverNonce \<noteq> mServerNonce (params s i) then Some s
             else do {
               (keyed, stream) \<leftarrow> readFlag stream;
               (ok, stream, s) \<leftarrow> (if \<not> keyed then Some (True, stream, s)
                 else case mInterfaceKey s of
                   None \<Rightarrow> Some (False, stream, s)
                 | Some own \<Rightarrow> map_option (\<lambda>(ok, stream, p, buffer). (ok, stream, put_params i p (s\<lparr>mStaticCryptoBuffer := buffer\<rparr>)))
                     (readClientKey ops e own stream (params s i) (mStaticCryptoBuffer s)));
               if \<not> ok then Some s
               else do {
                 (debugSizes, stream) \<leftarrow> readFlag stream;
                 (connectSequence, stream) \<leftarrow> read_u32 (unsetWord e) stream;
                 let s = put_params i ((params s i)\<lparr>mDebugObjectSizes := debugSizes\<rparr>) s;
                 s \<leftarrow> (case oldConnection of None \<Rightarrow> Some s | Some j \<Rightarrow> disconnect typ e j ReasonSelfDisconnect [] s);
                 c \<leftarrow> setSessionCipher e (setInitialRecvSequence connectSequence ((object s i)\<lparr>mNetAddress := a\<rparr>));
                 (answer, _, c) \<leftarrow> readConnectRequest typ c stream;
                 let s = on_object i (\<lambda>_. c) s;
                 case answer of
                   Inl errorString \<Rightarrow> do {
                     s \<leftarrow> sendConnectReject e (params s i) a errorString s;
                     Some (removePendingConnection i s) }
                 | Inr _ \<Rightarrow> do {
                     s \<leftarrow> if_addConnection i s;
                     enterConnection typ e i (removePendingConnection i s) } } } } }) }"

section \<open>Packets as they come in\<close>

text \<open>A packet of an established connection: the flag is bit 7 of the first byte. What the connection hands over is done.\<close>

definition readConnectionPacket ::
  "('n, 'x) conn_type \<Rightarrow> ('n, 'x) iface_env \<Rightarrow> address \<Rightarrow> bit_stream \<Rightarrow> ('n, 'x) net_interface \<Rightarrow> ('n, 'x) net_interface option" where
  "readConnectionPacket typ e a stream s = do {
     conn \<leftarrow> findConnection (addresses s) a (connTable s);
     case conn of
       None \<Rightarrow> Some s
     | Some i \<Rightarrow> do {
         (_, c) \<leftarrow> readRawPacket (transport typ) (envOf e i s) stream (object s i);
         flush typ e i (on_object i (\<lambda>_. c) s) } }"

definition processPacket ::
  "ecc_ops \<Rightarrow> ('n, 'x) conn_type \<Rightarrow> ('n, 'x) iface_env \<Rightarrow> address \<Rightarrow> bit_stream \<Rightarrow> ('n, 'x) net_interface \<Rightarrow> ('n, 'x) net_interface option" where
  "processPacket ops typ e a stream s = do {
     b \<leftarrow> ld (mDataPtr stream) 0;
     if b AND 0x80 \<noteq> 0 then readConnectionPacket typ e a stream s
     else do {
       (w, stream) \<leftarrow> map_option (\<lambda>(ok, m, bs). (if ok then m else [ucast (unsetWord e)], bs)) (readBytes 1 stream);
       packetType \<leftarrow> ld w 0;
       if packetType \<ge> FirstValidInfoPacketId then Some s
       else if packetType = ConnectChallengeRequest then handleConnectChallengeRequest e a stream s
       else if packetType = ConnectChallengeResponse then handleConnectChallengeResponse ops typ e a stream s
       else if packetType = ConnectRequest then handleConnectRequest ops typ e a stream s
       else if packetType = ConnectReject then handleConnectReject typ e a stream s
       else if packetType = ConnectAccept then handleConnectAccept typ e a stream s
       else if packetType = DisconnectPacket then handleDisconnect typ e a stream s
       else if packetType = Punch then handlePunch ops typ e a stream s
       else handleArrangedConnectRequest ops typ e a stream s } }"

text \<open>The packets the socket has, each with what the program finds around it then.\<close>

fun processPackets ::
  "ecc_ops \<Rightarrow> ('n, 'x) conn_type \<Rightarrow> (('n, 'x) iface_env \<times> address \<times> mem) list \<Rightarrow> ('n, 'x) net_interface \<Rightarrow> ('n, 'x) net_interface option" where
  "processPackets ops typ [] s = Some s"
| "processPackets ops typ ((e, a, bytes) # packets) s = do {
     s \<leftarrow> processPacket ops typ e a (PacketStream_recvfrom (packetEnv e) bytes) s;
     processPackets ops typ packets s }"

definition checkIncomingPackets ::
  "ecc_ops \<Rightarrow> ('n, 'x) conn_type \<Rightarrow> u32 \<Rightarrow> (('n, 'x) iface_env \<times> address \<times> mem) list \<Rightarrow> ('n, 'x) net_interface \<Rightarrow> ('n, 'x) net_interface option" where
  "checkIncomingPackets ops typ now packets s = processPackets ops typ packets (s\<lparr>mCurrentTime := now\<rparr>)"

section \<open>The periodic work\<close>

text \<open>
  The loops over the two lists go by index and run at most once for each element there is at the start: a turn either goes on to the next index or
  removes an element. The first argument counts these turns.
\<close>

definition sendDelayed :: "('n, 'x) net_interface \<Rightarrow> ('n, 'x) net_interface" where
  "sendDelayed s =
     (let due = (\<lambda>(sendTime, _). sendTime < mCurrentTime s); list = mSendPacketList s
      in s\<lparr>mSendPacketList := dropWhile due list, socketOut := socketOut s @ map snd (takeWhile due list)\<rparr>)"

fun sendAll :: "('n, 'x) conn_type \<Rightarrow> ('n, 'x) iface_env \<Rightarrow> nat \<Rightarrow> nat \<Rightarrow> ('n, 'x) net_interface \<Rightarrow> ('n, 'x) net_interface option" where
  "sendAll typ e 0 k s = Some s"
| "sendAll typ e (Suc n) k s =
     (if k < length (mConnectionList (connTable s)) then do {
        let i = mConnectionList (connTable s) ! k;
        c \<leftarrow> checkPacketSend (transport typ) (envOf e i s) False (mCurrentTime s) (object s i);
        s \<leftarrow> flush typ e i (on_object i (\<lambda>_. c) s);
        sendAll typ e n (Suc k) s }
      else Some s)"

text \<open>A pending connection is given up.\<close>

definition giveUp :: "('n, 'x) conn_type \<Rightarrow> conn_id \<Rightarrow> ('n, 'x) net_interface \<Rightarrow> ('n, 'x) net_interface option" where
  "giveUp typ i s = do {
     s \<leftarrow> callback i (onConnectTerminated typ ReasonTimedOut (bytes_of ''Timeout'')) (setConnectionState ConnectTimedOut i s);
     Some (removePendingConnection i s) }"

text \<open>One pending connection; the first component says whether the loop goes on to the next index.\<close>

definition retryPending ::
  "('n, 'x) conn_type \<Rightarrow> ('n, 'x) iface_env \<Rightarrow> conn_id \<Rightarrow> ('n, 'x) net_interface \<Rightarrow> (bool \<times> ('n, 'x) net_interface) option" where
  "retryPending typ e i s =
     (let c = object s i; late = (\<lambda>t. mCurrentTime s > mConnectLastSendTime c + t) in
      if mConnectionState c = AwaitingChallengeResponse \<and> late ChallengeRetryTime then
        if mConnectSendCount c > ChallengeRetryCount then map_option (Pair False) (giveUp typ i s)
        else map_option (Pair True) (sendConnectChallengeRequest e i s)
      else if mConnectionState c = AwaitingConnectResponse \<and> late ConnectRetryTime then
        if mConnectSendCount c > ConnectRetryCount then map_option (Pair False) (giveUp typ i s)
        else map_option (Pair True)
          (if mIsArranged (params s i) then sendArrangedConnectRequest typ e i s else sendConnectRequest typ e i s)
      else if mConnectionState c = SendingPunchPackets \<and> late PunchRetryTime then
        if mConnectSendCount c > PunchRetryCount then map_option (Pair False) (giveUp typ i s)
        else map_option (Pair True) (sendPunchPackets e i s)
      else if mConnectionState c = ComputingPuzzleSolution \<and> late PuzzleSolutionTimeout then map_option (Pair True) (giveUp typ i s)
      else Some (True, s))"

fun retryAll :: "('n, 'x) conn_type \<Rightarrow> ('n, 'x) iface_env \<Rightarrow> nat \<Rightarrow> nat \<Rightarrow> ('n, 'x) net_interface \<Rightarrow> ('n, 'x) net_interface option" where
  "retryAll typ e 0 k s = Some s"
| "retryAll typ e (Suc n) k s =
     (if k < length (mPendingConnections s) then do {
        (next, s) \<leftarrow> retryPending typ e (mPendingConnections s ! k) s;
        retryAll typ e n (if next then Suc k else k) s }
      else Some s)"

fun timeoutAll :: "('n, 'x) conn_type \<Rightarrow> ('n, 'x) iface_env \<Rightarrow> nat \<Rightarrow> nat \<Rightarrow> ('n, 'x) net_interface \<Rightarrow> ('n, 'x) net_interface option" where
  "timeoutAll typ e 0 k s = Some s"
| "timeoutAll typ e (Suc n) k s =
     (if k < length (mConnectionList (connTable s)) then do {
        let i = mConnectionList (connTable s) ! k;
        (out, c) \<leftarrow> checkTimeout (transport typ) (envOf e i s) (mCurrentTime s) (object s i);
        s \<leftarrow> flush typ e i (on_object i (\<lambda>_. c) s);
        if out then do {
          s \<leftarrow> callback i (onConnectionTerminated typ ReasonTimedOut (bytes_of ''Timeout'')) (setConnectionState TimedOut i s);
          s \<leftarrow> if_removeConnection i s;
          timeoutAll typ e n k s }
        else timeoutAll typ e n (Suc k) s }
      else Some s)"

definition processConnections ::
  "('n, 'x) conn_type \<Rightarrow> ('n, 'x) iface_env \<Rightarrow> u32 \<Rightarrow> ('n, 'x) net_interface \<Rightarrow> ('n, 'x) net_interface option" where
  "processConnections typ e now s = do {
     let s = s\<lparr>mCurrentTime := now, mPuzzleManager := tick now (drawnIndex e) (drawnNonce e) (mPuzzleManager s)\<rparr>;
     let s = sendDelayed s;
     s \<leftarrow> sendAll typ e (length (mConnectionList (connTable s))) 0 s;
     s \<leftarrow> (if now > mLastTimeoutCheckTime s + TimeoutCheckInterval then do {
          s \<leftarrow> retryAll typ e (length (mPendingConnections s)) 0 s;
          let s = s\<lparr>mLastTimeoutCheckTime := now\<rparr>;
          timeoutAll typ e (length (mConnectionList (connTable s))) 0 s }
        else Some s);
     case find (\<lambda>i. mConnectionState (object s i) = ComputingPuzzleSolution) (mPendingConnections s) of
       None \<Rightarrow> Some s
     | Some i \<Rightarrow> continuePuzzleSolution typ e i s }"

text \<open>The destructor: the connection at the head of the list is shut down until there is none.\<close>

partial_function (option) NetInterface_delete ::
  "('n, 'x) conn_type \<Rightarrow> ('n, 'x) iface_env \<Rightarrow> ('n, 'x) net_interface \<Rightarrow> ('n, 'x) net_interface option" where
  "NetInterface_delete typ e s =
     (case mConnectionList (connTable s) of
        [] \<Rightarrow> Some s
      | i # _ \<Rightarrow> Option.bind (disconnect typ e i ReasonSelfDisconnect (bytes_of ''Shutdown'') s) (NetInterface_delete typ e))"

declare NetInterface_delete.simps [code]

section \<open>A connection and its interface\<close>

text \<open>\<^verbatim>\<open>tnl/netConnection.cpp\<close>: how a connection is opened, and the virtual functions as \<^verbatim>\<open>NetConnection\<close> has them.\<close>

definition NetConnection_connect ::
  "('n, 'x) conn_type \<Rightarrow> ('n, 'x) iface_env \<Rightarrow> conn_id \<Rightarrow> address \<Rightarrow> bool \<Rightarrow> bool \<Rightarrow> ('n, 'x) net_interface \<Rightarrow> ('n, 'x) net_interface option" where
  "NetConnection_connect typ e i a requestKeyExchange requestCertificate s =
     startConnection typ e i (on_object i (\<lambda>c. (set_params (\<lambda>p. p\<lparr>mRequestKeyExchange := requestKeyExchange,
       mRequestCertificate := requestCertificate, mIsInitiator := True\<rparr>) c)\<lparr>mNetAddress := a\<rparr>) s)"

definition connectArranged ::
  "('n, 'x) conn_type \<Rightarrow> ('n, 'x) iface_env \<Rightarrow> conn_id \<Rightarrow> address list \<Rightarrow> nonce \<Rightarrow> nonce \<Rightarrow> mem \<Rightarrow> bool \<Rightarrow> bool \<Rightarrow> bool \<Rightarrow>
   ('n, 'x) net_interface \<Rightarrow> ('n, 'x) net_interface option" where
  "connectArranged typ e i possibleAddresses theNonce serverNonce sharedSecret initiator requestsKeyExchange requestsCertificate s =
     startArrangedConnection typ e i (on_object i (set_params (\<lambda>p. p\<lparr>mRequestKeyExchange := requestsKeyExchange,
       mRequestCertificate := requestsCertificate, mPossibleAddresses := possibleAddresses, mIsInitiator := initiator, mIsArranged := True,
       mNonce := theNonce, mServerNonce := serverNonce, mArrangedSecret := Some sharedSecret\<rparr>)) s)"

definition NetConnection_disconnect ::
  "('n, 'x) conn_type \<Rightarrow> ('n, 'x) iface_env \<Rightarrow> conn_id \<Rightarrow> mem \<Rightarrow> ('n, 'x) net_interface \<Rightarrow> ('n, 'x) net_interface option" where
  "NetConnection_disconnect typ e i reason s = disconnect typ e i ReasonSelfDisconnect reason s"

definition base_onConnectionEstablished :: "('n, 'x) net_connection \<Rightarrow> ('n, 'x) net_connection" where
  "base_onConnectionEstablished c =
     (if mIsInitiator (mConnectionParameters c) then c\<lparr>mTypeFlags := mTypeFlags c OR ConnectionToServer\<rparr>
      else c\<lparr>mTypeFlags := mTypeFlags c OR ConnectionToClient\<rparr>)"

definition NetConnection_type :: "mem \<Rightarrow> u32 \<Rightarrow> u32 \<Rightarrow> u32 \<Rightarrow> u32 \<Rightarrow> 'n \<Rightarrow> ('n, 'x) conn_type" where
  "NetConnection_type name classGroup classCRC g0 crc0 n = \<lparr>getClassName = (\<lambda>_. name),
     writeConnectRequest = (\<lambda>_. base_writeConnectRequest classGroup classCRC),
     readConnectRequest = (\<lambda>c stream. map_option (\<lambda>(answer, stream). (map_sum (\<lambda>text. Some (bytes_of text)) id answer, stream, c))
       (base_readConnectRequest g0 crc0 classGroup classCRC stream)),
     writeConnectAccept = (\<lambda>_. Some), readConnectAccept = (\<lambda>c stream. Some (Inr (), stream, c)),
     validatePublicKey = (\<lambda>_ _. True), validateCertificate = (\<lambda>_ _. True),
     onConnectionEstablished = (\<lambda>c. Some (base_onConnectionEstablished c)),
     onConnectTerminated = (\<lambda>_ _. Some), onConnectionTerminated = (\<lambda>_ _. Some), transport = base_class n\<rparr>"

end
