(* ===== verification/Interface_Safety.thy ===== *)
theory Interface_Safety
  imports Net_Interface
begin

text \<open>
  What a packet from anywhere can do to an interface of \<open>Net_Interface\<close> and what it cannot: no connection without the work of its puzzle, nothing
  without the nonces of the connection it names. The last part shows where the guard is missing: the key exchange an interface
  requires, and the size of a client's key.
\<close>

section \<open>Partial results\<close>

text \<open>What an operation gives, if it does not fault, satisfies a predicate.\<close>

definition gives :: "('a \<Rightarrow> bool) \<Rightarrow> 'a option \<Rightarrow> bool" where
  "gives P m \<longleftrightarrow> (\<forall>x. m = Some x \<longrightarrow> P x)"

lemma gives_simps [simp]: "gives P None" "gives P (Some x) \<longleftrightarrow> P x" "gives P (map_option g m) \<longleftrightarrow> gives (\<lambda>x. P (g x)) m"
  by (auto simp: gives_def bind_eq_Some_conv)

lemma gives_bind: "gives Q m \<Longrightarrow> (\<And>x. Q x \<Longrightarrow> gives P (f x)) \<Longrightarrow> gives P (Option.bind m f)"
  by (auto simp: gives_def bind_eq_Some_conv)

lemma gives_skip: "(\<And>x. gives P (f x)) \<Longrightarrow> gives P (Option.bind m f)"
  by (auto simp: gives_def bind_eq_Some_conv)

lemma gives_mono: "gives P m \<Longrightarrow> (\<And>x. P x \<Longrightarrow> Q x) \<Longrightarrow> gives Q m"
  by (auto simp: gives_def)

lemma givesI: "(\<And>x. P x) \<Longrightarrow> gives P m"
  by (simp add: gives_def)

lemma givesD: "gives P m \<Longrightarrow> m = Some x \<Longrightarrow> P x"
  by (simp add: gives_def)

lemma gives_case: "(\<And>x y. gives P (f x y)) \<Longrightarrow> gives P (case_prod f p)"
  by (cases p) simp

section \<open>What the senders change\<close>

definition sent :: "('n, 'x) net_interface \<Rightarrow> ('n, 'x) net_interface \<Rightarrow> bool" where
  "sent s s' \<longleftrightarrow> (\<exists>ms. s' = s\<lparr>socketOut := socketOut s @ ms\<rparr>)"

lemma sent_refl: "sent s s"
  by (auto simp: sent_def intro: exI [of _ "[]"])

lemma sentD:
  "sent s s' \<Longrightarrow> connTable s' = connTable s \<and> object s' = object s \<and> mPendingConnections s' = mPendingConnections s \<and>
    mPuzzleManager s' = mPuzzleManager s \<and> nextObject s' = nextObject s \<and> mCurrentTime s' = mCurrentTime s"
  by (auto simp: sent_def)

lemma sendStream_sent: "sendStream out a s = Some s' \<Longrightarrow> sent s s'"
  by (auto simp: sendStream_def sent_def bind_eq_Some_conv)

lemma sendConnectReject_sent: "sendConnectReject e p a reason s = Some s' \<Longrightarrow> sent s s'"
  using sent_refl by (auto simp: sendConnectReject_def bind_eq_Some_conv dest: sendStream_sent split: option.splits)

lemma sendConnectAccept_sent: "sendConnectAccept typ e i s = Some s' \<Longrightarrow> sent s s'"
  by (auto simp: sendConnectAccept_def Let_def bind_eq_Some_conv dest: sendStream_sent)

lemma sendDisconnect_sent: "sendDisconnect e i text s = Some s' \<Longrightarrow> sent s s'"
  by (auto simp: sendDisconnect_def Let_def bind_eq_Some_conv dest: sendStream_sent)

section \<open>The table\<close>

abbreviation conns :: "('n, 'x) net_interface \<Rightarrow> conn_id list" where
  "conns s \<equiv> mConnectionList (connTable s)"

lemma eraseFast_set: "set (eraseFast k xs) \<subseteq> set xs"
proof
  fix x assume "x \<in> set (eraseFast k xs)"
  then have "x \<in> set (if k \<noteq> length xs - 1 then xs[k := last xs] else xs)" unfolding eraseFast_def by (rule in_set_butlastD)
  moreover have "x = last xs \<and> xs \<noteq> [] \<Longrightarrow> x \<in> set xs" by simp
  ultimately show "x \<in> set xs" using set_update_subset_insert [of xs k "last xs"] by (cases "xs = []") (auto split: if_splits)
qed

lemma removeConnection_set: "removeConnection addrOf i t = Some t' \<Longrightarrow> set (mConnectionList t') \<subseteq> set (mConnectionList t)"
  using eraseFast_set by (fastforce simp: removeConnection_def Let_def bind_eq_Some_conv split: option.splits)

lemma addConnection_set: "addConnection addrOf i t = Some t' \<Longrightarrow> mConnectionList t' = mConnectionList t @ [i]"
  by (auto simp: addConnection_def Let_def bind_eq_Some_conv)

lemma disconnect_set: "disconnect typ e i reason text s = Some s' \<Longrightarrow> set (conns s') \<subseteq> set (conns s) \<and> mPuzzleManager s' = mPuzzleManager s"
  by (auto simp: disconnect_def callback_def removePendingConnection_def setConnectionState_def if_removeConnection_def bind_eq_Some_conv
      dest!: sendDisconnect_sent sentD removeConnection_set split: if_splits)

lemma enterConnection_conns: "enterConnection typ e i s = Some s' \<Longrightarrow> connTable s' = connTable s \<and> mPuzzleManager s' = mPuzzleManager s"
  by (auto simp: enterConnection_def callback_def setConnectionState_def bind_eq_Some_conv dest!: sendConnectAccept_sent sentD)

lemma makeConnection_conns:
  "gives (\<lambda>s'. set (conns s') \<subseteq> insert (nextObject s) (set (conns s)) \<and> mPuzzleManager s' = mPuzzleManager s) (makeConnection typ e a q p stream conn s)"
proof -
  have r: "gives (\<lambda>s'. set (conns s') \<subseteq> insert (nextObject s) (set (conns s)) \<and> mPuzzleManager s' = mPuzzleManager s)
    (sendConnectReject e p a t (on_object i (\<lambda>_. c) (s\<lparr>nextObject := nextObject s + 1\<rparr>)))" for t i c
    by (auto simp: gives_def dest!: sendConnectReject_sent sentD)
  have a: "gives (\<lambda>s'. set (conns s') \<subseteq> insert (nextObject s) (set (conns s)) \<and> mPuzzleManager s' = mPuzzleManager s)
    (Option.bind (if_addConnection (nextObject s) (on_object i (\<lambda>_. c) (s\<lparr>nextObject := nextObject s + 1\<rparr>))) (enterConnection typ e i))" for i c
    by (auto simp: gives_def if_addConnection_def bind_eq_Some_conv dest!: enterConnection_conns addConnection_set)
  show ?thesis unfolding makeConnection_def Let_def
    by (rule gives_skip, rule gives_skip, (rule gives_case)+, split sum.split, intro conjI allI impI r a)
qed

lemma acceptRequest_conns:
  "gives (\<lambda>s'. mPuzzleManager s' = mPuzzleManager s) (acceptRequest ops typ e a stream p connect s)"
proof -
  let ?P = "\<lambda>s'. mPuzzleManager s' = mPuzzleManager s"
  have d: "gives ?P (case connect of None \<Rightarrow> Some s1 | Some j \<Rightarrow> disconnect typ e j ReasonSelfDisconnect t s1)" if "?P s1" for s1 t
    using that by (auto simp: gives_def dest!: disconnect_set split: option.splits)
  have m: "gives ?P (case createConnection e n of None \<Rightarrow> Some s1 | Some conn \<Rightarrow> makeConnection typ e a q p str conn s1)" if "?P s1" for s1 n q p str
    using that by (auto split: option.splits intro!: gives_mono [OF makeConnection_conns])
  have k: "gives (\<lambda>(ok, _, _, s1). ?P s1) (if \<not> keyed then Some (True, str, p, s) else case mInterfaceKey s of None \<Rightarrow> Some (False, str, p, s)
      | Some own \<Rightarrow> map_option (\<lambda>(ok, stream, p, buffer). (ok, stream, p, s\<lparr>mStaticCryptoBuffer := buffer\<rparr>))
          (readClientKey ops e own str p (mStaticCryptoBuffer s)))" for keyed str
    by (auto split: option.splits intro: givesI)
  have rest: "gives ?P (do {
       (debugSizes, stream) \<leftarrow> readFlag str;
       (connectSequence, stream) \<leftarrow> read_u32 w stream;
       s \<leftarrow> (case connect of None \<Rightarrow> Some s1 | Some j \<Rightarrow> disconnect typ e j ReasonSelfDisconnect t s1);
       (connectionClass, stream) \<leftarrow> readString T chars stream;
       case createConnection e (cstring connectionClass) of None \<Rightarrow> Some s
       | Some conn \<Rightarrow> makeConnection typ e a connectSequence (p\<lparr>mDebugObjectSizes := debugSizes\<rparr>) stream conn s })" if "?P s1" for s1 str p t w T chars
    by (rule gives_skip, rule gives_case, rule gives_skip, rule gives_case, rule gives_bind [OF d [OF that]], rule gives_skip, rule gives_case, erule m)
  show ?thesis unfolding acceptRequest_def Let_def
    by (rule gives_skip, rule gives_case, rule gives_bind [OF k]) (auto simp: rest split: prod.split)
qed

section \<open>A connection costs its work\<close>

lemma token_is_sha256:
  "length (hashState0 e) = 64 \<Longrightarrow>
    computeClientIdentityToken e a n s = le_value (take 4 (sha256 (addressBytes a @ n @ mRandomHashData s)))"
  using sha256_pieces [of "raw_state (hashState0 e)" "[addressBytes a, n, mRandomHashData s]"]
  by (simp add: computeClientIdentityToken_def sha256_process_def raw_state_def Let_def)

text \<open>The five fields at the head of a request.\<close>

definition request_head :: "('n, 'x) iface_env \<Rightarrow> bit_stream \<Rightarrow> (nonce \<times> nonce \<times> u32 \<times> u32 \<times> u32) option" where
  "request_head e stream = do {
     (clientNonce, stream) \<leftarrow> readNonce (mNonce (unsetParams e)) stream;
     (serverNonce, stream) \<leftarrow> readNonce (mServerNonce (unsetParams e)) stream;
     (identity, stream) \<leftarrow> read_u32 (mClientIdentity (unsetParams e)) stream;
     (difficulty, stream) \<leftarrow> read_u32 (mPuzzleDifficulty (unsetParams e)) stream;
     (solution, stream) \<leftarrow> read_u32 (mPuzzleSolution (unsetParams e)) stream;
     Some (clientNonce, serverNonce, identity, difficulty, solution) }"

lemma request_cases:
  assumes "handleConnectRequest ops typ e a stream s = Some s'"
  obtains (ignored) "s' = s"
  | (answered) j where "sendConnectAccept typ e j s = Some s'"
  | (checked) cn sn ident d v result puzzles where "mAllowConnections s" "request_head e stream = Some (cn, sn, ident, d, v)"
      "ident = computeClientIdentityToken e a cn s" "checkSolution (hashState0 e) v cn sn d ident (mPuzzleManager s) = Some (result, puzzles)"
      "if result = Success then \<exists>str p connect. acceptRequest ops typ e a str p connect (s\<lparr>mPuzzleManager := puzzles\<rparr>) = Some s'
       else \<exists>p t. sendConnectReject e p a t (s\<lparr>mPuzzleManager := puzzles\<rparr>) = Some s'"
proof (cases "mAllowConnections s")
  case True
  let ?p = "ConnectionParameters_new (unsetParams e)"
  have p: "mNonce ?p = mNonce (unsetParams e)" "mServerNonce ?p = mServerNonce (unsetParams e)" "mClientIdentity ?p = mClientIdentity (unsetParams e)"
    "mPuzzleDifficulty ?p = mPuzzleDifficulty (unsetParams e)" "mPuzzleSolution ?p = mPuzzleSolution (unsetParams e)"
    by (simp_all add: ConnectionParameters_new_def)
  obtain cn s1 where 1: "readNonce (mNonce ?p) stream = Some (cn, s1)" using assms True by (auto simp: handleConnectRequest_def Let_def bind_eq_Some_conv)
  obtain sn s2 where 2: "readNonce (mServerNonce ?p) s1 = Some (sn, s2)" using assms True 1 by (auto simp: handleConnectRequest_def Let_def bind_eq_Some_conv)
  obtain ident s3 where 3: "read_u32 (mClientIdentity ?p) s2 = Some (ident, s3)" using assms True 1 2 by (auto simp: handleConnectRequest_def Let_def bind_eq_Some_conv)
  show ?thesis
  proof (cases "ident = computeClientIdentityToken e a cn s")
    case tok: True
    obtain d s4 where 4: "read_u32 (mPuzzleDifficulty ?p) s3 = Some (d, s4)"
      using assms True 1 2 3 tok by (auto simp: handleConnectRequest_def Let_def bind_eq_Some_conv)
    obtain v s5 where 5: "read_u32 (mPuzzleSolution ?p) s4 = Some (v, s5)"
      using assms True 1 2 3 4 tok by (auto simp: handleConnectRequest_def Let_def bind_eq_Some_conv)
    obtain connect where 6: "findConnection (addresses s) a (connTable s) = Some connect"
      using assms True 1 2 3 4 5 tok by (auto simp: handleConnectRequest_def Let_def bind_eq_Some_conv)
    show ?thesis
    proof (cases "case connect of None \<Rightarrow> None | Some j \<Rightarrow> if mNonce (params s j) = cn \<and> mServerNonce (params s j) = sn then Some j else None")
      case None
      obtain result puzzles where 7: "checkSolution (hashState0 e) v cn sn d ident (mPuzzleManager s) = Some (result, puzzles)"
        using assms True 1 2 3 4 5 6 tok None
        by (cases "checkSolution (hashState0 e) v cn sn d ident (mPuzzleManager s)") (auto simp: handleConnectRequest_def Let_def)
      show ?thesis
      proof (rule checked [OF True _ tok 7])
        show "request_head e stream = Some (cn, sn, ident, d, v)" using 1 2 3 4 5 by (simp add: request_head_def p)
        show "if result = Success then \<exists>str p connect. acceptRequest ops typ e a str p connect (s\<lparr>mPuzzleManager := puzzles\<rparr>) = Some s'
          else \<exists>p t. sendConnectReject e p a t (s\<lparr>mPuzzleManager := puzzles\<rparr>) = Some s'"
          using assms True 1 2 3 4 5 6 7 tok None by (cases "result = Success") (simp_all add: handleConnectRequest_def Let_def, blast+)
      qed
    next
      case (Some j)
      then show ?thesis using assms True 1 2 3 4 5 6 tok by (intro answered [of j]) (simp add: handleConnectRequest_def Let_def)
    qed
  next
    case False
    then show ?thesis using assms True 1 2 3 by (intro ignored) (simp add: handleConnectRequest_def Let_def)
  qed
qed (use assms in \<open>auto simp: handleConnectRequest_def\<close>)

section \<open>Without the nonces nothing happens\<close>

text \<open>The two nonces at the head of a packet.\<close>

definition two_nonces :: "('n, 'x) iface_env \<Rightarrow> bit_stream \<Rightarrow> (nonce \<times> nonce) option" where
  "two_nonces e stream = do {
     (nonce, stream) \<leftarrow> readNonce (unsetNonce e) stream;
     (serverNonce, stream) \<leftarrow> readNonce (unsetNonce e) stream;
     Some (nonce, serverNonce) }"

section \<open>The key exchange that an interface requires\<close>

abbreviation require :: "bool \<Rightarrow> ('n, 'x) net_interface \<Rightarrow> ('n, 'x) net_interface" where
  "require b s \<equiv> s\<lparr>mRequiresKeyExchange := b\<rparr>"

lemma map_bind: "map_option f (Option.bind m g) = Option.bind m (\<lambda>x. map_option f (g x))"
  by (cases m) simp_all

lemma bind_map: "Option.bind (map_option f m) g = Option.bind m (\<lambda>x. g (f x))"
  by (cases m) simp_all

lemma if_map: "(if c then Some (f x) else map_option f m) = map_option f (if c then Some x else m)"
  by simp

lemma bind_same: "(\<And>x. f x = map_option k (g x)) \<Longrightarrow> Option.bind m f = map_option k (Option.bind m g)"
  by (cases m) simp_all

lemma bind_related: "m' = map_option h m \<Longrightarrow> (\<And>x. f (h x) = map_option k (g x)) \<Longrightarrow> Option.bind m' f = map_option k (Option.bind m g)"
  by (cases m) simp_all

lemma case_same: "(\<And>x y. f x y = map_option k (g x y)) \<Longrightarrow> case_prod f p = map_option k (case_prod g p)"
  by (cases p) simp

lemma if_same: "f1 = map_option k g1 \<Longrightarrow> f2 = map_option k g2 \<Longrightarrow> (if c then f1 else f2) = map_option k (if c then g1 else g2)"
  by simp

lemma option_same: "f1 = map_option k g1 \<Longrightarrow> (\<And>j. f2 j = map_option k (g2 j)) \<Longrightarrow>
    (case x of None \<Rightarrow> f1 | Some j \<Rightarrow> f2 j) = map_option k (case x of None \<Rightarrow> g1 | Some j \<Rightarrow> g2 j)"
  by (cases x) simp_all

named_theorems unread

lemma token_unread [unread]: "computeClientIdentityToken e a n (require b s) = computeClientIdentityToken e a n s"
  by (simp add: computeClientIdentityToken_def)

lemma sendStream_unread [unread]: "sendStream out a (require b s) = map_option (require b) (sendStream out a s)"
  by (cases s) (simp add: sendStream_def map_bind)

lemma callback_unread [unread]: "callback i f (require b s) = map_option (require b) (callback i f s)"
  by (cases s) (simp add: callback_def map_bind)

lemma state_unread [unread]: "setConnectionState q i (require b s) = require b (setConnectionState q i s)"
    "removePendingConnection i (require b s) = require b (removePendingConnection i s)"
  by (cases s; simp add: setConnectionState_def removePendingConnection_def)+

lemma table_unread [unread]: "if_addConnection i (require b s) = map_option (require b) (if_addConnection i s)"
    "if_removeConnection i (require b s) = map_option (require b) (if_removeConnection i s)"
  by (cases s; simp add: if_addConnection_def if_removeConnection_def map_bind)+

lemma senders_unread [unread]: "sendConnectReject e p a r (require b s) = map_option (require b) (sendConnectReject e p a r s)"
    "sendConnectAccept typ e i (require b s) = map_option (require b) (sendConnectAccept typ e i s)"
    "sendDisconnect e i t (require b s) = map_option (require b) (sendDisconnect e i t s)"
  by (simp_all add: sendConnectReject_def sendConnectAccept_def sendDisconnect_def map_bind unread Let_def cong: if_cong split: option.split)

lemma disconnect_unread [unread]: "disconnect typ e i reason t (require b s) = map_option (require b) (disconnect typ e i reason t s)"
  by (simp add: disconnect_def unread map_bind bind_map if_map cong: if_cong)

lemma enter_unread [unread]: "enterConnection typ e i (require b s) = map_option (require b) (enterConnection typ e i s)"
  by (simp add: enterConnection_def unread map_bind bind_map)

lemma fields_unread [unread]: "(require b s)\<lparr>mStaticCryptoBuffer := m\<rparr> = require b (s\<lparr>mStaticCryptoBuffer := m\<rparr>)"
    "(require b s)\<lparr>mPuzzleManager := q\<rparr> = require b (s\<lparr>mPuzzleManager := q\<rparr>)"
    "(require b s)\<lparr>object := f, nextObject := n\<rparr> = require b (s\<lparr>object := f, nextObject := n\<rparr>)"
    "(require b s)\<lparr>nextObject := n, object := f\<rparr> = require b (s\<lparr>nextObject := n, object := f\<rparr>)"
  by (cases s; simp)+

lemma make_unread [unread]: "makeConnection typ e a q p stream conn (require b s) = map_option (require b) (makeConnection typ e a q p stream conn s)"
  unfolding makeConnection_def Let_def
  by (rule bind_same, rule bind_same, (rule case_same)+) (simp add: unread map_bind bind_map split: sum.split)

lemma accept_unread [unread]:
  "acceptRequest ops typ e a stream p connect (require b s) = map_option (require b) (acceptRequest ops typ e a stream p connect s)"
proof -
  let ?R = "\<lambda>(ok :: bool, str :: bit_stream, p :: connection_parameters, s). (ok, str, p, require b s)"
  have d: "(case connect of None \<Rightarrow> Some (require b s) | Some j \<Rightarrow> disconnect typ e j ReasonSelfDisconnect t (require b s)) =
      map_option (require b) (case connect of None \<Rightarrow> Some s | Some j \<Rightarrow> disconnect typ e j ReasonSelfDisconnect t s)" for t s
    by (simp add: unread split: option.split)
  have k: "(if \<not> keyed then Some (True, str, p, require b s) else case mInterfaceKey (require b s) of None \<Rightarrow> Some (False, str, p, require b s)
      | Some own \<Rightarrow> map_option (\<lambda>(ok, stream, p, buffer). (ok, stream, p, (require b s)\<lparr>mStaticCryptoBuffer := buffer\<rparr>))
          (readClientKey ops e own str p (mStaticCryptoBuffer (require b s)))) =
    map_option ?R (if \<not> keyed then Some (True, str, p, s) else case mInterfaceKey s of None \<Rightarrow> Some (False, str, p, s)
      | Some own \<Rightarrow> map_option (\<lambda>(ok, stream, p, buffer). (ok, stream, p, s\<lparr>mStaticCryptoBuffer := buffer\<rparr>))
          (readClientKey ops e own str p (mStaticCryptoBuffer s)))" for keyed str
    by (simp add: unread option.map_comp o_def case_prod_unfold split: option.split)
  have rest: "Option.bind (readFlag str) (\<lambda>(debugSizes, stream). Option.bind (read_u32 w stream) (\<lambda>(q, stream).
      Option.bind (case connect of None \<Rightarrow> Some (require b s1) | Some j \<Rightarrow> disconnect typ e j ReasonSelfDisconnect t (require b s1)) (\<lambda>s.
      Option.bind (readString T chars stream) (\<lambda>(connectionClass, stream).
      case createConnection e (cstring connectionClass) of None \<Rightarrow> Some s
      | Some conn \<Rightarrow> makeConnection typ e a q (p\<lparr>mDebugObjectSizes := debugSizes\<rparr>) stream conn s)))) =
    map_option (require b) (Option.bind (readFlag str) (\<lambda>(debugSizes, stream). Option.bind (read_u32 w stream) (\<lambda>(q, stream).
      Option.bind (case connect of None \<Rightarrow> Some s1 | Some j \<Rightarrow> disconnect typ e j ReasonSelfDisconnect t s1) (\<lambda>s.
      Option.bind (readString T chars stream) (\<lambda>(connectionClass, stream).
      case createConnection e (cstring connectionClass) of None \<Rightarrow> Some s
      | Some conn \<Rightarrow> makeConnection typ e a q (p\<lparr>mDebugObjectSizes := debugSizes\<rparr>) stream conn s)))))" for str w s1 t T chars p
    by (rule bind_same, rule case_same, rule bind_same, rule case_same, rule bind_related [OF d], rule bind_same, rule case_same)
      (simp add: unread split: option.split)
  show ?thesis unfolding acceptRequest_def Let_def
    by (rule bind_same, rule case_same, rule bind_related [OF k]) (auto simp: rest [unfolded Let_def] split: prod.split)
qed

text \<open>
  C34: an interface answers a connect request in the same way whether or not it requires a key exchange: the flag is consulted only for the challenge
  response, so a client that ignores the key it was sent is connected without encryption.
\<close>

theorem key_exchange_not_enforced:
  "handleConnectRequest ops typ e a stream (s\<lparr>mRequiresKeyExchange := b\<rparr>) =
    map_option (\<lambda>s'. s'\<lparr>mRequiresKeyExchange := b\<rparr>) (handleConnectRequest ops typ e a stream s)"
proof -
  have f: "mAllowConnections (require b s) = mAllowConnections s" "object (require b s) = object s"
    "connTable (require b s) = connTable s" "mPuzzleManager (require b s) = mPuzzleManager s" by simp_all
  show ?thesis unfolding handleConnectRequest_def Let_def f unread
    by (intro if_same bind_same case_same option_same refl) simp_all
qed

end
