(* ===== verification/Key_Exchange.thy ===== *)
theory Key_Exchange
  imports Interface_Safety Remote_Calls Sample_Connection
begin

text \<open>
  Keys and certificates on their way through packets: a buffer read from a stream is the one written, a certificate that an authority signs is
  valid where it is read, and a client's key of another size than the server's stops the server.
\<close>

section \<open>Whole packets\<close>

text \<open>The bytes of a packet that was written bit by bit.\<close>

definition packet_of :: "packet_env \<Rightarrow> bool list \<Rightarrow> mem" where
  "packet_of e xs = (let bs = append_bits xs (PacketStream_new e MaxPacketDataSize) in take (unat (getBytePosition bs)) (mDataPtr bs))"

definition fits_packet :: "bool list \<Rightarrow> bool" where
  "fits_packet xs \<longleftrightarrow> 24 \<le> length xs \<and> length xs \<le> 11952"

lemma packet_written:
  assumes "length (packetBlock e) = 1500" and "fits_packet xs"
  shows "packet_with xs (append_bits xs (PacketStream_new e MaxPacketDataSize))"
proof -
  have "(append_bits xs (PacketStream_new e MaxPacketDataSize))\<lparr>mStringTableSet := False\<rparr> = append_bits xs (PacketStream_new e MaxPacketDataSize)"
    by (simp add: append_bits_def PacketStream_new_def BitStream_new_def reset_def setMaxSizes_def)
  then show ?thesis using append_packet_with [of e MaxPacketDataSize xs False] assms by (simp add: fits_packet_def MaxPacketDataSize_def)
qed

lemma packet_arrives:
  assumes "length (packetBlock e) = 1500" "length (packetBlock e') = 1500" and "fits_packet xs"
  shows "reads (PacketStream_recvfrom e' (packet_of e xs)) xs"
  using clear_arrives [OF packet_written [OF assms(1,3)] assms(2)] by (simp add: reads_def packet_of_def Let_def)

lemma packet_sent:
  assumes "length (packetBlock e) = 1500" and "fits_packet xs"
  shows "sendStream (append_bits xs (PacketStream_new e MaxPacketDataSize)) a s = Some (s\<lparr>socketOut := socketOut s @ [(a, packet_of e xs)]\<rparr>)"
proof -
  let ?bs = "append_bits xs (PacketStream_new e MaxPacketDataSize)"
  have w: "packet_with xs ?bs" by (rule packet_written [OF assms])
  then have "unat (getBytePosition ?bs) = (length xs + 7) div 8" using bytes_of_bits [of ?bs "length xs"] by (simp add: packet_with_def)
  then have "unat (getBytePosition ?bs) \<le> length (mDataPtr ?bs)" using w ceil_bounds [of "length xs"] by (simp add: packet_with_def)
  then show ?thesis by (simp add: sendStream_def rd_def packet_of_def Let_def)
qed

section \<open>Buffers in a stream\<close>

lemma unat_length: "length d \<le> 1023 \<Longrightarrow> unat (of_nat (length d) :: u32) = length d"
  by (simp add: unat_of_nat take_bit_nat_eq_self)

lemma readBuffer_takes:
  assumes d: "length d \<le> 1023" and r: "reads bs (data_bits d)"
  shows "\<exists>b. readBuffer (ByteBuffer_alloc fresh n) bs = Some (True, b, skip_bits (length (data_bits d)) bs) \<and>
    unat (mBufSize b) = length d \<and> take (length d) (mDataPtr b) = d \<and> contents b = d \<and> max (length d) (unat n) = length (mDataPtr b)"
proof -
  let ?n = "of_nat (length d) :: u32"
  note u = unat_length [OF d]
  note s = reads_append [OF r [unfolded data_bits_def]]
  have 1: "readInt 10 bs = Some (?n, skip_bits 10 bs)"
    using size_takes [of 10 ?n] s d by (simp add: takes_def small_take_bit)
  obtain m where m: "readBytes ?n (skip_bits 10 bs) = Some (True, m, skip_bits (8 * length d) (skip_bits 10 bs))"
      "length m = length d" "get_bits m 0 (8 * length d) = get_bits d 0 (8 * length d)"
    using bytes_take [of "length d" "skip_bits 10 bs" "get_bits d 0 (8 * length d)"] s d by auto
  have md: "m = d" using m(2,3) by (intro get_bits_inj) simp_all
  define b where "b = snd (resize ?n (ByteBuffer_alloc fresh n))"
  have b: "length (mDataPtr b) = max (length d) (unat n)" "mBufSize b = ?n" "mOwnsMemory (ByteBuffer_alloc fresh n)"
    using u by (auto simp: b_def resize_def ByteBuffer_alloc_def word_le_nat_alt max_def)
  have "memcpy (mDataPtr b) 0 d = Some (d @ drop (length d) (mDataPtr b))" using b(1) by (simp add: memcpy_eq)
  then have "readBuffer (ByteBuffer_alloc fresh n) bs = Some (True, b\<lparr>mDataPtr := d @ drop (length d) (mDataPtr b)\<rparr>, skip_bits (length (data_bits d)) bs)"
    using 1 m(1) md b(3) by (simp add: readBuffer_def takeOwnership_def Let_def b_def skip_bits_skip)
  moreover have "length (d @ drop (length d) (mDataPtr b)) = max (length d) (unat n)" using b(1) by simp
  ultimately show ?thesis using b u by (auto simp: contents_def)
qed

lemma readInto_takes: "length d \<le> 1023 \<Longrightarrow> reads bs (data_bits d) \<Longrightarrow> readInto fresh bs = Some (d, skip_bits (length (data_bits d)) bs)"
  using readBuffer_takes [of d bs fresh 0] by (auto simp: readInto_def)

text \<open>The key that \<open>load\<close> makes of some bytes; it looks at nothing behind them.\<close>

lemma load_prefix:
  assumes "take (unat (mBufSize b)) (mDataPtr b) = d" and "unat (mBufSize b) = length d" and "5 \<le> length d"
  shows "AsymmetricKey_load ops b raw buffer = AsymmetricKey_load ops (ByteBuffer_wrap fresh d (mBufSize b)) raw buffer"
proof -
  have l: "length d \<le> length (mDataPtr b)" using assms(1,2) by (metis length_take min.cobounded1)
  have nth: "mDataPtr b ! k = d ! k" if "k < length d" for k using assms that by (metis nth_take)
  have "0 < length d" "0 < length (mDataPtr b)" using l assms(3) by linarith+
  then have "ld (mDataPtr b) 0 = ld d 0" "readU32FromBuffer (drop 1 (mDataPtr b)) = readU32FromBuffer (drop 1 d)"
    using l assms(3) nth by (simp_all add: readU32FromBuffer_def ld_in)
  moreover have "slice (mDataPtr b) 5 (unat (mBufSize b) - 5) = slice d 5 (unat (mBufSize b) - 5)"
    using l assms by (simp add: slice_def take_drop)
  ultimately have eqs: "ld (mDataPtr b) 0 = ld d 0" "readU32FromBuffer (drop 1 (mDataPtr b)) = readU32FromBuffer (drop 1 d)"
    "slice (mDataPtr b) 5 (unat (mBufSize b) - 5) = slice d 5 (unat (mBufSize b) - 5)" by simp_all
  let ?w = "ByteBuffer_wrap fresh d (mBufSize b)"
  have w: "mDataPtr ?w = d" "mBufSize ?w = mBufSize b" "contents ?w = d" "contents b = d"
    using assms by (simp_all add: contents_def ByteBuffer_wrap_def)
  show ?thesis unfolding AsymmetricKey_load_def w eqs ..
qed

lemma key_read:
  assumes d: "5 \<le> length d" "length d \<le> 1023" and r: "reads bs (data_bits d)"
  shows "AsymmetricKey_read ops raw buffer bs = do {
     (key, buffer) \<leftarrow> AsymmetricKey_load ops (ByteBuffer_wrap fresh d (of_nat (length d))) raw buffer;
     Some (key, buffer, skip_bits (length (data_bits d)) bs) }"
proof -
  obtain b where b: "readBuffer (ByteBuffer_alloc (mFresh bs) DefaultBufferSize) bs = Some (True, b, skip_bits (length (data_bits d)) bs)"
      "unat (mBufSize b) = length d" "take (length d) (mDataPtr b) = d"
    using readBuffer_takes [OF d(2) r] by blast
  have "mBufSize b = of_nat (length d)" using b(2) unat_length [OF d(2)] by (simp add: word_unat_eq_iff)
  then show ?thesis using b load_prefix [of b d ops raw buffer fresh] d(1) by (simp add: AsymmetricKey_read_def)
qed

section \<open>A key of another size\<close>

lemma load_size:
  assumes "readU32FromBuffer (drop 1 d) = Some ks" and "5 \<le> length d" and "length d \<le> 1023"
  shows "\<exists>key buffer'. AsymmetricKey_load ops (ByteBuffer_wrap fresh d (of_nat (length d))) raw buffer = Some (key, buffer') \<and> mKeySize key = ks"
proof -
  have n: "0 < length d" using assms(2) by linarith
  have u: "unat (of_nat (length d) :: u32) = length d" using unat_length [OF assms(3)] .
  have "slice d 5 (length d - 5) = Some (drop 5 d)" using assms(2) by (simp add: slice_def)
  then show ?thesis using assms n u
    by (auto simp: AsymmetricKey_load_def ByteBuffer_wrap_def ld_in Let_def exportHalf_def split: option.splits)
qed

definition sample_key :: asymmetric_key where
  "sample_key = \<lparr>mKeyData = Some [16, 0, 0, 0], mKeySize = 16, mHasPrivateKey = True, publicHalf = Some [1, 0, 0, 0, 16, 16, 0, 0, 0],
     privateHalf = Some [0, 0, 0, 0, 16, 16, 0, 0, 0], mKeyIsValid = True\<rparr>"

definition sample_interface :: "(unit, unit) net_interface" where
  "sample_interface = \<lparr>connTable = conn_table_new, object = (\<lambda>_. sample_connection 5 0), nextObject = 0, mPendingConnections = [],
     mPuzzleManager = first_manager, mInterfaceKey = None, mInterfaceCertificate = None, mRequiresKeyExchange = False, mAllowConnections = True,
     mRandomHashData = [3, 1, 4, 1, 5, 9, 2, 6, 5, 3, 5, 8], mLastTimeoutCheckTime = 0, mCurrentTime = 1000, mSendPacketList = [],
     mStaticCryptoBuffer = replicate 2048 0xCC, socketOut = []\<rparr>"

section \<open>Certificates\<close>

lemma take_put_bits:
  assumes "8 * B + length ys \<le> 8 * length m"
  shows "take B (put_bits m (8 * B) ys) = take B m"
proof (rule mem_eqI)
  fix q assume "q < 8 * length (take B (put_bits m (8 * B) ys))"
  then have q: "q < 8 * B" by simp
  then have "bit_at (take B x) q = bit_at x q" for x by (simp add: bit_at_def)
  then show "bit_at (take B (put_bits m (8 * B) ys)) q = bit_at (take B m) q" using assms q by (simp add: bit_view)
qed simp

lemma certificate_written:
  assumes p: "length payload \<le> 512" and k: "publicHalf publicKey = Some k" "mKeyIsValid publicKey" "length k \<le> 1023"
    and ca: "mKeyData ca = Some sk" and e: "length (packetBlock e) = 1500"
    and sigs: "\<forall>h. length (ecc_sign_hash ops h sk) \<le> 1023 \<and> length payload + length k + length (ecc_sign_hash ops h sk) \<le> 1490"
  defines "xs \<equiv> data_bits payload @ data_bits k"
  defines "B \<equiv> (length xs + 7) div 8"
  shows "\<exists>bytes sig. Certificate_new ops payload publicKey ca (PacketStream_new e MaxPacketDataSize) =
      Some \<lparr>certBytes = bytes, mPayload = [], certKey = None, mSignature = sig, mSignatureByteSize = of_nat B, mCertIsValid = False\<rparr> \<and>
    length bytes = B + 2 + length sig \<and> get_bits bytes 0 (length xs) = xs \<and> get_bits bytes (8 * B) (10 + 8 * length sig) = data_bits sig \<and>
    sig = ecc_sign_hash ops (sha256 (take B bytes)) sk"
proof -
  let ?P = "PacketStream_new e MaxPacketDataSize"
  have P: "stream_ok ?P" "can_write ?P 12000" "bitNum ?P = 0" "length (mDataPtr ?P) = 1500" "mOwnsMemory ?P = False"
    using PacketStream_ok [OF e, of MaxPacketDataSize] by (simp_all add: MaxPacketDataSize_def)
  have lx: "length xs = 20 + 8 * length payload + 8 * length k" by (simp add: xs_def)
  have B: "length xs \<le> 8 * B" "B = length payload + length k + 3" by (simp_all add: B_def lx)
  have kl: "length payload + length k \<le> 1490" using sigs by (meson add_leD1)
  have w: "can_write ?P (length (data_bits payload) + length (data_bits k))" using kl by (intro can_write_mono [OF P(2)]) simp
  have 1: "writeData fr payload ?P = Some (append_bits (data_bits payload) ?P)" for fr
    using p can_write_mono [OF w] by (intro data_codec.write_appends) auto
  have 2: "writeData fr k (append_bits (data_bits payload) ?P) = Some (append_bits xs ?P)" for fr
    using k(3) can_write_append [OF w] append_bits_append [OF w] by (subst data_codec.write_appends) (auto simp: xs_def)
  define m1 where "m1 = put_bits (mDataPtr ?P) 0 xs"
  let ?o = "append_bits xs ?P"
  have o: "mDataPtr ?o = m1" "unat (bitNum ?o) = length xs" "mFresh ?o = mFresh ?P"
    using P kl unat_of_nat_u32 [of "length xs"] by (simp_all add: append_bits_def m1_def lx)
  have l1: "length m1 = 1500" using P by (simp add: m1_def)
  have u: "getBytePosition ?o = of_nat B" "unat (of_nat B :: u32) = B"
  proof -
    show b: "unat (of_nat B :: u32) = B" using kl B(2) by (intro unat_of_nat_u32) simp
    have "unat (getBytePosition ?o) = B" using bytes_of_bits [OF o(2)] kl by (simp add: B_def lx)
    then show "getBytePosition ?o = of_nat B" using b by (simp add: word_unat_eq_iff)
  qed
  define sig where "sig = ecc_sign_hash ops (sha256 (take B m1)) sk"
  have sl: "length sig \<le> 1023" "length payload + length k + length sig \<le> 1490" using sigs by (simp_all add: sig_def)
  let ?a = "setBytePosition (of_nat B) ?o"
  have up: "unat (push_bit 3 (of_nat B) :: u32) = 8 * B" using unat_push3 [of B] kl B(2) by simp
  have a: "unat (bitNum ?a) = 8 * B" "mDataPtr ?a = m1" "mFresh ?a = mFresh ?P" using o up by (simp_all add: setBytePosition_def)
  have w2: "can_write ?a (10 + 8 * length sig)"
    using P(1,2,5) a up l1 sl B(2) o by (auto simp: can_write_def stream_ok_def setBytePosition_def append_bits_def)
  have 3: "writeData fr sig ?a = Some (append_bits (data_bits sig) ?a)" for fr
    using sl(1) w2 by (intro data_codec.write_appends) auto
  let ?f = "append_bits (data_bits sig) ?a"
  define m2 where "m2 = put_bits m1 (8 * B) (data_bits sig)"
  have f: "mDataPtr ?f = m2" "unat (bitNum ?f) = 8 * B + 10 + 8 * length sig"
  proof -
    show "mDataPtr ?f = m2" using a by (simp add: append_bits_def m2_def)
    show "unat (bitNum ?f) = 8 * B + 10 + 8 * length sig"
      using a unat_plus_small [of "bitNum ?a" "10 + 8 * length sig"] sl B(2) by (simp add: append_bits_def)
  qed
  have l2: "length m2 = 1500" using l1 by (simp add: m2_def)
  have uf: "unat (getBytePosition ?f) = B + 2 + length sig" using bytes_of_bits [OF f(2)] sl B(2) by simp
  define bytes where "bytes = take (B + 2 + length sig) m2"
  have room: "8 * B + length (data_bits sig) \<le> 8 * length m1" using l1 sl B(2) by simp
  have lb: "length bytes = B + 2 + length sig" using l2 sl B(2) by (simp add: bytes_def)
  have tb: "take B bytes = take B m1" using take_put_bits [OF room] by (simp add: bytes_def m2_def min_def)
  have g: "get_bits bytes q n = get_bits m2 q n" if "q + n \<le> 8 * (B + 2 + length sig)" for q n
    using that l2 by (intro nth_equalityI) (auto simp: bytes_def bit_at_def)
  have "get_bits bytes 0 (length xs) = get_bits m1 0 (length xs)"
    using g [of 0 "length xs"] B(1) get_bits_put_after [of 0 "length xs" "8 * B" "data_bits sig" m1] room by (simp add: m2_def)
  also have "\<dots> = xs" using get_bits_put_bits [of 0 xs "mDataPtr ?P"] P(4) kl by (simp add: m1_def lx)
  finally have gx: "get_bits bytes 0 (length xs) = xs" .
  have gs: "get_bits bytes (8 * B) (10 + 8 * length sig) = data_bits sig"
    using g [of "8 * B" "10 + 8 * length sig"] get_bits_put_bits [of "8 * B" "data_bits sig" m1] room by (simp add: m2_def)
  have r1: "rd (mDataPtr ?a) (unat (of_nat B :: u32)) = Some (take B m1)" using a(2) u(2) l1 B(2) sl by (simp add: rd_def)
  have r2: "hashAndSign ops (take B m1) ca = Some sig" using ca by (simp add: hashAndSign_def sig_def)
  have r3: "rd (mDataPtr ?f) (unat (getBytePosition ?f)) = Some bytes" using f(1) uf l2 B(2) sl by (simp add: rd_def bytes_def)
  have "Certificate_new ops payload publicKey ca ?P =
      Some \<lparr>certBytes = bytes, mPayload = [], certKey = None, mSignature = sig, mSignatureByteSize = of_nat B, mCertIsValid = False\<rparr>"
    using p k(1,2) by (simp add: Certificate_new_def MaxPayloadSize_def 1 2 3 u(1) r1 r2 r3 Let_def)
  then show ?thesis using lb gx gs tb by (intro exI [of _ bytes] exI [of _ sig]) (simp add: sig_def)
qed

lemma certificate_parsed:
  assumes l: "length payload \<le> 512" "5 \<le> length k" "length k \<le> 1023" "length sig \<le> 1023"
    and key: "AsymmetricKey_load ops (ByteBuffer_wrap fresh k (of_nat (length k))) raw buffer = Some (key, buffer')" "mKeyIsValid key"
  defines "xs \<equiv> data_bits payload @ data_bits k"
  defines "B \<equiv> (length xs + 7) div 8"
  assumes bytes: "length bytes = B + 2 + length sig" "get_bits bytes 0 (length xs) = xs" "get_bits bytes (8 * B) (10 + 8 * length sig) = data_bits sig"
  shows "Certificate_parse ops raw strings (ByteBuffer_wrap fr bytes (of_nat (length bytes))) buffer =
    Some (\<lparr>certBytes = bytes, mPayload = payload, certKey = Some key, mSignature = sig, mSignatureByteSize = of_nat B, mCertIsValid = True\<rparr>, buffer')"
proof -
  have lx: "length xs = 20 + 8 * length payload + 8 * length k" by (simp add: xs_def)
  have B: "length xs \<le> 8 * B" "B = length payload + length k + 3" by (simp_all add: B_def lx)
  have u: "unat (of_nat (length bytes) :: u32) = length bytes" using bytes(1) B l by (intro unat_of_nat_u32) simp
  define q where "q = BitStream_new fr strings bytes (of_nat (length bytes)) (of_nat (length bytes))"
  have um: "unat (push_bit 3 (of_nat (length bytes)) :: u32) = 8 * length bytes" using bytes(1) B l by (intro unat_push3) simp
  have q: "mDataPtr q = bytes" "bitNum q = 0" "unat (maxReadBitNum q) = 8 * length bytes" "error q = False" "stream_ok q"
    using um by (simp_all add: q_def BitStream_new_def reset_def setMaxSizes_def stream_ok_def)
  have r: "reads q (data_bits payload @ data_bits k)"
    using q bytes B by (simp add: reads_def can_read_def next_bits_def xs_def [symmetric])
  have r1: "reads q (data_bits payload)" "reads (skip_bits (length (data_bits payload)) q) (data_bits k)" using reads_append [OF r] by simp_all
  let ?q1 = "skip_bits (length (data_bits payload)) q"
  let ?q2 = "skip_bits (length (data_bits k)) ?q1"
  have q2: "?q2 = skip_bits (length xs) q" by (simp add: skip_bits_skip xs_def)
  have b2: "unat (bitNum ?q2) = length xs" unfolding q2 using q(2) unat_of_nat_u32 [of "length xs"] l lx by (simp add: skip_bits_def)
  have g: "getBytePosition ?q2 = of_nat B" "unat (of_nat B :: u32) = B"
  proof -
    show b: "unat (of_nat B :: u32) = B" using B(2) l by (intro unat_of_nat_u32) simp
    have "unat (getBytePosition ?q2) = B" using bytes_of_bits [OF b2] l by (simp add: B_def lx)
    then show "getBytePosition ?q2 = of_nat B" using b by (simp add: word_unat_eq_iff)
  qed
  let ?q3 = "setBytePosition (of_nat B) ?q2"
  have up: "unat (push_bit 3 (of_nat B) :: u32) = 8 * B" using unat_push3 [of B] l B(2) by simp
  have q3: "unat (bitNum ?q3) = 8 * B" "mDataPtr ?q3 = bytes" "maxReadBitNum ?q3 = maxReadBitNum q" "error ?q3 = False"
    using up q by (simp_all add: setBytePosition_def skip_bits_def)
  have r3: "reads ?q3 (data_bits sig)"
    using q q3 bytes by (simp add: reads_def can_read_def next_bits_def stream_ok_def setBytePosition_def skip_bits_def)
  let ?q4 = "skip_bits (length (data_bits sig)) ?q3"
  have b4: "unat (bitNum ?q4) = 8 * B + 10 + 8 * length sig"
    using q3(1) unat_plus_small [of "bitNum ?q3" "10 + 8 * length sig"] l B(2) by (simp add: skip_bits_def)
  have "unat (getBytePosition ?q4) = length bytes" using bytes_of_bits [OF b4] l B(2) bytes(1) by simp
  then have g4: "getBytePosition ?q4 = of_nat (length bytes)" using u by (simp add: word_unat_eq_iff)
  have v: "isValid ?q4" using q3(4) by (simp add: isValid_def skip_bits_def setBytePosition_def)
  have l5: "length payload \<le> 1023" using l(1) by simp
  have k2: "AsymmetricKey_read ops raw buffer ?q1 = Some (key, buffer', ?q2)" using key_read [OF l(2,3) r1(2), of ops raw buffer fresh] key(1) by simp
  let ?w = "ByteBuffer_wrap fr bytes (of_nat (length bytes))"
  have w: "mFresh ?w = fr" "mDataPtr ?w = bytes" "mBufSize ?w = of_nat (length bytes)" "contents ?w = bytes"
    using u by (simp_all add: ByteBuffer_wrap_def contents_def)
  show ?thesis
    by (simp only: Certificate_parse_def Let_def w q_def [symmetric] readInto_takes [OF l5 r1(1)] bind.bind_lunit prod.case k2 g(1) readInto_takes [OF l(4) r3] g4 v key(2) simp_thms)
qed

text \<open>
  C12: a certificate that an authority makes for a payload and a key is valid where it is read, holds the payload and the key, and verifies under the
  authority's public key.
\<close>

theorem certificate_roundtrip:
  assumes p: "length payload \<le> 512" and k: "publicHalf publicKey = Some k" "mKeyIsValid publicKey" "5 \<le> length k" "length k \<le> 1023"
    and ca: "mKeyData ca = Some sk" "mKeyData authority = Some pk" and e: "length (packetBlock e) = 1500"
    and sigs: "\<forall>h. length (ecc_sign_hash ops h sk) \<le> 1023 \<and> length payload + length k + length (ecc_sign_hash ops h sk) \<le> 1490"
    and law: "\<forall>h. ecc_verify_hash ops (ecc_sign_hash ops h sk) h pk"
    and key: "AsymmetricKey_load ops (ByteBuffer_wrap fresh k (of_nat (length k))) raw buffer = Some (key, buffer')" "mKeyIsValid key"
  shows "\<exists>c c'. Certificate_new ops payload publicKey ca (PacketStream_new e MaxPacketDataSize) = Some c \<and>
    Certificate_parse ops raw strings (ByteBuffer_wrap fr (certBytes c) (of_nat (length (certBytes c)))) buffer = Some (c', buffer') \<and>
    mCertIsValid c' \<and> mPayload c' = payload \<and> certKey c' = Some key \<and> certBytes c' = certBytes c \<and> Certificate_validate ops authority c' = Some True"
proof -
  let ?B = "(length (data_bits payload @ data_bits k) + 7) div 8"
  obtain bytes sig where n: "Certificate_new ops payload publicKey ca (PacketStream_new e MaxPacketDataSize) =
      Some \<lparr>certBytes = bytes, mPayload = [], certKey = None, mSignature = sig, mSignatureByteSize = of_nat ?B, mCertIsValid = False\<rparr>"
    and b: "length bytes = ?B + 2 + length sig" "get_bits bytes 0 (length (data_bits payload @ data_bits k)) = data_bits payload @ data_bits k"
      "get_bits bytes (8 * ?B) (10 + 8 * length sig) = data_bits sig" "sig = ecc_sign_hash ops (sha256 (take ?B bytes)) sk"
    using certificate_written [OF p k(1,2,4) ca(1) e sigs] by blast
  have s: "length sig \<le> 1023" "length payload + length k + length sig \<le> 1490" using sigs b(4) by simp_all
  have u: "unat (of_nat ?B :: u32) = ?B" using s by (intro unat_of_nat_u32) simp
  note c' = certificate_parsed [OF p k(3,4) s(1) key b(1-3), of strings fr]
  have "rd bytes ?B = Some (take ?B bytes)" using b(1) by (simp add: rd_def)
  then have "Certificate_validate ops authority \<lparr>certBytes = bytes, mPayload = payload, certKey = Some key, mSignature = sig,
      mSignatureByteSize = of_nat ?B, mCertIsValid = True\<rparr> = Some True"
    using ca(2) law b(4) by (simp only: Certificate_validate_def certificate.simps u) (simp add: verifySignature_def)
  moreover define c where "c = \<lparr>certBytes = bytes, mPayload = [], certKey = None, mSignature = sig, mSignatureByteSize = of_nat ?B, mCertIsValid = False\<rparr>"
  moreover have "certBytes c = bytes" by (simp add: c_def)
  ultimately show ?thesis using n c' by (intro exI [of _ c] exI conjI) (simp_all only: certificate.simps)
qed

text \<open>A concrete stand-in for the curves: a key agrees with another by exclusive or, and signs by its bytes beside the hash.\<close>

definition xor_ecc :: ecc_ops where
  "xor_ecc = \<lparr>ecc_make_key = (\<lambda>n. Some (le_bytes 4 n)), ecc_import = Some, ecc_export = (\<lambda>_ k. Some k),
     ecc_shared_secret = (\<lambda>a b. Some (map2 (XOR) a b)), ecc_sign_hash = (\<lambda>h k. take 32 h @ take 40 k),
     ecc_verify_hash = (\<lambda>sig h k. sig = take 32 h @ take 40 k)\<rparr>"

lemma sample_key_loads: "AsymmetricKey_load xor_ecc (ByteBuffer_wrap (\<lambda>_. 0) [1, 0, 0, 0, 16, 16, 0, 0, 0] (of_nat (length [1, 0, 0, 0, 16, 16, 0, 0, 0 :: u8])))
    raw buffer = Some (raw\<lparr>mKeyIsValid := True, mHasPrivateKey := False, publicHalf := Some [1, 0, 0, 0, 16, 16, 0, 0, 0], privateHalf := None,
      mKeySize := 16, mKeyData := Some [16, 0, 0, 0]\<rparr>, buffer)"
  by (cases raw) (simp add: AsymmetricKey_load_def ByteBuffer_wrap_def ld_def readU32FromBuffer_def slice_def KeyTypePrivate_def xor_ecc_def contents_def)

lemma certificate_roundtrip_witness:
  "\<exists>c c'. Certificate_new xor_ecc [65, 66] sample_key sample_key (PacketStream_new sample_env MaxPacketDataSize) = Some c \<and>
    Certificate_parse xor_ecc sample_key [] (ByteBuffer_wrap (\<lambda>_. 0) (certBytes c) (of_nat (length (certBytes c)))) [] = Some (c', []) \<and>
    mCertIsValid c' \<and> mPayload c' = [65, 66] \<and>
    certKey c' = Some (sample_key\<lparr>mKeyIsValid := True, mHasPrivateKey := False, publicHalf := Some [1, 0, 0, 0, 16, 16, 0, 0, 0], privateHalf := None,
      mKeySize := 16, mKeyData := Some [16, 0, 0, 0]\<rparr>) \<and>
    certBytes c' = certBytes c \<and> Certificate_validate xor_ecc sample_key c' = Some True"
  by (rule certificate_roundtrip [where sk = "[16, 0, 0, 0]" and pk = "[16, 0, 0, 0]", OF _ _ _ _ _ _ _ _ _ _ sample_key_loads]) (simp_all add: sample_key_def xor_ecc_def sample_env_def min_def)

section \<open>A private key that was loaded\<close>

lemma drop_bit_small: "v < 2 ^ 24 \<Longrightarrow> drop_bit 24 (v :: u32) = 0"
  unfolding word_unat_eq_iff unat_drop_bit_eq by (simp add: drop_bit_eq_div word_less_nat_alt)

text \<open>
  C35: a pair that was loaded from the bytes of its private half publishes a public half whose head is wrong: the size lies over the type, so a reader
  takes it for a private key of another size.
\<close>

theorem loaded_key_misannounced:
  assumes "AsymmetricKey_load ops theBuffer raw buffer = Some (key, buffer')" and "mKeyIsValid key" and "mHasPrivateKey key"
    and "5 \<le> length buffer" and "0 < mKeySize key" and "mKeySize key < 2 ^ 24"
  shows "\<exists>p announced. publicHalf key = Some p \<and> ld p 0 = Some KeyTypePrivate \<and>
    readU32FromBuffer (drop 1 p) = Some announced \<and> announced \<noteq> mKeySize key"
proof -
  obtain m where p: "publicHalf key = Some (writeU32ToBuffer (mKeySize key) @ buffer ! 4 # m)" using loaded_head [OF assms(1-4)] by blast
  have "ld (writeU32ToBuffer (mKeySize key) @ buffer ! 4 # m) 0 = Some KeyTypePrivate"
    using drop_bit_small [OF assms(6)] by (simp add: writeU32ToBuffer_def ld_def KeyTypePrivate_def)
  then show ?thesis using p word_shifted [of "mKeySize key" "buffer ! 4" m] shifted_size [OF assms(5,6)] by blast
qed

lemma loaded_key_misannounced_witness:
  "\<exists>p announced. Some [0, 0, 0, 16, 0xCC, 16, 0, 0, 0] = Some p \<and> ld p 0 = Some KeyTypePrivate \<and>
    readU32FromBuffer (drop 1 p) = Some announced \<and> announced \<noteq> 16"
proof -
  define key where "key = sample_key\<lparr>mHasPrivateKey := True, publicHalf := Some [0, 0, 0, 16, 0xCC, 16, 0, 0, 0],
     privateHalf := Some [0, 0, 0, 0, 16, 16, 0, 0, 0], mKeySize := 16, mKeyData := Some [16, 0, 0, 0], mKeyIsValid := True\<rparr>"
  let ?b = "[0xCC, 0xCC, 0xCC, 0xCC, 0xCC, 0xCC, 0xCC, 0xCC, 0xCC] :: mem" and ?w = "[0, 0, 0, 0, 16, 16, 0, 0, 0] :: mem"
  have r: "ld ?w 0 = Some KeyTypePrivate" "readU32FromBuffer (drop 1 ?w) = Some 16" "slice ?w 5 4 = Some [16, 0, 0, 0]" "take 9 ?w = ?w"
    by (simp_all add: ld_def readU32FromBuffer_def slice_def KeyTypePrivate_def)
  have p: "putAt 0 [1] ?b = [1, 0xCC, 0xCC, 0xCC, 0xCC, 0xCC, 0xCC, 0xCC, 0xCC]"
    "putAt 0 [0, 0, 0, 16] [1, 0xCC, 0xCC, 0xCC, 0xCC, 0xCC, 0xCC, 0xCC, 0xCC] = [0, 0, 0, 16, 0xCC, 0xCC, 0xCC, 0xCC, 0xCC]"
    "putAt 5 [16, 0, 0, 0] [0, 0, 0, 16, 0xCC, 0xCC, 0xCC, 0xCC, 0xCC] = [0, 0, 0, 16, 0xCC, 16, 0, 0, 0]"
    by (simp_all add: putAt_def)
  have w: "writeU32ToBuffer 16 = [0, 0, 0, 16]" by (simp add: writeU32ToBuffer_def)
  have "AsymmetricKey_load xor_ecc (ByteBuffer_wrap (\<lambda>_. 0) ?w 9) sample_key ?b = Some (key, [0, 0, 0, 16, 0xCC, 16, 0, 0, 0])"
    by (simp only: AsymmetricKey_load_def)
      (simp add: ByteBuffer_wrap_def r [simplified] w p KeyTypePublic_def xor_ecc_def contents_def exportHalf_def Let_def key_def sample_key_def)
  from loaded_key_misannounced [OF this] show ?thesis by (simp add: key_def)
qed

end
