(* ===== verification/Handshake_Codec.thy ===== *)
theory Handshake_Codec
  imports Key_Exchange
begin

text \<open>The packets of the handshake as bit strings: what each sender of \<open>Net_Interface\<close> writes into a fresh packet, and that a reader takes it back.\<close>

section \<open>A packet while it is written\<close>

definition written :: "packet_env \<Rightarrow> bool list \<Rightarrow> mem \<Rightarrow> bit_stream" where
  "written e xs sb = (append_bits xs (PacketStream_new e MaxPacketDataSize))\<lparr>mStringBuffer := sb\<rparr>"

definition env_ok :: "packet_env \<Rightarrow> bool" where
  "env_ok e \<longleftrightarrow> length (packetBlock e) = 1500 \<and> length (packetStrings e) = 256"

lemma fresh_room: "env_ok e \<Longrightarrow> can_write (PacketStream_new e MaxPacketDataSize) 12000"
  using PacketStream_ok(2) [of e MaxPacketDataSize] by (simp add: env_ok_def MaxPacketDataSize_def)

lemma written_room:
  assumes "env_ok e" and "length xs + n \<le> 12000"
  shows "can_write (written e xs sb) n"
proof -
  have "can_write (PacketStream_new e MaxPacketDataSize) (length xs + n)"
    by (rule can_write_mono [OF fresh_room [OF assms(1)] assms(2)])
  then show ?thesis by (simp add: written_def can_write_append)
qed

lemma written_append:
  assumes "env_ok e" and "length xs + length ys \<le> 12000"
  shows "append_bits ys (written e xs sb) = written e (xs @ ys) sb"
proof -
  have "can_write (PacketStream_new e MaxPacketDataSize) (length xs + length ys)"
    by (rule can_write_mono [OF fresh_room [OF assms(1)] assms(2)])
  then show ?thesis by (simp add: written_def append_stringBuffer append_bits_append)
qed

lemma written_by:
  "appends w ys \<Longrightarrow> env_ok e \<Longrightarrow> length xs + length ys \<le> 12000 \<Longrightarrow> w (written e xs sb) = Some (written e (xs @ ys) sb)"
  using written_append [of e xs ys sb] written_room [of e xs "length ys" sb] by (simp add: appends_def)

lemma flag_written: "env_ok e \<Longrightarrow> length xs < 12000 \<Longrightarrow> writeFlag v (written e xs sb) = Some (v, written e (xs @ [v]) sb)"
  using written_append [of e xs "[v]" sb] written_room [of e xs 1 sb] writeFlag_fits by simp

definition nonce_bits :: "nonce \<Rightarrow> bool list" where
  "nonce_bits n = get_bits n 0 64"

lemma length_nonce_bits [simp]: "length (nonce_bits n) = 64"
  by (simp add: nonce_bits_def)

lemma nonce_appends: "length n = NonceSize \<Longrightarrow> appends (writeNonce n) (nonce_bits n)"
  using bytes_append [of n] by (simp add: appends_def writeNonce_def nonce_bits_def NonceSize_def)

lemma nonce_takes: "length n = NonceSize \<Longrightarrow> takes (readNonce old) n (nonce_bits n)"
  unfolding takes_def
proof (intro allI impI)
  fix bs assume n: "length n = NonceSize" and r: "reads bs (nonce_bits n)"
  obtain m where m: "readBytes 8 bs = Some (True, m, skip_bits 64 bs)" "length m = 8" "get_bits m 0 64 = nonce_bits n"
    using bytes_take [OF _ r, of 8] by auto
  moreover have "m = n" using m n by (intro get_bits_inj) (simp_all add: nonce_bits_def NonceSize_def)
  ultimately show "readNonce old bs = Some (n, skip_bits (length (nonce_bits n)) bs)" by (simp add: readNonce_def NonceSize_def)
qed

definition no_text :: "packet_env \<Rightarrow> mem" where
  "no_text e = (packetStrings e)[0 := 0]"

lemma start_written: "env_ok (packetEnv e) \<Longrightarrow> startPacket e t = Some (written (packetEnv e) (int_bits 8 t) (no_text (packetEnv e)))"
proof -
  let ?P = "PacketStream_new (packetEnv e) MaxPacketDataSize"
  assume e: "env_ok (packetEnv e)"
  have "can_write ?P 12000" using PacketStream_ok(2) [of "packetEnv e" MaxPacketDataSize] e by (simp add: env_ok_def MaxPacketDataSize_def)
  then have "writeBytes 1 [t] ?P = Some (True, append_bits (get_bits [t] 0 8) ?P)"
    using writeBits_fits [of ?P 8 "[t]"] can_write_mono [of ?P 12000 8] by (simp add: writeBytes_def)
  moreover have "get_bits [t] 0 8 = int_bits 8 t" by (rule nth_equalityI) (auto simp: bit_at_def int_bits_def)
  moreover have "written (packetEnv e) xs (no_text (packetEnv e)) = append_bits xs ?P" for xs
    by (simp add: written_def no_text_def append_bits_def PacketStream_new_def BitStream_new_def reset_def setMaxSizes_def)
  ultimately show ?thesis by (simp add: startPacket_def)
qed

lemma send_written:
  assumes "env_ok e" and "fits_packet xs"
  shows "sendStream (written e xs sb) a s = Some (s\<lparr>socketOut := socketOut s @ [(a, packet_of e xs)]\<rparr>)"
  using packet_sent [of e xs a s] assms by (simp add: env_ok_def sendStream_def written_def getBytePosition_def)

text \<open>A first string in a packet has no prefix.\<close>

lemma no_prefix: "length sb = 256 \<Longrightarrow> sb ! 0 = 0 \<Longrightarrow> delta_bits leaves sb s = False # string_bits leaves s"
  by (simp add: delta_bits_def shared_def prefixLoop.simps [of 255 sb s 0] charAt_def)

lemma string_written:
  assumes "env_ok e" and "tables_ok T" and "length s \<le> 255" and "length xs + 1 + length (string_bits (snd T) s) \<le> 12000"
  shows "\<exists>sb. writeString T (Some s) 255 (written e xs (no_text e)) = Some (written e (xs @ False # string_bits (snd T) s) sb)"
proof -
  have sb: "mStringBuffer (written e xs (no_text e)) = no_text e" by (simp add: written_def)
  have l: "length (no_text e) = 256" "no_text e ! 0 = 0" using assms(1) by (simp_all add: no_text_def env_ok_def)
  have d: "delta_bits (snd T) (no_text e) s = False # string_bits (snd T) s" by (rule no_prefix [OF l])
  have "can_write (written e xs (no_text e)) (Suc (length (string_bits (snd T) s)))" using assms by (intro written_room) simp_all
  then have "writeString T (Some s) 255 (written e xs (no_text e)) =
      Some ((append_bits (False # string_bits (snd T) s) (written e xs (no_text e)))\<lparr>mStringBuffer := s @ replicate (256 - length s) 0\<rparr>)"
    using writeString_fits [OF assms(2), of "written e xs (no_text e)" s] assms(3) by (simp add: sb l d)
  also have "append_bits (False # string_bits (snd T) s) (written e xs (no_text e)) = written e (xs @ False # string_bits (snd T) s) (no_text e)"
    using assms by (intro written_append) simp_all
  finally show ?thesis by (auto simp: written_def)
qed

section \<open>A packet while it is read\<close>

lemma read_by: "takes r v ys \<Longrightarrow> reads q (ys @ zs) \<Longrightarrow> r q = Some (v, skip_bits (length ys) q) \<and> reads (skip_bits (length ys) q) zs"
  using reads_append by (auto simp: takes_def)

lemma string_read:
  assumes T: "tables_ok T" and s: "length s \<le> 255" "0 \<notin> set s" and buf: "length buf = 256"
    and q: "length (mStringBuffer q) = 256" "mStringBuffer q ! 0 = 0" and r: "reads q (False # string_bits (snd T) s @ zs)"
  shows "\<exists>buf' q'. readString T buf q = Some (buf', q') \<and> cstring buf' = s \<and> reads q' zs"
proof -
  have d: "delta_bits (snd T) (mStringBuffer q) s = False # string_bits (snd T) s" by (rule no_prefix [OF q])
  have s1: "reads q (delta_bits (snd T) (mStringBuffer q) s)" "reads (skip_bits (length (delta_bits (snd T) (mStringBuffer q) s)) q) zs"
    using reads_append [of q "False # string_bits (snd T) s" zs] r by (simp_all add: d)
  obtain buf' sb' where "readString T buf q = Some (buf', (skip_bits (length (delta_bits (snd T) (mStringBuffer q) s)) q)\<lparr>mStringBuffer := sb'\<rparr>)" "cstring buf' = s"
    using readString_fits [OF T s buf q(1) q(1) refl] s1(1) by (auto simp: reads_def)
  moreover have "reads (bs\<lparr>mStringBuffer := sb'\<rparr>) zs = reads bs zs" for bs by (simp add: reads_def)
  ultimately show ?thesis using s1(2) by auto
qed

text \<open>The first byte of a packet of the handshake is its type.\<close>

lemma packet_type:
  assumes "env_ok e" "env_ok e'" and "fits_packet (int_bits 8 t @ xs)" and "t < 0x80"
  defines "q \<equiv> PacketStream_recvfrom e' (packet_of e (int_bits 8 t @ xs))"
  shows "\<exists>b. ld (mDataPtr q) 0 = Some b \<and> b AND 0x80 = 0" and "readBytes 1 q = Some (True, [t], skip_bits 8 q)" and "reads (skip_bits 8 q) xs"
    and "length (mStringBuffer (skip_bits n q)) = 256" and "mStringBuffer (skip_bits n q) ! 0 = 0"
proof -
  have r: "reads q (int_bits 8 t @ xs)" unfolding q_def using assms by (intro packet_arrives) (simp_all add: env_ok_def)
  obtain m where m: "readBytes 1 q = Some (True, m, skip_bits 8 q)" "length m = 1" "get_bits m 0 8 = int_bits 8 t"
    using bytes_take [of 1 q "int_bits 8 t"] reads_append [OF r] by auto
  have "get_bits [t] 0 8 = int_bits 8 t" by (rule nth_equalityI) (auto simp: bit_at_def int_bits_def)
  then have "m = [t]" using m(2,3) by (intro get_bits_inj) simp_all
  then show "readBytes 1 q = Some (True, [t], skip_bits 8 q)" using m(1) by simp
  show "reads (skip_bits 8 q) xs" using reads_append [OF r] by simp
  have q0: "bitNum q = 0" by (simp add: q_def PacketStream_recvfrom_def Let_def reset_def)
  have l: "0 < length (mDataPtr q)" using r q0 by (auto simp: reads_def can_read_def stream_ok_def)
  have "mDataPtr q ! 0 = t"
  proof (rule bit_word_eqI)
    fix k assume "k < LENGTH(8)"
    then have k: "k < 8" by simp
    have "next_bits q 8 = int_bits 8 t" using reads_append [OF r] by (simp add: reads_def)
    then have "bit_at (mDataPtr q) k = bit t k" using k q0 by (auto simp: next_bits_def int_bits_def get_bits_def dest!: arg_cong [of _ _ "\<lambda>xs. xs ! k"])
    then show "bit (mDataPtr q ! 0) k = bit t k" using k by (simp add: bit_at_def)
  qed
  moreover have "t AND 0x80 = 0"
  proof (rule bit_word_eqI)
    fix k assume "k < LENGTH(8)"
    have "unat t < 2 ^ 7" using assms(4) by (simp add: word_less_nat_alt)
    then have "t div 128 = 0" by (simp add: word_unat_eq_iff unat_div)
    then have "\<not> bit t 7" by (simp add: bit_iff_odd)
    moreover have "bit (0x80 :: u8) k \<longleftrightarrow> k = 7"
      using \<open>k < LENGTH(8)\<close> bit_push_bit_iff [of 7 "1 :: u8" k] by (auto simp: bit_1_iff)
    ultimately show "bit (t AND 0x80) k = bit (0 :: u8) k" by (auto simp: bit_simps)
  qed
  ultimately show "\<exists>b. ld (mDataPtr q) 0 = Some b \<and> b AND 0x80 = 0" using l by (simp add: ld_in)
  show "length (mStringBuffer (skip_bits n q)) = 256" "mStringBuffer (skip_bits n q) ! 0 = 0"
    using assms(2) by (simp_all add: q_def env_ok_def skip_bits_def PacketStream_recvfrom_def PacketStream_new_def BitStream_new_def reset_def setMaxSizes_def
      setBuffer_def Let_def)
qed

end
