(* ===== verification/Handshake.thy ===== *)
theory Handshake
  imports Handshake_Codec
begin

text \<open>
  Two interfaces of \<open>Net_Interface\<close> set up a connection: the four packets of the handshake, each as the bits its sender writes and as what its
  receiver makes of it, and the whole of it. What the handshake needs of the virtual functions of a connection is the locale
  \<open>start_up\<close>.
\<close>

section \<open>The contract of a connection class\<close>

text \<open>What the virtual functions leave alone.\<close>

definition keeps :: "('n, 'x) net_connection \<Rightarrow> ('n, 'x) net_connection \<Rightarrow> bool" where
  "keeps c c' \<longleftrightarrow> mNetAddress c' = mNetAddress c \<and> mConnectionParameters c' = mConnectionParameters c \<and> mConnectionState c' = mConnectionState c \<and>
     mInitialSendSeq c' = mInitialSendSeq c \<and> mInitialRecvSeq c' = mInitialRecvSeq c \<and> mLastSeqRecvd c' = mLastSeqRecvd c"

lemma keeps_refl [simp]: "keeps c c"
  by (simp add: keeps_def)

locale start_up =
  fixes cls :: "('n, 'x) conn_type"
    and request :: "('n, 'x) net_connection \<Rightarrow> bool list"
    and accept :: "('n, 'x) net_connection \<Rightarrow> bool list"
  assumes same_name: "getClassName cls c = getClassName cls c'"
    and short: "length (request c) \<le> 8000" "length (accept c) \<le> 8000"
    and request_written: "appends (writeConnectRequest cls c) (request c)"
    and request_read: "reads bs (request c) \<Longrightarrow> \<exists>bs' c2. readConnectRequest cls c' bs = Some (Inr (), bs', c2) \<and> keeps c' c2"
    and accept_written: "appends (writeConnectAccept cls c) (accept c)"
    and accept_read: "reads bs (accept c) \<Longrightarrow> \<exists>bs' c2. readConnectAccept cls c' bs = Some (Inr (), bs', c2) \<and> keeps c' c2"
    and established: "\<exists>c2. onConnectionEstablished cls c = Some c2 \<and> keeps c c2"

section \<open>The packets\<close>

definition challenge_bits :: "connection_parameters \<Rightarrow> bool list" where
  "challenge_bits p = int_bits 8 ConnectChallengeRequest @ nonce_bits (mNonce p) @ [mRequestKeyExchange p, mRequestCertificate p]"

definition response_bits :: "nonce \<Rightarrow> u32 \<Rightarrow> nonce \<Rightarrow> u32 \<Rightarrow> bool list" where
  "response_bits clientNonce ident serverNonce difficulty = int_bits 8 ConnectChallengeResponse @ nonce_bits clientNonce @ int_bits 32 ident @
     nonce_bits serverNonce @ int_bits 32 difficulty @ [False]"

definition head_bits :: "connection_parameters \<Rightarrow> bool list" where
  "head_bits p = nonce_bits (mNonce p) @ nonce_bits (mServerNonce p) @ int_bits 32 (mClientIdentity p) @ int_bits 32 (mPuzzleDifficulty p) @
     int_bits 32 (mPuzzleSolution p)"

definition connect_request_bits :: "huff_leaf list \<Rightarrow> mem \<Rightarrow> connection_parameters \<Rightarrow> u32 \<Rightarrow> bool list \<Rightarrow> bool list" where
  "connect_request_bits leaves className p sequence xs = int_bits 8 ConnectRequest @ head_bits p @ False # mDebugObjectSizes p # int_bits 32 sequence @
     False # string_bits leaves className @ xs"

definition accept_bits :: "connection_parameters \<Rightarrow> u32 \<Rightarrow> bool list \<Rightarrow> bool list" where
  "accept_bits p sequence xs = int_bits 8 ConnectAccept @ nonce_bits (mNonce p) @ nonce_bits (mServerNonce p) @ int_bits 32 sequence @ xs"

definition posts :: "('n, 'x) net_interface \<Rightarrow> address \<Rightarrow> mem \<Rightarrow> ('n, 'x) net_interface" where
  "posts s a m = s\<lparr>socketOut := socketOut s @ [(a, m)]\<rparr>"

lemma length_string_bits: "length (string_bits leaves x) \<le> 9 + 8 * length x"
  by (auto simp: string_bits_def raw_bits_def)

lemma aligned:
  assumes "unat (bitNum q) = 8 * B" and "B < 2 ^ 26"
  shows "setBytePosition (getBytePosition q) q = q"
proof -
  have b: "unat (getBytePosition q) = B" using bytes_of_bits [OF assms(1)] assms(2) by simp
  have "getBytePosition q = of_nat (unat (getBytePosition q))" by simp
  then have "getBytePosition q = of_nat B" by (simp only: b)
  moreover have "push_bit 3 (of_nat B) = bitNum q" using unat_push3 [of B] assms by (simp add: word_unat_eq_iff)
  ultimately show ?thesis by (simp add: setBytePosition_def)
qed

lemma challenge_sent:
  assumes e: "env_ok (packetEnv e)" and n: "length (mNonce (params s i)) = NonceSize"
  shows "sendConnectChallengeRequest e i s = Some (posts (countSend i s) (addresses s i) (packet_of (packetEnv e) (challenge_bits (params s i))))"
  by (simp add: sendConnectChallengeRequest_def start_written [OF e] written_by [OF nonce_appends [OF n] e] flag_written [OF e] send_written [OF e]
      challenge_bits_def fits_packet_def posts_def)

lemma response_sent:
  assumes e: "env_ok (packetEnv e)" and n: "length cn = NonceSize" "length (mCurrentNonce (mPuzzleManager s)) = NonceSize"
    and k: "\<not> mRequiresKeyExchange s" "\<not> wantsKey"
  shows "sendConnectChallengeResponse e a cn wantsKey wantsCert s = Some (posts s a (packet_of (packetEnv e)
    (response_bits cn (computeClientIdentityToken e a cn s) (mCurrentNonce (mPuzzleManager s)) (mCurrentDifficulty (mPuzzleManager s)))))"
  using k by (simp add: sendConnectChallengeResponse_def start_written [OF e] written_by [OF nonce_appends e] n written_by [OF u32_appends e]
      flag_written [OF e] send_written [OF e] response_bits_def fits_packet_def posts_def)

context start_up
begin

lemma request_sent:
  assumes e: "env_ok (packetEnv e)" and T: "tables_ok (huffman e)" and c: "\<not> mUsingCrypto (params s i)"
    and name: "length (getClassName cls (object s i)) \<le> 255"
    and n: "length (mNonce (params s i)) = NonceSize" "length (mServerNonce (params s i)) = NonceSize"
  shows "sendConnectRequest cls e i s = Some (posts (countSend i s) (addresses s i) (packet_of (packetEnv e)
    (connect_request_bits (snd (huffman e)) (getClassName cls (object s i)) (params s i) (mInitialSendSeq (object s i)) (request (object s i)))))"
proof -
  let ?n = "getClassName cls (object s i)"
  note l = length_string_bits [of "snd (huffman e)" ?n] name short(1) [of "object s i"]
  let ?xs = "int_bits 8 ConnectRequest @ head_bits (params s i) @ [False, mDebugObjectSizes (params s i)] @ int_bits 32 (mInitialSendSeq (object s i))"
  have x: "length ?xs = 266" by (simp add: head_bits_def)
  obtain sb where sb: "writeString (huffman e) (Some ?n) 255 (written (packetEnv e) ?xs (no_text (packetEnv e))) =
      Some (written (packetEnv e) (?xs @ False # string_bits (snd (huffman e)) ?n) sb)"
    using string_written [OF e T name, of ?xs] l x by auto
  have f: "fits_packet (?xs @ False # string_bits (snd (huffman e)) ?n @ request (object s i))"
    unfolding fits_packet_def using l x by simp
  have w: "writeConnectRequest cls (object s i) (written (packetEnv e) (?xs @ False # string_bits (snd (huffman e)) ?n) sb) =
      Some (written (packetEnv e) (?xs @ False # string_bits (snd (huffman e)) ?n @ request (object s i)) sb)"
    using written_by [OF request_written e, of "?xs @ False # string_bits (snd (huffman e)) ?n" "object s i" sb] l x by simp
  show ?thesis using sb f w c
    by (simp add: sendConnectRequest_def start_written [OF e] written_by [OF nonce_appends e] n written_by [OF u32_appends e]
      flag_written [OF e] send_written [OF e] connect_request_bits_def head_bits_def posts_def countSend_def Let_def)
qed

lemma accept_sent:
  assumes e: "env_ok (packetEnv e)" and c: "\<not> mUsingCrypto (params s i)"
    and n: "length (mNonce (params s i)) = NonceSize" "length (mServerNonce (params s i)) = NonceSize"
  shows "sendConnectAccept cls e i s = Some (posts s (addresses s i) (packet_of (packetEnv e)
    (accept_bits (params s i) (mInitialSendSeq (object s i)) (accept (object s i)))))"
proof -
  note l = short(2) [of "object s i"]
  let ?xs = "int_bits 8 ConnectAccept @ nonce_bits (mNonce (params s i)) @ nonce_bits (mServerNonce (params s i))"
  let ?w = "written (packetEnv e) ?xs (no_text (packetEnv e))"
  have "unat (bitNum ?w) = 8 * 17"
    using PacketStream_ok(3) [of "packetEnv e" MaxPacketDataSize] e by (simp add: written_def append_bits_def env_ok_def MaxPacketDataSize_def)
  then have a: "setBytePosition (getBytePosition ?w) ?w = ?w" by (rule aligned) simp
  show ?thesis using a c l
    by (simp add: sendConnectAccept_def start_written [OF e] written_by [OF nonce_appends e] n written_by [OF u32_appends e]
      written_by [OF accept_written e] send_written [OF e] accept_bits_def posts_def Let_def fits_packet_def)
qed

end

section \<open>The packets arrive\<close>

text \<open>The stream of a packet received, after its first \<open>n\<close> bits.\<close>

definition from_bit :: "('n, 'x) iface_env \<Rightarrow> mem \<Rightarrow> nat \<Rightarrow> bit_stream" where
  "from_bit e m n = skip_bits n (PacketStream_recvfrom (packetEnv e) m)"

lemma nonce_at: "reads (from_bit e m k) (nonce_bits n @ xs) \<Longrightarrow> length n = NonceSize \<Longrightarrow>
    readNonce old (from_bit e m k) = Some (n, from_bit e m (k + 64)) \<and> reads (from_bit e m (k + 64)) xs"
  using read_by [OF nonce_takes [of n old], of "from_bit e m k" xs] by (simp add: from_bit_def skip_bits_skip)

lemma u32_at: "reads (from_bit e m k) (int_bits 32 v @ xs) \<Longrightarrow> read_u32 old (from_bit e m k) = Some (v, from_bit e m (k + 32)) \<and> reads (from_bit e m (k + 32)) xs"
  using read_by [OF u32_takes [of old v], of "from_bit e m k" xs] by (simp add: from_bit_def skip_bits_skip)

lemma flag_at: "reads (from_bit e m k) (v # xs) \<Longrightarrow> readFlag (from_bit e m k) = Some (v, from_bit e m (k + 1)) \<and> reads (from_bit e m (k + 1)) xs"
  using reads_flag [of "from_bit e m k" v xs] by (simp add: from_bit_def skip_bits_skip)

lemma dispatch:
  assumes "env_ok e" "env_ok (packetEnv e')" and "fits_packet (int_bits 8 t @ xs)" and "t < FirstValidInfoPacketId"
  defines "m \<equiv> packet_of e (int_bits 8 t @ xs)"
  shows "processPacket ops cls e' a (from_bit e' m 0) s =
     (if t = ConnectChallengeRequest then handleConnectChallengeRequest e' a (from_bit e' m 8) s
       else if t = ConnectChallengeResponse then handleConnectChallengeResponse ops cls e' a (from_bit e' m 8) s
       else if t = ConnectRequest then handleConnectRequest ops cls e' a (from_bit e' m 8) s
       else if t = ConnectReject then handleConnectReject cls e' a (from_bit e' m 8) s
       else if t = ConnectAccept then handleConnectAccept cls e' a (from_bit e' m 8) s
       else if t = DisconnectPacket then handleDisconnect cls e' a (from_bit e' m 8) s
       else if t = Punch then handlePunch ops cls e' a (from_bit e' m 8) s
       else handleArrangedConnectRequest ops cls e' a (from_bit e' m 8) s)" (is "_ = ?rest")
    and "reads (from_bit e' m 8) xs"
proof -
  have t: "t < 0x80" "\<not> FirstValidInfoPacketId \<le> t" using assms(4) by (simp_all add: FirstValidInfoPacketId_def word_less_nat_alt word_le_nat_alt)
  note p = packet_type [OF assms(1-3) t(1)]
  show "reads (from_bit e' m 8) xs" using p(3) by (simp add: from_bit_def m_def)
  obtain b where b: "ld (mDataPtr (from_bit e' m 0)) 0 = Some b" "b AND 0x80 = 0" using p(1) by (auto simp: from_bit_def m_def)
  have r: "readBytes 1 (from_bit e' m 0) = Some (True, [t], from_bit e' m 8)" using p(2) by (simp add: from_bit_def m_def)
  have "ld [t] 0 = Some t" by (simp add: ld_def)
  then show "processPacket ops cls e' a (from_bit e' m 0) s = ?rest" unfolding processPacket_def using b r t(2) by simp
qed

lemmas handshake_types = ConnectChallengeRequest_def ConnectChallengeResponse_def ConnectRequest_def ConnectReject_def ConnectAccept_def
  DisconnectPacket_def Punch_def ArrangedConnectRequest_def FirstValidInfoPacketId_def

lemma challenge_received:
  assumes e: "env_ok e" "env_ok (packetEnv e')" and n: "length (mNonce p) = NonceSize" "length (mCurrentNonce (mPuzzleManager s)) = NonceSize"
    and k: "mAllowConnections s" "\<not> mRequiresKeyExchange s" "\<not> mRequestKeyExchange p"
  shows "processPacket ops cls e' a (from_bit e' (packet_of e (challenge_bits p)) 0) s = Some (posts s a (packet_of (packetEnv e')
    (response_bits (mNonce p) (computeClientIdentityToken e' a (mNonce p) s) (mCurrentNonce (mPuzzleManager s)) (mCurrentDifficulty (mPuzzleManager s)))))"
proof -
  let ?m = "packet_of e (challenge_bits p)"
  have f: "fits_packet (challenge_bits p)" by (simp add: fits_packet_def challenge_bits_def)
  note d = dispatch [OF e f [unfolded challenge_bits_def], folded challenge_bits_def]
  have r: "reads (from_bit e' ?m 8) (nonce_bits (mNonce p) @ [mRequestKeyExchange p, mRequestCertificate p])" using d(2) by (simp add: handshake_types)
  note 1 = nonce_at [OF r n(1)]
  note 2 = flag_at [OF 1 [THEN conjunct2]]
  note 3 = flag_at [OF 2 [THEN conjunct2]]
  have "processPacket ops cls e' a (from_bit e' ?m 0) s = handleConnectChallengeRequest e' a (from_bit e' ?m 8) s" using d(1) by (simp add: handshake_types)
  also have "\<dots> = sendConnectChallengeResponse e' a (mNonce p) (mRequestKeyExchange p) (mRequestCertificate p) s"
    using 1 2 3 k by (simp add: handleConnectChallengeRequest_def)
  finally show ?thesis by (simp add: response_sent [OF e(2) n k(2,3)])
qed

text \<open>The connection when its request is under way.\<close>

definition requesting :: "u32 \<Rightarrow> nonce \<Rightarrow> u32 \<Rightarrow> u32 \<Rightarrow> u32 \<Rightarrow> u32 \<Rightarrow> ('n, 'x) net_connection \<Rightarrow> ('n, 'x) net_connection" where
  "requesting ident serverNonce difficulty v now j c = c\<lparr>mConnectionParameters := (mConnectionParameters c)\<lparr>mClientIdentity := ident,
     mServerNonce := serverNonce, mPuzzleDifficulty := difficulty, mPuzzleSolution := v\<rparr>, mConnectionState := AwaitingConnectResponse,
     mConnectSendCount := j, mConnectLastSendTime := now\<rparr>"

lemma start_fields:
  "c\<lparr>mConnectSendCount := j, mConnectLastSendTime := t, mConnectionParameters := p, mConnectionState := q\<rparr> =
    c\<lparr>mConnectionParameters := p, mConnectionState := q, mConnectSendCount := j, mConnectLastSendTime := t\<rparr>"
  by (cases c) simp

context start_up
begin

lemma response_received:
  assumes e: "env_ok e" "env_ok (packetEnv e')" "tables_ok (huffman e')" and n: "length cn = NonceSize" "length sn = NonceSize"
    and i: "findPendingConnection a s = Some i" "mConnectionState (object s i) = AwaitingChallengeResponse" "mNonce (params s i) = cn"
    and c: "\<not> mUsingCrypto (params s i)" and d: "d \<le> MaxPuzzleDifficulty"
    and v: "solvePuzzle (hashState0 e') (puzzleClock e') 0 cn sn d ident = Some (True, v)" and name: "length (getClassName cls (object s i)) \<le> 255"
  defines "k \<equiv> \<lambda>j. requesting ident sn d v (mCurrentTime s) j (object s i)"
  shows "processPacket ops cls e' a (from_bit e' (packet_of e (response_bits cn ident sn d)) 0) s =
    Some (posts (on_object i (\<lambda>_. k 1) s) (addresses s i) (packet_of (packetEnv e')
      (connect_request_bits (snd (huffman e')) (getClassName cls (k 0)) (mConnectionParameters (k 0)) (mInitialSendSeq (k 0)) (request (k 0)))))"
proof -
  let ?m = "packet_of e (response_bits cn ident sn d)"
  have f: "fits_packet (response_bits cn ident sn d)" by (simp add: fits_packet_def response_bits_def)
  note dp = dispatch [OF e(1,2) f [unfolded response_bits_def], folded response_bits_def]
  have r: "reads (from_bit e' ?m 8) (nonce_bits cn @ int_bits 32 ident @ nonce_bits sn @ int_bits 32 d @ [False])" using dp(2) by (simp add: handshake_types)
  note 1 = nonce_at [OF r n(1)]
  note 2 = u32_at [OF 1 [THEN conjunct2]]
  note 3 = nonce_at [OF 2 [THEN conjunct2] n(2)]
  note 4 = u32_at [OF 3 [THEN conjunct2]]
  note 5 = flag_at [OF 4 [THEN conjunct2]]
  have "processPacket ops cls e' a (from_bit e' ?m 0) s = handleConnectChallengeResponse ops cls e' a (from_bit e' ?m 8) s"
    using dp(1) by (simp add: handshake_types)
  also have "\<dots> = sendConnectRequest cls e' i (on_object i (\<lambda>_. k 0) s)"
    using 1 2 3 4 5 i c v n leD [OF d]
    by (simp add: handleConnectChallengeResponse_def readPeerKey_def put_params_def continuePuzzleSolution_def setConnectionState_def k_def requesting_def
        Let_def start_fields)
  also have "\<dots> = Some (posts (on_object i (\<lambda>_. k 1) s) (addresses s i) (packet_of (packetEnv e')
      (connect_request_bits (snd (huffman e')) (getClassName cls (k 0)) (mConnectionParameters (k 0)) (mInitialSendSeq (k 0)) (request (k 0)))))"
    using request_sent [OF e(2,3), of "on_object i (\<lambda>_. k 0) s" i] i(3) n c name same_name [of "k 0" "object s i"]
    by (simp add: k_def requesting_def countSend_def)
  finally show ?thesis .
qed

end

lemma strings_at: "env_ok (packetEnv e) \<Longrightarrow> length (mStringBuffer (from_bit e m k)) = 256 \<and> mStringBuffer (from_bit e m k) ! 0 = 0"
  by (simp add: env_ok_def from_bit_def skip_bits_def PacketStream_recvfrom_def PacketStream_new_def BitStream_new_def reset_def setMaxSizes_def
      setBuffer_def Let_def)

text \<open>The addresses of other objects do not matter to a table.\<close>

lemma conns_cong:
  assumes "conns_ok addrOf t" and "\<And>j. j \<in> set (mConnectionList t) \<Longrightarrow> addrOf' j = addrOf j"
  shows "conns_ok addrOf' t"
proof -
  have "addrOf' c = addrOf c" if "j < length (mConnectionHashTable t)" "mConnectionHashTable t ! j = Some c" for j c
  proof -
    have "c \<in># entries (mConnectionHashTable t)" using that by (auto simp: entries_in)
    then show ?thesis using assms by (simp add: conns_ok_def)
  qed
  then show ?thesis using assms(1) unfolding conns_ok_def Connection_Table.table_ok_def by simp
qed

lemma connection_added:
  assumes "conns_ok (addresses s) (connTable s)" and "i \<notin> set (conns s)"
  shows "\<exists>t. if_addConnection i (on_object i (\<lambda>_. c) s) = Some (on_object i (\<lambda>_. c) (s\<lparr>connTable := t\<rparr>)) \<and>
    mConnectionList t = conns s @ [i] \<and> conns_ok ((addresses s)(i := mNetAddress c)) t"
proof -
  let ?A = "(addresses s)(i := mNetAddress c)"
  have "addresses (on_object i (\<lambda>_. c) s) = ?A" by auto
  moreover have "conns_ok ?A (connTable s)" using assms(2) by (intro conns_cong [OF assms(1)]) auto
  then obtain t where "addConnection ?A i (connTable s) = Some t" "conns_ok ?A t" "mConnectionList t = conns s @ [i]"
    using addConnection_ok assms(2) by blast
  ultimately show ?thesis by (intro exI [of _ t]) (cases s, simp add: if_addConnection_def)
qed

context start_up
begin

lemma connection_entered:
  assumes e: "env_ok (packetEnv e)" and c: "\<not> mUsingCrypto (mConnectionParameters c)"
    and n: "length (mNonce (mConnectionParameters c)) = NonceSize" "length (mServerNonce (mConnectionParameters c)) = NonceSize"
  shows "\<exists>k. enterConnection cls e i (on_object i (\<lambda>_. c) s) = Some (posts (on_object i (\<lambda>_. k) s) (mNetAddress c) (packet_of (packetEnv e)
      (accept_bits (mConnectionParameters c) (mInitialSendSeq c) (accept k)))) \<and> keeps (c\<lparr>mConnectionState := Connected\<rparr>) k"
proof -
  obtain k where k: "onConnectionEstablished cls (c\<lparr>mConnectionState := Connected\<rparr>) = Some k" "keeps (c\<lparr>mConnectionState := Connected\<rparr>) k"
    using established by blast
  have "enterConnection cls e i (on_object i (\<lambda>_. c) s) = sendConnectAccept cls e i (on_object i (\<lambda>_. k) s)"
    using k(1) by (simp add: enterConnection_def callback_def setConnectionState_def)
  moreover have f: "mConnectionParameters k = mConnectionParameters c" "mNetAddress k = mNetAddress c" "mInitialSendSeq k = mInitialSendSeq c"
    using k(2) by (simp_all add: keeps_def)
  ultimately show ?thesis using accept_sent [OF e, of "on_object i (\<lambda>_. k) s" i] c n k(2) by (intro exI [of _ k]) (simp add: f)
qed

lemma request_accepted:
  assumes e: "env_ok (packetEnv e)" "length (mNonce p) = NonceSize" "length (mServerNonce p) = NonceSize" "\<not> mUsingCrypto p"
    and t: "conns_ok (addresses s) (connTable s)" "nextObject s \<notin> set (conns s)" and r: "reads stream (request c)"
  shows "\<exists>k t. makeConnection cls e a q p stream conn s =
      Some (posts (on_object (nextObject s) (\<lambda>_. k) (s\<lparr>nextObject := nextObject s + 1, connTable := t\<rparr>)) a
        (packet_of (packetEnv e) (accept_bits p (mInitialSendSeq conn) (accept k)))) \<and>
    keeps (setInitialRecvSequence q (conn\<lparr>mConnectionParameters := p, mNetAddress := a, mConnectionState := Connected\<rparr>)) k \<and>
    mConnectionList t = conns s @ [nextObject s] \<and> conns_ok ((addresses s)(nextObject s := a)) t"
proof -
  let ?i = "nextObject s" and ?c = "setInitialRecvSequence q (conn\<lparr>mConnectionParameters := p, mNetAddress := a\<rparr>)"
  obtain bs c2 where c2: "readConnectRequest cls ?c stream = Some (Inr (), bs, c2)" "keeps ?c c2" using request_read [OF r] by blast
  then have f: "mConnectionParameters c2 = p" "mNetAddress c2 = a" "mInitialSendSeq c2 = mInitialSendSeq conn" by (simp_all add: keeps_def setInitialRecvSequence_def)
  obtain t where t: "if_addConnection ?i (on_object ?i (\<lambda>_. c2) (s\<lparr>nextObject := ?i + 1\<rparr>)) =
      Some (on_object ?i (\<lambda>_. c2) (s\<lparr>nextObject := ?i + 1, connTable := t\<rparr>))"
    and l: "mConnectionList t = conns s @ [?i]" "conns_ok ((addresses s)(?i := a)) t"
    using connection_added [of "s\<lparr>nextObject := ?i + 1\<rparr>" ?i c2] t f by auto
  obtain k where k: "enterConnection cls e ?i (on_object ?i (\<lambda>_. c2) (s\<lparr>nextObject := ?i + 1, connTable := t\<rparr>)) =
      Some (posts (on_object ?i (\<lambda>_. k) (s\<lparr>nextObject := ?i + 1, connTable := t\<rparr>)) a
        (packet_of (packetEnv e) (accept_bits p (mInitialSendSeq conn) (accept k))))" "keeps (c2\<lparr>mConnectionState := Connected\<rparr>) k"
    using connection_entered [OF e(1), of c2 ?i "s\<lparr>nextObject := ?i + 1, connTable := t\<rparr>"] e f by auto
  have "keeps (setInitialRecvSequence q (conn\<lparr>mConnectionParameters := p, mNetAddress := a, mConnectionState := Connected\<rparr>)) k"
    using c2(2) k(2) by (simp add: keeps_def setInitialRecvSequence_def)
  moreover have "makeConnection cls e a q p stream conn s = enterConnection cls e ?i (on_object ?i (\<lambda>_. c2) (s\<lparr>nextObject := ?i + 1, connTable := t\<rparr>))"
    using c2(1) t e(4) by (simp add: makeConnection_def setSessionCipher_def setInitialRecvSequence_def Let_def)
  ultimately show ?thesis using k(1) l by metis
qed

end

text \<open>What the server keeps of a request.\<close>

definition accepted_params :: "('n, 'x) iface_env \<Rightarrow> connection_parameters \<Rightarrow> connection_parameters" where
  "accepted_params e p = ConnectionParameters_new (unsetParams e)\<lparr>mNonce := mNonce p, mServerNonce := mServerNonce p, mClientIdentity := mClientIdentity p,
     mPuzzleDifficulty := mPuzzleDifficulty p, mPuzzleSolution := mPuzzleSolution p, mDebugObjectSizes := mDebugObjectSizes p\<rparr>"

lemma accepted_fields: "mNonce (accepted_params e p) = mNonce p" "mServerNonce (accepted_params e p) = mServerNonce p" "\<not> mUsingCrypto (accepted_params e p)"
  by (simp_all add: accepted_params_def ConnectionParameters_new_def)

context start_up
begin

lemma request_dispatched:
  fixes p :: connection_parameters and q :: u32
  assumes e: "env_ok e" "env_ok (packetEnv e')" and name: "length (getClassName cls c) \<le> 255"
  defines "m \<equiv> packet_of e (connect_request_bits (snd (huffman e')) (getClassName cls c) p q (request c))"
  shows "processPacket ops cls e' a (from_bit e' m 0) s = handleConnectRequest ops cls e' a (from_bit e' m 8) s"
    and "reads (from_bit e' m 8) (head_bits p @ False # mDebugObjectSizes p # int_bits 32 q @ False # string_bits (snd (huffman e')) (getClassName cls c) @ request c)"
proof -
  let ?bits = "connect_request_bits (snd (huffman e')) (getClassName cls c) p q (request c)"
  have f: "fits_packet ?bits" using length_string_bits [of "snd (huffman e')" "getClassName cls c"] name short(1) [of c]
    by (simp add: fits_packet_def connect_request_bits_def head_bits_def)
  note d = dispatch [OF e f [unfolded connect_request_bits_def], folded connect_request_bits_def]
  show "processPacket ops cls e' a (from_bit e' m 0) s = handleConnectRequest ops cls e' a (from_bit e' m 8) s"
    using d(1) by (simp add: m_def handshake_types)
  show "reads (from_bit e' m 8) (head_bits p @ False # mDebugObjectSizes p # int_bits 32 q @ False # string_bits (snd (huffman e')) (getClassName cls c) @ request c)"
    using d(2) by (simp add: m_def handshake_types)
qed

lemma request_received:
  assumes e: "env_ok e" "env_ok (packetEnv e')" and T: "tables_ok (huffman e')" "length (unsetText e') = 256"
    and p: "length (mNonce p) = NonceSize" "length (mServerNonce p) = NonceSize" and allow: "mAllowConnections s"
    and ident: "mClientIdentity p = computeClientIdentityToken e' a (mNonce p) s"
    and found: "findConnection (addresses s) a (connTable s) = Some None"
    and puzzle: "checkSolution (hashState0 e') (mPuzzleSolution p) (mNonce p) (mServerNonce p) (mPuzzleDifficulty p) (mClientIdentity p)
      (mPuzzleManager s) = Some (Success, pz)"
    and create: "createConnection e' (getClassName cls c) = Some conn"
    and name: "length (getClassName cls c) \<le> 255" "0 \<notin> set (getClassName cls c)"
    and t: "conns_ok (addresses s) (connTable s)" "nextObject s \<notin> set (conns s)"
  shows "\<exists>k t. processPacket ops cls e' a (from_bit e' (packet_of e (connect_request_bits (snd (huffman e')) (getClassName cls c) p q (request c))) 0) s =
      Some (posts (on_object (nextObject s) (\<lambda>_. k) (s\<lparr>mPuzzleManager := pz, nextObject := nextObject s + 1, connTable := t\<rparr>)) a
        (packet_of (packetEnv e') (accept_bits (accepted_params e' p) (mInitialSendSeq conn) (accept k)))) \<and>
    keeps (setInitialRecvSequence q (conn\<lparr>mConnectionParameters := accepted_params e' p, mNetAddress := a, mConnectionState := Connected\<rparr>)) k \<and>
    mConnectionList t = conns s @ [nextObject s] \<and> conns_ok ((addresses s)(nextObject s := a)) t"
proof -
  let ?n = "getClassName cls c"
  let ?m = "packet_of e (connect_request_bits (snd (huffman e')) ?n p q (request c))"
  note dp = request_dispatched [OF e name(1), where p = p and q = q]
  have r: "reads (from_bit e' ?m 8) (nonce_bits (mNonce p) @ nonce_bits (mServerNonce p) @ int_bits 32 (mClientIdentity p) @ int_bits 32 (mPuzzleDifficulty p) @
      int_bits 32 (mPuzzleSolution p) @ False # mDebugObjectSizes p # int_bits 32 q @ False # string_bits (snd (huffman e')) ?n @ request c)"
    using dp(2) by (simp add: head_bits_def)
  note 1 = nonce_at [OF r p(1)]
  note 2 = nonce_at [OF 1 [THEN conjunct2] p(2)]
  note 3 = u32_at [OF 2 [THEN conjunct2]]
  note 4 = u32_at [OF 3 [THEN conjunct2]]
  note 5 = u32_at [OF 4 [THEN conjunct2]]
  note 6 = flag_at [OF 5 [THEN conjunct2]]
  note 7 = flag_at [OF 6 [THEN conjunct2]]
  note 8 = u32_at [OF 7 [THEN conjunct2]]
  obtain buf stream where s: "readString (huffman e') (unsetText e') (from_bit e' ?m 266) = Some (buf, stream)" "cstring buf = ?n" "reads stream (request c)"
    using string_read [OF T(1) name T(2), of "from_bit e' ?m 266" "request c"] strings_at [OF e(2), of ?m 266] 8 [THEN conjunct2] by auto
  let ?s = "s\<lparr>mPuzzleManager := pz\<rparr>" and ?p = "accepted_params e' p"
  obtain k t where k: "makeConnection cls e' a q ?p stream conn ?s =
      Some (posts (on_object (nextObject s) (\<lambda>_. k) (?s\<lparr>nextObject := nextObject s + 1, connTable := t\<rparr>)) a
        (packet_of (packetEnv e') (accept_bits ?p (mInitialSendSeq conn) (accept k))))"
      "keeps (setInitialRecvSequence q (conn\<lparr>mConnectionParameters := ?p, mNetAddress := a, mConnectionState := Connected\<rparr>)) k"
      "mConnectionList t = conns s @ [nextObject s]" "conns_ok ((addresses s)(nextObject s := a)) t"
    using request_accepted [OF e(2), of ?p ?s stream c a q conn] accepted_fields [of e' p] p t s(3) by auto
  have "processPacket ops cls e' a (from_bit e' ?m 0) s = handleConnectRequest ops cls e' a (from_bit e' ?m 8) s"
    by (rule dp(1))
  also have "\<dots> = makeConnection cls e' a q ?p stream conn ?s"
    using 1 2 3 4 5 6 7 8 s allow ident found puzzle create
    by (simp add: handleConnectRequest_def acceptRequest_def Let_def accepted_params_def)
  finally show ?thesis using k by auto
qed

lemma accept_received:
  assumes e: "env_ok e" "env_ok (packetEnv e')" and n: "length (mNonce p) = NonceSize" "length (mServerNonce p) = NonceSize"
    and i: "findPendingConnection a s = Some i" "mConnectionState (object s i) = AwaitingConnectResponse" "i \<notin> set (conns s)"
    and p: "mNonce (params s i) = mNonce p" "mServerNonce (params s i) = mServerNonce p" "\<not> mUsingCrypto (params s i)"
    and t: "conns_ok (addresses s) (connTable s)"
  shows "\<exists>k t. processPacket ops cls e' a (from_bit e' (packet_of e (accept_bits p q (accept c))) 0) s =
      Some (on_object i (\<lambda>_. k) (s\<lparr>mPendingConnections := remove1 i (mPendingConnections s), connTable := t\<rparr>)) \<and>
    keeps (setInitialRecvSequence q (object s i)\<lparr>mConnectionState := Connected\<rparr>) k \<and>
    mConnectionList t = conns s @ [i] \<and> conns_ok (addresses s) t"
proof -
  let ?bits = "accept_bits p q (accept c)"
  let ?m = "packet_of e ?bits"
  have f: "fits_packet ?bits" using short(2) [of c] by (simp add: fits_packet_def accept_bits_def)
  note dp = dispatch [OF e f [unfolded accept_bits_def], folded accept_bits_def]
  have r: "reads (from_bit e' ?m 8) (nonce_bits (mNonce p) @ nonce_bits (mServerNonce p) @ int_bits 32 q @ accept c)"
    using dp(2) by (simp add: handshake_types)
  note 1 = nonce_at [OF r n(1)]
  note 2 = nonce_at [OF 1 [THEN conjunct2] n(2)]
  note 3 = u32_at [OF 2 [THEN conjunct2]]
  have "bitNum (PacketStream_recvfrom (packetEnv e') ?m) = 0" by (simp add: PacketStream_recvfrom_def Let_def reset_def)
  then have "unat (bitNum (from_bit e' ?m 136)) = 8 * 17" by (simp add: from_bit_def skip_bits_def)
  then have al: "setBytePosition (getBytePosition (from_bit e' ?m 136)) (from_bit e' ?m 136) = from_bit e' ?m 136" by (rule aligned) simp
  let ?c = "setInitialRecvSequence q (object s i)"
  obtain bs c2 where c2: "readConnectAccept cls ?c (from_bit e' ?m 168) = Some (Inr (), bs, c2)" "keeps ?c c2"
    using accept_read [of "from_bit e' ?m 168" c ?c] 3 [THEN conjunct2] by auto
  then have f: "mConnectionParameters c2 = params s i" "mNetAddress c2 = addresses s i" by (simp_all add: keeps_def setInitialRecvSequence_def)
  have a: "(addresses s)(i := addresses s i) = addresses s" by (rule fun_upd_triv)
  obtain t where t: "if_addConnection i (on_object i (\<lambda>_. c2) s) = Some (on_object i (\<lambda>_. c2) (s\<lparr>connTable := t\<rparr>))"
      "mConnectionList t = conns s @ [i]" "conns_ok (addresses s) t"
    using connection_added [OF t i(3), of c2] f a by auto
  obtain k where k: "onConnectionEstablished cls (c2\<lparr>mConnectionState := Connected\<rparr>) = Some k" "keeps (c2\<lparr>mConnectionState := Connected\<rparr>) k"
    using established by blast
  have v: "put_params i ((params (on_object i (\<lambda>_. c2) s) i)\<lparr>mInitVectorBytes := mInitVectorBytes (params (on_object i (\<lambda>_. c2) s) i)\<rparr>) (on_object i (\<lambda>_. c2) s) =
      on_object i (\<lambda>_. c2) s" by (simp add: put_params_def)
  have "processPacket ops cls e' a (from_bit e' ?m 0) s = handleConnectAccept cls e' a (from_bit e' ?m 8) s"
    using dp(1) by (simp add: handshake_types)
  also have "\<dots> = Some (on_object i (\<lambda>_. k) (s\<lparr>mPendingConnections := remove1 i (mPendingConnections s), connTable := t\<rparr>))"
    using 1 2 3 al i p c2(1) t(1) k(1) f v
    by (simp add: handleConnectAccept_def callback_def setSessionCipher_def setConnectionState_def removePendingConnection_def Let_def)
  finally show ?thesis using t(2,3) c2(2) k(2) by (auto simp: keeps_def)
qed

end

section \<open>The handshake\<close>

lemma find_none:
  assumes "conns_ok addrOf t" and "\<forall>j\<in>set (mConnectionList t). addrOf j \<noteq> a"
  shows "findConnection addrOf a t = Some None"
  using find_ok [OF _ conns_room [OF assms(1)], where a = a and addrOf = addrOf] assms
  by (fastforce simp: conns_ok_def findConnection_def split: option.splits)

lemma find_only:
  assumes "conns_ok addrOf t" and "i \<in> set (mConnectionList t)" "addrOf i = a" and "\<forall>j\<in>set (mConnectionList t) - {i}. addrOf j \<noteq> a"
  shows "findConnection addrOf a t = Some (Some i)"
  using find_ok [OF _ conns_room [OF assms(1)], where a = a and addrOf = addrOf] assms
  by (fastforce simp: conns_ok_def findConnection_def split: option.splits)

lemma find_added:
  "conns_ok (addrOf(i := a)) t \<Longrightarrow> mConnectionList t = L @ [i] \<Longrightarrow> i \<notin> set L \<Longrightarrow> \<forall>j\<in>set L. addrOf j \<noteq> a \<Longrightarrow>
    findConnection (addrOf(i := a)) a t = Some (Some i)"
  by (rule find_only) auto

text \<open>A solution that the solver reports is one.\<close>

lemma fragment_solves: "tryFragment check v n = Some (Inl w) \<Longrightarrow> check w = Some True"
  by (induction check v n rule: tryFragment.induct) (auto simp: tryFragment.simps split: bind_splits if_splits)

lemma loop_solves:
  assumes "solveLoop check clock t0 k v = Some r"
  shows "fst r \<longrightarrow> check (snd r) = Some True"
  using assms
proof (rule solveLoop.raw_induct [where P = "\<lambda>check clock t0 k v r. fst r \<longrightarrow> check (snd r) = Some True", rotated])
  fix loop :: "(u32 \<Rightarrow> bool option) \<Rightarrow> (nat \<Rightarrow> u32) \<Rightarrow> u32 \<Rightarrow> nat \<Rightarrow> u32 \<Rightarrow> (bool \<times> u32) option" and check clock t0 k v r
  assume IH: "\<And>check clock t0 k v r. loop check clock t0 k v = Some r \<Longrightarrow> fst r \<longrightarrow> check (snd r) = Some True"
    and r: "Option.bind (tryFragment check v (v + SolutionFragmentIterations)) (case_sum (\<lambda>w. Some (True, w))
      (\<lambda>v. if MaxSolutionComputeFragment < clock k - t0 then Some (False, v) else loop check clock t0 (Suc k) v)) = Some r"
  then obtain y where "tryFragment check v (v + SolutionFragmentIterations) = Some y" "case_sum (\<lambda>w. Some (True, w))
      (\<lambda>v. if MaxSolutionComputeFragment < clock k - t0 then Some (False, v) else loop check clock t0 (Suc k) v) y = Some r"
    by (auto simp: bind_eq_Some_conv)
  then show "fst r \<longrightarrow> check (snd r) = Some True" using IH by (cases y) (auto split: if_splits dest: fragment_solves)
qed

lemma solution_counts:
  assumes v: "solvePuzzle junk clock v0 cn (mCurrentNonce m) (mCurrentDifficulty m) ident = Some (True, v)"
    and j: "length junk = 64" "length junk' = 64" and t: "Client_Puzzle.table_ok (mCurrentNonceTable m)" "length cn = NonceSize" "cn \<notin> nonceSet (mCurrentNonceTable m)"
  shows "\<exists>pz. checkSolution junk' v cn (mCurrentNonce m) (mCurrentDifficulty m) ident m = Some (Success, pz)"
proof -
  have "checkOneSolution junk v cn (mCurrentNonce m) (mCurrentDifficulty m) ident = Some True"
    using loop_solves v unfolding solvePuzzle_def by fastforce
  then have "checkOneSolution junk' v cn (mCurrentNonce m) (mCurrentDifficulty m) ident = Some True"
    using j by (simp add: checkOneSolution_def puzzleHash_is_sha256)
  moreover obtain t where "checkAdd cn (mCurrentNonceTable m) = Some (True, t)" using checkAdd_set [OF t(1,2)] t(3) by auto
  ultimately show ?thesis by (simp add: checkSolution_def)
qed

text \<open>A client that can ask for a connection, and a server that can give it.\<close>

definition can_connect :: "('n, 'x) iface_env \<Rightarrow> conn_id \<Rightarrow> address \<Rightarrow> ('n, 'x) net_interface \<Rightarrow> bool" where
  "can_connect e i b s \<longleftrightarrow> env_ok (packetEnv e) \<and> tables_ok (huffman e) \<and> length (hashState0 e) = 64 \<and>
     conns_ok (addresses s) (connTable s) \<and> i \<notin> set (conns s) \<and> i \<notin> set (mPendingConnections s) \<and>
     (\<forall>j\<in>set (conns s). addresses s j \<noteq> b) \<and> (\<forall>j\<in>set (mPendingConnections s). addresses s j \<noteq> b) \<and>
     length (mNonce (params s i)) = NonceSize \<and> \<not> mUsingCrypto (params s i)"

definition can_serve :: "('n, 'x) iface_env \<Rightarrow> address \<Rightarrow> mem \<Rightarrow> nonce \<Rightarrow> ('n, 'x) net_interface \<Rightarrow> bool" where
  "can_serve e a className cn s \<longleftrightarrow> env_ok (packetEnv e) \<and> tables_ok (huffman e) \<and> length (hashState0 e) = 64 \<and> length (unsetText e) = 256 \<and>
     mAllowConnections s \<and> \<not> mRequiresKeyExchange s \<and> createConnection e className \<noteq> None \<and> length className \<le> 255 \<and> 0 \<notin> set className \<and>
     conns_ok (addresses s) (connTable s) \<and> nextObject s \<notin> set (conns s) \<and> (\<forall>j\<in>set (conns s). addresses s j \<noteq> a) \<and>
     length (mCurrentNonce (mPuzzleManager s)) = NonceSize \<and> mCurrentDifficulty (mPuzzleManager s) \<le> MaxPuzzleDifficulty \<and>
     Client_Puzzle.table_ok (mCurrentNonceTable (mPuzzleManager s)) \<and> cn \<notin> nonceSet (mCurrentNonceTable (mPuzzleManager s))"

definition asking :: "address \<Rightarrow> bool \<Rightarrow> u32 \<Rightarrow> ('n, 'x) net_connection \<Rightarrow> ('n, 'x) net_connection" where
  "asking b wantsCertificate now c = c\<lparr>mConnectionParameters := (mConnectionParameters c)\<lparr>mRequestKeyExchange := False,
     mRequestCertificate := wantsCertificate, mIsInitiator := True\<rparr>, mNetAddress := b, mConnectionState := AwaitingChallengeResponse,
     mConnectSendCount := 1, mConnectLastSendTime := now\<rparr>"

lemma start_sent:
  assumes "findPendingConnection (addresses s i) s = None" and "findConnection (addresses s) (addresses s i) (connTable s) = Some None"
  shows "startConnection cls e i s = sendConnectChallengeRequest e i
    (on_object i (\<lambda>c. c\<lparr>mConnectSendCount := 0, mConnectionState := AwaitingChallengeResponse\<rparr>) (s\<lparr>mPendingConnections := mPendingConnections s @ [i]\<rparr>))"
  using assms by (simp add: startConnection_def addPendingConnection_def findAndRemovePendingConnection_def)

lemma connect_sent:
  fixes cert :: bool
  assumes "can_connect e i b s"
  defines "k \<equiv> asking b cert (mCurrentTime s) (object s i)"
  shows "NetConnection_connect cls e i b False cert s = Some (posts (on_object i (\<lambda>_. k) (s\<lparr>mPendingConnections := mPendingConnections s @ [i]\<rparr>)) b
    (packet_of (packetEnv e) (challenge_bits (mConnectionParameters k))))"
proof -
  note c = assms(1) [unfolded can_connect_def]
  define k0 where "k0 = (object s i)\<lparr>mConnectionParameters := (params s i)\<lparr>mRequestKeyExchange := False, mRequestCertificate := cert, mIsInitiator := True\<rparr>,
    mNetAddress := b\<rparr>"
  have b: "mNetAddress k0 = b" by (simp add: k0_def)
  let ?s = "on_object i (\<lambda>_. k0) s"
  have a: "addresses ?s = (addresses s)(i := b)" using b by auto
  have p: "findPendingConnection (addresses ?s i) ?s = None" using c b by (auto simp: findPendingConnection_def find_None_iff)
  have "findConnection ((addresses s)(i := b)) b (connTable s) = Some None"
    by (rule find_none [OF conns_cong [of "addresses s"]]) (use c in auto)
  then have f: "findConnection (addresses ?s) (addresses ?s i) (connTable ?s) = Some None" unfolding a by (simp add: b)
  have "startConnection cls e i ?s = sendConnectChallengeRequest e i
      (on_object i (\<lambda>c. c\<lparr>mConnectSendCount := 0, mConnectionState := AwaitingChallengeResponse\<rparr>) (?s\<lparr>mPendingConnections := mPendingConnections s @ [i]\<rparr>))"
    using start_sent [OF p f, of cls e] by simp
  also have "\<dots> = Some (posts (on_object i (\<lambda>_. k) (s\<lparr>mPendingConnections := mPendingConnections s @ [i]\<rparr>)) b
      (packet_of (packetEnv e) (challenge_bits (mConnectionParameters k))))"
    using c by (subst challenge_sent) (simp_all add: countSend_def k_def k0_def asking_def)
  finally show ?thesis by (simp add: NetConnection_connect_def k0_def)
qed

text \<open>A connection between two interfaces that both hold it for established.\<close>

definition joined :: "address \<Rightarrow> address \<Rightarrow> conn_id \<Rightarrow> conn_id \<Rightarrow> ('n, 'x) net_interface \<Rightarrow> ('n, 'x) net_interface \<Rightarrow> bool" where
  "joined a b i j client server \<longleftrightarrow>
     findConnection (addresses client) b (connTable client) = Some (Some i) \<and> findConnection (addresses server) a (connTable server) = Some (Some j) \<and>
     mConnectionState (object client i) = Connected \<and> mConnectionState (object server j) = Connected \<and>
     mNonce (params client i) = mNonce (params server j) \<and> mServerNonce (params client i) = mServerNonce (params server j) \<and>
     mInitialRecvSeq (object client i) = mInitialSendSeq (object server j) \<and> mInitialRecvSeq (object server j) = mInitialSendSeq (object client i)"

lemma posts_fields: "connTable (posts s a m) = connTable s" "object (posts s a m) = object s" "mPendingConnections (posts s a m) = mPendingConnections s"
    "socketOut (posts s a m) = socketOut s @ [(a, m)]" "mPuzzleManager (posts s a m) = mPuzzleManager s" "mCurrentTime (posts s a m) = mCurrentTime s"
    "mAllowConnections (posts s a m) = mAllowConnections s" "nextObject (posts s a m) = nextObject s"
  by (simp_all add: posts_def)

lemma posts_token: "computeClientIdentityToken e a n (posts s b m) = computeClientIdentityToken e a n s"
  by (simp add: computeClientIdentityToken_def posts_def)

lemma one_packet: "processPackets ops cls [(e, a, m)] s = processPacket ops cls e a (from_bit e m 0) s"
  by (cases "processPacket ops cls e a (from_bit e m 0) s") (simp_all add: from_bit_def)

lemma find_last: "\<forall>y\<in>set xs. \<not> P y \<Longrightarrow> P x \<Longrightarrow> find P (xs @ [x]) = Some x"
  by (induction xs) auto

text \<open>The connection of the client when it sends its request.\<close>

definition requested ::
  "('n, 'x) iface_env \<Rightarrow> address \<Rightarrow> ('n, 'x) net_interface \<Rightarrow> address \<Rightarrow> bool \<Rightarrow> u32 \<Rightarrow> u32 \<Rightarrow> u32 \<Rightarrow> ('n, 'x) net_connection \<Rightarrow> ('n, 'x) net_connection" where
  "requested es a ss b cert w now j c = requesting (computeClientIdentityToken es a (mNonce (mConnectionParameters c)) ss) (mCurrentNonce (mPuzzleManager ss))
     (mCurrentDifficulty (mPuzzleManager ss)) w now j (asking b cert now c)"

lemma requested_fields:
  "mNonce (mConnectionParameters (requested es a ss b cert w now j c)) = mNonce (mConnectionParameters c)"
  "mServerNonce (mConnectionParameters (requested es a ss b cert w now j c)) = mCurrentNonce (mPuzzleManager ss)"
  "mClientIdentity (mConnectionParameters (requested es a ss b cert w now j c)) = computeClientIdentityToken es a (mNonce (mConnectionParameters c)) ss"
  "mPuzzleDifficulty (mConnectionParameters (requested es a ss b cert w now j c)) = mCurrentDifficulty (mPuzzleManager ss)"
  "mPuzzleSolution (mConnectionParameters (requested es a ss b cert w now j c)) = w"
  "mUsingCrypto (mConnectionParameters (requested es a ss b cert w now j c)) = mUsingCrypto (mConnectionParameters c)"
  "mNetAddress (requested es a ss b cert w now j c) = b" "mConnectionState (requested es a ss b cert w now j c) = AwaitingConnectResponse"
  "mInitialSendSeq (requested es a ss b cert w now j c) = mInitialSendSeq c"
  by (simp_all add: requested_def requesting_def asking_def)

definition solves :: "('n, 'x) iface_env \<Rightarrow> ('n, 'x) iface_env \<Rightarrow> address \<Rightarrow> ('n, 'x) net_interface \<Rightarrow> nonce \<Rightarrow> u32 \<Rightarrow> bool" where
  "solves ec es a ss cn w \<longleftrightarrow> solvePuzzle (hashState0 ec) (puzzleClock ec) 0 cn (mCurrentNonce (mPuzzleManager ss))
     (mCurrentDifficulty (mPuzzleManager ss)) (computeClientIdentityToken es a cn ss) = Some (True, w)"

context start_up
begin

definition request_packet :: "('n, 'x) iface_env \<Rightarrow> ('n, 'x) net_connection \<Rightarrow> mem" where
  "request_packet e c = packet_of (packetEnv e) (connect_request_bits (snd (huffman e)) (getClassName cls c) (mConnectionParameters c) (mInitialSendSeq c) (request c))"

definition accept_packet :: "('n, 'x) iface_env \<Rightarrow> ('n, 'x) net_connection \<Rightarrow> mem" where
  "accept_packet e c = packet_of (packetEnv e) (accept_bits (mConnectionParameters c) (mInitialSendSeq c) (accept c))"

lemma client_requests:
  fixes cert :: bool
  assumes c: "can_connect ec i b sc" and v: "can_serve es a (getClassName cls (object sc i)) (mNonce (params sc i)) ss" and w: "solves ec es a ss (mNonce (params sc i)) w"
  defines "h \<equiv> \<lambda>j. requested es a ss b cert w (mCurrentTime sc) j (object sc i)"
  shows "\<exists>c1 c2 m1 m2. NetConnection_connect cls ec i b False cert sc = Some c1 \<and> socketOut c1 = socketOut sc @ [(b, m1)] \<and>
    processPackets ops cls [(es, a, m1)] ss = Some (posts ss a m2) \<and>
    processPackets ops cls [(ec, b, m2)] c1 = Some c2 \<and> socketOut c2 = socketOut c1 @ [(b, request_packet ec (h 0))] \<and>
    object c2 = (object sc)(i := h 1) \<and> connTable c2 = connTable sc \<and> mPendingConnections c2 = mPendingConnections sc @ [i]"
proof -
  note cc = c [unfolded can_connect_def] and vv = v [unfolded can_serve_def]
  let ?cn = "mNonce (params sc i)" and ?sn = "mCurrentNonce (mPuzzleManager ss)" and ?d = "mCurrentDifficulty (mPuzzleManager ss)"
  let ?id = "computeClientIdentityToken es a ?cn ss" and ?k = "asking b cert (mCurrentTime sc) (object sc i)"
  have kp: "mNonce (mConnectionParameters ?k) = ?cn" "\<not> mUsingCrypto (mConnectionParameters ?k)" "mNetAddress ?k = b"
    "\<not> mRequestKeyExchange (mConnectionParameters ?k)" "mConnectionState ?k = AwaitingChallengeResponse" using cc by (simp_all add: asking_def)
  define k where "k = ?k"
  define m1 where "m1 = packet_of (packetEnv ec) (challenge_bits (mConnectionParameters k))"
  define c1 where "c1 = posts (on_object i (\<lambda>_. k) (sc\<lparr>mPendingConnections := mPendingConnections sc @ [i]\<rparr>)) b m1"
  define m2 where "m2 = packet_of (packetEnv es) (response_bits ?cn ?id ?sn ?d)"
  define c2 where "c2 = posts (on_object i (\<lambda>_. h 1) c1) b (request_packet ec (h 0))"
  note kp = kp [folded k_def]
  have h: "h j = requesting ?id ?sn ?d w (mCurrentTime sc) j k" for j by (simp add: h_def requested_def k_def)
  have 1: "NetConnection_connect cls ec i b False cert sc = Some c1" using connect_sent [OF c, of cls cert] by (simp add: c1_def m1_def k_def)
  have 2: "processPackets ops cls [(es, a, m1)] ss = Some (posts ss a m2)"
    unfolding one_packet m1_def m2_def using challenge_received [of "packetEnv ec" es "mConnectionParameters k" ss] cc vv kp by simp
  have "findPendingConnection b c1 = Some i"
    unfolding findPendingConnection_def c1_def posts_fields using cc kp(3) by (simp, intro find_last) auto
  moreover have "object c1 i = k" "params c1 i = mConnectionParameters k" "addresses c1 i = b" using kp(3) by (simp_all add: c1_def posts_fields)
  ultimately have 3: "processPackets ops cls [(ec, b, m2)] c1 = Some c2"
    unfolding one_packet m2_def c2_def request_packet_def
    using response_received [of "packetEnv es" ec ?cn ?sn b c1 i ?d ?id w ops] cc vv kp w same_name [of k "object sc i"] by (simp add: h c1_def posts_fields solves_def)
  have "socketOut c1 = socketOut sc @ [(b, m1)]" "socketOut c2 = socketOut c1 @ [(b, request_packet ec (h 0))]" "connTable c2 = connTable sc"
    "object c2 = (object sc)(i := h 1)" "mPendingConnections c2 = mPendingConnections sc @ [i]" by (simp_all add: c1_def c2_def posts_def)
  then show ?thesis using 1 2 3 by blast
qed

lemma server_accepts:
  fixes cert :: bool and now :: u32
  assumes c: "can_connect ec i b sc" and v: "can_serve es a (getClassName cls (object sc i)) (mNonce (params sc i)) ss"
    and w: "solves ec es a ss (mNonce (params sc i)) w" and T: "huffman ec = huffman es"
  defines "h \<equiv> requested es a ss b cert w now 0 (object sc i)"
  shows "\<exists>s2 l. processPackets ops cls [(es, a, request_packet ec h)] (posts ss a m) = Some s2 \<and>
    socketOut s2 = socketOut ss @ [(a, m), (a, accept_packet es l)] \<and> object s2 (nextObject ss) = l \<and> conns s2 = conns ss @ [nextObject ss] \<and>
    findConnection (addresses s2) a (connTable s2) = Some (Some (nextObject ss)) \<and> mConnectionState l = Connected \<and> mInitialRecvSeq l = mInitialSendSeq (object sc i) \<and>
    mNonce (mConnectionParameters l) = mNonce (params sc i) \<and> mServerNonce (mConnectionParameters l) = mCurrentNonce (mPuzzleManager ss)"
proof -
  note cc = c [unfolded can_connect_def] and vv = v [unfolded can_serve_def]
  let ?j = "nextObject ss" and ?s = "posts ss a m" and ?p = "accepted_params es (mConnectionParameters h)"
  obtain pz where pz: "checkSolution (hashState0 es) w (mNonce (params sc i)) (mCurrentNonce (mPuzzleManager ss)) (mCurrentDifficulty (mPuzzleManager ss))
      (computeClientIdentityToken es a (mNonce (params sc i)) ss) (mPuzzleManager ss) = Some (Success, pz)"
    using solution_counts [OF w [unfolded solves_def], of "hashState0 es"] cc vv by auto
  obtain conn where conn: "createConnection es (getClassName cls h) = Some conn" using vv same_name [of h "object sc i"] by auto
  have free: "findConnection (addresses ?s) a (connTable ?s) = Some None" unfolding posts_fields using vv by (intro find_none) simp_all
  obtain l t where r: "processPacket ops cls es a (from_bit es (request_packet ec h) 0) ?s =
      Some (posts (on_object ?j (\<lambda>_. l) (?s\<lparr>mPuzzleManager := pz, nextObject := ?j + 1, connTable := t\<rparr>)) a
        (packet_of (packetEnv es) (accept_bits ?p (mInitialSendSeq conn) (accept l))))"
    and k: "keeps (setInitialRecvSequence (mInitialSendSeq h) (conn\<lparr>mConnectionParameters := ?p, mNetAddress := a, mConnectionState := Connected\<rparr>)) l"
    and t: "mConnectionList t = conns ss @ [?j]" "conns_ok ((addresses ss)(?j := a)) t"
    unfolding request_packet_def T
    using request_received [of "packetEnv ec" es "mConnectionParameters h" ?s a pz h conn ops "mInitialSendSeq h"] cc vv pz conn free same_name [of h "object sc i"]
    by (simp add: posts_fields posts_token requested_fields h_def) blast
  have l: "mConnectionState l = Connected" "mNetAddress l = a" "mConnectionParameters l = ?p" "mInitialSendSeq l = mInitialSendSeq conn"
    "mInitialRecvSeq l = mInitialSendSeq h" using k by (simp_all add: keeps_def setInitialRecvSequence_def)
  define s2 where "s2 = posts (on_object ?j (\<lambda>_. l) (?s\<lparr>mPuzzleManager := pz, nextObject := ?j + 1, connTable := t\<rparr>)) a (accept_packet es l)"
  have "processPackets ops cls [(es, a, request_packet ec h)] ?s = Some s2" unfolding one_packet s2_def accept_packet_def l by (rule r)
  moreover have "addresses s2 = (addresses ss)(?j := a)" using l(2) by (auto simp: s2_def posts_fields)
  then have "findConnection (addresses s2) a (connTable s2) = Some (Some ?j)" using t vv by (simp add: s2_def posts_fields find_added)
  moreover have "socketOut s2 = socketOut ss @ [(a, m), (a, accept_packet es l)]" "conns s2 = conns ss @ [?j]" "object s2 ?j = l"
    using t(1) by (simp_all add: s2_def posts_def)
  ultimately show ?thesis using l by (intro exI [of _ s2] exI [of _ l]) (simp add: accepted_fields requested_fields h_def)
qed

lemma client_enters:
  assumes c: "can_connect ec i b sc" and c2: "object c2 = (object sc)(i := h)" "connTable c2 = connTable sc" "mPendingConnections c2 = mPendingConnections sc @ [i]"
    and h: "mNetAddress h = b" "mConnectionState h = AwaitingConnectResponse" "\<not> mUsingCrypto (mConnectionParameters h)"
    and l: "mNonce (mConnectionParameters l) = mNonce (mConnectionParameters h)" "mServerNonce (mConnectionParameters l) = mServerNonce (mConnectionParameters h)"
    and n: "length (mNonce (mConnectionParameters h)) = NonceSize" "length (mServerNonce (mConnectionParameters h)) = NonceSize" and e: "env_ok (packetEnv es)"
  shows "\<exists>c3. processPackets ops cls [(ec, b, accept_packet es l)] c2 = Some c3 \<and> socketOut c3 = socketOut c2 \<and> conns c3 = conns sc @ [i] \<and>
    mPendingConnections c3 = mPendingConnections sc \<and> findConnection (addresses c3) b (connTable c3) = Some (Some i) \<and>
    keeps (setInitialRecvSequence (mInitialSendSeq l) h\<lparr>mConnectionState := Connected\<rparr>) (object c3 i)"
proof -
  note cc = c [unfolded can_connect_def]
  have a2: "addresses c2 = (addresses sc)(i := b)" using h(1) by (auto simp: c2)
  have p2: "findPendingConnection b c2 = Some i"
    unfolding findPendingConnection_def c2(3) using cc a2 by (intro find_last) (auto simp: fun_eq_iff)
  have t2: "conns_ok (addresses c2) (connTable c2)" unfolding a2 c2(2) by (rule conns_cong [of "addresses sc"]) (use cc in auto)
  obtain g u where r: "processPacket ops cls ec b (from_bit ec (accept_packet es l) 0) c2 =
      Some (on_object i (\<lambda>_. g) (c2\<lparr>mPendingConnections := remove1 i (mPendingConnections c2), connTable := u\<rparr>))"
    and g: "keeps (setInitialRecvSequence (mInitialSendSeq l) h\<lparr>mConnectionState := Connected\<rparr>) g"
    and u: "mConnectionList u = conns sc @ [i]" "conns_ok (addresses c2) u"
    unfolding accept_packet_def
    using accept_received [of "packetEnv es" ec "mConnectionParameters l" b c2 i ops "mInitialSendSeq l" l] cc c2 h l n e p2 t2 by simp blast
  define c3 where "c3 = on_object i (\<lambda>_. g) (c2\<lparr>mPendingConnections := remove1 i (mPendingConnections c2), connTable := u\<rparr>)"
  have "mNetAddress g = b" using g h(1) by (simp add: keeps_def setInitialRecvSequence_def)
  then have "addresses c3 = (addresses sc)(i := b)" using a2 by (auto simp: c3_def fun_eq_iff)
  then have "findConnection (addresses c3) b (connTable c3) = Some (Some i)" using u cc a2 by (simp add: c3_def find_added)
  moreover have "processPackets ops cls [(ec, b, accept_packet es l)] c2 = Some c3" unfolding one_packet c3_def by (rule r)
  ultimately show ?thesis using g u(1) cc c2(3) by (intro exI [of _ c3]) (simp add: c3_def remove1_append)
qed

lemma handshake:
  assumes c: "can_connect ec i b sc" and v: "can_serve es a (getClassName cls (object sc i)) (mNonce (params sc i)) ss"
    and w: "solves ec es a ss (mNonce (params sc i)) w" and T: "huffman ec = huffman es"
  shows "\<exists>c1 c2 c3 s1 s2 m1 m2 m3 m4. NetConnection_connect cls ec i b False cert sc = Some c1 \<and> socketOut c1 = socketOut sc @ [(b, m1)] \<and>
    processPackets ops cls [(es, a, m1)] ss = Some s1 \<and> socketOut s1 = socketOut ss @ [(a, m2)] \<and>
    processPackets ops cls [(ec, b, m2)] c1 = Some c2 \<and> socketOut c2 = socketOut c1 @ [(b, m3)] \<and>
    processPackets ops cls [(es, a, m3)] s1 = Some s2 \<and> socketOut s2 = socketOut s1 @ [(a, m4)] \<and>
    processPackets ops cls [(ec, b, m4)] c2 = Some c3 \<and> socketOut c3 = socketOut c2 \<and>
    joined a b i (nextObject ss) c3 s2 \<and> conns c3 = conns sc @ [i] \<and> conns s2 = conns ss @ [nextObject ss] \<and>
    mPendingConnections c3 = mPendingConnections sc"
proof -
  let ?h = "\<lambda>j. requested es a ss b cert w (mCurrentTime sc) j (object sc i)"
  obtain c1 c2 m1 m2 where 1: "NetConnection_connect cls ec i b False cert sc = Some c1" "socketOut c1 = socketOut sc @ [(b, m1)]"
      "processPackets ops cls [(es, a, m1)] ss = Some (posts ss a m2)" "processPackets ops cls [(ec, b, m2)] c1 = Some c2"
      "socketOut c2 = socketOut c1 @ [(b, request_packet ec (?h 0))]"
    and c2: "object c2 = (object sc)(i := ?h 1)" "connTable c2 = connTable sc" "mPendingConnections c2 = mPendingConnections sc @ [i]"
    using client_requests [OF c v w, where cert = cert and ops = ops] by blast
  obtain s2 l where 2: "processPackets ops cls [(es, a, request_packet ec (?h 0))] (posts ss a m2) = Some s2" "socketOut s2 = socketOut (posts ss a m2) @ [(a, accept_packet es l)]"
    and l: "object s2 (nextObject ss) = l" "conns s2 = conns ss @ [nextObject ss]" "findConnection (addresses s2) a (connTable s2) = Some (Some (nextObject ss))"
      "mConnectionState l = Connected" "mInitialRecvSeq l = mInitialSendSeq (object sc i)" "mNonce (mConnectionParameters l) = mNonce (params sc i)"
      "mServerNonce (mConnectionParameters l) = mCurrentNonce (mPuzzleManager ss)"
    using server_accepts [OF c v w T, where cert = cert and now = "mCurrentTime sc" and ops = ops and m = m2] by (auto simp: posts_fields)
  obtain c3 where 3: "processPackets ops cls [(ec, b, accept_packet es l)] c2 = Some c3" "socketOut c3 = socketOut c2" "conns c3 = conns sc @ [i]"
      "mPendingConnections c3 = mPendingConnections sc" "findConnection (addresses c3) b (connTable c3) = Some (Some i)"
    and g: "keeps (setInitialRecvSequence (mInitialSendSeq l) (?h 1)\<lparr>mConnectionState := Connected\<rparr>) (object c3 i)"
    using client_enters [OF c c2, of l es ops] c v l unfolding can_connect_def can_serve_def requested_fields by auto
  have "mConnectionState (object c3 i) = Connected" "mConnectionParameters (object c3 i) = mConnectionParameters (?h 1)"
    "mInitialSendSeq (object c3 i) = mInitialSendSeq (?h 1)" "mInitialRecvSeq (object c3 i) = mInitialSendSeq l"
    using g by (simp_all add: keeps_def setInitialRecvSequence_def)
  then have "joined a b i (nextObject ss) c3 s2" using l 3(5) by (simp add: joined_def requested_fields)
  moreover have "socketOut (posts ss a m2) = socketOut ss @ [(a, m2)]" by (simp add: posts_fields)
  ultimately show ?thesis using 1 2 3 l(2)
    by - (rule exI [of _ c1], rule exI [of _ c2], rule exI [of _ c3], rule exI [of _ "posts ss a m2"], rule exI [of _ s2], rule exI [of _ m1], rule exI [of _ m2],
      rule exI [of _ "request_packet ec (?h 0)"], rule exI [of _ "accept_packet es l"], intro conjI; assumption)
qed

end

section \<open>A plain connection\<close>

lemma append_none [simp]: "can_write bs 0 \<Longrightarrow> append_bits [] bs = bs"
  by (simp add: append_bits_def)

lemma two_words_appends: "appends (\<lambda>bs. Option.bind (write_u32 v bs) (write_u32 w)) (int_bits 32 v @ int_bits 32 w)"
  unfolding appends_def
proof (intro allI impI)
  fix bs assume w: "can_write bs (length (int_bits 32 v @ int_bits 32 w))"
  then have "write_u32 v bs = Some (append_bits (int_bits 32 v) bs)" using u32_appends [of v] can_write_mono [OF w, of 32] by (simp add: appends_def)
  moreover have "can_write (append_bits (int_bits 32 v) bs) 32" using can_write_append [of bs "int_bits 32 v" 32] w by simp
  then have "write_u32 w (append_bits (int_bits 32 v) bs) = Some (append_bits (int_bits 32 w) (append_bits (int_bits 32 v) bs))"
    using u32_appends [of w] by (simp add: appends_def)
  ultimately show "Option.bind (write_u32 v bs) (write_u32 w) = Some (append_bits (int_bits 32 v @ int_bits 32 w) bs)"
    using append_bits_append [of bs "int_bits 32 v" "int_bits 32 w"] w by simp
qed

lemma base_request_read:
  assumes "reads bs (int_bits 32 g @ int_bits 32 crc)"
  shows "\<exists>bs'. base_readConnectRequest g0 crc0 g crc bs = Some (Inr (), bs')"
proof -
  have "read_u32 g0 bs = Some (g, skip_bits 32 bs)" "reads (skip_bits 32 bs) (int_bits 32 crc @ [])"
    using read_by [OF u32_takes [of g0 g] assms] by simp_all
  then show ?thesis using read_by [OF u32_takes [of crc0 crc], of "skip_bits 32 bs" "[]"] by (simp add: base_readConnectRequest_def)
qed

interpretation base_start: start_up "NetConnection_type name classGroup classCRC g0 crc0 n" "\<lambda>_. int_bits 32 classGroup @ int_bits 32 classCRC" "\<lambda>_. []"
  for name classGroup classCRC g0 crc0 n
proof (unfold_locales, goal_cases)
  case 4
  then show ?case using two_words_appends [of classGroup classCRC]
    by (simp add: NetConnection_type_def base_writeConnectRequest_def appends_def)
next
  case (5 bs c c')
  then show ?case using base_request_read by (fastforce simp: NetConnection_type_def)
qed (auto simp: NetConnection_type_def appends_def base_onConnectionEstablished_def keeps_def)

text \<open>
  C7: two interfaces that have no connection between them yet get one by the four packets of the handshake: when the client's solver succeeds in its
  first time slice and the server has the class and has not seen the nonce, the client's request and every packet that follows are answered, no step
  faults, and at the end both find a connection of the other's address in their tables, established, with the same nonces and with each expecting
  the sequence numbers that the other will send; the client's list of pending connections is as before.
\<close>

theorem handshake_connects:
  assumes cls: "cls = NetConnection_type name classGroup classCRC g0 crc0 n"
    and "can_connect ec i b sc" and "can_serve es a name (mNonce (params sc i)) ss" and "solves ec es a ss (mNonce (params sc i)) w" and "huffman ec = huffman es"
  shows "\<exists>c1 c2 c3 s1 s2 m1 m2 m3 m4. NetConnection_connect cls ec i b False cert sc = Some c1 \<and> socketOut c1 = socketOut sc @ [(b, m1)] \<and>
    processPackets ops cls [(es, a, m1)] ss = Some s1 \<and> socketOut s1 = socketOut ss @ [(a, m2)] \<and>
    processPackets ops cls [(ec, b, m2)] c1 = Some c2 \<and> socketOut c2 = socketOut c1 @ [(b, m3)] \<and>
    processPackets ops cls [(es, a, m3)] s1 = Some s2 \<and> socketOut s2 = socketOut s1 @ [(a, m4)] \<and>
    processPackets ops cls [(ec, b, m4)] c2 = Some c3 \<and> socketOut c3 = socketOut c2 \<and>
    joined a b i (nextObject ss) c3 s2 \<and> conns c3 = conns sc @ [i] \<and> conns s2 = conns ss @ [nextObject ss] \<and>
    mPendingConnections c3 = mPendingConnections sc"
proof -
  have "getClassName (NetConnection_type name classGroup classCRC g0 crc0 n) (object sc i) = name" by (simp add: NetConnection_type_def)
  then have "can_serve es a (getClassName (NetConnection_type name classGroup classCRC g0 crc0 n) (object sc i)) (mNonce (params sc i)) ss" using assms(3) by simp
  then show ?thesis unfolding cls by (rule base_start.handshake [OF assms(2) _ assms(4,5)])
qed

text \<open>Two programs without connections, on a server whose puzzles ask for nothing.\<close>

definition sample_iface :: "huff_node list \<times> huff_leaf list \<Rightarrow> (unit, unit) iface_env" where
  "sample_iface T = \<lparr>packetEnv = sample_env, connEnv = (\<lambda>_. sample_env),
     reps = [\<lparr>repName = [65], mCanRemoteCreate = True, repCreate = sample_connection 100 0\<rparr>], unsetNonce = replicate 8 0xCC, unsetWord = 0xCCCCCCCC,
     unsetText = replicate 256 0xCC, unsetParams = mConnectionParameters (raw_connection () :: (unit, unit) net_connection), unsetKey = sample_key, hashState0 = replicate 64 0xCC,
     drawnKey = replicate 16 1, drawnNonce = replicate 8 2, drawnVector = replicate 16 3, drawnIndex = 4, puzzleClock = of_nat, huffman = T,
     aes_setup = (\<lambda>k _. k)\<rparr>"

definition easy_server :: "(unit, unit) net_interface" where
  "easy_server = sample_interface\<lparr>mPuzzleManager := first_manager\<lparr>mCurrentDifficulty := 0\<rparr>\<rparr>"

definition addr_a :: address where "addr_a = \<lparr>addrTransport = 0, addrPort = 28001, netNum = [0x7F000001, 0, 0, 0]\<rparr>"
definition addr_b :: address where "addr_b = \<lparr>addrTransport = 0, addrPort = 28002, netNum = [0x7F000001, 0, 0, 0]\<rparr>"

definition addr_c :: address where "addr_c = mNetAddress (sample_connection 5 0)"

definition forged_stream :: bit_stream where
  "forged_stream = skip_bits 8 (PacketStream_recvfrom sample_env (packet_of sample_env (int_bits 8 DisconnectPacket @
     nonce_bits [9, 9, 9, 9, 9, 9, 9, 9] @ nonce_bits [9, 9, 9, 9, 9, 9, 9, 9])))"

definition plain :: "(unit, unit) conn_type" where "plain = NetConnection_type [65] 1 0xFFFFFFFF 0 0 ()"

lemma sample_solves: "solves (sample_iface T) (sample_iface T) a easy_server cn 0"
proof -
  have "checkOneSolution (replicate 64 0xCC) 0 cn sn 0 ident = Some True" for sn ident
    using zeroBits_meaning [of 0 0 "sha256 (writeU32ToBuffer 0 @ writeU32ToBuffer ident @ cn @ sn)"]
    by (simp add: checkOneSolution_def puzzleHash_is_sha256)
  then show ?thesis
    by (subst solves_def)
      (simp add: solvePuzzle_def easy_server_def sample_iface_def solveLoop.simps tryFragment.simps [of _ 0] SolutionFragmentIterations_def)
qed

lemma empty_interface: "conns_ok (addresses sample_interface) (connTable sample_interface)" "conns sample_interface = []"
  by (simp add: sample_interface_def conns_new) (simp add: sample_interface_def conn_table_new_def)

lemma sample_can_connect:
  assumes "tables_ok T" shows "can_connect (sample_iface T) 0 b sample_interface"
proof -
  have "length (mNonce (params sample_interface 0)) = 8" "\<not> mUsingCrypto (params sample_interface 0)"
    by (simp_all add: sample_interface_def sample_connection_def NetConnection_new_def computeNegotiatedRate_def setInitialRecvSequence_def Let_def)
  moreover have "mPendingConnections sample_interface = []" by (simp add: sample_interface_def)
  ultimately show ?thesis using assms empty_interface by (simp add: can_connect_def sample_iface_def env_ok_def sample_env_def NonceSize_def)
qed

lemma sample_can_serve:
  assumes "tables_ok T" "length cn = 8" shows "can_serve (sample_iface T) a [65] cn easy_server"
proof -
  have "object easy_server = object sample_interface" "connTable easy_server = connTable sample_interface" "nextObject easy_server = 0"
    "mAllowConnections easy_server" "\<not> mRequiresKeyExchange easy_server" "mPuzzleManager easy_server = first_manager\<lparr>mCurrentDifficulty := 0\<rparr>"
    by (simp_all add: easy_server_def sample_interface_def)
  moreover have "mCurrentNonceTable first_manager = NonceTable_reset 0" "length (mCurrentNonce first_manager) = 8"
    by (simp_all add: first_manager_def ClientPuzzleManager_new_def)
  ultimately show ?thesis using assms empty_interface reset_table [of 0]
    by (simp add: can_serve_def sample_iface_def env_ok_def sample_env_def NonceSize_def createConnection_def MaxPuzzleDifficulty_def)
qed

lemma handshake_connects_witness:
  "\<exists>T c1 c2 c3 s1 s2 m1 m2 m3 m4. NetConnection_connect (NetConnection_type [65] 1 0xFFFFFFFF 0 0 ()) (sample_iface T) 0 addr_b False False sample_interface = Some c1 \<and>
    socketOut c1 = socketOut sample_interface @ [(addr_b, m1)] \<and>
    processPackets xor_ecc (NetConnection_type [65] 1 0xFFFFFFFF 0 0 ()) [(sample_iface T, addr_a, m1)] easy_server = Some s1 \<and>
    socketOut s1 = socketOut easy_server @ [(addr_a, m2)] \<and>
    processPackets xor_ecc (NetConnection_type [65] 1 0xFFFFFFFF 0 0 ()) [(sample_iface T, addr_b, m2)] c1 = Some c2 \<and> socketOut c2 = socketOut c1 @ [(addr_b, m3)] \<and>
    processPackets xor_ecc (NetConnection_type [65] 1 0xFFFFFFFF 0 0 ()) [(sample_iface T, addr_a, m3)] s1 = Some s2 \<and> socketOut s2 = socketOut s1 @ [(addr_a, m4)] \<and>
    processPackets xor_ecc (NetConnection_type [65] 1 0xFFFFFFFF 0 0 ()) [(sample_iface T, addr_b, m4)] c2 = Some c3 \<and> socketOut c3 = socketOut c2 \<and>
    joined addr_a addr_b 0 (nextObject easy_server) c3 s2 \<and> conns c3 = conns sample_interface @ [0] \<and> conns s2 = conns easy_server @ [nextObject easy_server] \<and>
    mPendingConnections c3 = mPendingConnections sample_interface"
proof -
  obtain T where T: "tables_ok T" using buildTables_char_freqs by blast
  have n: "length (mNonce (params sample_interface 0)) = 8" using sample_can_connect [OF T, of addr_b] by (simp add: can_connect_def NonceSize_def)
  show ?thesis
    by (rule exI [of _ T], rule handshake_connects [OF refl sample_can_connect [OF T] sample_can_serve [OF T n] sample_solves refl])
qed

section \<open>What a connection costs\<close>

text \<open>
  C8: whatever a packet holds, a connect request puts a connection into the table only when its identity is the hash of the sender's address, its nonce and
  the interface's secret, and its solution makes the hash of the four begin with as many zero bits as the current difficulty says, for one of the
  last two server nonces; the client's nonce is then among those that count as used.
\<close>

theorem connection_costs_work:
  assumes run: "handleConnectRequest ops typ e a stream s = Some s'" and new: "i \<in> set (conns s')" "i \<notin> set (conns s)"
    and junk: "length (hashState0 e) = 64" and d: "unat (mCurrentDifficulty (mPuzzleManager s)) \<le> 256"
  shows "\<exists>cn sn v. let ident = le_value (take 4 (sha256 (addressBytes a @ cn @ mRandomHashData s))); d = mCurrentDifficulty (mPuzzleManager s) in
    mAllowConnections s \<and> request_head e stream = Some (cn, sn, ident, d, v) \<and>
    sn \<in> {mCurrentNonce (mPuzzleManager s), mLastNonce (mPuzzleManager s)} \<and>
    (\<forall>k<unat d. \<not> hashBit (sha256 (writeU32ToBuffer v @ writeU32ToBuffer ident @ cn @ sn)) k) \<and>
    checkSolution (hashState0 e) v cn sn d ident (mPuzzleManager s) = Some (Success, mPuzzleManager s')"
  using run
proof (cases rule: request_cases)
  case ignored
  then show ?thesis using new by simp
next
  case (answered j)
  then show ?thesis using new by (auto dest!: sendConnectAccept_sent sentD)
next
  case (checked cn sn ident d v result puzzles)
  have ok: "result = Success"
  proof (rule ccontr)
    assume "result \<noteq> Success"
    then obtain p t where "sendConnectReject e p a t (s\<lparr>mPuzzleManager := puzzles\<rparr>) = Some s'" using checked(5) by auto
    then show False using new by (auto dest!: sendConnectReject_sent sentD)
  qed
  then have m: "mPuzzleManager s' = puzzles" using checked(5) acceptRequest_conns by (fastforce dest: givesD)
  have c: "sn \<in> {mCurrentNonce (mPuzzleManager s), mLastNonce (mPuzzleManager s)}" "d = mCurrentDifficulty (mPuzzleManager s)"
    "checkOneSolution (hashState0 e) v cn sn d ident = Some True"
    using checked(4) by (auto elim!: checkSolution_cases simp: ok)
  have "checkOneSolution (hashState0 e) v cn sn d ident =
      Some (\<forall>k<unat d. \<not> hashBit (sha256 (writeU32ToBuffer v @ writeU32ToBuffer ident @ cn @ sn)) k)"
    using zeroBits_meaning [of 0 d "sha256 (writeU32ToBuffer v @ writeU32ToBuffer ident @ cn @ sn)"] c(2) assms(5)
    by (simp add: checkOneSolution_def puzzleHash_is_sha256 [OF junk])
  then show ?thesis using checked ok c m token_is_sha256 [OF junk, of a cn s] by (intro exI [of _ cn] exI [of _ sn] exI [of _ v]) (simp add: Let_def)
qed

lemma connection_costs_work_witness:
  "\<exists>T stream s' cn sn v. handleConnectRequest xor_ecc (NetConnection_type [65] 1 0xFFFFFFFF 0 0 ()) (sample_iface T) addr_a stream (posts easy_server addr_a []) = Some s' \<and>
    0 \<in> set (conns s') \<and> conns (posts easy_server addr_a []) = [] \<and>
    (let ident = le_value (take 4 (sha256 (addressBytes addr_a @ cn @ mRandomHashData (posts easy_server addr_a [])))) in
      request_head (sample_iface T) stream = Some (cn, sn, ident, 0, v) \<and> sn \<in> {[1, 1, 1, 1, 1, 1, 1, 1], [2, 2, 2, 2, 2, 2, 2, 2]} \<and>
      checkSolution (replicate 64 0xCC) v cn sn 0 ident (mPuzzleManager (posts easy_server addr_a [])) = Some (Success, mPuzzleManager s'))"
proof -
  obtain T where T: "tables_ok T" using buildTables_char_freqs by blast
  let ?cls = "NetConnection_type [65] 1 0xFFFFFFFF 0 0 () :: (unit, unit) conn_type" and ?e = "sample_iface T" and ?s = "posts easy_server addr_a []"
  let ?h = "requested ?e addr_a easy_server addr_b False 0 0 0 (object sample_interface 0)"
  have n: "getClassName ?cls c = [65]" for c by (simp add: NetConnection_type_def)
  note c = sample_can_connect [OF T, of addr_b]
  have l: "length (mNonce (params sample_interface 0)) = 8" using c by (simp add: can_connect_def NonceSize_def)
  have v: "can_serve ?e addr_a (getClassName ?cls (object sample_interface 0)) (mNonce (params sample_interface 0)) easy_server"
    unfolding n by (rule sample_can_serve [OF T l])
  let ?m = "base_start.request_packet [65] 1 0xFFFFFFFF 0 0 () ?e ?h"
  obtain s2 where s2: "processPackets xor_ecc ?cls [(?e, addr_a, ?m)] ?s = Some s2" "conns s2 = conns easy_server @ [nextObject easy_server]"
    using base_start.server_accepts [OF c v sample_solves refl] by blast
  have k: "env_ok (packetEnv ?e)" using c by (simp add: can_connect_def)
  have "processPacket xor_ecc ?cls ?e addr_a (from_bit ?e ?m 0) ?s = handleConnectRequest xor_ecc ?cls ?e addr_a (from_bit ?e ?m 8) ?s"
    unfolding base_start.request_packet_def by (rule base_start.request_dispatched(1) [OF k k]) (simp add: n)
  then have h: "handleConnectRequest xor_ecc ?cls ?e addr_a (from_bit ?e ?m 8) ?s = Some s2" using s2(1) unfolding one_packet by simp
  have easy: "conns ?s = []" "nextObject easy_server = 0" "conns easy_server = []" "mCurrentDifficulty (mPuzzleManager ?s) = 0"
    "mCurrentNonce (mPuzzleManager ?s) = [1, 1, 1, 1, 1, 1, 1, 1]" "mLastNonce (mPuzzleManager ?s) = [2, 2, 2, 2, 2, 2, 2, 2]" "hashState0 ?e = replicate 64 0xCC"
    using empty_interface by (simp_all add: posts_def easy_server_def sample_interface_def first_manager_def ClientPuzzleManager_new_def sample_iface_def)
  then have i: "0 \<in> set (conns s2)" "0 \<notin> set (conns ?s)" using s2(2) by simp_all
  have w: "length (hashState0 ?e) = 64" "unat (mCurrentDifficulty (mPuzzleManager ?s)) \<le> 256" by (simp_all add: easy)
  from connection_costs_work [OF h i w] show ?thesis unfolding easy(4-7) Let_def using h i(1) easy(1) by blast
qed

section \<open>Without the nonces nothing happens\<close>

text \<open>
  C11: an acceptance, a rejection or a disconnect packet that does not carry both nonces of the connection it would establish or end leaves the
  interface as it was.
\<close>

theorem forged_packets_are_ignored:
  assumes "two_nonces e stream = Some (n1, n2)"
    and "\<forall>i. findPendingConnection a s = Some i \<longrightarrow> (n1, n2) \<noteq> (mNonce (params s i), mServerNonce (params s i))"
    and "findConnection (addresses s) a (connTable s) = Some r" and "\<forall>i. r = Some i \<longrightarrow> (n1, n2) \<noteq> (mNonce (params s i), mServerNonce (params s i))"
  shows "handleConnectAccept typ e a stream s = Some s \<and> handleConnectReject typ e a stream s = Some s \<and> handleDisconnect typ e a stream s = Some s"
proof -
  obtain s1 s2 where "readNonce (unsetNonce e) stream = Some (n1, s1)" "readNonce (unsetNonce e) s1 = Some (n2, s2)"
    using assms(1) by (auto simp: two_nonces_def bind_eq_Some_conv)
  with assms(2-4) show ?thesis
    by (auto simp: handleConnectAccept_def handleConnectReject_def handleDisconnect_def Let_def split: option.splits)
qed

lemma forged_packets_are_ignored_witness:
  "\<exists>t. findConnection (addresses (sample_interface\<lparr>connTable := t\<rparr>)) addr_c t = Some (Some 0) \<and>
    handleConnectAccept plain (sample_iface ([], [])) addr_c forged_stream (sample_interface\<lparr>connTable := t\<rparr>) = Some (sample_interface\<lparr>connTable := t\<rparr>) \<and>
    handleConnectReject plain (sample_iface ([], [])) addr_c forged_stream (sample_interface\<lparr>connTable := t\<rparr>) = Some (sample_interface\<lparr>connTable := t\<rparr>) \<and>
    handleDisconnect plain (sample_iface ([], [])) addr_c forged_stream (sample_interface\<lparr>connTable := t\<rparr>) = Some (sample_interface\<lparr>connTable := t\<rparr>)"
proof -
  let ?e = "sample_iface ([], [])" and ?c = "object sample_interface 0"
  have a: "(addresses sample_interface)(0 := addr_c) = addresses sample_interface" "mNetAddress ?c = addr_c" by (auto simp: sample_interface_def addr_c_def)
  obtain t where t: "mConnectionList t = conns sample_interface @ [0]" "conns_ok ((addresses sample_interface)(0 := addr_c)) t"
    using connection_added [of sample_interface 0 ?c] empty_interface a(2) by auto
  let ?s = "sample_interface\<lparr>connTable := t\<rparr>"
  have f: "findConnection (addresses ?s) addr_c (connTable ?s) = Some (Some 0)"
    using find_added [OF t(2,1)] empty_interface a(1) by simp
  have p: "findPendingConnection addr_c ?s = None" by (simp add: findPendingConnection_def sample_interface_def)
  have n: "mNonce (params ?s 0) = [1, 2, 3, 4, 5, 6, 7, 8]"
    by (simp add: sample_interface_def sample_connection_def NetConnection_new_def computeNegotiatedRate_def setInitialRecvSequence_def Let_def)
  let ?x = "nonce_bits [9, 9, 9, 9, 9, 9, 9, 9]"
  have e: "env_ok sample_env" by (simp add: env_ok_def sample_env_def)
  have "reads (PacketStream_recvfrom sample_env (packet_of sample_env (int_bits 8 DisconnectPacket @ ?x @ ?x))) (int_bits 8 DisconnectPacket @ ?x @ ?x)"
    using e by (intro packet_arrives) (simp_all add: env_ok_def fits_packet_def)
  then have r: "reads (from_bit ?e (packet_of sample_env (int_bits 8 DisconnectPacket @ ?x @ ?x)) 8) (?x @ ?x @ [])"
    using reads_append [of _ "int_bits 8 DisconnectPacket" "?x @ ?x"] by (simp add: from_bit_def sample_iface_def)
  note 1 = nonce_at [OF r]
  have 2: "two_nonces ?e forged_stream = Some ([9, 9, 9, 9, 9, 9, 9, 9], [9, 9, 9, 9, 9, 9, 9, 9])"
    using 1 nonce_at [OF 1 [THEN conjunct2]] by (simp add: two_nonces_def NonceSize_def forged_stream_def from_bit_def sample_iface_def)
  show ?thesis using forged_packets_are_ignored [OF 2 _ f, of plain] p n f by (intro exI [of _ t]) simp
qed

text \<open>
  C33: a request with the flag for a key exchange and a key that announces another size than the interface's own stops the program, whatever follows: no
  secret is computed, and the cipher is made of a null pointer.
\<close>

theorem wrong_size_key_faults:
  assumes own: "mInterfaceKey s = Some own" and d: "5 \<le> length d" "length d \<le> 1023" and r: "reads stream (True # data_bits d)"
    and ks: "readU32FromBuffer (drop 1 d) = Some ks" "ks \<noteq> mKeySize own"
  shows "acceptRequest ops typ e a stream p connect s = None"
proof -
  have s: "reads stream [True]" "reads (skip_bits 1 stream) (data_bits d)" using reads_append [of stream "[True]" "data_bits d"] r by simp_all
  then have f: "readFlag stream = Some (True, skip_bits 1 stream)" using reads_flag [of stream True] by simp
  obtain key buffer where "AsymmetricKey_read ops (unsetKey e) (mStaticCryptoBuffer s) (skip_bits 1 stream) =
      Some (key, buffer, skip_bits (length (data_bits d)) (skip_bits 1 stream))" "mKeySize key = ks"
    using key_read [OF d s(2), of ops "unsetKey e" "mStaticCryptoBuffer s" "\<lambda>_. 0"]
      load_size [OF ks(1) d, of ops "\<lambda>_. 0" "unsetKey e" "mStaticCryptoBuffer s"] by auto
  then have "readClientKey ops e own (skip_bits 1 stream) p (mStaticCryptoBuffer s) = None"
    using ks(2) by (simp add: readClientKey_def computeSharedSecretKey_def Let_def decryptTail_def secretCipher_def)
  then show ?thesis using own f by (simp add: acceptRequest_def)
qed

lemma wrong_size_key_faults_witness:
  "acceptRequest xor_ecc plain (sample_iface ([], [])) addr_a (PacketStream_recvfrom sample_env (packet_of sample_env (True # data_bits [1, 0, 0, 0, 24, 9, 9, 9, 9])))
    (params sample_interface 0) None
    (sample_interface\<lparr>mInterfaceKey := Some sample_key\<rparr>) = None"
proof (rule wrong_size_key_faults [where own = sample_key and d = "[1, 0, 0, 0, 24, 9, 9, 9, 9]" and ks = 24])
  show "reads (PacketStream_recvfrom sample_env (packet_of sample_env (True # data_bits [1, 0, 0, 0, 24, 9, 9, 9, 9]))) (True # data_bits [1, 0, 0, 0, 24, 9, 9, 9, 9])"
    by (rule packet_arrives) (simp_all add: fits_packet_def)
  show "readU32FromBuffer (drop 1 [1, 0, 0, 0, 24, 9, 9, 9, 9]) = Some 24" by (simp add: readU32FromBuffer_def ld_def)
qed (simp_all add: sample_interface_def sample_key_def)

end
