(* ===== verification/Spec2Isabelle.thy ===== *)
theory Spec2Isabelle
  imports Stream_Fields Code_Hazards Aes_Cipher Sample_Connection Notify_Protocol Class_Registry Handshake
begin

text \<open>
  This library models the Torque Network Library of the repository, \<^verbatim>\<open>src/tnl\<close>, and the parts of
  \<^verbatim>\<open>src/libtomcrypt\<close> it runs on: how messages become bits, how connections number, acknowledge, seal and
  read packets, and the tables the two ends share.

  \<^bold>\<open>The program.\<close> A \<^verbatim>\<open>BitStream\<close> over a \<^verbatim>\<open>ByteBuffer\<close> is what everything is written to and read from.
  Strings in it are coded by \<^verbatim>\<open>HuffmanStringProcessor\<close>; strings that recur are interned in the global
  \<^verbatim>\<open>StringTable\<close> and sent by number through the \<^verbatim>\<open>ConnectionStringTable\<close> of a connection. A
  \<^verbatim>\<open>NetConnection\<close> puts a header with sequence numbers and an acknowledgement mask before what its derived class
  writes, encrypts it with a \<^verbatim>\<open>SymmetricCipher\<close> and signs it with SHA-256, and tells the class later
  for every packet whether it arrived. An \<^verbatim>\<open>EventConnection\<close> on it sends events, again when their packet was lost, and processes the
  ordered ones in order; remote calls are events that carry arguments. Both ends number the classes of events from a registry,
  and agree on how many they share when they connect. A \<^verbatim>\<open>NetInterface\<close> holds the connections of a socket and sets them up: the client asks for a
  challenge, solves a puzzle and requests the connection, the server checks the work and accepts, and both may exchange keys on the way.

  \<^bold>\<open>The theories.\<close>
  \<^item> \<open>TNL_Prelude\<close>: machine words, bytes in memory with checked access (\<open>ld\<close>, \<open>st\<close> return \<open>None\<close> outside), the bits of a
    block, little-endian numbers. The simplification collections \<open>mem_simps\<close> and \<open>bit_view\<close>.
  \<^item> \<open>Machine_Types\<close> (\<^verbatim>\<open>tnlTypes.h\<close>): powers of two, the logarithm taken from the exponent of a single-precision number.
  \<^item> \<open>Byte_Buffer\<close> (\<^verbatim>\<open>byteBuffer.cpp\<close>): ownership, growth, base 16, CRC.
  \<^item> \<open>Bit_Stream\<close>, \<open>Bit_Stream_Loops\<close>, \<open>Bit_Stream_Codec\<close>, \<open>Bit_Stream_Growth\<close>, \<open>Bit_Stream_Safety\<close>
    (\<^verbatim>\<open>bitStream.cpp\<close>, \<^verbatim>\<open>tnlBitStream.h\<close>): the operations; the copy and shift loops as bit-wise writes and reads; the
    operations on the abstract view of a stream as bits; growing; reads of arbitrary input.
  \<^item> \<open>Huffman\<close>, \<open>Huffman_Trees\<close>, \<open>Huffman_Merge\<close>, \<open>Huffman_Codes\<close>, \<open>Huffman_Strings\<close>
    (\<^verbatim>\<open>huffmanStringProcessor.cpp\<close>): the tables as the code builds them in memory, the tree they hold, the merge that ends
    with one tree, the prefix-free code, reading and writing.
  \<^item> \<open>String_Stream\<close>: strings with the prefix shared with the last one; \<open>Stream_Fields\<close>: the locale of a field codec,
    its interpretation on all the fields, and messages made of them.
  \<^item> \<open>String_Table\<close> (\<^verbatim>\<open>netStringTable.cpp\<close>), \<open>Connection_String_Table\<close> (\<^verbatim>\<open>connectionStringTable.cpp\<close>).
  \<^item> \<open>Crypt_Types\<close> (\<^verbatim>\<open>mycrypt_macros.h\<close>), \<open>Hash_Stream\<close> (the hash shell of \<^verbatim>\<open>mycrypt_hash.h\<close> as the locale
    \<open>md_hash\<close>), \<open>Sha256\<close> (\<^verbatim>\<open>sha256.c\<close>, \<^verbatim>\<open>sha224.c\<close>), \<open>Symmetric_Cipher\<close> (\<^verbatim>\<open>symmetricCipher.cpp\<close> and the sealing in
    \<^verbatim>\<open>bitStream.cpp\<close>, with the locale \<open>stream_cipher\<close>), \<open>Float32\<close> (single-precision rounding and the floats of a stream).
  \<^item> \<open>Aes_Tables\<close>, \<open>Aes\<close> (\<^verbatim>\<open>aes_tab.c\<close>, \<^verbatim>\<open>aes.c\<close>): the tables as they stand and the block cipher over them.
    \<open>Aes_Spec\<close>: the field of the standard, and that the tables hold its columns; \<open>Aes_Cipher\<close>: rounds, key schedule and
    decryption against the standard, and the cipher of a connection on it.
  \<^item> \<open>Net_Connection\<close> (\<^verbatim>\<open>netConnection.cpp\<close>): one end of a connection with all its operations. The virtual functions are
    the record \<open>conn_class\<close>. \<open>Packet_Header\<close>, \<open>Packet_Window\<close> (the locale \<open>conn_callbacks\<close>, the invariant \<open>conn_ok\<close>),
    \<open>Packet_Receive\<close>, \<open>Connection_Steps\<close> (runs, the interpretation on the base class), \<open>Connection_Timeout\<close>,
    \<open>Packet_Crossing\<close> (a packet from one end to the other), \<open>Code_Hazards\<close> (what the code gets wrong), \<open>Sample_Connection\<close> (the end
    that witnesses are computed on).
  \<^item> \<open>Notify_Protocol\<close>: two ends over a network that loses, repeats, delays and reorders, as a step relation. What an end is told
    about its packets is true; headers of an honest peer are taken; the mask of 32 bits refines the set of all packets received.
  \<^item> \<open>Event_Connection\<close> (\<^verbatim>\<open>eventConnection.cpp\<close>): the operations over a record \<open>event_class\<close> of an event's virtual functions. \<open>Event_Codec\<close>: the
    locale \<open>event_ops\<close> of what a class of events promises, and the events of a packet as bits. \<open>Event_Order\<close>: sequence numbers, windows and
    queues. \<open>Event_System\<close>: a sender, a receiver and the packets between them as a step relation, its invariant and its consequences, all
    under \<open>event_ops\<close>.
  \<^item> \<open>Remote_Calls\<close> (\<^verbatim>\<open>rpc.cpp\<close>, \<^verbatim>\<open>tnlMethodDispatch.h\<close>): the argument types, calls as events and the interpretation of \<open>event_ops\<close> on them.
    \<open>Event_Delivery\<close>: what the event layer guarantees to calls, with those of the master server as instance. \<open>Call_Safety\<close>: arguments
    read as written, and from hostile bits.
  \<^item> \<open>Class_Registry\<close> (\<^verbatim>\<open>netBase.cpp\<close>, the connect request of \<^verbatim>\<open>eventConnection.cpp\<close>): sorting and numbering of classes, and the agreement of
    two versions of a program. \<open>Client_Puzzle\<close> (\<^verbatim>\<open>clientPuzzle.cpp\<close>): nonce tables, puzzles and their solver.
    \<open>Connection_Table\<close> (\<^verbatim>\<open>netInterface.cpp\<close>): the hash table of connections by address.
  \<^item> \<open>Asymmetric_Key\<close> (\<^verbatim>\<open>asymmetricKey.cpp\<close>, \<^verbatim>\<open>certificate.cpp\<close>): key pairs and certificates over a record \<open>ecc_ops\<close> of curve operations.
    \<open>Net_Interface\<close> (\<^verbatim>\<open>netInterface.cpp\<close>): the state of an interface, all handlers and senders of the handshake, with and without keys
    and through a third party, the dispatch of packets and the periodic work; the virtual functions of the start-up are the record \<open>conn_type\<close>.
    \<open>Interface_Safety\<close>: rules for results that may fault, what a request can change, and that the key exchange is not enforced. \<open>Key_Exchange\<close>: keys and
    certificates through packets, and what goes wrong with keys of another size. \<open>Handshake_Codec\<close>, \<open>Handshake\<close>: the packets of the
    handshake as bits, the locale \<open>start_up\<close> of what the virtual functions promise, its interpretation on \<^verbatim>\<open>NetConnection\<close>, the whole
    handshake, and what a packet without the right nonces or without work cannot do.

  \<^bold>\<open>Conventions.\<close> A class is a record with its fields' names, a method a function on it. \<open>None\<close> is undefined behaviour: an
  access outside a block, an uninitialised read, a trap; errors the code reports are values or the stream's \<open>error\<close> flag.
  Integers keep their width. Memory the code does not initialise (\<^verbatim>\<open>malloc\<close>, locals) is an argument. Floats are exact
  rationals rounded to 24 bits after each operation. \<^verbatim>\<open>TNLAssert\<close> is empty, as in a release build, and logging is left out.

  \<^bold>\<open>Fuel.\<close> The walks along the chains of the string table have one unit more than there are nodes; \<open>clearNotifies\<close> has the
  length of the queue, which each notification shortens; the loops over waiting and acknowledged events have as many turns as there are
  events in their list, which only shrinks. The loops that write and read events and the solver of puzzles are partial functions: that they return is
  proved. All other loops are structural or carry a measure.

  \<^bold>\<open>Not modelled.\<close> Sockets, threads, clocks, logs and the platform layer are input and output; \<^verbatim>\<open>tnl_amalgamation.cpp\<close> is a copy of
  \<^verbatim>\<open>src/tnl\<close>; the game \<^verbatim>\<open>src/zap\<close>, the master server (but for the calls of its interface) and the tests use the library; \<^verbatim>\<open>src/libtomcrypt\<close> beyond what is named
  above is third-party code. The curves of \<^verbatim>\<open>ecc.c\<close> are parameters. Of the library,
  the ghosts of \<^verbatim>\<open>ghostConnection.cpp\<close> and the journal are left, the delivery between two connections of one program, and of the arguments of remote calls strings, string table entries and
  floats, whose coding depends on tables of the connection or rounds.
\<close>

section \<open>Streams and messages\<close>

text \<open>
  C9: a message of any mix of flags, integers, signed integers, ranges, enumerations, byte buffers
  and Huffman strings that fits the stream is written without a failure and read back
  unchanged from the same position, and the reader ends where the writer ended.
\<close>
theorem message_roundtrip:
  assumes "list_all (\<lambda>(f, v). field_valid f v) msg"
    and "n = length (concat (map (\<lambda>(f, v). field_bits f v) msg))"
    and "can_write bs n" and "can_read bs n"
  shows "\<exists>bs1. write_seq writeField msg bs = Some bs1 \<and>
    read_seq readField (map fst msg) (setBitPosition (bitNum bs) bs1) = Some (map snd msg, bs1)"
  using assms by (rule field_codec.seq_roundtrip)

definition sample_stream :: "nat \<Rightarrow> bit_stream" where
  "sample_stream n = BitStream_new (\<lambda>_. 0xCC) (replicate 256 0) (replicate n 0xFF) (of_nat n) (of_nat n)"

lemma sample_stream_room:
  assumes "n < 2 ^ 29" and "k \<le> 8 * n"
  shows "can_write (sample_stream n) k" and "can_read (sample_stream n) k"
  using assms unat_push3 [of n]
  by (simp_all add: sample_stream_def BitStream_new_def reset_def setMaxSizes_def can_write_def can_read_def stream_ok_def)

definition sample_message :: "(field_format \<times> field_value) list" where
  "sample_message = [(FmtFlag, ValFlag True), (FmtInt 5, ValInt 17), (FmtSigned 6, ValInt (- 9)),
     (FmtRanged 10 100, ValInt 42), (FmtEnum 5, ValInt 3), (FmtBuffer (\<lambda>_. 0), ValBytes [1, 2, 250])]"

lemma sample_message_valid: "list_all (\<lambda>(f, v). field_valid f v) sample_message"
  unfolding sample_message_def
  by (simp add: int_valid_def signed_valid_def ranged_valid_def enum_valid_def)

lemma message_roundtrip_witness:
  "\<exists>bs1. write_seq writeField sample_message (sample_stream 16) = Some bs1 \<and>
    read_seq readField (map fst sample_message) (setBitPosition (bitNum (sample_stream 16)) bs1) =
      Some (map snd sample_message, bs1)"
proof -
  have "unat (getNextBinLog2 5) \<le> 3" and "unat (getNextBinLog2 91) \<le> 7"
    using getNextBinLog2_least [of 5 3] getNextBinLog2_least [of 91 7] by simp_all
  then have "length (concat (map (\<lambda>(f, v). field_bits f v) sample_message)) \<le> 8 * 16"
    by (simp add: sample_message_def signed_bits_def ranged_width_def)
  then show ?thesis
    by (intro message_roundtrip [OF sample_message_valid refl] sample_stream_room) simp_all
qed


text \<open>
  C25: strings sent with prefix compression. Whatever the last string was, as long as both ends
  hold the same one, a sequence of strings of at most 255 characters comes out of the
  reader as it went into the writer.
\<close>
theorem prefix_strings_roundtrip:
  assumes "tables_ok T" and "\<forall>s \<in> set ss. length s \<le> 255 \<and> 0 \<notin> set s"
    and "length (mStringBuffer bs) = 256" and "length sb = 256" and "cstring sb = cstring (mStringBuffer bs)"
    and "length buf = 256"
    and "can_write bs (length (deltas (snd T) (mStringBuffer bs) ss))"
    and "can_read bs (length (deltas (snd T) (mStringBuffer bs) ss))"
  shows "\<exists>bs1 bs2. writeStrings T ss bs = Some bs1 \<and> bitNum bs2 = bitNum bs1 \<and>
    readStrings T buf (length ss) (bs1\<lparr>bitNum := bitNum bs, mStringBuffer := sb\<rparr>) = Some (ss, bs2)"
  using assms by (rule strings_roundtrip)

definition sample_strings :: "mem list" where
  "sample_strings = [[109, 97, 112, 47, 111, 110, 101], [109, 97, 112, 47, 116, 119, 111], []]"

lemma prefix_strings_roundtrip_witness:
  "\<exists>T bs1 bs2. buildTables (\<lambda>_. 0) (replicate 256 7) mCharFreqs = Some T \<and>
    writeStrings T sample_strings (sample_stream 64) = Some bs1 \<and> bitNum bs2 = bitNum bs1 \<and>
    readStrings T (replicate 256 9) (length sample_strings) (bs1\<lparr>bitNum := bitNum (sample_stream 64), mStringBuffer := replicate 256 0\<rparr>) =
      Some (sample_strings, bs2)"
proof -
  obtain T where T: "buildTables (\<lambda>_. 0) (replicate 256 7) mCharFreqs = Some T" "tables_ok T"
    using buildTables_char_freqs by blast
  have s: "\<forall>s \<in> set sample_strings. length s \<le> 255 \<and> 0 \<notin> set s" by (simp add: sample_strings_def)
  have sb: "mStringBuffer (sample_stream 64) = replicate 256 0"
    by (simp add: sample_stream_def BitStream_new_def reset_def setMaxSizes_def list_update_same_conv)
  have "length (deltas (snd T) (replicate 256 0) sample_strings) \<le> 8 * 64"
    using length_deltas [of sample_strings "replicate 256 0" "snd T"] by (simp add: sample_strings_def)
  then show ?thesis
    using prefix_strings_roundtrip [OF T(2) s, of "sample_stream 64" "replicate 256 0" "replicate 256 9"]
      sample_stream_room [of 64] T(1) by (auto simp: sb)
qed

text \<open>
  C24: the Huffman tables built from the frequency table of the source, whatever the stream object
  and the allocator leave in memory, cover all 256 characters with a prefix-free code in which no
  code is longer than 32 bits, as the type of the code field requires.
\<close>
theorem huffman_tables_prefix_free:
  "\<exists>T. buildTables fresh sbuf mCharFreqs = Some T \<and> tables_ok T \<and> prefix_free (snd T) \<and>
    list_all (\<lambda>c. length (char_bits (snd T) (of_nat c)) \<le> 32) [0..<256]"
proof -
  obtain T where T: "buildTables fresh sbuf mCharFreqs = Some T" "tables_ok T"
    using buildTables_char_freqs by blast
  then show ?thesis using tables_prefix_free length_char_bits [OF T(2)] by (auto simp: list_all_iff)
qed

text \<open>
  C28: \<^verbatim>\<open>writeBits\<close>, with its three paths of masking, copying and shifting, stores exactly the
  first \<open>n\<close> bits of the source at the bit position, one after the other, and changes no
  other bit of the block.
\<close>
theorem writeBits_is_bitwise:
  assumes "0 < n" and "pos + n \<le> 8 * length m" and "n \<le> 8 * length src"
  shows "writeBits_mem n src pos m = Some (put_bits m pos (get_bits src 0 n))"
  using assms by (rule writeBits_mem_eq)

lemma writeBits_is_bitwise_witness:
  "writeBits_mem 11 [0xAB, 0xCD] 3 [0, 0xFF, 0xFF] = Some (put_bits [0, 0xFF, 0xFF] 3 (get_bits [0xAB, 0xCD] 0 11))"
  by (rule writeBits_is_bitwise) simp_all

text \<open>
  C29: \<^verbatim>\<open>readBits\<close> returns the \<open>n\<close> bits from the position on, without an access outside the
  block, in as many bytes as they need.
\<close>
theorem readBits_is_bitwise:
  assumes "0 < n" and "pos + n \<le> 8 * length m"
  shows "\<exists>out. readBits_mem n pos m = Some out \<and> length out = (n + 7) div 8 \<and>
    get_bits out 0 n = get_bits m pos n"
  using assms by (rule readBits_mem_spec)

lemma readBits_is_bitwise_witness:
  "\<exists>out. readBits_mem 13 5 [0x12, 0x34, 0x56] = Some out \<and> length out = (13 + 7) div 8 \<and>
    get_bits out 0 13 = get_bits [0x12, 0x34, 0x56] 5 13"
  by (rule readBits_is_bitwise) simp_all

section \<open>Packets and connections\<close>

text \<open>
  C2: a data packet crosses, encrypted or not. What the sender's \<^verbatim>\<open>writeRawPacket\<close> hands to the socket is
  opened by the receiver that holds the same key and initial vector: its \<^verbatim>\<open>readPacketHeader\<close> accepts the
  sender's full 32-bit sequence number, acknowledgement number and mask, although the packet carries the low 11 and 10
  bits of the numbers, the rates sent along are taken over, and the stream handed to
  \<^verbatim>\<open>readPacket\<close> starts with exactly the bits \<^verbatim>\<open>writePacket\<close> wrote. The numbers have to lie in the
  receiver's windows and may wrap.
\<close>
theorem data_packet_arrives:
  fixes s :: "('n, 'x) net_connection" and r :: "('m, 'y) net_connection"
  assumes "conn_ok s" "\<not> windowFull s" "rate_valid (mLocalRate s)" and "length (packetBlock e) = 1500" "length (packetBlock e') = 1500"
    and "unat target \<le> 1500" and "writes_payload cls ys" "length ys \<le> 11800"
    and "same_key (mSymmetricCipher s) (mSymmetricCipher r)"
    and "mLastSendSeq s + 1 - mLastSeqRecvd r < MaxPacketWindowSize"
      "mLastSeqRecvd s - mHighestAckedSeq r < AckSequenceNumberWindowSize" "mLastSeqRecvd s \<le> mLastSendSeq r"
  shows "\<exists>bs s' k' b. writeRawPacket cls e DataPacket (PacketStream_new e target) s = Some (bs, s') \<and>
    readPacketHeader cls' e' (PacketStream_recvfrom e' (take (unat (getBytePosition bs)) (mDataPtr bs))) r = do {
      (data, c) \<leftarrow> acceptHeader cls' e' DataPacket (mLastSendSeq s + 1) (mLastSeqRecvd s)
        (ack_mask_of (ackByteCount s) (mAckMask s)) (push_bit 3 (drop_bit 3 (currentDelay e s)) + 4)
        (r\<lparr>mSymmetricCipher := k'\<rparr>);
      Some (data, b, c) } \<and>
    (\<forall>c :: ('m, 'y) net_connection. readPacketRateInfo b c = Some (skip_bits (length (rate_info_bits s)) b, rate_received s c)) \<and>
    next_bits (skip_bits (length (rate_info_bits s)) b) (length ys) = ys"
  using data_packet_crosses [OF assms, of cls'] by blast

text \<open>A class that writes the bits \<open>101\<close>, and a key.\<close>

definition sample_class :: "(unit, unit) conn_class" where
  "sample_class = (base_class ())\<lparr>writePacket := (\<lambda>bs note c. do {
     bs \<leftarrow> writeInt 5 3 bs; Some (bs, note, c) })\<rparr>"

definition sample_cipher :: symmetric_cipher where
  "sample_cipher = \<lparr>mCounter = [1, 2, 3, 4], mInitVector = [1, 2, 3, 4], mPad = replicate 16 0,
     mSymmetricKey = (\<lambda>b. map (\<lambda>i. of_nat i * 7 + 3) [0..<16]), mPadLen = 0\<rparr>"

lemma sample_cipher_ready: "cipher_ready sample_cipher"
  by (simp add: sample_cipher_def cipher_ready_def cipher_ok_def block_fun_def)

lemma sample_bits: "int_bits 3 (5 :: u32) = [True, False, True]"
  by (simp add: int_bits_def numeral_3_eq_3)

lemma sample_writes: "writes_payload sample_class [True, False, True]"
proof -
  have "writeInt 5 3 bs = Some (append_bits [True, False, True] bs)" if "can_write bs 3" for bs
    using writeInt_fits [of bs 3 5] that sample_bits by simp
  then show ?thesis by (simp add: writes_payload_def sample_class_def numeral_3_eq_3)
qed

lemma data_packet_arrives_witness:
  "let s = (sample_connection 2047 (- 5))\<lparr>mSymmetricCipher := Some sample_cipher\<rparr>;
       r = (sample_connection (- 5) 2040)\<lparr>mSymmetricCipher := Some sample_cipher\<rparr>
   in \<exists>bs s' k' b. writeRawPacket sample_class sample_env DataPacket (PacketStream_new sample_env 200) s = Some (bs, s') \<and>
     readPacketHeader (base_class ()) sample_env (PacketStream_recvfrom sample_env (take (unat (getBytePosition bs)) (mDataPtr bs))) r = do {
       (data, c) \<leftarrow> acceptHeader (base_class ()) sample_env DataPacket 2048 (- 5) (ack_mask_of (ackByteCount s) (mAckMask s))
         (push_bit 3 (drop_bit 3 (currentDelay sample_env s)) + 4) (r\<lparr>mSymmetricCipher := k'\<rparr>);
       Some (data, b, c) } \<and>
     next_bits (skip_bits (length (rate_info_bits s)) b) 3 = [True, False, True]"
proof -
  let ?s = "(sample_connection 2047 (- 5))\<lparr>mSymmetricCipher := Some sample_cipher\<rparr>"
    and ?r = "(sample_connection (- 5) 2040)\<lparr>mSymmetricCipher := Some sample_cipher\<rparr>"
  have 1: "conn_ok ?s" using conn_ok_cipher [OF sample_connection_ok [of 2047 "- 5"]] sample_cipher_ready by simp
  have 2: "\<not> windowFull ?s" using sample_window by simp
  have 3: "rate_valid (mLocalRate ?s)"
    by (simp add: sample_connection_fields rate_valid_def defaultRate_def DefaultFixedBandwidth_def DefaultFixedSendPeriod_def)
  have 4: "length [True, False, True] \<le> 11800" "same_key (mSymmetricCipher ?s) (mSymmetricCipher ?r)"
      "mLastSendSeq ?s + 1 - mLastSeqRecvd ?r < MaxPacketWindowSize"
      "mLastSeqRecvd ?s - mHighestAckedSeq ?r < AckSequenceNumberWindowSize" "mLastSeqRecvd ?s \<le> mLastSendSeq ?r"
      "unat (200 :: u32) \<le> 1500"
    by (simp_all add: sample_connection_fields same_key_def window_constants)
  have 5: "mLastSendSeq ?s + 1 = 2048" "mLastSeqRecvd ?s = - 5" "length [True, False, True] = 3" by (simp_all add: sample_connection_fields)
  show ?thesis
    using data_packet_arrives [OF 1 2 3 sample_block sample_block 4(6) sample_writes 4(1-5), of "base_class ()"]
    unfolding Let_def 5 by blast
qed


text \<open>A datagram with the header of the data packet number 1, and nothing else.\<close>

definition sample_bytes :: mem where "sample_bytes = [0x84, 0, 0, 0, 0]"

lemma sample_packet:
  defines "q \<equiv> PacketStream_recvfrom sample_env sample_bytes"
  shows "packet_ok q" and "can_read q 35" and "next_bits q 35 = header_bits DataPacket 1 0 0 0 0"
proof -
  note f = recvfrom_fields [of sample_bytes sample_env, folded q_def]
  have l: "length sample_bytes = 5" by (simp add: sample_bytes_def)
  show "packet_ok q" unfolding q_def by (rule recvfrom_packet_ok) (simp_all add: l)
  show "can_read q 35" using f l by (simp add: can_read_def stream_ok_def)
  have "get_bits sample_bytes 0 35 = header_bits DataPacket 1 0 0 0 0" by code_simp
  then show "next_bits q 35 = header_bits DataPacket 1 0 0 0 0"
    using f l get_bits_prefix [of 5 sample_bytes 35] by (simp add: next_bits_def)
qed



definition sample_ticks :: "(packet_env \<times> u32) list" where
  "sample_ticks = [(sample_env, 6000), (sample_env, 12000), (sample_env, 18000), (sample_env, 24000)]"




text \<open>
  C30: a number of which a packet carries the low bits is restored from the last number seen, whenever it is less than
  a window ahead of it, also when the sum of the two wraps at \<open>2 ^ 32\<close>.
\<close>
theorem partial_numbers_restored:
  assumes "k < 32" and "s - prev < push_bit k 1"
  shows "fullSequence (push_bit k 1) prev (take_bit k s) = s"
  using fullSequence_restores [OF refl assms] .

lemma partial_numbers_restored_witness:
  "fullSequence 2048 0xFFFFFFF0 (take_bit 11 5) = 5"
  using partial_numbers_restored [of 11 5 "0xFFFFFFF0"] by simp

text \<open>The same header with the acknowledgement of packet 1.\<close>

definition sample_ack_bytes :: mem where "sample_ack_bytes = [0x84, 0x40, 0, 0, 0]"

lemma sample_ack_packet:
  "can_read (PacketStream_recvfrom sample_env sample_ack_bytes) 35"
  "next_bits (PacketStream_recvfrom sample_env sample_ack_bytes) 35 = header_bits DataPacket 1 1 0 0 0"
proof -
  note f = recvfrom_fields [of sample_ack_bytes sample_env]
  have l: "length sample_ack_bytes = 5" by (simp add: sample_ack_bytes_def)
  show "can_read (PacketStream_recvfrom sample_env sample_ack_bytes) 35" using f l by (simp add: can_read_def stream_ok_def)
  have "get_bits sample_ack_bytes 0 35 = header_bits DataPacket 1 1 0 0 0" by code_simp
  then show "next_bits (PacketStream_recvfrom sample_env sample_ack_bytes) 35 = header_bits DataPacket 1 1 0 0 0"
    using f l get_bits_prefix [of 5 sample_ack_bytes 35] by (simp add: next_bits_def)
qed

text \<open>
  C36: a header that acknowledges packets and carries no acknowledgement mask makes the reader use the
  uninitialised words of its local mask. Such a header needs no key on a connection without encryption.
\<close>
theorem maskless_header_undefined:
  assumes "can_read bs 35" and "next_bits bs 35 = header_bits t s a 0 m d"
    and "mSymmetricCipher c = None" and "t < InvalidPacketType" and "unat d < 256"
    and "s - mLastSeqRecvd c < MaxPacketWindowSize"
    and "a \<noteq> mHighestAckedSeq c" "a - mHighestAckedSeq c < AckSequenceNumberWindowSize" "a \<le> mLastSendSeq c"
  shows "readPacketHeader cls e bs c = None"
  using assms by (rule maskless_header_faults)

lemma maskless_header_undefined_witness:
  "readPacketHeader (base_class ()) sample_env (PacketStream_recvfrom sample_env sample_ack_bytes)
     ((sample_connection 0 0)\<lparr>mLastSendSeq := 1\<rparr>) = None"
  using maskless_header_undefined [OF sample_ack_packet, of "(sample_connection 0 0)\<lparr>mLastSendSeq := 1\<rparr>" "base_class ()" sample_env]
  by (simp add: sample_connection_fields window_constants packet_types)

text \<open>
  C39: two packets that carry the same sequence number, acknowledgement and type, such as a repeated
  ping, are encrypted from the same counter: the exclusive or of what is sent is the exclusive or of the clear bytes.
\<close>
theorem repeated_counter_leaks:
  assumes "encrypt p (setupCounter n a t 0 k) = Some (c, k1)" and "encrypt q (setupCounter n a t 0 k) = Some (d, k2)"
    and "length p = length q" "length p \<le> 16" and "cipher_ready k"
  shows "map2 (XOR) c d = map2 (XOR) p q"
  using assms by (rule same_counter_leaks)

lemma repeated_counter_leaks_witness:
  "\<exists>c d k1 k2. encrypt [1, 2, 3] (setupCounter 4 5 1 0 sample_cipher) = Some (c, k1) \<and>
     encrypt [9, 9, 9] (setupCounter 4 5 1 0 sample_cipher) = Some (d, k2) \<and> map2 (XOR) c d = map2 (XOR) [1, 2, 3] [9, 9, 9]"
proof -
  let ?s = "setupCounter 4 5 1 0 sample_cipher"
  have r: "cipher_ok ?s" "block_fun (mSymmetricKey ?s)"
    using setupCounter_ok [of sample_cipher 4 5 1 0] sample_cipher_ready by (simp_all add: cipher_ready_def)
  obtain c k1 where c: "encrypt [1, 2, 3] ?s = Some (c, k1)" using encrypt_total [OF r] by blast
  obtain d k2 where d: "encrypt [9, 9, 9] ?s = Some (d, k2)" using encrypt_total [OF r] by blast
  have "map2 (XOR) c d = map2 (XOR) [1, 2, 3] [9, 9, 9]"
    using repeated_counter_leaks [OF c d _ _ sample_cipher_ready] by simp
  then show ?thesis using c d by blast
qed

section \<open>Encryption and hashing\<close>

text \<open>
  C23: what \<^verbatim>\<open>decryptAndCheckHash\<close> accepts carries its signature: behind the message it leaves in the buffer stand the
  first bytes of the message's SHA-256, and the signature is cut off.
\<close>
theorem accepted_packet_is_signed:
  assumes "decryptAndCheckHash dsize off k bs = Some (True, bs', k')" and "unat dsize \<le> unat (mBufSize bs)"
  shows "unat (mBufSize bs') = unat (mBufSize bs) - unat dsize \<and>
    slice (mDataPtr bs') (unat (mBufSize bs')) (unat dsize) = Some (take (unat dsize) (sha256 (contents bs')))"
  using assms by (rule decryptAndCheckHash_accepts)

lemma sample_data_packet:
  "packet_with (replicate 24 False) (append_bits (replicate 24 False) (PacketStream_new sample_env 200))"
  using append_packet_with [of sample_env 200 "replicate 24 False" False] by (simp add: packet_with_def stream_ok_def)

lemma accepted_packet_is_signed_witness:
  "\<exists>bs b k'. decryptAndCheckHash 5 3 sample_cipher bs = Some (True, b, k') \<and> unat (mBufSize b) = unat (mBufSize bs) - 5 \<and>
    slice (mDataPtr b) (unat (mBufSize b)) 5 = Some (take 5 (sha256 (contents b)))"
proof -
  obtain bs' k' where "hashAndEncrypt 5 3 sample_cipher (append_bits (replicate 24 False) (PacketStream_new sample_env 200)) = Some (bs', k')"
    and q: "let q = PacketStream_recvfrom sample_env (take (unat (getBytePosition bs')) (mDataPtr bs')) in
     \<exists>b. decryptAndCheckHash 5 3 sample_cipher (skip_bits 24 q) = Some (True, b, k')"
    using sealed_arrives [OF sample_data_packet sample_block sample_cipher_ready] unfolding Let_def by blast
  define q where "q = skip_bits 24 (PacketStream_recvfrom sample_env (take (unat (getBytePosition bs')) (mDataPtr bs')))"
  obtain b where b: "decryptAndCheckHash 5 3 sample_cipher q = Some (True, b, k')" using q unfolding Let_def q_def by blast
  then have "\<not> mBufSize q < 3 + 5" by (auto simp: decryptAndCheckHash_def Let_def)
  then have "unat (5 :: u32) \<le> unat (mBufSize q)" by (simp add: word_le_nat_alt word_less_nat_alt)
  from accepted_packet_is_signed [OF b this] b show ?thesis by auto
qed

text \<open>
  C19: SHA-256 over a message fed to \<^verbatim>\<open>sha256_process\<close> in any pieces is SHA-256 of the message: block
  buffering, length count and padding of the streaming code compute the function that splits the padded message.
\<close>
theorem sha256_of_pieces:
  assumes "length (hs_buf md) = 64"
  shows "sha256_done (sha256.process_all (sha256_init md) ds) = (CRYPT_OK, sha256 (concat ds))"
  using assms by (rule sha256_pieces)

lemma sha256_of_pieces_witness:
  "sha256_done (sha256.process_all (sha256_init (raw_state (replicate 64 0xCC))) [[97], [], [98, 99]]) = (CRYPT_OK, sha256 [97, 98, 99])"
  using sha256_of_pieces [of "raw_state (replicate 64 0xCC)" "[[97], [], [98, 99]]"] by (simp add: raw_state_def)

text \<open>
  C22: the stream cipher. What one end encrypts in any number of calls the other end, in the same state, decrypts to
  the clear bytes with as many calls; the feedback through the pad keeps the two in step over every block border.
\<close>
theorem cipher_roundtrip:
  assumes "cipher_ready s"
  shows "\<exists>cs s'. tnl_cipher.enc_all ps s = Some (cs, s') \<and> tnl_cipher.dec_all cs s = Some (ps, s')"
  using assms tnl_cipher.all_roundtrip [of s ps] by (simp add: cipher_ready_def)

lemma cipher_roundtrip_witness:
  "\<exists>cs s'. tnl_cipher.enc_all [[1, 2, 3], replicate 40 9] sample_cipher = Some (cs, s') \<and>
     tnl_cipher.dec_all cs sample_cipher = Some ([[1, 2, 3], replicate 40 9], s')"
  by (rule cipher_roundtrip [OF sample_cipher_ready])



text \<open>
  C21: \<^verbatim>\<open>rijndael_ecb_decrypt\<close> with the inverse key schedule undoes \<^verbatim>\<open>rijndael_ecb_encrypt\<close> for every key that
  \<^verbatim>\<open>rijndael_setup\<close> accepts.
\<close>
theorem aes_decrypts:
  assumes "keylen \<le> length key" and "rijndael_setup key keylen nrounds skey = Some (CRYPT_OK, k)" and "length pt = 16"
  shows "\<exists>ct. rijndael_ecb_encrypt pt k = Some ct \<and> length ct = 16 \<and> rijndael_ecb_decrypt ct k = Some pt"
  using decrypt_encrypt_block [OF setup_accepts [OF assms(1,2)] assms(3)] .

lemma aes_decrypts_witness:
  "\<exists>k ct. rijndael_setup (replicate 24 3) 24 12 \<lparr>eK = replicate 64 0, dK = replicate 64 0, Nr = 0\<rparr> = Some (CRYPT_OK, k) \<and>
    rijndael_ecb_encrypt (replicate 16 7) k = Some ct \<and> rijndael_ecb_decrypt ct k = Some (replicate 16 7)"
proof -
  have l: "24 \<le> length (replicate 24 (3 :: u8))" and p: "length (replicate 16 (7 :: u8)) = 16" by simp_all
  obtain k where k: "rijndael_setup (replicate 24 3) 24 12 \<lparr>eK = replicate 64 0, dK = replicate 64 0, Nr = 0\<rparr> = Some (CRYPT_OK, k)"
    using setup_ok [OF _ l, of 12] by (auto simp: key_rounds_def)
  then show ?thesis using aes_decrypts [OF l k p] by blast
qed

text \<open>
  \<^verbatim>\<open>rijndael_test\<close> on a key and a block answers \<open>CRYPT_OK\<close> exactly when the cipher gives the known answer: the round trips it makes
  besides, of the block and of a thousand encryptions, cannot fail.
\<close>
theorem aes_self_test:
  assumes "keylen \<in> {16, 24, 32}" and "keylen \<le> length key" and "length pt = 16"
  shows "\<exists>k c. rijndael_setup key keylen 0 \<lparr>eK = replicate 64 0, dK = replicate 64 0, Nr = 0\<rparr> = Some (CRYPT_OK, k) \<and>
    rijndael_ecb_encrypt pt k = Some c \<and>
    rijndael_test_one (keylen, key, pt, ct) = Some (if c = ct then CRYPT_OK else CRYPT_FAIL_TESTVECTOR)"
  using assms by (rule test_one_iff)

lemma aes_self_test_witness:
  "\<exists>r. rijndael_test_one (16, replicate 16 1, replicate 16 2, replicate 16 3) = Some r \<and> r \<in> {CRYPT_OK, CRYPT_FAIL_TESTVECTOR}"
  using aes_self_test [of 16 "replicate 16 1" "replicate 16 2" "replicate 16 3"] by auto

section \<open>Buffers and limits\<close>

text \<open>
  A write to a resizable stream does not fail for lack of room: the buffer grows, the bits written so far stay, and the
  new bits follow them.
\<close>
theorem growable_write_succeeds:
  assumes "growable bs" and "unat (bitNum bs) \<le> unat (maxWriteBitNum bs)" and "n \<noteq> 0"
    and "unat (maxWriteBitNum bs) + unat n + 12040 < 2 ^ 32" and "unat n \<le> 8 * length src"
  shows "\<exists>bs'. writeBits n src bs = Some (True, bs') \<and> growable bs' \<and> error bs' = error bs \<and>
    unat (bitNum bs') = unat (bitNum bs) + unat n \<and> unat (bitNum bs') \<le> unat (maxWriteBitNum bs') \<and>
    (\<forall>p < unat (bitNum bs). bit_at (mDataPtr bs') p = bit_at (mDataPtr bs) p) \<and>
    (\<forall>p < unat n. bit_at (mDataPtr bs') (unat (bitNum bs) + p) = bit_at src p)"
  using assms by (rule writeBits_growable)

lemma growable_write_succeeds_witness:
  "\<exists>bs'. writeBits 20000 (replicate 2500 7) (BitStream_resizable (\<lambda>_. 1) (replicate 256 0)) = Some (True, bs') \<and>
     growable bs' \<and> unat (bitNum bs') = 20000"
proof -
  let ?b = "BitStream_resizable (\<lambda>_. 1) (replicate 256 0)"
  have f: "bitNum ?b = 0" "unat (maxWriteBitNum ?b) = 12000" by (simp_all add: BitStream_resizable_def reset_def setMaxSizes_def)
  have "unat (20000 :: u32) \<le> 8 * length (replicate 2500 (7 :: u8))" by simp
  from growable_write_succeeds [OF growable_new _ _ _ this, of "\<lambda>_. 1" "replicate 256 0"] f show ?thesis by auto
qed

text \<open>
  \<^verbatim>\<open>readFlag\<close> at the end of the packet, where every other read fails and notes the error, returns the bit behind the end
  and notes nothing.
\<close>
theorem readFlag_reads_past_end:
  assumes "bitNum bs = maxReadBitNum bs" and "unat (maxReadBitNum bs) < 8 * length (mDataPtr bs)"
    and "0 < unat n" "unat n \<le> 32" "unat (maxReadBitNum bs) < 2 ^ 31"
  shows "readFlag bs = Some (bit_at (mDataPtr bs) (unat (bitNum bs)), bs\<lparr>bitNum := bitNum bs + 1\<rparr>) \<and>
    readInt n bs = Some (0, bs\<lparr>error := True\<rparr>)"
  using readFlag_at_limit [OF assms(1,2)] readInt_at_limit [OF assms(1,3-5)] by blast

lemma readFlag_reads_past_end_witness:
  "let bs = (sample_stream 4)\<lparr>maxReadBitNum := 3, bitNum := 3\<rparr> in
   readFlag bs = Some (True, bs\<lparr>bitNum := 4\<rparr>) \<and> readInt 1 bs = Some (0, bs\<lparr>error := True\<rparr>)"
proof -
  let ?b = "(sample_stream 4)\<lparr>maxReadBitNum := 3, bitNum := 3\<rparr>"
  have m: "mDataPtr ?b = [0xFF, 0xFF, 0xFF, 0xFF]"
    by (simp add: sample_stream_def BitStream_new_def reset_def setMaxSizes_def numeral_eq_Suc)
  have "bit_at [0xFF, 0xFF, 0xFF, 0xFF] 3" by code_simp
  then show ?thesis using readFlag_reads_past_end [of ?b 1] m by simp
qed

text \<open>
  The bytes of a buffer written in base 16 are read back from the digits, for every buffer below two gigabytes.
\<close>
lemma base16_roundtrip:
  assumes "buffer_ok b" and "unat (mBufSize b) < 2 ^ 31"
  shows "\<exists>e d. encodeBase16 b = Some e \<and> decodeBase16 e = Some d \<and> contents d = contents b"
proof -
  obtain e where e: "encodeBase16 b = Some e" "contents e = encodeBase16_loop (contents b) @ [0]"
      "unat (mBufSize e) = 2 * unat (mBufSize b) + 1" "buffer_ok e"
    using encodeBase16_total [OF assms] by blast
  have l: "length (contents b) = unat (mBufSize b)" using assms by (simp add: contents_def buffer_ok_def)
  have "take (2 * unat (mBufSize b)) (mDataPtr e) = take (2 * unat (mBufSize b)) (contents e)"
    using e(3) by (simp add: contents_def min_def)
  also have "\<dots> = encodeBase16_loop (contents b)" using e(2) l by simp
  finally show ?thesis using decodeBase16_total [OF e(4)] e(1,3) by (auto simp: decode_encode_loop)
qed

lemma base16_roundtrip_witness:
  "\<exists>e d. encodeBase16 (ByteBuffer_wrap (\<lambda>_. 0) [0xDE, 0xAD] 2) = Some e \<and> decodeBase16 e = Some d \<and> contents d = [0xDE, 0xAD]"
  using base16_roundtrip [of "ByteBuffer_wrap (\<lambda>_. 0) [0xDE, 0xAD] 2"]
  by (simp add: ByteBuffer_wrap_def buffer_ok_def contents_def)

text \<open>
  The decoder takes the capital digits \<open>B\<close> to \<open>F\<close> for 0, though it means to read them.
\<close>
lemma base16_capitals_lost:
  assumes "66 \<le> h" and "h \<le> 70"
  shows "decodeHigh h = 0 \<and> decodeLow h = 0"
  using assms by (rule uppercase_lost)

lemma base16_capitals_lost_witness: "decodeHigh 0x46 = 0 \<and> decodeLow 0x46 = 0"
  by (rule base16_capitals_lost) simp_all

text \<open>
  C40: the table-driven CRC is the bit-serial CRC-32 of the bytes from \<open>start\<close> to \<open>end\<close>, clipped to the buffer.
\<close>
theorem crc_is_serial:
  assumes "buffer_ok b" and "start < mBufSize b"
  shows "calculateCRC start end crcVal b =
    Some (foldl crcByteSerial crcVal (drop (unat start) (take (unat end) (contents b))))"
  using assms by (rule calculateCRC_serial)

lemma crc_is_serial_witness:
  "calculateCRC 1 9 0xFFFFFFFF (ByteBuffer_wrap (\<lambda>_. 0) [1, 2, 3] 3) = Some (foldl crcByteSerial 0xFFFFFFFF [2, 3])"
  using crc_is_serial [of "ByteBuffer_wrap (\<lambda>_. 0) [1, 2, 3] 3" 1 9]
  by (simp add: ByteBuffer_wrap_def buffer_ok_def contents_def)

text \<open>
  A CRC continued from a point inside the buffer is the CRC of the whole.
\<close>
lemma crc_continues:
  assumes "buffer_ok b" and "start < mid" and "mid < mBufSize b" and "mid \<le> end" and "calculateCRC start mid c b = Some c'"
  shows "calculateCRC mid end c' b = calculateCRC start end c b"
  using assms by (rule calculateCRC_incremental)

lemma crc_continues_witness:
  "\<exists>c'. calculateCRC 0 2 0xFFFFFFFF (ByteBuffer_wrap (\<lambda>_. 0) [1, 2, 3] 3) = Some c' \<and>
     calculateCRC 2 3 c' (ByteBuffer_wrap (\<lambda>_. 0) [1, 2, 3] 3) = calculateCRC 0 3 0xFFFFFFFF (ByteBuffer_wrap (\<lambda>_. 0) [1, 2, 3] 3)"
proof -
  let ?b = "ByteBuffer_wrap (\<lambda>_. 0) [1, 2, 3] 3"
  have ok: "buffer_ok ?b" "mBufSize ?b = 3" by (simp_all add: ByteBuffer_wrap_def buffer_ok_def)
  obtain c' where c: "calculateCRC 0 2 0xFFFFFFFF ?b = Some c'" using calculateCRC_serial [OF ok(1), of 0 2] ok(2) by auto
  then show ?thesis using crc_continues [OF ok(1) _ _ _ c, of 3] ok(2) by simp
qed

text \<open>
  The width \<^verbatim>\<open>getNextBinLog2\<close> computes through the exponent of a single-precision number holds every value below its
  argument, and up to \<open>2 ^ 24\<close> it is the least such width.
\<close>
theorem bin_log_width:
  assumes "v \<noteq> 0"
  shows "unat v \<le> 2 ^ unat (getNextBinLog2 v) \<and>
    (unat v < 2 ^ 24 \<longrightarrow> (\<forall>k. unat v \<le> 2 ^ k \<longrightarrow> unat (getNextBinLog2 v) \<le> k))"
  using getNextBinLog2_covers [OF assms] getNextBinLog2_least [OF assms] by blast

lemma bin_log_width_witness: "5 \<le> (2 :: nat) ^ unat (getNextBinLog2 5) \<and> unat (getNextBinLog2 5) \<le> 3"
  using bin_log_width [of 5] by simp

text \<open>
  C38: a string with a prefix offset from the peer overruns the string buffer of the stream when offset and length add up to more
  than its 255 characters and the terminator: neither end checks the sum.
\<close>
theorem string_prefix_overrun:
  assumes "length s \<le> 255" and "off \<le> 255" and "length (mStringBuffer bs) \<le> off + length s"
    and "xs = True # int_bits 8 (of_nat off :: u32) @ False # int_bits 8 (of_nat (length s) :: u32) @ raw_bits s"
    and "can_read bs (length xs)" and "next_bits bs (length xs) = xs"
  shows "readString T buf bs = None"
  using assms by (rule readString_overflow)

lemma string_prefix_overrun_witness:
  "\<exists>bs. length (mStringBuffer bs) = 256 \<and> can_read bs 26 \<and> readString ([], []) (replicate 256 0) bs = None"
proof -
  let ?xs = "True # int_bits 8 (of_nat 255 :: u32) @ False # int_bits 8 (of_nat (length [65 :: u8]) :: u32) @ raw_bits [65]"
  let ?b = "(append_bits ?xs (sample_stream 64))\<lparr>bitNum := bitNum (sample_stream 64)\<rparr>"
  have l: "length ?xs = 26" by (simp add: raw_bits_def)
  have w: "can_write (sample_stream 64) (length ?xs)" "can_read (sample_stream 64) (length ?xs)"
    unfolding l by (rule sample_stream_room; simp)+
  have nb: "next_bits ?b (length ?xs) = ?xs" by (rule next_bits_append_bits [OF w(1)])
  have r: "can_read ?b (length ?xs)" using w by (simp add: can_read_def append_bits_def stream_ok_def)
  have sb: "length (mStringBuffer ?b) = 256"
    by (simp add: append_bits_def sample_stream_def BitStream_new_def reset_def setMaxSizes_def)
  have "readString ([], []) (replicate 256 0) ?b = None"
    using sb by (intro string_prefix_overrun [OF _ _ _ refl r nb]) simp_all
  then show ?thesis using sb r unfolding l by blast
qed

end
